(* ===== verification/Prelude.thy ===== *)
theory Prelude
  imports Main "HOL-Library.Word"
begin

text \<open>
  Shared vocabulary of the development: the machine integer types of the C++ sources, the
  theorem collections the component theories fill, and the generic lemmas on words, lists
  and real-mode addresses that several components use.
\<close>

unbundle bit_operations_syntax

type_synonym u8 = "8 word"
type_synonym u16 = "16 word"
type_synonym u32 = "32 word"
type_synonym u64 = "64 word"

named_theorems mem_simps \<open>reads over writes of guest memory\<close>
named_theorems reg_simps \<open>reads over writes of guest registers\<close>
named_theorems addr_simps \<open>equality and order of real-mode addresses\<close>

section \<open>Bytes of wider words\<close>

definition lo8 :: "u16 \<Rightarrow> u8" where
  "lo8 v = ucast v"

definition hi8 :: "u16 \<Rightarrow> u8" where
  "hi8 v = ucast (drop_bit 8 v)"

definition mk16 :: "u8 \<Rightarrow> u8 \<Rightarrow> u16" where
  "mk16 l h = ucast l OR push_bit 8 (ucast h)"

definition lo16 :: "u32 \<Rightarrow> u16" where
  "lo16 v = ucast v"

definition hi16 :: "u32 \<Rightarrow> u16" where
  "hi16 v = ucast (drop_bit 16 v)"

definition mk32 :: "u16 \<Rightarrow> u16 \<Rightarrow> u32" where
  "mk32 l h = ucast l OR push_bit 16 (ucast h)"

lemma mk16_bytes [simp]: "mk16 (lo8 v) (hi8 v) = v"
  by (rule bit_word_eqI) (auto simp: mk16_def lo8_def hi8_def bit_simps)

lemma lo8_mk16 [simp]: "lo8 (mk16 l h) = l"
  by (rule bit_word_eqI) (auto simp: mk16_def lo8_def bit_simps)

lemma hi8_mk16 [simp]: "hi8 (mk16 l h) = h"
  by (rule bit_word_eqI) (auto simp: mk16_def hi8_def bit_simps dest: bit_imp_le_length)

lemma mk32_halves [simp]: "mk32 (lo16 v) (hi16 v) = v"
  by (rule bit_word_eqI) (auto simp: mk32_def lo16_def hi16_def bit_simps)

lemma lo16_mk32 [simp]: "lo16 (mk32 l h) = l"
  by (rule bit_word_eqI) (auto simp: mk32_def lo16_def bit_simps)

lemma hi16_mk32 [simp]: "hi16 (mk32 l h) = h"
  by (rule bit_word_eqI) (auto simp: mk32_def hi16_def bit_simps dest: bit_imp_le_length)

lemma unat_u8_less: "unat (x :: u8) < 256"
  using unsigned_less [of x] by simp

lemma unat_u16_less: "unat (x :: u16) < 65536"
  using unsigned_less [of x] by simp

lemma unat_u32_less: "unat (x :: u32) < 4294967296"
  using unsigned_less [of x] by simp

lemma unat_of_nat_u8: "n < 256 \<Longrightarrow> unat (of_nat n :: u8) = n"
  by (simp add: unat_of_nat)

lemma unat_of_nat_u16: "n < 65536 \<Longrightarrow> unat (of_nat n :: u16) = n"
  by (simp add: unat_of_nat)

lemma unat_of_nat_u32: "n < 4294967296 \<Longrightarrow> unat (of_nat n :: u32) = n"
  by (simp add: unat_of_nat)

lemma unat_ucast_u16: "unat (ucast (x :: u16) :: u32) = unat x"
  using unat_u16_less [of x] by (simp add: unsigned_ucast_eq take_bit_nat_eq_self)

text \<open>Masks written as numerals.\<close>

lemma and_numeral_mask:
  "(x :: u8) AND 0x0F = take_bit 4 x" "(x16 :: u16) AND 0xFF = take_bit 8 x16"
  "(x32 :: u32) AND 0xFF = take_bit 8 x32" "x32 AND 0x0F = take_bit 4 x32"
  "x32 AND 0xFFFF = take_bit 16 x32" "x32 AND 0xFFFFF = take_bit 20 x32"
  "x16 AND 7 = take_bit 3 x16"
  by (simp_all add: take_bit_eq_mask mask_eq_exp_minus_1)

lemma ucast_take_bit_8 [simp]:
  "(ucast (take_bit 8 (v :: u32)) :: u8) = ucast v" "(ucast (take_bit 8 (w :: u16)) :: u8) = ucast w"
  by (rule bit_word_eqI; auto simp: bit_simps)+

lemma u32_of_bytes:
  "ucast (ucast v :: u8) OR push_bit 8 (ucast (ucast (drop_bit 8 v) :: u8))
    OR push_bit 16 (ucast (ucast (drop_bit 16 v) :: u8))
    OR push_bit 24 (ucast (ucast (drop_bit 24 v) :: u8)) = (v :: u32)"
proof (rule bit_word_eqI)
  fix n assume "n < LENGTH(32)"
  then consider "n < 8" | "8 \<le> n" "n < 16" | "16 \<le> n" "n < 24" | "24 \<le> n" "n < 32"
    by fastforce
  then show "bit (ucast (ucast v :: u8) OR push_bit 8 (ucast (ucast (drop_bit 8 v) :: u8))
    OR push_bit 16 (ucast (ucast (drop_bit 16 v) :: u8))
    OR push_bit 24 (ucast (ucast (drop_bit 24 v) :: u8)) :: u32) n = bit v n"
    by cases (auto simp: bit_simps)
qed

section \<open>Real-mode addresses\<close>

definition seg_lin :: "u16 \<Rightarrow> u32" where
  "seg_lin s = ucast s * 16"

lemma unat_seg_lin [addr_simps]: "unat (seg_lin s) = unat s * 16"
proof -
  have "unat s < 65536" by (rule unat_u16_less)
  then show ?thesis
    by (simp add: seg_lin_def unat_word_ariths unsigned_ucast_eq take_bit_nat_eq_self)
qed

lemma unat_seg_lin_plus [addr_simps]:
  assumes "k < 16"
  shows "unat (seg_lin s + k) = unat s * 16 + unat k"
proof -
  have "unat s < 65536" by (rule unat_u16_less)
  moreover have "unat k < 16" using assms by (simp add: word_less_nat_alt)
  ultimately show ?thesis
    by (simp add: unat_word_ariths unat_seg_lin)
qed

lemma seg_lin_eq_iff [addr_simps]:
  assumes "k < 16" and "l < 16"
  shows "seg_lin s + k = seg_lin t + l \<longleftrightarrow> s = t \<and> k = l"
proof
  assume "seg_lin s + k = seg_lin t + l"
  then have *: "unat s * 16 + unat k = unat t * 16 + unat l"
    using unat_seg_lin_plus [OF assms(1)] unat_seg_lin_plus [OF assms(2)] by metis
  have "unat k < 16" "unat l < 16"
    using assms by (simp_all add: word_less_nat_alt)
  with * have "unat s = unat t" by linarith
  with * have "unat k = unat l" by simp
  with \<open>unat s = unat t\<close>
  show "s = t \<and> k = l" by (simp add: word_unat_eq_iff)
qed simp

lemma seg_lin_eq_zero_iff [addr_simps]:
  assumes "k < 16"
  shows "seg_lin s + k = seg_lin t \<longleftrightarrow> s = t \<and> k = 0"
    and "seg_lin s = seg_lin t + k \<longleftrightarrow> s = t \<and> k = 0"
  using seg_lin_eq_iff [OF assms, of 0 s t] seg_lin_eq_iff [OF _ assms, of 0 s t] by auto

lemma seg_lin_inject [addr_simps, simp]: "seg_lin s = seg_lin t \<longleftrightarrow> s = t"
  using seg_lin_eq_iff [of 0 0 s t] by simp

section \<open>Ordered maps\<close>

text \<open>
  \<open>std::map\<close> where its iteration order matters: an association list sorted by key.
\<close>

definition map_set :: "'k::linorder \<Rightarrow> 'v \<Rightarrow> ('k \<times> 'v) list \<Rightarrow> ('k \<times> 'v) list" where
  "map_set k v xs = insort_key fst (k, v) (filter (\<lambda>p. fst p \<noteq> k) xs)"

definition map_erase :: "'k \<Rightarrow> ('k \<times> 'v) list \<Rightarrow> ('k \<times> 'v) list" where
  "map_erase k xs = filter (\<lambda>p. fst p \<noteq> k) xs"

definition map_ok :: "('k::linorder \<times> 'v) list \<Rightarrow> bool" where
  "map_ok xs \<longleftrightarrow> sorted (map fst xs) \<and> distinct (map fst xs)"

lemma map_of_insort:
  "k \<notin> fst ` set xs \<Longrightarrow> map_of (insort_key fst (k, v) xs) = (map_of xs)(k \<mapsto> v)"
  by (induction xs) (auto simp: fun_eq_iff)

lemma map_of_erase [simp]: "map_of (map_erase k xs) = (map_of xs)(k := None)"
  by (induction xs) (auto simp: map_erase_def fun_eq_iff)

lemma map_of_set [simp]: "map_of (map_set k v xs) = (map_of xs)(k \<mapsto> v)"
proof -
  have "map_of (insort_key fst (k, v) (map_erase k xs)) = (map_of (map_erase k xs))(k \<mapsto> v)"
    by (rule map_of_insort) (auto simp: map_erase_def)
  then show ?thesis by (simp add: map_set_def map_erase_def [symmetric])
qed

lemma distinct_map_filter: "distinct (map f xs) \<Longrightarrow> distinct (map f (filter P xs))"
  by (induction xs) auto

lemma sorted_map_filter: "sorted (map f xs) \<Longrightarrow> sorted (map f (filter P xs))"
  by (induction xs) auto

lemma map_ok_erase [simp]: "map_ok xs \<Longrightarrow> map_ok (map_erase k xs)"
  by (simp add: map_ok_def map_erase_def sorted_map_filter distinct_map_filter)

lemma map_ok_set [simp]: "map_ok xs \<Longrightarrow> map_ok (map_set k v xs)"
  by (auto simp: map_ok_def map_set_def sorted_insort_key sorted_map_filter distinct_map_filter
      distinct_insort_key set_insort_key)

lemma map_ok_empty [simp]: "map_ok []"
  by (simp add: map_ok_def)

end
