(* ===== verification/Machine.thy ===== *)
theory Machine
  imports Prelude
begin

text \<open>
  The CPU and memory that \<open>bridge.cc\<close> drives. The engine itself (\<open>emu88\<close>, a git
  submodule) is a parameter: a record of the memory functions the shim
  \<open>compat/dosbox_compat.cc\<close> calls, with the laws of ordinary little-endian RAM as the
  locale \<open>emu88_engine\<close>. The shim functions, the register file and the interrupt-frame
  helpers of \<open>bridge.cc\<close> are definitions over that parameter.
\<close>

section \<open>The engine as a parameter\<close>

text \<open>
  \<open>'m\<close> is the state of the engine: its memory and the hidden CPU state behind
  \<open>load_segment\<close>. \<open>is_ram\<close> is the part of the address space where the engine stores bytes: outside it
  (beyond the configured memory, the planar video window, addresses folded by a disabled
  A20 line) nothing is promised.
\<close>

datatype seg = ES | CS | SS | DS | FS | GS

record 'm emu88 =
  fetch_mem :: "'m \<Rightarrow> u32 \<Rightarrow> u8"
  fetch_mem16 :: "'m \<Rightarrow> u32 \<Rightarrow> u16"
  fetch_mem32 :: "'m \<Rightarrow> u32 \<Rightarrow> u32"
  store_mem :: "'m \<Rightarrow> u32 \<Rightarrow> u8 \<Rightarrow> 'm"
  store_mem16 :: "'m \<Rightarrow> u32 \<Rightarrow> u16 \<Rightarrow> 'm"
  store_mem32 :: "'m \<Rightarrow> u32 \<Rightarrow> u32 \<Rightarrow> 'm"
  get_mem_size :: "'m \<Rightarrow> u32"
  set_a20 :: "'m \<Rightarrow> bool \<Rightarrow> 'm"
  get_a20 :: "'m \<Rightarrow> bool"
  load_segment :: "'m \<Rightarrow> seg \<Rightarrow> u16 \<Rightarrow> 'm"
  load_segment_real :: "'m \<Rightarrow> seg \<Rightarrow> u16 \<Rightarrow> 'm"
  sregs :: "'m \<Rightarrow> seg \<Rightarrow> u16"
  seg_cache_base :: "'m \<Rightarrow> seg \<Rightarrow> u32"
  stack_32 :: "'m \<Rightarrow> bool"
  code_32 :: "'m \<Rightarrow> bool"
  gdtr_base :: "'m \<Rightarrow> u32"
  gdtr_limit :: "'m \<Rightarrow> u16"
  ldtr_base :: "'m \<Rightarrow> u32"
  ldtr_limit :: "'m \<Rightarrow> u32"
  is_ram :: "'m \<Rightarrow> u32 \<Rightarrow> bool"

section \<open>Memory access of the shim\<close>

text \<open>
  \<open>mem_readb\<close> and its siblings, after \<open>init_machine\<close> has bound the memory.
\<close>

definition mem_readb :: "'m emu88 \<Rightarrow> 'm \<Rightarrow> u32 \<Rightarrow> u8" where
  "mem_readb E m pt = fetch_mem E m pt"

definition mem_readw :: "'m emu88 \<Rightarrow> 'm \<Rightarrow> u32 \<Rightarrow> u16" where
  "mem_readw E m pt = fetch_mem16 E m pt"

definition mem_readd :: "'m emu88 \<Rightarrow> 'm \<Rightarrow> u32 \<Rightarrow> u32" where
  "mem_readd E m pt = fetch_mem32 E m pt"

definition mem_writeb :: "'m emu88 \<Rightarrow> u32 \<Rightarrow> u8 \<Rightarrow> 'm \<Rightarrow> 'm" where
  "mem_writeb E pt v m = store_mem E m pt v"

definition mem_writew :: "'m emu88 \<Rightarrow> u32 \<Rightarrow> u16 \<Rightarrow> 'm \<Rightarrow> 'm" where
  "mem_writew E pt v m = store_mem16 E m pt v"

definition mem_writed :: "'m emu88 \<Rightarrow> u32 \<Rightarrow> u32 \<Rightarrow> 'm \<Rightarrow> 'm" where
  "mem_writed E pt v m = store_mem32 E m pt v"

definition MEM_TotalPages :: "'m emu88 \<Rightarrow> 'm \<Rightarrow> u32" where
  "MEM_TotalPages E m = get_mem_size E m div 4096"

definition MEM_A20_Enable :: "'m emu88 \<Rightarrow> bool \<Rightarrow> 'm \<Rightarrow> 'm" where
  "MEM_A20_Enable E enable m = set_a20 E m enable"

definition MEM_A20_Enabled :: "'m emu88 \<Rightarrow> 'm \<Rightarrow> bool" where
  "MEM_A20_Enabled E m = get_a20 E m"

section \<open>Registers and segments\<close>

text \<open>
  \<open>cpu_regs\<close>, \<open>Segs\<close> and \<open>cpu\<close>: the register interface the interrupt handlers read
  and write. Component theories extend this record with their own static variables.
\<close>

record 'm machine =
  mem :: 'm
  reg_eax :: u32
  reg_ebx :: u32
  reg_ecx :: u32
  reg_edx :: u32
  reg_esi :: u32
  reg_edi :: u32
  reg_ebp :: u32
  reg_esp :: u32
  reg_eip :: u32
  seg_val :: "seg \<Rightarrow> u16"
  seg_phys :: "seg \<Rightarrow> u32"
  cpu_pmode :: bool
  stack_big :: bool
  code_big :: bool
  reg_flags :: u32
  cpu_cpl :: u8
  cpu_cr0 :: u32
  s_int_gate_bits32 :: bool

definition reg_ax :: "('m, 'z) machine_scheme \<Rightarrow> u16" where "reg_ax s = lo16 (reg_eax s)"
definition reg_bx :: "('m, 'z) machine_scheme \<Rightarrow> u16" where "reg_bx s = lo16 (reg_ebx s)"
definition reg_cx :: "('m, 'z) machine_scheme \<Rightarrow> u16" where "reg_cx s = lo16 (reg_ecx s)"
definition reg_dx :: "('m, 'z) machine_scheme \<Rightarrow> u16" where "reg_dx s = lo16 (reg_edx s)"
definition reg_si :: "('m, 'z) machine_scheme \<Rightarrow> u16" where "reg_si s = lo16 (reg_esi s)"
definition reg_di :: "('m, 'z) machine_scheme \<Rightarrow> u16" where "reg_di s = lo16 (reg_edi s)"
definition reg_bp :: "('m, 'z) machine_scheme \<Rightarrow> u16" where "reg_bp s = lo16 (reg_ebp s)"
definition reg_sp :: "('m, 'z) machine_scheme \<Rightarrow> u16" where "reg_sp s = lo16 (reg_esp s)"
definition reg_al :: "('m, 'z) machine_scheme \<Rightarrow> u8" where "reg_al s = lo8 (reg_ax s)"
definition reg_ah :: "('m, 'z) machine_scheme \<Rightarrow> u8" where "reg_ah s = hi8 (reg_ax s)"
definition reg_bl :: "('m, 'z) machine_scheme \<Rightarrow> u8" where "reg_bl s = lo8 (reg_bx s)"
definition reg_bh :: "('m, 'z) machine_scheme \<Rightarrow> u8" where "reg_bh s = hi8 (reg_bx s)"
definition reg_cl :: "('m, 'z) machine_scheme \<Rightarrow> u8" where "reg_cl s = lo8 (reg_cx s)"
definition reg_ch :: "('m, 'z) machine_scheme \<Rightarrow> u8" where "reg_ch s = hi8 (reg_cx s)"
definition reg_dl :: "('m, 'z) machine_scheme \<Rightarrow> u8" where "reg_dl s = lo8 (reg_dx s)"
definition reg_dh :: "('m, 'z) machine_scheme \<Rightarrow> u8" where "reg_dh s = hi8 (reg_dx s)"

definition set_ax :: "u16 \<Rightarrow> ('m, 'z) machine_scheme \<Rightarrow> ('m, 'z) machine_scheme" where
  "set_ax v s = s\<lparr>reg_eax := mk32 v (hi16 (reg_eax s))\<rparr>"
definition set_bx :: "u16 \<Rightarrow> ('m, 'z) machine_scheme \<Rightarrow> ('m, 'z) machine_scheme" where
  "set_bx v s = s\<lparr>reg_ebx := mk32 v (hi16 (reg_ebx s))\<rparr>"
definition set_cx :: "u16 \<Rightarrow> ('m, 'z) machine_scheme \<Rightarrow> ('m, 'z) machine_scheme" where
  "set_cx v s = s\<lparr>reg_ecx := mk32 v (hi16 (reg_ecx s))\<rparr>"
definition set_dx :: "u16 \<Rightarrow> ('m, 'z) machine_scheme \<Rightarrow> ('m, 'z) machine_scheme" where
  "set_dx v s = s\<lparr>reg_edx := mk32 v (hi16 (reg_edx s))\<rparr>"
definition set_si :: "u16 \<Rightarrow> ('m, 'z) machine_scheme \<Rightarrow> ('m, 'z) machine_scheme" where
  "set_si v s = s\<lparr>reg_esi := mk32 v (hi16 (reg_esi s))\<rparr>"
definition set_di :: "u16 \<Rightarrow> ('m, 'z) machine_scheme \<Rightarrow> ('m, 'z) machine_scheme" where
  "set_di v s = s\<lparr>reg_edi := mk32 v (hi16 (reg_edi s))\<rparr>"
definition set_al :: "u8 \<Rightarrow> ('m, 'z) machine_scheme \<Rightarrow> ('m, 'z) machine_scheme" where
  "set_al v s = set_ax (mk16 v (reg_ah s)) s"
definition set_ah :: "u8 \<Rightarrow> ('m, 'z) machine_scheme \<Rightarrow> ('m, 'z) machine_scheme" where
  "set_ah v s = set_ax (mk16 (reg_al s) v) s"
definition set_bl :: "u8 \<Rightarrow> ('m, 'z) machine_scheme \<Rightarrow> ('m, 'z) machine_scheme" where
  "set_bl v s = set_bx (mk16 v (reg_bh s)) s"
definition set_bh :: "u8 \<Rightarrow> ('m, 'z) machine_scheme \<Rightarrow> ('m, 'z) machine_scheme" where
  "set_bh v s = set_bx (mk16 (reg_bl s) v) s"
definition set_cl :: "u8 \<Rightarrow> ('m, 'z) machine_scheme \<Rightarrow> ('m, 'z) machine_scheme" where
  "set_cl v s = set_cx (mk16 v (reg_ch s)) s"
definition set_ch :: "u8 \<Rightarrow> ('m, 'z) machine_scheme \<Rightarrow> ('m, 'z) machine_scheme" where
  "set_ch v s = set_cx (mk16 (reg_cl s) v) s"
definition set_dl :: "u8 \<Rightarrow> ('m, 'z) machine_scheme \<Rightarrow> ('m, 'z) machine_scheme" where
  "set_dl v s = set_dx (mk16 v (reg_dh s)) s"
definition set_dh :: "u8 \<Rightarrow> ('m, 'z) machine_scheme \<Rightarrow> ('m, 'z) machine_scheme" where
  "set_dh v s = set_dx (mk16 (reg_dl s) v) s"

lemmas reg_defs = reg_ax_def reg_bx_def reg_cx_def reg_dx_def reg_si_def reg_di_def reg_bp_def
  reg_sp_def reg_al_def reg_ah_def reg_bl_def reg_bh_def reg_cl_def reg_ch_def reg_dl_def reg_dh_def
  set_ax_def set_bx_def set_cx_def set_dx_def set_si_def set_di_def set_al_def set_ah_def set_bl_def
  set_bh_def set_cl_def set_ch_def set_dl_def set_dh_def

section \<open>Shim and bridge helpers on the machine state\<close>

definition PhysMake :: "u16 \<Rightarrow> u16 \<Rightarrow> u32" where
  "PhysMake sg off = push_bit 4 (ucast sg) + ucast off"

definition RealMake :: "u16 \<Rightarrow> u16 \<Rightarrow> u32" where
  "RealMake sg off = push_bit 16 (ucast sg) OR ucast off"

definition RealSeg :: "u32 \<Rightarrow> u16" where "RealSeg p = ucast (drop_bit 16 p)"
definition RealOff :: "u32 \<Rightarrow> u16" where "RealOff p = ucast (p AND 0xFFFF)"

text \<open>\<open>mirror_seg\<close> copies what the engine made of a segment load into the interface.\<close>

definition mirror_seg :: "'m emu88 \<Rightarrow> seg \<Rightarrow> ('m, 'z) machine_scheme \<Rightarrow> ('m, 'z) machine_scheme" where
  "mirror_seg E sg s = (let
     s = s\<lparr>seg_val := (seg_val s)(sg := sregs E (mem s) sg),
           seg_phys := (seg_phys s)(sg := seg_cache_base E (mem s) sg)\<rparr>
   in if sg = SS then s\<lparr>stack_big := stack_32 E (mem s)\<rparr>
      else if sg = CS then s\<lparr>code_big := code_32 E (mem s)\<rparr>
      else s)"

definition SegSet16 ::
  "'m emu88 \<Rightarrow> seg \<Rightarrow> u16 \<Rightarrow> ('m, 'z) machine_scheme \<Rightarrow> ('m, 'z) machine_scheme" where
  "SegSet16 E sg v s = mirror_seg E sg (s\<lparr>mem := load_segment_real E (mem s) sg v\<rparr>)"

definition CPU_SetSegGeneral ::
  "'m emu88 \<Rightarrow> seg \<Rightarrow> u16 \<Rightarrow> ('m, 'z) machine_scheme \<Rightarrow> ('m, 'z) machine_scheme" where
  "CPU_SetSegGeneral E sg v s = mirror_seg E sg (s\<lparr>mem := load_segment E (mem s) sg v\<rparr>)"

text \<open>A store of the handler into guest memory.\<close>

definition wr :: "('m \<Rightarrow> 'm) \<Rightarrow> ('m, 'z) machine_scheme \<Rightarrow> ('m, 'z) machine_scheme" where
  "wr f s = s\<lparr>mem := f (mem s)\<rparr>"

definition dos_arg_addr :: "seg \<Rightarrow> u32 \<Rightarrow> u32 \<Rightarrow> ('m, 'z) machine_scheme \<Rightarrow> u32" where
  "dos_arg_addr sg off16 off32 s =
     seg_phys s sg + (if cpu_pmode s \<and> s_int_gate_bits32 s then off32 else off16)"

text \<open>The FLAGS word of the interrupt frame that \<open>set_cf\<close> edits.\<close>

definition cf_addr :: "('m, 'z) machine_scheme \<Rightarrow> u32" where
  "cf_addr s = seg_phys s SS + (if stack_big s then reg_esp s else ucast (reg_sp s))
     + (if cpu_pmode s \<and> s_int_gate_bits32 s then 8 else 4)"

definition set_cf :: "'m emu88 \<Rightarrow> bool \<Rightarrow> ('m, 'z) machine_scheme \<Rightarrow> ('m, 'z) machine_scheme" where
  "set_cf E val s = (let
     addr = cf_addr s;
     f = mem_readw E (mem s) addr;
     f = (if val then f OR 1 else f AND NOT 1)
   in s\<lparr>mem := mem_writew E addr f (mem s)\<rparr>)"

definition return_error :: "'m emu88 \<Rightarrow> u16 \<Rightarrow> ('m, 'z) machine_scheme \<Rightarrow> ('m, 'z) machine_scheme" where
  "return_error E dos_err s = set_cf E True (set_ax dos_err s)"

text \<open>The carry the guest will see when it returns from the interrupt.\<close>

definition carry :: "'m emu88 \<Rightarrow> ('m, 'z) machine_scheme \<Rightarrow> bool" where
  "carry E s = bit (mem_readw E (mem s) (cf_addr s)) 0"

text \<open>\<open>m'\<close> is \<open>m\<close> with \<open>n\<close> bytes from \<open>src\<close> stored at \<open>dst\<close> and nothing else changed.\<close>

definition copied :: "'m emu88 \<Rightarrow> 'm \<Rightarrow> 'm \<Rightarrow> u32 \<Rightarrow> u32 \<Rightarrow> nat \<Rightarrow> bool" where
  "copied E m m' src dst n \<longleftrightarrow> (\<forall>b. is_ram E m' b = is_ram E m b)
    \<and> (\<forall>i<n. mem_readb E m' (dst + of_nat i) = mem_readb E m (src + of_nat i))
    \<and> (\<forall>b. is_ram E m b \<longrightarrow> unat b < unat dst \<or> unat dst + n \<le> unat b \<longrightarrow> mem_readb E m' b = mem_readb E m b)"

text \<open>Memory changed only at addresses in \<open>S\<close>.\<close>

definition same_outside :: "'m emu88 \<Rightarrow> u32 set \<Rightarrow> 'm \<Rightarrow> 'm \<Rightarrow> bool" where
  "same_outside E S m m' \<longleftrightarrow> (\<forall>b. is_ram E m' b = is_ram E m b)
    \<and> (\<forall>b. is_ram E m b \<longrightarrow> b \<notin> S \<longrightarrow> mem_readb E m' b = mem_readb E m b)"

lemma same_outside_refl [simp]: "same_outside E S m m"
  by (simp add: same_outside_def)

lemma same_outside_trans: "\<lbrakk>same_outside E S m m1; same_outside E S m1 m2\<rbrakk> \<Longrightarrow> same_outside E S m m2"
  by (simp add: same_outside_def)

lemma same_outside_fold:
  assumes "\<And>x n. x \<in> set xs \<Longrightarrow> same_outside E S m n \<Longrightarrow> same_outside E S n (f x n)"
  shows "same_outside E S m (fold f xs m)"
proof -
  have "same_outside E S m n \<Longrightarrow> same_outside E S m (fold f xs n)" for n
    using assms
  proof (induction xs arbitrary: n)
    case (Cons x xs)
    then have "same_outside E S m (f x n)" using same_outside_trans [of E S m n "f x n"] by simp
    with Cons show ?case by simp
  qed simp
  then show ?thesis by simp
qed

section \<open>Laws of the engine\<close>

locale emu88_engine =
  fixes E :: "'m emu88"
  assumes fetch_store: "\<lbrakk>is_ram E m a; is_ram E m b\<rbrakk> \<Longrightarrow>
      fetch_mem E (store_mem E m a v) b = (if b = a then v else fetch_mem E m b)"
    and ram_store: "is_ram E m a \<Longrightarrow> is_ram E (store_mem E m a v) b = is_ram E m b"
    and size_store: "is_ram E m a \<Longrightarrow> get_mem_size E (store_mem E m a v) = get_mem_size E m"
    and fetch16: "\<lbrakk>is_ram E m a; is_ram E m (a + 1)\<rbrakk> \<Longrightarrow>
      fetch_mem16 E m a = mk16 (fetch_mem E m a) (fetch_mem E m (a + 1))"
    and store16: "\<lbrakk>is_ram E m a; is_ram E m (a + 1)\<rbrakk> \<Longrightarrow>
      store_mem16 E m a w = store_mem E (store_mem E m a (lo8 w)) (a + 1) (hi8 w)"
    and fetch32: "\<lbrakk>is_ram E m a; is_ram E m (a + 1); is_ram E m (a + 2); is_ram E m (a + 3)\<rbrakk> \<Longrightarrow>
      fetch_mem32 E m a = mk32 (fetch_mem16 E m a) (fetch_mem16 E m (a + 2))"
    and store32: "\<lbrakk>is_ram E m a; is_ram E m (a + 1); is_ram E m (a + 2); is_ram E m (a + 3)\<rbrakk> \<Longrightarrow>
      store_mem32 E m a d = store_mem16 E (store_mem16 E m a (lo16 d)) (a + 2) (hi16 d)"
begin

lemma ram_writeb [mem_simps]:
  "is_ram E m a \<Longrightarrow> is_ram E (mem_writeb E a v m) b = is_ram E m b"
  by (simp add: mem_writeb_def ram_store)

lemma ram_writew [mem_simps]:
  "\<lbrakk>is_ram E m a; is_ram E m (a + 1)\<rbrakk> \<Longrightarrow> is_ram E (mem_writew E a w m) b = is_ram E m b"
  by (simp add: mem_writew_def store16 ram_store)

lemma ram_writed [mem_simps]:
  "\<lbrakk>is_ram E m a; is_ram E m (a + 1); is_ram E m (a + 2); is_ram E m (a + 3)\<rbrakk> \<Longrightarrow>
    is_ram E (mem_writed E a d m) b = is_ram E m b"
  by (simp add: mem_writed_def store32 store16 ram_store add.assoc)

lemma readb_writeb [mem_simps]:
  "\<lbrakk>is_ram E m a; is_ram E m b\<rbrakk> \<Longrightarrow>
    mem_readb E (mem_writeb E a v m) b = (if b = a then v else mem_readb E m b)"
  by (simp add: mem_readb_def mem_writeb_def fetch_store)

lemma readb_writew [mem_simps]:
  "\<lbrakk>is_ram E m a; is_ram E m (a + 1); is_ram E m b\<rbrakk> \<Longrightarrow>
    mem_readb E (mem_writew E a w m) b =
      (if b = a then lo8 w else if b = a + 1 then hi8 w else mem_readb E m b)"
  by (simp add: mem_readb_def mem_writew_def store16 fetch_store ram_store)

lemma readb_writed [mem_simps]:
  "\<lbrakk>is_ram E m a; is_ram E m (a + 1); is_ram E m (a + 2); is_ram E m (a + 3); is_ram E m b\<rbrakk> \<Longrightarrow>
    mem_readb E (mem_writed E a d m) b =
      (if b = a then lo8 (lo16 d) else if b = a + 1 then hi8 (lo16 d)
       else if b = a + 2 then lo8 (hi16 d) else if b = a + 3 then hi8 (hi16 d)
       else mem_readb E m b)"
  by (auto simp add: mem_readb_def mem_writed_def store32 store16 fetch_store ram_store add.assoc)

lemma readw_bytes:
  "\<lbrakk>is_ram E m a; is_ram E m (a + 1)\<rbrakk> \<Longrightarrow>
    mem_readw E m a = mk16 (mem_readb E m a) (mem_readb E m (a + 1))"
  by (simp add: mem_readw_def mem_readb_def fetch16)

lemma readd_words:
  "\<lbrakk>is_ram E m a; is_ram E m (a + 1); is_ram E m (a + 2); is_ram E m (a + 3)\<rbrakk> \<Longrightarrow>
    mem_readd E m a = mk32 (mem_readw E m a) (mem_readw E m (a + 2))"
  by (simp add: mem_readd_def mem_readw_def fetch32)

lemma readw_writew_same [mem_simps]:
  "\<lbrakk>is_ram E m a; is_ram E m (a + 1)\<rbrakk> \<Longrightarrow> mem_readw E (mem_writew E a w m) a = w"
  by (simp add: readw_bytes mem_simps)

lemma readd_writed_same [mem_simps]:
  "\<lbrakk>is_ram E m a; is_ram E m (a + 1); is_ram E m (a + 2); is_ram E m (a + 3)\<rbrakk> \<Longrightarrow>
    mem_readd E (mem_writed E a d m) a = d"
  by (simp add: readd_words readw_bytes mem_simps add.assoc)

lemma same_outside_writeb:
  "\<lbrakk>is_ram E m a; a \<in> S\<rbrakk> \<Longrightarrow> same_outside E S m (mem_writeb E a v m)"
  by (auto simp: same_outside_def mem_simps)

lemma same_outside_writew:
  "\<lbrakk>is_ram E m a; is_ram E m (a + 1); a \<in> S; a + 1 \<in> S\<rbrakk> \<Longrightarrow> same_outside E S m (mem_writew E a w m)"
  by (auto simp: same_outside_def mem_simps)

lemma readw_writew_other:
  "\<lbrakk>is_ram E m a; is_ram E m (a + 1); is_ram E m b; is_ram E m (b + 1); b \<noteq> a; b \<noteq> a + 1; b + 1 \<noteq> a\<rbrakk> \<Longrightarrow>
    mem_readw E (mem_writew E a w m) b = mem_readw E m b"
  by (simp add: readw_bytes mem_simps)

lemma readw_eqI:
  "\<lbrakk>is_ram E m a; is_ram E m (a + 1); is_ram E m' a; is_ram E m' (a + 1);
    mem_readb E m' a = mem_readb E m a; mem_readb E m' (a + 1) = mem_readb E m (a + 1)\<rbrakk> \<Longrightarrow>
    mem_readw E m' a = mem_readw E m a"
  by (simp add: readw_bytes)

end

section \<open>Registers over the helpers\<close>

lemma set_cf_regs [simp]:
  "reg_eax (set_cf E v s) = reg_eax s" "reg_ebx (set_cf E v s) = reg_ebx s"
  "reg_ecx (set_cf E v s) = reg_ecx s" "reg_edx (set_cf E v s) = reg_edx s"
  "reg_esi (set_cf E v s) = reg_esi s" "reg_edi (set_cf E v s) = reg_edi s"
  "reg_esp (set_cf E v s) = reg_esp s" "reg_ebp (set_cf E v s) = reg_ebp s"
  "seg_val (set_cf E v s) = seg_val s" "seg_phys (set_cf E v s) = seg_phys s"
  "machine.more (set_cf E v s) = machine.more s"
  by (simp_all add: set_cf_def Let_def)

lemma set_cf_halves [simp]:
  "reg_ax (set_cf E v s) = reg_ax s" "reg_bx (set_cf E v s) = reg_bx s"
  "reg_cx (set_cf E v s) = reg_cx s" "reg_dx (set_cf E v s) = reg_dx s"
  "reg_si (set_cf E v s) = reg_si s" "reg_di (set_cf E v s) = reg_di s"
  by (simp_all add: reg_defs)

lemma reg_set_same [simp]:
  "reg_ax (set_ax v s) = v" "reg_bx (set_bx v s) = v" "reg_cx (set_cx v s) = v" "reg_dx (set_dx v s) = v"
  "reg_si (set_si v s) = v" "reg_di (set_di v s) = v"
  by (simp_all add: reg_defs)

lemma reg_set_other [simp]:
  "reg_bx (set_ax v s) = reg_bx s" "reg_cx (set_ax v s) = reg_cx s" "reg_dx (set_ax v s) = reg_dx s"
  "reg_ax (set_bx v s) = reg_ax s" "reg_cx (set_bx v s) = reg_cx s" "reg_dx (set_bx v s) = reg_dx s"
  "reg_ax (set_cx v s) = reg_ax s" "reg_bx (set_cx v s) = reg_bx s" "reg_dx (set_cx v s) = reg_dx s"
  "reg_ax (set_dx v s) = reg_ax s" "reg_bx (set_dx v s) = reg_bx s" "reg_cx (set_dx v s) = reg_cx s"
  "reg_ax (set_si v s) = reg_ax s" "reg_bx (set_si v s) = reg_bx s" "reg_ax (set_di v s) = reg_ax s"
  by (simp_all add: reg_defs)

lemma set_reg_frame [simp]:
  "mem (set_ax v s) = mem s" "mem (set_bx v s) = mem s" "mem (set_cx v s) = mem s" "mem (set_dx v s) = mem s"
  "mem (set_si v s) = mem s" "mem (set_di v s) = mem s"
  "cf_addr (set_ax v s) = cf_addr s" "cf_addr (set_bx v s) = cf_addr s" "cf_addr (set_cx v s) = cf_addr s"
  "cf_addr (set_dx v s) = cf_addr s" "cf_addr (set_si v s) = cf_addr s" "cf_addr (set_di v s) = cf_addr s"
  "seg_phys (set_ax v s) = seg_phys s" "seg_val (set_ax v s) = seg_val s"
  "reg_edi (set_ax v s) = reg_edi s" "reg_esi (set_ax v s) = reg_esi s"
  by (simp_all add: reg_defs cf_addr_def)

lemma cf_addr_mem [simp]: "cf_addr (s\<lparr>mem := m\<rparr>) = cf_addr s"
  by (simp add: cf_addr_def reg_sp_def)

lemma cf_addr_set_cf [simp]: "cf_addr (set_cf E v s) = cf_addr s"
  by (simp add: set_cf_def Let_def)

lemma reg_mem [simp]:
  "reg_ax (s\<lparr>mem := m\<rparr>) = reg_ax s" "reg_bx (s\<lparr>mem := m\<rparr>) = reg_bx s"
  "reg_cx (s\<lparr>mem := m\<rparr>) = reg_cx s" "reg_dx (s\<lparr>mem := m\<rparr>) = reg_dx s"
  by (simp_all add: reg_defs)

context emu88_engine
begin

lemma ram_set_cf [mem_simps]:
  "\<lbrakk>is_ram E (mem s) (cf_addr s); is_ram E (mem s) (cf_addr s + 1)\<rbrakk> \<Longrightarrow>
    is_ram E (mem (set_cf E v s)) b = is_ram E (mem s) b"
  by (simp add: set_cf_def Let_def ram_writew)

lemma readb_set_cf [mem_simps]:
  "\<lbrakk>is_ram E (mem s) (cf_addr s); is_ram E (mem s) (cf_addr s + 1); is_ram E (mem s) b;
    b \<noteq> cf_addr s; b \<noteq> cf_addr s + 1\<rbrakk> \<Longrightarrow>
    mem_readb E (mem (set_cf E v s)) b = mem_readb E (mem s) b"
  by (simp add: set_cf_def Let_def readb_writew)

lemma carry_set_cf [mem_simps]:
  "\<lbrakk>is_ram E (mem s) (cf_addr s); is_ram E (mem s) (cf_addr s + 1)\<rbrakk> \<Longrightarrow> carry E (set_cf E v s) = v"
  by (simp add: carry_def set_cf_def Let_def readw_writew_same bit_simps)

text \<open>A loop that stores \<open>n\<close> consecutive bytes.\<close>

lemma write_bytes:
  fixes g :: "nat \<Rightarrow> u8"
  assumes "\<And>i. i < n \<Longrightarrow> is_ram E m (a + of_nat i)" and "unat a + n \<le> 2 ^ 32"
  defines "m' \<equiv> \<lambda>n. fold (\<lambda>i. mem_writeb E (a + of_nat i) (g i)) [0 ..< n] m"
  shows "(\<forall>b. is_ram E (m' n) b = is_ram E m b) \<and>
    (\<forall>b. is_ram E m b \<longrightarrow> mem_readb E (m' n) b =
      (if unat a \<le> unat b \<and> unat b < unat a + n then g (unat b - unat a) else mem_readb E m b))"
  using assms(1,2)
proof (induction n)
  case (Suc n)
  have step: "m' (Suc n) = mem_writeb E (a + of_nat n) (g n) (m' n)" by (simp add: m'_def)
  have IH: "is_ram E (m' n) b = is_ram E m b"
    "is_ram E m b \<Longrightarrow> mem_readb E (m' n) b =
      (if unat a \<le> unat b \<and> unat b < unat a + n then g (unat b - unat a) else mem_readb E m b)" for b
    using Suc by simp_all
  have ram: "is_ram E m (a + of_nat n)" using Suc.prems(1) by simp
  have eq: "a + of_nat n = of_nat (unat a + n)" by simp
  have u: "unat (a + of_nat n) = unat a + n"
    unfolding eq by (rule unat_of_nat_u32) (use Suc.prems(2) in simp)
  have "b = a + of_nat n \<longleftrightarrow> unat b = unat a + n" for b by (simp only: word_unat_eq_iff u)
  with ram IH show ?case by (auto simp: step mem_simps)
qed (auto simp: m'_def)

text \<open>A loop that copies \<open>n\<close> bytes upwards. It reads and writes byte by byte, so it copies the old
  contents exactly when no byte is overwritten before it is read: the destination does not start inside
  the source.\<close>

lemma copy_bytes:
  assumes "\<And>i. i < n \<Longrightarrow> is_ram E m (src + of_nat i) \<and> is_ram E m (dst + of_nat i)"
    and "unat src + n \<le> 2 ^ 32" and "unat dst + n \<le> 2 ^ 32"
    and "unat dst \<le> unat src \<or> unat src + n \<le> unat dst"
  shows "copied E m (fold (\<lambda>i m. mem_writeb E (dst + of_nat i) (mem_readb E m (src + of_nat i)) m) [0 ..< n] m) src dst n"
  using assms
proof (induction n)
  case (Suc n)
  define m1 where "m1 = fold (\<lambda>i m. mem_writeb E (dst + of_nat i) (mem_readb E m (src + of_nat i)) m) [0 ..< n] m"
  have IH: "copied E m m1 src dst n" unfolding m1_def using Suc by (intro Suc.IH) auto
  have off: "unat (a + of_nat i) = unat a + i" if "unat a + i < 2 ^ 32" for a :: u32 and i
  proof -
    have "a + of_nat i = of_nat (unat a + i)" by simp
    then show ?thesis using unat_of_nat_u32 [of "unat a + i"] that by simp
  qed
  have d: "unat (dst + of_nat i) = unat dst + i" "unat (src + of_nat i) = unat src + i" if "i \<le> n" for i
    using off [of dst i] off [of src i] Suc.prems(2,3) that by simp_all
  have ram: "is_ram E m (dst + of_nat n)" "is_ram E m (src + of_nat n)" using Suc.prems(1) by blast+
  have src: "mem_readb E m1 (src + of_nat n) = mem_readb E m (src + of_nat n)"
    using IH ram(2) Suc.prems(4) d(2) [of n] by (auto simp: copied_def)
  have ne: "dst + of_nat i \<noteq> dst + of_nat n" if "i < n" for i
    using d(1) [of i] d(1) [of n] that by (metis add_left_cancel less_imp_le_nat less_irrefl order_refl)
  have "mem_readb E (mem_writeb E (dst + of_nat n) v m1) (dst + of_nat i)
      = (if i = n then v else mem_readb E m1 (dst + of_nat i))" if "i < Suc n" for i v
    using that ne [of i] IH Suc.prems(1) [of i] ram by (auto simp: mem_simps copied_def less_Suc_eq)
  moreover have "mem_readb E (mem_writeb E (dst + of_nat n) v m1) b = mem_readb E m1 b"
    if "is_ram E m b" "unat b < unat dst \<or> unat dst + Suc n \<le> unat b" for b v
    using that IH ram d(1) [of n] by (auto simp: mem_simps copied_def)
  ultimately show ?case
    using IH src ram by (auto simp: copied_def m1_def [symmetric] mem_simps less_Suc_eq)
qed (simp add: copied_def)

end

section \<open>A flat memory\<close>

text \<open>
  A 4 GiB array of bytes that is RAM everywhere satisfies the laws; the concrete runs of
  the development evaluate on it.
\<close>

definition flat :: "(u32 \<Rightarrow> u8) emu88" where
  "flat = \<lparr> fetch_mem = (\<lambda>m a. m a),
            fetch_mem16 = (\<lambda>m a. mk16 (m a) (m (a + 1))),
            fetch_mem32 = (\<lambda>m a. mk32 (mk16 (m a) (m (a + 1))) (mk16 (m (a + 2)) (m (a + 3)))),
            store_mem = (\<lambda>m a v. m(a := v)),
            store_mem16 = (\<lambda>m a w. m(a := lo8 w, a + 1 := hi8 w)),
            store_mem32 = (\<lambda>m a d. m(a := lo8 (lo16 d), a + 1 := hi8 (lo16 d),
                                       a + 2 := lo8 (hi16 d), a + 3 := hi8 (hi16 d))),
            get_mem_size = (\<lambda>m. 0x1000000),
            set_a20 = (\<lambda>m on. m),
            get_a20 = (\<lambda>m. True),
            load_segment = (\<lambda>m sg v. m),
            load_segment_real = (\<lambda>m sg v. m),
            sregs = (\<lambda>m sg. 0),
            seg_cache_base = (\<lambda>m sg. 0),
            stack_32 = (\<lambda>m. False),
            code_32 = (\<lambda>m. False),
            gdtr_base = (\<lambda>m. 0x100000),
            gdtr_limit = (\<lambda>m. 0x7F),
            ldtr_base = (\<lambda>m. 0x104000),
            ldtr_limit = (\<lambda>m. 0x7FF),
            is_ram = (\<lambda>m a. True) \<rparr>"

lemma flat_is_ram [simp]: "is_ram flat m a"
  by (simp add: flat_def)

interpretation flat_ram: emu88_engine flat
  by unfold_locales (auto simp: flat_def add.assoc fun_upd_def)

end
