(* ===== verification/Mcb.thy ===== *)
theory Mcb
  imports Machine
begin

text \<open>
  The DOS memory control block chain of \<open>bridge.cc\<close> (INT 21h AH=48h/49h/4Ah): one
  16-byte header per block in guest memory, walked from segment 2000h to A000h. The
  operations are translated over the engine's memory; the walk is a partial function whose
  value None is a loop that never ends. The abstract view is the list of blocks, and every
  operation is shown to implement first-fit allocation, release with forward merge, and
  in-place resize on that list, touching nothing but block headers.
\<close>

section \<open>Operations\<close>

definition PSP_SEG :: u16 where "PSP_SEG = 0x0100"
definition MCB_ARENA_START :: u16 where "MCB_ARENA_START = 0x2000"
definition MCB_ARENA_END :: u16 where "MCB_ARENA_END = 0xA000"

text \<open>\<open>'M'\<close> and \<open>'Z'\<close>.\<close>

abbreviation mcb_M :: u8 where "mcb_M \<equiv> 0x4D"
abbreviation mcb_Z :: u8 where "mcb_Z \<equiv> 0x5A"

definition mcb_init :: "'m emu88 \<Rightarrow> 'm \<Rightarrow> 'm" where
  "mcb_init E m = (let
     b = seg_lin MCB_ARENA_START;
     m = mem_writeb E (b + 0) mcb_Z m;
     m = mem_writew E (b + 1) 0 m;
     m = mem_writew E (b + 3) (MCB_ARENA_END - MCB_ARENA_START - 1) m;
     p = seg_lin (PSP_SEG - 1);
     m = mem_writeb E (p + 0) mcb_M m;
     m = mem_writew E (p + 1) PSP_SEG m;
     m = mem_writew E (p + 3) (MCB_ARENA_START - PSP_SEG - 1) m
   in m)"

partial_function (option) mcb_walk ::
  "'m emu88 \<Rightarrow> 'm \<Rightarrow> u16 \<Rightarrow> u16 \<Rightarrow> u16 \<Rightarrow> (u16 \<times> u16) option" where
  "mcb_walk E m need seg largest = (let
     b = seg_lin seg;
     type = mem_readb E m b
   in if type \<noteq> mcb_M \<and> type \<noteq> mcb_Z then Some (0, largest)
   else let
     owner = mem_readw E m (b + 1);
     size = mem_readw E m (b + 3)
   in if owner = 0 \<and> size \<ge> need then Some (seg, largest)
   else let
     largest = (if owner = 0 \<and> size > largest then size else largest)
   in if type = mcb_Z then Some (0, largest)
   else mcb_walk E m need (seg + 1 + size) largest)"

definition mcb_find_free :: "'m emu88 \<Rightarrow> 'm \<Rightarrow> u16 \<Rightarrow> (u16 \<times> u16) option" where
  "mcb_find_free E m need = mcb_walk E m need MCB_ARENA_START 0"

definition mcb_split :: "'m emu88 \<Rightarrow> u16 \<Rightarrow> u16 \<Rightarrow> 'm \<Rightarrow> 'm" where
  "mcb_split E mcb_seg need m = (let
     b = seg_lin mcb_seg;
     cur = mem_readw E m (b + 3);
     type = mem_readb E m b
   in if unat cur \<le> unat need + 1 then m
   else let
     new_seg = mcb_seg + 1 + need;
     nm = seg_lin new_seg;
     m = mem_writeb E (nm + 0) type m;
     m = mem_writew E (nm + 1) 0 m;
     m = mem_writew E (nm + 3) (cur - need - 1) m;
     m = mem_writeb E (b + 0) mcb_M m;
     m = mem_writew E (b + 3) need m
   in m)"

text \<open>The result is the data segment (0 on failure) and \<open>largest_out\<close>, with the new flag
  \<open>s_mcb_initialised\<close> and memory; None is the walk that does not end.\<close>

definition mcb_allocate ::
  "'m emu88 \<Rightarrow> u16 \<Rightarrow> bool \<times> 'm \<Rightarrow> ((u16 \<times> u16) \<times> (bool \<times> 'm)) option" where
  "mcb_allocate E need st = (case st of (ini, m) \<Rightarrow> let
     m = (if \<not> ini then mcb_init E m else m)
   in case mcb_find_free E m need of
        None \<Rightarrow> None
      | Some (seg, largest) \<Rightarrow>
          if seg = 0 then Some ((0, largest), (True, m))
          else let
            m = mcb_split E seg need m;
            m = mem_writew E (seg_lin seg + 1) PSP_SEG m
          in Some ((seg + 1, largest), (True, m)))"

definition mcb_free :: "'m emu88 \<Rightarrow> u16 \<Rightarrow> bool \<times> 'm \<Rightarrow> bool \<times> 'm" where
  "mcb_free E data_seg st = (case st of (ini, m) \<Rightarrow>
     if \<not> ini then (False, m)
     else let
       mcb_seg = data_seg - 1;
       b = seg_lin mcb_seg;
       type = mem_readb E m b
     in if type \<noteq> mcb_M \<and> type \<noteq> mcb_Z then (False, m)
     else let
       m = mem_writew E (b + 1) 0 m
     in if type = mcb_Z then (True, m)
     else let
       size = mem_readw E m (b + 3);
       next_seg = mcb_seg + 1 + size;
       nm = seg_lin next_seg
     in if mem_readw E m (nm + 1) \<noteq> 0 then (True, m)
     else let
       next_type = mem_readb E m nm;
       next_size = mem_readw E m (nm + 3);
       m = mem_writew E (b + 3) (size + 1 + next_size) m;
       m = mem_writeb E (b + 0) next_type m
     in (True, m))"

text \<open>The result is the returned size and \<open>largest_out\<close>.\<close>

definition mcb_resize ::
  "'m emu88 \<Rightarrow> u16 \<Rightarrow> u16 \<Rightarrow> bool \<times> 'm \<Rightarrow> (u16 \<times> u16) \<times> 'm" where
  "mcb_resize E data_seg new_size st = (case st of (ini, m) \<Rightarrow>
     if \<not> ini then ((0, 0), m)
     else let
       mcb_seg = data_seg - 1;
       b = seg_lin mcb_seg;
       type = mem_readb E m b
     in if type \<noteq> mcb_M \<and> type \<noteq> mcb_Z then ((0, 0), m)
     else let
       cur = mem_readw E m (b + 3)
     in if new_size = cur then ((cur, cur), m)
     else if new_size < cur then ((new_size, cur), mcb_split E mcb_seg new_size m)
     else if type = mcb_Z then ((cur, cur), m)
     else let
       next_seg = mcb_seg + 1 + cur;
       nm = seg_lin next_seg
     in if mem_readw E m (nm + 1) \<noteq> 0 then ((cur, cur), m)
     else let
       combined = cur + 1 + mem_readw E m (nm + 3)
     in if combined < new_size then ((cur, combined), m)
     else let
       m = mem_writeb E (b + 0) (mem_readb E m nm) m;
       m = mem_writew E (b + 3) combined m;
       m = mcb_split E mcb_seg new_size m
     in ((new_size, combined), m))"

section \<open>The chain as a list of blocks\<close>

record mcb =
  mcb_owner :: u16
  mcb_size :: nat

definition mcb_hdr :: "'m emu88 \<Rightarrow> 'm \<Rightarrow> u16 \<Rightarrow> u8 \<times> u16 \<times> u16" where
  "mcb_hdr E m s = (mem_readb E m (seg_lin s), mem_readw E m (seg_lin s + 1),
     mem_readw E m (seg_lin s + 3))"

definition low_ram :: "'m emu88 \<Rightarrow> 'm \<Rightarrow> bool" where
  "low_ram E m \<longleftrightarrow> (\<forall>a < 0xA0000. is_ram E m a)"

text \<open>\<open>span\<close> is the number of paragraphs a list of blocks takes, headers included.\<close>

primrec span :: "mcb list \<Rightarrow> nat" where
  "span [] = 0"
| "span (b # bs) = 1 + mcb_size b + span bs"

fun mcb_path :: "'m emu88 \<Rightarrow> 'm \<Rightarrow> nat \<Rightarrow> mcb list \<Rightarrow> bool" where
  "mcb_path E m s [] \<longleftrightarrow> s = 0xA000"
| "mcb_path E m s (b # bs) \<longleftrightarrow> s < 0xA000 \<and>
     mcb_hdr E m (of_nat s) =
       (if bs = [] then mcb_Z else mcb_M, mcb_owner b, of_nat (mcb_size b)) \<and>
     mcb_path E m (s + 1 + mcb_size b) bs"

definition mcb_chain :: "'m emu88 \<Rightarrow> 'm \<Rightarrow> mcb list \<Rightarrow> bool" where
  "mcb_chain E m bs \<longleftrightarrow> low_ram E m \<and> mcb_path E m 0x2000 bs"

definition fits :: "nat \<Rightarrow> mcb \<Rightarrow> bool" where
  "fits need b \<longleftrightarrow> mcb_owner b = 0 \<and> need \<le> mcb_size b"

text \<open>What first-fit allocation does to the list: the first free block that is large
  enough is taken, whole when at most one paragraph would be left over.\<close>

definition carve :: "u16 \<Rightarrow> nat \<Rightarrow> mcb \<Rightarrow> mcb list" where
  "carve owner need b = (if mcb_size b \<le> need + 1
     then [\<lparr>mcb_owner = owner, mcb_size = mcb_size b\<rparr>]
     else [\<lparr>mcb_owner = owner, mcb_size = need\<rparr>,
           \<lparr>mcb_owner = 0, mcb_size = mcb_size b - need - 1\<rparr>])"

definition before_fit :: "nat \<Rightarrow> mcb list \<Rightarrow> mcb list" where
  "before_fit need bs = takeWhile (\<lambda>b. \<not> fits need b) bs"

text \<open>What release does: the block is free, and joined with its successor if that is free.\<close>

fun free_merge :: "mcb \<Rightarrow> mcb list \<Rightarrow> mcb list" where
  "free_merge b [] = [b\<lparr>mcb_owner := 0\<rparr>]"
| "free_merge b (c # zs) = (if mcb_owner c = 0
     then \<lparr>mcb_owner = 0, mcb_size = mcb_size b + 1 + mcb_size c\<rparr> # zs
     else b\<lparr>mcb_owner := 0\<rparr> # c # zs)"

definition largest_free :: "mcb list \<Rightarrow> nat" where
  "largest_free bs = fold (\<lambda>b n. if mcb_owner b = 0 then max n (mcb_size b) else n) bs 0"


text \<open>The header segments a walk from 2000h visits.\<close>

inductive mcb_block :: "'m emu88 \<Rightarrow> 'm \<Rightarrow> u16 \<Rightarrow> bool" for E :: "'m emu88" and m :: 'm where
  first: "mcb_block E m MCB_ARENA_START"
| next_block: "\<lbrakk>mcb_block E m s; mem_readb E m (seg_lin s) = mcb_M\<rbrakk> \<Longrightarrow>
    mcb_block E m (s + 1 + mem_readw E m (seg_lin s + 3))"

text \<open>A run of the memory manager: the three services, applied to segments the guest got from
  the chain, interleaved with guest stores below A0000h that do not hit a header.\<close>

inductive mcb_run :: "'m emu88 \<Rightarrow> 'm \<Rightarrow> bool" for E :: "'m emu88" where
  boot: "low_ram E m \<Longrightarrow> mcb_run E (mcb_init E m)"
| alloc: "\<lbrakk>mcb_run E m; mcb_allocate E need (True, m) = Some (r, (True, m'))\<rbrakk> \<Longrightarrow> mcb_run E m'"
| release: "\<lbrakk>mcb_run E m; mcb_block E m s; mcb_free E (s + 1) (True, m) = (ok, m')\<rbrakk> \<Longrightarrow> mcb_run E m'"
| resize: "\<lbrakk>mcb_run E m; mcb_block E m s; mcb_resize E (s + 1) n (True, m) = (r, m')\<rbrakk> \<Longrightarrow> mcb_run E m'"
| guest: "\<lbrakk>mcb_run E m; a < 0xA0000; \<And>s k. \<lbrakk>mcb_block E m s; k < 5\<rbrakk> \<Longrightarrow> a \<noteq> seg_lin s + k\<rbrakk> \<Longrightarrow>
    mcb_run E (mem_writeb E a v m)"

fun mcb_prefix :: "'m emu88 \<Rightarrow> 'm \<Rightarrow> nat \<Rightarrow> mcb list \<Rightarrow> bool" where
  "mcb_prefix E m s [] \<longleftrightarrow> True"
| "mcb_prefix E m s (b # bs) \<longleftrightarrow> s < 0xA000 \<and>
     mcb_hdr E m (of_nat s) = (mcb_M, mcb_owner b, of_nat (mcb_size b)) \<and>
     mcb_prefix E m (s + 1 + mcb_size b) bs"

text \<open>Only the five header bytes of the segments in \<open>S\<close> may differ.\<close>

definition only_headers :: "'m emu88 \<Rightarrow> 'm \<Rightarrow> 'm \<Rightarrow> u16 set \<Rightarrow> bool" where
  "only_headers E m m' S \<longleftrightarrow> (\<forall>a. is_ram E m' a = is_ram E m a) \<and>
     (\<forall>a. is_ram E m a \<longrightarrow> (\<forall>s \<in> S. \<forall>k < 5. a \<noteq> seg_lin s + k) \<longrightarrow>
       mem_readb E m' a = mem_readb E m a)"

section \<open>Headers under writes\<close>

lemma span_append [simp]: "span (xs @ ys) = span xs + span ys"
  by (induction xs) simp_all

lemma mcb_path_end: "mcb_path E m s bs \<Longrightarrow> s + span bs = 0xA000"
  by (induction bs arbitrary: s) fastforce+

lemma low_addr:
  assumes "unat s < 0xA000" and "k < 16"
  shows "seg_lin s + k < 0xA0000"
proof -
  have "unat k < 16" using assms(2) by (simp add: word_less_nat_alt)
  with assms show ?thesis
    by (simp add: word_less_nat_alt unat_seg_lin_plus)
qed

lemma only_headers_refl: "only_headers E m m S"
  by (simp add: only_headers_def)

lemma only_headers_trans:
  "\<lbrakk>only_headers E m m' S; only_headers E m' m'' T\<rbrakk> \<Longrightarrow> only_headers E m m'' (S \<union> T)"
  by (simp add: only_headers_def)

lemma only_headers_mono: "\<lbrakk>only_headers E m m' S; S \<subseteq> T\<rbrakk> \<Longrightarrow> only_headers E m m' T"
  by (force simp: only_headers_def)

lemma mcb_path_append:
  "ys \<noteq> [] \<Longrightarrow> mcb_path E m s (xs @ ys) \<longleftrightarrow>
     mcb_prefix E m s xs \<and> mcb_path E m (s + span xs) ys"
  by (induction xs arbitrary: s) (auto simp: add.assoc)

lemma mcb_path_cong:
  assumes "\<And>p. \<lbrakk>s \<le> p; p < 0xA000\<rbrakk> \<Longrightarrow> mcb_hdr E m' (of_nat p) = mcb_hdr E m (of_nat p)"
    and "mcb_path E m s bs"
  shows "mcb_path E m' s bs"
  using assms by (induction bs arbitrary: s) auto

lemma mcb_prefix_cong:
  assumes "\<And>p. \<lbrakk>s \<le> p; p < s + span xs\<rbrakk> \<Longrightarrow> mcb_hdr E m' (of_nat p) = mcb_hdr E m (of_nat p)"
    and "mcb_prefix E m s xs"
  shows "mcb_prefix E m' s xs"
  using assms by (induction xs arbitrary: s) auto

lemma of_nat_seg_eq: "\<lbrakk>p < 0xA000; q < 0xA000\<rbrakk> \<Longrightarrow> (of_nat p :: u16) = of_nat q \<longleftrightarrow> p = q"
  by (simp add: word_of_nat_eq_iff take_bit_nat_eq_self)

lemma unat_seg: "p < 0xA000 \<Longrightarrow> unat (of_nat p :: u16) = p"
  by (simp add: unat_of_nat)

context emu88_engine
begin

lemma low_ram_seg:
  assumes "low_ram E m" and "unat s < 0xA000"
  shows "is_ram E m (seg_lin s)" "is_ram E m (seg_lin s + 1)" "is_ram E m (seg_lin s + 2)"
    "is_ram E m (seg_lin s + 3)" "is_ram E m (seg_lin s + 4)"
  using assms low_addr [OF assms(2), of 0] low_addr [OF assms(2), of 1] low_addr [OF assms(2), of 2]
    low_addr [OF assms(2), of 3] low_addr [OF assms(2), of 4]
  by (auto simp: low_ram_def)

lemma hdr_write_type:
  assumes "low_ram E m" "unat s < 0xA000" "unat t < 0xA000"
  shows "mcb_hdr E (mem_writeb E (seg_lin s) v m) t =
      (if t = s then (v, snd (mcb_hdr E m s)) else mcb_hdr E m t)"
  using low_ram_seg [OF assms(1,2)] low_ram_seg [OF assms(1,3)]
  by (auto simp: mcb_hdr_def readw_bytes mem_simps addr_simps add.assoc)

lemma hdr_write_owner:
  assumes "low_ram E m" "unat s < 0xA000" "unat t < 0xA000"
  shows "mcb_hdr E (mem_writew E (seg_lin s + 1) v m) t =
      (if t = s then (fst (mcb_hdr E m s), v, snd (snd (mcb_hdr E m s))) else mcb_hdr E m t)"
  using low_ram_seg [OF assms(1,2)] low_ram_seg [OF assms(1,3)]
  by (auto simp: mcb_hdr_def readw_bytes mem_simps addr_simps add.assoc)

lemma hdr_write_size:
  assumes "low_ram E m" "unat s < 0xA000" "unat t < 0xA000"
  shows "mcb_hdr E (mem_writew E (seg_lin s + 3) v m) t =
      (if t = s then (fst (mcb_hdr E m s), fst (snd (mcb_hdr E m s)), v) else mcb_hdr E m t)"
  using low_ram_seg [OF assms(1,2)] low_ram_seg [OF assms(1,3)]
  by (auto simp: mcb_hdr_def readw_bytes mem_simps addr_simps add.assoc)

lemma low_ram_write:
  assumes "low_ram E m" "unat s < 0xA000"
  shows "low_ram E (mem_writeb E (seg_lin s) v m)"
    and "low_ram E (mem_writew E (seg_lin s + 1) w m)"
    and "low_ram E (mem_writew E (seg_lin s + 3) w m)"
  using low_ram_seg [OF assms] assms(1)
  by (auto simp: low_ram_def mem_simps add.assoc)

lemma only_headers_write:
  assumes "low_ram E m" "unat s < 0xA000"
  shows "only_headers E m (mem_writeb E (seg_lin s) v m) {s}"
    and "only_headers E m (mem_writew E (seg_lin s + 1) w m) {s}"
    and "only_headers E m (mem_writew E (seg_lin s + 3) w m) {s}"
  using low_ram_seg [OF assms] assms(1)
  by (force simp: only_headers_def low_ram_def mem_simps add.assoc)+

lemma only_headers_hdr:
  assumes "low_ram E m" "low_ram E m'" "only_headers E m m' S" "unat t < 0xA000" "t \<notin> S"
  shows "mcb_hdr E m' t = mcb_hdr E m t"
proof -
  have b: "mem_readb E m' (seg_lin t + k) = mem_readb E m (seg_lin t + k)" if "k < 5" for k
  proof -
    have k: "k < 16" using that by (simp add: word_less_nat_alt)
    have "\<forall>s \<in> S. \<forall>j < 5. seg_lin t + k \<noteq> seg_lin s + j"
      using assms(5) k by (auto simp: seg_lin_eq_iff word_less_nat_alt)
    with low_addr [OF assms(4) k] assms(1,3) show ?thesis by (simp add: only_headers_def low_ram_def)
  qed
  show ?thesis
    using b [of 0] b [of 1] b [of 2] b [of 3] b [of 4]
      low_ram_seg [OF assms(1,4)] low_ram_seg [OF assms(2,4)]
    by (simp add: mcb_hdr_def readw_bytes add.assoc)
qed

lemma mcb_split_hdr:
  fixes s need :: u16
  assumes lr: "low_ram E m" and s: "unat s < 0xA000"
    and hdr: "mcb_hdr E m s = (ty, ow, cur)" and big: "unat need + 1 < unat cur"
    and n: "unat (s + 1 + need) < 0xA000" "s + 1 + need \<noteq> s"
  shows "low_ram E (mcb_split E s need m)"
    and "only_headers E m (mcb_split E s need m) {s, s + 1 + need}"
    and "mcb_hdr E (mcb_split E s need m) s = (mcb_M, ow, need)"
    and "mcb_hdr E (mcb_split E s need m) (s + 1 + need) = (ty, 0, cur - need - 1)"
proof -
  let ?n = "s + 1 + need"
  define m1 where "m1 = mem_writeb E (seg_lin ?n) ty m"
  define m2 where "m2 = mem_writew E (seg_lin ?n + 1) 0 m1"
  define m3 where "m3 = mem_writew E (seg_lin ?n + 3) (cur - need - 1) m2"
  define m4 where "m4 = mem_writeb E (seg_lin s) mcb_M m3"
  define m5 where "m5 = mem_writew E (seg_lin s + 3) need m4"
  have m': "mcb_split E s need m = m5"
    using big hdr by (simp add: mcb_split_def mcb_hdr_def Let_def m1_def m2_def m3_def m4_def m5_def)
  have ram: "low_ram E m1" "low_ram E m2" "low_ram E m3" "low_ram E m4" "low_ram E m5"
    using lr s n(1) by (simp_all add: m1_def m2_def m3_def m4_def m5_def low_ram_write)
  have "only_headers E m m1 {?n}" "only_headers E m1 m2 {?n}" "only_headers E m2 m3 {?n}"
    "only_headers E m3 m4 {s}" "only_headers E m4 m5 {s}"
    using lr ram s n(1) by (simp_all add: m1_def m2_def m3_def m4_def m5_def only_headers_write)
  then show "only_headers E m (mcb_split E s need m) {s, ?n}"
    by (simp add: only_headers_def m')
  show "low_ram E (mcb_split E s need m)" using ram by (simp add: m')
  show "mcb_hdr E (mcb_split E s need m) s = (mcb_M, ow, need)"
    "mcb_hdr E (mcb_split E s need m) ?n = (ty, 0, cur - need - 1)"
    using lr ram s n hdr
    by (simp_all add: m' m5_def m4_def m3_def m2_def m1_def hdr_write_type hdr_write_owner
        hdr_write_size low_ram_write)
qed

lemma mcb_split_path:
  assumes lr: "low_ram E m" and path: "mcb_path E m s (b # ys)"
  shows "mcb_path E (mcb_split E (of_nat s) need m) s (carve (mcb_owner b) (unat need) b @ ys)"
      (is ?path)
    and "low_ram E (mcb_split E (of_nat s) need m)" (is ?ram)
    and "only_headers E m (mcb_split E (of_nat s) need m)
      (if mcb_size b \<le> unat need + 1 then {} else {of_nat s, of_nat (s + 1 + unat need)})"
      (is ?frame)
proof -
  from path have s: "s < 0xA000" and hdr: "mcb_hdr E m (of_nat s) =
      (if ys = [] then mcb_Z else mcb_M, mcb_owner b, of_nat (mcb_size b))"
    and rest: "mcb_path E m (s + 1 + mcb_size b) ys" by auto
  have bound: "s + 1 + mcb_size b \<le> 0xA000" using mcb_path_end [OF rest] by simp
  have cur: "unat (of_nat (mcb_size b) :: u16) = mcb_size b"
    using bound by (simp add: unat_of_nat)
  have "?path \<and> ?ram \<and> ?frame"
  proof (cases "mcb_size b \<le> unat need + 1")
    case True
    then have "mcb_split E (of_nat s) need m = m"
      using cur hdr by (simp add: mcb_split_def mcb_hdr_def Let_def)
    then show ?thesis
      using True path lr by (simp add: carve_def only_headers_refl)
  next
    case False
    define n where "n = s + 1 + unat need"
    have n: "n < 0xA000" "s < n" "n < s + 1 + mcb_size b"
      using False bound by (simp_all add: n_def)
    have seg: "of_nat s + 1 + need = (of_nat n :: u16)" by (simp add: n_def)
    have *: "unat (of_nat s + 1 + need :: u16) < 0xA000" "of_nat s + 1 + need \<noteq> (of_nat s :: u16)"
      unfolding seg using n s by (simp_all add: unat_seg of_nat_seg_eq)
    have sz: "(of_nat (mcb_size b) :: u16) - need - 1 = of_nat (mcb_size b - unat need - 1)"
      using False by (simp add: of_nat_diff)
    note split = mcb_split_hdr [OF lr _ hdr _ *, unfolded sz, unfolded seg]
    have ram: ?ram and frame: "only_headers E m (mcb_split E (of_nat s) need m) {of_nat s, of_nat n}"
      using split False cur s by (simp_all add: unat_seg)
    have "mcb_path E (mcb_split E (of_nat s) need m) (s + 1 + mcb_size b) ys"
      by (rule mcb_path_cong [OF _ rest], rule only_headers_hdr [OF lr ram frame])
        (use n s in \<open>auto simp: unat_seg of_nat_seg_eq\<close>)
    moreover have "mcb_hdr E (mcb_split E (of_nat s) need m) (of_nat s) = (mcb_M, mcb_owner b, need)"
      "mcb_hdr E (mcb_split E (of_nat s) need m) (of_nat n) =
        (if ys = [] then mcb_Z else mcb_M, 0, of_nat (mcb_size b - unat need - 1))"
      using split False cur s by (simp_all add: unat_seg)
    ultimately have ?path
      using False n s by (simp add: carve_def n_def)
    with ram frame False show ?thesis by (simp add: n_def)
  qed
  then show ?path and ?ram and ?frame by simp_all
qed

text \<open>The walk ends on every chain, and finds the first block that fits.\<close>

lemma mcb_walk_path:
  assumes "mcb_path E m s bs" and "bs \<noteq> []" and "lg < 0x10000"
  shows "mcb_walk E m need (of_nat s) (of_nat lg) =
    Some (if before_fit (unat need) bs = bs then 0 else of_nat (s + span (before_fit (unat need) bs)),
          of_nat (fold (\<lambda>b n. if mcb_owner b = 0 then max n (mcb_size b) else n)
            (before_fit (unat need) bs) lg))"
  using assms
proof (induction bs arbitrary: s lg)
  case (Cons b bs)
  have hdr: "mcb_hdr E m (of_nat s) =
      (if bs = [] then mcb_Z else mcb_M, mcb_owner b, of_nat (mcb_size b))"
    and rest: "mcb_path E m (s + 1 + mcb_size b) bs" using Cons.prems by auto
  have sz: "mcb_size b < 0x10000" using mcb_path_end [OF rest] by simp
  have unat_sz: "unat (of_nat (mcb_size b) :: u16) = mcb_size b" using sz by (simp add: unat_of_nat)
  have lg: "unat (of_nat lg :: u16) = lg" using Cons.prems(3) by (simp add: unat_of_nat)
  define lg' where "lg' = (if mcb_owner b = 0 then max lg (mcb_size b) else lg)"
  have lg': "lg' < 0x10000" using sz Cons.prems(3) by (simp add: lg'_def)
  have seg: "(of_nat s :: u16) + 1 + of_nat (mcb_size b) = of_nat (s + 1 + mcb_size b)" by simp
  have step: "mcb_walk E m need (of_nat s) (of_nat lg) =
      (if fits (unat need) b then Some (of_nat s, of_nat lg)
       else if bs = [] then Some (0, of_nat lg')
       else mcb_walk E m need (of_nat (s + 1 + mcb_size b)) (of_nat lg'))"
    using hdr unat_sz lg
    by (subst mcb_walk.simps)
      (auto simp: mcb_hdr_def Let_def seg fits_def word_le_nat_alt word_less_nat_alt lg'_def max_def)
  show ?case
  proof (cases "fits (unat need) b \<or> bs = []")
    case True
    then show ?thesis using step by (auto simp: before_fit_def lg'_def)
  next
    case False
    then show ?thesis
      using step Cons.IH [OF rest _ lg'] by (simp add: before_fit_def lg'_def add.assoc)
  qed
qed simp

lemma mcb_find_free_chain:
  assumes "mcb_chain E m bs"
  shows "mcb_find_free E m need =
    Some (if before_fit (unat need) bs = bs then 0 else of_nat (0x2000 + span (before_fit (unat need) bs)),
          of_nat (largest_free (before_fit (unat need) bs)))"
proof -
  have path: "mcb_path E m 0x2000 bs" and ne: "bs \<noteq> []"
    using assms by (auto simp: mcb_chain_def)
  show ?thesis
    using mcb_walk_path [OF path ne, of 0 need]
    by (simp add: mcb_find_free_def MCB_ARENA_START_def largest_free_def)
qed

text \<open>Replacing the blocks in the middle of a chain.\<close>

lemma mcb_chain_replace:
  assumes chain: "mcb_chain E m (xs @ b # ys)"
    and ram: "low_ram E m'" and frame: "only_headers E m m' S"
    and S: "\<And>p. p < 0x2000 + span xs \<Longrightarrow> of_nat p \<notin> S"
    and path: "mcb_path E m' (0x2000 + span xs) zs" and ne: "zs \<noteq> []"
  shows "mcb_chain E m' (xs @ zs)"
proof -
  from chain have lr: "low_ram E m" and pre: "mcb_prefix E m 0x2000 xs"
    and at: "mcb_path E m (0x2000 + span xs) (b # ys)"
    by (auto simp: mcb_chain_def mcb_path_append)
  have "mcb_prefix E m' 0x2000 xs"
    by (rule mcb_prefix_cong [OF _ pre], rule only_headers_hdr [OF lr ram frame])
      (use at S in \<open>auto simp: unat_seg\<close>)
  with path ne ram show ?thesis by (simp add: mcb_chain_def mcb_path_append)
qed

lemma mcb_chain_middle:
  assumes "mcb_chain E m (xs @ b # ys)"
  shows "low_ram E m" "mcb_path E m (0x2000 + span xs) (b # ys)" "0x2000 + span xs < 0xA000"
    "0x2001 + span xs + mcb_size b + span ys = 0xA000"
  using assms mcb_path_end [of E m "0x2000 + span xs" "b # ys"]
  by (auto simp: mcb_chain_def mcb_path_append)

lemma mcb_path_head:
  assumes "low_ram E m" "low_ram E m'" "only_headers E m m' {of_nat s}" "s < 0xA000"
    and "mcb_path E m (s + 1 + mcb_size b) ys"
    and "mcb_hdr E m' (of_nat s) =
      (if ys = [] then mcb_Z else mcb_M, mcb_owner b, of_nat (mcb_size b))"
  shows "mcb_path E m' s (b # ys)"
proof -
  have "mcb_path E m' (s + 1 + mcb_size b) ys"
    using assms(5) by (rule mcb_path_cong [rotated], intro only_headers_hdr [OF assms(1-3)])
      (use assms(4) in \<open>auto simp: unat_seg of_nat_seg_eq\<close>)
  with assms show ?thesis by simp
qed

lemma mcb_set_owner_path:
  assumes lr: "low_ram E m" and path: "mcb_path E m s (b # ys)"
  shows "mcb_path E (mem_writew E (seg_lin (of_nat s) + 1) ow m) s (b\<lparr>mcb_owner := ow\<rparr> # ys)"
    and "low_ram E (mem_writew E (seg_lin (of_nat s) + 1) ow m)"
    and "only_headers E m (mem_writew E (seg_lin (of_nat s) + 1) ow m) {of_nat s}"
proof -
  have s: "s < 0xA000" "unat (of_nat s :: u16) < 0xA000" using path by (auto simp: unat_seg)
  show ram: "low_ram E (mem_writew E (seg_lin (of_nat s) + 1) ow m)"
    and frame: "only_headers E m (mem_writew E (seg_lin (of_nat s) + 1) ow m) {of_nat s}"
    using lr s by (simp_all add: low_ram_write only_headers_write)
  show "mcb_path E (mem_writew E (seg_lin (of_nat s) + 1) ow m) s (b\<lparr>mcb_owner := ow\<rparr> # ys)"
    by (rule mcb_path_head [OF lr ram frame]) (use path s lr in \<open>simp_all add: hdr_write_owner\<close>)
qed

lemma carve_owner: "carve ow need b = hd (carve 0 need b)\<lparr>mcb_owner := ow\<rparr> # tl (carve 0 need b)"
  by (simp add: carve_def)

lemma before_fit_append:
  "\<lbrakk>\<And>x. x \<in> set xs \<Longrightarrow> \<not> fits need x; fits need b\<rbrakk> \<Longrightarrow> before_fit need (xs @ b # ys) = xs"
  by (induction xs) (auto simp: before_fit_def)

lemma before_fit_none:
  "(\<And>x. x \<in> set xs \<Longrightarrow> \<not> fits need x) \<Longrightarrow> before_fit need xs = xs"
  by (simp add: before_fit_def)

lemma mcb_allocate_first_fit:
  assumes chain: "mcb_chain E m (xs @ b # ys)"
    and no_fit: "\<And>x. x \<in> set xs \<Longrightarrow> \<not> fits (unat need) x" and fit: "fits (unat need) b"
  obtains lg m' where "mcb_allocate E need (True, m) =
      Some ((of_nat (0x2001 + span xs), lg), (True, m'))"
    and "mcb_chain E m' (xs @ carve PSP_SEG (unat need) b @ ys)"
    and "only_headers E m m' {of_nat (0x2000 + span xs), of_nat (0x2001 + span xs + unat need)}"
proof -
  let ?s = "0x2000 + span xs"
  note mid = mcb_chain_middle [OF chain]
  define m1 where "m1 = mcb_split E (of_nat ?s) need m"
  define m' where "m' = mem_writew E (seg_lin (of_nat ?s) + 1) PSP_SEG m1"
  note split = mcb_split_path [OF mid(1,2), of need, folded m1_def]
  have "mcb_owner b = 0" using fit by (simp add: fits_def)
  then have p1: "mcb_path E m1 ?s (hd (carve 0 (unat need) b) # tl (carve 0 (unat need) b) @ ys)"
    using split(1) by (simp add: carve_def split: if_splits)
  note own = mcb_set_owner_path [OF split(2) p1, of PSP_SEG, folded m'_def]
  define T :: "u16 set" where "T = {of_nat ?s} \<union>
    (if mcb_size b \<le> unat need + 1 then {} else {of_nat (?s + 1 + unat need)})"
  have frame: "only_headers E m m' T"
    using only_headers_trans [OF split(3) own(3)]
    by (rule only_headers_mono) (simp add: T_def)
  have "mcb_chain E m' (xs @ carve PSP_SEG (unat need) b @ ys)"
  proof (rule mcb_chain_replace [OF chain own(2) frame])
    show "of_nat p \<notin> T" if "p < ?s" for p
      using that mid(3,4) unfolding T_def
      by (auto simp: of_nat_seg_eq simp del: of_nat_add split: if_splits)
  qed (use own(1) in \<open>simp_all add: carve_owner [of PSP_SEG]\<close>)
  moreover have bf: "before_fit (unat need) (xs @ b # ys) = xs"
    by (rule before_fit_append) (use no_fit fit in auto)
  have "of_nat ?s \<noteq> (0 :: u16)"
    using of_nat_seg_eq [of ?s 0] mid(3) by simp
  then have "mcb_allocate E need (True, m) =
      Some ((of_nat (0x2001 + span xs), of_nat (largest_free xs)), (True, m'))"
    using mcb_find_free_chain [OF chain, of need] bf
    by (simp add: mcb_allocate_def Let_def m1_def m'_def)
  moreover have "only_headers E m m' {of_nat ?s, of_nat (0x2001 + span xs + unat need)}"
    using frame by (rule only_headers_mono) (auto simp: T_def)
  ultimately show ?thesis using that by blast
qed

lemma mcb_allocate_full:
  assumes "mcb_chain E m bs" and "\<And>x. x \<in> set bs \<Longrightarrow> \<not> fits (unat need) x"
  shows "mcb_allocate E need (True, m) = Some ((0, of_nat (largest_free bs)), (True, m))"
  using mcb_find_free_chain [OF assms(1), of need] before_fit_none [OF assms(2)]
  by (simp add: mcb_allocate_def)

text \<open>Joining a block with its successor: type and size come from the successor's header.\<close>

lemma mcb_join:
  assumes lr: "low_ram E m" and path: "mcb_path E m s (b # c # zs)"
    and ty: "ty = mem_readb E m (seg_lin (of_nat (s + 1 + mcb_size b)))"
    and m': "m' = mem_writeb E (seg_lin (of_nat s)) ty
        (mem_writew E (seg_lin (of_nat s) + 3) (of_nat (mcb_size b + 1 + mcb_size c)) m) \<or>
      m' = mem_writew E (seg_lin (of_nat s) + 3) (of_nat (mcb_size b + 1 + mcb_size c))
        (mem_writeb E (seg_lin (of_nat s)) ty m)"
  shows "mcb_path E m' s (b\<lparr>mcb_size := mcb_size b + 1 + mcb_size c\<rparr> # zs)"
    and "low_ram E m'" and "only_headers E m m' {of_nat s}"
proof -
  have s: "s < 0xA000" "unat (of_nat s :: u16) < 0xA000" using path by (auto simp: unat_seg)
  have ty': "ty = (if zs = [] then mcb_Z else mcb_M)" using path ty by (simp add: mcb_hdr_def)
  show ram: "low_ram E m'" using m' lr s by (auto simp: low_ram_write)
  show frame: "only_headers E m m' {of_nat s}"
    using m' only_headers_write [OF lr s(2)]
      only_headers_write [OF low_ram_write(1) [OF lr s(2)] s(2)]
      only_headers_write [OF low_ram_write(3) [OF lr s(2)] s(2)]
    by (elim disjE) (simp_all add: only_headers_def)
  show "mcb_path E m' s (b\<lparr>mcb_size := mcb_size b + 1 + mcb_size c\<rparr> # zs)"
    by (rule mcb_path_head [OF lr ram frame])
      (use m' path s lr ty' in \<open>auto simp: hdr_write_type hdr_write_size low_ram_write add.assoc\<close>)
qed

lemma mcb_free_chain:
  assumes chain: "mcb_chain E m (xs @ b # ys)"
  obtains m' where "mcb_free E (of_nat (0x2001 + span xs)) (True, m) = (True, m')"
    and "mcb_chain E m' (xs @ free_merge b ys)"
    and "only_headers E m m' {of_nat (0x2000 + span xs)}"
proof -
  let ?s = "0x2000 + span xs"
  note mid = mcb_chain_middle [OF chain]
  have seg: "of_nat (0x2001 + span xs) - 1 = (of_nat ?s :: u16)" by simp
  define m1 where "m1 = mem_writew E (seg_lin (of_nat ?s) + 1) 0 m"
  note own = mcb_set_owner_path [OF mid(1,2), of 0, folded m1_def]
  have hdr: "mcb_hdr E m (of_nat ?s) = (if ys = [] then mcb_Z else mcb_M, mcb_owner b, of_nat (mcb_size b))"
    "mcb_hdr E m1 (of_nat ?s) = (if ys = [] then mcb_Z else mcb_M, 0, of_nat (mcb_size b))"
    using mid(2) own(1) by simp_all
  have S: "of_nat p \<notin> {of_nat ?s :: u16}" if "p < ?s" for p
    using that mid(3) by (simp add: of_nat_seg_eq del: of_nat_add)
  show ?thesis
  proof (cases "ys = [] \<or> mcb_owner (hd ys) \<noteq> 0")
    case True
    have "mcb_free E (of_nat (0x2001 + span xs)) (True, m) = (True, m1)"
      using hdr own(1) True unfolding mcb_free_def seg
      by (cases ys) (auto simp: mcb_hdr_def Let_def m1_def add.assoc)
    moreover have "mcb_chain E m1 (xs @ free_merge b ys)"
      by (rule mcb_chain_replace [OF chain own(2,3) S]) (use own(1) True in \<open>cases ys; simp\<close>)+
    ultimately show ?thesis using that own(3) by blast
  next
    case False
    then obtain c zs where ys: "ys = c # zs" "mcb_owner c = 0" by (cases ys) auto
    define ty where "ty = mem_readb E m1 (seg_lin (of_nat (?s + 1 + mcb_size b)))"
    define b0 where "b0 = b\<lparr>mcb_owner := 0\<rparr>"
    have path: "mcb_path E m1 ?s (b0 # c # zs)" using own(1) ys by (simp add: b0_def)
    have b0: "mcb_size b0 = mcb_size b" "mcb_owner b0 = 0" by (simp_all add: b0_def)
    define m2 where "m2 = mem_writeb E (seg_lin (of_nat ?s)) ty
        (mem_writew E (seg_lin (of_nat ?s) + 3) (of_nat (mcb_size b0 + 1 + mcb_size c)) m1)"
    note join = mcb_join [OF own(2) path ty_def [folded b0(1)] disjI1 [OF m2_def]]
    have frame: "only_headers E m m2 {of_nat ?s}"
      using only_headers_trans [OF own(3) join(3)] by simp
    have "mcb_free E (of_nat (0x2001 + span xs)) (True, m) = (True, m2)"
      using hdr own(1) ys unfolding mcb_free_def seg
      by (auto simp: mcb_hdr_def Let_def m1_def m2_def ty_def b0_def add.assoc
          add.left_commute [of "of_nat k" 1 for k])
    moreover have "mcb_chain E m2 (xs @ free_merge b ys)"
      by (rule mcb_chain_replace [OF chain join(2) frame S]) (use join(1) ys in \<open>simp_all add: b0_def\<close>)
    ultimately show ?thesis using that frame by blast
  qed
qed

text \<open>Resize in place: shrinking splits the block, growing takes a free successor when the two
  together are large enough.\<close>

lemma mcb_resize_shrink:
  assumes chain: "mcb_chain E m (xs @ b # ys)" and less: "unat n < mcb_size b"
  obtains m' where "mcb_resize E (of_nat (0x2001 + span xs)) n (True, m) =
      ((n, of_nat (mcb_size b)), m')"
    and "mcb_chain E m' (xs @ carve (mcb_owner b) (unat n) b @ ys)"
    and "only_headers E m m' {of_nat (0x2000 + span xs), of_nat (0x2001 + span xs + unat n)}"
proof -
  let ?s = "0x2000 + span xs"
  note mid = mcb_chain_middle [OF chain]
  have seg: "of_nat (0x2001 + span xs) - 1 = (of_nat ?s :: u16)" by simp
  define m' where "m' = mcb_split E (of_nat ?s) n m"
  note split = mcb_split_path [OF mid(1,2), of n, folded m'_def]
  have sz: "unat (of_nat (mcb_size b) :: u16) = mcb_size b"
    using mid(4) by (simp add: unat_of_nat)
  have "mcb_resize E (of_nat (0x2001 + span xs)) n (True, m) = ((n, of_nat (mcb_size b)), m')"
    using mid(2) less sz unfolding mcb_resize_def seg
    by (auto simp: mcb_hdr_def Let_def word_less_nat_alt m'_def)
  moreover have "mcb_chain E m' (xs @ carve (mcb_owner b) (unat n) b @ ys)"
  proof (rule mcb_chain_replace [OF chain split(2,3)])
    show "of_nat p \<notin> (if mcb_size b \<le> unat n + 1 then {}
        else {of_nat ?s, of_nat (?s + 1 + unat n) :: u16})" if "p < ?s" for p
      using that mid(3,4) by (auto simp: of_nat_seg_eq simp del: of_nat_add split: if_splits)
  qed (use split(1) in \<open>simp_all add: carve_def\<close>)
  moreover have "only_headers E m m' {of_nat ?s, of_nat (0x2001 + span xs + unat n)}"
    using split(3) by (rule only_headers_mono) simp
  ultimately show ?thesis using that by blast
qed

lemma mcb_resize_grow:
  assumes chain: "mcb_chain E m (xs @ b # c # zs)" and free: "mcb_owner c = 0"
    and n: "mcb_size b < unat n" "unat n \<le> mcb_size b + 1 + mcb_size c"
  obtains m' where "mcb_resize E (of_nat (0x2001 + span xs)) n (True, m) =
      ((n, of_nat (mcb_size b + 1 + mcb_size c)), m')"
    and "mcb_chain E m'
      (xs @ carve (mcb_owner b) (unat n) (b\<lparr>mcb_size := mcb_size b + 1 + mcb_size c\<rparr>) @ zs)"
    and "only_headers E m m' {of_nat (0x2000 + span xs), of_nat (0x2001 + span xs + unat n)}"
proof -
  let ?s = "0x2000 + span xs" and ?b = "b\<lparr>mcb_size := mcb_size b + 1 + mcb_size c\<rparr>"
  note mid = mcb_chain_middle [OF chain]
  have seg: "of_nat (0x2001 + span xs) - 1 = (of_nat ?s :: u16)" by simp
  define ty where "ty = mem_readb E m (seg_lin (of_nat (?s + 1 + mcb_size b)))"
  define m1 where "m1 = mem_writew E (seg_lin (of_nat ?s) + 3) (of_nat (mcb_size b + 1 + mcb_size c))
      (mem_writeb E (seg_lin (of_nat ?s)) ty m)"
  note join = mcb_join [OF mid(1,2) ty_def disjI2 [OF m1_def]]
  define m' where "m' = mcb_split E (of_nat ?s) n m1"
  note split = mcb_split_path [OF join(2,1), of n, folded m'_def]
  have sz: "unat (of_nat (mcb_size b) :: u16) = mcb_size b"
    "unat (of_nat (mcb_size b + 1 + mcb_size c) :: u16) = mcb_size b + 1 + mcb_size c"
    using mid(4) by (intro unat_of_nat_u16; simp)+
  have "mcb_resize E (of_nat (0x2001 + span xs)) n (True, m) =
      ((n, of_nat (mcb_size b + 1 + mcb_size c)), m')"
    using mid(2) n sz free unfolding mcb_resize_def seg
    by (auto simp: mcb_hdr_def Let_def word_less_nat_alt word_unat_eq_iff [of n] m'_def m1_def ty_def
        add.assoc add.left_commute [of "of_nat k" 1 for k])
  moreover have frame: "only_headers E m m' ({of_nat ?s} \<union>
      (if mcb_size b + 1 + mcb_size c \<le> unat n + 1 then {}
       else {of_nat ?s, of_nat (?s + 1 + unat n)}))"
    using only_headers_trans [OF join(3) split(3)] by simp
  then have "mcb_chain E m' (xs @ carve (mcb_owner b) (unat n) ?b @ zs)"
  proof (rule mcb_chain_replace [OF chain split(2)])
    show "of_nat p \<notin> {of_nat ?s} \<union> (if mcb_size b + 1 + mcb_size c \<le> unat n + 1 then {}
        else {of_nat ?s, of_nat (?s + 1 + unat n) :: u16})" if "p < ?s" for p
      using that mid(3,4) by (auto simp: of_nat_seg_eq simp del: of_nat_add split: if_splits)
  qed (use split(1) in \<open>simp_all add: carve_def\<close>)
  moreover have "only_headers E m m' {of_nat ?s, of_nat (0x2001 + span xs + unat n)}"
    using frame by (rule only_headers_mono) simp
  ultimately show ?thesis using that by blast
qed

text \<open>Every other request leaves the chain alone and reports the size the block can have.\<close>

lemma mcb_resize_refused:
  assumes chain: "mcb_chain E m (xs @ b # ys)" and n: "mcb_size b \<le> unat n"
    and room: "\<And>c zs. \<lbrakk>ys = c # zs; mcb_owner c = 0; mcb_size b \<noteq> unat n\<rbrakk> \<Longrightarrow>
      mcb_size b + 1 + mcb_size c < unat n"
  shows "mcb_resize E (of_nat (0x2001 + span xs)) n (True, m) =
    ((of_nat (mcb_size b),
      of_nat (if unat n \<noteq> mcb_size b \<and> ys \<noteq> [] \<and> mcb_owner (hd ys) = 0
        then mcb_size b + 1 + mcb_size (hd ys) else mcb_size b)), m)"
proof -
  note mid = mcb_chain_middle [OF chain]
  have seg: "of_nat (0x2001 + span xs) - 1 = (of_nat (0x2000 + span xs) :: u16)" by simp
  have sz: "unat (of_nat (mcb_size b) :: u16) = mcb_size b" using mid(4) by (simp add: unat_of_nat)
  have eq: "n = of_nat (mcb_size b) \<longleftrightarrow> unat n = mcb_size b" by (simp add: word_unat_eq_iff sz)
  show ?thesis
  proof (cases ys)
    case Nil
    then show ?thesis using mid(2) n sz unfolding mcb_resize_def seg
      by (auto simp: mcb_hdr_def Let_def word_less_nat_alt eq)
  next
    case (Cons c zs)
    have sz2: "unat (of_nat (mcb_size b + 1 + mcb_size c) :: u16) = mcb_size b + 1 + mcb_size c"
      using mid(4) Cons by (intro unat_of_nat_u16; simp)+
    show ?thesis using mid(2) n sz sz2 room [OF Cons] Cons unfolding mcb_resize_def seg
      by (auto simp: mcb_hdr_def Let_def word_less_nat_alt eq add.assoc
          add.left_commute [of "of_nat k" 1 for k])
  qed
qed

lemma mcb_init_chain:
  assumes "low_ram E m"
  shows "mcb_chain E (mcb_init E m) [\<lparr>mcb_owner = 0, mcb_size = 0x7FFF\<rparr>]"
    and "mcb_hdr E (mcb_init E m) (PSP_SEG - 1) = (mcb_M, PSP_SEG, 0x1EFF)"
    and "only_headers E m (mcb_init E m) {MCB_ARENA_START, PSP_SEG - 1}"
proof -
  let ?s = MCB_ARENA_START and ?p = "PSP_SEG - 1"
  define m1 where "m1 = mem_writeb E (seg_lin ?s) mcb_Z m"
  define m2 where "m2 = mem_writew E (seg_lin ?s + 1) 0 m1"
  define m3 where "m3 = mem_writew E (seg_lin ?s + 3) 0x7FFF m2"
  define m4 where "m4 = mem_writeb E (seg_lin ?p) mcb_M m3"
  define m5 where "m5 = mem_writew E (seg_lin ?p + 1) PSP_SEG m4"
  define m6 where "m6 = mem_writew E (seg_lin ?p + 3) 0x1EFF m5"
  have m': "mcb_init E m = m6"
    by (simp add: mcb_init_def Let_def m1_def m2_def m3_def m4_def m5_def m6_def
        MCB_ARENA_START_def MCB_ARENA_END_def PSP_SEG_def)
  have s: "unat ?s < 0xA000" and p: "unat ?p < 0xA000" and ne: "?s \<noteq> ?p"
    by (simp_all add: MCB_ARENA_START_def PSP_SEG_def)
  have ram: "low_ram E m1" "low_ram E m2" "low_ram E m3" "low_ram E m4" "low_ram E m5" "low_ram E m6"
    using assms s p by (simp_all add: m1_def m2_def m3_def m4_def m5_def m6_def low_ram_write)
  have h: "mcb_hdr E m6 ?s = (mcb_Z, 0, 0x7FFF)" "mcb_hdr E m6 ?p = (mcb_M, PSP_SEG, 0x1EFF)"
    using assms ram s p ne ne [symmetric]
    by (simp_all add: m6_def m5_def m4_def m3_def m2_def m1_def hdr_write_type hdr_write_owner
        hdr_write_size low_ram_write)
  show "mcb_chain E (mcb_init E m) [\<lparr>mcb_owner = 0, mcb_size = 0x7FFF\<rparr>]"
    using h(1) ram(6) by (simp add: mcb_chain_def m' MCB_ARENA_START_def)
  show "mcb_hdr E (mcb_init E m) ?p = (mcb_M, PSP_SEG, 0x1EFF)" using h(2) by (simp add: m')
  have "only_headers E m m1 {?s}" "only_headers E m1 m2 {?s}" "only_headers E m2 m3 {?s}"
    "only_headers E m3 m4 {?p}" "only_headers E m4 m5 {?p}" "only_headers E m5 m6 {?p}"
    using assms ram s p
    by (simp_all add: m1_def m2_def m3_def m4_def m5_def m6_def only_headers_write)
  then show "only_headers E m (mcb_init E m) {?s, ?p}" by (simp add: only_headers_def m')
qed

end

section \<open>Runs of the memory manager\<close>

lemma largest_free_Max:
  "largest_free bs = Max (insert 0 (mcb_size ` {b \<in> set bs. mcb_owner b = 0}))"
proof -
  have "fold (\<lambda>b n. if mcb_owner b = 0 then max n (mcb_size b) else n) bs k =
      Max (insert k (mcb_size ` {b \<in> set bs. mcb_owner b = 0}))" for k
  proof (induction bs arbitrary: k)
    case (Cons b bs)
    have "{x \<in> set (b # bs). mcb_owner x = 0} =
        (if mcb_owner b = 0 then insert b {x \<in> set bs. mcb_owner x = 0}
         else {x \<in> set bs. mcb_owner x = 0})" by auto
    moreover have "Max (insert (max k x) A) = Max (insert k (insert x A))" if "finite A" for x and A :: "nat set"
      using that by (cases "A = {}") (simp_all add: max.assoc)
    ultimately show ?case using Cons.IH by simp
  qed simp
  then show ?thesis by (simp add: largest_free_def)
qed

lemma mcb_block_position:
  assumes "mcb_block E m s" and "mcb_chain E m bs"
  shows "\<exists>xs b ys. bs = xs @ b # ys \<and> s = of_nat (0x2000 + span xs)"
  using assms(1)
proof induction
  case first
  obtain b ys where "bs = [] @ b # ys" using assms(2) by (cases bs) (auto simp: mcb_chain_def)
  then show ?case by (metis MCB_ARENA_START_def add.right_neutral of_nat_numeral span.simps(1))
next
  case (next_block s)
  then obtain xs b ys where bs: "bs = xs @ b # ys" and s: "s = of_nat (0x2000 + span xs)" by blast
  have "mcb_path E m (0x2000 + span xs) (b # ys)"
    using assms(2) bs by (auto simp: mcb_chain_def mcb_path_append)
  then have hdr: "mcb_hdr E m s = (if ys = [] then mcb_Z else mcb_M, mcb_owner b, of_nat (mcb_size b))"
    by (simp add: s)
  then obtain c zs where ys: "ys = c # zs"
    using next_block.hyps by (cases ys) (auto simp: mcb_hdr_def)
  have "bs = (xs @ [b]) @ c # zs" by (simp add: bs ys)
  moreover have "s + 1 + mem_readw E m (seg_lin s + 3) = of_nat (0x2000 + span (xs @ [b]))"
    using hdr by (simp add: s mcb_hdr_def)
  ultimately show ?case by blast
qed

lemma mcb_chain_block:
  assumes "mcb_chain E m (xs @ b # ys)"
  shows "mcb_block E m (of_nat (0x2000 + span xs))"
  using assms
proof (induction xs arbitrary: b ys rule: rev_induct)
  case Nil
  show ?case using mcb_block.first [of E m] by (simp add: MCB_ARENA_START_def)
next
  case (snoc a xs)
  then have block: "mcb_block E m (of_nat (0x2000 + span xs))"
    using snoc.IH [of a "b # ys"] by simp
  have "mcb_path E m (0x2000 + span xs) (a # b # ys)"
    using snoc.prems by (auto simp: mcb_chain_def mcb_path_append)
  then have "mem_readb E m (seg_lin (of_nat (0x2000 + span xs))) = mcb_M"
    "mem_readw E m (seg_lin (of_nat (0x2000 + span xs)) + 3) = of_nat (mcb_size a)"
    by (simp_all add: mcb_hdr_def)
  then show ?case using mcb_block.next_block [OF block] by (simp add: ac_simps)
qed

lemma mcb_path_cong_blocks:
  assumes "\<And>xs b ys. bs = xs @ b # ys \<Longrightarrow>
      mcb_hdr E m' (of_nat (s + span xs)) = mcb_hdr E m (of_nat (s + span xs))"
    and "mcb_path E m s bs"
  shows "mcb_path E m' s bs"
  using assms
proof (induction bs arbitrary: s)
  case (Cons b bs)
  have "mcb_path E m' (s + 1 + mcb_size b) bs"
  proof (rule Cons.IH)
    show "mcb_hdr E m' (of_nat (s + 1 + mcb_size b + span xs)) =
        mcb_hdr E m (of_nat (s + 1 + mcb_size b + span xs))" if "bs = xs @ c # ys" for xs c ys
      using Cons.prems(1) [of "b # xs" c ys] that by (simp add: ac_simps)
  qed (use Cons.prems(2) in simp)
  with Cons.prems(2) Cons.prems(1) [of "[]" b bs] show ?case by simp
qed simp

context emu88_engine
begin

lemma mcb_guest_write:
  assumes chain: "mcb_chain E m bs" and a: "a < 0xA0000"
    and off: "\<And>s k. \<lbrakk>mcb_block E m s; k < 5\<rbrakk> \<Longrightarrow> a \<noteq> seg_lin s + k"
  shows "mcb_chain E (mem_writeb E a v m) bs"
proof -
  have lr: "low_ram E m" and path: "mcb_path E m 0x2000 bs" and ram: "is_ram E m a"
    using chain a by (auto simp: mcb_chain_def low_ram_def)
  have "mcb_hdr E (mem_writeb E a v m) (of_nat (0x2000 + span xs)) =
      mcb_hdr E m (of_nat (0x2000 + span xs))" (is "mcb_hdr E _ ?s = _")
    if "bs = xs @ b # ys" for xs b ys
  proof -
    have mid: "0x2000 + span xs < 0xA000" and block: "mcb_block E m ?s"
      using mcb_chain_middle(3) [OF chain [unfolded that]] mcb_chain_block [OF chain [unfolded that]]
      by simp_all
    then have "unat ?s < 0xA000" using unat_seg [OF mid] by simp
    note seg = low_ram_seg [OF lr this]
    show ?thesis
      using seg ram off [OF block, of 0] off [OF block, of 1] off [OF block, of 2]
        off [OF block, of 3] off [OF block, of 4]
      by (auto simp: mcb_hdr_def readw_bytes mem_simps add.assoc simp del: of_nat_add)
  qed
  then have "mcb_path E (mem_writeb E a v m) 0x2000 bs"
    using path by (rule mcb_path_cong_blocks)
  moreover have "low_ram E (mem_writeb E a v m)"
    using lr ram by (simp add: low_ram_def ram_writeb)
  ultimately show ?thesis by (simp add: mcb_chain_def)
qed

lemma mcb_allocate_chain:
  assumes chain: "mcb_chain E m bs" and alloc: "mcb_allocate E need (True, m) = Some (r, (True, m'))"
  shows "\<exists>bs'. mcb_chain E m' bs'"
proof (cases "\<exists>b \<in> set bs. fits (unat need) b")
  case True
  then obtain xs b ys where bs: "bs = xs @ b # ys" "fits (unat need) b"
      "\<And>x. x \<in> set xs \<Longrightarrow> \<not> fits (unat need) x"
    using split_list_first_prop [OF True] by blast
  then obtain lg m'' where "mcb_allocate E need (True, m) = Some ((of_nat (0x2001 + span xs), lg), (True, m''))"
      "mcb_chain E m'' (xs @ carve PSP_SEG (unat need) b @ ys)"
    using mcb_allocate_first_fit [OF chain [unfolded bs(1)], of need] by blast
  with alloc show ?thesis by auto
next
  case False
  then show ?thesis using mcb_allocate_full [OF chain] alloc chain by auto
qed

lemma mcb_resize_chain:
  assumes chain: "mcb_chain E m (xs @ b # ys)"
    and res: "mcb_resize E (of_nat (0x2001 + span xs)) n (True, m) = (r, m')"
  shows "\<exists>bs'. mcb_chain E m' bs'"
proof -
  consider (shrink) "unat n < mcb_size b"
    | (grow) c zs where "ys = c # zs" "mcb_owner c = 0" "mcb_size b < unat n"
        "unat n \<le> mcb_size b + 1 + mcb_size c"
    | (refused) "mcb_size b \<le> unat n" "\<And>c zs. \<lbrakk>ys = c # zs; mcb_owner c = 0; mcb_size b \<noteq> unat n\<rbrakk> \<Longrightarrow>
      mcb_size b + 1 + mcb_size c < unat n"
    by (metis le_neq_implies_less not_less)
  then show ?thesis
  proof cases
    case shrink
    then show ?thesis using mcb_resize_shrink [OF chain shrink] res by (metis snd_conv)
  next
    case grow
    then show ?thesis using mcb_resize_grow [of m xs b c zs n] chain res by (metis snd_conv)
  next
    case refused
    then show ?thesis using mcb_resize_refused [OF chain] chain res by (metis snd_conv)
  qed
qed

lemma mcb_run_chain: "mcb_run E m \<Longrightarrow> \<exists>bs. mcb_chain E m bs"
proof (induction rule: mcb_run.induct)
  case (boot m)
  then show ?case using mcb_init_chain by blast
next
  case (alloc m need r m')
  then show ?case using mcb_allocate_chain by blast
next
  case (release m s ok m')
  then obtain bs xs b ys where "mcb_chain E m bs" "bs = xs @ b # ys" "s = of_nat (0x2000 + span xs)"
    using mcb_block_position by metis
  moreover from this have "s + 1 = of_nat (0x2001 + span xs)" by simp
  ultimately show ?case using mcb_free_chain [of m xs b ys] release.hyps by (metis snd_conv)
next
  case (resize m s n r m')
  then obtain bs xs b ys where "mcb_chain E m bs" "bs = xs @ b # ys" "s = of_nat (0x2000 + span xs)"
    using mcb_block_position by metis
  moreover from this have "s + 1 = of_nat (0x2001 + span xs)" by simp
  ultimately show ?case using mcb_resize_chain resize.hyps by metis
next
  case (guest m a v)
  then show ?case using mcb_guest_write by metis
qed

end

section \<open>Properties\<close>

text \<open>C2: AH=48h is first fit. On a well-formed chain in which \<open>b\<close> is the first free block with at
  least \<open>need\<close> paragraphs, \<open>mcb_allocate\<close> returns (it does not hang) the data segment of \<open>b\<close>, the
  resulting chain is the old one with \<open>b\<close> given to the program (whole when at most one paragraph would
  remain, otherwise split into \<open>need\<close> paragraphs and a free rest), every other block keeps its place,
  owner and size, and no byte of RAM outside the two headers changes.\<close>

theorem mcb_allocate_correct:
  assumes "emu88_engine E" and "mcb_chain E m (xs @ b # ys)"
    and "\<And>x. x \<in> set xs \<Longrightarrow> \<not> fits (unat need) x" and "fits (unat need) b"
  shows "\<exists>lg m'. mcb_allocate E need (True, m) = Some ((of_nat (0x2001 + span xs), lg), (True, m'))
    \<and> mcb_chain E m' (xs @ carve PSP_SEG (unat need) b @ ys)
    \<and> only_headers E m m' {of_nat (0x2000 + span xs), of_nat (0x2001 + span xs + unat need)}"
  using emu88_engine.mcb_allocate_first_fit [OF assms] by metis

theorem mcb_allocate_correct_witness:
  "\<exists>lg m'. mcb_allocate flat 16 (True, mcb_init flat (\<lambda>_. 0)) = Some ((0x2001, lg), (True, m'))
    \<and> mcb_chain flat m' [\<lparr>mcb_owner = PSP_SEG, mcb_size = 16\<rparr>, \<lparr>mcb_owner = 0, mcb_size = 0x7FEE\<rparr>]"
proof -
  have "low_ram flat (\<lambda>_. 0)" by (simp add: low_ram_def flat_def)
  then have "mcb_chain flat (mcb_init flat (\<lambda>_. 0)) ([] @ \<lparr>mcb_owner = 0, mcb_size = 0x7FFF\<rparr> # [])"
    using flat_ram.mcb_init_chain by simp
  then show ?thesis
    using mcb_allocate_correct [OF flat_ram.emu88_engine_axioms, where xs = "[]" and ys = "[]"
        and need = 16 and b = "\<lparr>mcb_owner = 0, mcb_size = 0x7FFF\<rparr>"]
    by (fastforce simp: fits_def carve_def)
qed

text \<open>AH=48h out of memory. When no free block has \<open>need\<close> paragraphs, \<open>mcb_allocate\<close> returns 0,
  reports the largest free block of the whole chain, and leaves memory as it was.\<close>

theorem mcb_allocate_out_of_memory:
  assumes "emu88_engine E" and "mcb_chain E m bs"
    and "\<And>x. x \<in> set bs \<Longrightarrow> \<not> fits (unat need) x"
  shows "mcb_allocate E need (True, m) =
    Some ((0, of_nat (Max (insert 0 (mcb_size ` {b \<in> set bs. mcb_owner b = 0})))), (True, m))"
  using emu88_engine.mcb_allocate_full [OF assms] by (simp add: largest_free_Max)

theorem mcb_allocate_out_of_memory_witness:
  "mcb_allocate flat 0x8000 (True, mcb_init flat (\<lambda>_. 0)) =
    Some ((0, 0x7FFF), (True, mcb_init flat (\<lambda>_. 0)))"
proof -
  have "low_ram flat (\<lambda>_. 0)" by (simp add: low_ram_def flat_def)
  then have "mcb_chain flat (mcb_init flat (\<lambda>_. 0)) [\<lparr>mcb_owner = 0, mcb_size = 0x7FFF\<rparr>]"
    using flat_ram.mcb_init_chain by simp
  from mcb_allocate_out_of_memory [OF flat_ram.emu88_engine_axioms this, where need = "0x8000"]
  show ?thesis by (simp add: fits_def cong: conj_cong)
qed

text \<open>AH=49h. Freeing a block of the chain succeeds, marks it free, joins it with its successor
  exactly when the successor is free, keeps every other block, and changes only the block's own header.\<close>

theorem mcb_free_correct:
  assumes "emu88_engine E" and "mcb_chain E m (xs @ b # ys)"
  shows "\<exists>m'. mcb_free E (of_nat (0x2001 + span xs)) (True, m) = (True, m')
    \<and> mcb_chain E m' (xs @ free_merge b ys)
    \<and> only_headers E m m' {of_nat (0x2000 + span xs)}"
  using emu88_engine.mcb_free_chain [OF assms] by metis

theorem mcb_free_correct_witness:
  "\<exists>m'. mcb_free flat 0x2001 (True, mcb_init flat (\<lambda>_. 0)) = (True, m')
    \<and> mcb_chain flat m' [\<lparr>mcb_owner = 0, mcb_size = 0x7FFF\<rparr>]"
proof -
  have "low_ram flat (\<lambda>_. 0)" by (simp add: low_ram_def flat_def)
  then have "mcb_chain flat (mcb_init flat (\<lambda>_. 0)) ([] @ \<lparr>mcb_owner = 0, mcb_size = 0x7FFF\<rparr> # [])"
    using flat_ram.mcb_init_chain by simp
  from mcb_free_correct [OF flat_ram.emu88_engine_axioms this] show ?thesis by auto
qed

text \<open>AH=4Ah growing. When the block's successor is free and the two together hold the requested
  size, the request succeeds in place: the block takes what it needs from its successor, the rest of the
  chain is untouched, and only headers are written.\<close>

theorem mcb_resize_grow_correct:
  assumes "emu88_engine E" and "mcb_chain E m (xs @ b # c # zs)" and "mcb_owner c = 0"
    and "mcb_size b < unat n" and "unat n \<le> mcb_size b + 1 + mcb_size c"
  shows "\<exists>m'. mcb_resize E (of_nat (0x2001 + span xs)) n (True, m) =
      ((n, of_nat (mcb_size b + 1 + mcb_size c)), m')
    \<and> mcb_chain E m'
        (xs @ carve (mcb_owner b) (unat n) (b\<lparr>mcb_size := mcb_size b + 1 + mcb_size c\<rparr>) @ zs)
    \<and> only_headers E m m' {of_nat (0x2000 + span xs), of_nat (0x2001 + span xs + unat n)}"
  using emu88_engine.mcb_resize_grow [OF assms] by metis

theorem mcb_resize_grow_correct_witness:
  "\<exists>m m'. mcb_resize flat 0x2001 32 (True, m) = ((32, 0x7FFF), m')
    \<and> mcb_chain flat m' [\<lparr>mcb_owner = PSP_SEG, mcb_size = 32\<rparr>, \<lparr>mcb_owner = 0, mcb_size = 0x7FDE\<rparr>]"
proof -
  have "low_ram flat (\<lambda>_. 0)" by (simp add: low_ram_def flat_def)
  then have "mcb_chain flat (mcb_init flat (\<lambda>_. 0)) ([] @ \<lparr>mcb_owner = 0, mcb_size = 0x7FFF\<rparr> # [])"
    using flat_ram.mcb_init_chain by simp
  then obtain m where "mcb_chain flat m ([] @ \<lparr>mcb_owner = PSP_SEG, mcb_size = 16\<rparr> #
      \<lparr>mcb_owner = 0, mcb_size = 0x7FEE\<rparr> # [])"
    by (rule flat_ram.mcb_allocate_first_fit [where need = 16]) (auto simp: fits_def carve_def)
  from mcb_resize_grow_correct [OF flat_ram.emu88_engine_axioms this, of 32]
  show ?thesis by (force simp: carve_def)
qed

text \<open>C1: The chain survives every run. Starting from \<open>mcb_init\<close>, after any sequence of AH=48h, 49h
  and 4Ah calls on blocks of the chain, interleaved with guest stores outside the headers, memory still
  holds a well-formed chain from 2000h to A000h, and every later search for a free block terminates.\<close>

theorem mcb_run_well_formed:
  assumes "emu88_engine E" and "mcb_run E m"
  shows "(\<exists>bs. mcb_chain E m bs \<and> span bs = 0x8000) \<and> (\<exists>r. mcb_find_free E m need = Some r)"
proof -
  obtain bs where bs: "mcb_chain E m bs" using emu88_engine.mcb_run_chain [OF assms] by blast
  then have "span bs = 0x8000" using mcb_path_end [of E m "0x2000" bs] by (simp add: mcb_chain_def)
  with bs emu88_engine.mcb_find_free_chain [OF assms(1) bs] show ?thesis by blast
qed

theorem mcb_run_well_formed_witness:
  "(\<exists>bs. mcb_chain flat (mcb_init flat (\<lambda>_. 0)) bs \<and> span bs = 0x8000) \<and>
   (\<exists>r. mcb_find_free flat (mcb_init flat (\<lambda>_. 0)) 5 = Some r)"
  by (rule mcb_run_well_formed [OF flat_ram.emu88_engine_axioms], rule mcb_run.boot)
    (simp add: low_ram_def flat_def)

text \<open>The program's own block is one paragraph short. \<open>mcb_init\<close> gives the block at PSP_SEG the
  size 1EFFh, so the chain continues at 1FFFh and not at the arena's first header 2000h. When the two
  bytes at 1FFF1h are zero, AH=49h on the PSP segment therefore reports success but copies the byte at
  1FFF0h over the 'M' of the program's header; if that byte is no header type, the header is destroyed
  and a further AH=49h on the same segment fails.\<close>

theorem mcb_init_psp_block_short:
  assumes "emu88_engine E" and "low_ram E m"
    and "mem_readw E (mcb_init E m) 0x1FFF1 = 0"
    and "mem_readb E (mcb_init E m) 0x1FFF0 \<noteq> mcb_M" and "mem_readb E (mcb_init E m) 0x1FFF0 \<noteq> mcb_Z"
  shows "\<exists>m'. mcb_free E PSP_SEG (True, mcb_init E m) = (True, m')
    \<and> mem_readb E m' (seg_lin (PSP_SEG - 1)) = mem_readb E (mcb_init E m) 0x1FFF0
    \<and> mcb_free E PSP_SEG (True, m') = (False, m')"
proof -
  let ?m = "mcb_init E m" and ?p = "PSP_SEG - 1"
  note init = emu88_engine.mcb_init_chain [OF assms(1,2)]
  have lr: "low_ram E ?m" using init(1) by (simp add: mcb_chain_def)
  have p: "unat ?p < 0xA000" "unat (0x1FFF :: u16) < 0xA000" by (simp_all add: PSP_SEG_def)
  have nm: "?p + 1 + 0x1EFF = 0x1FFF" "seg_lin 0x1FFF = 0x1FFF0" "(0x1FFF :: u16) \<noteq> ?p"
      "seg_lin (PSP_SEG + 0x1EFF) = 0x1FFF0"
    by (simp_all add: PSP_SEG_def seg_lin_def)
  define m1 where "m1 = mem_writew E (seg_lin ?p + 1) 0 ?m"
  define m2 where "m2 = mem_writew E (seg_lin ?p + 3) (0x1EFF + 1 + mem_readw E m1 (0x1FFF0 + 3)) m1"
  define m' where "m' = mem_writeb E (seg_lin ?p) (mem_readb E ?m 0x1FFF0) m2"
  note W = emu88_engine.hdr_write_owner [OF assms(1)] emu88_engine.hdr_write_size [OF assms(1)]
    emu88_engine.hdr_write_type [OF assms(1)]
  have ram: "low_ram E m1" "low_ram E m2"
    using lr p by (simp_all add: m1_def m2_def emu88_engine.low_ram_write [OF assms(1)])
  have h1: "mcb_hdr E m1 ?p = (mcb_M, 0, 0x1EFF)" "mcb_hdr E m1 0x1FFF = mcb_hdr E ?m 0x1FFF"
    using W(1) [OF lr p(1)] p nm(3) init(2) by (simp_all add: m1_def)
  have "mcb_free E PSP_SEG (True, ?m) = (True, m')"
    using init(2) h1 assms(3) nm
    by (simp add: mcb_free_def Let_def mcb_hdr_def m'_def m2_def m1_def)
  moreover have "mem_readb E m' (seg_lin ?p) = mem_readb E ?m 0x1FFF0"
    using W(3) [OF ram(2) p(1) p(1), of "mem_readb E ?m 0x1FFF0"] by (simp add: m'_def mcb_hdr_def)
  ultimately show ?thesis using assms(4,5) by (simp add: mcb_free_def Let_def)
qed

theorem mcb_init_psp_block_short_witness:
  "\<exists>m'. mcb_free flat PSP_SEG (True, mcb_init flat (\<lambda>_. 0)) = (True, m')
    \<and> mem_readb flat m' (seg_lin (PSP_SEG - 1)) = mem_readb flat (mcb_init flat (\<lambda>_. 0)) 0x1FFF0
    \<and> mcb_free flat PSP_SEG (True, m') = (False, m')"
  by (rule mcb_init_psp_block_short [OF flat_ram.emu88_engine_axioms])
    (simp_all add: low_ram_def flat_def mcb_init_def Let_def mem_readb_def mem_readw_def
      mem_writeb_def mem_writew_def seg_lin_def MCB_ARENA_START_def PSP_SEG_def mk16_def)

end
