(* ===== verification/PmArena.thy ===== *)
theory PmArena
  imports Machine
begin

text \<open>
  The extended-memory arena of \<open>bridge.cc\<close> for DPMI and XMS clients: a list of page-aligned
  busy blocks above 1.125 MB, first-fit allocation with zero fill, release, and in-place
  resize. The invariant \<open>pm_inv\<close> says that the blocks are aligned, inside the arena and
  pairwise disjoint. \<open>std::sort\<close> is \<open>sort_key\<close>: under the invariant the bases are
  distinct, so the sorted vector is unique.
\<close>

section \<open>Operations\<close>

record pm_block =
  pm_base :: u32
  pm_size :: u32

record pm_arena =
  s_pm_busy :: "pm_block list"
  s_pm_initialised :: bool
  s_pm_end :: u32

text \<open>The machine with the static variables of the two arenas: whether \<open>mcb_init\<close> has run, and this one.\<close>

record 'm arenas = "'m machine" +
  s_mcb_initialised :: bool
  s_pm :: pm_arena

definition PM_ARENA_START :: u32 where "PM_ARENA_START = 0x120000"
definition PM_PAGE :: u32 where "PM_PAGE = 4096"

definition pm_init :: "'m emu88 \<Rightarrow> 'm \<Rightarrow> pm_arena \<Rightarrow> pm_arena" where
  "pm_init E m A = (if s_pm_initialised A then A
     else let
       total_pages = MEM_TotalPages E m;
       limit = (ucast total_pages :: u64) * ucast PM_PAGE
     in A\<lparr>s_pm_end := (if limit > 0xFFFFFFFF then 0xFFFFFFFF else ucast limit),
          s_pm_initialised := True\<rparr>)"

definition pm_round_up :: "u32 \<Rightarrow> u32" where
  "pm_round_up bytes = (bytes + PM_PAGE - 1) AND NOT (PM_PAGE - 1)"

text \<open>The loop over the sorted blocks: \<open>found\<close> and the final \<open>cursor\<close>.\<close>

fun pm_scan :: "u32 \<Rightarrow> u32 \<Rightarrow> pm_block list \<Rightarrow> u32 \<times> u32" where
  "pm_scan rounded cursor [] = (0, cursor)"
| "pm_scan rounded cursor (b # bs) =
     (if pm_base b \<ge> cursor \<and> pm_base b - cursor \<ge> rounded then (cursor, cursor)
      else pm_scan rounded (pm_base b + pm_size b) bs)"

text \<open>The two zero-fill loops, by double words and then by the bytes that remain.\<close>

definition pm_zero_fill :: "'m emu88 \<Rightarrow> u32 \<Rightarrow> u32 \<Rightarrow> 'm \<Rightarrow> 'm" where
  "pm_zero_fill E found rounded m = (let
     m = fold (\<lambda>k. mem_writed E (found + of_nat (4 * k)) 0) [0 ..< unat rounded div 4] m
   in fold (\<lambda>i. mem_writeb E (found + of_nat i) 0)
        [unat (rounded AND NOT 3) ..< unat rounded] m)"

definition pm_alloc :: "'m emu88 \<Rightarrow> u32 \<Rightarrow> pm_arena \<times> 'm \<Rightarrow> u32 \<times> pm_arena \<times> 'm" where
  "pm_alloc E bytes st = (case st of (A, m) \<Rightarrow> let
     A = pm_init E m A
   in if bytes = 0 \<or> s_pm_end A \<le> PM_ARENA_START then (0, A, m)
   else let
     rounded = pm_round_up bytes
   in if rounded < bytes then (0, A, m)
   else let
     A = A\<lparr>s_pm_busy := sort_key pm_base (s_pm_busy A)\<rparr>;
     (found, cursor) = pm_scan rounded PM_ARENA_START (s_pm_busy A);
     found = (if found = 0 \<and> s_pm_end A > cursor \<and> s_pm_end A - cursor \<ge> rounded
              then cursor else found)
   in if found = 0 then (0, A, m)
   else (found, A\<lparr>s_pm_busy := s_pm_busy A @ [\<lparr>pm_base = found, pm_size = rounded\<rparr>]\<rparr>,
         pm_zero_fill E found rounded m))"

fun pm_erase :: "u32 \<Rightarrow> pm_block list \<Rightarrow> pm_block list option" where
  "pm_erase base [] = None"
| "pm_erase base (b # bs) = (if pm_base b = base then Some bs
     else map_option ((#) b) (pm_erase base bs))"

definition pm_free :: "u32 \<Rightarrow> pm_arena \<Rightarrow> bool \<times> pm_arena" where
  "pm_free base A = (case pm_erase base (s_pm_busy A) of
     Some bs \<Rightarrow> (True, A\<lparr>s_pm_busy := bs\<rparr>)
   | None \<Rightarrow> (False, A))"

fun pm_index :: "u32 \<Rightarrow> pm_block list \<Rightarrow> nat option" where
  "pm_index base [] = None"
| "pm_index base (b # bs) = (if pm_base b = base then Some 0 else map_option Suc (pm_index base bs))"

definition pm_collides :: "u32 \<Rightarrow> u32 \<Rightarrow> pm_block \<Rightarrow> bool" where
  "pm_collides base new_rounded b \<longleftrightarrow>
     pm_base b < base + new_rounded \<and> pm_base b + pm_size b > base"

definition pm_resize :: "'m emu88 \<Rightarrow> 'm \<Rightarrow> u32 \<Rightarrow> u32 \<Rightarrow> pm_arena \<Rightarrow> bool \<times> pm_arena" where
  "pm_resize E m base new_bytes A = (let
     A = pm_init E m A
   in if new_bytes = 0 then (False, A)
   else let
     new_rounded = pm_round_up new_bytes
   in if new_rounded < new_bytes then (False, A)
   else case pm_index base (s_pm_busy A) of
     None \<Rightarrow> (False, A)
   | Some i \<Rightarrow> let
       me = s_pm_busy A ! i;
       grown = A\<lparr>s_pm_busy := (s_pm_busy A)[i := me\<lparr>pm_size := new_rounded\<rparr>]\<rparr>
     in if new_rounded \<le> pm_size me then (True, grown)
     else if base + new_rounded > s_pm_end A then (False, A)
     else if \<exists>j < length (s_pm_busy A). j \<noteq> i \<and> pm_collides base new_rounded (s_pm_busy A ! j)
     then (False, A)
     else (True, grown))"

section \<open>The arena invariant\<close>

definition pm_apart :: "pm_block \<Rightarrow> pm_block \<Rightarrow> bool" where
  "pm_apart a b \<longleftrightarrow> unat (pm_base a) + unat (pm_size a) \<le> unat (pm_base b)
     \<or> unat (pm_base b) + unat (pm_size b) \<le> unat (pm_base a)"

definition pm_block_ok :: "u32 \<Rightarrow> pm_block \<Rightarrow> bool" where
  "pm_block_ok e b \<longleftrightarrow> PM_ARENA_START \<le> pm_base b \<and> 0 < pm_size b
     \<and> unat (pm_base b) + unat (pm_size b) \<le> unat e
     \<and> 4096 dvd unat (pm_base b) \<and> 4096 dvd unat (pm_size b)"

definition pm_inv :: "pm_arena \<Rightarrow> bool" where
  "pm_inv A \<longleftrightarrow> s_pm_initialised A \<and> distinct (map pm_base (s_pm_busy A))
     \<and> (\<forall>b \<in> set (s_pm_busy A). pm_block_ok (s_pm_end A) b)
     \<and> (\<forall>a \<in> set (s_pm_busy A). \<forall>b \<in> set (s_pm_busy A). a \<noteq> b \<longrightarrow> pm_apart a b)"

definition pm_clear :: "nat \<Rightarrow> nat \<Rightarrow> pm_block list \<Rightarrow> bool" where
  "pm_clear n c bs \<longleftrightarrow>
     (\<forall>b \<in> set bs. c + n \<le> unat (pm_base b) \<or> unat (pm_base b) + unat (pm_size b) \<le> c)"

text \<open>An address where a block of \<open>n\<close> bytes can be placed.\<close>

definition pm_fits_at :: "pm_arena \<Rightarrow> nat \<Rightarrow> nat \<Rightarrow> bool" where
  "pm_fits_at A n c \<longleftrightarrow> unat PM_ARENA_START \<le> c \<and> c + n \<le> unat (s_pm_end A)
     \<and> pm_clear n c (s_pm_busy A)"

text \<open>The sorted busy list as a chain of gaps: every block starts at or after the end of the one
  before it, and no end wraps around.\<close>

fun pm_chained :: "nat \<Rightarrow> pm_block list \<Rightarrow> bool" where
  "pm_chained c [] \<longleftrightarrow> True"
| "pm_chained c (b # bs) \<longleftrightarrow> c \<le> unat (pm_base b) \<and> unat (pm_base b) + unat (pm_size b) < 2 ^ 32
     \<and> pm_chained (unat (pm_base b) + unat (pm_size b)) bs"

abbreviation pm_sorted :: "pm_arena \<Rightarrow> pm_arena" where
  "pm_sorted A \<equiv> A\<lparr>s_pm_busy := sort_key pm_base (s_pm_busy A)\<rparr>"

section \<open>Rounding\<close>

lemma and_not_mask_nat:
  fixes x :: u32
  assumes "n < 32"
  shows "unat (x AND NOT (mask n)) = unat x div 2 ^ n * 2 ^ n"
proof -
  have "x AND NOT (mask n) = push_bit n (drop_bit n x)"
    by (rule bit_word_eqI) (auto simp: bit_simps)
  moreover have "unat x div 2 ^ n * 2 ^ n < 2 ^ 32"
    using le_less_trans [OF div_times_less_eq_dividend [of "unat x" "2 ^ n"] unat_u32_less [of x]]
    by simp
  moreover have "unat (push_bit n (drop_bit n x)) = take_bit 32 (push_bit n (drop_bit n (unat x)))"
    using unat_u32_less [of x]
    by (simp add: unsigned_push_bit_eq unsigned_drop_bit_eq take_bit_nat_eq_self [of "unat x"])
  then have "unat (push_bit n (drop_bit n x)) = take_bit 32 (unat x div 2 ^ n * 2 ^ n)"
    by (simp only: push_bit_eq_mult drop_bit_eq_div)
  ultimately show ?thesis by (simp add: take_bit_nat_eq_self)
qed

lemma unat_pm_round_up:
  "unat (pm_round_up x) = (unat x + 4095) mod 2 ^ 32 div 4096 * 4096"
proof -
  have "pm_round_up x = (x + 4095) AND NOT (mask 12)"
    by (simp add: pm_round_up_def PM_PAGE_def mask_eq_exp_minus_1 add.commute)
  then show ?thesis
    by (simp add: and_not_mask_nat unat_word_ariths)
qed

lemma pm_round_up_props:
  assumes "0 < x" and "\<not> pm_round_up x < x"
  shows "4096 dvd unat (pm_round_up x)" and "unat x \<le> unat (pm_round_up x)"
    and "unat (pm_round_up x) < unat x + 4096" and "0 < unat (pm_round_up x)"
proof -
  have x: "0 < unat x" "unat x < 2 ^ 32" using assms(1) unat_u32_less [of x]
    by (simp_all add: word_less_nat_alt)
  have le: "unat x \<le> unat (pm_round_up x)" using assms(2) by (simp add: word_less_nat_alt)
  have "unat x + 4095 < 2 ^ 32"
  proof (rule ccontr)
    assume "\<not> ?thesis"
    then have "(unat x + 4095) mod 2 ^ 32 = unat x + 4095 - 2 ^ 32"
      using x(2) by (simp add: mod_if)
    then have "unat (pm_round_up x) \<le> unat x + 4095 - 2 ^ 32"
      unfolding unat_pm_round_up by simp
    with le x(1) show False by simp
  qed
  then have eq: "unat (pm_round_up x) = (unat x + 4095) div 4096 * 4096"
    by (simp add: unat_pm_round_up)
  show "4096 dvd unat (pm_round_up x)" by (simp add: eq)
  show "unat x \<le> unat (pm_round_up x)" by (rule le)
  show "unat (pm_round_up x) < unat x + 4096" unfolding eq by linarith
  show "0 < unat (pm_round_up x)" using le x by linarith
qed

section \<open>First fit\<close>

lemma pm_chained_ge: "\<lbrakk>pm_chained c bs; b \<in> set bs\<rbrakk> \<Longrightarrow> c \<le> unat (pm_base b)"
  by (induction bs arbitrary: c) fastforce+

lemma pm_scan_step:
  assumes "pm_chained (unat c) (b # bs)"
  shows "unat (pm_base b + pm_size b) = unat (pm_base b) + unat (pm_size b)"
    and "pm_chained (unat (pm_base b + pm_size b)) bs"
    and "pm_base b \<ge> c \<and> pm_base b - c \<ge> r \<longleftrightarrow> unat c + unat r \<le> unat (pm_base b)"
proof -
  show e: "unat (pm_base b + pm_size b) = unat (pm_base b) + unat (pm_size b)"
    using assms by (simp add: unat_word_ariths)
  show "pm_chained (unat (pm_base b + pm_size b)) bs" using assms by (simp add: e)
  have "c \<le> pm_base b" using assms by (simp add: word_le_nat_alt)
  then show "pm_base b \<ge> c \<and> pm_base b - c \<ge> r \<longleftrightarrow> unat c + unat r \<le> unat (pm_base b)"
    by (auto simp: word_le_nat_alt unat_sub)
qed

lemma pm_scan_found:
  assumes "pm_chained (unat c) bs" and "pm_scan r c bs = (f, c')" and "f \<noteq> 0"
  shows "unat c \<le> unat f \<and> pm_clear (unat r) (unat f) bs
    \<and> (\<exists>b \<in> set bs. unat f + unat r \<le> unat (pm_base b))
    \<and> (\<forall>d \<ge> unat c. pm_clear (unat r) d bs \<longrightarrow> unat f \<le> d)"
  using assms
proof (induction bs arbitrary: c)
  case (Cons b bs)
  note step = pm_scan_step(1,2) [OF Cons.prems(1)] pm_scan_step(3) [OF Cons.prems(1), of r]
  show ?case
  proof (cases "unat c + unat r \<le> unat (pm_base b)")
    case True
    then have f: "f = c" using Cons.prems(2) step(3) by (simp split: if_splits)
    have "unat c + unat r \<le> unat (pm_base x)" if "x \<in> set bs" for x
      using pm_chained_ge [OF step(2) that] step(1) True by linarith
    with True show ?thesis by (auto simp: f pm_clear_def)
  next
    case False
    then have "pm_scan r (pm_base b + pm_size b) bs = (f, c')"
      using Cons.prems(2) step(3) by (simp split: if_splits)
    note IH = Cons.IH [OF step(2) this Cons.prems(3), unfolded step(1)]
    have "unat (pm_base b) + unat (pm_size b) \<le> d"
      if "unat c \<le> d" "pm_clear (unat r) d (b # bs)" for d
      using that False by (auto simp: pm_clear_def)
    with IH Cons.prems(1) show ?thesis by (auto simp: pm_clear_def)
  qed
qed simp

lemma pm_scan_end:
  assumes "pm_chained (unat c) bs" and "pm_scan r c bs = (0, c')" and "0 < c"
  shows "unat c \<le> unat c' \<and> (\<forall>b \<in> set bs. unat (pm_base b) + unat (pm_size b) \<le> unat c')
    \<and> (\<forall>d \<ge> unat c. pm_clear (unat r) d bs \<longrightarrow> unat c' \<le> d)"
  using assms
proof (induction bs arbitrary: c)
  case (Cons b bs)
  note step = pm_scan_step(1,2) [OF Cons.prems(1)] pm_scan_step(3) [OF Cons.prems(1), of r]
  have small: "\<not> unat c + unat r \<le> unat (pm_base b)"
    and scan: "pm_scan r (pm_base b + pm_size b) bs = (0, c')"
    using Cons.prems(2,3) step(3) by (auto split: if_splits)
  have pos: "0 < pm_base b + pm_size b"
    using step(1) Cons.prems(1,3) by (simp add: word_less_nat_alt)
  note IH = Cons.IH [OF step(2) scan pos, unfolded step(1)]
  have "unat (pm_base b) + unat (pm_size b) \<le> d"
    if "unat c \<le> d" "pm_clear (unat r) d (b # bs)" for d
    using that small by (auto simp: pm_clear_def)
  with IH Cons.prems(1) show ?case by (auto simp: pm_clear_def)
qed simp

lemma pm_chained_sorted:
  assumes "sorted (map pm_base bs)" and "distinct (map pm_base bs)"
    and "\<And>b. b \<in> set bs \<Longrightarrow> pm_block_ok e b"
    and "\<And>a b. \<lbrakk>a \<in> set bs; b \<in> set bs; a \<noteq> b\<rbrakk> \<Longrightarrow> pm_apart a b"
    and "\<And>b. b \<in> set bs \<Longrightarrow> c \<le> unat (pm_base b)"
  shows "pm_chained c bs"
  using assms
proof (induction bs arbitrary: c)
  case (Cons b bs)
  have ok: "pm_block_ok e b" using Cons.prems(3) by simp
  have "unat (pm_base b) + unat (pm_size b) \<le> unat (pm_base x)" if "x \<in> set bs" for x
  proof -
    have "pm_base b \<le> pm_base x" "pm_base b \<noteq> pm_base x" using Cons.prems(1,2) that by auto
    moreover have "pm_apart b x" "0 < pm_size x" using Cons.prems(3,4) that calculation(2)
      by (auto simp: pm_block_ok_def)
    ultimately show ?thesis by (auto simp: pm_apart_def word_le_nat_alt word_less_nat_alt)
  qed
  then have "pm_chained (unat (pm_base b) + unat (pm_size b)) bs" using Cons by simp
  moreover have "unat (pm_base b) + unat (pm_size b) < 2 ^ 32"
    using ok unat_u32_less [of e] by (simp add: pm_block_ok_def)
  ultimately show ?case using Cons.prems(5) by simp
qed simp

lemma pm_scan_aligned:
  assumes "pm_chained (unat c) bs" and "4096 dvd unat c"
    and "\<And>b. b \<in> set bs \<Longrightarrow> 4096 dvd unat (pm_base b) \<and> 4096 dvd unat (pm_size b)"
    and "pm_scan r c bs = (f, c')"
  shows "4096 dvd unat f \<and> 4096 dvd unat c'"
  using assms
proof (induction bs arbitrary: c)
  case (Cons b bs)
  note step = pm_scan_step(1,2) [OF Cons.prems(1)]
  have "4096 dvd unat (pm_base b + pm_size b)" using Cons.prems(3) step(1) by simp
  with Cons.IH [OF step(2)] Cons.prems show ?case by (auto split: if_splits)
qed simp

lemma pm_inv_sorted:
  assumes "pm_inv A"
  shows "pm_inv (A\<lparr>s_pm_busy := sort_key pm_base (s_pm_busy A)\<rparr>)"
    and "pm_chained (unat PM_ARENA_START) (sort_key pm_base (s_pm_busy A))"
proof -
  show inv: "pm_inv (A\<lparr>s_pm_busy := sort_key pm_base (s_pm_busy A)\<rparr>)"
    using assms by (auto simp: pm_inv_def distinct_map)
  show "pm_chained (unat PM_ARENA_START) (sort_key pm_base (s_pm_busy A))"
    by (rule pm_chained_sorted [of _ "s_pm_end A"])
      (use inv in \<open>auto simp: pm_inv_def pm_block_ok_def word_le_nat_alt\<close>)
qed

lemma pm_inv_add:
  assumes inv: "pm_inv A" and fit: "pm_fits_at A (unat r) (unat f)"
    and al: "4096 dvd unat f" "4096 dvd unat r" and r: "0 < r"
  shows "pm_inv (A\<lparr>s_pm_busy := s_pm_busy A @ [\<lparr>pm_base = f, pm_size = r\<rparr>]\<rparr>)"
proof -
  have apart: "pm_apart b \<lparr>pm_base = f, pm_size = r\<rparr>" "pm_base b \<noteq> f" if "b \<in> set (s_pm_busy A)" for b
    using that fit inv r
    by (fastforce simp: pm_fits_at_def pm_clear_def pm_apart_def pm_inv_def pm_block_ok_def
        word_less_nat_alt)+
  moreover have "pm_apart \<lparr>pm_base = f, pm_size = r\<rparr> b" if "b \<in> set (s_pm_busy A)" for b
    using apart(1) [OF that] by (auto simp: pm_apart_def)
  moreover have "pm_block_ok (s_pm_end A) \<lparr>pm_base = f, pm_size = r\<rparr>"
    using fit al r by (simp add: pm_block_ok_def pm_fits_at_def word_le_nat_alt)
  ultimately show ?thesis using inv by (auto simp: pm_inv_def)
qed

text \<open>The address the scan and the tail check settle on (0 for none).\<close>

lemma pm_choose:
  fixes r :: u32
  assumes inv: "pm_inv A" and ch: "pm_chained (unat PM_ARENA_START) (s_pm_busy A)"
    and scan: "pm_scan r PM_ARENA_START (s_pm_busy A) = (f0, c)" and r: "0 < r"
    and f: "f = (if f0 = 0 \<and> s_pm_end A > c \<and> s_pm_end A - c \<ge> r then c else f0)"
  shows "f \<noteq> 0 \<Longrightarrow> pm_fits_at A (unat r) (unat f)" and "4096 dvd unat f"
    and "pm_fits_at A (unat r) d \<Longrightarrow> f \<noteq> 0 \<and> unat f \<le> d"
proof -
  have ok: "unat (pm_base b) + unat (pm_size b) \<le> unat (s_pm_end A)" if "b \<in> set (s_pm_busy A)" for b
    using inv that by (auto simp: pm_inv_def pm_block_ok_def)
  have start: "0 < PM_ARENA_START" "4096 dvd unat PM_ARENA_START" by (simp_all add: PM_ARENA_START_def)
  have "4096 dvd unat f0 \<and> 4096 dvd unat c"
    by (rule pm_scan_aligned [OF ch start(2) _ scan]) (use inv in \<open>auto simp: pm_inv_def pm_block_ok_def\<close>)
  then show "4096 dvd unat f" by (simp add: f)
  have tail: "s_pm_end A > c \<and> s_pm_end A - c \<ge> r \<longleftrightarrow> unat c + unat r \<le> unat (s_pm_end A)"
    using r by (auto simp: word_le_nat_alt word_less_nat_alt unat_sub_if')
  have "(f \<noteq> 0 \<longrightarrow> pm_fits_at A (unat r) (unat f)) \<and>
      (pm_fits_at A (unat r) d \<longrightarrow> f \<noteq> 0 \<and> unat f \<le> d)"
  proof (cases "f0 = 0")
    case True
    note fin = pm_scan_end [OF ch scan [unfolded True] start(1)]
    have "c \<noteq> 0" using fin start(1) by (auto simp: word_less_nat_alt)
    with fin tail True show ?thesis
      by (fastforce simp: f pm_fits_at_def pm_clear_def)
  next
    case False
    note found = pm_scan_found [OF ch scan False]
    then obtain b where "b \<in> set (s_pm_busy A)" "unat f0 + unat r \<le> unat (pm_base b)" by blast
    with ok [of b] have "unat f0 + unat r \<le> unat (s_pm_end A)" by linarith
    with found False show ?thesis by (auto simp: f pm_fits_at_def)
  qed
  then show "f \<noteq> 0 \<Longrightarrow> pm_fits_at A (unat r) (unat f)"
    and "pm_fits_at A (unat r) d \<Longrightarrow> f \<noteq> 0 \<and> unat f \<le> d" by auto
qed

lemma pm_fits_sorted: "pm_fits_at (pm_sorted A) n c = pm_fits_at A n c"
  by (simp add: pm_fits_at_def pm_clear_def)

lemma pm_alloc_cases:
  assumes inv: "pm_inv A" and b: "bytes \<noteq> 0" "\<not> pm_round_up bytes < bytes"
  defines "r \<equiv> pm_round_up bytes"
  obtains
    (none) A' where "pm_alloc E bytes (A, m) = (0, A', m)" "pm_inv A'" "\<And>d. \<not> pm_fits_at A (unat r) d"
      "set (s_pm_busy A') = set (s_pm_busy A)"
  | (some) f where "pm_alloc E bytes (A, m) =
        (f, A\<lparr>s_pm_busy := sort_key pm_base (s_pm_busy A) @ [\<lparr>pm_base = f, pm_size = r\<rparr>]\<rparr>,
         pm_zero_fill E f r m)"
      "pm_inv (A\<lparr>s_pm_busy := sort_key pm_base (s_pm_busy A) @ [\<lparr>pm_base = f, pm_size = r\<rparr>]\<rparr>)"
      "f \<noteq> 0" "pm_fits_at A (unat r) (unat f)" "\<And>d. pm_fits_at A (unat r) d \<Longrightarrow> unat f \<le> d"
proof -
  have init: "pm_init E m A = A" using inv by (simp add: pm_init_def pm_inv_def)
  have r: "0 < r" "4096 dvd unat r"
    using pm_round_up_props [of bytes] b by (simp_all add: r_def word_less_nat_alt unat_gt_0)
  note sorted = pm_inv_sorted [OF inv]
  obtain f0 c where scan: "pm_scan r PM_ARENA_START (s_pm_busy (pm_sorted A)) = (f0, c)" by fastforce
  define f where "f = (if f0 = 0 \<and> s_pm_end (pm_sorted A) > c \<and> s_pm_end (pm_sorted A) - c \<ge> r then c else f0)"
  have ch: "pm_chained (unat PM_ARENA_START) (s_pm_busy (pm_sorted A))" using sorted(2) by simp
  note choose = pm_choose [OF sorted(1) ch scan r(1) f_def, unfolded pm_fits_sorted]
  show ?thesis
  proof (cases "s_pm_end A \<le> PM_ARENA_START \<or> f = 0")
    case True
    then have "\<not> pm_fits_at A (unat r) d" for d
    proof
      assume "s_pm_end A \<le> PM_ARENA_START"
      then show ?thesis using r(1) by (auto simp: pm_fits_at_def word_le_nat_alt word_less_nat_alt)
    next
      assume "f = 0"
      then show ?thesis using choose(3) [of d] by blast
    qed
    moreover have "\<exists>A' \<in> {A, pm_sorted A}. pm_alloc E bytes (A, m) = (0, A', m)"
      using True b scan unfolding pm_alloc_def
      by (auto simp: init Let_def r_def [symmetric] f_def split: if_splits)
    ultimately show ?thesis using none inv sorted(1) by fastforce
  next
    case False
    then have "pm_alloc E bytes (A, m) =
        (f, A\<lparr>s_pm_busy := sort_key pm_base (s_pm_busy A) @ [\<lparr>pm_base = f, pm_size = r\<rparr>]\<rparr>,
         pm_zero_fill E f r m)"
      using b scan unfolding pm_alloc_def
      by (auto simp: init Let_def r_def [symmetric] f_def split: if_splits)
    moreover have "pm_inv (A\<lparr>s_pm_busy := sort_key pm_base (s_pm_busy A) @ [\<lparr>pm_base = f, pm_size = r\<rparr>]\<rparr>)"
      using pm_inv_add [OF sorted(1) _ choose(2) r(2,1)] choose(1) False
      by (simp add: pm_fits_sorted)
    ultimately show ?thesis using some choose False by blast
  qed
qed

section \<open>Zero fill\<close>

context emu88_engine
begin

lemma pm_zero_words:
  assumes "\<And>i. i < 4 * n \<Longrightarrow> is_ram E m (f + of_nat i)" and "unat f + 4 * n < 2 ^ 32"
  defines "m' \<equiv> \<lambda>n. fold (\<lambda>k. mem_writed E (f + of_nat (4 * k)) 0) [0 ..< n] m"
  shows "(\<forall>b. is_ram E (m' n) b = is_ram E m b) \<and>
    (\<forall>b. is_ram E m b \<longrightarrow> mem_readb E (m' n) b =
      (if unat f \<le> unat b \<and> unat b < unat f + 4 * n then 0 else mem_readb E m b))"
  using assms(1,2)
proof (induction n)
  case (Suc n)
  define a where "a = f + of_nat (4 * n)"
  have step: "m' (Suc n) = mem_writed E a 0 (m' n)" by (simp add: m'_def a_def)
  have IH: "is_ram E (m' n) b = is_ram E m b"
    "is_ram E m b \<Longrightarrow> mem_readb E (m' n) b =
      (if unat f \<le> unat b \<and> unat b < unat f + 4 * n then 0 else mem_readb E m b)" for b
    using Suc by simp_all
  have at: "unat (a + of_nat j) = unat f + 4 * n + j" "is_ram E m (a + of_nat j)" if "j < 4" for j
  proof -
    have eq: "a + of_nat j = of_nat (unat f + 4 * n + j)" by (simp add: a_def)
    show "unat (a + of_nat j) = unat f + 4 * n + j"
      unfolding eq by (rule unat_of_nat_u32) (use that Suc.prems(2) in simp)
    show "is_ram E m (a + of_nat j)"
      using Suc.prems(1) [of "4 * n + j"] that by (simp add: a_def add.assoc)
  qed
  have ram: "is_ram E m a" "is_ram E m (a + 1)" "is_ram E m (a + 2)" "is_ram E m (a + 3)"
    using at(2) [of 0] at(2) [of 1] at(2) [of 2] at(2) [of 3] by simp_all
  have u: "unat a = unat f + 4 * n" "unat (a + 1) = unat f + 4 * n + 1"
    "unat (a + 2) = unat f + 4 * n + 2" "unat (a + 3) = unat f + 4 * n + 3"
    using at(1) [of 0] at(1) [of 1] at(1) [of 2] at(1) [of 3] by simp_all
  have "mem_readb E (mem_writed E a 0 (m' n)) b =
      (if b = a \<or> b = a + 1 \<or> b = a + 2 \<or> b = a + 3 then 0 else mem_readb E (m' n) b)"
    if "is_ram E m b" for b
    using ram that IH(1) by (simp add: readb_writed lo8_def hi8_def lo16_def hi16_def)
  moreover have "b = a \<or> b = a + 1 \<or> b = a + 2 \<or> b = a + 3 \<longleftrightarrow>
      unat f + 4 * n \<le> unat b \<and> unat b < unat f + 4 * Suc n" for b
    unfolding word_unat_eq_iff u by auto
  ultimately show ?case using ram IH by (auto simp: step ram_writed)
qed (auto simp: m'_def)

lemma pm_zero_fill_bytes:
  assumes ram: "\<And>i. i < unat r \<Longrightarrow> is_ram E m (f + of_nat i)"
    and fit: "unat f + unat r < 2 ^ 32" and al: "4096 dvd unat r"
  shows "is_ram E (pm_zero_fill E f r m) b = is_ram E m b"
    and "is_ram E m b \<Longrightarrow> mem_readb E (pm_zero_fill E f r m) b =
      (if unat f \<le> unat b \<and> unat b < unat f + unat r then 0 else mem_readb E m b)"
proof -
  have four: "4 * (unat r div 4) = unat r" using al by (auto elim!: dvdE)
  have "unat (r AND NOT 3) = unat r"
    using and_not_mask_nat [of 2 r] four by (simp add: mask_eq_exp_minus_1 mult.commute)
  then have eq: "pm_zero_fill E f r m =
      fold (\<lambda>k. mem_writed E (f + of_nat (4 * k)) 0) [0 ..< unat r div 4] m"
    by (simp add: pm_zero_fill_def)
  show "is_ram E (pm_zero_fill E f r m) b = is_ram E m b"
    and "is_ram E m b \<Longrightarrow> mem_readb E (pm_zero_fill E f r m) b =
      (if unat f \<le> unat b \<and> unat b < unat f + unat r then 0 else mem_readb E m b)"
    using pm_zero_words [of "unat r div 4" m f] ram fit four by (simp_all add: eq)
qed

end

section \<open>Release and resize\<close>

lemma pm_erase_Some:
  "pm_erase base bs = Some bs' \<Longrightarrow>
    \<exists>xs b ys. bs = xs @ b # ys \<and> bs' = xs @ ys \<and> pm_base b = base \<and> base \<notin> pm_base ` set xs"
proof (induction bs arbitrary: bs')
  case (Cons c bs)
  show ?case
  proof (cases "pm_base c = base")
    case True
    then show ?thesis using Cons.prems by (intro exI [of _ "[]"]) auto
  next
    case False
    then obtain ds where "pm_erase base bs = Some ds" "bs' = c # ds" using Cons.prems by auto
    with Cons.IH obtain xs b ys where "bs = xs @ b # ys" "ds = xs @ ys" "pm_base b = base"
      "base \<notin> pm_base ` set xs" by blast
    with False \<open>bs' = c # ds\<close> show ?thesis by (intro exI [of _ "c # xs"]) auto
  qed
qed simp

lemma pm_erase_None: "pm_erase base bs = None \<longleftrightarrow> base \<notin> pm_base ` set bs"
  by (induction bs) auto

lemma pm_index_Some:
  "pm_index base bs = Some i \<Longrightarrow> i < length bs \<and> pm_base (bs ! i) = base"
  by (induction bs arbitrary: i) (auto split: if_splits)

lemma pm_index_None: "pm_index base bs = None \<longleftrightarrow> base \<notin> pm_base ` set bs"
  by (induction bs) auto

lemma pm_inv_subset:
  assumes "pm_inv A" and "set bs \<subseteq> set (s_pm_busy A)" and "distinct (map pm_base bs)"
  shows "pm_inv (A\<lparr>s_pm_busy := bs\<rparr>)"
  using assms by (auto simp: pm_inv_def)

lemma pm_free_spec:
  assumes inv: "pm_inv A"
  shows "fst (pm_free base A) \<longleftrightarrow> base \<in> pm_base ` set (s_pm_busy A)"
    and "pm_inv (snd (pm_free base A))"
    and "set (s_pm_busy (snd (pm_free base A))) = {b \<in> set (s_pm_busy A). pm_base b \<noteq> base}"
proof -
  have "(fst (pm_free base A) \<longleftrightarrow> base \<in> pm_base ` set (s_pm_busy A)) \<and> pm_inv (snd (pm_free base A))
     \<and> set (s_pm_busy (snd (pm_free base A))) = {b \<in> set (s_pm_busy A). pm_base b \<noteq> base}"
  proof (cases "pm_erase base (s_pm_busy A)")
    case None
    then have "base \<notin> pm_base ` set (s_pm_busy A)" by (simp add: pm_erase_None)
    then show ?thesis using inv None by (auto simp: pm_free_def)
  next
    case (Some bs)
    then obtain xs b ys where *: "s_pm_busy A = xs @ b # ys" "bs = xs @ ys" "pm_base b = base"
      using pm_erase_Some by blast
    have d: "distinct (map pm_base (xs @ b # ys))" using inv *(1) by (simp add: pm_inv_def)
    have "pm_inv (A\<lparr>s_pm_busy := bs\<rparr>)"
      by (rule pm_inv_subset [OF inv]) (use * d in auto)
    moreover have "set bs = {x \<in> set (s_pm_busy A). pm_base x \<noteq> base}"
      using d unfolding *(1,2) *(3) [symmetric] by (auto simp: image_iff)
    moreover have "base \<in> pm_base ` set (s_pm_busy A)" using * by auto
    ultimately show ?thesis using Some by (simp add: pm_free_def)
  qed
  then show "fst (pm_free base A) \<longleftrightarrow> base \<in> pm_base ` set (s_pm_busy A)"
    and "pm_inv (snd (pm_free base A))"
    and "set (s_pm_busy (snd (pm_free base A))) = {b \<in> set (s_pm_busy A). pm_base b \<noteq> base}" by auto
qed

text \<open>The collision test of \<open>pm_resize\<close> is disjointness as long as \<open>base + new_rounded\<close> does not
  wrap around.\<close>

lemma pm_collides_apart:
  assumes "pm_block_ok e b" and "unat base + unat r < 2 ^ 32"
  shows "pm_collides base r b \<longleftrightarrow> \<not> pm_apart \<lparr>pm_base = base, pm_size = r\<rparr> b"
proof -
  have "unat (pm_base b + pm_size b) = unat (pm_base b) + unat (pm_size b)"
    using assms(1) unat_u32_less [of e] by (simp add: pm_block_ok_def unat_word_ariths)
  moreover have "unat (base + r) = unat base + unat r"
    using assms(2) by (simp add: unat_word_ariths)
  ultimately show ?thesis by (auto simp: pm_collides_def pm_apart_def word_less_nat_alt)
qed

lemma pm_inv_update:
  assumes inv: "pm_inv A" and i: "i < length (s_pm_busy A)"
    and al: "4096 dvd unat r" "0 < r"
    and fit: "unat (pm_base (s_pm_busy A ! i)) + unat r \<le> unat (s_pm_end A)"
    and apart: "\<And>c. \<lbrakk>c \<in> set (s_pm_busy A); c \<noteq> s_pm_busy A ! i\<rbrakk> \<Longrightarrow>
      pm_apart \<lparr>pm_base = pm_base (s_pm_busy A ! i), pm_size = r\<rparr> c"
  shows "pm_inv (A\<lparr>s_pm_busy := (s_pm_busy A)[i := (s_pm_busy A ! i)\<lparr>pm_size := r\<rparr>]\<rparr>)"
proof -
  let ?b = "s_pm_busy A ! i"
  have mem: "?b \<in> set (s_pm_busy A)" using i by simp
  have d: "distinct (s_pm_busy A)" using inv by (simp add: pm_inv_def distinct_map)
  have set: "set ((s_pm_busy A)[i := ?b\<lparr>pm_size := r\<rparr>]) =
      insert (?b\<lparr>pm_size := r\<rparr>) (set (s_pm_busy A) - {?b})"
    using set_update_distinct [OF d i] by simp
  have "map pm_base ((s_pm_busy A)[i := ?b\<lparr>pm_size := r\<rparr>]) = map pm_base (s_pm_busy A)"
    using i by (simp add: list_eq_iff_nth_eq nth_list_update)
  then have "distinct (map pm_base ((s_pm_busy A)[i := ?b\<lparr>pm_size := r\<rparr>]))"
    using inv by (simp add: pm_inv_def)
  moreover have "pm_block_ok (s_pm_end A) (?b\<lparr>pm_size := r\<rparr>)"
    using inv mem al fit by (auto simp: pm_inv_def pm_block_ok_def)
  moreover have "pm_apart (?b\<lparr>pm_size := r\<rparr>) c \<and> pm_apart c (?b\<lparr>pm_size := r\<rparr>)"
    if "c \<in> set (s_pm_busy A) - {?b}" for c
    using apart [of c] that by (auto simp: pm_apart_def)
  ultimately show ?thesis using inv by (auto simp: pm_inv_def set)
qed

lemma pm_resize_spec:
  assumes inv: "pm_inv A" and b: "b \<in> set (s_pm_busy A)"
    and n: "n \<noteq> 0" "\<not> pm_round_up n < n"
    and nowrap: "unat (pm_base b) + unat (pm_round_up n) < 2 ^ 32"
  defines "r \<equiv> pm_round_up n"
  defines "room \<equiv> unat r \<le> unat (pm_size b) \<or>
    unat (pm_base b) + unat r \<le> unat (s_pm_end A) \<and>
    (\<forall>c \<in> set (s_pm_busy A). c \<noteq> b \<longrightarrow> pm_apart (b\<lparr>pm_size := r\<rparr>) c)"
  shows "\<not> room \<Longrightarrow> pm_resize E m (pm_base b) n A = (False, A)"
    and "room \<Longrightarrow> \<exists>A'. pm_resize E m (pm_base b) n A = (True, A') \<and> pm_inv A'
      \<and> set (s_pm_busy A') = insert (b\<lparr>pm_size := r\<rparr>) (set (s_pm_busy A) - {b})"
proof -
  have init: "pm_init E m A = A" using inv by (simp add: pm_init_def pm_inv_def)
  have d: "distinct (map pm_base (s_pm_busy A))" "distinct (s_pm_busy A)"
    using inv by (simp_all add: pm_inv_def distinct_map)
  have r: "4096 dvd unat r" "0 < r"
    using pm_round_up_props [of n] n by (simp_all add: r_def word_less_nat_alt unat_gt_0)
  obtain i where i: "pm_index (pm_base b) (s_pm_busy A) = Some i"
    using b pm_index_None [of "pm_base b" "s_pm_busy A"] by fastforce
  then have i': "i < length (s_pm_busy A)" "pm_base (s_pm_busy A ! i) = pm_base b"
    using pm_index_Some by blast+
  then have bi: "s_pm_busy A ! i = b" using d b by (auto simp: distinct_map dest: inj_onD)
  have upd: "b\<lparr>pm_size := r\<rparr> = \<lparr>pm_base = pm_base b, pm_size = r\<rparr>" by simp
  have coll: "(\<exists>j < length (s_pm_busy A). j \<noteq> i \<and> pm_collides (pm_base b) r (s_pm_busy A ! j)) \<longleftrightarrow>
      (\<exists>c \<in> set (s_pm_busy A). c \<noteq> b \<and> \<not> pm_apart (b\<lparr>pm_size := r\<rparr>) c)"
  proof -
    have "pm_collides (pm_base b) r c \<longleftrightarrow> \<not> pm_apart (b\<lparr>pm_size := r\<rparr>) c" if "c \<in> set (s_pm_busy A)" for c
      unfolding upd using inv that nowrap
      by (intro pm_collides_apart [of "s_pm_end A"]) (auto simp: pm_inv_def r_def)
    moreover have "j \<noteq> i \<longleftrightarrow> s_pm_busy A ! j \<noteq> b" if "j < length (s_pm_busy A)" for j
      using nth_eq_iff_index_eq [OF d(2) that i'(1)] bi by simp
    ultimately show ?thesis by (metis in_set_conv_nth)
  qed
  have le: "pm_base b + r > s_pm_end A \<longleftrightarrow> \<not> unat (pm_base b) + unat r \<le> unat (s_pm_end A)"
    using nowrap by (simp add: word_less_nat_alt unat_word_ariths r_def not_le)
  have res: "pm_resize E m (pm_base b) n A = (if room
      then (True, A\<lparr>s_pm_busy := (s_pm_busy A)[i := b\<lparr>pm_size := r\<rparr>]\<rparr>) else (False, A))"
    using n coll le unfolding pm_resize_def
    by (auto simp: init i bi Let_def r_def [symmetric] room_def word_le_nat_alt)
  show "pm_resize E m (pm_base b) n A = (False, A)" if "\<not> room" using that res by simp
  show "\<exists>A'. pm_resize E m (pm_base b) n A = (True, A') \<and> pm_inv A'
      \<and> set (s_pm_busy A') = insert (b\<lparr>pm_size := r\<rparr>) (set (s_pm_busy A) - {b})" if room
  proof -
    have ok: "unat (pm_base b) + unat (pm_size b) \<le> unat (s_pm_end A)"
      "\<And>c. \<lbrakk>c \<in> set (s_pm_busy A); c \<noteq> b\<rbrakk> \<Longrightarrow> pm_apart b c"
      using inv b by (auto simp: pm_inv_def pm_block_ok_def)
    have "pm_apart \<lparr>pm_base = pm_base b, pm_size = r\<rparr> c" if "c \<in> set (s_pm_busy A)" "c \<noteq> b" for c
      using \<open>room\<close> that ok(2) [OF that] by (auto simp: room_def pm_apart_def)
    moreover have "unat (pm_base b) + unat r \<le> unat (s_pm_end A)"
      using \<open>room\<close> ok(1) by (auto simp: room_def)
    ultimately have "pm_inv (A\<lparr>s_pm_busy := (s_pm_busy A)[i := b\<lparr>pm_size := r\<rparr>]\<rparr>)"
      using pm_inv_update [OF inv i'(1) r] by (simp add: bi)
    then show ?thesis using that res set_update_distinct [OF d(2) i'(1)] by (simp add: bi)
  qed
qed

section \<open>Properties\<close>

text \<open>C3: pm_alloc is sound, first fit and zero-filling. Whenever a request that rounds to \<open>n\<close> bytes
  fits anywhere in the arena, \<open>pm_alloc\<close> returns the lowest address where it fits; the block is
  page aligned, inside the arena and disjoint from every busy block (the invariant holds again), every
  byte of it reads 0, and every other byte of RAM keeps its value.\<close>

theorem pm_alloc_correct:
  assumes "emu88_engine E" and "pm_inv A" and "bytes \<noteq> 0" and "\<not> pm_round_up bytes < bytes"
    and fits: "pm_fits_at A (unat (pm_round_up bytes)) d"
    and ram: "\<And>a. \<lbrakk>PM_ARENA_START \<le> a; a < s_pm_end A\<rbrakk> \<Longrightarrow> is_ram E m a"
  shows "\<exists>f A' m'. pm_alloc E bytes (A, m) = (f, A', m') \<and> f \<noteq> 0 \<and> unat f \<le> d
    \<and> pm_fits_at A (unat (pm_round_up bytes)) (unat f) \<and> pm_inv A'
    \<and> set (s_pm_busy A') = insert \<lparr>pm_base = f, pm_size = pm_round_up bytes\<rparr> (set (s_pm_busy A))
    \<and> (\<forall>b. is_ram E m b \<longrightarrow> mem_readb E m' b =
        (if unat f \<le> unat b \<and> unat b < unat f + unat (pm_round_up bytes) then 0 else mem_readb E m b))"
  using assms(2-4)
proof (cases rule: pm_alloc_cases [where E = E and m = m])
  case (none A')
  then show ?thesis using fits by blast
next
  case (some f)
  let ?r = "pm_round_up bytes"
  have lim: "unat PM_ARENA_START \<le> unat f" "unat f + unat ?r \<le> unat (s_pm_end A)"
    using some(4) by (simp_all add: pm_fits_at_def)
  have fit: "unat f + unat ?r < 2 ^ 32" using lim unat_u32_less [of "s_pm_end A"] by simp
  have "is_ram E m (f + of_nat i)" if "i < unat ?r" for i
  proof (rule ram)
    have eq: "f + of_nat i = of_nat (unat f + i)" by simp
    have "unat (f + of_nat i) = unat f + i"
      unfolding eq by (rule unat_of_nat_u32) (use that fit in simp)
    then show "PM_ARENA_START \<le> f + of_nat i" "f + of_nat i < s_pm_end A"
      using lim that by (simp_all add: word_le_nat_alt word_less_nat_alt)
  qed
  moreover have "4096 dvd unat ?r" using pm_round_up_props(1) assms(3,4) by (simp add: word_neq_0_conv)
  ultimately have "\<forall>b. is_ram E m b \<longrightarrow> mem_readb E (pm_zero_fill E f ?r m) b =
      (if unat f \<le> unat b \<and> unat b < unat f + unat ?r then 0 else mem_readb E m b)"
    using emu88_engine.pm_zero_fill_bytes(2) [OF assms(1) _ fit] by blast
  with some fits show ?thesis by auto
qed

theorem pm_alloc_correct_witness:
  "\<exists>f A' m'. pm_alloc flat 5000 (\<lparr>s_pm_busy = [], s_pm_initialised = True, s_pm_end = 0x1000000\<rparr>, \<lambda>_. 7)
      = (f, A', m') \<and> f \<noteq> 0 \<and> unat f \<le> 0x120000 \<and> pm_inv A'"
proof -
  let ?A = "\<lparr>s_pm_busy = [], s_pm_initialised = True, s_pm_end = 0x1000000\<rparr>"
  have r: "pm_round_up 5000 = 0x2000" by (simp add: pm_round_up_def PM_PAGE_def)
  show ?thesis
    using pm_alloc_correct [OF flat_ram.emu88_engine_axioms, of ?A 5000 "0x120000" "\<lambda>_. 7"]
    by (fastforce simp: r pm_inv_def pm_fits_at_def pm_clear_def PM_ARENA_START_def flat_def)
qed

text \<open>C12: pm_alloc fails only when it must. If \<open>pm_alloc\<close> returns 0 for a request whose rounding does
  not overflow, then no address of the arena has room for it; memory and the set of busy blocks are
  unchanged.\<close>

theorem pm_alloc_complete:
  assumes "pm_inv A" and "bytes \<noteq> 0" and "\<not> pm_round_up bytes < bytes"
    and "pm_alloc E bytes (A, m) = (0, A', m')"
  shows "(\<forall>d. \<not> pm_fits_at A (unat (pm_round_up bytes)) d) \<and> m' = m \<and> pm_inv A'
    \<and> set (s_pm_busy A') = set (s_pm_busy A)"
  using assms(1-3)
proof (cases rule: pm_alloc_cases [where E = E and m = m])
  case none
  then show ?thesis using assms(4) by auto
next
  case some
  then show ?thesis using assms(4) by auto
qed

theorem pm_alloc_complete_witness:
  "\<forall>d. \<not> pm_fits_at \<lparr>s_pm_busy = [], s_pm_initialised = True, s_pm_end = 0x121000\<rparr> 0x2000 d"
proof -
  let ?A = "\<lparr>s_pm_busy = [], s_pm_initialised = True, s_pm_end = 0x121000\<rparr>"
  have r: "pm_round_up 5000 = 0x2000" by (simp add: pm_round_up_def PM_PAGE_def)
  have "pm_alloc flat 5000 (?A, \<lambda>_. 7) = (0, ?A, \<lambda>_. 7)"
    by (simp add: pm_alloc_def pm_init_def r PM_ARENA_START_def)
  then show ?thesis
    using pm_alloc_complete [of ?A 5000 flat "\<lambda>_. 7" ?A "\<lambda>_. 7"] by (simp add: r pm_inv_def)
qed

text \<open>\<open>pm_resize\<close> is exact when the sum does not wrap. For a busy block \<open>b\<close> and a request that
  rounds to \<open>r\<close> with \<open>base + r\<close> below 4 GiB, the call succeeds exactly when \<open>r\<close> is no more than the
  current size, or the grown block stays inside the arena and clear of every other block; on success
  only that block's size changes and the invariant holds, on failure nothing changes.\<close>

theorem pm_resize_correct:
  assumes "pm_inv A" and "b \<in> set (s_pm_busy A)" and "n \<noteq> 0" and "\<not> pm_round_up n < n"
    and "unat (pm_base b) + unat (pm_round_up n) < 2 ^ 32"
  shows "\<exists>ok A'. pm_resize E m (pm_base b) n A = (ok, A') \<and> pm_inv A'
    \<and> (ok \<longleftrightarrow> unat (pm_round_up n) \<le> unat (pm_size b) \<or>
        unat (pm_base b) + unat (pm_round_up n) \<le> unat (s_pm_end A) \<and>
        (\<forall>c \<in> set (s_pm_busy A). c \<noteq> b \<longrightarrow> pm_apart (b\<lparr>pm_size := pm_round_up n\<rparr>) c))
    \<and> set (s_pm_busy A') =
        (if ok then insert (b\<lparr>pm_size := pm_round_up n\<rparr>) (set (s_pm_busy A) - {b}) else set (s_pm_busy A))"
proof -
  define room where "room \<longleftrightarrow> unat (pm_round_up n) \<le> unat (pm_size b) \<or>
    unat (pm_base b) + unat (pm_round_up n) \<le> unat (s_pm_end A) \<and>
    (\<forall>c \<in> set (s_pm_busy A). c \<noteq> b \<longrightarrow> pm_apart (b\<lparr>pm_size := pm_round_up n\<rparr>) c)"
  note spec = pm_resize_spec [OF assms, of E m, folded room_def]
  show ?thesis unfolding room_def [symmetric] using spec assms(1) by (cases room) auto
qed

theorem pm_resize_correct_witness:
  "\<exists>ok A'. pm_resize flat (\<lambda>_. 0) 0x120000 0x3000
      \<lparr>s_pm_busy = [\<lparr>pm_base = 0x120000, pm_size = 0x1000\<rparr>], s_pm_initialised = True, s_pm_end = 0x1000000\<rparr>
      = (ok, A') \<and> pm_inv A' \<and> set (s_pm_busy A') = {\<lparr>pm_base = 0x120000, pm_size = 0x3000\<rparr>}"
proof -
  let ?A = "\<lparr>s_pm_busy = [\<lparr>pm_base = 0x120000, pm_size = 0x1000\<rparr>], s_pm_initialised = True,
    s_pm_end = 0x1000000\<rparr>" and ?b = "\<lparr>pm_base = 0x120000, pm_size = 0x1000\<rparr>"
  have r: "pm_round_up 0x3000 = 0x3000" by (simp add: pm_round_up_def PM_PAGE_def)
  have "pm_inv ?A" by (simp add: pm_inv_def pm_block_ok_def PM_ARENA_START_def)
  from pm_resize_correct [OF this, of ?b "0x3000" flat "\<lambda>_. 0"] show ?thesis by (auto simp: r)
qed

text \<open>Pm_resize without the no-wrap condition is unsound. In a 16 MB machine with a single busy
  page at 1.125 MB, growing it to FFF00000h bytes succeeds because \<open>base + new_rounded\<close> wraps to
  20000h; the invariant is lost, and the next \<open>pm_alloc\<close> of a page returns 20000h, an address below
  the arena that is the first header of the MCB chain, and zero-fills it.\<close>

theorem pm_resize_wraps:
  fixes E :: "'m emu88"
  defines "A \<equiv> \<lparr>s_pm_busy = [\<lparr>pm_base = 0x120000, pm_size = 0x1000\<rparr>], s_pm_initialised = True,
    s_pm_end = 0x1000000\<rparr>"
  defines "A' \<equiv> \<lparr>s_pm_busy = [\<lparr>pm_base = 0x120000, pm_size = 0xFFF00000\<rparr>], s_pm_initialised = True,
    s_pm_end = 0x1000000\<rparr>"
  shows "pm_inv A \<and> pm_resize E m 0x120000 0xFFF00000 A = (True, A') \<and> \<not> pm_inv A'
    \<and> fst (pm_alloc E 0x1000 (A', m)) = 0x20000
    \<and> snd (snd (pm_alloc E 0x1000 (A', m))) = pm_zero_fill E 0x20000 0x1000 m"
proof -
  have r: "pm_round_up 0xFFF00000 = 0xFFF00000" "pm_round_up 0x1000 = 0x1000"
    by (simp_all add: pm_round_up_def PM_PAGE_def)
  have wrap: "(0x100020000 :: u32) = 0x20000" by simp
  have "pm_resize E m 0x120000 0xFFF00000 A = (True, A')"
    by (simp add: pm_resize_def A_def A'_def pm_init_def r)
  moreover have "pm_alloc E 0x1000 (A', m) =
      (0x20000, A'\<lparr>s_pm_busy := s_pm_busy A' @ [\<lparr>pm_base = 0x20000, pm_size = 0x1000\<rparr>]\<rparr>,
       pm_zero_fill E 0x20000 0x1000 m)"
    by (simp add: pm_alloc_def A'_def pm_init_def r PM_ARENA_START_def wrap)
  moreover have "pm_inv A" "\<not> pm_inv A'"
    by (simp_all add: A_def A'_def pm_inv_def pm_block_ok_def PM_ARENA_START_def)
  ultimately show ?thesis by simp
qed

end
