(* ===== verification/Pool.thy ===== *)
theory Pool
  imports Prelude
begin

text \<open>
  The contract the emulator's allocators share: LDT selectors, DOS file handles, real-mode
  callback slots, EMS pool pages and native callback numbers are all handed out from a finite
  table and given back. A provider states what acquiring and releasing do to the set of live
  keys; the facts about runs of a pool are proved once from that.
\<close>

locale resource_pool =
  fixes inv :: "'s \<Rightarrow> bool"
    and live :: "'s \<Rightarrow> 'k set"
    and keys :: "'k set"
    and acquire :: "'s \<Rightarrow> ('k \<times> 's) option"
    and release :: "'k \<Rightarrow> 's \<Rightarrow> 's"
  assumes finite_keys: "finite keys"
    and live_keys: "inv s \<Longrightarrow> live s \<subseteq> keys"
    and acquire_inv: "\<lbrakk>inv s; acquire s = Some (k, s')\<rbrakk> \<Longrightarrow> inv s'"
    and acquire_live: "\<lbrakk>inv s; acquire s = Some (k, s')\<rbrakk> \<Longrightarrow>
      k \<in> keys \<and> k \<notin> live s \<and> live s' = insert k (live s)"
    and acquire_fails: "\<lbrakk>inv s; acquire s = None\<rbrakk> \<Longrightarrow> live s = keys"
    and release_inv: "\<lbrakk>inv s; k \<in> live s\<rbrakk> \<Longrightarrow> inv (release k s)"
    and release_live: "\<lbrakk>inv s; k \<in> live s\<rbrakk> \<Longrightarrow> live (release k s) = live s - {k}"
begin

text \<open>A client's trace: which keys it was handed and has not returned.\<close>

inductive trace :: "'s \<Rightarrow> 'k list \<Rightarrow> 's \<Rightarrow> bool" where
  nothing: "trace s [] s"
| get: "\<lbrakk>trace s ks s'; acquire s' = Some (k, s'')\<rbrakk> \<Longrightarrow> trace s (k # ks) s''"
| put: "\<lbrakk>trace s (xs @ k # ys) s'\<rbrakk> \<Longrightarrow> trace s (xs @ ys) (release k s')"

lemma trace_live:
  assumes "trace s ks s'" and "inv s" and "live s = {}"
  shows "inv s' \<and> distinct ks \<and> live s' = set ks"
  using assms
proof induction
  case (get s ks s' k s'')
  then show ?case using acquire_inv [of s' k s''] acquire_live [of s' k s''] by auto
next
  case (put s xs k ys s')
  then have IH: "inv s'" "distinct (xs @ k # ys)" "live s' = set (xs @ k # ys)" by blast+
  then have "inv (release k s')" "live (release k s') = set (xs @ k # ys) - {k}"
    using release_inv [of s' k] release_live [of s' k] by auto
  with IH(2) show ?case by auto
qed simp

text \<open>Nothing is handed out twice, and a pool is exhausted only when every key is out.\<close>

lemma trace_no_reuse:
  assumes "trace s ks s'" and "inv s" and "live s = {}" and "acquire s' = Some (k, s'')"
  shows "k \<notin> set ks"
  using trace_live [OF assms(1-3)] acquire_live [of s' k s''] assms(4) by auto

lemma trace_exhausted:
  assumes "trace s ks s'" and "inv s" and "live s = {}" and "acquire s' = None"
  shows "length ks = card keys"
  using trace_live [OF assms(1-3)] acquire_fails [of s'] assms(4) distinct_card by fastforce

lemma acquire_release:
  assumes "inv s" and "acquire s = Some (k, s')"
  shows "live (release k s') = live s" and "inv (release k s')"
  using acquire_live [OF assms] acquire_inv [OF assms] release_live [of s' k] release_inv [of s' k]
  by auto

end

end
