(* ===== verification/Descriptors.thy ===== *)
theory Descriptors
  imports Machine Pool
begin

text \<open>
  Descriptor tables of the DPMI host: writing and decoding GDT, LDT and IDT entries in guest
  memory, and the bitmap that says which LDT slots are in use, with the search for a run of
  free slots. The LDT bitmap provides the contract of \<open>resource_pool\<close>.
\<close>

section \<open>Layout\<close>

definition GDT_BASE :: u32 where "GDT_BASE = 0x100000"
definition IDT_BASE :: u32 where "IDT_BASE = 0x102000"
definition LDT_BASE :: u32 where "LDT_BASE = 0x104000"
definition GDT_LIMIT :: u16 where "GDT_LIMIT = 0x7F"
definition LDT_COUNT :: u16 where "LDT_COUNT = 256"

text \<open>Entry \<open>idx\<close> of the table at \<open>base\<close>.\<close>

definition slot :: "u32 \<Rightarrow> u16 \<Rightarrow> u32" where
  "slot base idx = base + ucast idx * 8"

section \<open>Writing entries\<close>

text \<open>The eight stores that \<open>write_gdt_descriptor\<close> and \<open>write_ldt_descriptor\<close> share.\<close>

definition write_descriptor :: "'m emu88 \<Rightarrow> u32 \<Rightarrow> u32 \<Rightarrow> u32 \<Rightarrow> u8 \<Rightarrow> bool \<Rightarrow> 'm \<Rightarrow> 'm" where
  "write_descriptor E p base limit access bits32 m = (let
     m = mem_writeb E (p + 0) (ucast (limit AND 0xFF)) m;
     m = mem_writeb E (p + 1) (ucast (drop_bit 8 limit AND 0xFF)) m;
     m = mem_writeb E (p + 2) (ucast (base AND 0xFF)) m;
     m = mem_writeb E (p + 3) (ucast (drop_bit 8 base AND 0xFF)) m;
     m = mem_writeb E (p + 4) (ucast (drop_bit 16 base AND 0xFF)) m;
     m = mem_writeb E (p + 5) access m;
     flags = (if bits32 then 0x40 else 0);
     m = mem_writeb E (p + 6) (ucast (drop_bit 16 limit AND 0x0F) OR flags) m;
     m = mem_writeb E (p + 7) (ucast (drop_bit 24 base AND 0xFF)) m
   in m)"

definition write_gdt_descriptor ::
  "'m emu88 \<Rightarrow> u16 \<Rightarrow> u32 \<Rightarrow> u32 \<Rightarrow> u8 \<Rightarrow> bool \<Rightarrow> 'm \<Rightarrow> 'm" where
  "write_gdt_descriptor E idx base limit access bits32 m =
     write_descriptor E (slot GDT_BASE idx) base limit access bits32 m"

definition write_ldt_descriptor ::
  "'m emu88 \<Rightarrow> u16 \<Rightarrow> u32 \<Rightarrow> u32 \<Rightarrow> u8 \<Rightarrow> bool \<Rightarrow> 'm \<Rightarrow> 'm" where
  "write_ldt_descriptor E idx base limit access bits32 m =
     write_descriptor E (slot LDT_BASE idx) base limit access bits32 m"

definition write_idt_gate :: "'m emu88 \<Rightarrow> u16 \<Rightarrow> u16 \<Rightarrow> u32 \<Rightarrow> bool \<Rightarrow> 'm \<Rightarrow> 'm" where
  "write_idt_gate E idx sel off bits32 m = (let
     p = slot IDT_BASE idx;
     m = mem_writeb E (p + 0) (ucast (off AND 0xFF)) m;
     m = mem_writeb E (p + 1) (ucast (drop_bit 8 off AND 0xFF)) m;
     m = mem_writeb E (p + 2) (ucast (sel AND 0xFF)) m;
     m = mem_writeb E (p + 3) (ucast (drop_bit 8 sel AND 0xFF)) m;
     m = mem_writeb E (p + 4) 0 m;
     m = mem_writeb E (p + 5) (if bits32 then 0xEE else 0xE6) m;
     m = mem_writeb E (p + 6) (ucast (drop_bit 16 off AND 0xFF)) m;
     m = mem_writeb E (p + 7) (ucast (drop_bit 24 off AND 0xFF)) m
   in m)"

section \<open>Reading entries\<close>

text \<open>The four-byte base the handlers reassemble, and the 20-bit limit field.\<close>

definition desc_base :: "'m emu88 \<Rightarrow> 'm \<Rightarrow> u32 \<Rightarrow> u32" where
  "desc_base E m p = ucast (mem_readb E m (p + 2)) OR push_bit 8 (ucast (mem_readb E m (p + 3)))
     OR push_bit 16 (ucast (mem_readb E m (p + 4))) OR push_bit 24 (ucast (mem_readb E m (p + 7)))"

definition desc_limit :: "'m emu88 \<Rightarrow> 'm \<Rightarrow> u32 \<Rightarrow> u32" where
  "desc_limit E m p = (ucast (mem_readb E m (p + 0)) OR push_bit 8 (ucast (mem_readb E m (p + 1))))
     OR push_bit 16 (ucast (mem_readb E m (p + 6) AND 0x0F))"

text \<open>What the CPU makes of the limit field (\<open>Descriptor::GetLimit\<close>): with G set it counts pages.\<close>

definition GetLimit :: "'m emu88 \<Rightarrow> 'm \<Rightarrow> u32 \<Rightarrow> u32" where
  "GetLimit E m p = (if bit (mem_readb E m (p + 6)) 7
     then push_bit 12 (desc_limit E m p) OR 0xFFF else desc_limit E m p)"

definition selector_table_base :: "u16 \<Rightarrow> u32" where
  "selector_table_base sel = (if sel AND 4 \<noteq> 0 then LDT_BASE else GDT_BASE)"

definition selector_is_valid :: "u16 \<Rightarrow> bool" where
  "selector_is_valid sel = (let idx = drop_bit 3 sel in
     if sel AND 4 \<noteq> 0 then \<not> (idx = 0 \<or> idx \<ge> LDT_COUNT)
     else \<not> (unat idx * 8 + 7 > unat GDT_LIMIT))"

text \<open>The address of a selector's entry, as every handler computes it.\<close>

definition sel_entry :: "u16 \<Rightarrow> u32" where
  "sel_entry sel = slot (selector_table_base sel) (drop_bit 3 sel)"

definition pm_selector_linear :: "'m emu88 \<Rightarrow> 'm \<Rightarrow> u16 \<Rightarrow> u32 \<Rightarrow> u32" where
  "pm_selector_linear E m sel off = (let
     idx = drop_bit 3 sel;
     p = (if sel AND 4 \<noteq> 0 then slot LDT_BASE idx else slot GDT_BASE idx)
   in desc_base E m p + off)"

section \<open>The LDT bitmap\<close>

definition ldt_bit :: "u8 list \<Rightarrow> u16 \<Rightarrow> bool" where
  "ldt_bit bm idx = (drop_bit (unat (idx AND 7)) (bm ! unat (drop_bit 3 idx)) AND 1 \<noteq> 0)"

definition ldt_set :: "u16 \<Rightarrow> bool \<Rightarrow> u8 list \<Rightarrow> u8 list" where
  "ldt_set idx v bm = (let k = unat (drop_bit 3 idx); b = push_bit (unat (idx AND 7)) 1 in
     bm[k := (if v then bm ! k OR b else bm ! k AND NOT b)])"

text \<open>The loop of \<open>ldt_find_run\<close>: the slots still to visit, \<open>start\<close> and \<open>have\<close>.\<close>

fun ldt_scan :: "u8 list \<Rightarrow> u16 \<Rightarrow> nat list \<Rightarrow> nat \<Rightarrow> nat \<Rightarrow> u16" where
  "ldt_scan bm count [] start have = 0"
| "ldt_scan bm count (i # is) start have =
     (if ldt_bit bm (of_nat i) then ldt_scan bm count is 0 0
      else let start = (if have = 0 then i else start); have = have + 1
        in if have = unat count then of_nat start else ldt_scan bm count is start have)"

definition ldt_find_run :: "u8 list \<Rightarrow> u16 \<Rightarrow> u16" where
  "ldt_find_run bm count = ldt_scan bm count [1 ..< unat LDT_COUNT] 0 0"

text \<open>A run of \<open>count\<close> free slots at \<open>s\<close>, never touching slot 0.\<close>

definition ldt_run :: "u8 list \<Rightarrow> nat \<Rightarrow> nat \<Rightarrow> bool" where
  "ldt_run bm count s \<longleftrightarrow> 1 \<le> s \<and> s + count \<le> 256 \<and> (\<forall>k < count. \<not> ldt_bit bm (of_nat (s + k)))"

definition ldt_used :: "u8 list \<Rightarrow> nat set" where
  "ldt_used bm = {i. 1 \<le> i \<and> i < 256 \<and> ldt_bit bm (of_nat i)}"

text \<open>Allocation of a single slot, as AX=0002h, 000Ah and 0100h do it.\<close>

definition ldt_acquire :: "u8 list \<Rightarrow> (nat \<times> u8 list) option" where
  "ldt_acquire bm = (let idx = ldt_find_run bm 1 in
     if idx = 0 then None else Some (unat idx, ldt_set idx True bm))"

text \<open>All eight bytes of an entry are RAM.\<close>

definition entry_ram :: "'m emu88 \<Rightarrow> 'm \<Rightarrow> u32 \<Rightarrow> bool" where
  "entry_ram E m p \<longleftrightarrow> (\<forall>k < 8. is_ram E m (p + k))"

section \<open>Bitmap lemmas\<close>

lemma unat_drop_3: "unat (drop_bit 3 (x :: u16)) = unat x div 8"
  by (simp add: drop_bit_eq_div unat_div_distrib)

lemma unat_and_7: "unat (x AND 7 :: u16) = unat x mod 8"
proof -
  have "x AND 7 = take_bit 3 x" by (simp add: take_bit_eq_mask mask_eq_exp_minus_1)
  then show ?thesis by (simp add: take_bit_eq_mod unat_mod_distrib)
qed

lemma ldt_bit_iff: "ldt_bit bm idx \<longleftrightarrow> bit (bm ! (unat idx div 8)) (unat idx mod 8)"
  by (simp add: ldt_bit_def unat_drop_3 unat_and_7 bit_iff_and_drop_bit_eq_1 and_one_eq mod_2_eq_odd)

lemma ldt_set_length [simp]: "length (ldt_set idx v bm) = length bm"
  by (simp add: ldt_set_def Let_def)

lemma ldt_bit_set:
  assumes "length bm = 32" and "unat i < 256" and "unat j < 256"
  shows "ldt_bit (ldt_set i v bm) j = (if i = j then v else ldt_bit bm j)"
proof -
  have eq: "i = j \<longleftrightarrow> unat i div 8 = unat j div 8 \<and> unat i mod 8 = unat j mod 8"
    by (metis div_mult_mod_eq word_unat_eq_iff)
  have "unat i div 8 < 32" "unat j div 8 < 32" using assms by linarith+
  then show ?thesis
    using assms(1) unfolding ldt_bit_iff eq
    by (auto simp: ldt_set_def Let_def unat_drop_3 unat_and_7 nth_list_update bit_simps)
qed

text \<open>The search returns the lowest run of free slots, and 0 only when there is none.\<close>

lemma ldt_scan_run:
  assumes "1 \<le> count" and "have < count" and "1 \<le> i - have" and "i \<le> 256" and "have \<le> i"
    and "\<And>k. \<lbrakk>i - have \<le> k; k < i\<rbrakk> \<Longrightarrow> \<not> ldt_bit bm (of_nat k)"
    and "\<And>s. s < i - have \<Longrightarrow> \<not> ldt_run bm count s"
    and "have \<noteq> 0 \<Longrightarrow> start = i - have" and "count = unat cnt"
    and "r = ldt_scan bm cnt [i ..< 256] start have"
  shows "(r = 0 \<and> (\<forall>s. \<not> ldt_run bm count s)) \<or>
    (r \<noteq> 0 \<and> ldt_run bm count (unat r) \<and> (\<forall>s. ldt_run bm count s \<longrightarrow> unat r \<le> s))"
  using assms
proof (induction "256 - i" arbitrary: i start "have")
  case 0
  then have i: "i = 256" "r = 0" by auto
  have "\<not> ldt_run bm count s" for s
  proof (cases "s < 256 - have")
    case True
    then show ?thesis using 0(8) i by blast
  next
    case False
    then show ?thesis using 0(3) by (auto simp: ldt_run_def)
  qed
  then show ?case using i by blast
next
  case (Suc d)
  then have i: "i < 256" "[i ..< 256] = i # [Suc i ..< 256]" "d = 256 - Suc i"
    by (auto simp: upt_conv_Cons)
  show ?case
  proof (cases "ldt_bit bm (of_nat i)")
    case True
    have no_run: "\<not> ldt_run bm count s" if "s < Suc i" for s
    proof (cases "s < i - have")
      case False
      then have "i - s < count" "s + (i - s) = i" using that Suc.prems by auto
      then show ?thesis using True by (metis ldt_run_def)
    qed (use Suc.prems in blast)
    show ?thesis
      by (rule Suc.hyps(1) [of "Suc i" 0 0])
        (use i True no_run Suc.prems in \<open>auto simp: less_Suc_eq\<close>)
  next
    case False
    let ?st = "if have = 0 then i else start"
    have st: "?st = i - have" using Suc.prems by auto
    have free: "\<not> ldt_bit bm (of_nat k)" if "i - have \<le> k" "k < Suc i" for k
      using that False Suc.prems(6) less_Suc_eq by auto
    show ?thesis
    proof (cases "have + 1 = count")
      case True
      then have r: "r = of_nat (i - have)" using False i st Suc.prems by auto
      have ur: "unat r = i - have" unfolding r by (rule unat_of_nat_u16) (use i in simp)
      have "\<forall>k < count. \<not> ldt_bit bm (of_nat (i - have + k))"
      proof (intro allI impI)
        show "\<not> ldt_bit bm (of_nat (i - have + k))" if "k < count" for k
          by (rule free) (use that True Suc.prems(5) in auto)
      qed
      moreover have "i - have + count \<le> 256" using True i Suc.prems(5) by simp
      ultimately have "ldt_run bm count (i - have)"
        using Suc.prems(3) by (simp add: ldt_run_def del: of_nat_add of_nat_diff)
      moreover have "i - have \<le> s" if "ldt_run bm count s" for s
        using that Suc.prems(7) [of s] by (meson not_le)
      moreover have "r \<noteq> 0" using ur Suc.prems(3) by auto
      ultimately show ?thesis using ur by simp
    next
      case False
      then have r: "r = ldt_scan bm cnt [Suc i ..< 256] ?st (have + 1)"
        using \<open>\<not> ldt_bit bm (of_nat i)\<close> i Suc.prems by simp
      show ?thesis
        by (rule Suc.hyps(1) [OF i(3) _ _ _ _ _ _ _ _ _ r])
          (use i False free st Suc.prems in auto)
    qed
  qed
qed

lemma ldt_find_run_spec:
  assumes "1 \<le> unat count" and "r = ldt_find_run bm count"
  shows "(r = 0 \<and> (\<forall>s. \<not> ldt_run bm (unat count) s)) \<or>
    (r \<noteq> 0 \<and> ldt_run bm (unat count) (unat r) \<and> (\<forall>s. ldt_run bm (unat count) s \<longrightarrow> unat r \<le> s))"
  by (rule ldt_scan_run [of _ 0 1 bm 0 count])
    (use assms in \<open>auto simp: ldt_find_run_def LDT_COUNT_def ldt_run_def\<close>)

section \<open>Entry lemmas\<close>

lemma unat_slot:
  assumes "unat base < 2 ^ 31" and "k < 8"
  shows "unat (slot base idx + k) = unat base + unat idx * 8 + unat k"
proof -
  have "unat k < 8" "unat idx < 65536" using assms(2) unat_u16_less [of idx]
    by (simp_all add: word_less_nat_alt)
  then show ?thesis using assms(1)
    by (simp add: slot_def unat_word_ariths unsigned_ucast_eq take_bit_nat_eq_self)
qed

lemma table_bases:
  "unat GDT_BASE < 2 ^ 31" "unat IDT_BASE < 2 ^ 31" "unat LDT_BASE < 2 ^ 31"
  by (simp_all add: GDT_BASE_def IDT_BASE_def LDT_BASE_def)

lemma entry_ramD:
  assumes "entry_ram E m p"
  shows "is_ram E m p" "is_ram E m (p + 1)" "is_ram E m (p + 2)" "is_ram E m (p + 3)"
    "is_ram E m (p + 4)" "is_ram E m (p + 5)" "is_ram E m (p + 6)" "is_ram E m (p + 7)"
  using assms unfolding entry_ram_def by (auto dest: spec [of _ 0] simp: word_less_nat_alt)

context emu88_engine
begin

lemma write_descriptor_bytes:
  fixes base limit :: u32 and access :: u8 and bits32 :: bool
  assumes "entry_ram E m p"
  defines "m' \<equiv> write_descriptor E p base limit access bits32 m"
  shows "mem_readb E m' p = ucast limit" and "mem_readb E m' (p + 1) = ucast (drop_bit 8 limit)"
    and "mem_readb E m' (p + 2) = ucast base" and "mem_readb E m' (p + 3) = ucast (drop_bit 8 base)"
    and "mem_readb E m' (p + 4) = ucast (drop_bit 16 base)" and "mem_readb E m' (p + 5) = access"
    and "mem_readb E m' (p + 6) = ucast (take_bit 4 (drop_bit 16 limit)) OR (if bits32 then 0x40 else 0)"
    and "mem_readb E m' (p + 7) = ucast (drop_bit 24 base)"
  using entry_ramD [OF assms(1)]
  by (simp_all add: m'_def write_descriptor_def Let_def mem_simps and_numeral_mask)

lemma write_descriptor_other:
  assumes "entry_ram E m p" and "is_ram E m a" and "\<And>k. k < 8 \<Longrightarrow> a \<noteq> p + k"
  shows "mem_readb E (write_descriptor E p base limit access bits32 m) a = mem_readb E m a"
  using entry_ramD [OF assms(1)] assms(2) assms(3) [of 0] assms(3) [of 1] assms(3) [of 2]
    assms(3) [of 3] assms(3) [of 4] assms(3) [of 5] assms(3) [of 6] assms(3) [of 7]
  by (simp add: write_descriptor_def Let_def mem_simps)

lemma write_descriptor_ram:
  assumes "entry_ram E m p"
  shows "is_ram E (write_descriptor E p base limit access bits32 m) a = is_ram E m a"
  using entry_ramD [OF assms] by (simp add: write_descriptor_def Let_def mem_simps)

lemma limit_nibble:
  "(ucast (take_bit 4 (drop_bit 16 (limit :: u32))) OR (if b then 0x40 else 0) :: u8) AND 0x0F =
    ucast (take_bit 4 (drop_bit 16 limit))"
proof -
  have "take_bit 4 (ucast (take_bit 4 (drop_bit 16 limit)) :: u8) = ucast (take_bit 4 (drop_bit 16 limit))"
    by (rule bit_word_eqI) (auto simp: bit_simps)
  then show ?thesis unfolding and_numeral_mask by (simp add: take_bit_or del: take_bit_of_nat)
qed

lemma limit_of_bytes:
  "(ucast (ucast limit :: u8) OR push_bit 8 (ucast (ucast (drop_bit 8 limit) :: u8)))
    OR push_bit 16 (ucast (ucast (take_bit 4 (drop_bit 16 limit)) :: u8)) = take_bit 20 (limit :: u32)"
proof (rule bit_word_eqI)
  fix n assume "n < LENGTH(32)"
  then consider "n < 8" | "8 \<le> n" "n < 16" | "16 \<le> n" "n < 20" | "20 \<le> n"
    by fastforce
  then show "bit ((ucast (ucast limit :: u8) OR push_bit 8 (ucast (ucast (drop_bit 8 limit) :: u8)))
    OR push_bit 16 (ucast (ucast (take_bit 4 (drop_bit 16 limit)) :: u8)) :: u32) n =
    bit (take_bit 20 limit) n"
    by cases (auto simp: bit_simps)
qed

lemma write_descriptor_entry:
  assumes "entry_ram E m p"
  shows "desc_base E (write_descriptor E p base limit access bits32 m) p = base"
    and "desc_limit E (write_descriptor E p base limit access bits32 m) p = take_bit 20 limit"
    and "GetLimit E (write_descriptor E p base limit access bits32 m) p = take_bit 20 limit"
proof -
  note B = write_descriptor_bytes [OF assms, of base limit access bits32]
  show "desc_base E (write_descriptor E p base limit access bits32 m) p = base"
    by (simp add: desc_base_def B u32_of_bytes)
  show lim: "desc_limit E (write_descriptor E p base limit access bits32 m) p = take_bit 20 limit"
    by (simp add: desc_limit_def B limit_nibble limit_of_bytes)
  have "(0x40 :: u8) = push_bit 6 1" by simp
  then have "\<not> bit (mem_readb E (write_descriptor E p base limit access bits32 m) (p + 6)) 7"
    unfolding B by (auto simp: bit_simps)
  then show "GetLimit E (write_descriptor E p base limit access bits32 m) p = take_bit 20 limit"
    by (simp add: GetLimit_def lim)
qed

end

section \<open>LDT slots as a pool\<close>

lemma ldt_run_one: "ldt_run bm (Suc 0) s \<longleftrightarrow> 1 \<le> s \<and> s < 256 \<and> s \<notin> ldt_used bm"
  by (auto simp: ldt_run_def ldt_used_def)

lemma ldt_used_set:
  assumes "length bm = 32" and "1 \<le> unat i" and "unat i < 256"
  shows "ldt_used (ldt_set i v bm) = (if v then insert (unat i) (ldt_used bm) else ldt_used bm - {unat i})"
proof -
  have "ldt_bit (ldt_set i v bm) (of_nat j) = (if unat i = j then v else ldt_bit bm (of_nat j))"
    if "j < 256" for j
    using ldt_bit_set [OF assms(1,3), of "of_nat j" v] that
    by (auto simp: unat_of_nat_u16 word_unat_eq_iff)
  note bit = this
  have "ldt_bit (ldt_set i v bm) i = v" using bit [of "unat i"] assms(3) by simp
  with bit show ?thesis using assms(2,3) by (auto simp: ldt_used_def split: if_splits)
qed

interpretation ldt_pool: resource_pool "\<lambda>bm. length bm = 32" ldt_used "{1 ..< 256}" ldt_acquire
  "\<lambda>k. ldt_set (of_nat k) False"
proof
  fix bm :: "u8 list" and k bm'
  assume len: "length bm = 32" and acq: "ldt_acquire bm = Some (k, bm')"
  define r where "r = ldt_find_run bm 1"
  have r: "r \<noteq> 0" "k = unat r" "bm' = ldt_set r True bm"
    using acq by (auto simp: ldt_acquire_def Let_def r_def split: if_splits)
  then have run: "1 \<le> unat r" "unat r < 256" "unat r \<notin> ldt_used bm"
    using ldt_find_run_spec [of 1 r bm] by (auto simp: r_def ldt_run_one)
  show "length bm' = 32" using len r by simp
  show "k \<in> {1 ..< 256} \<and> k \<notin> ldt_used bm \<and> ldt_used bm' = insert k (ldt_used bm)"
    using run r ldt_used_set [OF len run(1,2), of True] by simp
next
  fix bm :: "u8 list"
  assume len: "length bm = 32" and "ldt_acquire bm = None"
  then have "ldt_find_run bm 1 = 0" by (auto simp: ldt_acquire_def Let_def split: if_splits)
  then have "\<forall>s. \<not> ldt_run bm 1 s" using ldt_find_run_spec [of 1 0 bm] by auto
  then show "ldt_used bm = {1 ..< 256}" by (auto simp: ldt_run_one) (auto simp: ldt_used_def)
next
  fix bm :: "u8 list" and k
  assume len: "length bm = 32" and "k \<in> ldt_used bm"
  then have "1 \<le> k" "k < 256" by (auto simp: ldt_used_def)
  then show "ldt_used (ldt_set (of_nat k) False bm) = ldt_used bm - {k}"
    using ldt_used_set [OF len, of "of_nat k" False] by (simp add: unat_of_nat_u16)
qed (auto simp: ldt_used_def)

end
