(* ===== verification/Dpmi.thy ===== *)
theory Dpmi
  imports Mcb PmArena Descriptors
begin

text \<open>
  INT 31h, the DPMI services of \<open>bridge.cc\<close>: descriptor management, DOS and extended memory
  blocks, interrupt vectors, real-mode callbacks and the small state queries, one definition
  per AX value, over the machine state extended with the host's static variables. The handlers
  that may walk the MCB chain return None when that walk does not end. AX=0300h, 0301h and
  0302h (they run the guest) are an argument of the dispatcher.
\<close>

section \<open>State\<close>

record exc_handler =
  exc_sel :: u16
  exc_off :: u32

record rm_callback =
  rmcb_allocated :: bool
  rmcb_pm_cs :: u16
  rmcb_pm_eip :: u32
  rmcb_struct_sel :: u16
  rmcb_struct_off :: u32
  rmcb_rm_addr :: u32

record 'm dpmi = "'m arenas" +
  s_ldt_in_use :: "u8 list"
  s_seg2desc_cache :: "u16 \<Rightarrow> u16"
  s_client_cpl :: u8
  s_pm_exc :: "exc_handler list"
  s_pm_exc_cb32_off :: "u16 list"
  s_rm_callbacks :: "rm_callback list"
  s_noop_retf_ptr :: u32
  s_virtual_if :: bool

definition PM_CB_SEL :: u16 where "PM_CB_SEL = 0x28"

section \<open>Helpers\<close>

text \<open>\<open>reg_ax = code; set_cf(true)\<close>, and \<open>set_cf(false)\<close>.\<close>

abbreviation fail31 :: "'m emu88 \<Rightarrow> u16 \<Rightarrow> ('m, 'z) machine_scheme \<Rightarrow> ('m, 'z) machine_scheme" where
  "fail31 E code s \<equiv> set_cf E True (set_ax code s)"

abbreviation ok31 :: "'m emu88 \<Rightarrow> ('m, 'z) machine_scheme \<Rightarrow> ('m, 'z) machine_scheme" where
  "ok31 E s \<equiv> set_cf E False s"

definition reload_loaded_selector ::
  "'m emu88 \<Rightarrow> u16 \<Rightarrow> ('m, 'z) machine_scheme \<Rightarrow> ('m, 'z) machine_scheme" where
  "reload_loaded_selector E sel s = (let key = sel AND 0xFFFC in
     if key = 0 then s
     else fold (\<lambda>sg s. if seg_val s sg AND 0xFFFC = key
         then CPU_SetSegGeneral E sg (seg_val s sg) s else s) [DS, ES, FS, GS, SS] s)"

text \<open>\<open>ShimGdtTable::GetDescriptor\<close> followed by \<open>Descriptor::Big\<close>: None when the selector is
  beyond the table's limit, otherwise the D bit.\<close>

definition gdt_GetDescriptor_Big :: "'m emu88 \<Rightarrow> 'm \<Rightarrow> u16 \<Rightarrow> bool option" where
  "gdt_GetDescriptor_Big E m sel = (let addr = (ucast sel :: u32) AND NOT 7 in
     if sel AND 4 \<noteq> 0
     then (if addr \<ge> ldtr_limit E m then None
           else Some (bit (mem_readd E m (ldtr_base E m + addr + 4)) 22))
     else (if addr \<ge> ucast (gdtr_limit E m) then None
           else Some (bit (mem_readd E m (gdtr_base E m + addr + 4)) 22)))"

definition client_access :: "u8 \<Rightarrow> u8" where
  "client_access cpl = 0x92 OR push_bit 5 cpl"

definition ldt_selector :: "u16 \<Rightarrow> u8 \<Rightarrow> u16" where
  "ldt_selector idx cpl = push_bit 3 idx OR 0x04 OR ucast cpl"

text \<open>\<open>ldt_set(idx, true); write_ldt_descriptor(idx, base, limit, access)\<close>, the pair of calls that
  every allocating service makes.\<close>

definition ldt_install :: "'m emu88 \<Rightarrow> u16 \<Rightarrow> u32 \<Rightarrow> u32 \<Rightarrow> u8 \<Rightarrow> 'm dpmi \<Rightarrow> 'm dpmi" where
  "ldt_install E idx base limit access s = (let
     s = s\<lparr>s_ldt_in_use := ldt_set idx True (s_ldt_in_use s)\<rparr>
   in wr (write_ldt_descriptor E idx base limit access False) s)"

section \<open>Version and capability queries\<close>

definition int31_0400 :: "'m emu88 \<Rightarrow> 'm dpmi \<Rightarrow> 'm dpmi" where
  "int31_0400 E s = ok31 E (set_dl 0x70 (set_dh 0x08 (set_cl 3 (set_bx 0x0002 (set_ax 0x005A s)))))"

definition int31_0401 :: "'m emu88 \<Rightarrow> 'm dpmi \<Rightarrow> 'm dpmi" where
  "int31_0401 E s = (let
     s = set_dl 0x5A (set_dh 0 (set_cx 0 (set_bx 0 (set_ax 0x0020 s))));
     buf = seg_phys s ES + reg_edi s;
     s = wr (mem_writeb E (buf + 0) 0) s;
     s = wr (mem_writeb E (buf + 1) 1) s;
     name = [0x64, 0x6F, 0x73, 0x69, 0x7A, 0];
     s = wr (fold (\<lambda>i. mem_writeb E (buf + 2 + of_nat i) (name ! i)) [0 ..< 6]) s
   in ok31 E s)"

section \<open>Descriptors\<close>

definition int31_0000 :: "'m emu88 \<Rightarrow> 'm dpmi \<Rightarrow> 'm dpmi" where
  "int31_0000 E s = (let count = reg_cx s in
     if count = 0 \<or> count \<ge> LDT_COUNT then fail31 E 0x8021 s
     else let start = ldt_find_run (s_ldt_in_use s) count in
     if start = 0 then fail31 E 0x8011 s
     else let
       access = client_access (s_client_cpl s);
       s = fold (\<lambda>i. ldt_install E (start + of_nat i) 0 0xFFFF access) [0 ..< unat count] s;
       s = set_ax (ldt_selector start (s_client_cpl s)) s
     in ok31 E s)"

definition int31_0001 :: "'m emu88 \<Rightarrow> 'm dpmi \<Rightarrow> 'm dpmi" where
  "int31_0001 E s = (
     if reg_bx s AND 4 = 0 \<or> \<not> selector_is_valid (reg_bx s) then fail31 E 0x8022 s
     else let idx = drop_bit 3 (reg_bx s) in
     if \<not> ldt_bit (s_ldt_in_use s) idx then fail31 E 0x8022 s
     else let
       s = s\<lparr>s_ldt_in_use := ldt_set idx False (s_ldt_in_use s)\<rparr>;
       s = s\<lparr>s_seg2desc_cache := (\<lambda>sg. if s_seg2desc_cache s sg = idx then 0 else s_seg2desc_cache s sg)\<rparr>
     in ok31 E s)"

definition int31_0002 :: "'m emu88 \<Rightarrow> 'm dpmi \<Rightarrow> 'm dpmi" where
  "int31_0002 E s = (let sg = reg_bx s in
     if s_seg2desc_cache s sg \<noteq> 0
     then ok31 E (set_ax (ldt_selector (s_seg2desc_cache s sg) (s_client_cpl s)) s)
     else let idx = ldt_find_run (s_ldt_in_use s) 1 in
     if idx = 0 then fail31 E 0x8011 s
     else let
       s = ldt_install E idx (seg_lin sg) 0xFFFF (client_access (s_client_cpl s)) s;
       s = s\<lparr>s_seg2desc_cache := (s_seg2desc_cache s)(sg := idx)\<rparr>;
       s = set_ax (ldt_selector idx (s_client_cpl s)) s
     in ok31 E s)"

definition int31_0003 :: "'m emu88 \<Rightarrow> 'm dpmi \<Rightarrow> 'm dpmi" where
  "int31_0003 E s = ok31 E (set_ax 8 s)"

definition int31_0006 :: "'m emu88 \<Rightarrow> 'm dpmi \<Rightarrow> 'm dpmi" where
  "int31_0006 E s = (
     if \<not> selector_is_valid (reg_bx s) then fail31 E 0x8022 s
     else let
       p = sel_entry (reg_bx s);
       base = desc_base E (mem s) p;
       s = set_cx (ucast (drop_bit 16 base AND 0xFFFF)) s;
       s = set_dx (ucast (base AND 0xFFFF)) s
     in ok31 E s)"

definition int31_0007 :: "'m emu88 \<Rightarrow> 'm dpmi \<Rightarrow> 'm dpmi" where
  "int31_0007 E s = (
     if \<not> selector_is_valid (reg_bx s) then fail31 E 0x8022 s
     else let
       base = push_bit 16 (ucast (reg_cx s) :: u32) OR ucast (reg_dx s);
       p = sel_entry (reg_bx s);
       s = wr (mem_writeb E (p + 2) (ucast (base AND 0xFF))) s;
       s = wr (mem_writeb E (p + 3) (ucast (drop_bit 8 base AND 0xFF))) s;
       s = wr (mem_writeb E (p + 4) (ucast (drop_bit 16 base AND 0xFF))) s;
       s = wr (mem_writeb E (p + 7) (ucast (drop_bit 24 base AND 0xFF))) s;
       s = reload_loaded_selector E (reg_bx s) s
     in ok31 E s)"

definition int31_0008 :: "'m emu88 \<Rightarrow> 'm dpmi \<Rightarrow> 'm dpmi" where
  "int31_0008 E s = (
     if \<not> selector_is_valid (reg_bx s) then fail31 E 0x8022 s
     else let
       limit = push_bit 16 (ucast (reg_cx s) :: u32) OR ucast (reg_dx s);
       need_g = (limit > 0xFFFFF);
       limit = (if need_g then drop_bit 12 limit else limit);
       p = sel_entry (reg_bx s);
       s = wr (mem_writeb E (p + 0) (ucast (limit AND 0xFF))) s;
       s = wr (mem_writeb E (p + 1) (ucast (drop_bit 8 limit AND 0xFF))) s;
       flags = mem_readb E (mem s) (p + 6);
       flags = flags AND 0x60;
       flags = flags OR ucast (drop_bit 16 limit AND 0x0F);
       flags = (if need_g then flags OR 0x80 else flags);
       s = wr (mem_writeb E (p + 6) flags) s;
       s = reload_loaded_selector E (reg_bx s) s
     in ok31 E s)"

definition int31_0009 :: "'m emu88 \<Rightarrow> 'm dpmi \<Rightarrow> 'm dpmi" where
  "int31_0009 E s = (
     if \<not> selector_is_valid (reg_bx s) then fail31 E 0x8022 s
     else let
       p = sel_entry (reg_bx s);
       s = wr (mem_writeb E (p + 5) (reg_cl s)) s;
       flags = mem_readb E (mem s) (p + 6);
       flags = (flags AND 0x0F) OR (reg_ch s AND 0xF0);
       s = wr (mem_writeb E (p + 6) flags) s;
       s = reload_loaded_selector E (reg_bx s) s
     in ok31 E s)"

definition int31_000A :: "'m emu88 \<Rightarrow> 'm dpmi \<Rightarrow> 'm dpmi" where
  "int31_000A E s = (
     if \<not> selector_is_valid (reg_bx s) then fail31 E 0x8022 s
     else let
       src = sel_entry (reg_bx s);
       base = desc_base E (mem s) src;
       limit = desc_limit E (mem s) src;
       new_idx = ldt_find_run (s_ldt_in_use s) 1
     in if new_idx = 0 then fail31 E 0x8011 s
     else let
       s = ldt_install E new_idx base limit (client_access (s_client_cpl s)) s;
       s = set_ax (ldt_selector new_idx (s_client_cpl s)) s
     in ok31 E s)"

definition int31_000B :: "'m emu88 \<Rightarrow> 'm dpmi \<Rightarrow> 'm dpmi" where
  "int31_000B E s = (
     if \<not> selector_is_valid (reg_bx s) then fail31 E 0x8022 s
     else let
       src = sel_entry (reg_bx s);
       dst = seg_phys s ES + reg_edi s;
       s = wr (fold (\<lambda>i m. mem_writeb E (dst + of_nat i) (mem_readb E m (src + of_nat i)) m) [0 ..< 8]) s
     in ok31 E s)"

definition int31_000C :: "'m emu88 \<Rightarrow> 'm dpmi \<Rightarrow> 'm dpmi" where
  "int31_000C E s = (
     if \<not> selector_is_valid (reg_bx s) then fail31 E 0x8022 s
     else let
       dst = sel_entry (reg_bx s);
       src = seg_phys s ES + reg_edi s;
       s = wr (fold (\<lambda>i m. mem_writeb E (dst + of_nat i) (mem_readb E m (src + of_nat i)) m) [0 ..< 8]) s;
       s = reload_loaded_selector E (reg_bx s) s
     in ok31 E s)"

definition int31_000D :: "'m emu88 \<Rightarrow> 'm dpmi \<Rightarrow> 'm dpmi" where
  "int31_000D E s = (
     if reg_bx s AND 4 = 0 then fail31 E 0x8022 s
     else let idx = drop_bit 3 (reg_bx s) in
     if idx = 0 \<or> idx \<ge> LDT_COUNT \<or> ldt_bit (s_ldt_in_use s) idx then fail31 E 0x8011 s
     else let
       s = ldt_install E idx 0 0 0x92 s
     in ok31 E s)"

section \<open>DOS memory blocks\<close>

definition int31_0100 :: "'m emu88 \<Rightarrow> 'm dpmi \<Rightarrow> 'm dpmi option" where
  "int31_0100 E s = (
     if reg_bx s = 0 then Some (fail31 E 0x8021 s)
     else case mcb_allocate E (reg_bx s) (s_mcb_initialised s, mem s) of
       None \<Rightarrow> None
     | Some ((data_seg, largest), (ini, m)) \<Rightarrow> let s = s\<lparr>mem := m, s_mcb_initialised := ini\<rparr> in
         if data_seg = 0
         then Some (set_cf E True (set_bx largest (set_ax 0x8013 s)))
         else let ldt_idx = ldt_find_run (s_ldt_in_use s) 1 in
         if ldt_idx = 0
         then Some (fail31 E 0x8011 (s\<lparr>mem := snd (mcb_free E data_seg (s_mcb_initialised s, mem s))\<rparr>))
         else let
           limit_bytes = push_bit 4 (ucast (reg_bx s) :: u32) - 1;
           s = ldt_install E ldt_idx (seg_lin data_seg) limit_bytes (client_access (s_client_cpl s)) s;
           s = s\<lparr>s_seg2desc_cache := (s_seg2desc_cache s)(data_seg := ldt_idx)\<rparr>;
           s = set_ax data_seg s;
           s = set_dx (ldt_selector ldt_idx (s_client_cpl s)) s
         in Some (ok31 E s))"

definition int31_0101 :: "'m emu88 \<Rightarrow> 'm dpmi \<Rightarrow> 'm dpmi" where
  "int31_0101 E s = (
     if reg_dx s AND 4 = 0 \<or> \<not> selector_is_valid (reg_dx s) then fail31 E 0x8022 s
     else let idx = drop_bit 3 (reg_dx s) in
     if \<not> ldt_bit (s_ldt_in_use s) idx then fail31 E 0x8022 s
     else let
       base = desc_base E (mem s) (slot LDT_BASE idx);
       data_seg = ucast (drop_bit 4 base);
       s = s\<lparr>mem := snd (mcb_free E data_seg (s_mcb_initialised s, mem s))\<rparr>;
       s = s\<lparr>s_seg2desc_cache := (s_seg2desc_cache s)(data_seg := 0)\<rparr>;
       s = s\<lparr>s_ldt_in_use := ldt_set idx False (s_ldt_in_use s)\<rparr>;
       s = wr (write_ldt_descriptor E idx 0 0 0 False) s
     in ok31 E s)"

definition int31_0102 :: "'m emu88 \<Rightarrow> 'm dpmi \<Rightarrow> 'm dpmi" where
  "int31_0102 E s = (
     if reg_bx s AND 4 = 0 \<or> \<not> selector_is_valid (reg_bx s) then fail31 E 0x8022 s
     else let idx = drop_bit 3 (reg_bx s) in
     if \<not> ldt_bit (s_ldt_in_use s) idx then fail31 E 0x8022 s
     else let
       p = slot LDT_BASE idx;
       base = desc_base E (mem s) p;
       data_seg = ucast (drop_bit 4 base);
       ((got, largest), m) = mcb_resize E data_seg (reg_dx s) (s_mcb_initialised s, mem s);
       s = s\<lparr>mem := m\<rparr>
     in if got \<noteq> reg_dx s
     then set_cf E True (set_bx largest (set_ax 0x8013 s))
     else let
       new_limit_bytes = push_bit 4 (ucast (reg_dx s) :: u32) - 1;
       s = wr (mem_writeb E (p + 0) (ucast (new_limit_bytes AND 0xFF))) s;
       s = wr (mem_writeb E (p + 1) (ucast (drop_bit 8 new_limit_bytes AND 0xFF))) s;
       flags = mem_readb E (mem s) (p + 6);
       s = wr (mem_writeb E (p + 6) ((flags AND 0xF0) OR ucast (drop_bit 16 new_limit_bytes AND 0x0F))) s
     in ok31 E s)"

section \<open>Vectors and callbacks\<close>

definition int31_0200 :: "'m emu88 \<Rightarrow> 'm dpmi \<Rightarrow> 'm dpmi" where
  "int31_0200 E s = (let
     v = ucast (reg_bl s) * 4;
     s = set_dx (mem_readw E (mem s) v) s;
     s = set_cx (mem_readw E (mem s) (v + 2)) s
   in ok31 E s)"

definition int31_0201 :: "'m emu88 \<Rightarrow> 'm dpmi \<Rightarrow> 'm dpmi" where
  "int31_0201 E s = (let
     v = ucast (reg_bl s) * 4;
     s = wr (mem_writew E v (reg_dx s)) s;
     s = wr (mem_writew E (v + 2) (reg_cx s)) s
   in ok31 E s)"

definition int31_0202 :: "'m emu88 \<Rightarrow> 'm dpmi \<Rightarrow> 'm dpmi" where
  "int31_0202 E s = (
     if reg_bl s \<ge> 32 then fail31 E 0x8021 s
     else let
       h = s_pm_exc s ! unat (reg_bl s);
       s = set_cx (exc_sel h) s;
       s = s\<lparr>reg_edx := exc_off h\<rparr>
     in ok31 E s)"

definition int31_0203 :: "'m emu88 \<Rightarrow> 'm dpmi \<Rightarrow> 'm dpmi" where
  "int31_0203 E s = (
     if reg_bl s \<ge> 32 then fail31 E 0x8021 s
     else let
       n = unat (reg_bl s);
       s = s\<lparr>s_pm_exc := (s_pm_exc s)[n := \<lparr>exc_sel = reg_cx s, exc_off = reg_edx s\<rparr>]\<rparr>;
       handler_bits32 = (case gdt_GetDescriptor_Big E (mem s) (reg_cx s) of Some b \<Rightarrow> b | None \<Rightarrow> False);
       s = (if handler_bits32 \<and> s_pm_exc_cb32_off s ! n \<noteq> 0
            then wr (write_idt_gate E (ucast (reg_bl s)) PM_CB_SEL (ucast (s_pm_exc_cb32_off s ! n)) True) s
            else wr (write_idt_gate E (ucast (reg_bl s)) (reg_cx s) (reg_edx s) handler_bits32) s)
     in ok31 E s)"

definition int31_0204 :: "'m emu88 \<Rightarrow> 'm dpmi \<Rightarrow> 'm dpmi" where
  "int31_0204 E s = (let
     gate = slot IDT_BASE (ucast (reg_bl s));
     off = ucast (mem_readb E (mem s) (gate + 0)) OR push_bit 8 (ucast (mem_readb E (mem s) (gate + 1)))
       OR push_bit 16 (ucast (mem_readb E (mem s) (gate + 6)))
       OR push_bit 24 (ucast (mem_readb E (mem s) (gate + 7)));
     sel = ucast (mem_readb E (mem s) (gate + 2)) OR push_bit 8 (ucast (mem_readb E (mem s) (gate + 3)));
     s = set_cx sel s;
     s = s\<lparr>reg_edx := off\<rparr>
   in ok31 E s)"

definition int31_0205 :: "'m emu88 \<Rightarrow> 'm dpmi \<Rightarrow> 'm dpmi" where
  "int31_0205 E s = (let
     bits32 = (if reg_cx s AND 0xFFFC \<noteq> 0
       then (case gdt_GetDescriptor_Big E (mem s) (reg_cx s) of Some b \<Rightarrow> b | None \<Rightarrow> code_big s)
       else code_big s);
     s = wr (write_idt_gate E (ucast (reg_bl s)) (reg_cx s) (reg_edx s) bits32) s
   in ok31 E s)"

definition int31_0305 :: "'m emu88 \<Rightarrow> 'm dpmi \<Rightarrow> 'm dpmi" where
  "int31_0305 E s = (let
     s = set_ax 0 s;
     s = set_bx (hi16 (s_noop_retf_ptr s)) s;
     s = set_cx (lo16 (s_noop_retf_ptr s)) s;
     s = set_si (hi16 (s_noop_retf_ptr s)) s;
     s = s\<lparr>reg_edi := ucast (lo16 (s_noop_retf_ptr s))\<rparr>
   in ok31 E s)"

definition int31_0306 :: "'m emu88 \<Rightarrow> 'm dpmi \<Rightarrow> 'm dpmi" where
  "int31_0306 E s = (let
     s = set_bx (hi16 (s_noop_retf_ptr s)) s;
     s = set_cx (lo16 (s_noop_retf_ptr s)) s;
     s = set_si (hi16 (s_noop_retf_ptr s)) s;
     s = s\<lparr>reg_edi := ucast (lo16 (s_noop_retf_ptr s))\<rparr>
   in ok31 E s)"

text \<open>The first slot that satisfies a condition, as the \<open>for\<close> loops of 0303h and 0304h find it.\<close>

fun rmcb_find :: "(rm_callback \<Rightarrow> bool) \<Rightarrow> rm_callback list \<Rightarrow> nat option" where
  "rmcb_find P [] = None"
| "rmcb_find P (c # cs) = (if P c then Some 0 else map_option Suc (rmcb_find P cs))"

definition int31_0303 :: "'m emu88 \<Rightarrow> 'm dpmi \<Rightarrow> 'm dpmi" where
  "int31_0303 E s = (case rmcb_find (\<lambda>c. \<not> rmcb_allocated c) (s_rm_callbacks s) of
     None \<Rightarrow> fail31 E 0x8015 s
   | Some i \<Rightarrow> let
       cb = (s_rm_callbacks s ! i)\<lparr>rmcb_allocated := True, rmcb_pm_cs := seg_val s DS,
              rmcb_pm_eip := reg_esi s, rmcb_struct_sel := seg_val s ES, rmcb_struct_off := reg_edi s\<rparr>;
       s = s\<lparr>s_rm_callbacks := (s_rm_callbacks s)[i := cb]\<rparr>;
       s = set_cx (hi16 (rmcb_rm_addr cb)) s;
       s = set_dx (lo16 (rmcb_rm_addr cb)) s
     in ok31 E s)"

definition int31_0304 :: "'m emu88 \<Rightarrow> 'm dpmi \<Rightarrow> 'm dpmi" where
  "int31_0304 E s = (let target = push_bit 16 (ucast (reg_cx s)) OR ucast (reg_dx s) in
     case rmcb_find (\<lambda>c. rmcb_allocated c \<and> rmcb_rm_addr c = target) (s_rm_callbacks s) of
       Some i \<Rightarrow> ok31 E (s\<lparr>s_rm_callbacks :=
         (s_rm_callbacks s)[i := (s_rm_callbacks s ! i)\<lparr>rmcb_allocated := False\<rparr>]\<rparr>)
     | None \<Rightarrow> fail31 E 0x8024 s)"

section \<open>Extended memory blocks\<close>

partial_function (option) free_walk :: "'m emu88 \<Rightarrow> 'm \<Rightarrow> u16 \<Rightarrow> u32 \<Rightarrow> u32 option" where
  "free_walk E m seg largest_paras = (
     if seg < MCB_ARENA_END then let
       b = seg_lin seg;
       type = mem_readb E m b;
       owner = mem_readw E m (b + 1);
       size = mem_readw E m (b + 3);
       largest_paras = (if owner = 0 \<and> ucast size > largest_paras then ucast size else largest_paras)
     in if type = mcb_Z then Some largest_paras
        else free_walk E m (seg + 1 + size) largest_paras
     else Some largest_paras)"

definition int31_0500 :: "'m emu88 \<Rightarrow> 'm dpmi \<Rightarrow> 'm dpmi option" where
  "int31_0500 E s = (let
     buf = seg_phys s ES + reg_edi s;
     s = (if \<not> s_mcb_initialised s then (wr (mcb_init E) s)\<lparr>s_mcb_initialised := True\<rparr> else s)
   in case free_walk E (mem s) MCB_ARENA_START 0 of
     None \<Rightarrow> None
   | Some largest_paras \<Rightarrow> let
       largest_bytes = largest_paras * 16;
       put32 = (\<lambda>off v. wr (mem_writed E (buf + off) v));
       s = put32 0x00 largest_bytes s;
       s = put32 0x04 (largest_bytes div 4096) s;
       s = put32 0x08 (largest_bytes div 4096) s;
       s = put32 0x0C 0xFFFFFFFF s;
       s = put32 0x10 (largest_bytes div 4096) s;
       s = put32 0x14 0xFFFFFFFF s;
       s = put32 0x18 0xFFFFFFFF s;
       s = put32 0x1C 0xFFFFFFFF s;
       s = put32 0x20 0xFFFFFFFF s;
       s = fold (\<lambda>off. put32 off 0xFFFFFFFF) [0x24, 0x28, 0x2C] s
     in Some (ok31 E s))"

definition int31_0501 :: "'m emu88 \<Rightarrow> 'm dpmi \<Rightarrow> 'm dpmi option" where
  "int31_0501 E s = (let
     bytes = push_bit 16 (ucast (reg_bx s) :: u32) OR ucast (reg_cx s)
   in if bytes = 0 then Some (fail31 E 0x8021 s)
   else let
     (linear, A, m) = pm_alloc E bytes (s_pm s, mem s);
     s = s\<lparr>mem := m, s_pm := A\<rparr>
   in if linear \<noteq> 0
   then Some (ok31 E (set_di (lo16 linear) (set_si (hi16 linear)
          (set_cx (lo16 linear) (set_bx (hi16 linear) s)))))
   else let
     paras32 = drop_bit 4 (bytes + 15)
   in if paras32 > 0 \<and> paras32 \<le> 0xFFFF
   then (case mcb_allocate E (ucast paras32) (s_mcb_initialised s, mem s) of
       None \<Rightarrow> None
     | Some ((data_seg, largest), (ini, m)) \<Rightarrow> let s = s\<lparr>mem := m, s_mcb_initialised := ini\<rparr> in
         if data_seg \<noteq> 0
         then let mcb_linear = seg_lin data_seg in
           Some (ok31 E (set_di data_seg (set_si 0
             (set_cx (lo16 mcb_linear) (set_bx (hi16 mcb_linear) s)))))
         else Some (fail31 E 0x8012 s))
   else Some (fail31 E 0x8012 s))"

definition int31_0502 :: "'m emu88 \<Rightarrow> 'm dpmi \<Rightarrow> 'm dpmi" where
  "int31_0502 E s = (
     if reg_si s = 0
     then (if reg_di s < MCB_ARENA_START \<or> reg_di s \<ge> MCB_ARENA_END then fail31 E 0x8023 s
           else let
             (ok, m) = mcb_free E (reg_di s) (s_mcb_initialised s, mem s);
             s = s\<lparr>mem := m\<rparr>
           in if \<not> ok then fail31 E 0x8023 s else ok31 E s)
     else let
       base = push_bit 16 (ucast (reg_si s)) OR ucast (reg_di s);
       (ok, A) = pm_free base (s_pm s);
       s = s\<lparr>s_pm := A\<rparr>
     in if \<not> ok then fail31 E 0x8023 s else ok31 E s)"

definition int31_0503 :: "'m emu88 \<Rightarrow> 'm dpmi \<Rightarrow> 'm dpmi" where
  "int31_0503 E s = (let
     new_bytes = push_bit 16 (ucast (reg_bx s) :: u32) OR ucast (reg_cx s)
   in if new_bytes = 0 then fail31 E 0x8021 s
   else if reg_si s = 0
   then (if reg_di s < MCB_ARENA_START \<or> reg_di s \<ge> MCB_ARENA_END then fail31 E 0x8023 s
     else let new_paras32 = drop_bit 4 (new_bytes + 15) in
     if new_paras32 > 0xFFFF then fail31 E 0x8012 s
     else let
       ((got, largest), m) = mcb_resize E (reg_di s) (ucast new_paras32) (s_mcb_initialised s, mem s);
       s = s\<lparr>mem := m\<rparr>
     in if ucast got \<noteq> new_paras32 then fail31 E 0x8012 s
     else let linear = seg_lin (reg_di s) in
       ok31 E (set_cx (lo16 linear) (set_bx (hi16 linear) s)))
   else let
     base = push_bit 16 (ucast (reg_si s)) OR ucast (reg_di s);
     (ok, A) = pm_resize E (mem s) base new_bytes (s_pm s);
     s = s\<lparr>s_pm := A\<rparr>
   in if \<not> ok then fail31 E 0x8012 s
   else ok31 E (set_cx (lo16 base) (set_bx (hi16 base) s)))"

definition int31_0506 :: "'m emu88 \<Rightarrow> 'm dpmi \<Rightarrow> 'm dpmi" where
  "int31_0506 E s = (let buf = seg_phys s ES + reg_edx s in
     ok31 E (wr (fold (\<lambda>i. mem_writew E (buf + of_nat (i * 2)) 0x0039) [0 ..< unat (reg_cx s)]) s))"

section \<open>State queries and the dispatcher\<close>

definition int31_0604 :: "'m emu88 \<Rightarrow> 'm dpmi \<Rightarrow> 'm dpmi" where
  "int31_0604 E s = ok31 E (set_cx 4096 (set_bx 0 s))"

definition int31_0900 :: "'m emu88 \<Rightarrow> 'm dpmi \<Rightarrow> 'm dpmi" where
  "int31_0900 E s = ok31 E ((set_al (if s_virtual_if s then 1 else 0) s)\<lparr>s_virtual_if := False\<rparr>)"

definition int31_0901 :: "'m emu88 \<Rightarrow> 'm dpmi \<Rightarrow> 'm dpmi" where
  "int31_0901 E s = ok31 E ((set_al (if s_virtual_if s then 1 else 0) s)\<lparr>s_virtual_if := True\<rparr>)"

definition int31_0902 :: "'m emu88 \<Rightarrow> 'm dpmi \<Rightarrow> 'm dpmi" where
  "int31_0902 E s = ok31 E (set_al (if s_virtual_if s then 1 else 0) s)"

text \<open>The switch on AX. \<open>run_guest\<close> stands for the three functions that run guest code.\<close>

definition dosiz_int31 ::
  "'m emu88 \<Rightarrow> (u16 \<Rightarrow> 'm dpmi \<Rightarrow> 'm dpmi option) \<Rightarrow> 'm dpmi \<Rightarrow> 'm dpmi option" where
  "dosiz_int31 E run_guest s = (let ax = reg_ax s in
     if ax = 0x0400 then Some (int31_0400 E s)
     else if ax = 0x0401 then Some (int31_0401 E s)
     else if ax = 0x0000 then Some (int31_0000 E s)
     else if ax = 0x0001 then Some (int31_0001 E s)
     else if ax = 0x0002 then Some (int31_0002 E s)
     else if ax = 0x0003 then Some (int31_0003 E s)
     else if ax = 0x0008 then Some (int31_0008 E s)
     else if ax = 0x0009 then Some (int31_0009 E s)
     else if ax = 0x000A then Some (int31_000A E s)
     else if ax = 0x000B then Some (int31_000B E s)
     else if ax = 0x000C then Some (int31_000C E s)
     else if ax = 0x000D then Some (int31_000D E s)
     else if ax = 0x0100 then int31_0100 E s
     else if ax = 0x0102 then Some (int31_0102 E s)
     else if ax = 0x0101 then Some (int31_0101 E s)
     else if ax = 0x0202 then Some (int31_0202 E s)
     else if ax = 0x0203 then Some (int31_0203 E s)
     else if ax = 0x0305 then Some (int31_0305 E s)
     else if ax = 0x0303 then Some (int31_0303 E s)
     else if ax = 0x0304 then Some (int31_0304 E s)
     else if ax = 0x0306 then Some (int31_0306 E s)
     else if ax \<in> {0x0600, 0x0601, 0x0602, 0x0603, 0x0702, 0x0703, 0x0801, 0x0800} then Some (ok31 E s)
     else if ax \<in> {0x0B00, 0x0B01, 0x0B02, 0x0B03} then Some (ok31 E (set_bx 0 s))
     else if ax = 0x0604 then Some (int31_0604 E s)
     else if ax = 0x0204 then Some (int31_0204 E s)
     else if ax = 0x0205 then Some (int31_0205 E s)
     else if ax = 0x0900 then Some (int31_0900 E s)
     else if ax = 0x0901 then Some (int31_0901 E s)
     else if ax = 0x0902 then Some (int31_0902 E s)
     else if ax = 0x0200 then Some (int31_0200 E s)
     else if ax = 0x0201 then Some (int31_0201 E s)
     else if ax = 0x0500 then int31_0500 E s
     else if ax = 0x0006 then Some (int31_0006 E s)
     else if ax = 0x0007 then Some (int31_0007 E s)
     else if ax = 0x0501 then int31_0501 E s
     else if ax = 0x0502 then Some (int31_0502 E s)
     else if ax \<in> {0x0302, 0x0301, 0x0300} then run_guest ax s
     else if ax = 0x0503 then Some (int31_0503 E s)
     else if ax = 0x0506 then Some (int31_0506 E s)
     else if ax = 0x0507 then Some (ok31 E s)
     else if ax \<in> {0x0508, 0x0509} then Some (fail31 E 0x8025 s)
     else if ax = 0x0E00 then Some (ok31 E (set_ax 0x31 s))
     else if ax = 0x0E01 then Some (ok31 E s)
     else Some (fail31 E 0x8001 s))"

definition dosiz_int31_bits32 ::
  "'m emu88 \<Rightarrow> (u16 \<Rightarrow> 'm dpmi \<Rightarrow> 'm dpmi option) \<Rightarrow> 'm dpmi \<Rightarrow> 'm dpmi option" where
  "dosiz_int31_bits32 E run_guest s = (let prev = s_int_gate_bits32 s in
     case dosiz_int31 E run_guest (s\<lparr>s_int_gate_bits32 := True\<rparr>) of
       None \<Rightarrow> None
     | Some s' \<Rightarrow> Some (s'\<lparr>s_int_gate_bits32 := prev\<rparr>))"

section \<open>Where the tables and the interrupt frame lie\<close>

definition tables_ram :: "'m emu88 \<Rightarrow> 'm \<Rightarrow> bool" where
  "tables_ram E m \<longleftrightarrow> (\<forall>a. 0x100000 \<le> a \<longrightarrow> a < 0x105000 \<longrightarrow> is_ram E m a)"

text \<open>The FLAGS word of the interrupt frame is RAM and not part of a descriptor table.\<close>

definition frame_ok :: "'m emu88 \<Rightarrow> ('m, 'z) machine_scheme \<Rightarrow> bool" where
  "frame_ok E s \<longleftrightarrow> is_ram E (mem s) (cf_addr s) \<and> is_ram E (mem s) (cf_addr s + 1)
     \<and> \<not> (0x100000 \<le> cf_addr s \<and> cf_addr s < 0x105000)
     \<and> \<not> (0x100000 \<le> cf_addr s + 1 \<and> cf_addr s + 1 < 0x105000)"

definition not_loaded :: "u16 \<Rightarrow> ('m, 'z) machine_scheme \<Rightarrow> bool" where
  "not_loaded sel s \<longleftrightarrow> (\<forall>sg \<in> {DS, ES, FS, GS, SS}. seg_val s sg AND 0xFFFC \<noteq> sel AND 0xFFFC)"

lemma set_reg_dpmi [simp]:
  "s_client_cpl (set_ax v s) = s_client_cpl s" "s_ldt_in_use (set_ax v s) = s_ldt_in_use s"
  "s_pm (set_ax v s) = s_pm s"
  by (simp_all add: set_ax_def)

lemma wr_simps [simp]:
  "mem (wr f s) = f (mem s)" "reg_eax (wr f s) = reg_eax s" "reg_ebx (wr f s) = reg_ebx s"
  "reg_ecx (wr f s) = reg_ecx s" "reg_edx (wr f s) = reg_edx s" "reg_esi (wr f s) = reg_esi s"
  "reg_edi (wr f s) = reg_edi s" "seg_val (wr f s) = seg_val s" "seg_phys (wr f s) = seg_phys s"
  "cf_addr (wr f s) = cf_addr s" "machine.more (wr f s) = machine.more s"
  "reg_ax (wr f s) = reg_ax s" "reg_bx (wr f s) = reg_bx s" "reg_cx (wr f s) = reg_cx s"
  "reg_dx (wr f s) = reg_dx s" "reg_cl (wr f s) = reg_cl s" "reg_ch (wr f s) = reg_ch s"
  by (simp_all add: wr_def reg_defs)

lemma reg_cx_edx [simp]: "reg_cx (s\<lparr>reg_edx := v\<rparr>) = reg_cx s"
  by (simp add: reg_cx_def)

lemma not_loaded_reload:
  assumes "not_loaded sel s"
  shows "reload_loaded_selector E sel s = s"
  using assms by (simp add: not_loaded_def reload_loaded_selector_def Let_def)

lemma not_loaded_wr [simp]: "not_loaded sel (wr f s) = not_loaded sel s"
  by (simp add: not_loaded_def)

lemma slot_in_tables:
  assumes "k < 8"
  shows "unat idx < 256 \<Longrightarrow> 0x100000 \<le> slot LDT_BASE idx + k \<and> slot LDT_BASE idx + k < 0x105000"
    and "unat idx < 16 \<Longrightarrow> 0x100000 \<le> slot GDT_BASE idx + k \<and> slot GDT_BASE idx + k < 0x105000"
    and "unat idx < 256 \<Longrightarrow> 0x100000 \<le> slot IDT_BASE idx + k \<and> slot IDT_BASE idx + k < 0x105000"
proof -
  have "unat k < 8" using assms by (simp add: word_less_nat_alt)
  then show "unat idx < 256 \<Longrightarrow> 0x100000 \<le> slot LDT_BASE idx + k \<and> slot LDT_BASE idx + k < 0x105000"
    and "unat idx < 16 \<Longrightarrow> 0x100000 \<le> slot GDT_BASE idx + k \<and> slot GDT_BASE idx + k < 0x105000"
    and "unat idx < 256 \<Longrightarrow> 0x100000 \<le> slot IDT_BASE idx + k \<and> slot IDT_BASE idx + k < 0x105000"
    unfolding word_le_nat_alt word_less_nat_alt
      unat_slot [OF table_bases(1) assms] unat_slot [OF table_bases(2) assms] unat_slot [OF table_bases(3) assms]
    by (simp_all add: LDT_BASE_def GDT_BASE_def IDT_BASE_def)
qed

lemma sel_entry_in_tables:
  assumes "selector_is_valid sel" and "k < 8"
  shows "0x100000 \<le> sel_entry sel + k" and "sel_entry sel + k < 0x105000"
proof -
  have "0x100000 \<le> sel_entry sel + k \<and> sel_entry sel + k < 0x105000"
  proof (cases "sel AND 4 = 0")
    case True
    then have "unat (drop_bit 3 sel) < 16"
      using assms(1) by (auto simp: selector_is_valid_def Let_def GDT_LIMIT_def)
    then show ?thesis using slot_in_tables(2) [OF assms(2)] True
      by (simp add: sel_entry_def selector_table_base_def)
  next
    case False
    then have "unat (drop_bit 3 sel) < 256"
      using assms(1) by (auto simp: selector_is_valid_def Let_def LDT_COUNT_def word_le_nat_alt)
    then show ?thesis using slot_in_tables(1) [OF assms(2)] False
      by (simp add: sel_entry_def selector_table_base_def)
  qed
  then show "0x100000 \<le> sel_entry sel + k" and "sel_entry sel + k < 0x105000" by blast+
qed

lemma tables_entry:
  assumes "tables_ram E m" and "selector_is_valid sel"
  shows "entry_ram E m (sel_entry sel)"
  using assms sel_entry_in_tables by (auto simp: entry_ram_def tables_ram_def)

lemma frame_apart:
  assumes "frame_ok E s" and "0x100000 \<le> a" and "a < 0x105000"
  shows "a \<noteq> cf_addr s" and "a \<noteq> cf_addr s + 1"
  using assms by (auto simp: frame_ok_def)

lemma ram_frame:
  assumes "frame_ok E s" and "tables_ram E (mem s)"
    and "\<And>a. is_ram E (mem t) a = is_ram E (mem s) a" and "cf_addr t = cf_addr s"
  shows "frame_ok E t" and "tables_ram E (mem t)"
  using assms by (simp_all add: frame_ok_def tables_ram_def)

context emu88_engine
begin

lemma set_cf_tables:
  assumes "frame_ok E s" and "tables_ram E (mem s)"
  shows "0x100000 \<le> a \<Longrightarrow> a < 0x105000 \<Longrightarrow> mem_readb E (mem (set_cf E v s)) a = mem_readb E (mem s) a"
    and "tables_ram E (mem (set_cf E v s))" and "frame_ok E (set_cf E v s)"
    and "carry E (set_cf E v s) = v"
  using assms frame_apart [OF assms(1)]
  by (auto simp: frame_ok_def tables_ram_def mem_simps)

lemma set_cf_entry:
  assumes "frame_ok E s" and "tables_ram E (mem s)" and "selector_is_valid sel"
  shows "desc_base E (mem (set_cf E v s)) (sel_entry sel) = desc_base E (mem s) (sel_entry sel)"
    and "desc_limit E (mem (set_cf E v s)) (sel_entry sel) = desc_limit E (mem s) (sel_entry sel)"
    and "GetLimit E (mem (set_cf E v s)) (sel_entry sel) = GetLimit E (mem s) (sel_entry sel)"
  using set_cf_tables(1) [OF assms(1,2)] sel_entry_in_tables [OF assms(3), of 0]
    sel_entry_in_tables [OF assms(3)]
  by (simp_all add: desc_base_def desc_limit_def GetLimit_def word_less_nat_alt)

text \<open>The four stores of AX=0007h.\<close>

lemma write_base_bytes:
  fixes base :: u32
  assumes "entry_ram E m p"
  defines "m' \<equiv> mem_writeb E (p + 7) (ucast (drop_bit 24 base)) (mem_writeb E (p + 4) (ucast (drop_bit 16 base))
    (mem_writeb E (p + 3) (ucast (drop_bit 8 base)) (mem_writeb E (p + 2) (ucast base) m)))"
  shows "desc_base E m' p = base" and "is_ram E m' a = is_ram E m a"
    and "\<lbrakk>is_ram E m a; a \<notin> {p + 2, p + 3, p + 4, p + 7}\<rbrakk> \<Longrightarrow> mem_readb E m' a = mem_readb E m a"
  using entry_ramD [OF assms(1)]
  by (simp_all add: m'_def desc_base_def mem_simps u32_of_bytes)

lemma int31_0007_entry:
  assumes fr: "frame_ok E s" and tab: "tables_ram E (mem s)" and val: "selector_is_valid (reg_bx s)"
    and nl: "not_loaded (reg_bx s) s"
  shows "desc_base E (mem (int31_0007 E s)) (sel_entry (reg_bx s)) =
      push_bit 16 (ucast (reg_cx s)) OR ucast (reg_dx s)"
    and "\<not> carry E (int31_0007 E s)" and "frame_ok E (int31_0007 E s)"
    and "tables_ram E (mem (int31_0007 E s))" and "reg_bx (int31_0007 E s) = reg_bx s"
    and "\<lbrakk>0x100000 \<le> a; a < 0x105000; a \<notin> (\<lambda>k. sel_entry (reg_bx s) + k) ` {2, 3, 4, 7}\<rbrakk> \<Longrightarrow>
      mem_readb E (mem (int31_0007 E s)) a = mem_readb E (mem s) a"
proof -
  define p where "p = sel_entry (reg_bx s)"
  define base where "base = push_bit 16 (ucast (reg_cx s) :: u32) OR ucast (reg_dx s)"
  define m' where "m' = mem_writeb E (p + 7) (ucast (drop_bit 24 base))
    (mem_writeb E (p + 4) (ucast (drop_bit 16 base))
    (mem_writeb E (p + 3) (ucast (drop_bit 8 base)) (mem_writeb E (p + 2) (ucast base) (mem s))))"
  note W = write_base_bytes [OF tables_entry [OF tab val], folded p_def, where base = base, folded m'_def]
  have s': "int31_0007 E s = set_cf E False (s\<lparr>mem := m'\<rparr>)"
    using val nl
    by (simp add: int31_0007_def Let_def not_loaded_reload and_numeral_mask p_def [symmetric]
        base_def [symmetric] m'_def wr_def [of _ s] not_loaded_def del: not_loaded_wr)
      (simp add: wr_def)
  have fr': "frame_ok E (s\<lparr>mem := m'\<rparr>)" and tab': "tables_ram E (mem (s\<lparr>mem := m'\<rparr>))"
    using fr tab W(2) by (simp_all add: frame_ok_def tables_ram_def)
  note C = set_cf_tables [OF fr' tab']
  show "\<not> carry E (int31_0007 E s)" "frame_ok E (int31_0007 E s)"
    "tables_ram E (mem (int31_0007 E s))" "reg_bx (int31_0007 E s) = reg_bx s"
    using C(2-4) by (simp_all add: s')
  show "desc_base E (mem (int31_0007 E s)) (sel_entry (reg_bx s)) =
      push_bit 16 (ucast (reg_cx s)) OR ucast (reg_dx s)"
    using set_cf_entry(1) [OF fr' tab' val] W(1)
    by (simp add: s' p_def base_def)
  show "mem_readb E (mem (int31_0007 E s)) a = mem_readb E (mem s) a"
    if "0x100000 \<le> a" "a < 0x105000" "a \<notin> (\<lambda>k. sel_entry (reg_bx s) + k) ` {2, 3, 4, 7}"
    using C(1) [OF that(1,2)] W(3) [of a] that tab by (auto simp: s' p_def tables_ram_def)
qed

text \<open>The three stores of AX=0008h, for the 20-bit field \<open>lim\<close> and granularity \<open>g\<close>.\<close>

lemma limit_flags:
  fixes f :: u8 and lim :: u32 and g :: bool
  defines "fl \<equiv> (if g then (f AND 0x60) OR ucast (take_bit 4 (drop_bit 16 lim)) OR 0x80
                  else (f AND 0x60) OR ucast (take_bit 4 (drop_bit 16 lim)))"
  shows "fl AND 0x0F = ucast (take_bit 4 (drop_bit 16 lim))" and "bit fl 7 = g"
proof -
  have sm: "take_bit 4 (ucast (take_bit 4 (drop_bit 16 lim)) :: u8) = ucast (take_bit 4 (drop_bit 16 lim))"
    by (rule bit_word_eqI) (auto simp: bit_simps)
  have b: "\<not> bit (0x60 :: u8) 7" "bit (0x80 :: u8) 7" by simp_all
  show "fl AND 0x0F = ucast (take_bit 4 (drop_bit 16 lim))"
    unfolding and_numeral_mask fl_def using sm by (simp add: take_bit_or take_bit_and)
  show "bit fl 7 = g"
    unfolding fl_def using b by (auto simp: bit_simps)
qed

lemma write_limit_bytes:
  fixes lim :: u32
  assumes "entry_ram E m p" and "fl AND 0x0F = ucast (take_bit 4 (drop_bit 16 lim))" and "bit fl 7 = g"
  defines "m' \<equiv> mem_writeb E (p + 6) fl (mem_writeb E (p + 1) (ucast (drop_bit 8 lim)) (mem_writeb E p (ucast lim) m))"
  shows "desc_limit E m' p = take_bit 20 lim"
    and "GetLimit E m' p = (if g then push_bit 12 (take_bit 20 lim) OR 0xFFF else take_bit 20 lim)"
    and "is_ram E m' a = is_ram E m a"
    and "\<lbrakk>is_ram E m a; a \<notin> {p, p + 1, p + 6}\<rbrakk> \<Longrightarrow> mem_readb E m' a = mem_readb E m a"
proof -
  note ram = entry_ramD [OF assms(1)]
  show lim: "desc_limit E m' p = take_bit 20 lim"
    using ram assms(2) by (simp add: m'_def desc_limit_def mem_simps limit_of_bytes)
  show "GetLimit E m' p = (if g then push_bit 12 (take_bit 20 lim) OR 0xFFF else take_bit 20 lim)"
    unfolding GetLimit_def lim using ram assms(3) by (simp add: m'_def mem_simps)
  show "is_ram E m' a = is_ram E m a"
    and "\<lbrakk>is_ram E m a; a \<notin> {p, p + 1, p + 6}\<rbrakk> \<Longrightarrow> mem_readb E m' a = mem_readb E m a"
    using ram by (simp_all add: m'_def mem_simps)
qed

lemma push_drop_or_mask: "n \<le> 32 \<Longrightarrow> push_bit n (take_bit (32 - n) (drop_bit n v)) OR mask n = v OR (mask n :: u32)"
  by (rule bit_word_eqI) (auto simp: bit_simps not_less)

lemma pages_round_up: "push_bit 12 (take_bit 20 (drop_bit 12 v)) OR 0xFFF = v OR (0xFFF :: u32)"
  using push_drop_or_mask [of 12 v] by (simp add: mask_eq_exp_minus_1)

lemma bytes_exact:
  assumes "\<not> (v :: u32) > 0xFFFFF"
  shows "take_bit 20 v = v"
proof -
  have "unat v < 2 ^ 20" using assms by (simp add: word_less_nat_alt not_less)
  then show ?thesis by (simp add: word_unat_eq_iff unsigned_take_bit_eq take_bit_nat_eq_self)
qed

lemma int31_0008_entry:
  fixes s :: "'m dpmi"
  assumes fr: "frame_ok E s" and tab: "tables_ram E (mem s)" and val: "selector_is_valid (reg_bx s)"
    and nl: "not_loaded (reg_bx s) s"
  defines "limit \<equiv> push_bit 16 (ucast (reg_cx s) :: u32) OR ucast (reg_dx s)"
  defines "p \<equiv> sel_entry (reg_bx s)"
  shows "GetLimit E (mem (int31_0008 E s)) p = (if limit > 0xFFFFF then limit OR 0xFFF else limit)"
    and "desc_base E (mem (int31_0008 E s)) p = desc_base E (mem s) p"
    and "\<not> carry E (int31_0008 E s)"
    and "\<lbrakk>0x100000 \<le> a; a < 0x105000; a \<notin> {p, p + 1, p + 6}\<rbrakk> \<Longrightarrow>
      mem_readb E (mem (int31_0008 E s)) a = mem_readb E (mem s) a"
proof -
  define g where "g \<longleftrightarrow> limit > 0xFFFFF"
  define lim where "lim = (if g then drop_bit 12 limit else limit)"
  note ent = tables_entry [OF tab val, folded p_def]
  define f where "f = mem_readb E (mem s) (p + 6)"
  define fl where "fl = (if g then (f AND 0x60) OR ucast (take_bit 4 (drop_bit 16 lim)) OR 0x80
                  else (f AND 0x60) OR ucast (take_bit 4 (drop_bit 16 lim)))"
  define m' where "m' = mem_writeb E (p + 6) fl (mem_writeb E (p + 1) (ucast (drop_bit 8 lim))
    (mem_writeb E p (ucast lim) (mem s)))"
  note W = write_limit_bytes [OF ent limit_flags [of g f lim, folded fl_def], folded m'_def]
  have fread: "mem_readb E (mem_writeb E (p + 1) (ucast (drop_bit 8 lim)) (mem_writeb E p (ucast lim) (mem s))) (p + 6) = f"
    using entry_ramD [OF ent] by (simp add: f_def mem_simps)
  have s': "int31_0008 E s = set_cf E False (s\<lparr>mem := m'\<rparr>)"
    using val nl fread
    by (cases "limit > 0xFFFFF")
      (simp_all add: int31_0008_def Let_def not_loaded_reload and_numeral_mask p_def [symmetric]
        limit_def [symmetric] g_def lim_def fl_def m'_def or.assoc, simp_all add: wr_def)
  have fr': "frame_ok E (s\<lparr>mem := m'\<rparr>)" and tab': "tables_ram E (mem (s\<lparr>mem := m'\<rparr>))"
    using fr tab W(3) by (simp_all add: frame_ok_def tables_ram_def)
  note C = set_cf_tables [OF fr' tab'] and C' = set_cf_entry [OF fr' tab' val, folded p_def]
  have "GetLimit E m' p = (if limit > 0xFFFFF then limit OR 0xFFF else limit)"
    unfolding W(2) using pages_round_up bytes_exact by (simp add: lim_def g_def)
  then show "GetLimit E (mem (int31_0008 E s)) p = (if limit > 0xFFFFF then limit OR 0xFFF else limit)"
    using C'(3) by (simp add: s')
  show "\<not> carry E (int31_0008 E s)" using C(4) by (simp add: s')
  show same: "mem_readb E (mem (int31_0008 E s)) a = mem_readb E (mem s) a"
    if "0x100000 \<le> a" "a < 0x105000" "a \<notin> {p, p + 1, p + 6}" for a
    using C(1) [OF that(1,2)] W(4) [of a] that tab by (auto simp: s' tables_ram_def)
  show "desc_base E (mem (int31_0008 E s)) p = desc_base E (mem s) p"
    using sel_entry_in_tables [OF val, folded p_def] by (simp add: desc_base_def same word_less_nat_alt)
qed

text \<open>Interrupt gates: what AX=0205h stores, AX=0204h reads back.\<close>

lemma write_idt_gate_bytes:
  assumes "entry_ram E m (slot IDT_BASE idx)"
  shows "mem_readb E (write_idt_gate E idx sel off b32 m) (slot IDT_BASE idx) = ucast off"
    and "mem_readb E (write_idt_gate E idx sel off b32 m) (slot IDT_BASE idx + 1) = ucast (drop_bit 8 off)"
    and "mem_readb E (write_idt_gate E idx sel off b32 m) (slot IDT_BASE idx + 2) = ucast sel"
    and "mem_readb E (write_idt_gate E idx sel off b32 m) (slot IDT_BASE idx + 3) = ucast (drop_bit 8 sel)"
    and "mem_readb E (write_idt_gate E idx sel off b32 m) (slot IDT_BASE idx + 6) = ucast (drop_bit 16 off)"
    and "mem_readb E (write_idt_gate E idx sel off b32 m) (slot IDT_BASE idx + 7) = ucast (drop_bit 24 off)"
    and "is_ram E (write_idt_gate E idx sel off b32 m) a = is_ram E m a"
  using entry_ramD [OF assms]
  by (simp_all add: write_idt_gate_def Let_def mem_simps and_numeral_mask)

lemma u16_of_bytes:
  "ucast (ucast v :: u8) OR push_bit 8 (ucast (ucast (drop_bit 8 v) :: u8)) = (v :: u16)"
  using mk16_bytes [of v] by (simp add: mk16_def lo8_def hi8_def)

lemma int31_0205_0204:
  assumes fr: "frame_ok E s" and tab: "tables_ram E (mem s)"
  shows "reg_cx (int31_0204 E (int31_0205 E s)) = reg_cx s"
    and "reg_edx (int31_0204 E (int31_0205 E s)) = reg_edx s"
    and "\<not> carry E (int31_0205 E s)"
proof -
  define idx :: u16 where "idx = ucast (reg_bl s)"
  have idx: "unat idx < 256"
    using unat_u8_less [of "reg_bl s"] by (simp add: idx_def unsigned_ucast_eq take_bit_nat_eq_self)
  have ent: "entry_ram E (mem s) (slot IDT_BASE idx)"
    using slot_in_tables(3) [OF _ idx] tab by (auto simp: entry_ram_def tables_ram_def)
  obtain b where s': "int31_0205 E s =
      set_cf E False (s\<lparr>mem := write_idt_gate E idx (reg_cx s) (reg_edx s) b (mem s)\<rparr>)"
    by (simp add: int31_0205_def Let_def wr_def idx_def)
  note W = write_idt_gate_bytes [OF ent, of "reg_cx s" "reg_edx s" b]
  define t where "t = s\<lparr>mem := write_idt_gate E idx (reg_cx s) (reg_edx s) b (mem s)\<rparr>"
  have fr': "frame_ok E t" and tab': "tables_ram E (mem t)"
    using fr tab write_idt_gate_bytes(7) [OF ent] by (simp_all add: frame_ok_def tables_ram_def t_def)
  note C = set_cf_tables [OF fr' tab']
  have rd: "mem_readb E (mem (set_cf E False t)) (slot IDT_BASE idx + k) =
      mem_readb E (mem t) (slot IDT_BASE idx + k)" if "k < 8" for k
    using C(1) slot_in_tables(3) [OF that idx] by blast
  have bl: "reg_bl (set_cf E False t) = reg_bl s" by (simp add: reg_bl_def t_def)
  have memt: "mem t = write_idt_gate E idx (reg_cx s) (reg_edx s) b (mem s)" by (simp add: t_def)
  note R = rd [of 0, simplified, unfolded memt W] rd [of 1, simplified, unfolded memt W]
    rd [of 2, simplified, unfolded memt W] rd [of 3, simplified, unfolded memt W]
    rd [of 6, simplified, unfolded memt W] rd [of 7, simplified, unfolded memt W]
  show "\<not> carry E (int31_0205 E s)" using C(4) by (simp add: s' t_def)
  show "reg_cx (int31_0204 E (int31_0205 E s)) = reg_cx s"
    by (simp add: s' t_def [symmetric] int31_0204_def Let_def bl idx_def [symmetric] R u16_of_bytes)
  show "reg_edx (int31_0204 E (int31_0205 E s)) = reg_edx s"
    by (simp add: s' t_def [symmetric] int31_0204_def Let_def bl idx_def [symmetric] R u32_of_bytes)
qed

text \<open>Installing a descriptor in a free LDT slot.\<close>

lemma ldt_install_regs [simp]:
  "reg_ax (ldt_install E i b l a s) = reg_ax s" "reg_bx (ldt_install E i b l a s) = reg_bx s"
  "reg_cx (ldt_install E i b l a s) = reg_cx s" "reg_dx (ldt_install E i b l a s) = reg_dx s"
  "cf_addr (ldt_install E i b l a s) = cf_addr s" "s_client_cpl (ldt_install E i b l a s) = s_client_cpl s"
  "s_seg2desc_cache (ldt_install E i b l a s) = s_seg2desc_cache s"
  "s_ldt_in_use (ldt_install E i b l a s) = ldt_set i True (s_ldt_in_use s)"
  "mem (ldt_install E i b l a s) = write_descriptor E (slot LDT_BASE i) b l a False (mem s)"
  by (simp_all add: ldt_install_def Let_def wr_def reg_defs cf_addr_def write_ldt_descriptor_def)

lemma slot_apart:
  assumes "k < 8" and "l < 8" and "i \<noteq> j"
  shows "slot LDT_BASE i + k \<noteq> slot LDT_BASE j + l"
proof
  assume "slot LDT_BASE i + k = slot LDT_BASE j + l"
  then have "unat i * 8 + unat k = unat j * 8 + unat l"
    using unat_slot [OF table_bases(3) assms(1), of i] unat_slot [OF table_bases(3) assms(2), of j]
    by simp
  moreover have "unat k < 8" "unat l < 8" using assms(1,2) by (simp_all add: word_less_nat_alt)
  ultimately have "unat i = unat j" by linarith
  with assms(3) show False by (simp add: word_unat_eq_iff)
qed

lemma ldt_install_spec:
  assumes fr: "frame_ok E s" and tab: "tables_ram E (mem s)" and i: "unat i < 256"
  shows "desc_base E (mem (ldt_install E i base limit access s)) (slot LDT_BASE i) = base"
    and "GetLimit E (mem (ldt_install E i base limit access s)) (slot LDT_BASE i) = take_bit 20 limit"
    and "frame_ok E (ldt_install E i base limit access s)"
    and "tables_ram E (mem (ldt_install E i base limit access s))"
    and "\<lbrakk>is_ram E (mem s) a; \<And>k. k < 8 \<Longrightarrow> a \<noteq> slot LDT_BASE i + k\<rbrakk> \<Longrightarrow>
      mem_readb E (mem (ldt_install E i base limit access s)) a = mem_readb E (mem s) a"
proof -
  have ent: "entry_ram E (mem s) (slot LDT_BASE i)"
    using slot_in_tables(1) [OF _ i] tab by (auto simp: entry_ram_def tables_ram_def)
  show "desc_base E (mem (ldt_install E i base limit access s)) (slot LDT_BASE i) = base"
    "GetLimit E (mem (ldt_install E i base limit access s)) (slot LDT_BASE i) = take_bit 20 limit"
    using write_descriptor_entry [OF ent] by simp_all
  show "frame_ok E (ldt_install E i base limit access s)"
    "tables_ram E (mem (ldt_install E i base limit access s))"
    using fr tab write_descriptor_ram [OF ent] by (simp_all add: frame_ok_def tables_ram_def)
  show "mem_readb E (mem (ldt_install E i base limit access s)) a = mem_readb E (mem s) a"
    if "is_ram E (mem s) a" "\<And>k. k < 8 \<Longrightarrow> a \<noteq> slot LDT_BASE i + k"
    using write_descriptor_other [OF ent that] by simp
qed

lemma entry_cong:
  assumes "\<And>k. k < 8 \<Longrightarrow> mem_readb E m' (p + k) = mem_readb E m (p + k)"
  shows "desc_base E m' p = desc_base E m p" and "GetLimit E m' p = GetLimit E m p"
  using assms [of 0] by (simp_all add: desc_base_def GetLimit_def desc_limit_def assms word_less_nat_alt)

text \<open>The loop of AX=0000h.\<close>

lemma ldt_install_loop:
  fixes access :: u8
  assumes fr: "frame_ok E s" and tab: "tables_ram E (mem s)" and len: "length (s_ldt_in_use s) = 32"
    and st: "1 \<le> unat start" "unat start + n \<le> 256"
  defines "F \<equiv> \<lambda>n. fold (\<lambda>i. ldt_install E (start + of_nat i) 0 0xFFFF access) [0 ..< n] s"
  shows "frame_ok E (F n) \<and> tables_ram E (mem (F n)) \<and> length (s_ldt_in_use (F n)) = 32
    \<and> ldt_used (s_ldt_in_use (F n)) = ldt_used (s_ldt_in_use s) \<union> {unat start ..< unat start + n}
    \<and> s_client_cpl (F n) = s_client_cpl s
    \<and> (\<forall>i < n. desc_base E (mem (F n)) (slot LDT_BASE (start + of_nat i)) = 0
        \<and> GetLimit E (mem (F n)) (slot LDT_BASE (start + of_nat i)) = 0xFFFF)
    \<and> (\<forall>j. unat j < 256 \<longrightarrow> unat j \<notin> {unat start ..< unat start + n} \<longrightarrow>
        (\<forall>k < 8. mem_readb E (mem (F n)) (slot LDT_BASE j + k) = mem_readb E (mem s) (slot LDT_BASE j + k)))"
  using st(2)
proof (induction n)
  case 0
  then show ?case using fr tab len by (simp add: F_def)
next
  case (Suc n)
  define j where "j = start + of_nat n"
  have j: "unat j = unat start + n"
  proof -
    have eq: "j = of_nat (unat start + n)" by (simp add: j_def)
    show ?thesis unfolding eq by (rule unat_of_nat_u16) (use Suc.prems in simp)
  qed
  then have j256: "unat j < 256" "1 \<le> unat j" using Suc.prems st by simp_all
  have step: "F (Suc n) = ldt_install E j 0 0xFFFF access (F n)" by (simp add: F_def j_def)
  from Suc have IH: "frame_ok E (F n)" "tables_ram E (mem (F n))" "length (s_ldt_in_use (F n)) = 32"
    "ldt_used (s_ldt_in_use (F n)) = ldt_used (s_ldt_in_use s) \<union> {unat start ..< unat start + n}"
    "s_client_cpl (F n) = s_client_cpl s"
    and IHd: "\<And>i. i < n \<Longrightarrow> desc_base E (mem (F n)) (slot LDT_BASE (start + of_nat i)) = 0
        \<and> GetLimit E (mem (F n)) (slot LDT_BASE (start + of_nat i)) = 0xFFFF"
    and IHo: "\<And>i k. \<lbrakk>unat i < 256; unat i \<notin> {unat start ..< unat start + n}; k < 8\<rbrakk> \<Longrightarrow>
      mem_readb E (mem (F n)) (slot LDT_BASE i + k) = mem_readb E (mem s) (slot LDT_BASE i + k)"
    by auto
  note I = ldt_install_spec [OF IH(1,2) j256(1), where base = 0 and limit = "0xFFFF" and access = access,
      folded step]
  have other: "mem_readb E (mem (F (Suc n))) (slot LDT_BASE i + k) = mem_readb E (mem (F n)) (slot LDT_BASE i + k)"
    if "unat i < 256" "i \<noteq> j" "k < 8" for i k
    using I(5) [of "slot LDT_BASE i + k"] slot_in_tables(1) [OF that(3,1)] slot_apart [OF that(3) _ that(2)] IH(2)
    by (auto simp: tables_ram_def)
  have "ldt_used (s_ldt_in_use (F (Suc n))) = ldt_used (s_ldt_in_use s) \<union> {unat start ..< unat start + Suc n}"
    using ldt_used_set [OF IH(3) j256(2,1), of True] IH(4) j by (auto simp: step)
  moreover have "desc_base E (mem (F (Suc n))) (slot LDT_BASE (start + of_nat i)) = 0
      \<and> GetLimit E (mem (F (Suc n))) (slot LDT_BASE (start + of_nat i)) = 0xFFFF" if i: "i < Suc n" for i
  proof (cases "i = n")
    case True
    then show ?thesis using I(1,2) by (simp add: j_def)
  next
    case False
    have eq: "start + of_nat i = (of_nat (unat start + i) :: u16)" by simp
    have ui: "unat (start + of_nat i) = unat start + i"
      unfolding eq by (rule unat_of_nat_u16) (use Suc.prems i in simp)
    then have "start + of_nat i \<noteq> j" "unat (start + of_nat i) < 256"
      using j False i Suc.prems by auto
    then show ?thesis using entry_cong [of "mem (F (Suc n))" "slot LDT_BASE (start + of_nat i)" "mem (F n)"]
        other IHd [of i] i False by auto
  qed
  moreover have "mem_readb E (mem (F (Suc n))) (slot LDT_BASE i + k) = mem_readb E (mem s) (slot LDT_BASE i + k)"
    if "unat i < 256" "unat i \<notin> {unat start ..< unat start + Suc n}" "k < 8" for i k
  proof -
    have "i \<noteq> j" "unat i \<notin> {unat start ..< unat start + n}" using that(2) j by auto
    then show ?thesis using other [OF that(1) _ that(3)] IHo [OF that(1) _ that(3)] by simp
  qed
  ultimately show ?case using I(3,4) IH(3,5) by (auto simp: step)
qed

lemma int31_0000_success:
  assumes fr: "frame_ok E s" and tab: "tables_ram E (mem s)" and len: "length (s_ldt_in_use s) = 32"
    and cnt: "0 < reg_cx s" "reg_cx s < LDT_COUNT" and run: "ldt_run (s_ldt_in_use s) (unat (reg_cx s)) r"
  obtains start where "ldt_run (s_ldt_in_use s) (unat (reg_cx s)) (unat start)" "unat start \<le> r"
    and "\<not> carry E (int31_0000 E s)"
    and "reg_ax (int31_0000 E s) = ldt_selector start (s_client_cpl s)"
    and "ldt_used (s_ldt_in_use (int31_0000 E s)) =
      ldt_used (s_ldt_in_use s) \<union> {unat start ..< unat start + unat (reg_cx s)}"
    and "\<And>i. i < unat (reg_cx s) \<Longrightarrow>
      desc_base E (mem (int31_0000 E s)) (slot LDT_BASE (start + of_nat i)) = 0 \<and>
      GetLimit E (mem (int31_0000 E s)) (slot LDT_BASE (start + of_nat i)) = 0xFFFF"
    and "\<And>j k. \<lbrakk>unat j < 256; unat j \<notin> {unat start ..< unat start + unat (reg_cx s)}; k < 8\<rbrakk> \<Longrightarrow>
      mem_readb E (mem (int31_0000 E s)) (slot LDT_BASE j + k) = mem_readb E (mem s) (slot LDT_BASE j + k)"
proof -
  define start where "start = ldt_find_run (s_ldt_in_use s) (reg_cx s)"
  have "1 \<le> unat (reg_cx s)" using cnt(1) by (simp add: word_less_nat_alt)
  then have st: "start \<noteq> 0" "ldt_run (s_ldt_in_use s) (unat (reg_cx s)) (unat start)" "unat start \<le> r"
    using ldt_find_run_spec [of "reg_cx s" start "s_ldt_in_use s"] run by (auto simp: start_def)
  define t where "t = fold (\<lambda>i. ldt_install E (start + of_nat i) 0 0xFFFF (client_access (s_client_cpl s)))
    [0 ..< unat (reg_cx s)] s"
  have L: "frame_ok E t" "tables_ram E (mem t)"
    "ldt_used (s_ldt_in_use t) = ldt_used (s_ldt_in_use s) \<union> {unat start ..< unat start + unat (reg_cx s)}"
    "s_client_cpl t = s_client_cpl s"
    "\<And>i. i < unat (reg_cx s) \<Longrightarrow> desc_base E (mem t) (slot LDT_BASE (start + of_nat i)) = 0
        \<and> GetLimit E (mem t) (slot LDT_BASE (start + of_nat i)) = 0xFFFF"
    "\<And>j k. \<lbrakk>unat j < 256; unat j \<notin> {unat start ..< unat start + unat (reg_cx s)}; k < 8\<rbrakk> \<Longrightarrow>
      mem_readb E (mem t) (slot LDT_BASE j + k) = mem_readb E (mem s) (slot LDT_BASE j + k)"
    using ldt_install_loop [OF fr tab len, of start "unat (reg_cx s)" "client_access (s_client_cpl s)", folded t_def]
      st(2) by (auto simp: ldt_run_def)
  have s': "int31_0000 E s = set_cf E False (set_ax (ldt_selector start (s_client_cpl t)) t)" (is "_ = set_cf E False ?t")
    using cnt st(1) by (simp add: int31_0000_def Let_def start_def t_def)
  have fr': "frame_ok E ?t" and tab': "tables_ram E (mem ?t)" using L(1,2) by (simp_all add: frame_ok_def)
  note C = set_cf_tables [OF fr' tab']
  have rd: "mem_readb E (mem (int31_0000 E s)) (slot LDT_BASE j + k) = mem_readb E (mem t) (slot LDT_BASE j + k)"
    if "unat j < 256" "k < 8" for j k
    using C(1) slot_in_tables(1) [OF that(2,1)] by (simp add: s')
  have bound: "unat (start + of_nat i) < 256" if "i < unat (reg_cx s)" for i
  proof -
    have eq: "start + of_nat i = (of_nat (unat start + i) :: u16)" by simp
    show ?thesis unfolding eq using st(2) that by (subst unat_of_nat_u16) (auto simp: ldt_run_def)
  qed
  show ?thesis
  proof (rule that [OF st(2,3)])
    show "\<not> carry E (int31_0000 E s)" using C(4) by (simp add: s')
    show "reg_ax (int31_0000 E s) = ldt_selector start (s_client_cpl s)" using L(4) by (simp add: s')
    show "ldt_used (s_ldt_in_use (int31_0000 E s)) =
      ldt_used (s_ldt_in_use s) \<union> {unat start ..< unat start + unat (reg_cx s)}"
      using L(3) by (simp add: s' set_cf_def Let_def set_ax_def)
  qed (use rd bound L(5,6) entry_cong in \<open>metis\<close>)+
qed

text \<open>A single slot installed and reported, the common tail of AX=0002h and 0100h.\<close>

lemma ldt_install_ok:
  assumes fr: "frame_ok E s" and tab: "tables_ram E (mem s)" and i: "unat i < 256"
    and t: "mem t = mem (ldt_install E i base limit access s)" "cf_addr t = cf_addr s"
  shows "\<not> carry E (set_cf E False t)"
    and "desc_base E (mem (set_cf E False t)) (slot LDT_BASE i) = base"
    and "GetLimit E (mem (set_cf E False t)) (slot LDT_BASE i) = take_bit 20 limit"
    and "frame_ok E (set_cf E False t)" and "tables_ram E (mem (set_cf E False t))"
proof -
  note I = ldt_install_spec [OF fr tab i, where base = base and limit = limit and access = access]
  have fr': "frame_ok E t" and tab': "tables_ram E (mem t)"
    using I(3,4) t by (simp_all add: frame_ok_def del: ldt_install_regs(9))
  note C = set_cf_tables [OF fr' tab']
  have "mem_readb E (mem (set_cf E False t)) (slot LDT_BASE i + k) = mem_readb E (mem t) (slot LDT_BASE i + k)"
    if "k < 8" for k
    using C(1) slot_in_tables(1) [OF that i] by blast
  note cong = entry_cong [OF this]
  show "\<not> carry E (set_cf E False t)" "frame_ok E (set_cf E False t)"
    "tables_ram E (mem (set_cf E False t))"
    using C(2-4) by simp_all
  show "desc_base E (mem (set_cf E False t)) (slot LDT_BASE i) = base"
    "GetLimit E (mem (set_cf E False t)) (slot LDT_BASE i) = take_bit 20 limit"
    using cong I(1,2) t(1) by simp_all
qed

lemma int31_0002_new:
  assumes fr: "frame_ok E s" and tab: "tables_ram E (mem s)" and len: "length (s_ldt_in_use s) = 32"
    and new: "s_seg2desc_cache s (reg_bx s) = 0" and free: "ldt_used (s_ldt_in_use s) \<noteq> {1 ..< 256}"
  obtains idx where "unat idx \<notin> ldt_used (s_ldt_in_use s)" "1 \<le> unat idx" "unat idx < 256"
    and "ldt_used (s_ldt_in_use (int31_0002 E s)) = insert (unat idx) (ldt_used (s_ldt_in_use s))"
    and "reg_ax (int31_0002 E s) = ldt_selector idx (s_client_cpl s)"
    and "\<not> carry E (int31_0002 E s)"
    and "desc_base E (mem (int31_0002 E s)) (slot LDT_BASE idx) = seg_lin (reg_bx s)"
    and "GetLimit E (mem (int31_0002 E s)) (slot LDT_BASE idx) = 0xFFFF"
    and "s_seg2desc_cache (int31_0002 E s) = (s_seg2desc_cache s)(reg_bx s := idx)"
    and "s_client_cpl (int31_0002 E s) = s_client_cpl s" "reg_bx (int31_0002 E s) = reg_bx s"
    and "idx \<noteq> 0"
proof -
  define idx where "idx = ldt_find_run (s_ldt_in_use s) 1"
  obtain bm' where acq: "ldt_acquire (s_ldt_in_use s) = Some (unat idx, bm')" and idx0: "idx \<noteq> 0"
    using ldt_pool.acquire_fails [OF len] free
    by (cases "ldt_acquire (s_ldt_in_use s)") (auto simp: ldt_acquire_def Let_def idx_def split: if_splits)
  have bm': "bm' = ldt_set idx True (s_ldt_in_use s)"
    using acq by (auto simp: ldt_acquire_def Let_def idx_def split: if_splits)
  note L = ldt_pool.acquire_live [OF len acq]
  define t where "t = set_ax (ldt_selector idx (s_client_cpl s))
    ((ldt_install E idx (seg_lin (reg_bx s)) 0xFFFF (client_access (s_client_cpl s)) s)
      \<lparr>s_seg2desc_cache := (s_seg2desc_cache s)(reg_bx s := idx)\<rparr>)"
  have s': "int31_0002 E s = set_cf E False t"
    using new idx0 by (simp add: int31_0002_def Let_def t_def idx_def)
  have i: "unat idx < 256" using L by auto
  note T = ldt_install_ok [OF fr tab i, of t "seg_lin (reg_bx s)" "0xFFFF" "client_access (s_client_cpl s)"]
  have t: "mem t = mem (ldt_install E idx (seg_lin (reg_bx s)) 0xFFFF (client_access (s_client_cpl s)) s)"
    "cf_addr t = cf_addr s" by (simp_all add: t_def cf_addr_def reg_sp_def set_ax_def ldt_install_def wr_def Let_def)
  show ?thesis
  proof (rule that)
    show "unat idx \<notin> ldt_used (s_ldt_in_use s)" "1 \<le> unat idx" "unat idx < 256" "idx \<noteq> 0"
      using L idx0 by auto
    show "ldt_used (s_ldt_in_use (int31_0002 E s)) = insert (unat idx) (ldt_used (s_ldt_in_use s))"
      using L by (simp add: s' t_def bm' set_cf_def Let_def set_ax_def)
    show "desc_base E (mem (int31_0002 E s)) (slot LDT_BASE idx) = seg_lin (reg_bx s)"
      "GetLimit E (mem (int31_0002 E s)) (slot LDT_BASE idx) = 0xFFFF" "\<not> carry E (int31_0002 E s)"
      using T [OF t] by (simp_all add: s')
    show "reg_ax (int31_0002 E s) = ldt_selector idx (s_client_cpl s)" by (simp add: s' t_def)
    show "s_seg2desc_cache (int31_0002 E s) = (s_seg2desc_cache s)(reg_bx s := idx)"
      "s_client_cpl (int31_0002 E s) = s_client_cpl s" "reg_bx (int31_0002 E s) = reg_bx s"
      by (simp_all add: s' t_def set_cf_def Let_def set_ax_def ldt_install_def wr_def reg_bx_def)
  qed
qed

lemma limit_paragraphs:
  assumes "n \<noteq> (0 :: u16)"
  shows "unat (take_bit 20 (push_bit 4 (ucast n :: u32) - 1)) = unat n * 16 - 1"
proof -
  have n: "0 < unat n" "unat n < 65536" using assms unat_u16_less [of n] by (simp_all add: unat_gt_0)
  have "push_bit 4 (ucast n :: u32) = of_nat (unat n * 16)" by (simp add: push_bit_eq_mult)
  then have "push_bit 4 (ucast n :: u32) - 1 = of_nat (unat n * 16 - 1)" using n by (simp add: of_nat_diff)
  moreover have "unat (of_nat (unat n * 16 - 1) :: u32) = unat n * 16 - 1"
    by (rule unat_of_nat_u32) (use n in simp)
  ultimately show ?thesis using n by (simp add: unsigned_take_bit_eq take_bit_nat_eq_self)
qed

lemma int31_0100_success:
  assumes fr: "frame_ok E s" and tab: "tables_ram E (mem s)" and len: "length (s_ldt_in_use s) = 32"
    and free: "ldt_used (s_ldt_in_use s) \<noteq> {1 ..< 256}" and ini: "s_mcb_initialised s"
    and chain: "mcb_chain E (mem s) (xs @ b # ys)" and bx: "reg_bx s \<noteq> 0"
    and fit: "\<And>x. x \<in> set xs \<Longrightarrow> \<not> fits (unat (reg_bx s)) x" "fits (unat (reg_bx s)) b"
  obtains idx s' where "int31_0100 E s = Some s'" "\<not> carry E s'"
    and "reg_ax s' = of_nat (0x2001 + span xs)" "reg_dx s' = ldt_selector idx (s_client_cpl s)"
    and "unat idx \<notin> ldt_used (s_ldt_in_use s)"
    and "ldt_used (s_ldt_in_use s') = insert (unat idx) (ldt_used (s_ldt_in_use s))"
    and "desc_base E (mem s') (slot LDT_BASE idx) = seg_lin (reg_ax s')"
    and "unat (GetLimit E (mem s') (slot LDT_BASE idx)) = unat (reg_bx s) * 16 - 1"
proof -
  obtain lg m1 where al: "mcb_allocate E (reg_bx s) (True, mem s) =
      Some ((of_nat (0x2001 + span xs), lg), (True, m1))"
    and hd: "only_headers E (mem s) m1 {of_nat (0x2000 + span xs), of_nat (0x2001 + span xs + unat (reg_bx s))}"
    using mcb_allocate_first_fit [OF chain fit] by blast
  define sg where "sg = (of_nat (0x2001 + span xs) :: u16)"
  have sg0: "sg \<noteq> 0"
  proof -
    have "unat sg = 0x2001 + span xs"
      unfolding sg_def by (rule unat_of_nat_u16) (use mcb_chain_middle(3) [OF chain] in simp)
    then show ?thesis by auto
  qed
  define idx where "idx = ldt_find_run (s_ldt_in_use s) 1"
  obtain bm' where acq: "ldt_acquire (s_ldt_in_use s) = Some (unat idx, bm')" and idx0: "idx \<noteq> 0"
    using ldt_pool.acquire_fails [OF len] free
    by (cases "ldt_acquire (s_ldt_in_use s)") (auto simp: ldt_acquire_def Let_def idx_def split: if_splits)
  have bm': "bm' = ldt_set idx True (s_ldt_in_use s)"
    using acq by (auto simp: ldt_acquire_def Let_def idx_def split: if_splits)
  note L = ldt_pool.acquire_live [OF len acq]
  define u where "u = s\<lparr>mem := m1, s_mcb_initialised := True\<rparr>"
  define lim where "lim = push_bit 4 (ucast (reg_bx s) :: u32) - 1"
  define t where "t = set_dx (ldt_selector idx (s_client_cpl s)) (set_ax sg
    ((ldt_install E idx (seg_lin sg) lim (client_access (s_client_cpl s)) u)
      \<lparr>s_seg2desc_cache := (s_seg2desc_cache s)(sg := idx)\<rparr>))"
  have s': "int31_0100 E s = Some (set_cf E False t)"
    using al bx sg0 idx0 ini unfolding sg_def [symmetric]
    by (simp add: int31_0100_def Let_def t_def u_def idx_def lim_def reg_bx_def)
  have cfu: "cf_addr u = cf_addr s" by (simp add: u_def cf_addr_def reg_sp_def)
  have fru: "frame_ok E u" and tabu: "tables_ram E (mem u)"
    using ram_frame [OF fr tab _ cfu] hd by (auto simp: only_headers_def u_def)
  have i: "unat idx < 256" using L by auto
  have t: "mem t = mem (ldt_install E idx (seg_lin sg) lim (client_access (s_client_cpl s)) u)"
    "cf_addr t = cf_addr u"
    by (simp_all add: t_def cf_addr_def reg_sp_def set_ax_def set_dx_def ldt_install_def wr_def Let_def)
  note T = ldt_install_ok [OF fru tabu i t]
  show ?thesis
  proof (rule that [OF s'])
    show "\<not> carry E (set_cf E False t)" by (rule T)
    show "reg_ax (set_cf E False t) = of_nat (0x2001 + span xs)"
      "reg_dx (set_cf E False t) = ldt_selector idx (s_client_cpl s)" by (simp_all add: t_def sg_def)
    show "unat idx \<notin> ldt_used (s_ldt_in_use s)" using L by blast
    show "ldt_used (s_ldt_in_use (set_cf E False t)) = insert (unat idx) (ldt_used (s_ldt_in_use s))"
      using L by (simp add: t_def u_def bm' set_cf_def Let_def set_ax_def set_dx_def)
    show "desc_base E (mem (set_cf E False t)) (slot LDT_BASE idx) = seg_lin (reg_ax (set_cf E False t))"
      using T(2) by (simp add: t_def)
    show "unat (GetLimit E (mem (set_cf E False t)) (slot LDT_BASE idx)) = unat (reg_bx s) * 16 - 1"
      using T(3) limit_paragraphs [OF bx] by (simp add: lim_def)
  qed
qed

text \<open>AX=0102h after the MCB has been resized: the limit written back is DX*16-1, truncated to 20
  bits.\<close>

lemma int31_0102_limit:
  assumes fr: "frame_ok E s" and tab: "tables_ram E (mem s)" and sel: "reg_bx s AND 4 \<noteq> 0"
    and val: "selector_is_valid (reg_bx s)" and used: "ldt_bit (s_ldt_in_use s) (drop_bit 3 (reg_bx s))"
    and res: "mcb_resize E (ucast (drop_bit 4 (desc_base E (mem s) (sel_entry (reg_bx s)))))
      (reg_dx s) (s_mcb_initialised s, mem s) = ((reg_dx s, lg), m1)"
    and ram: "\<And>a. is_ram E m1 a = is_ram E (mem s) a"
  shows "\<not> carry E (int31_0102 E s)"
    and "desc_limit E (mem (int31_0102 E s)) (sel_entry (reg_bx s)) =
      take_bit 20 (push_bit 4 (ucast (reg_dx s)) - 1)"
proof -
  define p where "p = sel_entry (reg_bx s)"
  have p: "slot LDT_BASE (drop_bit 3 (reg_bx s)) = p"
    using sel by (simp add: p_def sel_entry_def selector_table_base_def)
  define lim where "lim = push_bit 4 (ucast (reg_dx s) :: u32) - 1"
  define fl where "fl = (mem_readb E m1 (p + 6) AND 0xF0) OR ucast (take_bit 4 (drop_bit 16 lim))"
  define m' where "m' = mem_writeb E (p + 6) fl (mem_writeb E (p + 1) (ucast (drop_bit 8 lim)) (mem_writeb E p (ucast lim) m1))"
  have tab1: "tables_ram E m1" using tab ram by (simp add: tables_ram_def)
  note ent = tables_entry [OF tab1 val, folded p_def]
  have "take_bit 4 (ucast (take_bit 4 (drop_bit 16 lim)) :: u8) = ucast (take_bit 4 (drop_bit 16 lim))"
    by (rule bit_word_eqI) (auto simp: bit_simps)
  then have fl: "fl AND 0x0F = ucast (take_bit 4 (drop_bit 16 lim))"
    unfolding and_numeral_mask fl_def by (simp add: take_bit_or take_bit_and)
  note W = write_limit_bytes [OF ent fl refl, folded m'_def]
  have fread: "mem_readb E (mem_writeb E (p + 1) (ucast (drop_bit 8 lim)) (mem_writeb E p (ucast lim) m1)) (p + 6)
      = mem_readb E m1 (p + 6)"
    using entry_ramD [OF ent] by (simp add: mem_simps)
  have s': "int31_0102 E s = set_cf E False (s\<lparr>mem := m'\<rparr>)"
    using sel val used res fread unfolding int31_0102_def p_def [symmetric]
    by (simp add: Let_def p and_numeral_mask lim_def [symmetric] fl_def m'_def) (simp add: wr_def)
  have fr': "frame_ok E (s\<lparr>mem := m'\<rparr>)" and tab': "tables_ram E (mem (s\<lparr>mem := m'\<rparr>))"
    using ram_frame [OF fr tab, of "s\<lparr>mem := m'\<rparr>"] W(3) ram by simp_all
  show "\<not> carry E (int31_0102 E s)" using set_cf_tables(4) [OF fr' tab'] by (simp add: s')
  show "desc_limit E (mem (int31_0102 E s)) (sel_entry (reg_bx s)) =
      take_bit 20 (push_bit 4 (ucast (reg_dx s)) - 1)"
    using set_cf_entry(2) [OF fr' tab' val] W(1) by (simp add: s' p_def lim_def)
qed

lemma int31_000A_success:
  assumes fr: "frame_ok E s" and tab: "tables_ram E (mem s)" and len: "length (s_ldt_in_use s) = 32"
    and val: "selector_is_valid (reg_bx s)" and free: "ldt_used (s_ldt_in_use s) \<noteq> {1 ..< 256}"
  obtains idx where "unat idx \<notin> ldt_used (s_ldt_in_use s)"
    and "reg_ax (int31_000A E s) = ldt_selector idx (s_client_cpl s)" "\<not> carry E (int31_000A E s)"
    and "desc_base E (mem (int31_000A E s)) (slot LDT_BASE idx) = desc_base E (mem s) (sel_entry (reg_bx s))"
    and "GetLimit E (mem (int31_000A E s)) (slot LDT_BASE idx) = take_bit 20 (desc_limit E (mem s) (sel_entry (reg_bx s)))"
proof -
  define idx where "idx = ldt_find_run (s_ldt_in_use s) 1"
  obtain bm' where acq: "ldt_acquire (s_ldt_in_use s) = Some (unat idx, bm')" and idx0: "idx \<noteq> 0"
    using ldt_pool.acquire_fails [OF len] free
    by (cases "ldt_acquire (s_ldt_in_use s)") (auto simp: ldt_acquire_def Let_def idx_def split: if_splits)
  note L = ldt_pool.acquire_live [OF len acq]
  define t where "t = set_ax (ldt_selector idx (s_client_cpl s))
    (ldt_install E idx (desc_base E (mem s) (sel_entry (reg_bx s))) (desc_limit E (mem s) (sel_entry (reg_bx s)))
      (client_access (s_client_cpl s)) s)"
  have s': "int31_000A E s = set_cf E False t"
    using val idx0 by (simp add: int31_000A_def Let_def t_def idx_def)
  have i: "unat idx < 256" using L by auto
  have t: "mem t = mem (ldt_install E idx (desc_base E (mem s) (sel_entry (reg_bx s)))
      (desc_limit E (mem s) (sel_entry (reg_bx s))) (client_access (s_client_cpl s)) s)"
    "cf_addr t = cf_addr s" by (simp_all add: t_def)
  note T = ldt_install_ok [OF fr tab i t]
  show ?thesis
    by (rule that [of idx]) (use L T in \<open>simp_all add: s'\<close>, simp add: t_def)
qed

end

lemma desc_limit_20: "take_bit 20 (desc_limit E m p) = desc_limit E m p"
  unfolding desc_limit_def and_numeral_mask
  by (rule bit_word_eqI) (auto simp: bit_simps dest: bit_imp_le_length)

lemma page_limit_larger:
  fixes v :: u32
  assumes "take_bit 20 v = v"
  shows "v < push_bit 12 v OR 0xFFF"
proof (cases "v = 0")
  case False
  have v: "unat v < 2 ^ 20"
    using assms by (metis take_bit_nat_less_exp unsigned_take_bit_eq)
  have "unat (push_bit 12 v) = unat v * 4096"
    using v by (simp add: push_bit_eq_mult unat_word_ariths)
  then have "v < push_bit 12 v" using False by (simp add: word_less_nat_alt unat_gt_0)
  also have "push_bit 12 v \<le> push_bit 12 v OR 0xFFF" by (rule le_word_or2)
  finally show ?thesis .
qed simp

section \<open>A concrete client\<close>

text \<open>A ring-3 client on a flat memory, with its stack at 30000h and the arena of a 16 MB machine.\<close>

definition client :: "u32 \<Rightarrow> u32 \<Rightarrow> u32 \<Rightarrow> u32 \<Rightarrow> (u32 \<Rightarrow> u8) dpmi" where
  "client ax bx cx dx = \<lparr> mem = (\<lambda>_. 0), reg_eax = ax, reg_ebx = bx, reg_ecx = cx, reg_edx = dx,
     reg_esi = 0, reg_edi = 0, reg_ebp = 0, reg_esp = 0x100, reg_eip = 0,
     seg_val = (\<lambda>_. 0), seg_phys = (\<lambda>_. 0x30000), cpu_pmode = True, stack_big = False,
     code_big = False, reg_flags = 0x202, cpu_cpl = 0, cpu_cr0 = 0, s_int_gate_bits32 = False, s_mcb_initialised = True,
     s_pm = \<lparr>s_pm_busy = [], s_pm_initialised = True, s_pm_end = 0x1000000\<rparr>,
     s_ldt_in_use = replicate 32 0, s_seg2desc_cache = (\<lambda>_. 0), s_client_cpl = 3,
     s_pm_exc = replicate 32 \<lparr>exc_sel = 0, exc_off = 0\<rparr>, s_pm_exc_cb32_off = replicate 32 0,
     s_rm_callbacks = [], s_noop_retf_ptr = 0, s_virtual_if = True \<rparr>"

text \<open>A client with one DOS block of 16 paragraphs at segment 2001h, reached through LDT slot 1.\<close>

definition block_client :: "u32 \<Rightarrow> u32 \<Rightarrow> u32 \<Rightarrow> (u32 \<Rightarrow> u8) dpmi" where
  "block_client bx cx dx = (client 0 bx cx dx)\<lparr>
     mem := (\<lambda>_. 0)(0x20000 := 0x4D, 0x20001 := 0, 0x20002 := 1, 0x20003 := 16, 0x20004 := 0,
              0x20110 := 0x5A, 0x20113 := 0xEE, 0x20114 := 0x7F,
              0x10400A := 0x10, 0x10400C := 2),
     s_ldt_in_use := 2 # replicate 31 0\<rparr>"

lemma client_frame: "cf_addr (client ax bx cx dx) = 0x30104"
  by (simp add: client_def cf_addr_def reg_sp_def lo16_def)

lemma client_ok:
  "frame_ok flat (client ax bx cx dx)" "tables_ram flat (mem (client ax bx cx dx))"
  "length (s_ldt_in_use (client ax bx cx dx)) = 32"
  "not_loaded 0xF (client ax bx cx dx)"
  by (simp_all add: frame_ok_def tables_ram_def client_frame) (simp_all add: client_def not_loaded_def)

lemma client_selector: "selector_is_valid 0xF" "drop_bit 3 (0xF :: u16) = 1"
  by (simp_all add: selector_is_valid_def LDT_COUNT_def word_le_nat_alt)

lemma client_bitmap: "\<not> ldt_bit (replicate 32 0) i" if "unat i < 256" for i
  using that by (simp add: ldt_bit_iff)

lemma client_regs:
  "reg_bx (client ax bx cx dx) = ucast bx" "reg_cx (client ax bx cx dx) = ucast cx"
  "reg_dx (client ax bx cx dx) = ucast dx"
  by (simp_all add: client_def reg_defs lo16_def)

section \<open>Properties\<close>

text \<open>Set and get segment base. For every selector the host accepts that is not loaded in a data
  segment register, AX=0007h reports success, a following AX=0006h returns the base in CX:DX that was
  set, and no byte of the descriptor tables other than the entry's four base bytes changes.\<close>

theorem int31_base_roundtrip:
  assumes "emu88_engine E" and "frame_ok E s" and "tables_ram E (mem s)"
    and "selector_is_valid (reg_bx s)" and "not_loaded (reg_bx s) s"
  shows "\<not> carry E (int31_0007 E s)
    \<and> reg_cx (int31_0006 E (int31_0007 E s)) = reg_cx s
    \<and> reg_dx (int31_0006 E (int31_0007 E s)) = reg_dx s
    \<and> (\<forall>a. 0x100000 \<le> a \<longrightarrow> a < 0x105000 \<longrightarrow> a \<notin> (\<lambda>k. sel_entry (reg_bx s) + k) ` {2, 3, 4, 7} \<longrightarrow>
        mem_readb E (mem (int31_0007 E s)) a = mem_readb E (mem s) a)"
proof -
  note R = emu88_engine.int31_0007_entry [OF assms]
  have "(ucast (drop_bit 16 (push_bit 16 (ucast c :: u32) OR ucast d) AND 0xFFFF) :: u16) = c"
    "(ucast ((push_bit 16 (ucast c :: u32) OR ucast d) AND 0xFFFF) :: u16) = d" for c d :: u16
    unfolding and_numeral_mask
    by (rule bit_word_eqI; auto simp: bit_simps dest: bit_imp_le_length)+
  then show ?thesis using R assms(4) by (simp add: int31_0006_def Let_def)
qed

theorem int31_base_roundtrip_witness:
  "reg_cx (int31_0006 flat (int31_0007 flat (client 7 0xF 0x12 0x3456))) = 0x12
   \<and> reg_dx (int31_0006 flat (int31_0007 flat (client 7 0xF 0x12 0x3456))) = 0x3456"
  using int31_base_roundtrip [OF flat_ram.emu88_engine_axioms client_ok(1,2), of 7 "0xF" "0x12" "0x3456"]
  by (simp add: client_regs client_ok client_selector)

text \<open>Set segment limit. AX=0008h gives the descriptor the requested byte limit exactly when it is
  below 1 MB, and otherwise a page-granular limit that rounds the request up to the end of its page;
  the descriptor's base and every other table byte are kept.\<close>

theorem int31_set_limit:
  assumes "emu88_engine E" and "frame_ok E s" and "tables_ram E (mem s)"
    and "selector_is_valid (reg_bx s)" and "not_loaded (reg_bx s) s"
  defines "limit \<equiv> push_bit 16 (ucast (reg_cx s) :: u32) OR ucast (reg_dx s)"
  defines "p \<equiv> sel_entry (reg_bx s)"
  shows "\<not> carry E (int31_0008 E s)
    \<and> GetLimit E (mem (int31_0008 E s)) p = (if limit > 0xFFFFF then limit OR 0xFFF else limit)
    \<and> desc_base E (mem (int31_0008 E s)) p = desc_base E (mem s) p
    \<and> (\<forall>a. 0x100000 \<le> a \<longrightarrow> a < 0x105000 \<longrightarrow> a \<notin> {p, p + 1, p + 6} \<longrightarrow>
        mem_readb E (mem (int31_0008 E s)) a = mem_readb E (mem s) a)"
  using emu88_engine.int31_0008_entry [OF assms(1-5)] unfolding limit_def p_def by blast

theorem int31_set_limit_witness:
  "GetLimit flat (mem (int31_0008 flat (client 8 0xF 0x12 0x3456))) (sel_entry 0xF) = 0x123FFF"
  using int31_set_limit [OF flat_ram.emu88_engine_axioms client_ok(1,2), of 8 "0xF" "0x12" "0x3456"]
  by (simp add: client_regs client_ok client_selector)

text \<open>Protected-mode interrupt vectors. AX=0205h succeeds for every vector, and AX=0204h on the same
  vector then returns the selector and the 32-bit offset that were set.\<close>

theorem int31_vector_roundtrip:
  assumes "emu88_engine E" and "frame_ok E s" and "tables_ram E (mem s)"
  shows "\<not> carry E (int31_0205 E s)
    \<and> reg_cx (int31_0204 E (int31_0205 E s)) = reg_cx s
    \<and> reg_edx (int31_0204 E (int31_0205 E s)) = reg_edx s"
  using emu88_engine.int31_0205_0204 [OF assms] by blast

theorem int31_vector_roundtrip_witness:
  "reg_edx (int31_0204 flat (int31_0205 flat (client 0x205 0x21 0xF 0x12345678))) = 0x12345678"
  using int31_vector_roundtrip [OF flat_ram.emu88_engine_axioms client_ok(1,2), of "0x205" "0x21" "0xF" "0x12345678"]
  by (simp add: client_def)

text \<open>C9: Allocate LDT descriptors. When the table has a run of CX free slots, AX=0000h succeeds and
  returns the selector of the lowest such run (slot 0 is never used); exactly those slots become used,
  each new descriptor has base 0 and limit FFFFh, and the descriptors of all other slots keep their
  bytes.\<close>

theorem int31_allocate_descriptors:
  assumes "emu88_engine E" and "frame_ok E s" and "tables_ram E (mem s)"
    and "length (s_ldt_in_use s) = 32" and "0 < reg_cx s" and "reg_cx s < LDT_COUNT"
    and "ldt_run (s_ldt_in_use s) (unat (reg_cx s)) r"
  shows "\<exists>start. ldt_run (s_ldt_in_use s) (unat (reg_cx s)) (unat start) \<and> unat start \<le> r
    \<and> \<not> carry E (int31_0000 E s)
    \<and> reg_ax (int31_0000 E s) = ldt_selector start (s_client_cpl s)
    \<and> ldt_used (s_ldt_in_use (int31_0000 E s)) =
        ldt_used (s_ldt_in_use s) \<union> {unat start ..< unat start + unat (reg_cx s)}
    \<and> (\<forall>i < unat (reg_cx s).
        desc_base E (mem (int31_0000 E s)) (slot LDT_BASE (start + of_nat i)) = 0 \<and>
        GetLimit E (mem (int31_0000 E s)) (slot LDT_BASE (start + of_nat i)) = 0xFFFF)
    \<and> (\<forall>j k. unat j < 256 \<longrightarrow> unat j \<notin> {unat start ..< unat start + unat (reg_cx s)} \<longrightarrow> k < 8 \<longrightarrow>
        mem_readb E (mem (int31_0000 E s)) (slot LDT_BASE j + k) = mem_readb E (mem s) (slot LDT_BASE j + k))"
  by (rule emu88_engine.int31_0000_success [OF assms]) blast

theorem int31_allocate_descriptors_witness:
  "\<exists>start. unat start \<le> 1 \<and> reg_ax (int31_0000 flat (client 0 0 2 0)) = ldt_selector start 3
    \<and> \<not> carry flat (int31_0000 flat (client 0 0 2 0))"
proof -
  have "s_ldt_in_use (client 0 0 2 0) = replicate 32 0" by (simp add: client_def)
  then have run: "ldt_run (s_ldt_in_use (client 0 0 2 0)) (unat (reg_cx (client 0 0 2 0))) 1"
    by (auto simp: client_regs ldt_run_def less_2_cases_iff intro!: client_bitmap)
  have "s_client_cpl (client 0 0 2 0) = 3" by (simp add: client_def)
  then show ?thesis
    using int31_allocate_descriptors [OF flat_ram.emu88_engine_axioms client_ok(1-3) _ _ run]
    by (auto simp: client_regs LDT_COUNT_def)
qed

text \<open>Segment to descriptor. When BX has no alias yet and an LDT slot is free, AX=0002h returns the
  selector of a slot that was free, whose descriptor covers the 64 KB of real-mode segment BX; a second
  call with the same BX returns the same selector and uses no further slot.\<close>

theorem int31_segment_alias:
  assumes "emu88_engine E" and "frame_ok E s" and "tables_ram E (mem s)"
    and "length (s_ldt_in_use s) = 32" and "s_seg2desc_cache s (reg_bx s) = 0"
    and "ldt_used (s_ldt_in_use s) \<noteq> {1 ..< 256}"
  shows "\<exists>idx. unat idx \<notin> ldt_used (s_ldt_in_use s) \<and> \<not> carry E (int31_0002 E s)
    \<and> reg_ax (int31_0002 E s) = ldt_selector idx (s_client_cpl s)
    \<and> desc_base E (mem (int31_0002 E s)) (slot LDT_BASE idx) = seg_lin (reg_bx s)
    \<and> GetLimit E (mem (int31_0002 E s)) (slot LDT_BASE idx) = 0xFFFF
    \<and> ldt_used (s_ldt_in_use (int31_0002 E s)) = insert (unat idx) (ldt_used (s_ldt_in_use s))
    \<and> reg_ax (int31_0002 E (int31_0002 E s)) = reg_ax (int31_0002 E s)
    \<and> s_ldt_in_use (int31_0002 E (int31_0002 E s)) = s_ldt_in_use (int31_0002 E s)"
proof (rule emu88_engine.int31_0002_new [OF assms], goal_cases)
  case (1 idx)
  have "int31_0002 E (int31_0002 E s) =
      set_cf E False (set_ax (ldt_selector idx (s_client_cpl s)) (int31_0002 E s))"
    using 1(9-12) by (subst int31_0002_def) (simp add: Let_def)
  then show ?case using 1
    by (intro exI [of _ idx]) (simp add: set_cf_def Let_def set_ax_def reg_ax_def)
qed

theorem int31_segment_alias_witness:
  "\<exists>idx. reg_ax (int31_0002 flat (client 2 0x4000 0 0)) = ldt_selector idx 3
    \<and> desc_base flat (mem (int31_0002 flat (client 2 0x4000 0 0))) (slot LDT_BASE idx) = 0x40000"
proof -
  let ?s = "client 2 0x4000 0 0"
  have f: "s_seg2desc_cache ?s (reg_bx ?s) = 0" "s_client_cpl ?s = 3" by (simp_all add: client_def)
  have "1 \<notin> ldt_used (s_ldt_in_use ?s)" by (simp add: client_def ldt_used_def client_bitmap)
  then have "ldt_used (s_ldt_in_use ?s) \<noteq> {1 ..< 256}" by auto
  from int31_segment_alias [OF flat_ram.emu88_engine_axioms client_ok(1-3) f(1) this] f(2)
  show ?thesis by (auto simp: client_regs seg_lin_def)
qed

text \<open>C4: Allocate DOS memory. When the MCB chain has room for BX paragraphs and an LDT slot is free,
  AX=0100h terminates successfully: AX is the data segment first fit chooses, and the selector in DX
  is a slot that was free and whose descriptor covers exactly that block (base AX*16, limit BX*16-1).\<close>

theorem int31_dos_memory:
  assumes "emu88_engine E" and "frame_ok E s" and "tables_ram E (mem s)"
    and "length (s_ldt_in_use s) = 32" and "ldt_used (s_ldt_in_use s) \<noteq> {1 ..< 256}"
    and "s_mcb_initialised s" and "mcb_chain E (mem s) (xs @ b # ys)" and "reg_bx s \<noteq> 0"
    and "\<And>x. x \<in> set xs \<Longrightarrow> \<not> fits (unat (reg_bx s)) x" and "fits (unat (reg_bx s)) b"
  shows "\<exists>idx s'. int31_0100 E s = Some s' \<and> \<not> carry E s'
    \<and> reg_ax s' = of_nat (0x2001 + span xs) \<and> reg_dx s' = ldt_selector idx (s_client_cpl s)
    \<and> unat idx \<notin> ldt_used (s_ldt_in_use s)
    \<and> ldt_used (s_ldt_in_use s') = insert (unat idx) (ldt_used (s_ldt_in_use s))
    \<and> desc_base E (mem s') (slot LDT_BASE idx) = seg_lin (reg_ax s')
    \<and> unat (GetLimit E (mem s') (slot LDT_BASE idx)) = unat (reg_bx s) * 16 - 1"
  by (rule emu88_engine.int31_0100_success [OF assms]) blast+

theorem int31_dos_memory_witness:
  "\<exists>s'. int31_0100 flat ((client 0x100 64 0 0)\<lparr>mem := mcb_init flat (\<lambda>_. 0)\<rparr>) = Some s'
    \<and> reg_ax s' = 0x2001 \<and> \<not> carry flat s'"
proof -
  let ?s = "(client 0x100 64 0 0)\<lparr>mem := mcb_init flat (\<lambda>_. 0)\<rparr>"
  have ok: "frame_ok flat ?s" "tables_ram flat (mem ?s)" "length (s_ldt_in_use ?s) = 32"
    by (simp_all add: frame_ok_def tables_ram_def client_frame client_ok)
  have "1 \<notin> ldt_used (s_ldt_in_use ?s)" by (simp add: client_def ldt_used_def client_bitmap)
  then have free: "ldt_used (s_ldt_in_use ?s) \<noteq> {1 ..< 256}" by auto
  have bx: "reg_bx ?s = 64" by (simp add: client_regs)
  have "low_ram flat (\<lambda>_. 0)" by (simp add: low_ram_def flat_def)
  then have chain: "mcb_chain flat (mem ?s) ([] @ \<lparr>mcb_owner = 0, mcb_size = 0x7FFF\<rparr> # [])"
    using flat_ram.mcb_init_chain by simp
  have ini: "s_mcb_initialised ?s" by (simp add: client_def)
  from int31_dos_memory [OF flat_ram.emu88_engine_axioms ok free ini chain]
  show ?thesis by (auto simp: client_regs fits_def)
qed

text \<open>C11: Extended memory blocks. With a non-empty request that fits the arena, AX=0501h succeeds without
  touching the MCB chain, returns in BX:CX the lowest address where it fits, and hands out a handle
  SI:DI with SI nonzero (so it can never be mistaken for a conventional-memory handle); a following
  AX=0502h with that handle succeeds and restores the set of busy blocks.\<close>

theorem int31_extended_memory:
  fixes E :: "'m emu88" and s :: "'m dpmi"
  defines "bytes \<equiv> push_bit 16 (ucast (reg_bx s) :: u32) OR ucast (reg_cx s)"
  assumes "emu88_engine E" and inv: "pm_inv (s_pm s)" and "bytes \<noteq> 0" and "\<not> pm_round_up bytes < bytes"
    and fits: "pm_fits_at (s_pm s) (unat (pm_round_up bytes)) d"
  shows "\<exists>s' f. int31_0501 E s = Some s' \<and> s_mcb_initialised s' = s_mcb_initialised s
    \<and> f = mk32 (reg_cx s') (reg_bx s') \<and> f = mk32 (reg_di s') (reg_si s') \<and> reg_si s' \<noteq> 0
    \<and> pm_fits_at (s_pm s) (unat (pm_round_up bytes)) (unat f) \<and> unat f \<le> d
    \<and> pm_inv (s_pm s')
    \<and> set (s_pm_busy (s_pm (int31_0502 E s'))) = set (s_pm_busy (s_pm s))"
  using inv assms(4,5)
proof (cases rule: pm_alloc_cases [where E = E and m = "mem s"])
  case (none A')
  then show ?thesis using fits by blast
next
  case (some f)
  define A' where "A' = (s_pm s)\<lparr>s_pm_busy := sort_key pm_base (s_pm_busy (s_pm s)) @
    [\<lparr>pm_base = f, pm_size = pm_round_up bytes\<rparr>]\<rparr>"
  note some = some [folded A'_def]
  define t where "t = set_di (lo16 f) (set_si (hi16 f) (set_cx (lo16 f) (set_bx (hi16 f)
    (s\<lparr>mem := pm_zero_fill E f (pm_round_up bytes) (mem s), s_pm := A'\<rparr>))))"
  have s': "int31_0501 E s = Some (set_cf E False t)"
    using some(1,3) assms(4) unfolding t_def bytes_def by (simp add: int31_0501_def Let_def)
  have f: "unat PM_ARENA_START \<le> unat f" using some(4) by (simp add: pm_fits_at_def)
  have regs: "reg_bx t = hi16 f" "reg_cx t = lo16 f" "reg_si t = hi16 f" "reg_di t = lo16 f" "s_pm t = A'"
    "s_mcb_initialised t = s_mcb_initialised s"
    by (simp_all add: t_def reg_defs)
  have si: "hi16 f \<noteq> 0"
  proof
    assume "hi16 f = 0"
    then have "f = ucast (lo16 f)" using mk32_halves [of f] by (simp add: mk32_def)
    then have "unat f = unat (lo16 f)" by (metis unat_ucast_u16)
    with f show False using unat_u16_less [of "lo16 f"] by (simp add: PM_ARENA_START_def)
  qed
  have base: "push_bit 16 (ucast (hi16 f)) OR ucast (lo16 f) = f"
    using mk32_halves [of f] by (simp add: mk32_def or.commute)
  have "s_pm (int31_0502 E (set_cf E False t)) = snd (pm_free f A')"
  proof -
    have "s_pm (set_cf E False t) = A'" using regs by (simp add: set_cf_def Let_def)
    moreover have "reg_si (set_cf E False t) = hi16 f" "reg_di (set_cf E False t) = lo16 f"
      using regs by simp_all
    ultimately show ?thesis using si base
      by (simp add: int31_0502_def Let_def case_prod_unfold set_cf_def set_ax_def)
  qed
  moreover have "f \<notin> pm_base ` set (s_pm_busy (s_pm s))"
    using some(2) by (auto simp: A'_def pm_inv_def)
  then have "{b \<in> set (s_pm_busy A'). pm_base b \<noteq> f} = set (s_pm_busy (s_pm s))"
    by (auto simp: A'_def)
  ultimately have "set (s_pm_busy (s_pm (int31_0502 E (set_cf E False t)))) = set (s_pm_busy (s_pm s))"
    using pm_free_spec(3) [OF some(2), of f] by simp
  moreover have "s_pm (set_cf E False t) = A'" "s_mcb_initialised (set_cf E False t) = s_mcb_initialised s"
    using regs by (simp_all add: set_cf_def Let_def)
  ultimately show ?thesis
    using s' regs si some(2,4) some(5) [OF fits] by (intro exI [of _ "set_cf E False t"] exI [of _ f]) simp
qed

theorem int31_extended_memory_witness:
  "\<exists>s'. int31_0501 flat (client 0x501 0 5000 0) = Some s' \<and> reg_si s' \<noteq> 0
    \<and> s_pm_busy (s_pm (int31_0502 flat s')) = []"
proof -
  let ?s = "client 0x501 0 5000 0"
  have r: "pm_round_up 5000 = 0x2000" by (simp add: pm_round_up_def PM_PAGE_def)
  have b: "push_bit 16 (ucast (reg_bx ?s) :: u32) OR ucast (reg_cx ?s) = 5000" by (simp add: client_regs)
  have pm: "s_pm ?s = \<lparr>s_pm_busy = [], s_pm_initialised = True, s_pm_end = 0x1000000\<rparr>"
    by (simp add: client_def)
  have "pm_inv (s_pm ?s)" by (simp add: pm pm_inv_def)
  moreover have "pm_fits_at (s_pm ?s) (unat (pm_round_up 5000)) 0x120000"
    by (simp add: pm r pm_fits_at_def pm_clear_def PM_ARENA_START_def)
  ultimately show ?thesis
    using int31_extended_memory [OF flat_ram.emu88_engine_axioms, of ?s "0x120000"]
    by (auto simp: b r pm)
qed

text \<open>Resize DOS memory writes the limit DX*16-1. Once the MCB has been resized to DX paragraphs,
  AX=0102h succeeds and the descriptor's limit is DX*16-1 for every nonzero DX; for DX = 0 the
  subtraction wraps and the selector of an empty block gets the limit FFFFFh, so it reaches 1 MB of
  memory the client does not own.\<close>

theorem int31_resize_limit:
  assumes "emu88_engine E" and "frame_ok E s" and "tables_ram E (mem s)" and "reg_bx s AND 4 \<noteq> 0"
    and "selector_is_valid (reg_bx s)" and "ldt_bit (s_ldt_in_use s) (drop_bit 3 (reg_bx s))"
    and "mcb_resize E (ucast (drop_bit 4 (desc_base E (mem s) (sel_entry (reg_bx s)))))
      (reg_dx s) (s_mcb_initialised s, mem s) = ((reg_dx s, lg), m1)"
    and "\<And>a. is_ram E m1 a = is_ram E (mem s) a"
  shows "\<not> carry E (int31_0102 E s)
    \<and> unat (desc_limit E (mem (int31_0102 E s)) (sel_entry (reg_bx s))) =
        (if reg_dx s = 0 then 0xFFFFF else unat (reg_dx s) * 16 - 1)"
proof -
  note R = emu88_engine.int31_0102_limit [OF assms]
  have "unat (take_bit 20 (push_bit 4 (ucast (0 :: u16)) - 1 :: u32)) = 0xFFFFF"
    by (simp add: mask_eq_exp_minus_1)
  then show ?thesis using R emu88_engine.limit_paragraphs [OF assms(1), of "reg_dx s"] by auto
qed

theorem int31_resize_limit_witness:
  "unat (desc_limit flat (mem (int31_0102 flat (block_client 0xF 0 0))) (sel_entry 0xF)) = 0xFFFFF"
proof -
  let ?s = "block_client 0xF 0 0"
  have r: "reg_bx ?s = 0xF" "reg_dx ?s = 0" by (simp_all add: block_client_def client_def reg_defs lo16_def)
  have ok: "frame_ok flat ?s" "tables_ram flat (mem ?s)" "s_mcb_initialised ?s"
    by (simp_all add: block_client_def frame_ok_def tables_ram_def cf_addr_def reg_sp_def lo16_def client_def)
  have bit: "ldt_bit (s_ldt_in_use ?s) (drop_bit 3 (0xF :: u16))"
    by (simp add: client_selector(2) ldt_bit_iff block_client_def)
  have "desc_base flat (mem ?s) (sel_entry 0xF) = 0x20010"
    by (simp add: desc_base_def sel_entry_def slot_def selector_table_base_def LDT_BASE_def client_selector(2)
        block_client_def client_def mem_readb_def flat_def)
  then have seg: "ucast (drop_bit 4 (desc_base flat (mem ?s) (sel_entry 0xF))) = (0x2001 :: u16)" by simp
  have "mcb_resize flat 0x2001 0 (True, mem ?s) = ((0, 16), mcb_split flat 0x2000 0 (mem ?s))"
    by (simp add: mcb_resize_def block_client_def client_def mem_readb_def mem_readw_def flat_def seg_lin_def mk16_def)
  then show ?thesis
    using int31_resize_limit [OF flat_ram.emu88_engine_axioms ok(1,2)] ok(3) bit
    by (simp add: r seg client_selector)
qed

text \<open>Alias descriptors lose the granularity. AX=000Ah returns a fresh slot with the source's base, but
  copies only the 20-bit limit field: when the source is page granular the alias covers fewer bytes than
  the source, although it is documented to have the same base and limit.\<close>

theorem int31_alias_loses_granularity:
  assumes "emu88_engine E" and "frame_ok E s" and "tables_ram E (mem s)"
    and "length (s_ldt_in_use s) = 32" and "selector_is_valid (reg_bx s)"
    and "ldt_used (s_ldt_in_use s) \<noteq> {1 ..< 256}"
    and big: "bit (mem_readb E (mem s) (sel_entry (reg_bx s) + 6)) 7"
  shows "\<exists>idx. unat idx \<notin> ldt_used (s_ldt_in_use s) \<and> \<not> carry E (int31_000A E s)
    \<and> reg_ax (int31_000A E s) = ldt_selector idx (s_client_cpl s)
    \<and> desc_base E (mem (int31_000A E s)) (slot LDT_BASE idx) = desc_base E (mem s) (sel_entry (reg_bx s))
    \<and> GetLimit E (mem (int31_000A E s)) (slot LDT_BASE idx) < GetLimit E (mem s) (sel_entry (reg_bx s))"
proof (rule emu88_engine.int31_000A_success [OF assms(1-6)], goal_cases)
  case (1 idx)
  let ?l = "desc_limit E (mem s) (sel_entry (reg_bx s))"
  have "GetLimit E (mem s) (sel_entry (reg_bx s)) = push_bit 12 ?l OR 0xFFF"
    using big by (simp add: GetLimit_def)
  with 1 page_limit_larger [OF desc_limit_20] show ?case
    by (intro exI [of _ idx]) (simp add: desc_limit_20)
qed

theorem int31_alias_loses_granularity_witness:
  "\<exists>idx. GetLimit flat (mem (int31_000A flat ((client 10 0xF 0 0)\<lparr>mem := (\<lambda>_. 0)(0x10400E := 0x80)\<rparr>))) (slot LDT_BASE idx) < 0xFFF"
proof -
  let ?s = "(client 10 0xF 0 0)\<lparr>mem := (\<lambda>_. 0)(0x10400E := 0x80)\<rparr>"
  have ok: "frame_ok flat ?s" "tables_ram flat (mem ?s)" "length (s_ldt_in_use ?s) = 32"
    by (simp_all add: frame_ok_def tables_ram_def client_frame client_ok)
  have "1 \<notin> ldt_used (s_ldt_in_use ?s)" by (simp add: client_def ldt_used_def client_bitmap)
  then have free: "ldt_used (s_ldt_in_use ?s) \<noteq> {1 ..< 256}" by auto
  have bx: "reg_bx ?s = 0xF" by (simp add: client_regs)
  have p: "sel_entry 0xF = 0x104008"
    by (simp add: sel_entry_def slot_def selector_table_base_def LDT_BASE_def client_selector(2))
  have "bit (mem_readb flat (mem ?s) (sel_entry (reg_bx ?s) + 6)) 7"
    "GetLimit flat (mem ?s) (sel_entry (reg_bx ?s)) = 0xFFF"
    unfolding bx p by (simp_all add: GetLimit_def desc_limit_def mem_readb_def flat_def)
  then show ?thesis
    using int31_alias_loses_granularity [OF flat_ram.emu88_engine_axioms ok _ free] client_selector(1)
    by (auto simp: client_regs)
qed

text \<open>Growing a conventional block to the last 15 bytes of 4 GiB empties it. AX=0503h rounds the new
  size with \<open>(new_bytes + 15) >> 4\<close> in 32 bits; for FFFFFFF1h and above the sum wraps to 0 paragraphs, so
  for a block with contents the request is reported as successful while the block shrinks to nothing and
  its paragraphs go back to the free chain.\<close>

theorem int31_grow_wraps_to_zero:
  fixes E :: "'m emu88" and s :: "'m dpmi"
  assumes "emu88_engine E" and fr: "frame_ok E s" and tab: "tables_ram E (mem s)"
    and ini: "s_mcb_initialised s"
    and chain: "mcb_chain E (mem s) (xs @ b # ys)" and sz: "0 < mcb_size b"
    and h: "reg_si s = 0" "reg_di s = of_nat (0x2001 + span xs)" "0x2001 + span xs < 0xA000"
    and n: "reg_bx s = 0xFFFF" "reg_cx s = 0xFFFF"
  shows "\<exists>m1. \<not> carry E (int31_0503 E s)
    \<and> mcb_resize E (reg_di s) 0 (True, mem s) = ((0, of_nat (mcb_size b)), m1)
    \<and> mcb_chain E m1 (xs @ carve (mcb_owner b) 0 b @ ys)"
proof -
  obtain m1 where res: "mcb_resize E (reg_di s) 0 (True, mem s) = ((0, of_nat (mcb_size b)), m1)"
    and ch: "mcb_chain E m1 (xs @ carve (mcb_owner b) 0 b @ ys)"
    and hd: "only_headers E (mem s) m1 {of_nat (0x2000 + span xs), of_nat (0x2001 + span xs)}"
    using emu88_engine.mcb_resize_shrink [OF assms(1) chain, of 0] sz h(2) by (auto simp del: of_nat_add)
  have di: "unat (reg_di s) = 0x2001 + span xs" unfolding h(2) by (rule unat_of_nat_u16) (use h(3) in simp)
  define t where "t = s\<lparr>mem := m1\<rparr>"
  define l where "l = seg_lin (reg_di s)"
  have s': "int31_0503 E s = set_cf E False (set_cx (lo16 l) (set_bx (hi16 l) t))"
    using h(1,3) n di ini res
    by (simp add: int31_0503_def Let_def MCB_ARENA_START_def MCB_ARENA_END_def word_le_nat_alt
        word_less_nat_alt t_def l_def reg_di_def)
  have "frame_ok E t" "tables_ram E (mem t)"
    using ram_frame [OF fr tab, of t] hd by (auto simp: t_def only_headers_def)
  then have "\<not> carry E (int31_0503 E s)"
    unfolding s' using emu88_engine.set_cf_tables(4) [OF assms(1), of "set_cx (lo16 l) (set_bx (hi16 l) t)" False]
    by (simp add: frame_ok_def)
  with res ch show ?thesis by blast
qed

theorem int31_grow_wraps_to_zero_witness:
  "\<not> carry flat (int31_0503 flat ((client 0x503 0xFFFF 0xFFFF 0)\<lparr>mem := mcb_init flat (\<lambda>_. 0), reg_edi := 0x2001\<rparr>))"
proof -
  let ?s = "(client 0x503 0xFFFF 0xFFFF 0)\<lparr>mem := mcb_init flat (\<lambda>_. 0), reg_edi := 0x2001\<rparr>"
  have ok: "frame_ok flat ?s" "tables_ram flat (mem ?s)" "s_mcb_initialised ?s"
    by (simp_all add: frame_ok_def tables_ram_def cf_addr_def reg_sp_def lo16_def client_def)
  have r: "reg_si ?s = 0" "reg_di ?s = 0x2001" "reg_bx ?s = 0xFFFF" "reg_cx ?s = 0xFFFF"
    by (simp_all add: client_def reg_defs lo16_def)
  have "low_ram flat (\<lambda>_. 0)" by (simp add: low_ram_def flat_def)
  then have chain: "mcb_chain flat (mem ?s) ([] @ \<lparr>mcb_owner = 0, mcb_size = 0x7FFF\<rparr> # [])"
    using flat_ram.mcb_init_chain by simp
  from int31_grow_wraps_to_zero [OF flat_ram.emu88_engine_axioms ok chain] r
  show ?thesis by auto
qed

end
