(* ===== verification/Bios.thy ===== *)
theory Bios
  imports Machine "HOL-Library.Signed_Division"
begin

text \<open>
  The small BIOS-level services of \<open>bridge.cc\<close>: the 64-bit division trap INT 80h, the tick counter and
  INT 1Ah, the keyboard ring in the BIOS data area, the text screen's teletype output, and the flag setters
  of the shim. The ring refines a bounded queue; the teletype stays on the screen.
\<close>

section \<open>Flags in the interrupt frame\<close>

text \<open>\<open>CALLBACK_SZF\<close> and its siblings edit the real-mode frame at SS:SP+4.\<close>

definition callback_flag :: "'m emu88 \<Rightarrow> u16 \<Rightarrow> bool \<Rightarrow> ('m, 'z) machine_scheme \<Rightarrow> ('m, 'z) machine_scheme" where
  "callback_flag E flag v s = (let
     a = PhysMake (seg_val s SS) (reg_sp s + 4);
     f = mem_readw E (mem s) a;
     f = (if v then f OR flag else f AND NOT flag)
   in s\<lparr>mem := mem_writew E a f (mem s)\<rparr>)"

definition CALLBACK_SZF :: "'m emu88 \<Rightarrow> bool \<Rightarrow> ('m, 'z) machine_scheme \<Rightarrow> ('m, 'z) machine_scheme" where
  "CALLBACK_SZF E v s = callback_flag E 0x40 v s"

definition CALLBACK_SCF :: "'m emu88 \<Rightarrow> bool \<Rightarrow> ('m, 'z) machine_scheme \<Rightarrow> ('m, 'z) machine_scheme" where
  "CALLBACK_SCF E v s = callback_flag E 0x01 v s"

definition CALLBACK_SIF :: "'m emu88 \<Rightarrow> bool \<Rightarrow> ('m, 'z) machine_scheme \<Rightarrow> ('m, 'z) machine_scheme" where
  "CALLBACK_SIF E v s = callback_flag E 0x200 v s"

section \<open>INT 80h: 64-bit division\<close>

text \<open>None is the one signed division C++ leaves undefined, INT64_MIN by -1.\<close>

definition dosiz_int80 :: "('m, 'z) machine_scheme \<Rightarrow> ('m, 'z) machine_scheme option" where
  "dosiz_int80 s = (let
     op = (ucast (reg_esi s AND 0xFF) :: u8);
     num_u = (push_bit 32 (ucast (reg_edx s)) OR ucast (reg_eax s) :: u64);
     den_u = (push_bit 32 (ucast (reg_ebx s)) OR ucast (reg_ecx s) :: u64);
     ret = (\<lambda>result :: u64. s\<lparr>reg_eax := ucast (result AND 0xFFFFFFFF), reg_edx := ucast (drop_bit 32 result AND 0xFFFFFFFF)\<rparr>)
   in if den_u = 0 then Some (s\<lparr>reg_eax := 0, reg_edx := 0\<rparr>)
   else if op = 0 then Some (ret (num_u div den_u))
   else if op = 2 then Some (ret (num_u mod den_u))
   else let num_s = sint num_u; den_s = sint den_u in
     if num_s = - (2 ^ 63) \<and> den_s = -1 then None
     else Some (ret (of_int (if op = 1 then num_s sdiv den_s else num_s smod den_s))))"

section \<open>The tick counter and INT 1Ah\<close>

definition dosiz_bios_timer_tick :: "'m emu88 \<Rightarrow> 'm \<Rightarrow> 'm" where
  "dosiz_bios_timer_tick E m = (let
     t = mem_readd E m 0x46C + 1;
     (t, m) = (if t \<ge> 0x1800B0 then (0, mem_writeb E 0x470 1 m) else (t, m))
   in mem_writed E 0x46C t m)"

definition dosiz_int1a :: "'m emu88 \<Rightarrow> ('m, 'z) machine_scheme \<Rightarrow> ('m, 'z) machine_scheme" where
  "dosiz_int1a E s = (if (drop_bit 8 (reg_eax s)) AND 0xFF = 0 then let
     ticks = mem_readd E (mem s) 0x46C;
     flag = mem_readb E (mem s) 0x470;
     s = wr (mem_writeb E 0x470 0) s
   in s\<lparr>reg_eax := (reg_eax s AND NOT 0xFF) OR ucast flag,
        reg_ecx := (reg_ecx s AND 0xFFFF0000) OR (drop_bit 16 ticks AND 0xFFFF),
        reg_edx := (reg_edx s AND 0xFFFF0000) OR (ticks AND 0xFFFF)\<rparr>
   else s)"

section \<open>The keyboard ring\<close>

definition kbd_ring_init :: "'m emu88 \<Rightarrow> 'm \<Rightarrow> 'm" where
  "kbd_ring_init E m = mem_writew E 0x41C 0x1E (mem_writew E 0x41A 0x1E m)"

definition kbd_next :: "u16 \<Rightarrow> u16" where
  "kbd_next p = (let n = p + 2 in if n \<ge> 0x3E then 0x1E else n)"

definition kbd_ring_push :: "'m emu88 \<Rightarrow> u16 \<Rightarrow> 'm \<Rightarrow> 'm" where
  "kbd_ring_push E key m = (let
     tail = mem_readw E m 0x41C;
     nxt = kbd_next tail
   in if nxt = mem_readw E m 0x41A then m
   else mem_writew E 0x41C nxt (mem_writew E (0x400 + ucast tail) key m))"

definition kbd_ring_peek :: "'m emu88 \<Rightarrow> 'm \<Rightarrow> u16 option" where
  "kbd_ring_peek E m = (let head = mem_readw E m 0x41A in
     if head = mem_readw E m 0x41C then None else Some (mem_readw E m (0x400 + ucast head)))"

definition kbd_ring_pop :: "'m emu88 \<Rightarrow> 'm \<Rightarrow> u16 option \<times> 'm" where
  "kbd_ring_pop E m = (let head = mem_readw E m 0x41A in
     if head = mem_readw E m 0x41C then (None, m)
     else (Some (mem_readw E m (0x400 + ucast head)), mem_writew E 0x41A (kbd_next head) m))"

definition dosiz_video_key :: "'m emu88 \<Rightarrow> u8 \<Rightarrow> u8 \<Rightarrow> 'm \<Rightarrow> 'm" where
  "dosiz_video_key E ascii scancode m = kbd_ring_push E (push_bit 8 (ucast scancode) OR ucast ascii) m"

section \<open>Teletype output\<close>

definition COLS :: nat where "COLS = 80"
definition ROWS :: nat where "ROWS = 25"

definition cell :: "nat \<Rightarrow> u32" where
  "cell i = 0xB8000 + of_nat i * 2"

definition screen_scroll :: "'m emu88 \<Rightarrow> u8 \<Rightarrow> 'm \<Rightarrow> 'm" where
  "screen_scroll E attr m = (let
     m = fold (\<lambda>i m. mem_writew E (cell i) (mem_readw E m (cell (i + COLS))) m) [0 ..< (ROWS - 1) * COLS] m
   in fold (\<lambda>i m. mem_writeb E (cell i + 1) attr (mem_writeb E (cell i) 0x20 m)) [(ROWS - 1) * COLS ..< ROWS * COLS] m)"

definition screen_putchar :: "'m emu88 \<Rightarrow> u8 \<Rightarrow> u8 \<Rightarrow> 'm \<Rightarrow> 'm" where
  "screen_putchar E attr c m = (let
     pos = mem_readw E m 0x450;
     row = unat (hi8 pos); col = unat (lo8 pos);
     col = (if col > 79 then 79 else col);
     row = (if row > 24 then 24 else row);
     (row, col, m) = (
       if c = 0x0D then (row, 0, m)
       else if c = 0x0A then (row + 1, col, m)
       else if c = 0x08 then (row, (if col > 0 then col - 1 else col), m)
       else if c = 0x09 then (row, (col + 8) div 8 * 8, m)
       else if c = 7 then (row, col, m)
       else (row, col + 1, mem_writeb E (cell (row * COLS + col) + 1) attr (mem_writeb E (cell (row * COLS + col)) c m)));
     (row, col) = (if col \<ge> COLS then (row + 1, 0) else (row, col));
     (row, m) = (if row \<ge> ROWS then (24, screen_scroll E attr m) else (row, m))
   in mem_writew E 0x450 (of_nat (row * 256 + col)) m)"

section \<open>The division is a division\<close>

definition int80_num :: "('m, 'z) machine_scheme \<Rightarrow> u64" where
  "int80_num s = push_bit 32 (ucast (reg_edx s)) OR ucast (reg_eax s)"

definition int80_den :: "('m, 'z) machine_scheme \<Rightarrow> u64" where
  "int80_den s = push_bit 32 (ucast (reg_ebx s)) OR ucast (reg_ecx s)"

text \<open>EDX:EAX of the caller after the call, and the call with the operation \<open>op\<close> in the low byte of ESI.\<close>

definition int80_call :: "u32 \<Rightarrow> ('m, 'z) machine_scheme \<Rightarrow> u64 option" where
  "int80_call op s = map_option int80_num (dosiz_int80 (s\<lparr>reg_esi := op\<rparr>))"

lemma u64_halves:
  "(push_bit 32 (ucast (ucast (drop_bit 32 r AND 0xFFFFFFFF) :: u32)) OR ucast (ucast (r AND 0xFFFFFFFF) :: u32)) = (r :: u64)"
proof -
  have mask: "(x :: u64) AND 0xFFFFFFFF = take_bit 32 x" for x by (simp add: take_bit_eq_mask mask_eq_exp_minus_1)
  show ?thesis unfolding mask by (rule bit_word_eqI) (auto simp: bit_simps)
qed

lemma int80_call_cases:
  "int80_call op s = (if int80_den s = 0 then Some 0
     else let o8 = (ucast (op AND 0xFF) :: u8) in
       if o8 = 0 then Some (int80_num s div int80_den s)
       else if o8 = 2 then Some (int80_num s mod int80_den s)
       else if sint (int80_num s) = - (2 ^ 63) \<and> sint (int80_den s) = -1 then None
       else Some (of_int (if o8 = 1 then sint (int80_num s) sdiv sint (int80_den s) else sint (int80_num s) smod sint (int80_den s))))"
  by (simp add: int80_call_def dosiz_int80_def int80_num_def int80_den_def Let_def u64_halves)

lemma sint_of_int_u64: "\<lbrakk>- (2 ^ 63) \<le> i; i < 2 ^ 63\<rbrakk> \<Longrightarrow> sint (of_int i :: u64) = i"
  by (simp add: signed_of_int signed_take_bit_int_eq_self)

lemma sdiv_bounds:
  fixes a b :: int
  assumes a: "- (2 ^ 63) \<le> a" "a < 2 ^ 63" and ov: "\<not> (a = - (2 ^ 63) \<and> b = -1)"
  shows "- (2 ^ 63) \<le> a sdiv b" and "a sdiv b < 2 ^ 63"
proof -
  have r: "- \<bar>a\<bar> \<le> a sdiv b" "a sdiv b \<le> \<bar>a\<bar>" using sdiv_int_range [of a b] by simp_all
  then show "- (2 ^ 63) \<le> a sdiv b" using a by linarith
  show "a sdiv b < 2 ^ 63"
  proof (cases "a = - (2 ^ 63)")
    case True
    then have "a sdiv b \<noteq> - a" using ov int_sdiv_negated_is_minus1 [of a b] by auto
    with r True show ?thesis by simp
  qed (use a r in linarith)
qed

text \<open>C17: INT 80h divides. With a non-zero divisor, operations 0 and 2 return the unsigned quotient and
  remainder of EDX:EAX by EBX:ECX, and operations 1 and 3 the signed ones, truncated towards zero: quotient
  times divisor plus remainder is the dividend, the remainder is smaller than the divisor in magnitude and
  has the sign of the dividend. The exception is the signed division of -2^63 by -1, which C++ leaves
  undefined.\<close>

theorem int80_divides:
  assumes den: "int80_den s \<noteq> 0"
    and ov: "\<not> (sint (int80_num s) = - (2 ^ 63) \<and> sint (int80_den s) = -1)"
  shows "\<exists>q r q' r'. int80_call 0 s = Some q \<and> int80_call 2 s = Some r
    \<and> uint q * uint (int80_den s) + uint r = uint (int80_num s) \<and> uint r < uint (int80_den s)
    \<and> int80_call 1 s = Some q' \<and> int80_call 3 s = Some r'
    \<and> sint q' * sint (int80_den s) + sint r' = sint (int80_num s)
    \<and> \<bar>sint r'\<bar> < \<bar>sint (int80_den s)\<bar> \<and> (sint r' \<noteq> 0 \<longrightarrow> sgn (sint r') = sgn (sint (int80_num s)))"
proof -
  let ?a = "sint (int80_num s)" and ?b = "sint (int80_den s)"
  have bounds: "- (2 ^ 63) \<le> ?a" "?a < 2 ^ 63" "- (2 ^ 63) \<le> ?b" "?b < 2 ^ 63"
    using sint_greater_eq [of "int80_num s"] sint_less [of "int80_num s"]
      sint_greater_eq [of "int80_den s"] sint_less [of "int80_den s"] by simp_all
  have b0: "?b \<noteq> 0" using den by (simp add: signed_eq_0_iff)
  have sm: "\<bar>?a smod ?b\<bar> < \<bar>?b\<bar>" using smod_int_range [OF b0, of ?a] by auto
  have q: "sint (of_int (?a sdiv ?b) :: u64) = ?a sdiv ?b"
    by (rule sint_of_int_u64) (use sdiv_bounds [OF bounds(1,2) ov] in simp_all)
  have r: "sint (of_int (?a smod ?b) :: u64) = ?a smod ?b"
    by (rule sint_of_int_u64) (use sm bounds(3,4) in linarith)+
  have "0 \<le> \<bar>?a\<bar> mod \<bar>?b\<bar>" using b0 by simp
  then have sgn: "?a smod ?b \<noteq> 0 \<longrightarrow> sgn (?a smod ?b) = sgn ?a"
    unfolding smod_int_alt_def sgn_mult sgn_sgn by (auto simp: order_less_le)
  have u: "uint (int80_den s) > 0" using den by (simp add: word_neq_0_conv [symmetric] order_less_le unsigned_eq_0_iff)
  show ?thesis
  proof (intro exI conjI)
    show "int80_call 0 s = Some (int80_num s div int80_den s)" "int80_call 2 s = Some (int80_num s mod int80_den s)"
      "int80_call 1 s = Some (of_int (?a sdiv ?b))" "int80_call 3 s = Some (of_int (?a smod ?b))"
      using den ov by (auto simp: int80_call_cases Let_def)
    show "uint (int80_num s div int80_den s) * uint (int80_den s) + uint (int80_num s mod int80_den s) = uint (int80_num s)"
      by (simp add: uint_div_distrib uint_mod_distrib)
    show "uint (int80_num s mod int80_den s) < uint (int80_den s)" using u by (simp add: uint_mod_distrib)
    show "sint (of_int (?a smod ?b) :: u64) \<noteq> 0 \<longrightarrow> sgn (sint (of_int (?a smod ?b) :: u64)) = sgn ?a"
      unfolding r by (rule sgn)
  qed (simp_all only: q r sm sdiv_mult_smod_eq)
qed

definition bios_state :: "(u32 \<Rightarrow> u8) machine" where
  "bios_state = \<lparr>mem = (\<lambda>_. 0), reg_eax = 0xFFFFFFF9, reg_ebx = 0, reg_ecx = 2, reg_edx = 0xFFFFFFFF,
     reg_esi = 0, reg_edi = 0, reg_ebp = 0, reg_esp = 0x100, reg_eip = 0, seg_val = (\<lambda>_. 0x2000),
     seg_phys = (\<lambda>_. 0x20000), cpu_pmode = False, stack_big = False, code_big = False, reg_flags = 0x202, cpu_cpl = 0, cpu_cr0 = 0, s_int_gate_bits32 = False\<rparr>"

theorem int80_divides_witness:
  "(\<exists>q r q' r'. int80_call 0 bios_state = Some q \<and> int80_call 2 bios_state = Some r
    \<and> uint q * 2 + uint r = 2 ^ 64 - 7 \<and> uint r < 2
    \<and> int80_call 1 bios_state = Some q' \<and> int80_call 3 bios_state = Some r'
    \<and> sint q' * 2 + sint r' = -7 \<and> \<bar>sint r'\<bar> < 2 \<and> (sint r' \<noteq> 0 \<longrightarrow> sgn (sint r') = -1))
    \<and> int80_call 1 bios_state = Some (- 3) \<and> int80_call 3 bios_state = Some (- 1)"
proof -
  have v: "int80_den bios_state = 2" "int80_num bios_state = - 7"
    by (simp_all add: int80_den_def int80_num_def bios_state_def)
  have "int80_call 1 bios_state = Some (- 3)" "int80_call 3 bios_state = Some (- 1)"
    by (simp_all add: int80_call_cases v signed_divide_int_def signed_modulo_int_def)
  then show ?thesis using int80_divides [of bios_state] by (simp add: v)
qed

section \<open>The keyboard ring is a bounded queue\<close>

text \<open>The reference: a queue that drops a key when fifteen wait.\<close>

datatype kbd_op = Push u16 | Pop | Peek

fun queue_step :: "kbd_op \<Rightarrow> u16 list \<Rightarrow> u16 option \<times> u16 list" where
  "queue_step (Push k) q = (None, if length q < 15 then q @ [k] else q)"
| "queue_step Pop q = (case q of [] \<Rightarrow> (None, []) | k # q \<Rightarrow> (Some k, q))"
| "queue_step Peek q = (case q of [] \<Rightarrow> None | k # _ \<Rightarrow> Some k, q)"

fun ring_step :: "'m emu88 \<Rightarrow> kbd_op \<Rightarrow> 'm \<Rightarrow> u16 option \<times> 'm" where
  "ring_step E (Push k) m = (None, kbd_ring_push E k m)"
| "ring_step E Pop m = kbd_ring_pop E m"
| "ring_step E Peek m = (kbd_ring_peek E m, m)"

fun run_ops :: "('o \<Rightarrow> 's \<Rightarrow> 'r \<times> 's) \<Rightarrow> 'o list \<Rightarrow> 's \<Rightarrow> 'r list" where
  "run_ops f [] s = []"
| "run_ops f (x # xs) s = (let (r, s') = f x s in r # run_ops f xs s')"

text \<open>Entry \<open>k\<close> of the ring, as an offset in the BIOS data area and as an address.\<close>

definition ring_off :: "nat \<Rightarrow> u16" where
  "ring_off k = 0x1E + of_nat (2 * k)"

definition ring_addr :: "nat \<Rightarrow> u32" where
  "ring_addr k = 0x41E + of_nat (2 * k)"

definition ring_area :: "u32 set" where
  "ring_area = {0x41A..0x43D}"

definition ring_holds :: "'m emu88 \<Rightarrow> u16 list \<Rightarrow> 'm \<Rightarrow> bool" where
  "ring_holds E q m \<longleftrightarrow> (\<forall>a \<in> ring_area. is_ram E m a) \<and> length q \<le> 15 \<and>
     (\<exists>h < 16. mem_readw E m 0x41A = ring_off h \<and> mem_readw E m 0x41C = ring_off ((h + length q) mod 16)
       \<and> (\<forall>i < length q. mem_readw E m (ring_addr ((h + i) mod 16)) = q ! i))"

lemma less_16_list: "k < 16 \<Longrightarrow> list_all P [0 ..< 16] \<Longrightarrow> P k"
  by (simp add: list_all_iff del: upt_rec_numeral)

lemma mod_16_wrap: "\<lbrakk>h < 16; n \<le> 16\<rbrakk> \<Longrightarrow> (h + n) mod 16 = (if h + n < 16 then h + n else h + n - (16 :: nat))"
  by (auto simp: mod_if)

lemma mod_16_eq: "\<lbrakk>h < 16; i < 16; j < 16\<rbrakk> \<Longrightarrow> (h + i) mod 16 = (h + j) mod 16 \<longleftrightarrow> i = (j :: nat)"
  by (auto simp: mod_16_wrap split: if_splits)

lemma ring_off_inject: "\<lbrakk>j < 16; k < 16\<rbrakk> \<Longrightarrow> ring_off j = ring_off k \<longleftrightarrow> j = k"
proof -
  have "unat (ring_off k) = 0x1E + 2 * k" if "k < 16" for k
  proof -
    have "ring_off k = of_nat (0x1E + 2 * k)" by (simp add: ring_off_def)
    then show ?thesis using unat_of_nat_u16 [of "0x1E + 2 * k"] that by simp
  qed
  then show "j < 16 \<Longrightarrow> k < 16 \<Longrightarrow> ring_off j = ring_off k \<longleftrightarrow> j = k"
    by (metis add_left_cancel mult_left_cancel zero_neq_numeral)
qed

lemma unat_ring_addr: "k < 16 \<Longrightarrow> unat (ring_addr k) = 0x41E + 2 * k"
proof -
  assume "k < 16"
  moreover have "ring_addr k = of_nat (0x41E + 2 * k)" by (simp add: ring_addr_def)
  ultimately show ?thesis using unat_of_nat_u32 [of "0x41E + 2 * k"] by simp
qed

lemma unat_ring_addr_1: "k < 16 \<Longrightarrow> unat (ring_addr k + 1) = 0x41F + 2 * k"
proof -
  assume "k < 16"
  moreover have "ring_addr k + 1 = of_nat (0x41F + 2 * k)" by (simp add: ring_addr_def)
  ultimately show ?thesis using unat_of_nat_u32 [of "0x41F + 2 * k"] by simp
qed

lemma ring_addr_area:
  assumes "k < 16"
  shows "ring_addr k \<in> ring_area" "ring_addr k + 1 \<in> ring_area"
    and "ring_addr k \<noteq> 0x41A" "ring_addr k \<noteq> 0x41B" "ring_addr k \<noteq> 0x41C" "ring_addr k \<noteq> 0x41D"
    and "ring_addr k + 1 \<noteq> 0x41A" "ring_addr k + 1 \<noteq> 0x41B" "ring_addr k + 1 \<noteq> 0x41C" "ring_addr k + 1 \<noteq> 0x41D"
  using assms by (simp_all add: ring_area_def word_le_nat_alt word_unat_eq_iff unat_ring_addr unat_ring_addr_1)

lemma ring_addr_distinct:
  assumes "j < 16" "k < 16" "j \<noteq> k"
  shows "ring_addr j \<noteq> ring_addr k" "ring_addr j \<noteq> ring_addr k + 1" "ring_addr j + 1 \<noteq> ring_addr k"
proof -
  note u = unat_ring_addr [OF assms(1)] unat_ring_addr [OF assms(2)] unat_ring_addr_1 [OF assms(1)] unat_ring_addr_1 [OF assms(2)]
  have "unat (ring_addr j) \<noteq> unat (ring_addr k)" "unat (ring_addr j) \<noteq> unat (ring_addr k + 1)"
    "unat (ring_addr j + 1) \<noteq> unat (ring_addr k)"
    unfolding u using assms(3) by presburger+
  then show "ring_addr j \<noteq> ring_addr k" "ring_addr j \<noteq> ring_addr k + 1" "ring_addr j + 1 \<noteq> ring_addr k" by auto
qed

lemma kbd_next_ring: "k < 16 \<Longrightarrow> kbd_next (ring_off k) = ring_off ((k + 1) mod 16)"
  by (rule less_16_list, assumption) code_simp

lemma ring_entry: "k < 16 \<Longrightarrow> 0x400 + ucast (ring_off k) = ring_addr k"
  by (rule less_16_list, assumption) code_simp

lemma ring_area_pointers: "0x41A \<in> ring_area" "0x41B \<in> ring_area" "0x41C \<in> ring_area" "0x41D \<in> ring_area"
  by (simp_all add: ring_area_def)

context emu88_engine
begin

lemma ring_init: "(\<forall>a \<in> ring_area. is_ram E m a) \<Longrightarrow> ring_holds E [] (kbd_ring_init E m)"
  unfolding ring_holds_def kbd_ring_init_def
  by (auto simp: ring_area_pointers mem_simps readw_writew_other ring_off_def intro!: exI [of _ 0])

lemma ring_push:
  assumes "ring_holds E q m"
  shows "ring_holds E (if length q < 15 then q @ [k] else q) (kbd_ring_push E k m)"
proof -
  let ?n = "length q"
  from assms obtain h where ram: "\<And>a. a \<in> ring_area \<Longrightarrow> is_ram E m a" and n: "?n \<le> 15" and h: "h < 16"
    and hd: "mem_readw E m 0x41A = ring_off h" and tl: "mem_readw E m 0x41C = ring_off ((h + ?n) mod 16)"
    and q: "\<And>i. i < ?n \<Longrightarrow> mem_readw E m (ring_addr ((h + i) mod 16)) = q ! i"
    by (auto simp: ring_holds_def)
  let ?t = "(h + ?n) mod 16"
  have t: "?t < 16" by simp
  have nxt: "kbd_next (ring_off ?t) = ring_off ((h + ?n + 1) mod 16)"
    using kbd_next_ring [OF t] by (simp add: mod_simps)
  have full: "kbd_next (ring_off ?t) = ring_off h \<longleftrightarrow> \<not> ?n < 15"
  proof -
    have "(h + (?n + 1)) mod 16 = h \<longleftrightarrow> ?n = 15" using h n by (subst mod_16_wrap) auto
    then show ?thesis unfolding nxt using ring_off_inject [of "(h + ?n + 1) mod 16" h] h n by (auto simp: add.assoc)
  qed
  show ?thesis
  proof (cases "?n < 15")
    case True
    note ta = ring_addr_area [OF t]
    let ?m1 = "mem_writew E (ring_addr ?t) k m"
    have ram1: "is_ram E ?m1 a" if "a \<in> ring_area" for a
      using ram ta that by (simp add: mem_simps)
    have push: "kbd_ring_push E k m = mem_writew E 0x41C (ring_off ((h + ?n + 1) mod 16)) ?m1"
      using True full by (simp add: kbd_ring_push_def hd tl ring_entry nxt)
    have other: "mem_readw E (kbd_ring_push E k m) b = mem_readw E ?m1 b"
      if "b \<in> ring_area" "b + 1 \<in> ring_area" "b \<noteq> 0x41C" "b \<noteq> 0x41D" "b + 1 \<noteq> 0x41C" for b
      unfolding push by (rule readw_writew_other) (use that ram1 ring_area_pointers in simp_all)
    have entry: "mem_readw E ?m1 (ring_addr ((h + i) mod 16)) = (q @ [k]) ! i" if "i < Suc ?n" for i
    proof (cases "i = ?n")
      case False
      then have i: "i < ?n" using that by simp
      have "(h + i) mod 16 \<noteq> ?t" using h n i mod_16_eq [of h i ?n] by simp
      then have "mem_readw E ?m1 (ring_addr ((h + i) mod 16)) = mem_readw E m (ring_addr ((h + i) mod 16))"
        using ring_addr_distinct [of "(h + i) mod 16" ?t] ta ring_addr_area [of "(h + i) mod 16"]
        by (intro readw_writew_other ram) simp_all
      then show ?thesis using q [OF i] i by (simp add: nth_append)
    qed (use ram ta in \<open>simp add: mem_simps\<close>)
    have ptrs: "mem_readw E (kbd_ring_push E k m) 0x41A = ring_off h"
      "mem_readw E (kbd_ring_push E k m) 0x41C = ring_off ((h + Suc ?n) mod 16)"
    proof -
      have "mem_readw E ?m1 0x41A = mem_readw E m 0x41A"
        by (rule readw_writew_other) (use ram ta ring_area_pointers ta(3,4,7) [symmetric] in simp_all)
      then show "mem_readw E (kbd_ring_push E k m) 0x41A = ring_off h"
        using other [of "0x41A"] ring_area_pointers hd by simp
      show "mem_readw E (kbd_ring_push E k m) 0x41C = ring_off ((h + Suc ?n) mod 16)"
        unfolding push using ram1 ring_area_pointers by (simp add: mem_simps)
    qed
    have "is_ram E (kbd_ring_push E k m) a" if "a \<in> ring_area" for a
      unfolding push using ram1 that ring_area_pointers by (simp add: mem_simps)
    moreover have "mem_readw E (kbd_ring_push E k m) (ring_addr ((h + i) mod 16)) = (q @ [k]) ! i" if "i < Suc ?n" for i
      using other ring_addr_area [of "(h + i) mod 16"] entry [OF that] by simp
    ultimately show ?thesis using True h ptrs by (auto simp: ring_holds_def)
  next
    case False
    then have "kbd_ring_push E k m = m" using full by (simp add: kbd_ring_push_def hd tl)
    then show ?thesis using assms False by simp
  qed
qed

lemma ring_pop:
  assumes "ring_holds E q m"
  shows "fst (kbd_ring_pop E m) = fst (queue_step Pop q)" and "kbd_ring_peek E m = fst (queue_step Peek q)"
    and "ring_holds E (snd (queue_step Pop q)) (snd (kbd_ring_pop E m))"
proof -
  let ?n = "length q"
  from assms obtain h where ram: "\<And>a. a \<in> ring_area \<Longrightarrow> is_ram E m a" and n: "?n \<le> 15" and h: "h < 16"
    and hd: "mem_readw E m 0x41A = ring_off h" and tl: "mem_readw E m 0x41C = ring_off ((h + ?n) mod 16)"
    and q: "\<And>i. i < ?n \<Longrightarrow> mem_readw E m (ring_addr ((h + i) mod 16)) = q ! i"
    by (auto simp: ring_holds_def)
  have "(h + ?n) mod 16 = h \<longleftrightarrow> q = []"
  proof -
    have "(h + ?n) mod 16 = h \<longleftrightarrow> ?n = 0" using h n by (auto simp: mod_16_wrap split: if_splits)
    then show ?thesis by simp
  qed
  then have empty: "ring_off h = ring_off ((h + ?n) mod 16) \<longleftrightarrow> q = []" using ring_off_inject [of h "(h + ?n) mod 16"] h by auto
  have first: "mem_readw E m (ring_addr h) = hd q" if "q \<noteq> []" using q [of 0] that h by (simp add: hd_conv_nth)
  show "fst (kbd_ring_pop E m) = fst (queue_step Pop q)" "kbd_ring_peek E m = fst (queue_step Peek q)"
    using empty first by (auto simp: kbd_ring_pop_def kbd_ring_peek_def hd tl ring_entry [OF h] Let_def split: list.split)
  show "ring_holds E (snd (queue_step Pop q)) (snd (kbd_ring_pop E m))"
  proof (cases q)
    case Nil
    then show ?thesis using assms empty by (simp add: kbd_ring_pop_def hd tl Let_def)
  next
    case (Cons k q')
    let ?h = "(h + 1) mod 16"
    have pop: "snd (kbd_ring_pop E m) = mem_writew E 0x41A (ring_off ?h) m"
      using Cons empty kbd_next_ring [OF h] by (simp add: kbd_ring_pop_def hd tl Let_def)
    have other: "mem_readw E (snd (kbd_ring_pop E m)) b = mem_readw E m b"
      if "b \<in> ring_area" "b + 1 \<in> ring_area" "b \<noteq> 0x41A" "b \<noteq> 0x41B" "b + 1 \<noteq> 0x41A" for b
      unfolding pop by (rule readw_writew_other) (use that ram ring_area_pointers in simp_all)
    have "mem_readw E (snd (kbd_ring_pop E m)) (ring_addr ((?h + i) mod 16)) = q' ! i" if "i < length q'" for i
      using other ring_addr_area [of "(?h + i) mod 16"] q [of "Suc i"] that Cons by (simp add: mod_simps)
    moreover have "mem_readw E (snd (kbd_ring_pop E m)) 0x41A = ring_off ?h" 
      unfolding pop using ram ring_area_pointers by (simp add: mem_simps)
    moreover have "mem_readw E (snd (kbd_ring_pop E m)) 0x41C = ring_off ((?h + length q') mod 16)"
      using other [of "0x41C"] ring_area_pointers tl Cons by (simp add: mod_simps)
    moreover have "is_ram E (snd (kbd_ring_pop E m)) a" if "a \<in> ring_area" for a
      unfolding pop using ram that ring_area_pointers by (simp add: mem_simps)
    ultimately show ?thesis using Cons n by (auto simp: ring_holds_def intro!: exI [of _ ?h])
  qed
qed

lemma ring_step_holds:
  assumes "ring_holds E q m"
  shows "fst (ring_step E x m) = fst (queue_step x q)" "ring_holds E (snd (queue_step x q)) (snd (ring_step E x m))"
  using ring_push [OF assms] ring_pop [OF assms] assms by (cases x; simp)+

lemma ring_run: "ring_holds E q m \<Longrightarrow> run_ops (ring_step E) xs m = run_ops queue_step xs q"
proof (induction xs arbitrary: q m)
  case (Cons x xs)
  then show ?case using ring_step_holds [of q m x] by (auto simp: case_prod_beta Let_def)
qed simp

end

text \<open>C15: The keyboard ring refines a bounded first-in first-out queue: after \<open>kbd_ring_init\<close>, any sequence of
  pushes, peeks and pops on the ring in the BIOS data area returns what a queue of at most fifteen keys
  returns, a push on a full queue being dropped.\<close>

theorem kbd_ring_refines_queue:
  assumes "emu88_engine E" and "\<forall>a \<in> ring_area. is_ram E m a"
  shows "run_ops (ring_step E) xs (kbd_ring_init E m) = run_ops queue_step xs []"
  using emu88_engine.ring_run [OF assms(1) emu88_engine.ring_init [OF assms]] .

theorem kbd_ring_refines_queue_witness:
  "run_ops (ring_step flat) [Push 0x1E61, Push 0x3062, Pop, Peek, Pop, Pop] (kbd_ring_init flat (\<lambda>_. 0))
    = [None, None, Some 0x1E61, Some 0x3062, Some 0x3062, None]"
  by (simp add: kbd_ring_refines_queue [OF flat_ram.emu88_engine_axioms] del: run_ops.simps(2)) simp

section \<open>The text screen\<close>

definition screen_area :: "u32 set" where
  "screen_area = {0xB8000..0xB8F9F}"

definition screen_cursor :: "u32 set" where
  "screen_cursor = {0x450, 0x451}"

definition screen_ram :: "'m emu88 \<Rightarrow> 'm \<Rightarrow> bool" where
  "screen_ram E m \<longleftrightarrow> (\<forall>a \<in> screen_area \<union> screen_cursor. is_ram E m a)"

lemma screen_ram_same: "\<lbrakk>screen_ram E m; same_outside E S m m'\<rbrakk> \<Longrightarrow> screen_ram E m'"
  by (simp add: screen_ram_def same_outside_def)

lemma unat_cell:
  assumes "i < 2000"
  shows "unat (cell i) = 0xB8000 + 2 * i" "unat (cell i + 1) = 0xB8001 + 2 * i"
proof -
  have "cell i = of_nat (0xB8000 + 2 * i)" "cell i + 1 = of_nat (0xB8001 + 2 * i)" by (simp_all add: cell_def)
  then show "unat (cell i) = 0xB8000 + 2 * i" "unat (cell i + 1) = 0xB8001 + 2 * i"
    using unat_of_nat_u32 [of "0xB8000 + 2 * i"] unat_of_nat_u32 [of "0xB8001 + 2 * i"] assms by simp_all
qed

lemma cell_area:
  assumes "i < 2000"
  shows "cell i \<in> screen_area" "cell i + 1 \<in> screen_area"
    and "cell i \<noteq> 0x450" "cell i \<noteq> 0x451" "cell i + 1 \<noteq> 0x450" "cell i + 1 \<noteq> 0x451"
  using assms by (simp_all add: screen_area_def word_le_nat_alt word_unat_eq_iff unat_cell)

lemma cell_distinct:
  assumes "i < 2000" "j < 2000" "i \<noteq> j"
  shows "cell i \<noteq> cell j" "cell i \<noteq> cell j + 1" "cell i + 1 \<noteq> cell j" "cell i + 1 \<noteq> cell j + 1"
proof -
  note u = unat_cell [OF assms(1)] unat_cell [OF assms(2)]
  have "unat (cell i) \<noteq> unat (cell j)" "unat (cell i) \<noteq> unat (cell j + 1)" "unat (cell i + 1) \<noteq> unat (cell j)"
    "unat (cell i + 1) \<noteq> unat (cell j + 1)"
    unfolding u using assms(3) by presburger+
  then show "cell i \<noteq> cell j" "cell i \<noteq> cell j + 1" "cell i + 1 \<noteq> cell j" "cell i + 1 \<noteq> cell j + 1" by auto
qed

context emu88_engine
begin

lemma screen_ram_cell:
  "\<lbrakk>screen_ram E m; i < 2000\<rbrakk> \<Longrightarrow> is_ram E m (cell i) \<and> is_ram E m (cell i + 1)"
  using cell_area [of i] by (simp add: screen_ram_def)

text \<open>The two ways the code stores a cell: as a word, and as character and attribute.\<close>

lemma cell_writew:
  assumes "screen_ram E m" "i < 2000"
  shows "same_outside E screen_area m (mem_writew E (cell i) w m)"
    and "j < 2000 \<Longrightarrow> mem_readw E (mem_writew E (cell i) w m) (cell j) = (if j = i then w else mem_readw E m (cell j))"
proof -
  note r = screen_ram_cell [OF assms]
  show "same_outside E screen_area m (mem_writew E (cell i) w m)"
    using r cell_area [OF assms(2)] by (intro same_outside_writew) simp_all
  assume "j < 2000"
  then show "mem_readw E (mem_writew E (cell i) w m) (cell j) = (if j = i then w else mem_readw E m (cell j))"
    using r screen_ram_cell [OF assms(1), of j] cell_distinct [of j i] assms(2)
    by (auto simp: mem_simps readw_writew_other)
qed

lemma cell_writeb:
  fixes a c :: u8
  assumes "screen_ram E m" "i < 2000"
  defines "m' \<equiv> mem_writeb E (cell i + 1) a (mem_writeb E (cell i) c m)"
  shows "same_outside E screen_area m m'"
    and "j < 2000 \<Longrightarrow> mem_readw E m' (cell j) = (if j = i then mk16 c a else mem_readw E m (cell j))"
proof -
  note r = screen_ram_cell [OF assms(1,2)]
  have "same_outside E screen_area m (mem_writeb E (cell i) c m)"
    using r cell_area [OF assms(2)] by (intro same_outside_writeb) simp_all
  moreover have "same_outside E screen_area (mem_writeb E (cell i) c m) m'"
    unfolding m'_def using r cell_area [OF assms(2)] by (intro same_outside_writeb) (simp_all add: mem_simps)
  ultimately show "same_outside E screen_area m m'" by (rule same_outside_trans)
  assume "j < 2000"
  then show "mem_readw E m' (cell j) = (if j = i then mk16 c a else mem_readw E m (cell j))"
    using r screen_ram_cell [OF assms(1), of j] cell_distinct [of j i] assms(2)
    by (auto simp: m'_def readw_bytes mem_simps)
qed

lemma scroll_lines:
  assumes "screen_ram E m" "n \<le> (ROWS - 1) * COLS"
  defines "m' \<equiv> \<lambda>n. fold (\<lambda>i m. mem_writew E (cell i) (mem_readw E m (cell (i + COLS))) m) [0 ..< n] m"
  shows "same_outside E screen_area m (m' n) \<and>
    (\<forall>j < 2000. mem_readw E (m' n) (cell j) = mem_readw E m (cell (if j < n then j + 80 else j)))"
  using assms(2)
proof (induction n)
  case (Suc n)
  have n: "n < 1920" using Suc.prems by (simp add: ROWS_def COLS_def)
  have IH: "same_outside E screen_area m (m' n)"
    "\<And>j. j < 2000 \<Longrightarrow> mem_readw E (m' n) (cell j) = mem_readw E m (cell (if j < n then j + 80 else j))"
    using Suc by simp_all
  have st: "m' (Suc n) = mem_writew E (cell n) (mem_readw E (m' n) (cell (n + 80))) (m' n)"
    by (simp add: m'_def COLS_def)
  note w = cell_writew [OF screen_ram_same [OF assms(1) IH(1)], of n, folded st]
  have "same_outside E screen_area m (m' (Suc n))"
    using same_outside_trans [OF IH(1)] w(1) n unfolding st by simp
  moreover have "mem_readw E (m' (Suc n)) (cell j) = mem_readw E m (cell (if j < Suc n then j + 80 else j))" if "j < 2000" for j
    using w(2) [of j "mem_readw E (m' n) (cell (n + 80))"] IH(2) [OF that] IH(2) [of "n + 80"] n that unfolding st by auto
  ultimately show ?case by blast
qed (simp add: m'_def)

lemma blank_lines:
  fixes attr :: u8
  assumes "screen_ram E m" "k \<le> n" "n \<le> 2000"
  defines "m' \<equiv> \<lambda>n. fold (\<lambda>i m. mem_writeb E (cell i + 1) attr (mem_writeb E (cell i) 0x20 m)) [k ..< n] m"
  shows "same_outside E screen_area m (m' n) \<and>
    (\<forall>j < 2000. mem_readw E (m' n) (cell j) = (if k \<le> j \<and> j < n then mk16 0x20 attr else mem_readw E m (cell j)))"
  using assms(2,3)
proof (induction n rule: dec_induct)
  case (step n)
  have IH: "same_outside E screen_area m (m' n)"
    "\<And>j. j < 2000 \<Longrightarrow> mem_readw E (m' n) (cell j) = (if k \<le> j \<and> j < n then mk16 0x20 attr else mem_readw E m (cell j))"
    using step by simp_all
  have st: "m' (Suc n) = mem_writeb E (cell n + 1) attr (mem_writeb E (cell n) 0x20 (m' n))"
    using step by (simp add: m'_def)
  note w = cell_writeb [OF screen_ram_same [OF assms(1) IH(1)], where i = n and a = attr and c = "0x20", folded st]
  have "same_outside E screen_area m (m' (Suc n))"
    using same_outside_trans [OF IH(1) w(1)] step by simp
  moreover have "mem_readw E (m' (Suc n)) (cell j) = (if k \<le> j \<and> j < Suc n then mk16 0x20 attr else mem_readw E m (cell j))"
    if "j < 2000" for j
    using w(2) [of j] IH(2) [OF that] step that by auto
  ultimately show ?case by blast
qed (auto simp: m'_def)

text \<open>Scrolling moves every row up by one and blanks the last.\<close>

lemma screen_scroll_rows:
  assumes "screen_ram E m"
  shows "same_outside E screen_area m (screen_scroll E attr m)"
    and "j < 2000 \<Longrightarrow> mem_readw E (screen_scroll E attr m) (cell j)
      = (if j < 1920 then mem_readw E m (cell (j + 80)) else mk16 0x20 attr)"
proof -
  define m1 where "m1 = fold (\<lambda>i m. mem_writew E (cell i) (mem_readw E m (cell (i + COLS))) m) [0 ..< (ROWS - 1) * COLS] m"
  have n: "(ROWS - 1) * COLS = 1920" "ROWS * COLS = 2000" by (simp_all add: ROWS_def COLS_def)
  note a = scroll_lines [OF assms order_refl, folded m1_def, unfolded n]
  note ram1 = screen_ram_same [OF assms conjunct1 [OF a]]
  have b: "same_outside E screen_area m1 (screen_scroll E attr m) \<and>
    (\<forall>j < 2000. mem_readw E (screen_scroll E attr m) (cell j) = (if 1920 \<le> j \<and> j < 2000 then mk16 0x20 attr else mem_readw E m1 (cell j)))"
    unfolding screen_scroll_def Let_def m1_def [symmetric] unfolding n
    by (rule blank_lines [OF ram1]) simp_all
  show "same_outside E screen_area m (screen_scroll E attr m)"
    by (rule same_outside_trans [OF conjunct1 [OF a] conjunct1 [OF b]])
  show "mem_readw E (screen_scroll E attr m) (cell j)
      = (if j < 1920 then mem_readw E m (cell (j + 80)) else mk16 0x20 attr)" if "j < 2000"
    using conjunct2 [OF a] conjunct2 [OF b] that by simp
qed

end

text \<open>The cursor word, and the cell a character printed at (\<open>row\<close>, \<open>col\<close>) ends up in once the screen has
  scrolled, if it did.\<close>

definition landing_cell :: "nat \<Rightarrow> nat \<Rightarrow> nat" where
  "landing_cell row col = (if row = 24 \<and> col = 79 then 23 * 80 + 79 else row * 80 + col)"

definition is_control :: "u8 \<Rightarrow> bool" where
  "is_control c \<longleftrightarrow> c \<in> {0x0D, 0x0A, 8, 9, 7}"

text \<open>What the control codes and the line wrap do to the position: column and row before and after the
  wrap, and whether the screen scrolls.\<close>

definition putchar_pos :: "u8 \<Rightarrow> nat \<Rightarrow> nat \<Rightarrow> nat \<times> nat" where
  "putchar_pos c row col = (let
     (row, col) = (
       if c = 0x0D then (row, 0)
       else if c = 0x0A then (row + 1, col)
       else if c = 0x08 then (row, (if col > 0 then col - 1 else col))
       else if c = 0x09 then (row, (col + 8) div 8 * 8)
       else if c = 7 then (row, col)
       else (row, col + 1))
   in if col \<ge> COLS then (row + 1, 0) else (row, col))"

definition putchar_store :: "'m emu88 \<Rightarrow> u8 \<Rightarrow> u8 \<Rightarrow> nat \<Rightarrow> nat \<Rightarrow> 'm \<Rightarrow> 'm" where
  "putchar_store E attr c row col m = (if is_control c then m
     else mem_writeb E (cell (row * COLS + col) + 1) attr (mem_writeb E (cell (row * COLS + col)) c m))"

lemma screen_putchar_split:
  fixes E :: "'m emu88" and m :: 'm and attr c :: u8
  defines "row \<equiv> min (unat (hi8 (mem_readw E m 0x450))) 24" and "col \<equiv> min (unat (lo8 (mem_readw E m 0x450))) 79"
  defines "m1 \<equiv> putchar_store E attr c row col m"
  shows "screen_putchar E attr c m = (case putchar_pos c row col of (r, k) \<Rightarrow>
     if r \<ge> ROWS then mem_writew E 0x450 (of_nat (24 * 256 + k)) (screen_scroll E attr m1)
     else mem_writew E 0x450 (of_nat (r * 256 + k)) m1)"
proof -
  have mins: "(if 79 < a then 79 else a) = min a 79" "(if 24 < a then 24 else a) = min a (24 :: nat)" for a :: nat
    by (simp_all add: min_def)
  consider "c = 0x0D" | "c = 0x0A" | "c = 8" | "c = 9" | "c = 7" | "\<not> is_control c" by (auto simp: is_control_def)
  then show ?thesis
    unfolding screen_putchar_def Let_def mins m1_def row_def [symmetric] col_def [symmetric]
    by cases (simp_all add: putchar_pos_def putchar_store_def is_control_def del: of_nat_add of_nat_mult of_nat_diff of_nat_Suc)
qed

context emu88_engine
begin

lemma putchar_store_screen:
  assumes ram: "screen_ram E m" and pos: "row \<le> 24" "col \<le> 79"
  shows "same_outside E screen_area m (putchar_store E attr c row col m)"
    and "\<not> is_control c \<Longrightarrow> mem_readw E (putchar_store E attr c row col m) (cell (row * 80 + col)) = mk16 c attr"
proof -
  have i: "row * 80 + col < 2000" using pos by simp
  note w = cell_writeb [OF ram i, where a = attr and c = c]
  show "same_outside E screen_area m (putchar_store E attr c row col m)"
    using w(1) by (simp add: putchar_store_def COLS_def)
  show "\<not> is_control c \<Longrightarrow> mem_readw E (putchar_store E attr c row col m) (cell (row * 80 + col)) = mk16 c attr"
    using w(2) [OF i] by (simp add: putchar_store_def COLS_def)
qed

text \<open>Storing the cursor word leaves the screen alone.\<close>

lemma cursor_write:
  assumes ram: "screen_ram E m"
  shows "mem_readw E (mem_writew E 0x450 w m) 0x450 = w"
    and "same_outside E (screen_area \<union> screen_cursor) m (mem_writew E 0x450 w m)"
    and "j < 2000 \<Longrightarrow> mem_readw E (mem_writew E 0x450 w m) (cell j) = mem_readw E m (cell j)"
proof -
  have r: "is_ram E m 0x450" "is_ram E m (0x450 + 1)" using ram by (simp_all add: screen_ram_def screen_cursor_def)
  then show "mem_readw E (mem_writew E 0x450 w m) 0x450 = w" by (rule readw_writew_same)
  show "same_outside E (screen_area \<union> screen_cursor) m (mem_writew E 0x450 w m)"
    by (rule same_outside_writew) (use r in \<open>simp_all add: screen_cursor_def\<close>)
  show "mem_readw E (mem_writew E 0x450 w m) (cell j) = mem_readw E m (cell j)" if "j < 2000"
    by (rule readw_writew_other) (use r screen_ram_cell [OF ram that] cell_area [OF that] in simp_all)
qed

end

lemma same_outside_mono: "\<lbrakk>same_outside E S m m'; S \<subseteq> T\<rbrakk> \<Longrightarrow> same_outside E T m m'"
  by (auto simp: same_outside_def)

lemma putchar_pos_bounds:
  assumes "row \<le> 24" "col \<le> 79" "putchar_pos c row col = (r, k)"
  shows "k < 80" "r \<le> 25"
proof -
  have "(col + 8) div 8 * 8 \<le> 80" using assms(2) by presburger
  then show "k < 80" "r \<le> 25" using assms by (auto simp: putchar_pos_def COLS_def Let_def split: if_splits)
qed

lemma putchar_pos_scroll:
  "\<lbrakk>row \<le> 24; col \<le> 79; \<not> is_control c\<rbrakk> \<Longrightarrow> ROWS \<le> fst (putchar_pos c row col) \<longleftrightarrow> row = 24 \<and> col = 79"
  by (auto simp: putchar_pos_def is_control_def COLS_def ROWS_def Let_def)

lemma cursor_word:
  assumes "r < 25" "k < 80"
  shows "unat (lo8 (of_nat (r * 256 + k))) = k" "unat (hi8 (of_nat (r * 256 + k))) = r"
proof -
  have u: "unat (of_nat (r * 256 + k) :: u16) = r * 256 + k" using assms by (intro unat_of_nat_u16) simp
  show "unat (lo8 (of_nat (r * 256 + k))) = k"
    unfolding lo8_def unsigned_ucast_eq u using assms by (simp add: take_bit_eq_mod)
  show "unat (hi8 (of_nat (r * 256 + k))) = r"
    unfolding hi8_def unsigned_ucast_eq unat_drop_bit_eq u using assms by (simp add: take_bit_eq_mod drop_bit_eq_div)
qed

text \<open>C16: Teletype output stays on the screen. Whatever the cursor held, after \<open>screen_putchar\<close> it is inside the
  80 by 25 screen, memory changed only in the text buffer and the cursor word, and a character that is not
  a control code stands with its attribute in the cell under the old cursor, or one row higher when
  printing it at the bottom right corner scrolled the screen.\<close>

theorem screen_putchar_correct:
  fixes attr c :: u8
  assumes "emu88_engine E" and ram: "screen_ram E m"
  defines "pos \<equiv> mem_readw E m 0x450" and "m' \<equiv> screen_putchar E attr c m"
  shows "unat (lo8 (mem_readw E m' 0x450)) < 80 \<and> unat (hi8 (mem_readw E m' 0x450)) < 25
    \<and> same_outside E (screen_area \<union> screen_cursor) m m'
    \<and> (\<not> is_control c \<longrightarrow>
      mem_readw E m' (cell (landing_cell (min (unat (hi8 pos)) 24) (min (unat (lo8 pos)) 79))) = mk16 c attr)"
proof -
  let ?row = "min (unat (hi8 pos)) 24" and ?col = "min (unat (lo8 pos)) 79"
  let ?m1 = "putchar_store E attr c ?row ?col m"
  have b: "?row \<le> 24" "?col \<le> 79" by simp_all
  obtain r k where rk: "putchar_pos c ?row ?col = (r, k)" by fastforce
  note kb = putchar_pos_bounds [OF b rk]
  note st = emu88_engine.putchar_store_screen [OF assms(1) ram b, where attr = attr and c = c]
  note ram1 = screen_ram_same [OF ram st(1)]
  note sc = emu88_engine.screen_scroll_rows [OF assms(1) ram1, where attr = attr]
  define m2 where "m2 = (if ROWS \<le> r then screen_scroll E attr ?m1 else ?m1)"
  define r2 where "r2 = (if ROWS \<le> r then 24 else r)"
  have m': "m' = mem_writew E 0x450 (of_nat (r2 * 256 + k)) m2"
    unfolding m'_def screen_putchar_split pos_def [symmetric] rk by (simp add: m2_def r2_def)
  have r2: "r2 < 25" by (simp add: r2_def ROWS_def)
  have same: "same_outside E screen_area m m2"
    using st(1) same_outside_trans [OF st(1) sc(1)] by (simp add: m2_def)
  note cw = emu88_engine.cursor_write [OF assms(1) screen_ram_same [OF ram same], where w = "of_nat (r2 * 256 + k)", folded m']
  have land: "landing_cell ?row ?col < 2000" using b by (auto simp: landing_cell_def)
  have "mem_readw E m2 (cell (landing_cell ?row ?col)) = mk16 c attr" if "\<not> is_control c"
    using st(2) [OF that] sc(2) [of "23 * 80 + 79"] putchar_pos_scroll [OF b that]
    by (auto simp: m2_def landing_cell_def rk)
  then show ?thesis
    using cw same_outside_trans [OF same_outside_mono [OF same] cw(2)] land cursor_word [OF r2 kb(1)] kb r2 by auto
qed

theorem screen_putchar_correct_witness:
  "mem_readw flat (screen_putchar flat 7 0x41 (\<lambda>_. 0)) (cell 0) = 0x0741
    \<and> unat (lo8 (mem_readw flat (screen_putchar flat 7 0x41 (\<lambda>_. 0)) 0x450)) < 80"
  using screen_putchar_correct [OF flat_ram.emu88_engine_axioms, of "\<lambda>_. 0" 7 "0x41"]
  by (simp add: screen_ram_def is_control_def landing_cell_def mem_readw_def flat_def mk16_def lo8_def hi8_def)

end
