(* ===== verification/Hardware.thy ===== *)
theory Hardware
  imports Bios
begin

text \<open>
  The device ports of \<open>hardware.cc\<close>: the interrupt controller, channel 2 of the timer with the speaker gate,
  the game port, the audio mixer, and the joystick service INT 15h. The OPL, speaker and Sound Blaster
  chips live in the engine's repository; they are the record \<open>devices\<close>, whose Sound Blaster operations also
  return the interrupt lines they raised through the \<open>raise_irq\<close> callback. The audio thread and the CPU thread
  share \<open>hw_irq_pending\<close>: their atomic operations are the steps of \<open>irq_step\<close>.
\<close>

section \<open>Chips as a parameter\<close>

record ('o, 'p, 'b) devices =
  opl_new :: 'o
  opl_reset :: "'o \<Rightarrow> 'o"
  opl_write_port :: "u16 \<Rightarrow> u8 \<Rightarrow> 'o \<Rightarrow> 'o"
  opl_read_port :: "u16 \<Rightarrow> 'o \<Rightarrow> u8 \<times> 'o"
  opl_render :: "int list \<Rightarrow> nat \<Rightarrow> nat \<Rightarrow> 'o \<Rightarrow> int list \<times> 'o"
  spk_new :: 'p
  spk_reset :: "'p \<Rightarrow> 'p"
  spk_set_tone :: "nat \<Rightarrow> bool \<Rightarrow> 'p \<Rightarrow> 'p"
  spk_render :: "int list \<Rightarrow> nat \<Rightarrow> nat \<Rightarrow> 'p \<Rightarrow> int list \<times> 'p"
  sb_new :: "u16 \<Rightarrow> nat \<Rightarrow> nat \<Rightarrow> nat \<Rightarrow> 'b"
  sb_reset :: "'b \<Rightarrow> 'b"
  sb_write_port :: "(u32 \<Rightarrow> u8) \<Rightarrow> u16 \<Rightarrow> u8 \<Rightarrow> 'b \<Rightarrow> nat list \<times> 'b"
  sb_read_port :: "(u32 \<Rightarrow> u8) \<Rightarrow> u16 \<Rightarrow> 'b \<Rightarrow> u8 \<times> nat list \<times> 'b"
  sb_dma_write :: "u16 \<Rightarrow> u8 \<Rightarrow> 'b \<Rightarrow> 'b"
  sb_dma_read :: "u16 \<Rightarrow> 'b \<Rightarrow> u8 \<times> 'b"
  sb_is_playing :: "'b \<Rightarrow> bool"
  sb_render :: "(u32 \<Rightarrow> u8) \<Rightarrow> int list \<Rightarrow> nat \<Rightarrow> nat \<Rightarrow> 'b \<Rightarrow> int list \<times> nat list \<times> 'b"

section \<open>State\<close>

record ('o, 'p, 'b) hardware =
  g_opl :: "'o option"
  g_spk :: "'p option"
  g_sb :: "'b option"
  pit2_reload :: u16
  pit2_access :: u8
  pit2_phase :: nat
  port61 :: u8
  pic_imr_master :: u8
  pic_imr_slave :: u8
  hw_irq_pending :: u32
  g_host_audio :: bool
  joy_axis :: "int list"
  joy_btn :: u32
  joy_present :: bool
  joy_oneshot :: "int list"

text \<open>The initial values of the static variables.\<close>

definition hw_static :: "('o, 'p, 'b) hardware" where
  "hw_static = \<lparr>g_opl = None, g_spk = None, g_sb = None, pit2_reload = 0, pit2_access = 3, pit2_phase = 0,
     port61 = 0, pic_imr_master = 0xFF, pic_imr_slave = 0xFF, hw_irq_pending = 0, g_host_audio = False,
     joy_axis = [0, 0, 0, 0], joy_btn = 0, joy_present = True, joy_oneshot = [0, 0, 0, 0]\<rparr>"

section \<open>Helpers\<close>

text \<open>
  The pot position as a count. The source scales in \<open>double\<close>; over the 65536 positions of a stick (and the
  clamped values outside) the truncated product equals the integer quotient below.
\<close>

definition axis_count :: "nat \<Rightarrow> ('o, 'p, 'b) hardware \<Rightarrow> int" where
  "axis_count a h = 6 + min 65535 (max 0 (joy_axis h ! a + 32768)) * 1000 div 65535"

definition spk_freq :: "('o, 'p, 'b) hardware \<Rightarrow> nat" where
  "spk_freq h = (if pit2_reload h \<noteq> 0 then 1193182 div unat (pit2_reload h) else 0)"

definition spk_gate :: "('o, 'p, 'b) hardware \<Rightarrow> bool" where
  "spk_gate h \<longleftrightarrow> port61 h AND 3 = 3"

definition irq_masked :: "nat \<Rightarrow> ('o, 'p, 'b) hardware \<Rightarrow> bool" where
  "irq_masked irq h = (if irq < 8 then ucast (pic_imr_master h) AND push_bit irq 1 \<noteq> (0 :: u32)
     else ucast (pic_imr_slave h) AND push_bit (irq - 8) 1 \<noteq> (0 :: u32) \<or> pic_imr_master h AND 4 \<noteq> 0)"

definition irq_vector :: "nat \<Rightarrow> nat" where
  "irq_vector irq = (if irq < 8 then 0x08 + irq else 0x70 + (irq - 8))"

definition raise_irq :: "nat \<Rightarrow> ('o, 'p, 'b) hardware \<Rightarrow> ('o, 'p, 'b) hardware" where
  "raise_irq irq h = h\<lparr>hw_irq_pending := hw_irq_pending h OR push_bit (irq mod 16) 1\<rparr>"

text \<open>The Sound Blaster's view of guest memory: none before the machine exists.\<close>

definition sb_mem_read :: "'m emu88 \<Rightarrow> 'm option \<Rightarrow> u32 \<Rightarrow> u8" where
  "sb_mem_read E mm a = (case mm of Some m \<Rightarrow> fetch_mem E m a | None \<Rightarrow> 0)"

section \<open>Start and stop\<close>

definition hw_init :: "('o, 'p, 'b) devices \<Rightarrow> ('o, 'p, 'b) hardware \<Rightarrow> ('o, 'p, 'b) hardware" where
  "hw_init D h = (let
     opl = (case g_opl h of Some c \<Rightarrow> c | None \<Rightarrow> opl_new D);
     spk = (case g_spk h of Some c \<Rightarrow> c | None \<Rightarrow> spk_new D);
     sb = (case g_sb h of Some c \<Rightarrow> c | None \<Rightarrow> sb_new D 0x220 5 1 5)
   in h\<lparr>g_opl := Some (opl_reset D opl), g_spk := Some (spk_reset D spk), g_sb := Some (sb_reset D sb),
        pit2_reload := 0, pit2_access := 3, pit2_phase := 0, port61 := 0,
        pic_imr_master := 0xFF, pic_imr_slave := 0xFF, hw_irq_pending := 0\<rparr>)"

definition hw_shutdown :: "('o, 'p, 'b) hardware \<Rightarrow> ('o, 'p, 'b) hardware" where
  "hw_shutdown h = h\<lparr>g_opl := None, g_spk := None, g_sb := None\<rparr>"

definition set_host_audio :: "bool \<Rightarrow> ('o, 'p, 'b) hardware \<Rightarrow> ('o, 'p, 'b) hardware" where
  "set_host_audio on h = h\<lparr>g_host_audio := on\<rparr>"

section \<open>I/O ports\<close>

definition is_opl_port :: "u16 \<Rightarrow> bool" where
  "is_opl_port port \<longleftrightarrow> port = 0x388 \<or> port = 0x389"

definition is_sb_port :: "u16 \<Rightarrow> bool" where
  "is_sb_port port \<longleftrightarrow> port \<ge> 0x220 \<and> port \<le> 0x22F"

definition is_dma_port :: "u16 \<Rightarrow> bool" where
  "is_dma_port port \<longleftrightarrow> port \<le> 0x0F \<or> port \<ge> 0x80 \<and> port \<le> 0x8F \<or> port \<ge> 0xC0 \<and> port \<le> 0xDF"

text \<open>The \<open>switch\<close> of \<open>port_out\<close>: the registers of the PIC, the timer and the speaker gate.\<close>

definition port_out_regs :: "u16 \<Rightarrow> u8 \<Rightarrow> ('o, 'p, 'b) hardware \<Rightarrow> ('o, 'p, 'b) hardware" where
  "port_out_regs port val h =
    (if port = 0x20 \<or> port = 0xA0 then h
     else if port = 0x21 then h\<lparr>pic_imr_master := val\<rparr>
     else if port = 0xA1 then h\<lparr>pic_imr_slave := val\<rparr>
     else if port = 0x43 then
       if drop_bit 6 val = 2 then h\<lparr>pit2_access := drop_bit 4 val AND 3, pit2_phase := 0\<rparr> else h
     else if port = 0x42 then
       if pit2_access h = 1 then h\<lparr>pit2_reload := ucast val\<rparr>
       else if pit2_access h = 2 then h\<lparr>pit2_reload := push_bit 8 (ucast val)\<rparr>
       else if pit2_phase h = 0 then
         h\<lparr>pit2_reload := (pit2_reload h AND 0xFF00) OR ucast val, pit2_phase := 1\<rparr>
       else h\<lparr>pit2_reload := (pit2_reload h AND 0x00FF) OR push_bit 8 (ucast val), pit2_phase := 0\<rparr>
     else if port = 0x61 then h\<lparr>port61 := val\<rparr>
     else h)"

definition hw_port_out ::
  "('o, 'p, 'b) devices \<Rightarrow> (u32 \<Rightarrow> u8) \<Rightarrow> u16 \<Rightarrow> u8 \<Rightarrow> ('o, 'p, 'b) hardware \<Rightarrow> ('o, 'p, 'b) hardware" where
  "hw_port_out D rd port val h =
    (case (if is_opl_port port then g_opl h else None) of
       Some opl \<Rightarrow> h\<lparr>g_opl := Some (opl_write_port D (port - 0x388) val opl)\<rparr>
     | None \<Rightarrow>
    (case (if is_sb_port port \<or> is_dma_port port then g_sb h else None) of
       Some sb \<Rightarrow>
         if is_sb_port port then
           (case sb_write_port D rd (port - 0x220) val sb of
              (irqs, sb) \<Rightarrow> fold raise_irq irqs (h\<lparr>g_sb := Some sb\<rparr>))
         else h\<lparr>g_sb := Some (sb_dma_write D port val sb)\<rparr>
     | None \<Rightarrow>
         if port = 0x201 then h\<lparr>joy_oneshot := map (\<lambda>a. axis_count a h) [0..<4]\<rparr>
         else port_out_regs port val h))"

text \<open>The game port's status byte, and the monostables counted down by reading it.\<close>

definition joy_byte :: "('o, 'p, 'b) hardware \<Rightarrow> u8" where
  "joy_byte h = (let
     b = fold (\<lambda>a b. if joy_oneshot h ! a > 0 then b OR push_bit a 1 else b) [0..<4] 0
   in fold (\<lambda>j b. if joy_btn h AND push_bit j 1 = 0 then b OR push_bit (4 + j) 1 else b) [0..<4] b)"

definition joy_countdown :: "('o, 'p, 'b) hardware \<Rightarrow> ('o, 'p, 'b) hardware" where
  "joy_countdown h =
    h\<lparr>joy_oneshot := map (\<lambda>a. if joy_oneshot h ! a > 0 then joy_oneshot h ! a - 1 else joy_oneshot h ! a) [0..<4]\<rparr>"

definition hw_port_in ::
  "('o, 'p, 'b) devices \<Rightarrow> (u32 \<Rightarrow> u8) \<Rightarrow> u16 \<Rightarrow> ('o, 'p, 'b) hardware \<Rightarrow> u8 option \<times> ('o, 'p, 'b) hardware" where
  "hw_port_in D rd port h =
    (case (if is_opl_port port then g_opl h else None) of
       Some opl \<Rightarrow> (case opl_read_port D (port - 0x388) opl of (v, opl) \<Rightarrow> (Some v, h\<lparr>g_opl := Some opl\<rparr>))
     | None \<Rightarrow>
    (case (if is_sb_port port \<or> is_dma_port port then g_sb h else None) of
       Some sb \<Rightarrow>
         if is_sb_port port then
           (case sb_read_port D rd (port - 0x220) sb of
              (v, irqs, sb) \<Rightarrow> (Some v, fold raise_irq irqs (h\<lparr>g_sb := Some sb\<rparr>)))
         else (case sb_dma_read D port sb of (v, sb) \<Rightarrow> (Some v, h\<lparr>g_sb := Some sb\<rparr>))
     | None \<Rightarrow>
         if port = 0x201 then
           if \<not> joy_present h then (Some 0xFF, h) else (Some (joy_byte h), joy_countdown h)
         else if port = 0x21 then (Some (pic_imr_master h), h)
         else if port = 0xA1 then (Some (pic_imr_slave h), h)
         else if port = 0x61 then (Some (port61 h), h)
         else (None, h)))"

section \<open>Joystick\<close>

definition set_joystick :: "int list \<Rightarrow> u32 \<Rightarrow> bool \<Rightarrow> ('o, 'p, 'b) hardware \<Rightarrow> ('o, 'p, 'b) hardware" where
  "set_joystick axes buttons present h =
     h\<lparr>joy_axis := map (\<lambda>a. axes ! a) [0..<4], joy_btn := buttons, joy_present := present\<rparr>"

definition joystick_axis_count :: "int \<Rightarrow> ('o, 'p, 'b) hardware \<Rightarrow> int" where
  "joystick_axis_count a h = (if a \<ge> 0 \<and> a < 4 then axis_count (nat a) h else 0)"

definition dosiz_int15 ::
  "'m emu88 \<Rightarrow> ('o, 'p, 'b) hardware \<Rightarrow> ('m, 'z) machine_scheme \<Rightarrow> ('m, 'z) machine_scheme" where
  "dosiz_int15 E h s =
    (if reg_ah s \<noteq> 0x84 then s
     else if \<not> joy_present h then CALLBACK_SCF E True (set_ah 0x86 s)
     else if reg_dx s = 0 then
       CALLBACK_SCF E False (set_al (fold (\<lambda>j b. if joy_btn h AND push_bit j 1 = 0 then b OR push_bit (4 + j) 1 else b) [0..<4] 0) s)
     else if reg_dx s = 1 then
       CALLBACK_SCF E False
         (set_dx (word_of_int (joystick_axis_count 3 h))
         (set_cx (word_of_int (joystick_axis_count 2 h))
         (set_bx (word_of_int (joystick_axis_count 1 h))
         (set_ax (word_of_int (joystick_axis_count 0 h)) s))))
     else CALLBACK_SCF E True s)"

section \<open>Interrupt delivery\<close>

text \<open>The scan of \<open>take_pending_irq_vector\<close> over the value it loaded, from line \<open>irq\<close> on.\<close>

function irq_scan :: "u32 \<Rightarrow> ('o, 'p, 'b) hardware \<Rightarrow> nat \<Rightarrow> nat option" where
  "irq_scan pending h irq =
    (if irq < 16 then
       if pending AND push_bit irq 1 \<noteq> 0 \<and> \<not> irq_masked irq h then Some irq
       else irq_scan pending h (irq + 1)
     else None)"
  by pat_completeness auto
termination
  by (relation "measure (\<lambda>(_, _, irq). 16 - irq)") auto

declare irq_scan.simps [simp del]

definition clear_irq :: "nat \<Rightarrow> ('o, 'p, 'b) hardware \<Rightarrow> ('o, 'p, 'b) hardware" where
  "clear_irq irq h = h\<lparr>hw_irq_pending := hw_irq_pending h AND NOT (push_bit irq 1)\<rparr>"

definition take_pending_irq_vector :: "('o, 'p, 'b) hardware \<Rightarrow> int \<times> ('o, 'p, 'b) hardware" where
  "take_pending_irq_vector h = (let pending = hw_irq_pending h in
     if pending = 0 then (-1, h)
     else case irq_scan pending h 0 of
         Some irq \<Rightarrow> (int (irq_vector irq), clear_irq irq h)
       | None \<Rightarrow> (-1, h))"

section \<open>Audio\<close>

definition clip16 :: "int \<Rightarrow> int" where
  "clip16 s = (let s = (if s > 32767 then 32767 else s) in if s < -32768 then -32768 else s)"

definition mix_opl ::
  "('o, 'p, 'b) devices \<Rightarrow> nat \<Rightarrow> nat \<Rightarrow> int list \<times> ('o, 'p, 'b) hardware \<Rightarrow> int list \<times> ('o, 'p, 'b) hardware" where
  "mix_opl D frames rate = (\<lambda>(mix, h). case g_opl h of
       Some c \<Rightarrow> (let (mix, c) = opl_render D mix frames rate c in (mix, h\<lparr>g_opl := Some c\<rparr>))
     | None \<Rightarrow> (mix, h))"

definition mix_spk ::
  "('o, 'p, 'b) devices \<Rightarrow> nat \<Rightarrow> nat \<Rightarrow> int list \<times> ('o, 'p, 'b) hardware \<Rightarrow> int list \<times> ('o, 'p, 'b) hardware" where
  "mix_spk D frames rate = (\<lambda>(mix, h). case g_spk h of
       Some c \<Rightarrow> (let c = spk_set_tone D (spk_freq h) (spk_gate h) c;
                      (mix, c) = spk_render D mix frames rate c
                  in (mix, h\<lparr>g_spk := Some c\<rparr>))
     | None \<Rightarrow> (mix, h))"

definition mix_sb ::
  "('o, 'p, 'b) devices \<Rightarrow> (u32 \<Rightarrow> u8) \<Rightarrow> nat \<Rightarrow> nat \<Rightarrow> int list \<times> ('o, 'p, 'b) hardware
     \<Rightarrow> int list \<times> ('o, 'p, 'b) hardware" where
  "mix_sb D rd frames rate = (\<lambda>(mix, h). case g_sb h of
       Some c \<Rightarrow> (let (mix, irqs, c) = sb_render D rd mix frames rate c
                  in (mix, fold raise_irq irqs (h\<lparr>g_sb := Some c\<rparr>)))
     | None \<Rightarrow> (mix, h))"

definition audio_render ::
  "('o, 'p, 'b) devices \<Rightarrow> (u32 \<Rightarrow> u8) \<Rightarrow> nat \<Rightarrow> nat \<Rightarrow> ('o, 'p, 'b) hardware
     \<Rightarrow> u16 list \<times> ('o, 'p, 'b) hardware" where
  "audio_render D rd frames rate h = (let
     n = frames * 2;
     (mix, h) = mix_sb D rd frames rate (mix_spk D frames rate (mix_opl D frames rate (replicate n 0, h)))
   in (map (\<lambda>s. word_of_int (clip16 s)) (take n mix), h))"

definition audio_tick ::
  "('o, 'p, 'b) devices \<Rightarrow> (u32 \<Rightarrow> u8) \<Rightarrow> ('o, 'p, 'b) hardware \<Rightarrow> ('o, 'p, 'b) hardware" where
  "audio_tick D rd h = (let playing = (case g_sb h of Some c \<Rightarrow> sb_is_playing D c | None \<Rightarrow> False) in
     if g_host_audio h \<or> \<not> playing then h
     else snd (audio_render D rd (44100 div 64) 44100 h))"

section \<open>Priority of delivery\<close>

text \<open>The lines the controller would deliver.\<close>

definition deliverable :: "u32 \<Rightarrow> ('o, 'p, 'b) hardware \<Rightarrow> nat set" where
  "deliverable pending h = {irq. irq < 16 \<and> bit pending irq \<and> \<not> irq_masked irq h}"

lemma irq_masked_bits:
  assumes "irq < 16"
  shows "irq_masked irq h \<longleftrightarrow>
    (if irq < 8 then bit (pic_imr_master h) irq else bit (pic_imr_slave h) (irq - 8) \<or> bit (pic_imr_master h) 2)"
  using assms and_exp_eq_0_iff_not_bit [of "pic_imr_master h" 2]
  by (auto simp: irq_masked_def and_exp_eq_0_iff_not_bit bit_simps)

lemma irq_scan_Some:
  assumes "irq_scan pending h i = Some irq"
  shows "irq \<in> deliverable pending h" and "i \<le> irq" and "\<forall>j\<in>deliverable pending h. i \<le> j \<longrightarrow> irq \<le> j"
  using assms
proof (induction pending h i rule: irq_scan.induct)
  case (1 pending h i)
  { case 1 with "1.IH" show ?case
      by (subst (asm) irq_scan.simps) (auto simp: deliverable_def and_exp_eq_0_iff_not_bit split: if_splits) }
  { case 2 with "1.IH" show ?case
      by (subst (asm) irq_scan.simps) (auto split: if_splits) }
  { case 3 with "1.IH" show ?case
      by (subst (asm) irq_scan.simps) (auto simp: deliverable_def and_exp_eq_0_iff_not_bit le_eq_less_or_eq split: if_splits) }
qed

lemma irq_scan_None:
  "irq_scan pending h i = None \<longleftrightarrow> (\<forall>j\<in>deliverable pending h. j < i)"
proof (induction pending h i rule: irq_scan.induct)
  case (1 pending h i)
  then show ?case
    by (subst irq_scan.simps) (auto simp: deliverable_def and_exp_eq_0_iff_not_bit less_Suc_eq)
qed

lemma irq_scan_Min:
  "irq_scan pending h 0 = (if deliverable pending h = {} then None else Some (Min (deliverable pending h)))"
proof (cases "irq_scan pending h 0")
  case None
  then show ?thesis using irq_scan_None [of pending h 0] by auto
next
  case (Some irq)
  have "finite (deliverable pending h)" by (simp add: deliverable_def)
  then have "Min (deliverable pending h) = irq"
    using irq_scan_Some [OF Some] by (intro Min_eqI) auto
  with irq_scan_Some(1) [OF Some] Some show ?thesis by auto
qed

lemma deliverable_zero [simp]: "deliverable 0 h = {}"
  by (simp add: deliverable_def)

text \<open>\<open>take_pending_irq_vector\<close> answers -1 and changes nothing exactly when every pending line is masked;
  otherwise it returns the vector of the lowest pending unmasked line (IRQ 0-7 are vectors 08h-0Fh and IRQ 8-15
  vectors 70h-77h, the slave's lines being masked by the cascade bit too) and clears exactly that line's bit.\<close>

theorem take_pending_irq_priority:
  fixes h :: "('o, 'p, 'b) hardware"
  defines "ready \<equiv> {irq. irq < 16 \<and> bit (hw_irq_pending h) irq \<and>
    \<not> (if irq < 8 then bit (pic_imr_master h) irq else bit (pic_imr_slave h) (irq - 8) \<or> bit (pic_imr_master h) 2)}"
  shows "take_pending_irq_vector h =
    (if ready = {} then (-1, h)
     else (int (if Min ready < 8 then 0x08 + Min ready else 0x70 + (Min ready - 8)),
           h\<lparr>hw_irq_pending := unset_bit (Min ready) (hw_irq_pending h)\<rparr>))"
proof -
  have ready: "ready = deliverable (hw_irq_pending h) h"
    unfolding ready_def deliverable_def using irq_masked_bits by blast
  show ?thesis
    by (auto simp: take_pending_irq_vector_def Let_def Let_def irq_scan_Min ready irq_vector_def clear_irq_def unset_bit_eq_and_not)
qed

section \<open>Two threads\<close>

text \<open>
  The CPU thread loads \<open>hw_irq_pending\<close>, scans the loaded value and clears one bit with an atomic
  read-modify-write; the audio thread may set bits at any moment in between. \<open>irq_event\<close> is what an observer of
  the atomic operations sees.
\<close>

datatype irq_pc = Idle | Scanning u32

datatype irq_event = Raise nat | Load | Deliver nat | NoIrq | PortOut u16 u8

inductive irq_step ::
  "('o, 'p, 'b) hardware \<times> irq_pc \<Rightarrow> irq_event \<Rightarrow> ('o, 'p, 'b) hardware \<times> irq_pc \<Rightarrow> bool" where
  audio_raise: "irq_step (h, pc) (Raise irq) (raise_irq irq h, pc)"
| cpu_load: "irq_step (h, Idle) Load (h, if hw_irq_pending h = 0 then Idle else Scanning (hw_irq_pending h))"
| cpu_deliver: "irq_scan pending h 0 = Some irq \<Longrightarrow>
    irq_step (h, Scanning pending) (Deliver irq) (clear_irq irq h, Idle)"
| cpu_none: "irq_scan pending h 0 = None \<Longrightarrow> irq_step (h, Scanning pending) NoIrq (h, Idle)"
| cpu_port: "irq_step (h, Idle) (PortOut port val) (port_out_regs port val h, Idle)"

inductive_cases irq_stepE: "irq_step c e c'"

inductive irq_run ::
  "('o, 'p, 'b) hardware \<times> irq_pc \<Rightarrow> irq_event list \<Rightarrow> ('o, 'p, 'b) hardware \<times> irq_pc \<Rightarrow> bool" where
  run_Nil: "irq_run c [] c"
| run_snoc: "\<lbrakk>irq_run c es c'; irq_step c' e c''\<rbrakk> \<Longrightarrow> irq_run c (es @ [e]) c''"

inductive_cases irq_run_snocE: "irq_run c (es @ [e]) c'"

text \<open>A line awaits delivery when it was raised since it was last delivered.\<close>

definition awaiting_step :: "nat \<Rightarrow> irq_event \<Rightarrow> bool \<Rightarrow> bool" where
  "awaiting_step irq e b = (case e of Raise n \<Rightarrow> n mod 16 = irq \<or> b | Deliver n \<Rightarrow> n \<noteq> irq \<and> b | _ \<Rightarrow> b)"

definition awaiting :: "nat \<Rightarrow> irq_event list \<Rightarrow> bool" where
  "awaiting irq es = fold (awaiting_step irq) es False"

lemma awaiting_snoc [simp]: "awaiting irq (es @ [e]) = awaiting_step irq e (awaiting irq es)"
  by (simp add: awaiting_def)

lemma port_out_regs_pending [simp]: "hw_irq_pending (port_out_regs port val h) = hw_irq_pending h"
  by (simp add: port_out_regs_def)

lemma take_is_two_steps:
  assumes "take_pending_irq_vector h = (v, h')"
  obtains "v = -1" "h' = h" | pc irq where "v = int (irq_vector irq)" "irq_step (h, Idle) Load (h, pc)" "irq_step (h, pc) (Deliver irq) (h', Idle)"
proof (cases "hw_irq_pending h = 0 \<or> irq_scan (hw_irq_pending h) h 0 = None")
  case True
  with assms that(1) show ?thesis by (auto simp: take_pending_irq_vector_def Let_def split: if_splits)
next
  case False
  then obtain irq where "irq_scan (hw_irq_pending h) h 0 = Some irq" by auto
  with False assms that(2) [of irq "Scanning (hw_irq_pending h)"] show ?thesis
    using cpu_load [of h] cpu_deliver by (auto simp: take_pending_irq_vector_def Let_def)
qed

text \<open>The value being scanned never holds a bit that the shared word has lost.\<close>

definition irq_inv :: "irq_event list \<Rightarrow> ('o, 'p, 'b) hardware \<times> irq_pc \<Rightarrow> bool" where
  "irq_inv es c \<longleftrightarrow> (\<forall>irq<16. bit (hw_irq_pending (fst c)) irq \<longleftrightarrow> awaiting irq es)
    \<and> (\<forall>pending. snd c = Scanning pending \<longrightarrow> (\<forall>irq<16. bit pending irq \<longrightarrow> bit (hw_irq_pending (fst c)) irq))"

lemma bit_raise_irq:
  "irq < 16 \<Longrightarrow> bit (hw_irq_pending (raise_irq n h)) irq \<longleftrightarrow> n mod 16 = irq \<or> bit (hw_irq_pending h) irq"
  by (auto simp: raise_irq_def bit_simps)

lemma bit_clear_irq:
  "irq < 16 \<Longrightarrow> bit (hw_irq_pending (clear_irq n h)) irq \<longleftrightarrow> n \<noteq> irq \<and> bit (hw_irq_pending h) irq"
  by (auto simp: clear_irq_def bit_simps)

lemma irq_inv_step:
  assumes "irq_inv es c" and "irq_step c e c'"
  shows "irq_inv (es @ [e]) c'"
  using assms(2,1)
proof (cases rule: irq_step.cases)
  case (cpu_load h)
  with assms(1) show ?thesis by (simp add: irq_inv_def awaiting_step_def)
next
  case (audio_raise h pc n)
  with assms(1) show ?thesis by (auto simp: irq_inv_def awaiting_step_def bit_raise_irq)
qed (simp_all add: irq_inv_def awaiting_step_def bit_raise_irq bit_clear_irq)

lemma irq_inv_deliver:
  assumes "irq_inv es c" and "irq_step c (Deliver irq) c'"
  shows "awaiting irq es"
  using assms(2,1)
proof (cases rule: irq_step.cases)
  case (cpu_deliver pending h)
  then have "irq < 16" "bit pending irq" using irq_scan_Some(1) [of pending h 0 irq] by (simp_all add: deliverable_def)
  with assms(1) cpu_deliver show ?thesis by (auto simp: irq_inv_def)
qed

lemma irq_run_inv:
  assumes "irq_run c es c'" and "irq_inv [] c"
  shows "irq_inv es c' \<and> (\<forall>as irq bs. es = as @ Deliver irq # bs \<longrightarrow> awaiting irq as)"
  using assms
proof induction
  case (run_snoc c es c' e c'')
  then have inv: "irq_inv es c'" and old: "\<And>as irq bs. es = as @ Deliver irq # bs \<Longrightarrow> awaiting irq as"
    by simp_all
  have "awaiting irq as" if "es @ [e] = as @ Deliver irq # bs" for as irq bs
    using that old inv run_snoc.hyps(2) by (cases bs rule: rev_cases) (auto dest: irq_inv_deliver)
  with irq_inv_step [OF inv run_snoc.hyps(2)] show ?case by blast
qed simp

text \<open>C22: however the audio thread's raises interleave with the CPU thread's load, scan and clear, no interrupt
  is lost and none is delivered twice: from start-up on, a line is pending exactly when it was raised since its
  last delivery, and every delivery answers such a raise.\<close>

theorem no_irq_lost:
  assumes "irq_run (hw_init D h, Idle) es (h', pc)"
  shows "(\<forall>irq<16. bit (hw_irq_pending h') irq \<longleftrightarrow> awaiting irq es)
    \<and> (\<forall>as irq bs. es = as @ Deliver irq # bs \<longrightarrow> awaiting irq as)"
proof -
  have "irq_inv [] (hw_init D h, Idle)"
    by (simp add: irq_inv_def hw_init_def Let_def awaiting_def)
  from irq_run_inv [OF assms this] show ?thesis by (simp add: irq_inv_def)
qed

text \<open>A concrete board with inert chips.\<close>

definition sample_chips :: "(unit, unit, unit) devices" where
  "sample_chips = \<lparr>opl_new = (), opl_reset = id, opl_write_port = (\<lambda>_ _. id), opl_read_port = (\<lambda>_ c. (0, c)),
     opl_render = (\<lambda>mix _ _ c. (mix, c)), spk_new = (), spk_reset = id, spk_set_tone = (\<lambda>_ _. id),
     spk_render = (\<lambda>mix _ _ c. (mix, c)), sb_new = (\<lambda>_ _ _ _. ()), sb_reset = id,
     sb_write_port = (\<lambda>_ _ _ c. ([], c)), sb_read_port = (\<lambda>_ _ c. (0, [], c)), sb_dma_write = (\<lambda>_ _. id),
     sb_dma_read = (\<lambda>_ c. (0, c)), sb_is_playing = (\<lambda>_. False), sb_render = (\<lambda>_ mix _ _ c. (mix, [], c))\<rparr>"

definition sample_board :: "(unit, unit, unit) hardware" where
  "sample_board = hw_init sample_chips hw_static"

text \<open>IRQ 5 is raised and unmasked; IRQ 7 is raised while the CPU scans; IRQ 5 is delivered.\<close>

definition sample_trace :: "irq_event list" where
  "sample_trace = [Raise 5, PortOut 0x21 0xDF, Load, Raise 7, Deliver 5]"

definition sample_board_after :: "(unit, unit, unit) hardware" where
  "sample_board_after = clear_irq 5 (raise_irq 7 (port_out_regs 0x21 0xDF (raise_irq 5 sample_board)))"

lemma sample_run: "irq_run (sample_board, Idle) sample_trace (sample_board_after, Idle)"
proof -
  let ?h1 = "raise_irq 5 sample_board"
  let ?h2 = "port_out_regs 0x21 0xDF ?h1"
  let ?h3 = "raise_irq 7 ?h2"
  have "irq_step (?h2, Idle) Load (?h2, Scanning 0x20)"
    using cpu_load [of ?h2] by (simp add: raise_irq_def sample_board_def hw_init_def Let_def)
  moreover have "irq_scan 0x20 ?h3 0 = Some 5"
    by (simp add: irq_scan.simps irq_masked_def raise_irq_def port_out_regs_def sample_board_def hw_init_def Let_def)
  ultimately have "irq_step (?h3, Scanning 0x20) (Deliver 5) (clear_irq 5 ?h3, Idle)"
    and load: "irq_step (?h2, Idle) Load (?h2, Scanning 0x20)"
    by (simp_all add: cpu_deliver)
  moreover have "irq_run (sample_board, Idle) ([] @ [Raise 5]) (?h1, Idle)"
    by (rule run_snoc [OF run_Nil audio_raise])
  then have "irq_run (sample_board, Idle) (([] @ [Raise 5]) @ [PortOut 0x21 0xDF]) (?h2, Idle)"
    by (rule run_snoc [OF _ cpu_port])
  then have "irq_run (sample_board, Idle) ((([] @ [Raise 5]) @ [PortOut 0x21 0xDF]) @ [Load]) (?h2, Scanning 0x20)"
    using load by (rule run_snoc)
  then have "irq_run (sample_board, Idle) (((([] @ [Raise 5]) @ [PortOut 0x21 0xDF]) @ [Load]) @ [Raise 7]) (?h3, Scanning 0x20)"
    by (rule run_snoc [OF _ audio_raise])
  ultimately show ?thesis
    using run_snoc by (fastforce simp: sample_trace_def sample_board_after_def)
qed

lemma no_irq_lost_witness:
  "bit (hw_irq_pending sample_board_after) 7 \<and> \<not> bit (hw_irq_pending sample_board_after) 5 \<and> awaiting 5 [Raise 5, PortOut 0x21 0xDF, Load, Raise 7]"
  using no_irq_lost [OF sample_run [unfolded sample_board_def]]
  by (auto simp: sample_trace_def awaiting_def awaiting_step_def)

section \<open>Ranges of the registers\<close>

definition hw_ok :: "('o, 'p, 'b) hardware \<Rightarrow> bool" where
  "hw_ok h \<longleftrightarrow> length (joy_axis h) = 4 \<and> length (joy_oneshot h) = 4 \<and> (\<forall>x\<in>set (joy_oneshot h). 0 \<le> x \<and> x \<le> 1006)
    \<and> pit2_access h < 4 \<and> pit2_phase h \<le> 1 \<and> (pit2_phase h = 1 \<longrightarrow> pit2_access h = 0 \<or> pit2_access h = 3)
    \<and> (\<forall>i\<ge>16. \<not> bit (hw_irq_pending h) i)"

inductive hw_reach :: "('o, 'p, 'b) devices \<Rightarrow> ('o, 'p, 'b) hardware \<Rightarrow> bool" for D where
  reach_static: "hw_reach D hw_static"
| reach_init: "hw_reach D h \<Longrightarrow> hw_reach D (hw_init D h)"
| reach_shutdown: "hw_reach D h \<Longrightarrow> hw_reach D (hw_shutdown h)"
| reach_host: "hw_reach D h \<Longrightarrow> hw_reach D (set_host_audio on h)"
| reach_out: "hw_reach D h \<Longrightarrow> hw_reach D (hw_port_out D rd port val h)"
| reach_in: "hw_reach D h \<Longrightarrow> hw_reach D (snd (hw_port_in D rd port h))"
| reach_joystick: "hw_reach D h \<Longrightarrow> hw_reach D (set_joystick axes buttons present h)"
| reach_take: "hw_reach D h \<Longrightarrow> hw_reach D (snd (take_pending_irq_vector h))"
| reach_render: "hw_reach D h \<Longrightarrow> hw_reach D (snd (audio_render D rd frames rate h))"
| reach_tick: "hw_reach D h \<Longrightarrow> hw_reach D (audio_tick D rd h)"

lemma axis_count_range: "6 \<le> axis_count a h \<and> axis_count a h \<le> 1006"
proof -
  have "0 \<le> min 65535 (max 0 (joy_axis h ! a + 32768)) * 1000 div 65535"
    by (intro pos_imp_zdiv_nonneg_iff [THEN iffD2]) auto
  moreover have "min 65535 (max 0 (joy_axis h ! a + 32768)) * 1000 div 65535 \<le> 65535 * 1000 div (65535 :: int)"
    by (intro zdiv_mono1) auto
  ultimately show ?thesis by (simp add: axis_count_def)
qed

lemma axis_count_pos: "0 \<le> axis_count a h" and axis_count_le: "axis_count a h \<le> 1006"
  using axis_count_range [of a h] by simp_all

lemma hw_ok_raise [simp]: "hw_ok h \<Longrightarrow> hw_ok (raise_irq irq h)"
  by (auto simp: hw_ok_def raise_irq_def bit_simps)

lemma hw_ok_raises [simp]: "hw_ok h \<Longrightarrow> hw_ok (fold raise_irq irqs h)"
  by (induction irqs arbitrary: h) simp_all

lemma hw_ok_chips [simp]:
  "hw_ok (h\<lparr>g_opl := a\<rparr>) = hw_ok h" "hw_ok (h\<lparr>g_spk := b\<rparr>) = hw_ok h" "hw_ok (h\<lparr>g_sb := c\<rparr>) = hw_ok h"
  by (simp_all add: hw_ok_def)

lemma pit_access_range: "drop_bit 4 (v :: u8) AND 3 < 4"
  by (rule le_less_trans [OF word_and_le1]) simp

lemma pit_access_cases: "(v :: u8) < 4 \<Longrightarrow> v = 0 \<or> v = 1 \<or> v = 2 \<or> v = 3"
  by (auto simp: word_less_nat_alt word_unat_eq_iff)

lemma hw_ok_regs: "hw_ok h \<Longrightarrow> hw_ok (port_out_regs port val h)"
  using pit_access_cases [of "pit2_access h"] by (auto simp: hw_ok_def port_out_regs_def pit_access_range)

lemma hw_ok_oneshots: "hw_ok h \<Longrightarrow> hw_ok (h\<lparr>joy_oneshot := xs\<rparr>) = (length xs = 4 \<and> (\<forall>x\<in>set xs. 0 \<le> x \<and> x \<le> 1006))"
  by (simp add: hw_ok_def)

lemma hw_ok_oneshot_nth: "\<lbrakk>hw_ok h; a < 4\<rbrakk> \<Longrightarrow> 0 \<le> joy_oneshot h ! a \<and> joy_oneshot h ! a \<le> 1006"
  by (simp add: hw_ok_def)

lemma hw_ok_countdown [simp]:
  assumes "hw_ok h"
  shows "hw_ok (joy_countdown h)"
proof -
  have "0 \<le> x \<and> x \<le> 1006"
    if "x \<in> (\<lambda>a. if joy_oneshot h ! a > 0 then joy_oneshot h ! a - 1 else joy_oneshot h ! a) ` {0..<4}" for x
    using that hw_ok_oneshot_nth [OF assms] by fastforce
  with assms show ?thesis unfolding joy_countdown_def by (simp only: hw_ok_oneshots set_map set_upt) simp
qed

lemma hw_ok_fire [simp]: "hw_ok h \<Longrightarrow> hw_ok (h\<lparr>joy_oneshot := map (\<lambda>a. axis_count a h) [0..<4]\<rparr>)"
  by (simp add: hw_ok_oneshots axis_count_pos axis_count_le del: upt_rec_numeral)

lemma hw_ok_out: "hw_ok h \<Longrightarrow> hw_ok (hw_port_out D rd port val h)"
  by (simp add: hw_port_out_def hw_ok_regs split: option.split prod.split del: upt_rec_numeral)

lemma hw_ok_in: "hw_ok h \<Longrightarrow> hw_ok (snd (hw_port_in D rd port h))"
  by (cases "if is_opl_port port then g_opl h else None";
      cases "if is_sb_port port \<or> is_dma_port port then g_sb h else None")
    (simp_all only: hw_port_in_def option.case, simp_all add: case_prod_unfold)

lemma hw_ok_mix:
  "hw_ok (snd x) \<Longrightarrow> hw_ok (snd (mix_opl D frames rate x))"
  "hw_ok (snd x) \<Longrightarrow> hw_ok (snd (mix_spk D frames rate x))"
  "hw_ok (snd x) \<Longrightarrow> hw_ok (snd (mix_sb D rd frames rate x))"
  by (simp_all add: mix_opl_def mix_spk_def mix_sb_def Let_def case_prod_unfold split: option.split)

lemma hw_ok_render: "hw_ok h \<Longrightarrow> hw_ok (snd (audio_render D rd frames rate h))"
  by (simp add: audio_render_def Let_def case_prod_unfold hw_ok_mix)

text \<open>C23: whatever the guest writes to and reads from the ports, however the host feeds the joystick and pulls
  the audio, the device registers stay in range: four axes and four monostables of at most 1006 counts, a timer
  access mode of two bits whose half-written state occurs only in the two-byte modes, and interrupt bits only for
  the sixteen lines.\<close>

theorem hw_registers_in_range:
  assumes "hw_reach D h"
  shows "length (joy_axis h) = 4 \<and> length (joy_oneshot h) = 4 \<and> (\<forall>x\<in>set (joy_oneshot h). 0 \<le> x \<and> x \<le> 1006)
    \<and> pit2_access h < 4 \<and> pit2_phase h \<le> 1 \<and> (pit2_phase h = 1 \<longrightarrow> pit2_access h = 0 \<or> pit2_access h = 3)
    \<and> (\<forall>i\<ge>16. \<not> bit (hw_irq_pending h) i)"
proof -
  have "hw_ok h" using assms
  proof induction
    case (reach_take h)
    then show ?case
      by (auto simp: take_pending_irq_vector_def Let_def clear_irq_def hw_ok_def bit_simps split: option.splits)
  next
    case (reach_tick h rd)
    then show ?case by (simp add: audio_tick_def Let_def hw_ok_render)
  qed (simp_all add: hw_ok_out hw_ok_in hw_ok_render,
       auto simp: hw_ok_def hw_static_def hw_init_def hw_shutdown_def set_host_audio_def set_joystick_def Let_def)
  then show ?thesis by (simp add: hw_ok_def)
qed

lemma hw_registers_in_range_witness:
  "length (joy_oneshot (hw_port_out sample_chips (\<lambda>_. 0) 0x201 0 sample_board)) = 4"
  using hw_registers_in_range [OF reach_out [where rd = "\<lambda>_. 0" and port = "0x201" and val = 0,
      OF reach_init [OF reach_static], of sample_chips]]
  by (simp add: sample_board_def)

section \<open>The game port\<close>

lemma bit_fold_or:
  "bit (fold (\<lambda>a b. if P a then b OR push_bit (f a) 1 else b) xs (b :: 'a::len word)) n \<longleftrightarrow>
    bit b n \<or> n < LENGTH('a) \<and> (\<exists>a\<in>set xs. P a \<and> f a = n)"
  by (induction xs arbitrary: b) (auto simp: bit_simps)

lemma joy_byte_bits:
  "a < 4 \<Longrightarrow> bit (joy_byte h) a \<longleftrightarrow> joy_oneshot h ! a > 0"
  "j < 4 \<Longrightarrow> bit (joy_byte h) (4 + j) \<longleftrightarrow> \<not> bit (joy_btn h) j"
  by (auto simp: joy_byte_def Let_def bit_fold_or and_exp_eq_0_iff_not_bit simp del: upt_rec_numeral)

lemma port_201:
  "hw_port_out D rd 0x201 val h = h\<lparr>joy_oneshot := map (\<lambda>a. axis_count a h) [0..<4]\<rparr>"
  "joy_present h \<Longrightarrow> hw_port_in D rd 0x201 h = (Some (joy_byte h), joy_countdown h)"
  by (simp_all add: hw_port_out_def hw_port_in_def is_opl_port_def is_sb_port_def is_dma_port_def del: upt_rec_numeral)

lemma countdown_frame [simp]: "joy_present (joy_countdown h) = joy_present h" "joy_btn (joy_countdown h) = joy_btn h"
  by (simp_all add: joy_countdown_def)

lemma countdown_pow:
  "\<lbrakk>a < 4; 0 \<le> joy_oneshot h ! a\<rbrakk> \<Longrightarrow> joy_oneshot ((joy_countdown ^^ k) h) ! a = max 0 (joy_oneshot h ! a - int k)"
  by (induction k) (auto simp: joy_countdown_def simp del: upt_rec_numeral)

lemma port_201_reads:
  assumes "joy_present h"
  shows "((\<lambda>h. snd (hw_port_in D rd 0x201 h)) ^^ k) h = (joy_countdown ^^ k) h
    \<and> joy_present ((joy_countdown ^^ k) h) \<and> joy_btn ((joy_countdown ^^ k) h) = joy_btn h"
  using assms by (induction k) (simp_all add: port_201)

text \<open>A write to the game port starts the four axis monostables, and the read that follows \<open>k\<close> earlier reads
  shows axis \<open>a\<close> high exactly while \<open>k\<close> is below the count of its pot position (between 6 and 1006), and each
  button's line low exactly while it is pressed.\<close>

theorem game_port_counts:
  assumes "joy_present h" and "a < 4" and "j < 4"
  shows "\<exists>v. fst (hw_port_in D rd 0x201 (((\<lambda>h. snd (hw_port_in D rd 0x201 h)) ^^ k) (hw_port_out D rd 0x201 val h))) = Some v
    \<and> (bit v a \<longleftrightarrow> int k < axis_count a h) \<and> (bit v (4 + j) \<longleftrightarrow> \<not> bit (joy_btn h) j)
    \<and> 6 \<le> axis_count a h \<and> axis_count a h \<le> 1006"
proof -
  let ?h0 = "h\<lparr>joy_oneshot := map (\<lambda>a. axis_count a h) [0..<4]\<rparr>"
  have range: "6 \<le> axis_count a h \<and> axis_count a h \<le> 1006" by (rule axis_count_range)
  have "joy_oneshot ?h0 ! a = axis_count a h" using assms by (simp del: upt_rec_numeral)
  with range countdown_pow [OF assms(2), of ?h0 k]
  have "joy_oneshot ((joy_countdown ^^ k) ?h0) ! a = max 0 (axis_count a h - int k)" by simp
  then show ?thesis
    using assms range port_201_reads [where h = ?h0 and D = D and rd = rd and k = k] by (auto simp: port_201 joy_byte_bits)
qed

lemma game_port_counts_witness:
  "\<exists>v. fst (hw_port_in sample_chips (\<lambda>_. 0) 0x201 (((\<lambda>h. snd (hw_port_in sample_chips (\<lambda>_. 0) 0x201 h)) ^^ 506)
      (hw_port_out sample_chips (\<lambda>_. 0) 0x201 0 sample_board))) = Some v \<and> \<not> bit v 2 \<and> bit v (4 + 1)"
proof -
  have "joy_present sample_board" "axis_count 2 sample_board = 506" "\<not> bit (joy_btn sample_board) 1"
    by (simp_all add: sample_board_def hw_init_def hw_static_def axis_count_def Let_def)
  with game_port_counts [of sample_board 2 1 sample_chips "\<lambda>_. 0" 506 0] show ?thesis by auto
qed

end
