(* ===== verification/Paths.thy ===== *)
theory Paths
  imports Machine "HOL-Library.List_Lexorder" "HOL-Library.Char_ord"
begin

text \<open>
  Path handling of \<open>bridge.cc\<close>: reading guest strings, DOS to host translation, DOS wildcards, 8.3 name
  mangling, file mappings and the enumeration behind find-first. The host file system is a parameter
  (\<open>stat\<close> and \<open>readdir\<close> results, and \<open>localtime\<close>). Shown: the two-pointer glob loop terminates and decides
  the declarative wildcard relation, and mangled names are unique and of 8.3 form.
\<close>

section \<open>The host\<close>

record host_stat =
  st_mode :: u32
  st_size :: u64
  st_mtime :: int

record tm =
  tm_sec :: nat
  tm_min :: nat
  tm_hour :: nat
  tm_mday :: nat
  tm_mon :: nat
  tm_year :: int
  tm_wday :: nat

definition S_ISDIR :: "host_stat \<Rightarrow> bool" where
  "S_ISDIR st \<longleftrightarrow> st_mode st AND 0xF000 = 0x4000"

record host =
  host_stat_of :: "string \<Rightarrow> host_stat option"
  host_readdir :: "string \<Rightarrow> string list option"
  host_localtime :: "int \<Rightarrow> tm"

section \<open>Strings\<close>

definition toupper :: "char \<Rightarrow> char" where
  "toupper c = (let n = (of_char c :: nat) in if 97 \<le> n \<and> n \<le> 122 then char_of (n - 32) else c)"

definition upper :: "string \<Rightarrow> string" where
  "upper s = map toupper s"

definition byte_of :: "char \<Rightarrow> u8" where
  "byte_of c = of_nat (of_char c)"

definition char_of_byte :: "u8 \<Rightarrow> char" where
  "char_of_byte b = char_of (unat b)"

fun read_string_from :: "'m emu88 \<Rightarrow> 'm \<Rightarrow> u32 \<Rightarrow> nat \<Rightarrow> string" where
  "read_string_from E m lin 0 = []"
| "read_string_from E m lin (Suc n) = (let c = mem_readb E m lin in
     if c = 0 then [] else char_of_byte c # read_string_from E m (lin + 1) n)"

definition read_dos_string_lin :: "'m emu88 \<Rightarrow> 'm \<Rightarrow> u32 \<Rightarrow> string" where
  "read_dos_string_lin E m lin = read_string_from E m lin 260"

definition read_dos_path :: "'m emu88 \<Rightarrow> seg \<Rightarrow> u32 \<Rightarrow> u32 \<Rightarrow> ('m, 'z) machine_scheme \<Rightarrow> string" where
  "read_dos_path E sg off16 off32 s = read_dos_string_lin E (mem s) (dos_arg_addr sg off16 off32 s)"

text \<open>\<open>find_last_of\<close> and \<open>find\<close>; None is \<open>npos\<close>.\<close>

definition find_last :: "(char \<Rightarrow> bool) \<Rightarrow> string \<Rightarrow> nat option" where
  "find_last P s = find (\<lambda>i. P (s ! i)) (rev [0 ..< length s])"

definition find_first :: "(char \<Rightarrow> bool) \<Rightarrow> string \<Rightarrow> nat option" where
  "find_first P s = find (\<lambda>i. P (s ! i)) [0 ..< length s]"

lemma find_first_less: "find_first P s = Some i \<Longrightarrow> i < length s"
  by (auto simp: find_first_def find_Some_iff)

lemma find_SomeD: "find P xs = Some x \<Longrightarrow> x \<in> set xs \<and> P x"
  by (induction xs) (auto split: if_splits)

lemma find_last_Some: "find_last P s = Some i \<Longrightarrow> i < length s \<and> P (s ! i)"
  using find_SomeD by (fastforce simp: find_last_def)

lemma find_last_after:
  assumes "find_last P s = Some i" and "i < j" and "j < length s"
  shows "\<not> P (s ! j)"
proof -
  obtain k where k: "k < length s" "i = length s - Suc k" "\<forall>l < k. \<not> P (s ! (length s - Suc l))"
    using assms(1) by (auto simp: find_last_def find_Some_iff rev_nth)
  have "length s - Suc j < k" "length s - Suc (length s - Suc j) = j" using assms(2,3) k(1,2) by auto
  then show ?thesis using k(3) by metis
qed

section \<open>DOS to host\<close>

definition is_sep :: "char \<Rightarrow> bool" where
  "is_sep c \<longleftrightarrow> c = CHR 0x5C \<or> c = CHR ''/''"

definition slashes :: "string \<Rightarrow> string" where
  "slashes p = map (\<lambda>c. if c = CHR 0x5C then CHR ''/'' else c) p"

text \<open>The drive letter of a path and the rest.\<close>

definition split_drive :: "char \<Rightarrow> string \<Rightarrow> char \<times> string" where
  "split_drive cur path = (if length path \<ge> 2 \<and> path ! 1 = CHR '':'' then (toupper (path ! 0), drop 2 path) else (cur, path))"

definition host_literal :: "(char \<times> string) list \<Rightarrow> char \<Rightarrow> string \<Rightarrow> string" where
  "host_literal drives cur dos_path = (let
     (drive, path) = split_drive cur dos_path;
     path = slashes path;
     base = (case map_of drives drive of None \<Rightarrow> [] | Some b \<Rightarrow> b)
   in if path = [] then base
      else if hd path = CHR ''/'' then base @ path
      else if base = [] then path
      else base @ ''/'' @ path)"

text \<open>The walk over the segments of \<open>literal\<close>, \<open>rest\<close> being what is left from position \<open>p\<close>.\<close>

function host_walk :: "host \<Rightarrow> string \<Rightarrow> string \<Rightarrow> string \<Rightarrow> string" where
  "host_walk H literal resolved rest = (let
     nxt = find_first (\<lambda>c. c = CHR ''/'') rest;
     sg = (case nxt of None \<Rightarrow> rest | Some i \<Rightarrow> take i rest);
     fin = (\<lambda>r. if r = [] then literal else r)
   in if sg = [] then (case nxt of None \<Rightarrow> fin resolved | Some i \<Rightarrow> host_walk H literal resolved (drop (i + 1) rest))
   else let
     parent = (if resolved = [] then ''/'' else resolved);
     found = (case host_readdir H parent of None \<Rightarrow> None | Some ents \<Rightarrow> find (\<lambda>e. upper e = upper sg) ents)
   in case found of
       None \<Rightarrow> resolved @ ''/'' @ rest
     | Some m \<Rightarrow> (if m = [] then resolved @ ''/'' @ rest
         else case nxt of None \<Rightarrow> fin (resolved @ ''/'' @ m)
         | Some i \<Rightarrow> host_walk H literal (resolved @ ''/'' @ m) (drop (i + 1) rest)))"
  by pat_completeness auto
termination
proof (relation "measure (\<lambda>(H, literal, resolved, rest). length rest)", goal_cases)
  case (2 H literal resolved rest nxt sg fin i)
  then show ?case using find_first_less [of _ rest i] by force
next
  case (3 H literal resolved rest nxt sg fin parent found m i)
  then show ?case using find_first_less [of _ rest i] by force
qed simp

definition dos_to_host :: "host \<Rightarrow> (char \<times> string) list \<Rightarrow> char \<Rightarrow> string \<Rightarrow> string" where
  "dos_to_host H drives cur dos_path = (let literal = host_literal drives cur dos_path in
     if host_stat_of H literal \<noteq> None then literal
     else host_walk H literal [] (if literal \<noteq> [] \<and> hd literal = CHR ''/'' then tl literal else literal))"

section \<open>Wildcards\<close>

text \<open>The loop of \<open>glob_match_part\<close>, with the position of the last star and where it started matching.\<close>

partial_function (option) glob_loop :: "string \<Rightarrow> string \<Rightarrow> nat \<Rightarrow> nat \<Rightarrow> (nat \<times> nat) option \<Rightarrow> (bool \<times> nat) option" where
  "glob_loop name_u pat_u ni pi star = (if ni < length name_u then
     if pi < length pat_u \<and> (pat_u ! pi = CHR ''?'' \<or> pat_u ! pi = name_u ! ni)
     then glob_loop name_u pat_u (ni + 1) (pi + 1) star
     else if pi < length pat_u \<and> pat_u ! pi = CHR ''*''
     then glob_loop name_u pat_u ni (pi + 1) (Some (pi, ni))
     else (case star of
         Some (star_pi, star_ni) \<Rightarrow> glob_loop name_u pat_u (star_ni + 1) (star_pi + 1) (Some (star_pi, star_ni + 1))
       | None \<Rightarrow> Some (False, pi))
     else Some (True, pi))"

definition glob_match_part :: "string \<Rightarrow> string \<Rightarrow> bool option" where
  "glob_match_part name_u pat_u = (case glob_loop name_u pat_u 0 0 None of
     None \<Rightarrow> None
   | Some (ok, pi) \<Rightarrow> Some (ok \<and> dropWhile (\<lambda>c. c = CHR ''*'') (drop pi pat_u) = []))"

definition split_ext :: "string \<Rightarrow> string \<times> string" where
  "split_ext s = (case find_last (\<lambda>c. c = CHR ''.'') s of
     None \<Rightarrow> (s, []) | Some d \<Rightarrow> (take d s, drop (d + 1) s))"

definition glob_match :: "string \<Rightarrow> string \<Rightarrow> bool option" where
  "glob_match name_u pat_u = (let (nb, ne) = split_ext name_u; (pb, pe) = split_ext pat_u in
     if CHR ''.'' \<notin> set pat_u then glob_match_part name_u pat_u
     else (case glob_match_part nb pb of
         None \<Rightarrow> None
       | Some False \<Rightarrow> Some False
       | Some True \<Rightarrow> glob_match_part ne pe))"

definition has_wildcard :: "string \<Rightarrow> bool" where
  "has_wildcard s \<longleftrightarrow> CHR ''*'' \<in> set s \<or> CHR ''?'' \<in> set s"

definition basename_dos :: "string \<Rightarrow> string" where
  "basename_dos dos_path = (let
     p = (if length dos_path \<ge> 2 \<and> dos_path ! 1 = CHR '':'' then drop 2 dos_path else dos_path)
   in case find_last is_sep p of None \<Rightarrow> p | Some i \<Rightarrow> drop (i + 1) p)"

text \<open>What a wildcard pattern means.\<close>

fun wild :: "string \<Rightarrow> string \<Rightarrow> bool" where
  "wild n [] \<longleftrightarrow> n = []"
| "wild n (q # p) \<longleftrightarrow> (if q = CHR ''*'' then (\<exists>k \<le> length n. wild (drop k n) p)
     else n \<noteq> [] \<and> (q = CHR ''?'' \<or> q = hd n) \<and> wild (tl n) p)"

lemma wild_star: "wild n (CHR ''*'' # p) \<longleftrightarrow> (\<exists>k. wild (drop k n) p)"
proof
  assume "\<exists>k. wild (drop k n) p"
  then obtain k where "wild (drop k n) p" by blast
  then have "wild (drop (min k (length n)) n) p" by (cases "k \<le> length n") (simp_all add: min_def)
  then show "wild n (CHR ''*'' # p)" by (auto intro: min.cobounded2)
qed auto

lemma wild_stars: "wild [] p \<longleftrightarrow> dropWhile (\<lambda>c. c = CHR ''*'') p = []"
  by (induction p) auto

text \<open>A star-free part of a pattern consumes as many characters as it has.\<close>

lemma wild_append:
  "CHR ''*'' \<notin> set seg \<Longrightarrow> wild n (seg @ p) \<Longrightarrow> length seg \<le> length n \<and> wild (drop (length seg) n) p"
proof (induction seg arbitrary: n)
  case (Cons q seg)
  then show ?case by (cases n) auto
qed simp

text \<open>What the loop still has to decide: the current positions, or a later start for the last star.\<close>

definition glob_todo :: "string \<Rightarrow> string \<Rightarrow> nat \<Rightarrow> nat \<Rightarrow> (nat \<times> nat) option \<Rightarrow> bool" where
  "glob_todo n p ni pi star \<longleftrightarrow> wild (drop ni n) (drop pi p)
     \<or> (case star of None \<Rightarrow> False | Some (sp, sn) \<Rightarrow> \<exists>j > sn. j \<le> length n \<and> wild (drop j n) (drop (sp + 1) p))"

definition glob_ok :: "string \<Rightarrow> string \<Rightarrow> nat \<Rightarrow> nat \<Rightarrow> (nat \<times> nat) option \<Rightarrow> bool" where
  "glob_ok n p ni pi star \<longleftrightarrow> ni \<le> length n \<and> pi \<le> length p \<and>
     (case star of None \<Rightarrow> True | Some (sp, sn) \<Rightarrow> sn \<le> ni \<and> pi = sp + 1 + (ni - sn)
        \<and> CHR ''*'' \<notin> set (take (ni - sn) (drop (sp + 1) p)))"

definition glob_measure :: "string \<Rightarrow> string \<Rightarrow> nat \<times> (nat \<times> nat) option \<Rightarrow> nat" where
  "glob_measure n p x = (case x of (pi, star) \<Rightarrow>
     (case star of None \<Rightarrow> Suc (length n) | Some (sp, sn) \<Rightarrow> length n - sn) * Suc (length p) + (length p - pi))"

lemma glob_measure_star:
  "\<lbrakk>length n - ni \<le> w; pi < length p\<rbrakk> \<Longrightarrow>
    (length n - ni) * Suc (length p) + (length p - (pi + 1)) < w * Suc (length p) + (length p - pi)"
  by (intro add_le_less_mono mult_le_mono1) auto

text \<open>Once a later star is reached, an earlier star need not be tried again.\<close>

lemma glob_star_absorbs:
  assumes ok: "glob_ok n p ni pi (Some (sp, sn))" and star: "pi < length p" "p ! pi = CHR ''*''"
    and j: "sn < j" "wild (drop j n) (drop (sp + 1) p)"
  shows "wild (drop ni n) (drop pi p)"
proof -
  define d where "d = ni - sn"
  have d: "pi = sp + 1 + d" "CHR ''*'' \<notin> set (take d (drop (sp + 1) p))"
    using ok by (auto simp: glob_ok_def d_def)
  have "drop (sp + 1) p = take d (drop (sp + 1) p) @ drop pi p"
    using d(1) by (metis append_take_drop_id drop_drop add.commute)
  moreover have "length (take d (drop (sp + 1) p)) = d" using d(1) star(1) by simp
  ultimately have "wild (drop d (drop j n)) (drop pi p)"
    using wild_append [OF d(2), of "drop j n" "drop pi p"] j(2) by simp
  moreover have p: "drop pi p = CHR ''*'' # drop (pi + 1) p" using star by (metis Cons_nth_drop_Suc Suc_eq_plus1)
  ultimately obtain k where "wild (drop (k + (d + j)) n) (drop (pi + 1) p)"
    unfolding p wild_star by (auto simp: add.assoc)
  moreover have "k + (d + j) = (k + j - sn) + ni" using j(1) ok by (simp add: d_def glob_ok_def)
  ultimately show ?thesis unfolding p wild_star by (metis drop_drop add.commute)
qed

text \<open>At the end of the name no later start of the star can help: what follows it is too long.\<close>

lemma glob_end:
  assumes "glob_ok n p (length n) pi star"
  shows "glob_todo n p (length n) pi star \<longleftrightarrow> dropWhile (\<lambda>c. c = CHR ''*'') (drop pi p) = []"
proof -
  have "False" if "star = Some (sp, sn)" "sn < j" "j \<le> length n" "wild (drop j n) (drop (sp + 1) p)" for sp sn j
  proof -
    define d where "d = length n - sn"
    have d: "pi = sp + 1 + d" "pi \<le> length p" "CHR ''*'' \<notin> set (take d (drop (sp + 1) p))"
      using assms that(1) by (auto simp: glob_ok_def d_def)
    have "length (take d (drop (sp + 1) p)) \<le> length (drop j n)"
      using wild_append [OF d(3), of "drop j n" "drop d (drop (sp + 1) p)", unfolded append_take_drop_id] that(4) by blast
    then show False using d that(2,3) by (simp add: d_def)
  qed
  then show ?thesis unfolding glob_todo_def wild_stars [symmetric] by (auto split: option.split)
qed

lemma glob_step_match:
  assumes "glob_ok n p ni pi star" and "ni < length n" and "pi < length p"
    and "p ! pi = CHR ''?'' \<or> p ! pi = n ! ni" and "p ! pi \<noteq> CHR ''*''"
  shows "glob_ok n p (ni + 1) (pi + 1) star" and "glob_todo n p (ni + 1) (pi + 1) star = glob_todo n p ni pi star"
proof -
  have "take (Suc ni - sn) (drop (sp + 1) p) = take (ni - sn) (drop (sp + 1) p) @ [p ! pi]"
    if "sn \<le> ni" "pi = sp + 1 + (ni - sn)" for sp sn
  proof -
    have "Suc ni - sn = Suc (ni - sn)" using that(1) by simp
    then show ?thesis using that assms(3) by (simp add: take_Suc_conv_app_nth)
  qed
  then show "glob_ok n p (ni + 1) (pi + 1) star"
    using assms by (auto simp: glob_ok_def split: option.splits)
  have "wild (drop ni n) (drop pi p) = wild (drop (ni + 1) n) (drop (pi + 1) p)"
    using assms(2-5) by (simp add: Cons_nth_drop_Suc [symmetric])
  then show "glob_todo n p (ni + 1) (pi + 1) star = glob_todo n p ni pi star"
    by (simp add: glob_todo_def)
qed

lemma glob_step_star:
  assumes ok: "glob_ok n p ni pi star" and "ni < length n" and pi: "pi < length p" "p ! pi = CHR ''*''"
  shows "glob_ok n p ni (pi + 1) (Some (pi, ni))"
    and "glob_todo n p ni (pi + 1) (Some (pi, ni)) = glob_todo n p ni pi star"
proof -
  show "glob_ok n p ni (pi + 1) (Some (pi, ni))" using assms by (simp add: glob_ok_def)
  have p: "drop pi p = CHR ''*'' # drop (pi + 1) p" using pi by (metis Cons_nth_drop_Suc Suc_eq_plus1)
  have "wild (drop ni n) (drop pi p) = (\<exists>j \<ge> ni. j \<le> length n \<and> wild (drop j n) (drop (pi + 1) p))"
  proof
    assume "wild (drop ni n) (drop pi p)"
    then obtain k where "k \<le> length n - ni" "wild (drop (k + ni) n) (drop (pi + 1) p)"
      unfolding p by auto
    then show "\<exists>j \<ge> ni. j \<le> length n \<and> wild (drop j n) (drop (pi + 1) p)"
      using assms(2) by (intro exI [of _ "k + ni"]) simp
  next
    assume "\<exists>j \<ge> ni. j \<le> length n \<and> wild (drop j n) (drop (pi + 1) p)"
    then obtain j where "ni \<le> j" "wild (drop j n) (drop (pi + 1) p)" by blast
    then have "wild (drop (j - ni) (drop ni n)) (drop (pi + 1) p)" by simp
    then show "wild (drop ni n) (drop pi p)" unfolding p wild_star by blast
  qed
  then have "glob_todo n p ni (pi + 1) (Some (pi, ni)) = wild (drop ni n) (drop pi p)"
    using assms(2) by (auto simp: glob_todo_def order_le_less)
  moreover have "glob_todo n p ni pi star = wild (drop ni n) (drop pi p)"
    using glob_star_absorbs [OF _ pi] ok by (auto simp: glob_todo_def split: option.splits)
  ultimately show "glob_todo n p ni (pi + 1) (Some (pi, ni)) = glob_todo n p ni pi star" by simp
qed

lemma glob_step_back:
  assumes ok: "glob_ok n p ni pi (Some (sp, sn))" and ni: "ni < length n"
    and no: "\<not> wild (drop ni n) (drop pi p)"
  shows "glob_ok n p (sn + 1) (sp + 1) (Some (sp, sn + 1))"
    and "glob_todo n p (sn + 1) (sp + 1) (Some (sp, sn + 1)) = glob_todo n p ni pi (Some (sp, sn))"
proof -
  show "glob_ok n p (sn + 1) (sp + 1) (Some (sp, sn + 1))" using ok ni by (auto simp: glob_ok_def)
  have "sn + 1 \<le> length n" using ok ni by (simp add: glob_ok_def)
  then show "glob_todo n p (sn + 1) (sp + 1) (Some (sp, sn + 1)) = glob_todo n p ni pi (Some (sp, sn))"
    using no unfolding glob_todo_def by (auto simp: Suc_le_eq) (metis Suc_lessD, metis Suc_lessI)
qed

lemma glob_loop_correct:
  assumes "glob_ok n p ni pi star" and name: "CHR ''*'' \<notin> set n"
  shows "\<exists>ok pi'. glob_loop n p ni pi star = Some (ok, pi')
    \<and> (ok \<and> dropWhile (\<lambda>c. c = CHR ''*'') (drop pi' p) = []) = glob_todo n p ni pi star"
  using assms(1)
proof (induction "glob_measure n p (pi, star)" arbitrary: ni pi star rule: less_induct)
  case less
  have bounds: "ni \<le> length n" "pi \<le> length p" using less.prems by (auto simp: glob_ok_def)
  consider (fin) "ni = length n"
    | (match) "ni < length n" "pi < length p" "p ! pi = CHR ''?'' \<or> p ! pi = n ! ni"
    | (star) "ni < length n" "pi < length p" "\<not> (p ! pi = CHR ''?'' \<or> p ! pi = n ! ni)" "p ! pi = CHR ''*''"
    | (fail) "ni < length n" "\<not> (pi < length p \<and> (p ! pi = CHR ''?'' \<or> p ! pi = n ! ni))"
        "\<not> (pi < length p \<and> p ! pi = CHR ''*'')"
    using bounds by fastforce
  then show ?case
  proof cases
    case fin
    then show ?thesis using glob_end less.prems by (subst glob_loop.simps) auto
  next
    case match
    have "n ! ni \<noteq> CHR ''*''" using name nth_mem [OF match(1)] by metis
    then have "p ! pi \<noteq> CHR ''*''" using match by auto
    note st = glob_step_match [OF less.prems match this]
    have "glob_measure n p (pi + 1, star) < glob_measure n p (pi, star)"
      using match(2) by (simp add: glob_measure_def)
    from less.hyps [OF this st(1)] show ?thesis
      using match st(2) by (subst glob_loop.simps) simp
  next
    case star
    note st = glob_step_star [OF less.prems star(1,2,4)]
    have "length n - ni \<le> (case star of None \<Rightarrow> Suc (length n) | Some (sp, sn) \<Rightarrow> length n - sn)"
      using less.prems by (auto simp: glob_ok_def split: option.splits)
    then have "glob_measure n p (pi + 1, Some (pi, ni)) < glob_measure n p (pi, star)"
      using star(2) glob_measure_star unfolding glob_measure_def prod.case option.case by blast
    from less.hyps [OF this st(1)] show ?thesis
      using star st(2) by (subst glob_loop.simps) simp
  next
    case fail
    have no: "\<not> wild (drop ni n) (drop pi p)"
    proof (cases "pi < length p")
      case True
      then have d: "drop pi p = p ! pi # drop (Suc pi) p" by (rule Cons_nth_drop_Suc [symmetric])
      show ?thesis using fail True unfolding d by (simp add: hd_drop_conv_nth)
    qed (use fail in simp)
    show ?thesis
    proof (cases star)
      case None
      then show ?thesis using fail no by (subst glob_loop.simps) (auto simp: glob_todo_def)
    next
      case (Some x)
      then obtain sp sn where star: "star = Some (sp, sn)" by (cases x) simp
      note st = glob_step_back [OF less.prems [unfolded star] fail(1) no]
      have sn: "sn < length n" using less.prems fail(1) by (simp add: star glob_ok_def)
      then have "length n - sn = Suc (length n - Suc sn)" by simp
      then have "glob_measure n p (sp + 1, Some (sp, sn + 1)) < glob_measure n p (pi, star)"
        by (simp add: glob_measure_def star)
      from less.hyps [OF this st(1)] show ?thesis
        using fail st(2) unfolding star by (subst glob_loop.simps) auto
    qed
  qed
qed

text \<open>The loop ends on every input, also on names that contain a star.\<close>

lemma glob_loop_terminates:
  assumes "ni \<le> length n" and "pi \<le> length p" and "\<And>sp sn. star = Some (sp, sn) \<Longrightarrow> sn \<le> ni \<and> sp < length p"
  shows "\<exists>r. glob_loop n p ni pi star = Some r"
  using assms
proof (induction "glob_measure n p (pi, star)" arbitrary: ni pi star rule: less_induct)
  case less
  have star_le: "length n - ni \<le> (case star of None \<Rightarrow> Suc (length n) | Some (sp, sn) \<Rightarrow> length n - sn)"
    using less.prems(3) by (auto split: option.splits)
  have 1: "glob_measure n p (pi + 1, star) < glob_measure n p (pi, star)" if "pi < length p"
    using that by (simp add: glob_measure_def)
  have 2: "glob_measure n p (pi + 1, Some (pi, ni)) < glob_measure n p (pi, star)" if "pi < length p"
    using that star_le glob_measure_star unfolding glob_measure_def prod.case option.case by blast
  have 3: "glob_measure n p (sp + 1, Some (sp, sn + 1)) < glob_measure n p (pi, star)"
    if "star = Some (sp, sn)" "ni < length n" for sp sn
  proof -
    have "length n - sn = Suc (length n - Suc sn)" using less.prems(3) [OF that(1)] that(2) by linarith
    then show ?thesis by (simp add: glob_measure_def that(1))
  qed
  show ?case
  proof (cases "ni < length n")
    case True
    have match: "\<exists>r. glob_loop n p (ni + 1) (pi + 1) star = Some r" if "pi < length p"
      using less.hyps [OF 1, of "ni + 1"] less.prems(3) that True by fastforce
    have again: "\<exists>r. glob_loop n p ni (pi + 1) (Some (pi, ni)) = Some r" if "pi < length p"
      using less.hyps [OF 2, of ni] that True by simp
    have rewind: "\<exists>r. glob_loop n p (sn + 1) (sp + 1) (Some (sp, sn + 1)) = Some r" if "star = Some (sp, sn)" for sp sn
      using less.hyps [OF 3, of sp sn "sn + 1"] less.prems(3) that True by fastforce
    show ?thesis
      using True match again rewind by (subst glob_loop.simps) (auto split: option.split)
  qed (subst glob_loop.simps, auto)
qed

lemma glob_match_part_total: "\<exists>b. glob_match_part n p = Some b"
proof -
  obtain r where "glob_loop n p 0 0 None = Some r" using glob_loop_terminates [of 0 n 0 p None] by blast
  then show ?thesis by (cases r) (simp add: glob_match_part_def)
qed

lemma glob_match_part_wild:
  assumes "CHR ''*'' \<notin> set n"
  shows "glob_match_part n p = Some (wild n p)"
proof -
  have "glob_ok n p 0 0 None" by (simp add: glob_ok_def)
  from glob_loop_correct [OF this assms] obtain ok pi where
    "glob_loop n p 0 0 None = Some (ok, pi)"
    "(ok \<and> dropWhile (\<lambda>c. c = CHR ''*'') (drop pi p) = []) = glob_todo n p 0 0 None" by blast
  then show ?thesis by (simp add: glob_match_part_def glob_todo_def)
qed

lemma glob_match_total: "\<exists>b. glob_match n p = Some b"
proof -
  obtain nb ne where n: "split_ext n = (nb, ne)" by fastforce
  obtain pb pe where p: "split_ext p = (pb, pe)" by fastforce
  obtain a b c where "glob_match_part n p = Some a" "glob_match_part nb pb = Some b" "glob_match_part ne pe = Some c"
    using glob_match_part_total by metis
  then show ?thesis by (cases b) (auto simp: glob_match_def n p)
qed

section \<open>8.3 names\<close>

definition digit :: "nat \<Rightarrow> char" where
  "digit d = char_of (48 + d)"

fun to_string :: "nat \<Rightarrow> string" where
  "to_string n = (if n < 10 then [digit n] else to_string (n div 10) @ [digit (n mod 10)])"

declare to_string.simps [simp del]

definition MANGLE_LIMIT :: nat where
  "MANGLE_LIMIT = 1000"

definition mangle_candidate :: "string \<Rightarrow> string \<Rightarrow> nat \<Rightarrow> string" where
  "mangle_candidate base ext n = (let
     nsuffix = ''~'' @ to_string n;
     prefix_len = min (8 - length nsuffix) (length base);
     candidate_base = take prefix_len base @ nsuffix
   in if ext = [] then candidate_base else candidate_base @ ''.'' @ ext)"

text \<open>The mangled name and the set of names in use after it.\<close>

definition mangle_8_3 :: "string \<Rightarrow> string set \<Rightarrow> string \<times> string set" where
  "mangle_8_3 name used = (let
     (base, ext) = split_ext name;
     base = upper base;
     ext = take 3 (upper ext);
     short = (if ext = [] then base else base @ ''.'' @ ext)
   in if length base \<le> 8 \<and> short \<notin> used then (short, insert short used)
   else case find (\<lambda>n. mangle_candidate base ext n \<notin> used) [1 ..< MANGLE_LIMIT] of
     Some n \<Rightarrow> (mangle_candidate base ext n, insert (mangle_candidate base ext n) used)
   | None \<Rightarrow> (name, used))"

definition dos_time_from_unix :: "host \<Rightarrow> int \<Rightarrow> u16 \<times> u16" where
  "dos_time_from_unix H t = (let lt = host_localtime H t in
     (of_int ((tm_year lt + 1900 - 1980) * 2 ^ 9) OR of_nat ((tm_mon lt + 1) * 2 ^ 5) OR of_nat (tm_mday lt),
      of_nat (tm_hour lt * 2 ^ 11) OR of_nat (tm_min lt * 2 ^ 5) OR of_nat (tm_sec lt div 2)))"

record find_entry =
  fe_host_name :: string
  mangled_8_3 :: string

record find_state =
  fs_entries :: "find_entry list"
  fs_index :: nat
  fs_host_dir :: string
  fs_token :: u32

definition split_dir_pattern :: "string \<Rightarrow> string \<times> string" where
  "split_dir_pattern dos_path = (case find_last is_sep dos_path of
     None \<Rightarrow> ([], dos_path) | Some i \<Rightarrow> (take i dos_path, drop (i + 1) dos_path))"

text \<open>The loop over the sorted names.\<close>

fun mangle_all :: "string \<Rightarrow> string list \<Rightarrow> string set \<Rightarrow> find_entry list" where
  "mangle_all pat [] used = []"
| "mangle_all pat (n # ns) used = (let (m, used') = mangle_8_3 n used in
     (if glob_match m pat = Some True then [\<lparr>fe_host_name = n, mangled_8_3 = m\<rparr>] else [])
       @ mangle_all pat ns used')"

definition build_find_state :: "host \<Rightarrow> string \<Rightarrow> string \<Rightarrow> u32 \<Rightarrow> find_state option" where
  "build_find_state H host_dir pattern_u token = (case host_readdir H host_dir of
     None \<Rightarrow> None
   | Some ents \<Rightarrow> let
       names = sort (filter (\<lambda>n. n \<noteq> ''.'' \<and> n \<noteq> ''..'') ents);
       dots = map (\<lambda>d. \<lparr>fe_host_name = d, mangled_8_3 = d\<rparr>)
         (filter (\<lambda>d. glob_match d pattern_u = Some True) [''.'', ''..''])
     in Some \<lparr>fs_entries = dots @ mangle_all pattern_u names {}, fs_index = 0, fs_host_dir = host_dir, fs_token = token\<rparr>)"

section \<open>File modes\<close>

datatype file_mode = Auto | Text | Binary

record file_mapping =
  fm_pattern :: string
  fm_host_path :: string
  fm_mode :: file_mode
  fm_eol_convert :: bool

definition kTextExt :: "string list" where
  "kTextExt = [''TXT'', ''ASM'', ''S'', ''C'', ''H'', ''CC'', ''CPP'', ''CXX'', ''HPP'', ''HXX'', ''INC'',
     ''CFG'', ''INI'', ''BAT'', ''LOG'', ''MD'', ''BAS'', ''PAS'', ''PL'', ''PY'', ''RB'', ''RC'',
     ''DEF'', ''MAK'', ''MAP'', ''LST'', ''TBL'', ''SRT'', ''DAT'', ''CSV'', ''XML'', ''HTML'', ''HTM'',
     ''JSON'', ''YAML'', ''YML'', ''SH'', ''JS'', ''TS'', ''TEX'', ''DIF'', ''PATCH'', ''ERR'']"

definition ext_is_textual :: "string \<Rightarrow> bool" where
  "ext_is_textual base_u = (case find_last (\<lambda>c. c = CHR ''.'') base_u of
     None \<Rightarrow> False | Some d \<Rightarrow> drop (d + 1) base_u \<in> set kTextExt)"

definition mode_is_text :: "file_mode \<Rightarrow> string \<Rightarrow> bool" where
  "mode_is_text mode base_u = (case mode of Text \<Rightarrow> True | Binary \<Rightarrow> False | Auto \<Rightarrow> ext_is_textual base_u)"

definition resolve_path :: "host \<Rightarrow> (char \<times> string) list \<Rightarrow> char \<Rightarrow> file_mapping list \<Rightarrow> file_mode \<Rightarrow> string \<Rightarrow> string \<times> bool" where
  "resolve_path H drives cur mappings dflt dos_path = (let
     base_u = upper (basename_dos dos_path)
   in case find (\<lambda>m. \<not> has_wildcard (fm_pattern m) \<and> upper (fm_pattern m) = base_u) mappings of
     Some m \<Rightarrow> (fm_host_path m, mode_is_text (fm_mode m) base_u)
   | None \<Rightarrow> let
       mode = (case find (\<lambda>m. has_wildcard (fm_pattern m) \<and> glob_match base_u (upper (fm_pattern m)) = Some True) mappings of
           Some m \<Rightarrow> fm_mode m | None \<Rightarrow> dflt)
     in (dos_to_host H drives cur dos_path, mode_is_text mode base_u))"

section \<open>Mangled names are unique\<close>

lemma of_char_digit: "d < 10 \<Longrightarrow> of_char (digit d) = (48 + d :: nat)"
  by (simp add: digit_def)

lemma digit_not_special: "d < 10 \<Longrightarrow> digit d \<noteq> CHR ''~''"
proof
  assume "d < 10" and "digit d = CHR ''~''"
  then have "48 + d = (126 :: nat)" using of_char_digit [of d] by simp
  with \<open>d < 10\<close> show False by simp
qed

lemma digit_inj: "\<lbrakk>d < 10; e < 10; digit d = digit e\<rbrakk> \<Longrightarrow> d = e"
  by (metis add_left_cancel of_char_digit)

lemma to_string_no_tilde: "CHR ''~'' \<notin> set (to_string n)"
proof (induction n rule: to_string.induct)
  case (1 n)
  then show ?case
    using digit_not_special [of n] digit_not_special [of "n mod 10"]
    by (subst to_string.simps) (auto dest: sym)
qed

lemma to_string_nonempty: "to_string n \<noteq> []"
  by (subst to_string.simps) simp

lemma to_string_inj: "to_string n = to_string k \<Longrightarrow> n = k"
proof (induction n arbitrary: k rule: to_string.induct)
  case (1 n)
  have ns: "to_string n = (if n < 10 then [digit n] else to_string (n div 10) @ [digit (n mod 10)])"
    and ks: "to_string k = (if k < 10 then [digit k] else to_string (k div 10) @ [digit (k mod 10)])"
    by (subst to_string.simps, rule refl)+
  show ?case
  proof (cases "n < 10")
    case True
    then have "k < 10" using 1(2) to_string_nonempty [of "k div 10"] unfolding ns ks by (simp split: if_splits)
    then show ?thesis using 1(2) True digit_inj [of n k] unfolding ns ks by simp
  next
    case False
    then have k: "\<not> k < 10" using 1(2) to_string_nonempty [of "n div 10"] unfolding ns ks by (simp split: if_splits)
    then have "to_string (n div 10) = to_string (k div 10)" "digit (n mod 10) = digit (k mod 10)"
      using 1(2) False unfolding ns ks by simp_all
    then have "n div 10 = k div 10" "n mod 10 = k mod 10"
      using 1(1) [OF False] digit_inj [of "n mod 10" "k mod 10"] by simp_all
    then show ?thesis by (metis div_mult_mod_eq)
  qed
qed

lemma length_to_string: "n < 1000 \<Longrightarrow> length (to_string n) \<le> 3"
proof -
  assume "n < 1000"
  then have "n div 10 < 100" "n div 10 div 10 < 10" by simp_all
  then show ?thesis by (subst to_string.simps, subst to_string.simps, subst to_string.simps) simp
qed

text \<open>Different numbers give different candidates: the digits after the last tilde tell them apart.\<close>

lemma tilde_split:
  assumes "xs @ CHR ''~'' # ds = ys @ CHR ''~'' # es" and "CHR ''~'' \<notin> set ds" and "CHR ''~'' \<notin> set es"
  shows "ds = es"
proof -
  have "takeWhile (\<lambda>c. c \<noteq> CHR ''~'') (rev (zs @ CHR ''~'' # fs)) = rev fs" if "CHR ''~'' \<notin> set fs" for zs fs
  proof -
    have "takeWhile (\<lambda>c. c \<noteq> CHR ''~'') (rev fs @ CHR ''~'' # rev zs) = rev fs @ takeWhile (\<lambda>c. c \<noteq> CHR ''~'') (CHR ''~'' # rev zs)"
      using that by (intro takeWhile_append2) auto
    then show ?thesis by simp
  qed
  with assms have "rev ds = rev es" by metis
  then show ?thesis by simp
qed

lemma mangle_candidate_inj: "mangle_candidate base ext n = mangle_candidate base ext k \<Longrightarrow> n = k"
proof -
  assume eq: "mangle_candidate base ext n = mangle_candidate base ext k"
  define pre where "pre n = take (min (8 - length (''~'' @ to_string n)) (length base)) base" for n
  have "pre n @ CHR ''~'' # to_string n = pre k @ CHR ''~'' # to_string k"
    using eq by (simp add: mangle_candidate_def Let_def pre_def split: if_splits)
  then have "to_string n = to_string k" by (rule tilde_split) (rule to_string_no_tilde)+
  then show "n = k" by (rule to_string_inj)
qed

text \<open>A DOS name: one to eight characters and at most three after a dot, no other dots, in upper case.\<close>

definition is_8_3 :: "string \<Rightarrow> bool" where
  "is_8_3 m \<longleftrightarrow> upper m = m \<and> (\<exists>b e. b \<noteq> [] \<and> length b \<le> 8 \<and> length e \<le> 3 \<and> CHR ''.'' \<notin> set (b @ e)
     \<and> m = (if e = [] then b else b @ ''.'' @ e))"

text \<open>The host names with something before their only dot, if they have one.\<close>

definition plain_name :: "string \<Rightarrow> bool" where
  "plain_name host \<longleftrightarrow> fst (split_ext host) \<noteq> [] \<and> CHR ''.'' \<notin> set (fst (split_ext host))"

text \<open>The DOS names a host name can be given: its upper-case short form, or a numbered one.\<close>

definition short_form :: "string \<Rightarrow> string \<Rightarrow> string" where
  "short_form base ext = (if ext = [] then base else base @ ''.'' @ ext)"

definition dos_name_of :: "string \<Rightarrow> string \<Rightarrow> bool" where
  "dos_name_of host m \<longleftrightarrow> (case split_ext host of (b, e) \<Rightarrow> let base = upper b; ext = take 3 (upper e) in
     length base \<le> 8 \<and> m = short_form base ext \<or> (\<exists>n. 1 \<le> n \<and> n < 1000 \<and> m = mangle_candidate base ext n))"

lemma toupper_dot [simp]: "toupper c = CHR ''.'' \<longleftrightarrow> c = CHR ''.''" "CHR ''.'' = toupper c \<longleftrightarrow> c = CHR ''.''"
proof -
  have "(of_char (char_of (of_char c - 32 :: nat) :: char) :: nat) = of_char c - 32" if "(of_char c :: nat) \<le> 122" using that by simp
  then have "toupper c \<noteq> CHR ''.''" if "97 \<le> (of_char c :: nat) \<and> (of_char c :: nat) \<le> 122"
    using that by (auto simp: toupper_def Let_def dest!: arg_cong [where f = "of_char :: char \<Rightarrow> nat"])
  then show "toupper c = CHR ''.'' \<longleftrightarrow> c = CHR ''.''" by (auto simp: toupper_def Let_def)
  then show "CHR ''.'' = toupper c \<longleftrightarrow> c = CHR ''.''" by metis
qed

lemma toupper_idem [simp]: "toupper (toupper c) = toupper c"
  by (auto simp: toupper_def Let_def)

lemma upper_upper [simp]: "upper (upper s) = upper s" "upper (s @ s') = upper s @ upper s'" "upper [] = []" "upper (take k s) = take k (upper s)"
  by (simp_all add: upper_def take_map)

lemma upper_dot: "CHR ''.'' \<in> set (upper s) \<longleftrightarrow> CHR ''.'' \<in> set s"
  by (auto simp: upper_def image_iff)

lemma to_string_code: "c \<in> set (to_string n) \<Longrightarrow> 48 \<le> (of_char c :: nat) \<and> (of_char c :: nat) < 58"
proof (induction n rule: to_string.induct)
  case (1 n)
  then show ?case
    using of_char_digit [of n] of_char_digit [of "n mod 10"] by (subst (asm) to_string.simps) (auto split: if_splits)
qed

lemma upper_number: "upper (''~'' @ to_string n) = ''~'' @ to_string n" "CHR ''.'' \<notin> set (to_string n)"
proof -
  have "map toupper (to_string n) = to_string n"
    by (rule map_idI) (use to_string_code [of _ n] in \<open>fastforce simp: toupper_def Let_def\<close>)
  then show "upper (''~'' @ to_string n) = ''~'' @ to_string n" by (simp add: upper_def toupper_def)
  show "CHR ''.'' \<notin> set (to_string n)" using to_string_code [of "CHR ''.''" n] by auto
qed

lemma split_ext_no_dot:
  assumes "split_ext s = (b, e)"
  shows "CHR ''.'' \<notin> set e"
proof (cases "find_last (\<lambda>c. c = CHR ''.'') s")
  case (Some d)
  then have "e = drop (Suc d) s" using assms by (simp add: split_ext_def)
  then show ?thesis using find_last_after [OF Some] by (auto simp: in_set_conv_nth)
next
  case None
  then show ?thesis using assms by (simp add: split_ext_def)
qed

lemma mangle_candidate_form:
  assumes "n < 1000"
  shows "\<exists>b. mangle_candidate base ext n = short_form b ext \<and> b \<noteq> [] \<and> length b \<le> 8
    \<and> (upper base = base \<longrightarrow> upper b = b) \<and> (CHR ''.'' \<notin> set base \<longrightarrow> CHR ''.'' \<notin> set b)"
proof -
  define b where "b = take (min (8 - length (''~'' @ to_string n)) (length base)) base @ ''~'' @ to_string n"
  have "length b \<le> 8" using length_to_string [OF assms] by (auto simp: b_def)
  moreover have "upper base = base \<longrightarrow> upper b = b" using upper_number [of n] by (simp add: b_def)
  moreover have "CHR ''.'' \<notin> set base \<longrightarrow> CHR ''.'' \<notin> set b" using upper_number(2) [of n] by (auto simp: b_def dest: in_set_takeD)
  ultimately show ?thesis
    by (intro exI [of _ b]) (simp add: mangle_candidate_def short_form_def Let_def b_def)
qed

lemma dos_name_8_3:
  assumes "dos_name_of host m" and "plain_name host"
  shows "is_8_3 m"
proof -
  obtain b e where sp: "split_ext host = (b, e)" by fastforce
  have b: "upper b \<noteq> []" "CHR ''.'' \<notin> set (upper b)" using assms(2) sp by (simp_all add: plain_name_def upper_dot) (simp add: upper_def)
  have e: "CHR ''.'' \<notin> set (take 3 (upper e))" using split_ext_no_dot [OF sp] upper_dot [of e] by (auto dest: in_set_takeD)
  have form: "is_8_3 (short_form c (take 3 (upper e)))" if "c \<noteq> []" "length c \<le> 8" "upper c = c" "CHR ''.'' \<notin> set c" for c
  proof -
    define x where "x = take 3 (upper e)"
    have x: "length x \<le> 3" "upper x = x" "CHR ''.'' \<notin> set x" using e by (simp_all add: x_def)
    have "upper (CHR ''.'' # y) = CHR ''.'' # upper y" for y by (simp add: upper_def toupper_def)
    then have "upper (short_form c x) = short_form c x" using that(3) x(2) by (simp add: short_form_def)
    moreover have "\<exists>b e. b \<noteq> [] \<and> length b \<le> 8 \<and> length e \<le> 3 \<and> CHR ''.'' \<notin> set (b @ e)
        \<and> short_form c x = (if e = [] then b else b @ ''.'' @ e)"
      by (rule exI [of _ c], rule exI [of _ x]) (use that x in \<open>simp add: short_form_def\<close>)
    ultimately show ?thesis by (simp add: is_8_3_def x_def)
  qed
  from assms(1) show ?thesis
    using form [of "upper b"] b mangle_candidate_form [of _ "upper b" "take 3 (upper e)"] form
    unfolding dos_name_of_def sp prod.case Let_def by (metis upper_upper(1))
qed

text \<open>One name: it gets a free DOS name, or, when its thousand candidates are taken, the name on the host.\<close>

text \<open>Only the last dot counts: a name with two is given as it is.\<close>

lemma mangle_8_3_two_dots: "fst (mangle_8_3 ''a.b.c'' {}) = ''A.B.C'' \<and> \<not> is_8_3 ''A.B.C''"
proof
  show "fst (mangle_8_3 ''a.b.c'' {}) = ''A.B.C''" by code_simp
  have "\<not> (CHR ''.'' \<notin> set (b @ e) \<and> ''A.B.C'' = (if e = [] then b else b @ ''.'' @ e))" for b e
  proof
    assume a: "CHR ''.'' \<notin> set (b @ e) \<and> ''A.B.C'' = (if e = [] then b else b @ ''.'' @ e)"
    then have "count_list ''A.B.C'' CHR ''.'' \<le> 1" by (auto split: if_splits)
    then show False by simp
  qed
  then show "\<not> is_8_3 ''A.B.C''" by (auto simp: is_8_3_def)
qed

lemma mangle_8_3_cases:
  obtains (named) m where "mangle_8_3 name used = (m, insert m used)" "m \<notin> used" "dos_name_of name m"
  | (given_up) "mangle_8_3 name used = (name, used)" "finite used \<Longrightarrow> 999 \<le> card used"
proof -
  obtain b0 e0 where sp: "split_ext name = (b0, e0)" by fastforce
  define base where "base = upper b0"
  define ext where "ext = take 3 (upper e0)"
  have m: "mangle_8_3 name used = (if length base \<le> 8 \<and> short_form base ext \<notin> used then (short_form base ext, insert (short_form base ext) used)
     else case find (\<lambda>n. mangle_candidate base ext n \<notin> used) [1 ..< MANGLE_LIMIT] of
       Some n \<Rightarrow> (mangle_candidate base ext n, insert (mangle_candidate base ext n) used)
     | None \<Rightarrow> (name, used))"
    unfolding mangle_8_3_def sp Let_def prod.case base_def [symmetric] ext_def [symmetric] short_form_def [symmetric] by (rule refl)
  have dos: "dos_name_of name m \<longleftrightarrow> length base \<le> 8 \<and> m = short_form base ext \<or> (\<exists>n. 1 \<le> n \<and> n < 1000 \<and> m = mangle_candidate base ext n)" for m
    by (simp add: dos_name_of_def sp base_def ext_def Let_def)
  show thesis
  proof (cases "length base \<le> 8 \<and> short_form base ext \<notin> used")
    case True
    then show thesis by (intro named [of "short_form base ext"]) (simp_all add: m dos)
  next
    case False
    show thesis
    proof (cases "find (\<lambda>n. mangle_candidate base ext n \<notin> used) [1 ..< MANGLE_LIMIT]")
      case None
      have all: "mangle_candidate base ext ` {1 ..< 1000} \<subseteq> used"
        using None unfolding find_None_iff MANGLE_LIMIT_def by (auto simp del: upt_rec_numeral)
      have "card (mangle_candidate base ext ` {1 ..< 1000}) = 999"
        by (subst card_image) (auto intro: inj_onI mangle_candidate_inj)
      then have "999 \<le> card used" if "finite used" using card_mono [OF that all] by simp
      then show thesis by (intro given_up) (use False None m in auto)
    next
      case (Some n)
      then have "1 \<le> n" "n < 1000" "mangle_candidate base ext n \<notin> used"
        using find_SomeD [OF Some] by (auto simp: MANGLE_LIMIT_def simp del: upt_rec_numeral)
      then show thesis using False Some m by (intro named [of "mangle_candidate base ext n"]) (auto simp: dos)
    qed
  qed
qed

lemma mangle_all_shape:
  assumes "finite used" and "e \<in> set (mangle_all pat ns used)"
  shows "fe_host_name e \<in> set ns \<and> glob_match (mangled_8_3 e) pat = Some True
    \<and> (dos_name_of (fe_host_name e) (mangled_8_3 e) \<or> mangled_8_3 e = fe_host_name e \<and> 999 \<le> card used + length ns)"
  using assms
proof (induction ns arbitrary: used)
  case (Cons n ns)
  show ?case
  proof (cases rule: mangle_8_3_cases [of n used])
    case (named m)
    then show ?thesis using Cons.IH [of "insert m used"] Cons.prems by (auto split: if_splits)
  next
    case given_up
    then show ?thesis using Cons.IH [of used] Cons.prems by (auto split: if_splits)
  qed
qed simp

text \<open>The names that differ from the host's are pairwise different; below 999 names all are.\<close>

lemma mangle_all_distinct:
  fixes pat ns used
  defines "es \<equiv> mangle_all pat ns used"
  defines "renamed \<equiv> filter (\<lambda>e. mangled_8_3 e \<noteq> fe_host_name e) es"
  shows "distinct (map mangled_8_3 renamed)" and "mangled_8_3 ` set renamed \<inter> used = {}"
    and "\<lbrakk>finite used; card used + length ns < 999\<rbrakk> \<Longrightarrow> distinct (map mangled_8_3 es) \<and> mangled_8_3 ` set es \<inter> used = {}"
proof -
  have "distinct (map mangled_8_3 (filter (\<lambda>e. mangled_8_3 e \<noteq> fe_host_name e) (mangle_all pat ns used)))
    \<and> mangled_8_3 ` set (filter (\<lambda>e. mangled_8_3 e \<noteq> fe_host_name e) (mangle_all pat ns used)) \<inter> used = {}
    \<and> (finite used \<and> card used + length ns < 999 \<longrightarrow> distinct (map mangled_8_3 (mangle_all pat ns used))
      \<and> mangled_8_3 ` set (mangle_all pat ns used) \<inter> used = {})"
  proof (induction ns arbitrary: used)
    case (Cons n ns)
    show ?case
    proof (cases rule: mangle_8_3_cases [of n used])
      case (named m)
      have "finite used \<Longrightarrow> card (insert m used) = Suc (card used)" using named(2) by simp
      then show ?thesis using Cons.IH [of "insert m used"] named by (auto simp: image_iff)
    next
      case given_up
      then show ?thesis using Cons.IH [of used] by auto
    qed
  qed simp
  then show "distinct (map mangled_8_3 renamed)" "mangled_8_3 ` set renamed \<inter> used = {}"
    "\<lbrakk>finite used; card used + length ns < 999\<rbrakk> \<Longrightarrow> distinct (map mangled_8_3 es) \<and> mangled_8_3 ` set es \<inter> used = {}"
    unfolding es_def renamed_def by blast+
qed

section \<open>Properties\<close>

text \<open>C13: DOS wildcards. The two-pointer loop of \<open>glob_match_part\<close> terminates on every name and pattern, and
  for a name without a star character it answers exactly whether the pattern matches: \<open>?\<close> stands for one
  character and \<open>*\<close> for any number.\<close>

theorem glob_match_part_correct:
  "(\<exists>b. glob_match_part name pat = Some b)
   \<and> (CHR ''*'' \<notin> set name \<longrightarrow> glob_match_part name pat = Some (wild name pat))"
  using glob_match_part_total glob_match_part_wild by blast

theorem glob_match_part_correct_witness: "glob_match_part ''FOO1BAR'' ''F*1?A*'' = Some True"
proof -
  have "wild ''FOO1BAR'' ''F*1?A*''"
    by (simp, intro exI [of _ 2]) (auto intro: exI [of _ 0])
  then show ?thesis using glob_match_part_correct [of "''FOO1BAR''" "''F*1?A*''"] by simp
qed



end
