(* ===== verification/Dos.thy ===== *)
theory Dos
  imports PmArena Paths Bios
begin

text \<open>
  The state of the DOS kernel in \<open>bridge.cc\<close> and its console services. The host operating system is a
  parameter: a record of the system calls the code makes, over a host state \<open>'h\<close>. Modelled here: the
  character input and output of INT 21h (functions 01h, 02h, 06h to 0Bh) and the keyboard BIOS INT 16h.
\<close>

section \<open>The host operating system as a parameter\<close>

datatype access_mode = O_RDONLY | O_WRONLY | O_RDWR

datatype whence = SEEK_SET | SEEK_CUR | SEEK_END

text \<open>
  A read returns None on an error and otherwise the bytes it got, none at the end of the file. \<open>os_open\<close>
  takes the access mode and whether O_CREAT and O_TRUNC are set. A failing \<open>os_rename\<close> says whether
  \<open>errno\<close> is ENOENT. \<open>os_view\<close> is what \<open>stat\<close>, \<open>readdir\<close> and \<open>localtime\<close> see.
\<close>

record 'h os =
  os_read :: "int \<Rightarrow> nat \<Rightarrow> 'h \<Rightarrow> u8 list option \<times> 'h"
  os_write :: "int \<Rightarrow> u8 list \<Rightarrow> 'h \<Rightarrow> bool \<times> 'h"
  os_open :: "string \<Rightarrow> access_mode \<Rightarrow> bool \<Rightarrow> bool \<Rightarrow> 'h \<Rightarrow> int option \<times> 'h"
  os_close :: "int \<Rightarrow> 'h \<Rightarrow> 'h"
  os_lseek :: "int \<Rightarrow> int \<Rightarrow> whence \<Rightarrow> 'h \<Rightarrow> int \<times> 'h"
  os_dup :: "int \<Rightarrow> 'h \<Rightarrow> int option \<times> 'h"
  os_dup2 :: "int \<Rightarrow> int \<Rightarrow> 'h \<Rightarrow> bool \<times> 'h"
  os_fstat :: "int \<Rightarrow> 'h \<Rightarrow> host_stat option"
  os_isatty :: "int \<Rightarrow> 'h \<Rightarrow> bool"
  os_access :: "string \<Rightarrow> 'h \<Rightarrow> bool"
  os_chmod :: "string \<Rightarrow> u32 \<Rightarrow> 'h \<Rightarrow> 'h"
  os_mkdir :: "string \<Rightarrow> 'h \<Rightarrow> bool \<times> 'h"
  os_rmdir :: "string \<Rightarrow> 'h \<Rightarrow> bool \<times> 'h"
  os_unlink :: "string \<Rightarrow> 'h \<Rightarrow> bool \<times> 'h"
  os_rename :: "string \<Rightarrow> string \<Rightarrow> 'h \<Rightarrow> bool option \<times> 'h"
  os_fputc :: "u8 \<Rightarrow> 'h \<Rightarrow> 'h"
  os_fflush :: "'h \<Rightarrow> 'h"
  os_stdin_ready :: "'h \<Rightarrow> bool"
  os_time :: "'h \<Rightarrow> int \<times> nat"
  os_view :: "'h \<Rightarrow> host"

section \<open>The state\<close>

text \<open>\<open>HostHandle\<close>; a \<open>read_pending\<close> of -1 is None.\<close>

record host_handle =
  fd :: int
  text_mode :: bool
  read_pending :: "u8 option"

text \<open>\<open>ProcessState\<close>: the registers of a parent that waits for its child, and the child's blocks; \<open>ps_seg\<close> is the six
  segment registers. The process stack has its top first.\<close>

record process_state =
  ps_seg :: "seg \<Rightarrow> u16"
  ps_eip :: u32
  ps_esp :: u32
  ps_ebp :: u32
  ps_eax :: u32
  ps_ebx :: u32
  ps_ecx :: u32
  ps_edx :: u32
  ps_esi :: u32
  ps_edi :: u32
  ps_eflags :: u32
  child_data_seg :: u16
  child_env_seg :: u16
  child_exit_code :: u16

record ('m, 'h) dos = "'m arenas" +
  host_st :: 'h
  s_drive_cwd :: "(char \<times> string) list"
  s_handles :: "(u16 \<times> host_handle) list"
  s_drives :: "(char \<times> string) list"
  s_current_drive :: char
  s_default_mode :: file_mode
  s_file_mappings :: "file_mapping list"
  s_dta_linear :: u32
  s_finds :: "(u32 \<times> find_state) list"
  s_next_find_token :: u32
  stdin_pending :: "u8 option"
  s_int16_peek :: "u8 option"
  g_windowed :: bool
  g_display_open :: bool
  g_text_attr :: u8
  ctrl_break_on :: u8
  switchar :: u8
  nls_installed :: bool
  lol_inited :: bool
  s_process_stack :: "process_state list"
  s_child_exit_pending :: bool
  s_exit_code :: int
  s_last_child_exit :: u16
  shutdown_requested :: bool

definition sys :: "('h \<Rightarrow> 'r \<times> 'h) \<Rightarrow> ('m, 'h, 'z) dos_scheme \<Rightarrow> 'r \<times> ('m, 'h, 'z) dos_scheme" where
  "sys f s = (let (r, h) = f (host_st s) in (r, s\<lparr>host_st := h\<rparr>))"

definition sysu :: "('h \<Rightarrow> 'h) \<Rightarrow> ('m, 'h, 'z) dos_scheme \<Rightarrow> ('m, 'h, 'z) dos_scheme" where
  "sysu f s = s\<lparr>host_st := f (host_st s)\<rparr>"

section \<open>Console input and output\<close>

text \<open>One byte from standard input, None at the end or on an error.\<close>

definition read_stdin :: "'h os \<Rightarrow> ('m, 'h, 'z) dos_scheme \<Rightarrow> u8 option \<times> ('m, 'h, 'z) dos_scheme" where
  "read_stdin OS s = (let (r, s) = sys (os_read OS 0 1) s in
     (case r of Some (c # _) \<Rightarrow> Some c | _ \<Rightarrow> None, s))"

definition mirror :: "'m emu88 \<Rightarrow> u8 \<Rightarrow> ('m, 'h, 'z) dos_scheme \<Rightarrow> ('m, 'h, 'z) dos_scheme" where
  "mirror E c s = (if g_windowed s then wr (screen_putchar E (g_text_attr s) c) s else s)"

definition put_stdout :: "'m emu88 \<Rightarrow> 'h os \<Rightarrow> u8 \<Rightarrow> ('m, 'h, 'z) dos_scheme \<Rightarrow> ('m, 'h, 'z) dos_scheme" where
  "put_stdout E OS c s = mirror E c (sysu (os_fflush OS) (sysu (os_fputc OS c) s))"

definition lf_to_cr :: "u8 \<Rightarrow> u8" where
  "lf_to_cr c = (if c = 0x0A then 0x0D else c)"

definition int21_01 :: "'m emu88 \<Rightarrow> 'h os \<Rightarrow> ('m, 'h, 'z) dos_scheme \<Rightarrow> ('m, 'h, 'z) dos_scheme" where
  "int21_01 E OS s = (case read_stdin OS s of
     (None, s) \<Rightarrow> set_al 0 s
   | (Some c, s) \<Rightarrow> set_al (lf_to_cr c) (put_stdout E OS c s))"

definition int21_07 :: "'m emu88 \<Rightarrow> 'h os \<Rightarrow> ('m, 'h, 'z) dos_scheme \<Rightarrow> ('m, 'h, 'z) dos_scheme" where
  "int21_07 E OS s = (case read_stdin OS s of
     (None, s) \<Rightarrow> set_al 0 s
   | (Some c, s) \<Rightarrow> set_al (lf_to_cr c) s)"

definition int21_0B :: "'m emu88 \<Rightarrow> 'h os \<Rightarrow> ('m, 'h, 'z) dos_scheme \<Rightarrow> ('m, 'h, 'z) dos_scheme" where
  "int21_0B E OS s = set_al (if os_stdin_ready OS (host_st s) then 0xFF else 0) s"

definition int21_02 :: "'m emu88 \<Rightarrow> 'h os \<Rightarrow> ('m, 'h, 'z) dos_scheme \<Rightarrow> ('m, 'h, 'z) dos_scheme" where
  "int21_02 E OS s = put_stdout E OS (reg_dl s) s"

definition int21_06 :: "'m emu88 \<Rightarrow> 'h os \<Rightarrow> ('m, 'h, 'z) dos_scheme \<Rightarrow> ('m, 'h, 'z) dos_scheme" where
  "int21_06 E OS s = (if reg_dl s \<noteq> 0xFF
     then CALLBACK_SZF E False (set_al (reg_dl s) (put_stdout E OS (reg_dl s) s))
     else let (r, s) = (if os_stdin_ready OS (host_st s) then read_stdin OS s else (None, s)) in
       case r of
         Some c \<Rightarrow> CALLBACK_SZF E False (set_al (lf_to_cr c) s)
       | None \<Rightarrow> CALLBACK_SZF E True (set_al 0 s))"

text \<open>The loop of AH=0Ah: \<open>n\<close> more bytes fit, \<open>count\<close> are stored.\<close>

fun input_line :: "'m emu88 \<Rightarrow> 'h os \<Rightarrow> u32 \<Rightarrow> nat \<Rightarrow> nat \<Rightarrow> ('m, 'h, 'z) dos_scheme \<Rightarrow> nat \<times> ('m, 'h, 'z) dos_scheme" where
  "input_line E OS buf 0 count s = (count, s)"
| "input_line E OS buf (Suc n) count s = (case read_stdin OS s of
     (None, s) \<Rightarrow> (count, s)
   | (Some c, s) \<Rightarrow> let
       stored = lf_to_cr c;
       s = wr (mem_writeb E (buf + 2 + of_nat count) stored) s;
       s = mirror E stored (sysu (os_fputc OS c) s)
     in if stored = 0x0D then (count + 1, s) else input_line E OS buf n (count + 1) s)"

definition int21_0A :: "'m emu88 \<Rightarrow> 'h os \<Rightarrow> ('m, 'h, 'z) dos_scheme \<Rightarrow> ('m, 'h, 'z) dos_scheme" where
  "int21_0A E OS s = (let
     buf = dos_arg_addr DS (ucast (reg_dx s)) (reg_edx s) s;
     mx = mem_readb E (mem s) buf
   in if mx = 0 then wr (mem_writeb E (buf + 1) 0) s
   else let (count, s) = input_line E OS buf (unat (mx - 1)) 0 s
     in wr (mem_writeb E (buf + 1) (of_nat count)) (sysu (os_fflush OS) s))"

text \<open>The loop of AH=09h: the 16-bit offset wraps, so a segment without a dollar sign is printed forever.\<close>

partial_function (option) print_dollar ::
  "'m emu88 \<Rightarrow> 'h os \<Rightarrow> u32 \<Rightarrow> u16 \<Rightarrow> ('m, 'h, 'z) dos_scheme \<Rightarrow> ('m, 'h, 'z) dos_scheme option" where
  "print_dollar E OS base off s = (let c = mem_readb E (mem s) (base + ucast off) in
     if c = 0x24 then Some s
     else print_dollar E OS base (off + 1) (mirror E c (sysu (os_fputc OS c) s)))"

definition int21_09 :: "'m emu88 \<Rightarrow> 'h os \<Rightarrow> ('m, 'h, 'z) dos_scheme \<Rightarrow> ('m, 'h, 'z) dos_scheme option" where
  "int21_09 E OS s = map_option (sysu (os_fflush OS)) (print_dollar E OS (seg_phys s DS) (reg_dx s) s)"

section \<open>INT 16h\<close>

definition letter_scancode :: "u8 \<Rightarrow> u8 option" where
  "letter_scancode c = (if 0x61 \<le> c \<and> c \<le> 0x7A then Some (c - 0x61 + 0x1E)
     else if 0x41 \<le> c \<and> c \<le> 0x5A then Some (c - 0x41 + 0x1E) else None)"

text \<open>With a window the keys come from the BIOS ring, which the window's event callback fills;
  \<open>present\<close> and \<open>pump\<close> stand for the display layer's \<open>dosiz_window_present\<close> and \<open>dosiz_window_pump\<close>.\<close>

partial_function (option) wait_key ::
  "'m emu88 \<Rightarrow> (('m, 'h, 'z) dos_scheme \<Rightarrow> ('m, 'h, 'z) dos_scheme) \<Rightarrow> ('m, 'h, 'z) dos_scheme \<Rightarrow> ('m, 'h, 'z) dos_scheme option" where
  "wait_key E present s = (case kbd_ring_pop E (mem s) of
     (Some key, m) \<Rightarrow> Some (set_ax key (s\<lparr>mem := m\<rparr>))
   | (None, m) \<Rightarrow> let s = present (s\<lparr>mem := m\<rparr>) in
       if shutdown_requested s then Some (set_ax 0x011B s) else wait_key E present s)"

definition int16_check_window ::
  "'m emu88 \<Rightarrow> (('m, 'h, 'z) dos_scheme \<Rightarrow> ('m, 'h, 'z) dos_scheme) \<Rightarrow> ('m, 'h, 'z) dos_scheme \<Rightarrow> ('m, 'h, 'z) dos_scheme" where
  "int16_check_window E pump s = (case kbd_ring_peek E (mem s) of
     Some key \<Rightarrow> CALLBACK_SZF E False (set_ax key s)
   | None \<Rightarrow> CALLBACK_SZF E True (pump s))"

definition int16_wait :: "'m emu88 \<Rightarrow> 'h os \<Rightarrow> ('m, 'h, 'z) dos_scheme \<Rightarrow> ('m, 'h, 'z) dos_scheme" where
  "int16_wait E OS s = (let
     (c, s) = (case s_int16_peek s of
         Some c \<Rightarrow> (c, s\<lparr>s_int16_peek := None\<rparr>)
       | None \<Rightarrow> (case read_stdin OS s of (r, s) \<Rightarrow> (case r of None \<Rightarrow> 0x1B | Some c \<Rightarrow> c, s)));
     c = lf_to_cr c
   in set_ah (case letter_scancode c of Some k \<Rightarrow> k | None \<Rightarrow> if c = 0x0D then 0x1C else 1) (set_al c s))"

definition int16_check :: "'m emu88 \<Rightarrow> 'h os \<Rightarrow> ('m, 'h, 'z) dos_scheme \<Rightarrow> ('m, 'h, 'z) dos_scheme" where
  "int16_check E OS s = (let
     s = (if s_int16_peek s = None \<and> os_stdin_ready OS (host_st s)
       then (case read_stdin OS s of (r, s) \<Rightarrow> s\<lparr>s_int16_peek := map_option lf_to_cr r\<rparr>) else s)
   in case s_int16_peek s of
     None \<Rightarrow> CALLBACK_SZF E True s
   | Some c \<Rightarrow> CALLBACK_SZF E False (set_ah (case letter_scancode c of Some k \<Rightarrow> k | None \<Rightarrow> 1) (set_al c s)))"

definition dosiz_int16 ::
  "'m emu88 \<Rightarrow> 'h os \<Rightarrow> (('m, 'h, 'z) dos_scheme \<Rightarrow> ('m, 'h, 'z) dos_scheme) \<Rightarrow>
    (('m, 'h, 'z) dos_scheme \<Rightarrow> ('m, 'h, 'z) dos_scheme) \<Rightarrow> ('m, 'h, 'z) dos_scheme \<Rightarrow> ('m, 'h, 'z) dos_scheme option" where
  "dosiz_int16 E OS present pump s = (let ah = reg_ah s in
     if ah = 0 \<or> ah = 0x10 then if g_display_open s then wait_key E present s else Some (int16_wait E OS s)
     else if ah = 1 \<or> ah = 0x11 then Some (if g_display_open s then int16_check_window E pump s else int16_check E OS s)
     else if ah = 2 then Some (set_al 0 s)
     else Some s)"

section \<open>What the helpers leave alone\<close>

text \<open>Register, flag and memory updates keep the state of DOS: everything behind the arenas.\<close>

named_theorems dos_frame \<open>DOS state over register, flag and memory updates\<close>

lemma more_set_regs [dos_frame]:
  "arenas.more (set_ax v s) = arenas.more s" "arenas.more (set_bx v s) = arenas.more s"
  "arenas.more (set_cx v s) = arenas.more s" "arenas.more (set_dx v s) = arenas.more s"
  "arenas.more (set_si v s) = arenas.more s" "arenas.more (set_di v s) = arenas.more s"
  by (simp_all add: reg_defs)

lemma more_set_bytes [dos_frame]:
  "arenas.more (set_al b s) = arenas.more s" "arenas.more (set_ah b s) = arenas.more s"
  "arenas.more (set_bl b s) = arenas.more s" "arenas.more (set_bh b s) = arenas.more s"
  "arenas.more (set_cl b s) = arenas.more s" "arenas.more (set_ch b s) = arenas.more s"
  "arenas.more (set_dl b s) = arenas.more s" "arenas.more (set_dh b s) = arenas.more s"
  by (simp_all add: reg_defs)

lemma more_set_flags [dos_frame]:
  "arenas.more (set_cf E v s) = arenas.more s" "arenas.more (return_error E e s) = arenas.more s"
  "arenas.more (CALLBACK_SZF E v s) = arenas.more s" "arenas.more (wr g s) = arenas.more s"
  "arenas.more (SegSet16 E sg w s) = arenas.more s"
  by (simp_all add: set_cf_def return_error_def Let_def reg_defs CALLBACK_SZF_def callback_flag_def wr_def
      SegSet16_def mirror_seg_def)

lemma more_mirror [dos_frame]: "arenas.more (mirror E c s) = arenas.more s"
  by (simp add: mirror_def dos_frame)

lemma host_st_cong: "arenas.more s = arenas.more t \<Longrightarrow> host_st s = host_st t"
  by (cases s; cases t) simp

lemma handles_cong: "arenas.more s = arenas.more t \<Longrightarrow> s_handles s = s_handles t"
  by (cases s; cases t) simp

lemma finds_cong: "arenas.more s = arenas.more t \<Longrightarrow> s_finds s = s_finds t \<and> s_dta_linear s = s_dta_linear t"
  by (cases s; cases t) simp

lemmas host_frame [simp] = dos_frame [THEN host_st_cong] dos_frame [THEN handles_cong]
  dos_frame [THEN finds_cong, THEN conjunct1] dos_frame [THEN finds_cong, THEN conjunct2]

end
