(* ===== verification/Files.thy ===== *)
theory Files
  imports Dos Pool "HOL-Library.Multiset"
begin

text \<open>
  The file services of INT 21h in \<open>bridge.cc\<close>: the handle table, create, open, close, read, write, seek,
  duplicate, IOCTL, find-first and find-next, directories, attributes and path canonicalisation. Shown: the
  handle table is a resource pool, a close undoes an open, a read delivers the bytes of the file however the
  host splits them, and a directory search delivers its entries one by one and then ends.
\<close>

section \<open>The handle table\<close>

definition FIRST_FILE_HANDLE :: nat where "FIRST_FILE_HANDLE = 5"
definition MAX_HANDLES :: nat where "MAX_HANDLES = 20"

definition free_handle :: "(u16 \<times> host_handle) list \<Rightarrow> u16 option" where
  "free_handle hs = map_option of_nat (find (\<lambda>h. map_of hs (of_nat h) = None) [FIRST_FILE_HANDLE ..< MAX_HANDLES])"

definition allocate_handle :: "int \<Rightarrow> bool \<Rightarrow> ('m, 'h, 'z) dos_scheme \<Rightarrow> u16 option \<times> ('m, 'h, 'z) dos_scheme" where
  "allocate_handle f txt s = (case free_handle (s_handles s) of
     None \<Rightarrow> (None, s)
   | Some h \<Rightarrow> (Some h, s\<lparr>s_handles := map_set h \<lparr>fd = f, text_mode = txt, read_pending = None\<rparr> (s_handles s)\<rparr>))"

text \<open>What every opening service does with the descriptor it got.\<close>

definition bind_handle ::
  "'m emu88 \<Rightarrow> 'h os \<Rightarrow> int \<Rightarrow> bool \<Rightarrow> ('m, 'h, 'z) dos_scheme \<Rightarrow> ('m, 'h, 'z) dos_scheme" where
  "bind_handle E OS f txt s = (case allocate_handle f txt s of
     (None, s) \<Rightarrow> return_error E 4 (sysu (os_close OS f) s)
   | (Some h, s) \<Rightarrow> set_cf E False (set_ax h s))"

definition ds_dx_path :: "'m emu88 \<Rightarrow> ('m, 'h, 'z) dos_scheme \<Rightarrow> string" where
  "ds_dx_path E s = read_dos_path E DS (ucast (reg_dx s)) (reg_edx s) s"

definition ds_si_path :: "'m emu88 \<Rightarrow> ('m, 'h, 'z) dos_scheme \<Rightarrow> string" where
  "ds_si_path E s = read_dos_path E DS (ucast (reg_si s)) (reg_esi s) s"

definition host_of :: "'h os \<Rightarrow> ('m, 'h, 'z) dos_scheme \<Rightarrow> string \<Rightarrow> string" where
  "host_of OS s p = dos_to_host (os_view OS (host_st s)) (s_drives s) (s_current_drive s) p"

definition resolve :: "'h os \<Rightarrow> ('m, 'h, 'z) dos_scheme \<Rightarrow> string \<Rightarrow> string \<times> bool" where
  "resolve OS s p = resolve_path (os_view OS (host_st s)) (s_drives s) (s_current_drive s) (s_file_mappings s) (s_default_mode s) p"

section \<open>Create, open, close\<close>

definition int21_3C :: "'m emu88 \<Rightarrow> 'h os \<Rightarrow> ('m, 'h, 'z) dos_scheme \<Rightarrow> ('m, 'h, 'z) dos_scheme" where
  "int21_3C E OS s = (let
     (host_path, txt) = resolve OS s (ds_dx_path E s);
     (r, s) = sys (os_open OS host_path O_RDWR True True) s
   in case r of None \<Rightarrow> return_error E 5 s | Some f \<Rightarrow> bind_handle E OS f txt s)"

text \<open>A nested program's clobbered argv[0]: the first byte is zero and the rest of the path survives.\<close>

definition open_path :: "'m emu88 \<Rightarrow> ('m, 'h, 'z) dos_scheme \<Rightarrow> string" where
  "open_path E s = (let
     p = ds_dx_path E s;
     lin = seg_phys s DS + ucast (reg_dx s)
   in if p = [] \<and> s_process_stack s \<noteq> [] \<and> reg_dx s \<noteq> 0 \<and> mem_readb E (mem s) lin = 0 \<and> mem_readb E (mem s) (lin + 1) = 0x3A
      then s_current_drive s # read_string_from E (mem s) (lin + 1) 127
      else p)"

definition char_devices :: "string list" where
  "char_devices = [''EMMXXXX0'', ''XMSXXXX0'', ''CON'', ''NUL'', ''AUX'', ''PRN'', ''CLOCK$'']"

definition device_stem :: "string \<Rightarrow> string" where
  "device_stem dos_path = (let base = basename_dos dos_path in
     upper (case find_first (\<lambda>c. c = CHR ''.'') base of None \<Rightarrow> base | Some d \<Rightarrow> take d base))"

definition open_flags :: "u16 \<Rightarrow> access_mode" where
  "open_flags m = (if m AND 7 = 1 then O_WRONLY else if m AND 7 = 2 then O_RDWR else O_RDONLY)"

definition int21_3D :: "'m emu88 \<Rightarrow> 'h os \<Rightarrow> ('m, 'h, 'z) dos_scheme \<Rightarrow> ('m, 'h, 'z) dos_scheme" where
  "int21_3D E OS s = (let dos_path = open_path E s in
     if device_stem dos_path \<in> set char_devices
     then (case sys (os_open OS ''/dev/null'' O_RDWR False False) s of
         (None, s) \<Rightarrow> return_error E 2 s
       | (Some f, s) \<Rightarrow> bind_handle E OS f False s)
     else let
       (host_path, txt) = resolve OS s dos_path;
       (r, s) = sys (os_open OS host_path (open_flags (ucast (reg_al s))) False False) s
     in case r of
         None \<Rightarrow> return_error E 2 s
       | Some f \<Rightarrow> (case os_fstat OS f (host_st s) of
           Some st \<Rightarrow> if S_ISDIR st then return_error E 5 (sysu (os_close OS f) s) else bind_handle E OS f txt s
         | None \<Rightarrow> bind_handle E OS f txt s))"

definition int21_3E :: "'m emu88 \<Rightarrow> 'h os \<Rightarrow> ('m, 'h, 'z) dos_scheme \<Rightarrow> ('m, 'h, 'z) dos_scheme" where
  "int21_3E E OS s = (if reg_bx s \<le> 4 then set_cf E False s
     else case map_of (s_handles s) (reg_bx s) of
       None \<Rightarrow> return_error E 6 s
     | Some hh \<Rightarrow> let s = sysu (os_close OS (fd hh)) s in
         set_cf E False (s\<lparr>s_handles := map_erase (reg_bx s) (s_handles s)\<rparr>))"

text \<open>AH=6Ch, extended open or create.\<close>

definition int21_6C :: "'m emu88 \<Rightarrow> 'h os \<Rightarrow> ('m, 'h, 'z) dos_scheme \<Rightarrow> ('m, 'h, 'z) dos_scheme" where
  "int21_6C E OS s = (let
     (host_path, txt) = resolve OS s (ds_si_path E s);
     ex = os_access OS host_path (host_st s);
     open_existing = bit (reg_dx s) 0;
     truncate_existing = bit (reg_dx s) 1;
     create_new = bit (reg_dx s) 4
   in if ex \<and> \<not> open_existing \<and> \<not> truncate_existing then return_error E 0x50 s
   else if \<not> ex \<and> \<not> create_new then return_error E 2 s
   else let
     action_taken = (if \<not> ex then 2 else if truncate_existing then 3 else 1);
     (r, s) = sys (os_open OS host_path (open_flags (reg_bx s)) (\<not> ex) (ex \<and> truncate_existing)) s
   in case r of
       None \<Rightarrow> return_error E 5 s
     | Some f \<Rightarrow> (case allocate_handle f txt s of
         (None, s) \<Rightarrow> return_error E 4 (sysu (os_close OS f) s)
       | (Some h, s) \<Rightarrow> set_cf E False (set_cx action_taken (set_ax h s))))"

section \<open>Read and write\<close>

definition pm32 :: "('m, 'h, 'z) dos_scheme \<Rightarrow> bool" where
  "pm32 s \<longleftrightarrow> cpu_pmode s \<and> s_int_gate_bits32 s"

definition io_count :: "('m, 'h, 'z) dos_scheme \<Rightarrow> nat" where
  "io_count s = (if pm32 s then unat (reg_ecx s) else unat (reg_cx s))"

definition io_addr :: "('m, 'h, 'z) dos_scheme \<Rightarrow> u32" where
  "io_addr s = seg_phys s DS + (if pm32 s then reg_edx s else ucast (reg_dx s))"

definition set_io_result :: "nat \<Rightarrow> ('m, 'h, 'z) dos_scheme \<Rightarrow> ('m, 'h, 'z) dos_scheme" where
  "set_io_result n s = (if pm32 s then s\<lparr>reg_eax := of_nat n\<rparr> else set_ax (of_nat n) s)"

definition store_bytes :: "'m emu88 \<Rightarrow> u32 \<Rightarrow> u8 list \<Rightarrow> 'm \<Rightarrow> 'm" where
  "store_bytes E a bs m = fold (\<lambda>i. mem_writeb E (a + of_nat i) (bs ! i)) [0 ..< length bs] m"

text \<open>The block loop of AH=3Fh: whether it ended without an error, and the bytes it delivered.\<close>

definition READ_BLOCK :: nat where "READ_BLOCK = 16384"

function read_binary ::
  "'m emu88 \<Rightarrow> 'h os \<Rightarrow> int \<Rightarrow> u32 \<Rightarrow> nat \<Rightarrow> nat \<Rightarrow> ('m, 'h, 'z) dos_scheme \<Rightarrow> bool \<times> nat \<times> ('m, 'h, 'z) dos_scheme" where
  "read_binary E OS f dst cnt out s = (if out < cnt then
     case sys (os_read OS f (min (cnt - out) READ_BLOCK)) s of
       (None, s) \<Rightarrow> (False, out, s)
     | (Some bs, s) \<Rightarrow> if bs = [] then (True, out, s)
         else read_binary E OS f dst cnt (out + length bs) (wr (store_bytes E (dst + of_nat out) bs) s)
     else (True, out, s))"
  by pat_completeness auto
termination
  by (relation "measure (\<lambda>(E, OS, f, dst, cnt, out, s). cnt - out)") (auto simp: diff_less_mono2)

declare read_binary.simps [simp del]

text \<open>The text loop, which only standard input uses: LF becomes CR LF, and a LF that does not fit waits.\<close>

function read_text ::
  "'m emu88 \<Rightarrow> 'h os \<Rightarrow> u32 \<Rightarrow> nat \<Rightarrow> nat \<Rightarrow> ('m, 'h, 'z) dos_scheme \<Rightarrow> bool \<times> nat \<times> ('m, 'h, 'z) dos_scheme" where
  "read_text E OS dst cnt out s = (if out < cnt then
     case stdin_pending s of
       Some c \<Rightarrow> read_text E OS dst cnt (out + 1) ((wr (mem_writeb E (dst + of_nat out) c) s)\<lparr>stdin_pending := None\<rparr>)
     | None \<Rightarrow> (case sys (os_read OS 0 1) s of
         (None, s) \<Rightarrow> (False, out, s)
       | (Some [], s) \<Rightarrow> (True, out, s)
       | (Some (c # _), s) \<Rightarrow>
           if c = 0x1A then (True, out, s)
           else if c = 0x0A then
             let s = wr (mem_writeb E (dst + of_nat out) 0x0D) s in
             if out + 1 < cnt
             then read_text E OS dst cnt (out + 2) (wr (mem_writeb E (dst + of_nat (out + 1)) 0x0A) s)
             else read_text E OS dst cnt (out + 1) (s\<lparr>stdin_pending := Some 0x0A\<rparr>)
           else read_text E OS dst cnt (out + 1) (wr (mem_writeb E (dst + of_nat out) c) s))
     else (True, out, s))"
  by pat_completeness auto
termination
  by (relation "measure (\<lambda>(E, OS, dst, cnt, out, s). cnt - out)") auto

declare read_text.simps [simp del]

definition read_finish :: "'m emu88 \<Rightarrow> bool \<times> nat \<times> ('m, 'h, 'z) dos_scheme \<Rightarrow> ('m, 'h, 'z) dos_scheme" where
  "read_finish E r = (case r of (ok, out, s) \<Rightarrow>
     if ok then set_cf E False (set_io_result out s)
     else set_ax (of_nat out) (set_cf E True (return_error E 5 s)))"

definition int21_3F :: "'m emu88 \<Rightarrow> 'h os \<Rightarrow> ('m, 'h, 'z) dos_scheme \<Rightarrow> ('m, 'h, 'z) dos_scheme" where
  "int21_3F E OS s = (let cnt = io_count s; dst = io_addr s in
     if reg_bx s = 0
     then read_finish E (if s_default_mode s = Text then read_text E OS dst cnt 0 s else read_binary E OS 0 dst cnt 0 s)
     else case map_of (s_handles s) (reg_bx s) of
       None \<Rightarrow> return_error E 6 s
     | Some hh \<Rightarrow> read_finish E (read_binary E OS (fd hh) dst cnt 0 s))"

text \<open>The target of a write: descriptor and text mode.\<close>

definition write_target :: "('m, 'h, 'z) dos_scheme \<Rightarrow> (int \<times> bool) option" where
  "write_target s = (if reg_bx s = 1 then Some (1, False) else if reg_bx s = 2 then Some (2, False)
     else map_option (\<lambda>hh. (fd hh, text_mode hh)) (map_of (s_handles s) (reg_bx s)))"

definition int21_40 :: "'m emu88 \<Rightarrow> 'h os \<Rightarrow> ('m, 'h, 'z) dos_scheme \<Rightarrow> ('m, 'h, 'z) dos_scheme" where
  "int21_40 E OS s = (case write_target s of
     None \<Rightarrow> return_error E 6 s
   | Some (f, txt) \<Rightarrow> let
       cnt = io_count s;
       buf = map (\<lambda>i. mem_readb E (mem s) (io_addr s + of_nat i)) [0 ..< cnt];
       s = (if reg_bx s = 1 then fold (mirror E) buf s else s);
       out = (if txt then filter (\<lambda>c. c \<noteq> 0x0D) buf else buf);
       (ok, s) = sys (os_write OS f out) s
     in if \<not> ok then return_error E 5 s else set_cf E False (set_io_result cnt s))"

section \<open>Seek, duplicate, IOCTL, file times\<close>

definition std_or_handle :: "u16 \<Rightarrow> ('m, 'h, 'z) dos_scheme \<Rightarrow> int option" where
  "std_or_handle h s = (if h \<le> 4 then Some (uint h) else map_option fd (map_of (s_handles s) h))"

definition int21_42 :: "'m emu88 \<Rightarrow> 'h os \<Rightarrow> ('m, 'h, 'z) dos_scheme \<Rightarrow> ('m, 'h, 'z) dos_scheme" where
  "int21_42 E OS s = (case std_or_handle (reg_bx s) s of
     None \<Rightarrow> return_error E 6 s
   | Some f \<Rightarrow> let
       wh = (if reg_al s = 1 then SEEK_CUR else if reg_al s = 2 then SEEK_END else SEEK_SET);
       off = sint (mk32 (reg_dx s) (reg_cx s));
       (pos, s) = sys (os_lseek OS f off wh) s
     in if pos < 0 \<and> \<not> reg_bx s \<le> 4 then return_error E 0x19 s
     else let
       pos = (if pos < 0 then 0 else pos);
       s = set_dx (of_int (pos div 2 ^ 16)) (set_ax (of_int pos) s);
       s = (if reg_bx s \<le> 4 then s else s\<lparr>s_handles := map_set (reg_bx s)
         ((the (map_of (s_handles s) (reg_bx s)))\<lparr>read_pending := None\<rparr>) (s_handles s)\<rparr>)
     in set_cf E False s)"

definition int21_45 :: "'m emu88 \<Rightarrow> 'h os \<Rightarrow> ('m, 'h, 'z) dos_scheme \<Rightarrow> ('m, 'h, 'z) dos_scheme" where
  "int21_45 E OS s = (case std_or_handle (reg_bx s) s of
     None \<Rightarrow> return_error E 6 s
   | Some f \<Rightarrow> let txt = (if reg_bx s \<le> 4 then False else text_mode (the (map_of (s_handles s) (reg_bx s)))) in
       case sys (os_dup OS f) s of
         (None, s) \<Rightarrow> return_error E 4 s
       | (Some f', s) \<Rightarrow> bind_handle E OS f' txt s)"

definition int21_46 :: "'m emu88 \<Rightarrow> 'h os \<Rightarrow> ('m, 'h, 'z) dos_scheme \<Rightarrow> ('m, 'h, 'z) dos_scheme" where
  "int21_46 E OS s = (case std_or_handle (reg_bx s) s of
     None \<Rightarrow> return_error E 6 s
   | Some f \<Rightarrow> let txt = (if reg_bx s \<le> 4 then False else text_mode (the (map_of (s_handles s) (reg_bx s)))) in
       if reg_cx s \<le> 4 then
         (case sys (os_dup2 OS f (uint (reg_cx s))) s of (ok, s) \<Rightarrow> if ok then set_cf E False s else return_error E 4 s)
       else let
         s = (case map_of (s_handles s) (reg_cx s) of
             None \<Rightarrow> s
           | Some hh \<Rightarrow> (sysu (os_close OS (fd hh)) s)\<lparr>s_handles := map_erase (reg_cx s) (s_handles s)\<rparr>)
       in case sys (os_dup OS f) s of
           (None, s) \<Rightarrow> return_error E 4 s
         | (Some f', s) \<Rightarrow> set_cf E False
             (s\<lparr>s_handles := map_set (reg_cx s) \<lparr>fd = f', text_mode = txt, read_pending = None\<rparr> (s_handles s)\<rparr>))"

definition int21_44 :: "'m emu88 \<Rightarrow> 'h os \<Rightarrow> ('m, 'h, 'z) dos_scheme \<Rightarrow> ('m, 'h, 'z) dos_scheme" where
  "int21_44 E OS s = (if reg_al s \<noteq> 0 then return_error E 1 s
     else if reg_bx s \<in> {0, 1, 2} then set_cf E False
       (set_dx (if os_isatty OS (uint (reg_bx s)) (host_st s) then 0xC0 OR (reg_bx s AND 7) else 0) s)
     else case map_of (s_handles s) (reg_bx s) of
       None \<Rightarrow> return_error E 6 s
     | Some hh \<Rightarrow> set_cf E False (set_dx 0 s))"

definition int21_57 :: "'m emu88 \<Rightarrow> 'h os \<Rightarrow> ('m, 'h, 'z) dos_scheme \<Rightarrow> ('m, 'h, 'z) dos_scheme" where
  "int21_57 E OS s = (if reg_al s = 0 then
       case std_or_handle (reg_bx s) s of
         None \<Rightarrow> return_error E 6 s
       | Some f \<Rightarrow> (case os_fstat OS f (host_st s) of
           None \<Rightarrow> return_error E 5 s
         | Some st \<Rightarrow> let
             tm = host_localtime (os_view OS (host_st s)) (st_mtime st);
             yr = tm_year tm + 1900 - 1980;
             s = set_cx (of_nat (tm_hour tm * 2 ^ 11) OR of_nat (tm_min tm * 2 ^ 5) OR of_nat (tm_sec tm div 2)) s;
             s = set_dx (of_int (max 0 (min yr 127) * 2 ^ 9) OR of_nat ((tm_mon tm + 1) * 2 ^ 5) OR of_nat (tm_mday tm)) s
           in set_cf E False s)
     else if reg_al s = 1 then set_cf E False s
     else return_error E 1 s)"

section \<open>Find first and find next\<close>

definition zero_stat :: host_stat where
  "zero_stat = \<lparr>st_mode = 0, st_size = 0, st_mtime = 0\<rparr>"

text \<open>The bytes \<open>dta_write_entry\<close> stores from offset 15h on, and the name field.\<close>

definition dta_tail :: "'h os \<Rightarrow> 'h \<Rightarrow> host_stat \<Rightarrow> u8 list" where
  "dta_tail OS h st = (let
     (dosdate, dostime) = dos_time_from_unix (os_view OS h) (st_mtime st);
     sz = (ucast (st_size st) :: u32)
   in [if S_ISDIR st then 0x10 else 0x20, lo8 dostime, hi8 dostime, lo8 dosdate, hi8 dosdate,
       lo8 (lo16 sz), hi8 (lo16 sz), lo8 (hi16 sz), hi8 (hi16 sz)])"

definition dta_name :: "string \<Rightarrow> u8 list" where
  "dta_name name = (let n = map byte_of (take 12 name) in n @ replicate (13 - length n) 0)"

definition dta_header :: "u32 \<Rightarrow> u8 list" where
  "dta_header token = (if token = 0 then []
     else [0x44, 0x53, 0x46, 0x4E, lo8 (lo16 token), hi8 (lo16 token), lo8 (hi16 token), hi8 (hi16 token)])"

definition dta_write_entry ::
  "'m emu88 \<Rightarrow> 'h os \<Rightarrow> string \<Rightarrow> string \<Rightarrow> u32 \<Rightarrow> ('m, 'h, 'z) dos_scheme \<Rightarrow> ('m, 'h, 'z) dos_scheme" where
  "dta_write_entry E OS host_full name token s = (let
     st = (case host_stat_of (os_view OS (host_st s)) host_full of None \<Rightarrow> zero_stat | Some st \<Rightarrow> st);
     a = s_dta_linear s;
     m = store_bytes E a (replicate 0x15 0) (mem s);
     m = store_bytes E a (dta_header token) m;
     m = store_bytes E (a + 0x15) (dta_tail OS (host_st s) st) m
   in s\<lparr>mem := store_bytes E (a + 0x1E) (dta_name name) m\<rparr>)"

definition close_find_state :: "find_state \<Rightarrow> find_state" where
  "close_find_state st = st\<lparr>fs_entries := [], fs_index := 0\<rparr>"

definition scan_next ::
  "'m emu88 \<Rightarrow> 'h os \<Rightarrow> find_state \<Rightarrow> ('m, 'h, 'z) dos_scheme \<Rightarrow> bool \<times> find_state \<times> ('m, 'h, 'z) dos_scheme" where
  "scan_next E OS st s = (if fs_index st \<ge> length (fs_entries st) then (False, close_find_state st, s)
     else let e = fs_entries st ! fs_index st in
       (True, st\<lparr>fs_index := fs_index st + 1\<rparr>,
        dta_write_entry E OS (fs_host_dir st @ ''/'' @ fe_host_name e) (mangled_8_3 e) (fs_token st) s))"

definition int21_1A :: "('m, 'h, 'z) dos_scheme \<Rightarrow> ('m, 'h, 'z) dos_scheme" where
  "int21_1A s = s\<lparr>s_dta_linear := dos_arg_addr DS (ucast (reg_dx s)) (reg_edx s) s\<rparr>"

definition int21_4E :: "'m emu88 \<Rightarrow> 'h os \<Rightarrow> ('m, 'h, 'z) dos_scheme \<Rightarrow> ('m, 'h, 'z) dos_scheme" where
  "int21_4E E OS s = (let
     (dir_part, pat_part) = split_dir_pattern (ds_dx_path E s);
     host_dir = host_of OS s dir_part;
     tok = s_next_find_token s;
     s = s\<lparr>s_next_find_token := tok + 1\<rparr>
   in case build_find_state (os_view OS (host_st s)) host_dir (upper pat_part) tok of
     None \<Rightarrow> return_error E 3 s
   | Some st \<Rightarrow> (case scan_next E OS st s of (ok, st, s) \<Rightarrow>
       if \<not> ok then return_error E 0x12 s
       else set_cf E False (s\<lparr>s_finds := map_set tok st (s_finds s)\<rparr>)))"

text \<open>The key of the search in the DTA: zero unless the DTA carries the mark.\<close>

definition dta_token :: "'m emu88 \<Rightarrow> ('m, 'h, 'z) dos_scheme \<Rightarrow> u32" where
  "dta_token E s = (let rd = (\<lambda>i. mem_readb E (mem s) (s_dta_linear s + i)) in
     if rd 0 = 0x44 \<and> rd 1 = 0x53 \<and> rd 2 = 0x46 \<and> rd 3 = 0x4E
     then mk32 (mk16 (rd 4) (rd 5)) (mk16 (rd 6) (rd 7)) else 0)"

definition int21_4F :: "'m emu88 \<Rightarrow> 'h os \<Rightarrow> ('m, 'h, 'z) dos_scheme \<Rightarrow> ('m, 'h, 'z) dos_scheme" where
  "int21_4F E OS s = (let tok = dta_token E s in
     case (if tok = 0 then None else map_of (s_finds s) tok) of
       None \<Rightarrow> return_error E 0x12 s
     | Some st \<Rightarrow> (case scan_next E OS st s of (ok, st, s) \<Rightarrow>
         if \<not> ok then return_error E 0x12 (s\<lparr>s_finds := map_erase tok (s_finds s)\<rparr>)
         else set_cf E False (s\<lparr>s_finds := map_set tok st (s_finds s)\<rparr>)))"

section \<open>Drives and directories\<close>

definition int21_0E :: "('m, 'h, 'z) dos_scheme \<Rightarrow> ('m, 'h, 'z) dos_scheme" where
  "int21_0E s = (let
     drive = char_of (65 + unat (reg_dl s));
     s = (if map_of (s_drives s) drive \<noteq> None then s\<lparr>s_current_drive := drive\<rparr> else s)
   in set_al (of_nat (length (s_drives s))) s)"

definition int21_19 :: "('m, 'h, 'z) dos_scheme \<Rightarrow> ('m, 'h, 'z) dos_scheme" where
  "int21_19 s = set_al (byte_of (s_current_drive s) - 0x41) s"

definition int21_36 :: "('m, 'h, 'z) dos_scheme \<Rightarrow> ('m, 'h, 'z) dos_scheme" where
  "int21_36 s = (let
     drive = (if reg_dl s = 0 then s_current_drive s else char_of (65 + unat (reg_dl s) - 1))
   in if map_of (s_drives s) drive = None then set_ax 0xFFFF s
      else set_dx 32768 (set_cx 512 (set_bx 32768 (set_ax 32 s))))"

definition int21_39 :: "'m emu88 \<Rightarrow> 'h os \<Rightarrow> ('m, 'h, 'z) dos_scheme \<Rightarrow> ('m, 'h, 'z) dos_scheme" where
  "int21_39 E OS s = (case sys (os_mkdir OS (host_of OS s (ds_dx_path E s))) s of
     (ok, s) \<Rightarrow> if ok then set_cf E False s else return_error E 3 s)"

definition int21_3A :: "'m emu88 \<Rightarrow> 'h os \<Rightarrow> ('m, 'h, 'z) dos_scheme \<Rightarrow> ('m, 'h, 'z) dos_scheme" where
  "int21_3A E OS s = (case sys (os_rmdir OS (host_of OS s (ds_dx_path E s))) s of
     (ok, s) \<Rightarrow> if ok then set_cf E False s else return_error E 0x10 s)"

definition int21_41 :: "'m emu88 \<Rightarrow> 'h os \<Rightarrow> ('m, 'h, 'z) dos_scheme \<Rightarrow> ('m, 'h, 'z) dos_scheme" where
  "int21_41 E OS s = (case sys (os_unlink OS (host_of OS s (ds_dx_path E s))) s of
     (ok, s) \<Rightarrow> if ok then set_cf E False s else return_error E 2 s)"

definition int21_56 :: "'m emu88 \<Rightarrow> 'h os \<Rightarrow> ('m, 'h, 'z) dos_scheme \<Rightarrow> ('m, 'h, 'z) dos_scheme" where
  "int21_56 E OS s = (let
     old_h = host_of OS s (ds_dx_path E s);
     new_h = host_of OS s (read_dos_path E ES (ucast (reg_di s)) (reg_edi s) s)
   in case sys (os_rename OS old_h new_h) s of
       (None, s) \<Rightarrow> set_cf E False s
     | (Some enoent, s) \<Rightarrow> return_error E (if enoent then 2 else 5) s)"

definition backslashes :: "string \<Rightarrow> string" where
  "backslashes p = map (\<lambda>c. if c = CHR ''/'' then CHR 0x5C else c) p"

definition strip_drive :: "string \<Rightarrow> string" where
  "strip_drive p = (if length p \<ge> 2 \<and> p ! 1 = CHR '':'' then drop 2 p else p)"

definition int21_3B :: "'m emu88 \<Rightarrow> 'h os \<Rightarrow> ('m, 'h, 'z) dos_scheme \<Rightarrow> ('m, 'h, 'z) dos_scheme" where
  "int21_3B E OS s = (let dos_path = ds_dx_path E s in
     case host_stat_of (os_view OS (host_st s)) (host_of OS s dos_path) of
       None \<Rightarrow> return_error E 3 s
     | Some st \<Rightarrow> if \<not> S_ISDIR st then return_error E 3 s
       else let
         rel = backslashes (strip_drive dos_path);
         rel = (if rel \<noteq> [] \<and> hd rel = CHR 0x5C then tl rel else rel)
       in set_cf E False (s\<lparr>s_drive_cwd := map_set (s_current_drive s) rel (s_drive_cwd s)\<rparr>))"

text \<open>\<open>s_drive_cwd[drive]\<close>, which inserts the empty string when the key is missing.\<close>

definition cwd_ref :: "char \<Rightarrow> ('m, 'h, 'z) dos_scheme \<Rightarrow> string \<times> ('m, 'h, 'z) dos_scheme" where
  "cwd_ref drive s = (case map_of (s_drive_cwd s) drive of
     Some cwd \<Rightarrow> (cwd, s)
   | None \<Rightarrow> ([], s\<lparr>s_drive_cwd := map_set drive [] (s_drive_cwd s)\<rparr>))"

definition int21_47 :: "'m emu88 \<Rightarrow> ('m, 'h, 'z) dos_scheme \<Rightarrow> ('m, 'h, 'z) dos_scheme" where
  "int21_47 E s = (let
     drive = (if reg_dl s \<noteq> 0 then char_of (65 + (unat (reg_dl s) - 1)) else s_current_drive s);
     (cwd, s) = cwd_ref drive s;
     dst = dos_arg_addr DS (ucast (reg_si s)) (reg_esi s) s
   in set_cf E False (wr (store_bytes E dst (map byte_of (take 63 cwd) @ [0])) s))"

definition int21_43 :: "'m emu88 \<Rightarrow> 'h os \<Rightarrow> ('m, 'h, 'z) dos_scheme \<Rightarrow> ('m, 'h, 'z) dos_scheme" where
  "int21_43 E OS s = (let
     host_path = host_of OS s (ds_dx_path E s);
     st = host_stat_of (os_view OS (host_st s)) host_path
   in if reg_al s = 0 then (case st of
       None \<Rightarrow> return_error E 2 s
     | Some st \<Rightarrow> set_cf E False (set_cx ((if S_ISDIR st then 0x10 else 0) OR (if bit (st_mode st) 7 then 0 else 1)) s))
   else if reg_al s = 1 then (case st of
       None \<Rightarrow> set_cf E False s
     | Some st \<Rightarrow> set_cf E False (sysu (os_chmod OS host_path
         (if bit (reg_cx s) 0 then st_mode st AND NOT 0x92 else st_mode st OR 0x80)) s))
   else return_error E 1 s)"

text \<open>AH=60h and AX=7160h/71A0h: the canonical form of a path.\<close>

definition truename :: "string \<Rightarrow> ('m, 'h, 'z) dos_scheme \<Rightarrow> string \<times> ('m, 'h, 'z) dos_scheme" where
  "truename src s = (let
     (drive, path) = split_drive (s_current_drive s) src;
     (path, s) = (if path = [] \<or> \<not> is_sep (hd path)
       then (case cwd_ref drive s of (cwd, s) \<Rightarrow>
         (if cwd \<noteq> [] \<and> \<not> is_sep (hd cwd) then CHR 0x5C # cwd @ CHR 0x5C # path
          else (if cwd = [] then [CHR 0x5C] else cwd @ [CHR 0x5C]) @ path, s))
       else (path, s))
   in (drive # CHR '':'' # map toupper (backslashes path), s))"

definition store_truename :: "'m emu88 \<Rightarrow> nat \<Rightarrow> ('m, 'h, 'z) dos_scheme \<Rightarrow> ('m, 'h, 'z) dos_scheme" where
  "store_truename E n s = (let
     (canon, s) = truename (ds_si_path E s) s;
     dst = dos_arg_addr ES (ucast (reg_di s)) (reg_edi s) s
   in set_cf E False (set_ax 0 (wr (store_bytes E dst (map byte_of (take n canon) @ [0])) s)))"

definition int21_60 :: "'m emu88 \<Rightarrow> ('m, 'h, 'z) dos_scheme \<Rightarrow> ('m, 'h, 'z) dos_scheme" where
  "int21_60 E s = store_truename E 127 s"

definition int21_71 :: "'m emu88 \<Rightarrow> ('m, 'h, 'z) dos_scheme \<Rightarrow> ('m, 'h, 'z) dos_scheme" where
  "int21_71 E s = (if reg_al s = 0x60 \<or> reg_al s = 0xA0 then store_truename E 259 s
     else if reg_al s \<in> {0x4E, 0x4F, 0xA1} then return_error E 2 s
     else set_cf E True (set_ax 0x7100 s))"

section \<open>The handle table is a resource pool\<close>

definition handle_keys :: "u16 set" where
  "handle_keys = of_nat ` {FIRST_FILE_HANDLE ..< MAX_HANDLES}"

definition handles_ok :: "(u16 \<times> host_handle) list \<Rightarrow> bool" where
  "handles_ok hs \<longleftrightarrow> map_ok hs \<and> fst ` set hs \<subseteq> handle_keys"

definition acquire_handle :: "host_handle \<Rightarrow> (u16 \<times> host_handle) list \<Rightarrow> (u16 \<times> (u16 \<times> host_handle) list) option" where
  "acquire_handle hh hs = map_option (\<lambda>h. (h, map_set h hh hs)) (free_handle hs)"

lemma allocate_handle_acquire:
  "allocate_handle f txt s = (case acquire_handle \<lparr>fd = f, text_mode = txt, read_pending = None\<rparr> (s_handles s) of
     None \<Rightarrow> (None, s) | Some (h, hs) \<Rightarrow> (Some h, s\<lparr>s_handles := hs\<rparr>))"
  by (simp add: allocate_handle_def acquire_handle_def split: option.split)

lemma map_of_None_fst: "map_of hs h = None \<longleftrightarrow> h \<notin> fst ` set hs"
  by (rule map_of_eq_None_iff)

lemma free_handle_Some: "free_handle hs = Some h \<Longrightarrow> h \<in> handle_keys \<and> h \<notin> fst ` set hs"
proof -
  assume "free_handle hs = Some h"
  then obtain n where n: "find (\<lambda>h. map_of hs (of_nat h) = None) [FIRST_FILE_HANDLE ..< MAX_HANDLES] = Some n" "h = of_nat n"
    by (auto simp: free_handle_def)
  from find_SomeD [OF n(1)] show ?thesis by (auto simp: handle_keys_def n(2) map_of_None_fst)
qed

lemma free_handle_None: "free_handle hs = None \<Longrightarrow> handle_keys \<subseteq> fst ` set hs"
  by (auto simp: free_handle_def handle_keys_def find_None_iff map_of_None_fst)

lemma fst_map_set: "fst ` set (map_set k v xs) = insert k (fst ` set xs)"
  by (auto simp: map_set_def set_insort_key)

lemma fst_map_erase: "fst ` set (map_erase k xs) = fst ` set xs - {k}"
  by (auto simp: map_erase_def)

interpretation handle_pool: resource_pool handles_ok "\<lambda>hs. fst ` set hs" handle_keys "acquire_handle hh" map_erase for hh
proof
  fix s s' k
  show "finite handle_keys" by (simp add: handle_keys_def)
  show "handles_ok s \<Longrightarrow> fst ` set s \<subseteq> handle_keys" by (simp add: handles_ok_def)
  show "\<lbrakk>handles_ok s; acquire_handle hh s = Some (k, s')\<rbrakk> \<Longrightarrow> handles_ok s'"
    using free_handle_Some [of s k] by (clarsimp simp: handles_ok_def acquire_handle_def fst_map_set)
  show "\<lbrakk>handles_ok s; acquire_handle hh s = Some (k, s')\<rbrakk> \<Longrightarrow>
      k \<in> handle_keys \<and> k \<notin> fst ` set s \<and> fst ` set s' = insert k (fst ` set s)"
    using free_handle_Some [of s k] by (clarsimp simp: acquire_handle_def fst_map_set)
  show "\<lbrakk>handles_ok s; acquire_handle hh s = None\<rbrakk> \<Longrightarrow> fst ` set s = handle_keys"
    using free_handle_None [of s] by (auto simp: handles_ok_def acquire_handle_def)
  show "\<lbrakk>handles_ok s; k \<in> fst ` set s\<rbrakk> \<Longrightarrow> handles_ok (map_erase k s)"
    by (auto simp: handles_ok_def fst_map_erase)
  show "\<lbrakk>handles_ok s; k \<in> fst ` set s\<rbrakk> \<Longrightarrow> fst ` set (map_erase k s) = fst ` set s - {k}"
    by (rule fst_map_erase)
qed

section \<open>Host descriptors are neither lost nor shared\<close>

text \<open>
  What POSIX says about descriptors: \<open>open\<close> and \<open>dup\<close> return one that was not in use, \<open>dup2\<close> leaves its target open, \<open>close\<close> gives it
  back, and no other call of the code changes which are open. \<open>fds h\<close> is the set of open descriptors.
\<close>

definition new_fd :: "('h \<Rightarrow> int set) \<Rightarrow> 'h \<Rightarrow> int option \<times> 'h \<Rightarrow> bool" where
  "new_fd fds h r = (case fst r of None \<Rightarrow> fds (snd r) = fds h
     | Some f \<Rightarrow> f \<notin> fds h \<and> fds (snd r) = insert f (fds h))"

definition fd_laws :: "'h os \<Rightarrow> ('h \<Rightarrow> int set) \<Rightarrow> bool" where
  "fd_laws OS fds \<longleftrightarrow>
     (\<forall>p a c t h. new_fd fds h (os_open OS p a c t h))
   \<and> (\<forall>g h. new_fd fds h (os_dup OS g h))
   \<and> (\<forall>f g h. fds (snd (os_dup2 OS f g h)) = (if fst (os_dup2 OS f g h) then insert g (fds h) else fds h))
   \<and> (\<forall>f h. fds (os_close OS f h) = fds h - {f})
   \<and> (\<forall>f n h. fds (snd (os_read OS f n h)) = fds h)
   \<and> (\<forall>f bs h. fds (snd (os_write OS f bs h)) = fds h)
   \<and> (\<forall>f i w h. fds (snd (os_lseek OS f i w h)) = fds h)
   \<and> (\<forall>p m h. fds (os_chmod OS p m h) = fds h)
   \<and> (\<forall>p h. fds (snd (os_mkdir OS p h)) = fds h)
   \<and> (\<forall>p h. fds (snd (os_rmdir OS p h)) = fds h)
   \<and> (\<forall>p h. fds (snd (os_unlink OS p h)) = fds h)
   \<and> (\<forall>p q h. fds (snd (os_rename OS p q h)) = fds h)
   \<and> (\<forall>c h. fds (os_fputc OS c h) = fds h)
   \<and> (\<forall>h. fds (os_fflush OS h) = fds h)"

text \<open>
  The descriptors of the handle table are pairwise different, none of them belongs to the host's own
  \<open>base\<close>, and together these are all the open descriptors.
\<close>

definition table_fds :: "(u16 \<times> host_handle) list \<Rightarrow> int list" where
  "table_fds hs = map (\<lambda>p. fd (snd p)) hs"

definition fd_ok :: "('h \<Rightarrow> int set) \<Rightarrow> int set \<Rightarrow> ('m, 'h, 'z) dos_scheme \<Rightarrow> bool" where
  "fd_ok fds base s \<longleftrightarrow> map_ok (s_handles s) \<and> distinct (table_fds (s_handles s))
     \<and> set (table_fds (s_handles s)) \<inter> base = {} \<and> fds (host_st s) = base \<union> set (table_fds (s_handles s))"

text \<open>A service that leaves the handle table and the set of open descriptors alone.\<close>

definition quiet :: "('h \<Rightarrow> int set) \<Rightarrow> ('m, 'h, 'z) dos_scheme \<Rightarrow> ('m, 'h, 'z) dos_scheme \<Rightarrow> bool" where
  "quiet fds s s' \<longleftrightarrow> s_handles s' = s_handles s \<and> fds (host_st s') = fds (host_st s)"

lemma quiet_refl [simp]: "quiet fds s s"
  by (simp add: quiet_def)

lemma quiet_trans: "\<lbrakk>quiet fds s t; quiet fds t u\<rbrakk> \<Longrightarrow> quiet fds s u"
  by (simp add: quiet_def)

lemma quiet_ok: "\<lbrakk>quiet fds s s'; fd_ok fds base s\<rbrakk> \<Longrightarrow> fd_ok fds base s'"
  by (simp add: quiet_def fd_ok_def)

lemma sys_simps [simp]: "sys f s = (fst (f (host_st s)), s\<lparr>host_st := snd (f (host_st s))\<rparr>)"
  "host_st (sysu g s) = g (host_st s)" "s_handles (sysu g s) = s_handles s"
  by (simp_all add: sys_def sysu_def case_prod_beta Let_def)

lemma regs_of_dos [simp]:
  "reg_ax (s\<lparr>host_st := h\<rparr>) = reg_ax s" "reg_bx (s\<lparr>host_st := h\<rparr>) = reg_bx s" "reg_cx (s\<lparr>host_st := h\<rparr>) = reg_cx s"
  "reg_ax (s\<lparr>s_handles := hs\<rparr>) = reg_ax s" "reg_bx (s\<lparr>s_handles := hs\<rparr>) = reg_bx s" "reg_cx (s\<lparr>s_handles := hs\<rparr>) = reg_cx s"
  "reg_ax (sysu g s) = reg_ax s" "reg_bx (sysu g s) = reg_bx s" "reg_cx (sysu g s) = reg_cx s"
  by (simp_all add: reg_defs sysu_def)

lemma read_stdin_quiet: "\<lbrakk>fd_laws OS fds; read_stdin OS s = (r, s')\<rbrakk> \<Longrightarrow> quiet fds s s'"
  by (auto simp: read_stdin_def Let_def quiet_def fd_laws_def)

lemma fold_frame: "arenas.more (fold (mirror E) cs s) = arenas.more s"
  by (induction cs arbitrary: s) (simp_all add: dos_frame)

lemma table_fds_set:
  "mset (table_fds (map_set k v hs)) = add_mset (fd v) (mset (table_fds (map_erase k hs)))"
  by (simp add: table_fds_def map_set_def map_erase_def)

lemma map_erase_id: "map_of hs k = None \<Longrightarrow> map_erase k hs = hs"
  by (auto simp: map_erase_def filter_id_conv map_of_eq_None_iff)

lemma table_fds_erase:
  assumes "map_ok hs" and "map_of hs k = Some v"
  shows "mset (table_fds hs) = add_mset (fd v) (mset (table_fds (map_erase k hs)))"
proof -
  have "distinct (map fst hs)" using assms(1) by (simp add: map_ok_def)
  then show ?thesis using assms(2)
  proof (induction hs)
    case (Cons p hs)
    show ?case
    proof (cases "fst p = k")
      case True
      then have "map_of hs k = None" using Cons.prems(1) by (auto simp: map_of_eq_None_iff)
      then show ?thesis using True Cons.prems(2) map_erase_id [of hs k]
        by (cases p) (simp add: table_fds_def map_erase_def)
    next
      case False
      then show ?thesis using Cons by (cases p) (simp add: table_fds_def map_erase_def)
    qed
  qed simp
qed

text \<open>The invariant over multisets, in which \<open>map_set\<close> and \<open>map_erase\<close> are equations.\<close>

lemma fd_ok_mset:
  "fd_ok fds base s \<longleftrightarrow> map_ok (s_handles s) \<and> (\<forall>f. count (mset (table_fds (s_handles s))) f \<le> 1)
     \<and> set_mset (mset (table_fds (s_handles s))) \<inter> base = {}
     \<and> fds (host_st s) = base \<union> set_mset (mset (table_fds (s_handles s)))"
proof -
  have "distinct xs \<longleftrightarrow> (\<forall>f. count (mset xs) f \<le> 1)" for xs :: "int list"
    by (auto simp: distinct_count_atmost_1 count_mset_0_iff Suc_le_eq not_less_eq le_Suc_eq split: if_splits)
  then show ?thesis by (simp add: fd_ok_def)
qed

lemma fd_ok_add:
  fixes s s' :: "('m, 'h, 'z) dos_scheme"
  assumes ok: "fd_ok fds base s" and new: "f \<notin> fds (host_st s)" and key: "map_of (s_handles s) k = None"
    and s': "s_handles s' = map_set k v (s_handles s)" "fd v = f" "fds (host_st s') = insert f (fds (host_st s))"
  shows "fd_ok fds base s'"
proof -
  have "f \<notin># mset (table_fds (s_handles s))" using ok new by (simp add: fd_ok_def)
  then have "count (mset (table_fds (s_handles s))) f = 0" by (simp add: count_eq_zero_iff)
  moreover have "mset (table_fds (s_handles s')) = add_mset f (mset (table_fds (s_handles s)))"
    using key s' by (simp add: table_fds_set map_erase_id)
  ultimately show ?thesis
    using ok new s' unfolding fd_ok_mset by (auto simp del: set_mset_mset)
qed

lemma fd_ok_remove:
  fixes s s' :: "('m, 'h, 'z) dos_scheme"
  assumes ok: "fd_ok fds base s" and key: "map_of (s_handles s) k = Some v"
    and s': "s_handles s' = map_erase k (s_handles s)" "fds (host_st s') = fds (host_st s) - {fd v}"
  shows "fd_ok fds base s'"
proof -
  let ?M = "mset (table_fds (map_erase k (s_handles s)))"
  have m: "mset (table_fds (s_handles s)) = add_mset (fd v) ?M"
    using ok key by (intro table_fds_erase) (simp_all add: fd_ok_def)
  have c: "count ?M f \<le> 1 - (if f = fd v then 1 else 0)" for f
    using ok m unfolding fd_ok_mset by (metis (mono_tags, lifting) count_add_mset add_diff_cancel_right' diff_zero One_nat_def diff_le_mono Suc_eq_plus1)
  have "fd v \<notin># ?M" using c [of "fd v"] by (simp add: count_eq_zero_iff)
  moreover have "count ?M f \<le> 1" for f using c [of f] by (simp split: if_splits)
  ultimately show ?thesis using ok s' m unfolding fd_ok_mset by (auto simp del: set_mset_mset)
qed

lemma free_handle_new: "free_handle hs = Some h \<Longrightarrow> map_of hs h = None"
  using free_handle_Some by (metis map_of_None_fst)

text \<open>A descriptor fresh from the host either gets a handle or is closed again.\<close>

lemma allocate_ok:
  fixes s t t' :: "('m, 'h, 'z) dos_scheme"
  assumes "fd_laws OS fds" and "fd_ok fds base s" and "f \<notin> fds (host_st s)"
    and "s_handles t = s_handles s" and "fds (host_st t) = insert f (fds (host_st s))"
  shows "allocate_handle f txt t = (None, t') \<Longrightarrow> fd_ok fds base (sysu (os_close OS f) t')"
    and "allocate_handle f txt t = (Some h, t') \<Longrightarrow> fd_ok fds base t'"
proof -
  assume "allocate_handle f txt t = (None, t')"
  then have "quiet fds s (sysu (os_close OS f) t')"
    using assms by (auto simp: allocate_handle_def quiet_def fd_laws_def split: option.splits)
  then show "fd_ok fds base (sysu (os_close OS f) t')" by (rule quiet_ok) (rule assms(2))
next
  assume a: "allocate_handle f txt t = (Some h, t')"
  then have h: "free_handle (s_handles s) = Some h"
    and t': "t' = t\<lparr>s_handles := map_set h \<lparr>fd = f, text_mode = txt, read_pending = None\<rparr> (s_handles s)\<rparr>"
    using assms(4) by (auto simp: allocate_handle_def split: option.splits)
  show "fd_ok fds base t'"
    by (rule fd_ok_add [OF assms(2,3) free_handle_new [OF h], where v = "\<lparr>fd = f, text_mode = txt, read_pending = None\<rparr>"])
      (simp_all add: t' assms(5))
qed

lemma fd_ok_return [simp]:
  "fd_ok fds base (return_error E e s) = fd_ok fds base s" "fd_ok fds base (set_cf E v s) = fd_ok fds base s"
  "fd_ok fds base (set_ax w s) = fd_ok fds base s" "fd_ok fds base (set_cx w s) = fd_ok fds base s"
  "fd_ok fds base (set_dx w s) = fd_ok fds base s"
  by (simp_all add: fd_ok_def)

lemma bind_ok:
  fixes s t :: "('m, 'h, 'z) dos_scheme"
  assumes "fd_laws OS fds" and "fd_ok fds base s" and "f \<notin> fds (host_st s)"
    and "s_handles t = s_handles s" and "fds (host_st t) = insert f (fds (host_st s))"
  shows "fd_ok fds base (bind_handle E OS f txt t)"
  using allocate_ok [OF assms] by (auto simp: bind_handle_def split: prod.split option.split)

lemma fd_ok_host: "fd_ok fds base s \<Longrightarrow> fds h = fds (host_st s) \<Longrightarrow> fd_ok fds base (s\<lparr>host_st := h\<rparr>)"
  by (rule quiet_ok [of fds s]) (simp_all add: quiet_def)

text \<open>The state after \<open>open\<close> or \<open>dup\<close>, by its result.\<close>

lemma new_fd_cases:
  assumes "fd_laws OS fds" and "fd_ok fds base s" and "new_fd fds (host_st s) r"
  shows "fst r = None \<Longrightarrow> fd_ok fds base (s\<lparr>host_st := snd r\<rparr>)"
    and "fst r = Some f \<Longrightarrow> fd_ok fds base (bind_handle E OS f txt (s\<lparr>host_st := snd r\<rparr>))"
    and "fst r = Some f \<Longrightarrow> fd_ok fds base (sysu (os_close OS f) (s\<lparr>host_st := snd r\<rparr>))"
    and "\<lbrakk>fst r = Some f; allocate_handle f txt (s\<lparr>host_st := snd r\<rparr>) = (None, t')\<rbrakk> \<Longrightarrow> fd_ok fds base (sysu (os_close OS f) t')"
    and "\<lbrakk>fst r = Some f; allocate_handle f txt (s\<lparr>host_st := snd r\<rparr>) = (Some h, t')\<rbrakk> \<Longrightarrow> fd_ok fds base t'"
    and "\<lbrakk>fst r = Some f; map_of (s_handles s) k = None; fd v = f\<rbrakk> \<Longrightarrow>
      fd_ok fds base (s\<lparr>host_st := snd r, s_handles := map_set k v (s_handles s)\<rparr>)"
proof -
  show "fst r = None \<Longrightarrow> fd_ok fds base (s\<lparr>host_st := snd r\<rparr>)"
    using assms by (intro fd_ok_host) (simp_all add: new_fd_def)
  assume "fst r = Some f"
  then have f: "f \<notin> fds (host_st s)" "fds (snd r) = insert f (fds (host_st s))" using assms(3) by (simp_all add: new_fd_def)
  note ok = allocate_ok [OF assms(1,2) f(1), of "s\<lparr>host_st := snd r\<rparr>", simplified, OF f(2)]
  show "fd_ok fds base (bind_handle E OS f txt (s\<lparr>host_st := snd r\<rparr>))"
    by (rule bind_ok [OF assms(1,2) f(1)]) (simp_all add: f(2))
  show "fd_ok fds base (sysu (os_close OS f) (s\<lparr>host_st := snd r\<rparr>))"
    using assms(1,2) f by (intro quiet_ok [OF _ assms(2)]) (simp add: quiet_def fd_laws_def)
  show "allocate_handle f txt (s\<lparr>host_st := snd r\<rparr>) = (None, t') \<Longrightarrow> fd_ok fds base (sysu (os_close OS f) t')"
    "allocate_handle f txt (s\<lparr>host_st := snd r\<rparr>) = (Some h, t') \<Longrightarrow> fd_ok fds base t'"
    by (rule ok, assumption)+
  show "\<lbrakk>map_of (s_handles s) k = None; fd v = f\<rbrakk> \<Longrightarrow>
      fd_ok fds base (s\<lparr>host_st := snd r, s_handles := map_set k v (s_handles s)\<rparr>)"
    by (rule fd_ok_add [OF assms(2) f(1)]) (simp_all add: f(2))
qed

lemma new_fd_os: "fd_laws OS fds \<Longrightarrow> new_fd fds h (os_open OS p a c t h)" "fd_laws OS fds \<Longrightarrow> new_fd fds h (os_dup OS g h)"
  by (simp_all add: fd_laws_def)

lemmas open_cases = new_fd_cases [OF _ _ new_fd_os(1)]
lemmas dup_cases = new_fd_cases [OF _ _ new_fd_os(2)]

lemma int21_3C_ok: "\<lbrakk>fd_laws OS fds; fd_ok fds base s\<rbrakk> \<Longrightarrow> fd_ok fds base (int21_3C E OS s)"
  by (auto simp: int21_3C_def Let_def split: prod.split option.split intro: open_cases)

lemma int21_3D_ok: "\<lbrakk>fd_laws OS fds; fd_ok fds base s\<rbrakk> \<Longrightarrow> fd_ok fds base (int21_3D E OS s)"
  by (auto simp: int21_3D_def Let_def split: prod.split option.split intro: open_cases)

lemma int21_6C_ok: "\<lbrakk>fd_laws OS fds; fd_ok fds base s\<rbrakk> \<Longrightarrow> fd_ok fds base (int21_6C E OS s)"
  by (auto simp: int21_6C_def Let_def split: prod.split option.split intro: open_cases)

lemma int21_45_ok: "\<lbrakk>fd_laws OS fds; fd_ok fds base s\<rbrakk> \<Longrightarrow> fd_ok fds base (int21_45 E OS s)"
  by (auto simp: int21_45_def Let_def split: prod.split option.split intro: dup_cases)

lemma int21_3E_ok: "\<lbrakk>fd_laws OS fds; fd_ok fds base s\<rbrakk> \<Longrightarrow> fd_ok fds base (int21_3E E OS s)"
  by (auto simp: int21_3E_def Let_def split: option.split intro: fd_ok_remove simp: fd_laws_def)

text \<open>Seeking rewrites the entry with the same descriptor.\<close>

lemma fd_ok_same_fd:
  fixes s s' :: "('m, 'h, 'z) dos_scheme"
  assumes ok: "fd_ok fds base s" and key: "map_of (s_handles s) k = Some v" and v': "fd v' = fd v"
    and s': "s_handles s' = map_set k v' (s_handles s)" "fds (host_st s') = fds (host_st s)"
  shows "fd_ok fds base s'"
proof -
  have "mset (table_fds (s_handles s)) = mset (table_fds (s_handles s'))"
    using table_fds_erase [OF _ key] ok v' by (simp add: fd_ok_def s'(1) table_fds_set)
  then show ?thesis using ok s' unfolding fd_ok_mset by simp
qed

lemma int21_42_ok:
  assumes "fd_laws OS fds" and "fd_ok fds base s"
  shows "fd_ok fds base (int21_42 E OS s)"
proof (cases "std_or_handle (reg_bx s) s")
  case (Some f)
  define r where "r = (\<lambda>w. os_lseek OS f (sint (mk32 (reg_dx s) (reg_cx s))) w (host_st s))"
  have h: "fd_ok fds base (s\<lparr>host_st := snd (r w)\<rparr>)" for w
    using assms by (intro fd_ok_host) (simp_all add: fd_laws_def r_def)
  have e: "\<exists>hh. map_of (s_handles s) (reg_bx s) = Some hh" if "\<not> reg_bx s \<le> 4"
    using Some that by (auto simp: std_or_handle_def)
  have "fd_ok fds base (set_dx b (set_ax a (s\<lparr>host_st := snd (r w)\<rparr>))
      \<lparr>s_handles := map_set (reg_bx s) ((the (map_of (s_handles s) (reg_bx s)))\<lparr>read_pending := None\<rparr>) (s_handles s)\<rparr>)"
    if big: "\<not> reg_bx s \<le> 4" for a b w
  proof -
    obtain hh where hh: "map_of (s_handles s) (reg_bx s) = Some hh" using e [OF big] by blast
    show ?thesis
      by (rule fd_ok_same_fd [OF h [of w], where k = "reg_bx s" and v = hh and v' = "hh\<lparr>read_pending := None\<rparr>"])
        (simp_all add: hh)
  qed
  then show ?thesis using Some h by (auto simp: int21_42_def Let_def r_def)
qed (use assms in \<open>simp add: int21_42_def\<close>)

text \<open>Forcing a standard handle opens its number on the host, if it was not open yet: from then on it counts as the host's own.\<close>

lemma fd_ok_host_own:
  "\<lbrakk>fd_ok fds base s; s_handles t = s_handles s; fds (host_st t) = insert g (fds (host_st s))\<rbrakk> \<Longrightarrow> fd_ok fds base t \<or> fd_ok fds (insert g base) t"
  by (cases "g \<in> fds (host_st s)") (auto simp: fd_ok_def)

lemma int21_46_std:
  assumes laws: "fd_laws OS fds" and ok: "fd_ok fds base s" and "reg_cx s \<le> 4"
  shows "fd_ok fds base (int21_46 E OS s) \<or> fd_ok fds (insert (uint (reg_cx s)) base) (int21_46 E OS s)"
proof (cases "std_or_handle (reg_bx s) s")
  case (Some f)
  let ?r = "os_dup2 OS f (uint (reg_cx s)) (host_st s)"
  have fds: "fds (snd ?r) = (if fst ?r then insert (uint (reg_cx s)) (fds (host_st s)) else fds (host_st s))"
    using laws by (simp add: fd_laws_def)
  show ?thesis
    using Some assms(3) fds fd_ok_host [OF ok] fd_ok_host_own [OF ok, of "s\<lparr>host_st := snd ?r\<rparr>"]
    by (cases "fst ?r") (simp_all add: int21_46_def Let_def)
qed (use ok in \<open>simp add: int21_46_def\<close>)

lemma int21_46_ok:
  assumes laws: "fd_laws OS fds" and ok: "fd_ok fds base s" and "\<not> reg_cx s \<le> 4"
  shows "fd_ok fds base (int21_46 E OS s)"
proof -
  define t where "t = (case map_of (s_handles s) (reg_cx s) of
       None \<Rightarrow> s
     | Some hh \<Rightarrow> (sysu (os_close OS (fd hh)) s)\<lparr>s_handles := map_erase (reg_cx s) (s_handles s)\<rparr>)"
  have t: "fd_ok fds base t" "map_of (s_handles t) (reg_cx s) = None" "reg_cx t = reg_cx s"
    using laws ok by (auto simp: t_def fd_laws_def split: option.split intro: fd_ok_remove)
  show ?thesis
    using assms(2,3) new_fd_cases(1,6) [OF laws t(1) new_fd_os(2) [OF laws]] t(2)
    by (auto simp: int21_46_def Let_def t_def [symmetric] t(3) split: option.split)
qed

lemma read_binary_quiet: "fd_laws OS fds \<Longrightarrow> read_binary E OS f dst n out s = (ok, out', s') \<Longrightarrow> quiet fds s s'"
proof (induction E OS f dst n out s rule: read_binary.induct)
  case (1 E OS f dst n out s)
  let ?r = "os_read OS f (min (n - out) READ_BLOCK) (host_st s)"
  have q: "quiet fds s (s\<lparr>host_st := snd ?r\<rparr>)" using 1(2) by (simp add: quiet_def fd_laws_def)
  have q': "quiet fds s (wr g (s\<lparr>host_st := snd ?r\<rparr>))" for g using 1(2) by (simp add: quiet_def fd_laws_def)
  show ?case
    using 1(3) q quiet_trans [OF q' 1(1) [OF _ _ refl _ 1(2)]]
    by (subst (asm) read_binary.simps) (auto split: if_splits option.splits)
qed

lemma read_text_quiet: "fd_laws OS fds \<Longrightarrow> read_text E OS dst n out s = (ok, out', s') \<Longrightarrow> quiet fds s s'"
proof (induction E OS dst n out s rule: read_text.induct)
  case (1 E OS dst n out s)
  let ?r = "os_read OS 0 1 (host_st s)"
  have p: "quiet fds s (wr g s\<lparr>stdin_pending := None\<rparr>)" for g by (simp add: quiet_def)
  have q: "quiet fds s (s\<lparr>host_st := snd ?r\<rparr>)" "quiet fds s (wr g (s\<lparr>host_st := snd ?r\<rparr>))"
    "quiet fds s (wr g (s\<lparr>host_st := snd ?r\<rparr>)\<lparr>stdin_pending := x\<rparr>)" "quiet fds s (wr g' (wr g (s\<lparr>host_st := snd ?r\<rparr>)))" for g g' x
    using 1(5) by (simp_all add: quiet_def fd_laws_def)
  note IH = quiet_trans [OF q(4) 1(1) [OF _ _ sys_simps(1) [symmetric] _ _ _ _ refl _ 1(5)]]
    quiet_trans [OF q(3) 1(2) [OF _ _ sys_simps(1) [symmetric] _ _ _ _ refl _ 1(5)]]
    quiet_trans [OF q(2) 1(3) [OF _ _ sys_simps(1) [symmetric] _ _ _ _ 1(5)]] quiet_trans [OF p 1(4) [OF _ _ 1(5)]]
  show ?case
    using 1(6) q(1) IH
    by (subst (asm) read_text.simps) (auto simp: Let_def split: if_splits option.splits list.splits)
qed

lemma quiet_updates [simp]:
  "quiet fds s (set_al b t) = quiet fds s t" "quiet fds s (set_ax w t) = quiet fds s t" "quiet fds s (set_cx w t) = quiet fds s t"
  "quiet fds s (set_dx w t) = quiet fds s t" "quiet fds s (set_bx w t) = quiet fds s t"
  "quiet fds s (set_cf E v t) = quiet fds s t" "quiet fds s (return_error E e t) = quiet fds s t"
  "quiet fds s (CALLBACK_SZF E v t) = quiet fds s t" "quiet fds s (wr g t) = quiet fds s t" "quiet fds s (mirror E c t) = quiet fds s t"
  by (simp_all add: quiet_def)

lemma put_stdout_quiet: "fd_laws OS fds \<Longrightarrow> quiet fds s (put_stdout E OS c t) = quiet fds s t"
  by (simp add: put_stdout_def quiet_def fd_laws_def)

text \<open>Console services.\<close>

lemma console_quiet:
  assumes "fd_laws OS fds"
  shows "quiet fds s (int21_01 E OS s)" "quiet fds s (int21_07 E OS s)" "quiet fds s (int21_0B E OS s)"
    "quiet fds s (int21_02 E OS s)" "quiet fds s (int21_06 E OS s)"
  using read_stdin_quiet [OF assms] assms
  by (auto simp: int21_01_def int21_07_def int21_0B_def int21_02_def int21_06_def put_stdout_quiet Let_def
      split: prod.split option.split)

lemma input_line_quiet: "fd_laws OS fds \<Longrightarrow> input_line E OS buf n k s = (k', s') \<Longrightarrow> quiet fds s s'"
proof (induction n arbitrary: k s)
  case (Suc n)
  obtain r t where r: "read_stdin OS s = (r, t)" by fastforce
  note q = read_stdin_quiet [OF Suc.prems(1) r]
  show ?case
  proof (cases r)
    case (Some c)
    let ?u = "mirror E (lf_to_cr c) (sysu (os_fputc OS c) (wr (mem_writeb E (buf + 2 + of_nat k) (lf_to_cr c)) t))"
    have u: "quiet fds s ?u" using q Suc.prems(1) by (simp add: quiet_def fd_laws_def)
    show ?thesis using Suc.prems u quiet_trans [OF u Suc.IH [OF Suc.prems(1)]] by (auto simp: r Some Let_def split: if_splits)
  qed (use Suc.prems q in \<open>simp add: r\<close>)
qed simp

lemma int21_0A_quiet: "fd_laws OS fds \<Longrightarrow> quiet fds s (int21_0A E OS s)"
  using input_line_quiet [of OS fds E _ _ 0 s]
  by (auto simp: int21_0A_def Let_def quiet_def fd_laws_def split: prod.split)

text \<open>The dollar string, whenever its loop ends.\<close>

lemma print_dollar_quiet:
  assumes "print_dollar E OS base off s = Some s'"
  shows "fd_laws OS fds \<longrightarrow> quiet fds s s'"
proof (rule print_dollar.raw_induct [of "\<lambda>E OS base off s s'. fd_laws OS fds \<longrightarrow> quiet fds s s'", OF _ assms])
  fix "print" E OS base off s s'
  assume IH: "\<And>E OS base off s s'. print E OS base off s = Some s' \<Longrightarrow> fd_laws OS fds \<longrightarrow> quiet fds s s'"
    and r: "(let c = mem_readb E (mem s) (base + ucast off) in
      if c = 0x24 then Some s else print E OS base (off + 1) (mirror E c (sysu (os_fputc OS c) s))) = Some s'"
  let ?c = "mem_readb E (mem s) (base + ucast off)"
  have "fd_laws OS fds \<Longrightarrow> quiet fds s (mirror E ?c (sysu (os_fputc OS ?c) s))" by (simp add: quiet_def fd_laws_def)
  then show "fd_laws OS fds \<longrightarrow> quiet fds s s'"
    using r IH [of E OS base "off + 1" "mirror E ?c (sysu (os_fputc OS ?c) s)" s'] quiet_trans
    by (auto simp: Let_def simp del: quiet_updates split: if_splits)
qed

text \<open>File and directory services that open and close nothing.\<close>

lemma read_finish_quiet: "quiet fds s t \<Longrightarrow> quiet fds s (read_finish E (ok, out, t))"
  by (auto simp: read_finish_def set_io_result_def quiet_def)

lemma int21_3F_quiet: "fd_laws OS fds \<Longrightarrow> quiet fds s (int21_3F E OS s)"
proof -
  assume laws: "fd_laws OS fds"
  have "quiet fds s (read_finish E (read_binary E OS f dst n 0 s))" "quiet fds s (read_finish E (read_text E OS dst n 0 s))" for f dst n
    using read_binary_quiet [OF laws, of E f dst n 0 s] read_text_quiet [OF laws, of E dst n 0 s]
    by (cases "read_binary E OS f dst n 0 s"; cases "read_text E OS dst n 0 s"; simp add: read_finish_quiet)+
  then show ?thesis by (auto simp: int21_3F_def Let_def split: option.split)
qed

lemma fold_mirror_frame [simp]:
  "s_handles (fold (mirror E) cs s) = s_handles s" "host_st (fold (mirror E) cs s) = host_st s"
  using handles_cong [OF fold_frame] host_st_cong [OF fold_frame] by blast+

lemma int21_40_quiet: "fd_laws OS fds \<Longrightarrow> quiet fds s (int21_40 E OS s)"
  by (auto simp: int21_40_def Let_def set_io_result_def quiet_def fd_laws_def split: option.split)

lemma dta_write_frame [simp]: "s_handles (dta_write_entry E OS p n t s) = s_handles s" "host_st (dta_write_entry E OS p n t s) = host_st s"
  by (simp_all add: dta_write_entry_def Let_def)

lemma find_quiet: "quiet fds s (int21_4E E OS s)" "quiet fds s (int21_4F E OS s)" "quiet fds s (int21_1A s)"
  by (auto simp: int21_4E_def int21_4F_def int21_1A_def scan_next_def Let_def quiet_def split: prod.split option.split)

lemma cwd_ref_quiet: "cwd_ref d s = (c, t) \<Longrightarrow> quiet fds s t"
  by (auto simp: cwd_ref_def quiet_def split: option.splits)

lemma store_truename_quiet: "quiet fds s (store_truename E n s)"
  using cwd_ref_quiet [of _ s] by (auto simp: store_truename_def truename_def Let_def split: prod.split)

lemma directory_quiet:
  assumes "fd_laws OS fds"
  shows "quiet fds s (int21_0E s)" "quiet fds s (int21_19 s)" "quiet fds s (int21_36 s)" "quiet fds s (int21_39 E OS s)"
    "quiet fds s (int21_3A E OS s)" "quiet fds s (int21_41 E OS s)" "quiet fds s (int21_56 E OS s)" "quiet fds s (int21_3B E OS s)"
    "quiet fds s (int21_47 E s)" "quiet fds s (int21_43 E OS s)" "quiet fds s (int21_60 E s)" "quiet fds s (int21_71 E s)"
    "quiet fds s (int21_44 E OS s)" "quiet fds s (int21_57 E OS s)"
  using assms cwd_ref_quiet [of _ s] store_truename_quiet [of fds s E]
  by (auto simp: int21_0E_def int21_19_def int21_36_def int21_39_def int21_3A_def int21_41_def int21_56_def int21_3B_def
      int21_47_def int21_43_def int21_60_def int21_71_def int21_44_def int21_57_def Let_def quiet_def fd_laws_def split: prod.split option.split)

section \<open>Reading delivers the file\<close>

text \<open>
  What POSIX says about reading a descriptor: a read of at least one byte returns a prefix of the unread
  bytes, no more than asked for, and the empty one only at the end. How many is the host's choice.
\<close>

definition stream :: "'h os \<Rightarrow> int \<Rightarrow> ('h \<Rightarrow> u8 list) \<Rightarrow> bool" where
  "stream OS f rest \<longleftrightarrow> (\<forall>n h. 0 < n \<longrightarrow> (\<exists>k h'. os_read OS f n h = (Some (take k (rest h)), h')
     \<and> k \<le> n \<and> k \<le> length (rest h) \<and> (k = 0 \<longrightarrow> rest h = []) \<and> rest h' = drop k (rest h)))"

text \<open>\<open>m'\<close> is \<open>m\<close> with the bytes \<open>bs\<close> at \<open>a\<close>.\<close>

definition stored :: "'m emu88 \<Rightarrow> u32 \<Rightarrow> u8 list \<Rightarrow> 'm \<Rightarrow> 'm \<Rightarrow> bool" where
  "stored E a bs m m' \<longleftrightarrow> (\<forall>b. is_ram E m' b = is_ram E m b) \<and> (\<forall>b. is_ram E m b \<longrightarrow> mem_readb E m' b =
     (if unat a \<le> unat b \<and> unat b < unat a + length bs then bs ! (unat b - unat a) else mem_readb E m b))"

lemma stored_Nil [simp]: "stored E a [] m m"
  by (auto simp: stored_def)

lemma stored_append:
  assumes "stored E a xs m m1" and "stored E b ys m1 m2" and "unat b = unat a + length xs"
  shows "stored E a (xs @ ys) m m2"
  using assms by (auto simp: stored_def nth_append)

lemma unat_plus_of_nat: "unat a + n < 2 ^ 32 \<Longrightarrow> unat (a + of_nat n :: u32) = unat a + n"
proof -
  assume "unat a + n < 2 ^ 32"
  moreover have "a + of_nat n = of_nat (unat a + n)" by simp
  ultimately show ?thesis using unat_of_nat_u32 [of "unat a + n"] by simp
qed

context emu88_engine
begin

lemma store_bytes_stored:
  assumes "\<And>i. i < length bs \<Longrightarrow> is_ram E m (a + of_nat i)" and "unat a + length bs \<le> 2 ^ 32"
  shows "stored E a bs m (store_bytes E a bs m)"
  using write_bytes [of "length bs" m a "(!) bs"] assms by (simp add: stored_def store_bytes_def)

lemma read_binary_stream:
  assumes "stream OS f rest" and "out \<le> n" and "unat dst + n \<le> 2 ^ 32"
    and "\<And>i. i < n \<Longrightarrow> is_ram E (mem s) (dst + of_nat i)"
  defines "k \<equiv> min (n - out) (length (rest (host_st s)))"
  shows "\<exists>m' h'. read_binary E OS f dst n out s = (True, out + k, s\<lparr>mem := m', host_st := h'\<rparr>)
    \<and> stored E (dst + of_nat out) (take k (rest (host_st s))) (mem s) m' \<and> rest h' = drop k (rest (host_st s))"
  using assms(2-4) unfolding k_def
proof (induction "n - out" arbitrary: out s rule: less_induct)
  case less
  show ?case
  proof (cases "out < n")
    case True
    let ?q = "min (n - out) READ_BLOCK"
    have "0 < ?q" using True by (simp add: READ_BLOCK_def)
    then obtain j h1 where rd: "os_read OS f ?q (host_st s) = (Some (take j (rest (host_st s))), h1)"
      and j: "j \<le> ?q" "j \<le> length (rest (host_st s))" "j = 0 \<longrightarrow> rest (host_st s) = []"
      and h1: "rest h1 = drop j (rest (host_st s))"
      using assms(1) unfolding stream_def by blast
    show ?thesis
    proof (cases "j = 0")
      case True
      then show ?thesis using rd j(3) h1 \<open>out < n\<close>
        by (subst read_binary.simps) (auto intro!: exI [of _ "mem s"] exI [of _ h1])
    next
      case False
      let ?bs = "take j (rest (host_st s))" and ?d = "dst + of_nat out"
      define m1 where "m1 = store_bytes E ?d ?bs (mem s)"
      let ?s1 = "s\<lparr>host_st := h1, mem := m1\<rparr>"
      have lb: "length ?bs = j" "?bs \<noteq> []" using j False by auto
      have d: "unat ?d = unat dst + out" using less.prems(2) True by (intro unat_plus_of_nat) simp
      have ad: "?d + of_nat i = dst + of_nat (out + i)" for i by simp
      have st: "stored E ?d ?bs (mem s) m1" unfolding m1_def
        using less.prems j(1) lb(1) d unfolding ad by (intro store_bytes_stored) (auto simp: ad simp del: of_nat_add)
      have ram: "is_ram E (mem ?s1) (dst + of_nat i)" if "i < n" for i using less.prems(3) [OF that] st by (simp add: stored_def)
      have "out + j \<le> n" "n - (out + j) < n - out" using j(1) False True by auto
      from less.hyps [OF this(2), of ?s1, OF this(1) less.prems(2) ram] obtain m' h' where
        IH: "read_binary E OS f dst n (out + j) ?s1 = (True, out + j + min (n - (out + j)) (length (rest h1)), ?s1\<lparr>mem := m', host_st := h'\<rparr>)"
          "stored E (dst + of_nat (out + j)) (take (min (n - (out + j)) (length (rest h1))) (rest h1)) m1 m'"
          "rest h' = drop (min (n - (out + j)) (length (rest h1))) (rest h1)"
        by auto
      have k: "out + j + min (n - (out + j)) (length (rest h1)) = out + min (n - out) (length (rest (host_st s)))"
        "min (n - out) (length (rest (host_st s))) = j + min (n - (out + j)) (length (rest h1))"
        using j h1 by auto
      have step: "read_binary E OS f dst n out s = read_binary E OS f dst n (out + j) ?s1"
        using True rd lb by (subst read_binary.simps) (simp add: wr_def m1_def)
      have split: "take (j + i) (rest (host_st s)) = ?bs @ take i (rest h1)" for i
        using h1 by (simp add: take_add)
      have "stored E ?d (?bs @ take (min (n - (out + j)) (length (rest h1))) (rest h1)) (mem s) m'"
      proof (cases "out + j < n")
        case True
        show ?thesis by (rule stored_append [OF st IH(2)]) (use d lb(1) less.prems(2) True in \<open>simp add: unat_plus_of_nat del: of_nat_add\<close>)
      next
        case False
        then have "m1 = m' \<or> stored E (dst + of_nat (out + j)) [] m1 m'" using IH(2) by simp
        then show ?thesis using st False IH(2) by (auto simp: stored_def)
      qed
      then show ?thesis using IH(1,3) k by (intro exI [of _ m'] exI [of _ h']) (simp add: step k split h1 add.commute)
    qed
  qed (use less.prems in \<open>auto simp: read_binary.simps intro!: exI [of _ "mem s"] exI [of _ "host_st s"]\<close>)
qed

end

lemma set_io_frame [simp]:
  "mem (set_io_result n s) = mem s" "host_st (set_io_result n s) = host_st s" "cf_addr (set_io_result n s) = cf_addr s"
  by (simp_all add: set_io_result_def cf_addr_def reg_sp_def set_ax_def)

lemma cf_addr_dos [simp]: "cf_addr (s\<lparr>host_st := h\<rparr>) = cf_addr s" "cf_addr (s\<lparr>s_handles := hs\<rparr>) = cf_addr s"
  "cf_addr (s\<lparr>s_finds := x\<rparr>) = cf_addr s" "cf_addr (s\<lparr>s_next_find_token := y\<rparr>) = cf_addr s"
  by (simp_all add: cf_addr_def reg_sp_def)

lemma pm32_frame [simp]: "pm32 (s\<lparr>mem := m\<rparr>) = pm32 s" "pm32 (s\<lparr>host_st := h\<rparr>) = pm32 s"
  by (simp_all add: pm32_def)

lemma mem_set_cf: "mem (set_cf E v s) = mem_writew E (cf_addr s)
    (if v then mem_readw E (mem s) (cf_addr s) OR 1 else mem_readw E (mem s) (cf_addr s) AND NOT 1) (mem s)"
  by (simp add: set_cf_def Let_def)

text \<open>The flags word of the caller's frame is RAM and outside the \<open>n\<close> bytes from \<open>a\<close>.\<close>

definition frame_clear :: "'m emu88 \<Rightarrow> ('m, 'h, 'z) dos_scheme \<Rightarrow> u32 \<Rightarrow> nat \<Rightarrow> bool" where
  "frame_clear E s a n \<longleftrightarrow> is_ram E (mem s) (cf_addr s) \<and> is_ram E (mem s) (cf_addr s + 1)
     \<and> (\<forall>i < n. a + of_nat i \<noteq> cf_addr s \<and> a + of_nat i \<noteq> cf_addr s + 1)"

section \<open>A search delivers every entry and ends\<close>

definition DTA_SIZE :: nat where "DTA_SIZE = 43"

text \<open>The 43 bytes a search writes to the DTA.\<close>

definition dta_image :: "'h os \<Rightarrow> 'h \<Rightarrow> host_stat \<Rightarrow> u32 \<Rightarrow> string \<Rightarrow> u8 list" where
  "dta_image OS h st token name = dta_header token @ replicate (0x15 - length (dta_header token)) 0 @ dta_tail OS h st @ dta_name name"

lemma length_dta:
  "length (dta_tail OS h st) = 9" "length (dta_name name) = 13" "length (dta_header token) \<le> 8"
  "length (dta_image OS h st token name) = DTA_SIZE"
  by (simp_all add: dta_tail_def dta_name_def dta_header_def dta_image_def DTA_SIZE_def Let_def split: prod.split)

lemma stored_over:
  "\<lbrakk>stored E a xs m m1; stored E a ys m1 m2; length ys \<le> length xs\<rbrakk> \<Longrightarrow> stored E a (ys @ drop (length ys) xs) m m2"
  by (auto simp: stored_def nth_append)

definition entry_stat :: "'h os \<Rightarrow> 'h \<Rightarrow> string \<Rightarrow> host_stat" where
  "entry_stat OS h p = (case host_stat_of (os_view OS h) p of None \<Rightarrow> zero_stat | Some st \<Rightarrow> st)"

definition dta_ready :: "'m emu88 \<Rightarrow> ('m, 'h, 'z) dos_scheme \<Rightarrow> bool" where
  "dta_ready E s \<longleftrightarrow> unat (s_dta_linear s) + DTA_SIZE \<le> 2 ^ 32 \<and> (\<forall>i < DTA_SIZE. is_ram E (mem s) (s_dta_linear s + of_nat i))
     \<and> frame_clear E s (s_dta_linear s) DTA_SIZE"

text \<open>The bytes of the DTA.\<close>

definition dta :: "'m emu88 \<Rightarrow> ('m, 'h, 'z) dos_scheme \<Rightarrow> u8 list" where
  "dta E s = map (\<lambda>i. mem_readb E (mem s) (s_dta_linear s + of_nat i)) [0 ..< DTA_SIZE]"

lemma dta_nth: "i < DTA_SIZE \<Longrightarrow> mem_readb E (mem s) (s_dta_linear s + of_nat i) = dta E s ! i"
  by (simp add: dta_def)

lemma dta_token_image:
  assumes "dta E s = dta_image OS h st token name" and "token \<noteq> 0"
  shows "dta_token E s = token"
proof -
  have "mem_readb E (mem s) (s_dta_linear s + of_nat i) = dta_image OS h st token name ! i" if "i < 8" for i
    using dta_nth [of i E s] assms(1) that by (simp add: DTA_SIZE_def)
  from this [of 0] this [of 1] this [of 2] this [of 3] this [of 4] this [of 5] this [of 6] this [of 7]
  show ?thesis using assms(2) by (simp add: dta_token_def dta_image_def dta_header_def nth_append Let_def)
qed

context emu88_engine
begin

lemma dta_write_stored:
  assumes "dta_ready E s" and st: "st = entry_stat OS (host_st s) p"
  shows "stored E (s_dta_linear s) (dta_image OS (host_st s) st token name) (mem s) (mem (dta_write_entry E OS p name token s))"
proof -
  let ?a = "s_dta_linear s" and ?h = "dta_header token"
  define m1 where "m1 = store_bytes E ?a (replicate 0x15 0) (mem s)"
  define m2 where "m2 = store_bytes E ?a ?h m1"
  define m3 where "m3 = store_bytes E (?a + 0x15) (dta_tail OS (host_st s) st) m2"
  define m4 where "m4 = store_bytes E (?a + 0x1E) (dta_name name) m3"
  have ram: "i < DTA_SIZE \<Longrightarrow> is_ram E (mem s) (?a + of_nat i)" and top: "unat ?a + DTA_SIZE \<le> 2 ^ 32" for i
    using assms(1) by (simp_all add: dta_ready_def)
  have off: "unat (?a + 0x15) = unat ?a + 0x15" "unat (?a + 0x1E) = unat ?a + 0x1E"
    using unat_plus_of_nat [of ?a "0x15"] unat_plus_of_nat [of ?a "0x1E"] top by (simp_all add: DTA_SIZE_def)
  have ad: "?a + 0x15 + of_nat i = ?a + of_nat (0x15 + i)" "?a + 0x1E + of_nat i = ?a + of_nat (0x1E + i)" for i by simp_all
  have s1: "stored E ?a (replicate 0x15 0) (mem s) m1" unfolding m1_def
    by (rule store_bytes_stored) (use ram top in \<open>simp_all add: DTA_SIZE_def\<close>)
  have s2: "stored E ?a ?h m1 m2" unfolding m2_def
    by (rule store_bytes_stored) (use s1 ram top length_dta(3) [of token] in \<open>auto simp: DTA_SIZE_def stored_def\<close>)
  have hl: "length ?h \<le> length (replicate 0x15 (0 :: u8))" "length ?h + (21 - length ?h) = 21"
    using length_dta(3) [of token] by simp_all
  note s12 = stored_over [OF s1 s2 hl(1)]
  have s3: "stored E (?a + 0x15) (dta_tail OS (host_st s) st) m2 m3" unfolding m3_def
    by (rule store_bytes_stored) (use s12 ram top off in \<open>auto simp: DTA_SIZE_def stored_def length_dta ad simp del: of_nat_add\<close>)
  have s123: "stored E ?a ((?h @ drop (length ?h) (replicate 0x15 0)) @ dta_tail OS (host_st s) st) (mem s) m3"
    by (rule stored_append [OF s12 s3]) (simp add: hl off)
  have s4: "stored E (?a + 0x1E) (dta_name name) m3 m4" unfolding m4_def
    by (rule store_bytes_stored) (use s123 ram top off in \<open>auto simp: DTA_SIZE_def stored_def length_dta ad simp del: of_nat_add\<close>)
  have "stored E ?a (((?h @ drop (length ?h) (replicate 0x15 0)) @ dta_tail OS (host_st s) st) @ dta_name name) (mem s) m4"
    by (rule stored_append [OF s123 s4]) (simp add: hl off length_dta)
  moreover have "mem (dta_write_entry E OS p name token s) = m4"
    by (simp add: dta_write_entry_def Let_def m4_def m3_def m2_def m1_def st entry_stat_def)
  ultimately show ?thesis by (simp add: dta_image_def)
qed

end

text \<open>The search \<open>st\<close> stands at entry \<open>k\<close>: the DTA describes it and the next call will return the one after.\<close>

definition entry_image :: "'h os \<Rightarrow> 'h \<Rightarrow> find_state \<Rightarrow> nat \<Rightarrow> u8 list" where
  "entry_image OS h st k = (let e = fs_entries st ! k in
     dta_image OS h (entry_stat OS h (fs_host_dir st @ ''/'' @ fe_host_name e)) (fs_token st) (mangled_8_3 e))"

definition search_at :: "'m emu88 \<Rightarrow> 'h os \<Rightarrow> find_state \<Rightarrow> nat \<Rightarrow> ('m, 'h, 'z) dos_scheme \<Rightarrow> bool" where
  "search_at E OS st k s \<longleftrightarrow> dta_ready E s \<and> dta E s = entry_image OS (host_st s) st k
     \<and> map_of (s_finds s) (fs_token st) = Some (st\<lparr>fs_index := Suc k\<rparr>)"

lemma dta_write_fields [simp]:
  "cf_addr (dta_write_entry E OS p n t s) = cf_addr s" "s_dta_linear (dta_write_entry E OS p n t s) = s_dta_linear s"
  "s_finds (dta_write_entry E OS p n t s) = s_finds s"
  by (simp_all add: dta_write_entry_def Let_def)

context emu88_engine
begin

text \<open>The tail of find-first and find-next: write the entry, record the search, clear carry.\<close>

lemma search_step:
  fixes OS :: "'h os" and st :: find_state and k :: nat
  assumes ready: "dta_ready E s"
  defines "e \<equiv> fs_entries st ! k"
  defines "w \<equiv> dta_write_entry E OS (fs_host_dir st @ ''/'' @ fe_host_name e) (mangled_8_3 e) (fs_token st) s"
  defines "s' \<equiv> set_cf E False (w\<lparr>s_finds := map_set (fs_token st) (st\<lparr>fs_index := Suc k\<rparr>) (s_finds s)\<rparr>)"
  shows "search_at E OS st k s' \<and> \<not> carry E s'"
proof -
  let ?a = "s_dta_linear s" and ?img = "entry_image OS (host_st s) st k"
  let ?w = "w\<lparr>s_finds := map_set (fs_token st) (st\<lparr>fs_index := Suc k\<rparr>) (s_finds s)\<rparr>"
  have img: "length ?img = DTA_SIZE" by (simp add: entry_image_def Let_def length_dta)
  have sw: "stored E ?a ?img (mem s) (mem w)"
    using dta_write_stored [OF ready refl, of OS "fs_host_dir st @ ''/'' @ fe_host_name e" "fs_token st" "mangled_8_3 e"]
    by (simp add: w_def entry_image_def e_def Let_def)
  have wf: "cf_addr w = cf_addr s" "s_dta_linear w = ?a" "host_st w = host_st s" by (simp_all add: w_def)
  have cf: "is_ram E (mem w) (cf_addr s)" "is_ram E (mem w) (cf_addr s + 1)"
    using ready sw by (simp_all add: dta_ready_def frame_clear_def stored_def)
  have ram: "is_ram E (mem s') b = is_ram E (mem s) b" for b
    using ram_set_cf [of ?w False b] cf sw by (simp add: s'_def wf stored_def)
  have fld: "s_dta_linear s' = ?a" "cf_addr s' = cf_addr s" "host_st s' = host_st s" by (simp_all add: s'_def wf)
  have "mem_readb E (mem s') (?a + of_nat i) = ?img ! i" if i: "i < DTA_SIZE" for i
  proof -
    have u: "unat (?a + of_nat i) = unat ?a + i" using ready i by (intro unat_plus_of_nat) (simp add: dta_ready_def)
    have r: "is_ram E (mem s) (?a + of_nat i)" "?a + of_nat i \<noteq> cf_addr s" "?a + of_nat i \<noteq> cf_addr s + 1"
      using ready i by (simp_all add: dta_ready_def frame_clear_def)
    have "mem_readb E (mem s') (?a + of_nat i) = mem_readb E (mem w) (?a + of_nat i)"
      using readb_set_cf [of ?w "?a + of_nat i" False] cf r sw by (simp add: s'_def wf stored_def)
    then show ?thesis using sw r(1) u i img by (simp add: stored_def)
  qed
  then have "dta E s' = ?img" using img by (auto simp: dta_def fld intro: nth_equalityI)
  moreover have "dta_ready E s'" using ready by (simp add: dta_ready_def frame_clear_def fld ram)
  moreover have "\<not> carry E s'" using carry_set_cf [of ?w False] cf by (simp add: s'_def wf)
  ultimately show ?thesis by (simp add: search_at_def fld s'_def wf)
qed

lemma search_next:
  assumes "search_at E OS st k s" and tok: "fs_token st \<noteq> 0"
  shows "Suc k < length (fs_entries st) \<Longrightarrow> search_at E OS st (Suc k) (int21_4F E OS s) \<and> \<not> carry E (int21_4F E OS s)"
    and "Suc k \<ge> length (fs_entries st) \<Longrightarrow> reg_ax (int21_4F E OS s) = 0x12 \<and> carry E (int21_4F E OS s)
      \<and> map_of (s_finds (int21_4F E OS s)) (fs_token st) = None"
proof -
  have at: "dta_ready E s" "map_of (s_finds s) (fs_token st) = Some (st\<lparr>fs_index := Suc k\<rparr>)"
    using assms(1) by (simp_all add: search_at_def)
  have t: "dta_token E s = fs_token st"
    using assms(1) dta_token_image [OF _ tok] by (auto simp: search_at_def entry_image_def Let_def)
  show "search_at E OS st (Suc k) (int21_4F E OS s) \<and> \<not> carry E (int21_4F E OS s)" if "Suc k < length (fs_entries st)"
    using search_step [OF at(1), where st = st and k = "Suc k" and OS = OS] that tok at(2)
    by (simp add: int21_4F_def t scan_next_def Let_def)
  show "reg_ax (int21_4F E OS s) = 0x12 \<and> carry E (int21_4F E OS s) \<and> map_of (s_finds (int21_4F E OS s)) (fs_token st) = None"
    if "Suc k \<ge> length (fs_entries st)"
    using that tok at carry_set_cf [of "set_ax 0x12 (s\<lparr>s_finds := map_erase (fs_token st) (s_finds s)\<rparr>)" True]
    by (simp add: int21_4F_def t scan_next_def Let_def return_error_def dta_ready_def frame_clear_def)
qed

end

section \<open>A concrete host\<close>

text \<open>
  A host on which concrete runs evaluate: its state is the list of open descriptors and the unread bytes
  of the one file there is; every path exists and is that file, every directory holds two entries.
\<close>

definition fresh_fd :: "int list \<Rightarrow> int" where
  "fresh_fd fs = fold max fs 2 + 1"

definition sample_view :: host where
  "sample_view = \<lparr>host_stat_of = (\<lambda>_. Some zero_stat), host_readdir = (\<lambda>_. Some [''b.c'', ''A.c'']),
     host_localtime = (\<lambda>_. \<lparr>tm_sec = 0, tm_min = 0, tm_hour = 0, tm_mday = 1, tm_mon = 0, tm_year = 80, tm_wday = 2\<rparr>)\<rparr>"

definition sample_os :: "(int list \<times> u8 list) os" where
  "sample_os = \<lparr>
     os_read = (\<lambda>f n (fs, bs). (Some (take n bs), (fs, drop n bs))),
     os_write = (\<lambda>f bs h. (True, h)),
     os_open = (\<lambda>p a c t (fs, bs). (Some (fresh_fd fs), (fresh_fd fs # fs, bs))),
     os_close = (\<lambda>f (fs, bs). (filter (\<lambda>x. x \<noteq> f) fs, bs)),
     os_lseek = (\<lambda>f i w h. (0, h)),
     os_dup = (\<lambda>f (fs, bs). (Some (fresh_fd fs), (fresh_fd fs # fs, bs))),
     os_dup2 = (\<lambda>f g (fs, bs). (True, (List.insert g fs, bs))),
     os_fstat = (\<lambda>f h. Some zero_stat),
     os_isatty = (\<lambda>f h. False),
     os_access = (\<lambda>p h. True),
     os_chmod = (\<lambda>p m h. h),
     os_mkdir = (\<lambda>p h. (True, h)),
     os_rmdir = (\<lambda>p h. (True, h)),
     os_unlink = (\<lambda>p h. (True, h)),
     os_rename = (\<lambda>p q h. (None, h)),
     os_fputc = (\<lambda>c h. h),
     os_fflush = (\<lambda>h. h),
     os_stdin_ready = (\<lambda>h. False),
     os_time = (\<lambda>h. (0, 0)),
     os_view = (\<lambda>h. sample_view)\<rparr>"

lemma fold_max_ge: "\<forall>x \<in> insert a (set fs). x \<le> fold max fs (a :: int)"
proof (induction fs arbitrary: a)
  case (Cons f fs)
  have "max f a \<le> fold max fs (max f a)" "\<forall>x \<in> set fs. x \<le> fold max fs (max f a)" using Cons [of "max f a"] by simp_all
  then show ?case by simp
qed simp

lemma sample_fd_laws: "fd_laws sample_os (\<lambda>h. set (fst h))"
proof -
  have "fresh_fd fs \<notin> set fs" for fs using fold_max_ge [of 2 fs] by (auto simp: fresh_fd_def)
  then show ?thesis by (auto simp: fd_laws_def sample_os_def new_fd_def)
qed

definition sample_dos :: "(u32 \<Rightarrow> u8) \<Rightarrow> (u32 \<Rightarrow> u8, int list \<times> u8 list) dos" where
  "sample_dos m = \<lparr>mem = m, reg_eax = 0, reg_ebx = 0, reg_ecx = 0, reg_edx = 0, reg_esi = 0, reg_edi = 0, reg_ebp = 0,
     reg_esp = 0x100, reg_eip = 0, seg_val = (\<lambda>_. 0x2000), seg_phys = (\<lambda>_. 0x20000), cpu_pmode = False,
     stack_big = False, code_big = False, reg_flags = 0x202, cpu_cpl = 0, cpu_cr0 = 0, s_int_gate_bits32 = False, s_mcb_initialised = False,
     s_pm = \<lparr>s_pm_busy = [], s_pm_initialised = False, s_pm_end = 0\<rparr>,
     host_st = ([0, 1, 2], [10, 20, 30]), s_drive_cwd = [], s_handles = [], s_drives = [], s_current_drive = CHR ''C'',
     s_default_mode = Auto, s_file_mappings = [], s_dta_linear = 0x1080, s_finds = [], s_next_find_token = 1,
     stdin_pending = None, s_int16_peek = None, g_windowed = False, g_display_open = False, g_text_attr = 7,
     ctrl_break_on = 0, switchar = 0x2F, nls_installed = False, lol_inited = False, s_process_stack = [],
     s_child_exit_pending = False, s_exit_code = 0, s_last_child_exit = 0, shutdown_requested = False\<rparr>"

lemma bind_handle_host: "free_handle (s_handles s) = Some h \<Longrightarrow> host_st (bind_handle E OS f txt s) = host_st s"
  by (simp add: bind_handle_def allocate_handle_def)

lemma sample_open: "os_open sample_os p a c t ([0, 1, 2], bs) = (Some 3, ([3, 0, 1, 2], bs))"
  by (simp add: sample_os_def fresh_fd_def)

lemma sample_fstat: "os_fstat sample_os f h = Some zero_stat"
  by (simp add: sample_os_def)

lemma zero_stat_file: "\<not> S_ISDIR zero_stat"
  by (simp add: zero_stat_def S_ISDIR_def)

lemma free_handle_empty: "free_handle [] = Some 5"
  by (simp add: free_handle_def FIRST_FILE_HANDLE_def MAX_HANDLES_def)

lemma sample_dos_fields [simp]:
  "host_st (sample_dos m) = ([0, 1, 2], [10, 20, 30])" "s_handles (sample_dos m) = []" "mem (sample_dos m) = m"
  by (simp_all add: sample_dos_def)

section \<open>Properties of the file services\<close>

text \<open>C18: AH=3Fh delivers the file. However the host splits its reads, reading up to CX (ECX for a 32-bit
  client) bytes from an open handle stores the next bytes of the file, as many as asked for or as there
  are, at DS:DX, returns their number with carry clear, leaves exactly the rest of the file unread, and
  changes no other memory but the carry flag in the caller's frame.\<close>

theorem dos_read_delivers:
  fixes s :: "('m, 'h, 'z) dos_scheme"
  assumes engine: "emu88_engine E" and bx: "reg_bx s \<noteq> 0" "map_of (s_handles s) (reg_bx s) = Some hh"
    and host: "stream OS (fd hh) rest"
    and buf: "unat (io_addr s) + io_count s \<le> 2 ^ 32" "\<forall>i < io_count s. is_ram E (mem s) (io_addr s + of_nat i)"
    and cf: "frame_clear E s (io_addr s) (io_count s)"
  defines "s' \<equiv> int21_3F E OS s" and "k \<equiv> min (io_count s) (length (rest (host_st s)))"
  shows "(\<forall>i < k. mem_readb E (mem s') (io_addr s + of_nat i) = rest (host_st s) ! i)
    \<and> (if pm32 s then reg_eax s' = of_nat k else reg_ax s' = of_nat k) \<and> \<not> carry E s'
    \<and> rest (host_st s') = drop k (rest (host_st s))
    \<and> same_outside E ({a. unat (io_addr s) \<le> unat a \<and> unat a < unat (io_addr s) + k} \<union> {cf_addr s, cf_addr s + 1}) (mem s) (mem s')"
proof -
  obtain m' h' where r: "read_binary E OS (fd hh) (io_addr s) (io_count s) 0 s = (True, k, s\<lparr>mem := m', host_st := h'\<rparr>)"
    and st: "stored E (io_addr s) (take k (rest (host_st s))) (mem s) m'" and h': "rest h' = drop k (rest (host_st s))"
    using emu88_engine.read_binary_stream [OF engine host, of 0 "io_count s" "io_addr s" s] buf by (auto simp: k_def)
  let ?t = "set_io_result k (s\<lparr>mem := m', host_st := h'\<rparr>)"
  have s': "s' = set_cf E False ?t" by (simp add: s'_def int21_3F_def bx r read_finish_def)
  have len: "length (take k (rest (host_st s))) = k" by (simp add: k_def)
  have ram: "is_ram E m' b = is_ram E (mem s) b" for b using st by (simp add: stored_def)
  have cfr: "is_ram E m' (cf_addr s)" "is_ram E m' (cf_addr s + 1)" using cf by (simp_all add: ram frame_clear_def)
  have rd: "mem_readb E (mem s') b = mem_readb E m' b" if "is_ram E (mem s) b" "b \<noteq> cf_addr s" "b \<noteq> cf_addr s + 1" for b
    using emu88_engine.readb_set_cf [OF engine, of ?t b False] that cfr by (simp add: s' ram)
  have ram': "is_ram E (mem s') b = is_ram E (mem s) b" for b
    using emu88_engine.ram_set_cf [OF engine, of ?t False b] cfr by (simp add: s' ram)
  have "mem_readb E (mem s') (io_addr s + of_nat i) = rest (host_st s) ! i" if "i < k" for i
  proof -
    have i: "i < io_count s" using that by (simp add: k_def)
    then have "unat (io_addr s + of_nat i) = unat (io_addr s) + i" using buf(1) by (intro unat_plus_of_nat) simp
    then show ?thesis using rd [of "io_addr s + of_nat i"] st buf(2) cf i that len by (simp add: stored_def frame_clear_def)
  qed
  moreover have "\<not> carry E s'"
    using emu88_engine.carry_set_cf [OF engine, of ?t False] cfr by (simp add: s')
  moreover have "same_outside E ({a. unat (io_addr s) \<le> unat a \<and> unat a < unat (io_addr s) + k} \<union> {cf_addr s, cf_addr s + 1}) (mem s) (mem s')"
    using rd ram' st len by (auto simp: same_outside_def stored_def)
  moreover have "if pm32 s then reg_eax s' = of_nat k else reg_ax s' = of_nat k" by (simp add: s' set_io_result_def)
  ultimately show ?thesis using h' by (simp add: s')
qed

theorem dos_read_delivers_witness:
  "(let s = (sample_dos (\<lambda>_. 0))\<lparr>reg_ebx := 5, reg_ecx := 2, s_handles := [(5, \<lparr>fd = 3, text_mode = False, read_pending = None\<rparr>)]\<rparr>;
        s' = int21_3F flat sample_os s
    in mem s' 0x20000 = 10 \<and> mem s' 0x20001 = 20 \<and> reg_ax s' = 2 \<and> snd (host_st s') = [30])"
proof -
  let ?s = "(sample_dos (\<lambda>_. 0))\<lparr>reg_ebx := 5, reg_ecx := 2, s_handles := [(5, \<lparr>fd = 3, text_mode = False, read_pending = None\<rparr>)]\<rparr>"
  have v: "reg_bx ?s = 5" "io_count ?s = 2" "io_addr ?s = 0x20000" "\<not> pm32 ?s" "cf_addr ?s = 0x20104" "host_st ?s = ([0, 1, 2], [10, 20, 30])"
    by (simp_all add: sample_dos_def reg_bx_def reg_cx_def reg_dx_def reg_sp_def lo16_def io_count_def io_addr_def pm32_def cf_addr_def)
  have str: "stream sample_os 3 snd" unfolding stream_def
  proof (intro allI impI)
    fix n :: nat and h :: "int list \<times> u8 list" assume "0 < n"
    then show "\<exists>k h'. os_read sample_os 3 n h = (Some (take k (snd h)), h') \<and> k \<le> n \<and> k \<le> length (snd h)
        \<and> (k = 0 \<longrightarrow> snd h = []) \<and> snd h' = drop k (snd h)"
      by (cases h) (auto simp: sample_os_def min_def split: if_splits intro!: exI [of _ "min n (length (snd h))"])
  qed
  have fc: "frame_clear flat ?s 0x20000 2" unfolding frame_clear_def v by (auto simp: less_2_cases_iff)
  have "(\<forall>i < 2. mem_readb flat (mem (int21_3F flat sample_os ?s)) (0x20000 + of_nat i) = [10, 20, 30] ! i)
      \<and> reg_ax (int21_3F flat sample_os ?s) = 2 \<and> snd (host_st (int21_3F flat sample_os ?s)) = [30]"
    using dos_read_delivers [OF flat_ram.emu88_engine_axioms, where s = ?s and OS = sample_os and rest = snd
        and hh = "\<lparr>fd = 3, text_mode = False, read_pending = None\<rparr>"] str fc v by simp
  then show ?thesis by (auto simp: Let_def mem_readb_def flat_def less_2_cases_iff)
qed

lemma find_SomeE:
  assumes "find P [a ..< b] = Some n"
  shows "a \<le> n \<and> n < b \<and> P n \<and> (\<forall>j. a \<le> j \<and> j < n \<longrightarrow> \<not> P j)"
proof -
  obtain i where i: "i < length [a ..< b]" "P ([a ..< b] ! i)" "n = [a ..< b] ! i" "\<forall>j<i. \<not> P ([a ..< b] ! j)"
    using assms by (auto simp: find_Some_iff)
  have "\<not> P j" if "a \<le> j" "j < n" for j
    using i(4) [rule_format, of "j - a"] i(1,3) that by simp
  then show ?thesis using i by simp
qed

lemma free_handle_least:
  "free_handle hs = Some h \<Longrightarrow> \<exists>n. h = of_nat n \<and> 5 \<le> n \<and> n < 20 \<and> (\<forall>j. 5 \<le> j \<and> j < n \<longrightarrow> map_of hs (of_nat j) \<noteq> None)"
  using find_SomeE by (fastforce simp: free_handle_def FIRST_FILE_HANDLE_def MAX_HANDLES_def simp del: upt_rec_numeral)

lemma sorted_keys_unique:
  "\<lbrakk>map_ok xs; map_ok ys; map_of xs = map_of ys\<rbrakk> \<Longrightarrow> xs = ys"
proof (rule map_sorted_distinct_set_unique [of fst])
  assume a: "map_ok xs" "map_ok ys" "map_of xs = map_of ys"
  then show eq: "set xs = set ys" by (simp add: map_ok_def map_of_inject_set)
  show "inj_on fst (set xs \<union> set ys)" using a(1) by (simp add: eq [symmetric] map_ok_def distinct_map)
qed (simp_all add: map_ok_def)

lemma map_erase_set_new: "\<lbrakk>map_of xs k = None; map_ok xs\<rbrakk> \<Longrightarrow> map_erase k (map_set k v xs) = xs"
  by (rule sorted_keys_unique) (auto simp: fun_upd_idem)

text \<open>C19: A close undoes an open. When the host opens the file, AH=3Dh binds the descriptor to the lowest free
  DOS handle from 5 to 19, returns it in AX with carry clear and leaves every other handle as it was;
  AH=3Eh on that handle closes exactly that descriptor and restores the handle table.\<close>

theorem dos_open_close:
  fixes s :: "('m, 'h, 'z) dos_scheme"
  assumes engine: "emu88_engine E" and hs: "map_ok (s_handles s)" "free_handle (s_handles s) = Some h"
    and ram: "is_ram E (mem s) (cf_addr s)" "is_ram E (mem s) (cf_addr s + 1)"
    and path: "device_stem (open_path E s) \<notin> set char_devices" "resolve OS s (open_path E s) = (p, txt)"
    and host: "os_open OS p (open_flags (ucast (reg_al s))) False False (host_st s) = (Some f, h1)"
      "os_fstat OS f h1 = Some st" "\<not> S_ISDIR st"
  defines "s1 \<equiv> int21_3D E OS s"
  defines "s2 \<equiv> int21_3E E OS (set_bx (reg_ax s1) s1)"
  shows "reg_ax s1 = h \<and> 5 \<le> unat h \<and> unat h < 20 \<and> (\<forall>j. 5 \<le> j \<and> j < unat h \<longrightarrow> map_of (s_handles s) (of_nat j) \<noteq> None)
    \<and> map_of (s_handles s1) = (map_of (s_handles s))(h \<mapsto> \<lparr>fd = f, text_mode = txt, read_pending = None\<rparr>) \<and> \<not> carry E s1
    \<and> s_handles s2 = s_handles s \<and> host_st s2 = os_close OS f h1 \<and> \<not> carry E s2"
proof -
  let ?hh = "\<lparr>fd = f, text_mode = txt, read_pending = None\<rparr>"
  let ?t = "s\<lparr>host_st := h1, s_handles := map_set h ?hh (s_handles s)\<rparr>"
  have s1: "s1 = set_cf E False (set_ax h ?t)"
    by (simp add: s1_def int21_3D_def Let_def path host bind_handle_def allocate_handle_def hs(2))
  obtain n where n: "h = of_nat n" "5 \<le> n" "n < 20" "\<forall>j. 5 \<le> j \<and> j < n \<longrightarrow> map_of (s_handles s) (of_nat j) \<noteq> None"
    using free_handle_least [OF hs(2)] by blast
  have un: "unat h = n" using n(1,3) unat_of_nat_u16 [of n] by simp
  then have big: "\<not> h \<le> 4" using n(2) by (simp add: word_le_nat_alt)
  have erase: "map_erase h (map_set h ?hh (s_handles s)) = s_handles s"
    by (rule map_erase_set_new [OF free_handle_new [OF hs(2)] hs(1)])
  have ax: "reg_ax s1 = h" by (simp add: s1)
  let ?u = "set_bx h s1"
  have s2: "s2 = set_cf E False ((sysu (os_close OS f) ?u)\<lparr>s_handles := s_handles s\<rparr>)"
    using big by (simp add: s2_def ax int21_3E_def s1 erase)
  have r1: "is_ram E (mem s1) b = is_ram E (mem s) b" for b
    using emu88_engine.ram_set_cf [OF engine, of "set_ax h ?t" False b] ram by (simp add: s1)
  have "\<not> carry E s1" using emu88_engine.carry_set_cf [OF engine, of "set_ax h ?t" False] ram by (simp add: s1)
  moreover have "\<not> carry E s2"
    using emu88_engine.carry_set_cf [OF engine, of "(sysu (os_close OS f) ?u)\<lparr>s_handles := s_handles s\<rparr>" False] ram r1
    by (simp add: s2 sysu_def) (simp add: s1)
  ultimately show ?thesis using n un ax by (simp add: s1 s2)
qed

lemma read_string_zero: "mem_readb E m lin = 0 \<Longrightarrow> read_string_from E m lin n = []"
  by (cases n) simp_all

theorem dos_open_close_witness:
  "(let s = sample_dos (\<lambda>_. 0); s1 = int21_3D flat sample_os s; s2 = int21_3E flat sample_os (set_bx (reg_ax s1) s1)
    in reg_ax s1 = 5 \<and> fd (the (map_of (s_handles s1) 5)) = 3 \<and> s_handles s2 = [] \<and> host_st s2 = ([0, 1, 2], [10, 20, 30]))"
proof -
  let ?s = "sample_dos (\<lambda>_. 0)"
  have path: "open_path flat ?s = []"
    by (simp add: open_path_def ds_dx_path_def read_dos_path_def read_dos_string_lin_def read_string_zero mem_readb_def flat_def sample_dos_def)
  have dev: "device_stem [] \<notin> set char_devices"
    by (simp add: device_stem_def basename_dos_def find_last_def find_first_def upper_def char_devices_def)
  obtain p tm where rs: "resolve sample_os ?s [] = (p, tm)" by fastforce
  have cl: "os_close sample_os 3 ([3, 0, 1, 2], bs) = ([0, 1, 2], bs)" for bs by (simp add: sample_os_def)
  show ?thesis
    using dos_open_close [OF flat_ram.emu88_engine_axioms, of ?s 5 sample_os p tm 3 "([3, 0, 1, 2], [10, 20, 30])" zero_stat]
    by (auto simp: path dev rs sample_open sample_fstat zero_stat_file free_handle_empty cl Let_def)
qed

lemma build_find_fresh: "build_find_state H dir pat tok = Some st \<Longrightarrow> fs_index st = 0 \<and> fs_token st = tok"
  by (auto simp: build_find_state_def Let_def split: option.splits)

lemma entry_image_name: "drop 0x1E (entry_image OS h st k) = dta_name (mangled_8_3 (fs_entries st ! k))"
proof -
  have "length (dta_header (fs_token st)) + (0x15 - length (dta_header (fs_token st))) = 0x15"
    using length_dta(3) [of "fs_token st"] by simp
  then show ?thesis
    by (simp add: entry_image_def dta_image_def Let_def append_assoc [symmetric] length_dta(1) del: append_assoc drop_append)
      (simp add: append_eq_conv_conj length_dta(1))
qed

lemma int21_4E_first:
  assumes "emu88_engine E" and "dta_ready E s"
    and "build_find_state (os_view OS (host_st s)) (host_of OS s (fst (split_dir_pattern (ds_dx_path E s))))
      (upper (snd (split_dir_pattern (ds_dx_path E s)))) (s_next_find_token s) = Some st"
    and "fs_entries st \<noteq> []"
  shows "search_at E OS st 0 (int21_4E E OS s) \<and> \<not> carry E (int21_4E E OS s)"
proof -
  let ?s = "s\<lparr>s_next_find_token := s_next_find_token s + 1\<rparr>"
  have r: "dta_ready E ?s" using assms(2) by (simp add: dta_ready_def frame_clear_def)
  note f = build_find_fresh [OF assms(3)]
  show ?thesis
    using emu88_engine.search_step [OF assms(1) r, where st = st and k = 0 and OS = OS] assms(3,4) f
    by (simp add: int21_4E_def Let_def scan_next_def case_prod_beta)
qed

text \<open>C20: A directory search delivers every entry once and then ends. When AH=4Eh finds something, it and each
  AH=4Fh after it put the name of the next matching entry into the DTA, in the order of the enumeration
  and with carry clear; the call after the last entry fails with error 12h.\<close>

theorem find_enumerates:
  fixes s :: "('m, 'h, 'z) dos_scheme"
  assumes engine: "emu88_engine E" and ready: "dta_ready E s" and tok: "s_next_find_token s \<noteq> 0"
    and build: "build_find_state (os_view OS (host_st s)) (host_of OS s (fst (split_dir_pattern (ds_dx_path E s))))
      (upper (snd (split_dir_pattern (ds_dx_path E s)))) (s_next_find_token s) = Some st"
    and some: "fs_entries st \<noteq> []"
  defines "t \<equiv> \<lambda>k. (int21_4F E OS ^^ k) (int21_4E E OS s)"
  shows "(\<forall>k < length (fs_entries st). \<not> carry E (t k)
      \<and> drop 0x1E (dta E (t k)) = dta_name (mangled_8_3 (fs_entries st ! k)))
    \<and> reg_ax (t (length (fs_entries st))) = 0x12 \<and> carry E (t (length (fs_entries st)))"
proof -
  have tk: "fs_token st \<noteq> 0" using build_find_fresh [OF build] tok by simp
  have at: "search_at E OS st k (t k) \<and> \<not> carry E (t k)" if "k < length (fs_entries st)" for k
    using that
  proof (induction k)
    case 0
    then show ?case using int21_4E_first [OF engine ready build some] by (simp add: t_def)
  next
    case (Suc k)
    then show ?case using emu88_engine.search_next(1) [OF engine _ tk, of OS k "t k"] by (simp add: t_def)
  qed
  have "drop 0x1E (dta E (t k)) = dta_name (mangled_8_3 (fs_entries st ! k))" if "k < length (fs_entries st)" for k
    using at [OF that] entry_image_name by (auto simp: search_at_def)
  moreover obtain n where n: "length (fs_entries st) = Suc n" using some by (cases "fs_entries st") auto
  ultimately show ?thesis
    using at at [of n] emu88_engine.search_next(2) [OF engine _ tk, of OS n "t n"] by (auto simp: t_def)
qed

lemma read_string_step:
  "0 < n \<Longrightarrow> read_string_from E m lin n = (let c = mem_readb E m lin in
     if c = 0 then [] else char_of_byte c # read_string_from E m (lin + 1) (n - 1))"
  by (cases n) (simp_all add: Let_def)

lemma all_match_dot: "glob_match ''.'' ''*.*'' = Some True"
  by (simp add: glob_match_def split_ext_def find_last_def glob_match_part_wild)

theorem find_enumerates_witness:
  "(let s = sample_dos ((\<lambda>_. 0)(0x20000 := 0x2A, 0x20001 := 0x2E, 0x20002 := 0x2A)); t = int21_4E flat sample_os s
    in \<not> carry flat t \<and> (\<exists>n > 0. reg_ax ((int21_4F flat sample_os ^^ n) t) = 0x12))"
proof -
  let ?m = "(\<lambda>_. 0)(0x20000 := 0x2A, 0x20001 := 0x2E, 0x20002 := 0x2A) :: u32 \<Rightarrow> u8"
  let ?s = "sample_dos ?m"
  have path: "ds_dx_path flat ?s = ''*.*''"
    by (simp add: ds_dx_path_def read_dos_path_def dos_arg_addr_def sample_dos_def reg_dx_def lo16_def read_dos_string_lin_def
        read_string_step mem_readb_def flat_def char_of_byte_def char_of_def bit_0)
  have split: "split_dir_pattern ''*.*'' = ([], ''*.*'')" "upper ''*.*'' = ''*.*''"
    by (simp_all add: split_dir_pattern_def find_last_def is_sep_def upper_def toupper_def)
  obtain st where st: "build_find_state sample_view (host_of sample_os ?s []) ''*.*'' 1 = Some st" "fs_entries st \<noteq> []"
    by (auto simp: build_find_state_def sample_view_def Let_def all_match_dot)
  have ready: "dta_ready flat ?s"
  proof -
    have v: "cf_addr ?s = 0x20104" "s_dta_linear ?s = 0x1080" by (simp_all add: sample_dos_def cf_addr_def reg_sp_def lo16_def)
    have "(0x1080 + of_nat i :: u32) \<noteq> 0x20104 \<and> (0x1080 + of_nat i :: u32) \<noteq> 0x20105" if "i < 43" for i
    proof -
      have "unat (0x1080 + of_nat i :: u32) = 0x1080 + i" using unat_plus_of_nat [of "0x1080" i] that by simp
      then show ?thesis using that by (auto simp: word_unat_eq_iff)
    qed
    then show ?thesis unfolding dta_ready_def frame_clear_def DTA_SIZE_def v by simp
  qed
  have view: "os_view sample_os h = sample_view" "s_next_find_token ?s = 1" for h by (simp_all add: sample_os_def sample_dos_def)
  note fe = find_enumerates [OF flat_ram.emu88_engine_axioms ready, of sample_os st]
  have "0 < length (fs_entries st)" using st(2) by simp
  with fe st show ?thesis by (auto simp: path split view Let_def intro!: exI [of _ "length (fs_entries st)"])
qed

end
