(* ===== verification/Video.thy ===== *)
theory Video
  imports Files
begin

text \<open>
  Video and mouse: the VGA and VESA state of \<open>video.cc\<close> with its palette ports and software renderer, the video
  BIOS INT 10h with its VESA functions, and the mouse driver INT 33h of \<open>bridge.cc\<close>. The frame buffer and the
  routing flags of the engine's memory, and the 8x16 font, are parameters. \<open>machine_mem()\<close> is taken to exist, as it
  does from \<open>init_machine\<close> on. A frame is a function from pixel index to ARGB value.
\<close>

section \<open>State\<close>

record 'm svga =
  svga_base :: "'m \<Rightarrow> (u32 \<Rightarrow> u8) option"
  svga_vram_size :: "'m \<Rightarrow> u32"
  svga_ensure :: "u32 \<Rightarrow> 'm \<Rightarrow> 'm"
  svga_zero :: "'m \<Rightarrow> 'm"
  set_svga_active :: "bool \<Rightarrow> 'm \<Rightarrow> 'm"
  set_vga_planar :: "bool \<Rightarrow> 'm \<Rightarrow> 'm"
  set_vga_map_mask :: "u8 \<Rightarrow> 'm \<Rightarrow> 'm"
  set_vga_read_map :: "u8 \<Rightarrow> 'm \<Rightarrow> 'm"
  svga_window_off :: "'m \<Rightarrow> u32"
  set_svga_window_off :: "u32 \<Rightarrow> 'm \<Rightarrow> 'm"
  set_svga_lfb_phys :: "u32 \<Rightarrow> 'm \<Rightarrow> 'm"

text \<open>\<open>VgaState\<close>: the palette is indexed by entry and component.\<close>

record vga_state =
  g_mode :: u8
  dac :: "u8 \<Rightarrow> u8 \<Rightarrow> u8"
  dac_widx :: u8
  dac_comp :: u8
  dac_ridx :: u8
  dac_rcomp :: u8
  pel_mask :: u8

record vesa_mode =
  vm_num :: u16
  vm_w :: nat
  vm_h :: nat
  vm_bpp :: nat

record vesa_state =
  vs_active :: bool
  vs_mode :: u16
  vs_xres :: nat
  vs_yres :: nat
  vs_bpp :: nat
  vs_stride :: nat
  vs_display_start :: u32

record mouse_state =
  host_x :: int
  host_y :: int
  host_buttons :: u32
  mouse_x :: int
  mouse_y :: int
  mouse_buttons :: u32
  mouse_visible :: bool
  min_x :: int
  max_x :: int
  min_y :: int
  max_y :: int
  press_count :: "nat \<Rightarrow> int"
  release_count :: "nat \<Rightarrow> int"
  press_x :: "nat \<Rightarrow> int"
  press_y :: "nat \<Rightarrow> int"
  release_x :: "nat \<Rightarrow> int"
  release_y :: "nat \<Rightarrow> int"

record ('m, 'h) video = "('m, 'h) dos" +
  g :: vga_state
  vs :: vesa_state
  g_mouse :: mouse_state

definition SVGA_LFB_PHYS :: u32 where "SVGA_LFB_PHYS = 0xE0000000"
definition SVGA_VRAM_TOTAL :: u32 where "SVGA_VRAM_TOTAL = 8 * 1024 * 1024"

definition kVesaModes :: "vesa_mode list" where
  "kVesaModes = map (\<lambda>(n, w, h, b). \<lparr>vm_num = n, vm_w = w, vm_h = h, vm_bpp = b\<rparr>)
    [(0x100, 640, 400, 8), (0x101, 640, 480, 8), (0x103, 800, 600, 8),
     (0x105, 1024, 768, 8), (0x107, 1280, 1024, 8),
     (0x10D, 320, 200, 15), (0x110, 640, 480, 15), (0x113, 800, 600, 15),
     (0x116, 1024, 768, 15), (0x119, 1280, 1024, 15),
     (0x10E, 320, 200, 16), (0x111, 640, 480, 16), (0x114, 800, 600, 16),
     (0x117, 1024, 768, 16), (0x11A, 1280, 1024, 16),
     (0x10F, 320, 200, 24), (0x112, 640, 480, 24), (0x115, 800, 600, 24),
     (0x118, 1024, 768, 24), (0x11B, 1280, 1024, 24),
     (0x140, 320, 200, 32), (0x141, 640, 480, 32), (0x142, 800, 600, 32),
     (0x143, 1024, 768, 32), (0x144, 1280, 1024, 32)]"

section \<open>The palette\<close>

definition put_rgb :: "u8 \<Rightarrow> u8 \<times> u8 \<times> u8 \<Rightarrow> (u8 \<Rightarrow> u8 \<Rightarrow> u8) \<Rightarrow> u8 \<Rightarrow> u8 \<Rightarrow> u8" where
  "put_rgb i = (\<lambda>(r, gg, b) d. d(i := (d i)(0 := r, 1 := gg, 2 := b)))"

definition cga16 :: "(u8 \<times> u8 \<times> u8) list" where
  "cga16 = [(0, 0, 0), (0, 0, 42), (0, 42, 0), (0, 42, 42),
     (42, 0, 0), (42, 0, 42), (42, 21, 0), (42, 42, 42),
     (21, 21, 21), (21, 21, 63), (21, 63, 21), (21, 63, 63),
     (63, 21, 21), (63, 21, 63), (63, 63, 21), (63, 63, 63)]"

definition init_default_palette :: "(u8 \<Rightarrow> u8 \<Rightarrow> u8) \<Rightarrow> u8 \<Rightarrow> u8 \<Rightarrow> u8" where
  "init_default_palette d = (let
     d = fold (\<lambda>i. put_rgb (of_nat i) (cga16 ! i)) [0..<16] d;
     d = fold (\<lambda>i. put_rgb (of_nat (16 + i)) (case cga16 ! i of (r, gg, b) \<Rightarrow> (r div 2, gg div 2, b div 2))) [0..<16] d;
     (idx, d) = fold (\<lambda>r. fold (\<lambda>gg. fold (\<lambda>b (idx, d).
         if idx < 248 then (idx + 1, put_rgb (of_nat idx) (of_nat (r * 12 + 3), of_nat (gg * 12 + 3), of_nat (b * 12 + 3)) d)
         else (idx, d)) [0..<6]) [0..<6]) [0..<6] (32 :: nat, d)
   in fold (\<lambda>i. put_rgb (of_nat (248 + i)) (of_nat (i * 9), of_nat (i * 9), of_nat (i * 9))) [0..<8] d)"

definition dac_scale :: "u8 \<Rightarrow> u8" where
  "dac_scale c = push_bit 2 c OR drop_bit 4 c"

definition argb :: "u8 \<Rightarrow> u8 \<Rightarrow> u8 \<Rightarrow> u32" where
  "argb r gg b = 0xFF000000 OR push_bit 16 (ucast r) OR push_bit 8 (ucast gg) OR ucast b"

definition dac_to_argb :: "(u8 \<Rightarrow> u8) \<Rightarrow> u32" where
  "dac_to_argb c = argb (dac_scale (c 0)) (dac_scale (c 1)) (dac_scale (c 2))"

definition set_dac :: "int \<Rightarrow> u8 \<Rightarrow> u8 \<Rightarrow> u8 \<Rightarrow> vga_state \<Rightarrow> vga_state" where
  "set_dac index r gg b v =
    (if index < 0 \<or> index > 255 then v
     else v\<lparr>dac := put_rgb (word_of_int index) (r AND 0x3F, gg AND 0x3F, b AND 0x3F) (dac v)\<rparr>)"

definition video_port_out :: "u16 \<Rightarrow> u8 \<Rightarrow> vga_state \<Rightarrow> vga_state" where
  "video_port_out port val v =
    (if port = 0x3C6 then v\<lparr>pel_mask := val\<rparr>
     else if port = 0x3C7 then v\<lparr>dac_ridx := val, dac_rcomp := 0\<rparr>
     else if port = 0x3C8 then v\<lparr>dac_widx := val, dac_comp := 0\<rparr>
     else if port = 0x3C9 then let
       v = v\<lparr>dac := (dac v)(dac_widx v := (dac v (dac_widx v))(dac_comp v := val AND 0x3F))\<rparr>;
       v = v\<lparr>dac_comp := dac_comp v + 1\<rparr>
     in if dac_comp v \<ge> 3 then v\<lparr>dac_comp := 0, dac_widx := dac_widx v + 1\<rparr> else v
     else v)"

definition video_port_in :: "u16 \<Rightarrow> vga_state \<Rightarrow> u8 \<times> vga_state" where
  "video_port_in port v =
    (if port = 0x3C6 then (pel_mask v, v)
     else if port = 0x3C8 then (dac_widx v, v)
     else if port = 0x3C9 then let
       r = dac v (dac_ridx v) (dac_rcomp v);
       v = v\<lparr>dac_rcomp := dac_rcomp v + 1\<rparr>
     in (r, if dac_rcomp v \<ge> 3 then v\<lparr>dac_rcomp := 0, dac_ridx := dac_ridx v + 1\<rparr> else v)
     else (0xFF, v))"

section \<open>Modes\<close>

definition is_text_mode :: "('m, 'h, 'z) video_scheme \<Rightarrow> bool" where
  "is_text_mode s \<longleftrightarrow> g_mode (g s) \<noteq> 0x13"

definition set_mode :: "'m emu88 \<Rightarrow> 'm svga \<Rightarrow> u8 \<Rightarrow> ('m, 'h, 'z) video_scheme \<Rightarrow> ('m, 'h, 'z) video_scheme" where
  "set_mode E V mode s = (let
     s = s\<lparr>g := (g s)\<lparr>g_mode := mode\<rparr>, vs := (vs s)\<lparr>vs_active := False\<rparr>\<rparr>;
     s = wr (set_vga_read_map V 0 \<circ> set_vga_map_mask V 0x0F \<circ> set_vga_planar V False \<circ> set_svga_active V False) s;
     s = (if mode = 0x13 then wr (fold (\<lambda>i. mem_writeb E (0xA0000 + of_nat i) 0) [0..<320 * 200]) s
          else wr (fold (\<lambda>i. mem_writeb E (0xB8000 + of_nat (i * 2 + 1)) 0x07 \<circ> mem_writeb E (0xB8000 + of_nat (i * 2)) 0x20)
                   [0..<80 * 25]) s)
   in s\<lparr>g := (g s)\<lparr>dac := init_default_palette (dac (g s))\<rparr>\<rparr>)"

definition video_init :: "'m emu88 \<Rightarrow> 'm svga \<Rightarrow> ('m, 'h, 'z) video_scheme \<Rightarrow> ('m, 'h, 'z) video_scheme" where
  "video_init E V s = set_mode E V 0x03
     (s\<lparr>g := \<lparr>g_mode = 0x03, dac = init_default_palette (\<lambda>_ _. 0), dac_widx = 0, dac_comp = 0, dac_ridx = 0,
              dac_rcomp = 0, pel_mask = 0xFF\<rparr>\<rparr>)"

definition frame_dims :: "('m, 'h, 'z) video_scheme \<Rightarrow> nat \<times> nat" where
  "frame_dims s = (if vs_active (vs s) then (vs_xres (vs s), vs_yres (vs s))
     else if is_text_mode s then (80 * 8, 25 * 16) else (320, 200))"

definition vesa_bpp_bytes :: "nat \<Rightarrow> nat" where
  "vesa_bpp_bytes bpp = (if bpp \<le> 8 then 1 else if bpp \<le> 16 then 2 else if bpp \<le> 24 then 3 else 4)"

definition vesa_mode_number :: "vesa_state \<Rightarrow> u16" where
  "vesa_mode_number v = (if vs_active v then vs_mode v else 0)"

definition vesa_find :: "u16 \<Rightarrow> vesa_mode option" where
  "vesa_find num = find (\<lambda>m. vm_num m = num AND 0x3FFF) kVesaModes"

definition vesa_set_scanline_bytes :: "int \<Rightarrow> vesa_state \<Rightarrow> vesa_state" where
  "vesa_set_scanline_bytes bytes v = (if bytes > 0 then v\<lparr>vs_stride := nat bytes\<rparr> else v)"

definition vesa_set_mode ::
  "'m svga \<Rightarrow> u16 \<Rightarrow> ('m, 'h, 'z) video_scheme \<Rightarrow> bool \<times> ('m, 'h, 'z) video_scheme" where
  "vesa_set_mode V modenum s = (let no_clear = modenum AND 0x8000 \<noteq> 0 in
     case vesa_find modenum of None \<Rightarrow> (False, s)
     | Some m \<Rightarrow> let
         s = wr (svga_ensure V SVGA_VRAM_TOTAL) s;
         s = (if \<not> no_clear \<and> svga_base V (mem s) \<noteq> None then wr (svga_zero V) s else s);
         s = s\<lparr>vs := \<lparr>vs_active = True, vs_mode = vm_num m, vs_xres = vm_w m, vs_yres = vm_h m, vs_bpp = vm_bpp m,
                      vs_stride = vm_w m * vesa_bpp_bytes (vm_bpp m), vs_display_start = 0\<rparr>\<rparr>;
         s = wr (set_vga_planar V False \<circ> set_svga_lfb_phys V SVGA_LFB_PHYS \<circ> set_svga_window_off V 0 \<circ> set_svga_active V True) s
       in (True, if vm_bpp m = 8 then s\<lparr>g := (g s)\<lparr>dac := init_default_palette (dac (g s))\<rparr>\<rparr> else s))"

section \<open>Rendering\<close>

text \<open>One pixel of the SVGA frame buffer at the active depth.\<close>

definition vesa_pixel :: "(u8 \<Rightarrow> u8 \<Rightarrow> u8) \<Rightarrow> nat \<Rightarrow> (u32 \<Rightarrow> u8) \<Rightarrow> u32 \<Rightarrow> u32" where
  "vesa_pixel d bpp fb o' =
    (if bpp = 8 then dac_to_argb (d (fb o'))
     else if bpp = 15 then let
       v = ucast (fb o') OR push_bit 8 (ucast (fb (o' + 1))) :: u16;
       r = ucast (drop_bit 10 v AND 0x1F) :: u8; gg = ucast (drop_bit 5 v AND 0x1F) :: u8; b = ucast (v AND 0x1F) :: u8
     in argb (push_bit 3 r OR drop_bit 2 r) (push_bit 3 gg OR drop_bit 2 gg) (push_bit 3 b OR drop_bit 2 b)
     else if bpp = 16 then let
       v = ucast (fb o') OR push_bit 8 (ucast (fb (o' + 1))) :: u16;
       r = ucast (drop_bit 11 v AND 0x1F) :: u8; gg = ucast (drop_bit 5 v AND 0x3F) :: u8; b = ucast (v AND 0x1F) :: u8
     in argb (push_bit 3 r OR drop_bit 2 r) (push_bit 2 gg OR drop_bit 4 gg) (push_bit 3 b OR drop_bit 2 b)
     else argb (fb (o' + 2)) (fb (o' + 1)) (fb o'))"

definition vesa_offset :: "vesa_state \<Rightarrow> nat \<Rightarrow> nat \<Rightarrow> u32" where
  "vesa_offset v y x = vs_display_start v + of_nat y * of_nat (vs_stride v) + of_nat x * of_nat (vesa_bpp_bytes (vs_bpp v))"

definition render_vesa ::
  "'m svga \<Rightarrow> ('m, 'h, 'z) video_scheme \<Rightarrow> nat \<Rightarrow> nat \<Rightarrow> (nat \<Rightarrow> u32) \<Rightarrow> nat \<Rightarrow> u32" where
  "render_vesa V s w h out = (case svga_base V (mem s) of
       None \<Rightarrow> fold (\<lambda>i out. out(i := 0)) [0..<w * h] out
     | Some fb \<Rightarrow> let bypp = of_nat (vesa_bpp_bytes (vs_bpp (vs s))); vram = svga_vram_size V (mem s) in
         fold (\<lambda>y. fold (\<lambda>x out. let o' = vesa_offset (vs s) y x in
             out(y * w + x := (if o' + bypp > vram then 0xFF000000 else vesa_pixel (dac (g s)) (vs_bpp (vs s)) fb o')))
           [0..<w]) [0..<h] out)"

text \<open>Some scan lines of the character cell at (\<open>row\<close>, \<open>col\<close>) in a frame of width \<open>fw\<close>.\<close>

definition draw_rows ::
  "nat \<Rightarrow> nat \<Rightarrow> nat \<Rightarrow> nat list \<Rightarrow> (nat \<Rightarrow> nat \<Rightarrow> u32) \<Rightarrow> (nat \<Rightarrow> u32) \<Rightarrow> nat \<Rightarrow> u32" where
  "draw_rows fw row col gys colour out =
     fold (\<lambda>gy. fold (\<lambda>gx out. out((row * 16 + gy) * fw + col * 8 + gx := colour gy gx)) [0..<8]) gys out"

definition draw_cell ::
  "'m emu88 \<Rightarrow> (u8 \<Rightarrow> nat \<Rightarrow> u8) \<Rightarrow> ('m, 'h, 'z) video_scheme \<Rightarrow> nat \<Rightarrow> nat \<Rightarrow> nat \<Rightarrow> nat \<Rightarrow> nat \<Rightarrow> (nat \<Rightarrow> u32) \<Rightarrow> nat \<Rightarrow> u32" where
  "draw_cell E font s fw cur_row cur_col row col out = (let
     ch = mem_readb E (mem s) (cell (row * 80 + col));
     attr = mem_readb E (mem s) (cell (row * 80 + col) + 1);
     fg = dac_to_argb (dac (g s) (attr AND 0x0F));
     bg = dac_to_argb (dac (g s) (drop_bit 4 attr AND 0x07));
     out = draw_rows fw row col [0..<16] (\<lambda>gy gx. if font ch gy AND drop_bit gx 0x80 \<noteq> 0 then fg else bg) out
   in if row = cur_row \<and> col = cur_col then draw_rows fw row col [13..<16] (\<lambda>_ _. fg) out else out)"

definition render_text ::
  "'m emu88 \<Rightarrow> (u8 \<Rightarrow> nat \<Rightarrow> u8) \<Rightarrow> ('m, 'h, 'z) video_scheme \<Rightarrow> nat \<Rightarrow> (nat \<Rightarrow> u32) \<Rightarrow> nat \<Rightarrow> u32" where
  "render_text E font s fw out = (let
     cpos = mem_readw E (mem s) 0x450;
     cur_row = unat (hi8 cpos); cur_col = unat (lo8 cpos)
   in fold (\<lambda>row. fold (\<lambda>col. draw_cell E font s fw cur_row cur_col row col) [0..<80]) [0..<25] out)"

definition render_13h ::
  "'m emu88 \<Rightarrow> ('m, 'h, 'z) video_scheme \<Rightarrow> (nat \<Rightarrow> u32) \<Rightarrow> nat \<Rightarrow> u32" where
  "render_13h E s out = fold (\<lambda>y. fold (\<lambda>x out.
     out(y * 320 + x := dac_to_argb (dac (g s) (mem_readb E (mem s) (0xA0000 + of_nat (y * 320 + x)))))) [0..<320]) [0..<200] out"

definition render ::
  "'m emu88 \<Rightarrow> 'm svga \<Rightarrow> (u8 \<Rightarrow> nat \<Rightarrow> u8) \<Rightarrow> ('m, 'h, 'z) video_scheme \<Rightarrow> (nat \<Rightarrow> u32) \<Rightarrow> (nat \<Rightarrow> u32) \<times> nat \<times> nat" where
  "render E V font s out = (let (fw, fh) = frame_dims s in
     (if vs_active (vs s) then render_vesa V s fw fh out
      else if is_text_mode s then render_text E font s fw out
      else render_13h E s out, fw, fh))"

text \<open>The bytes of \<open>dump_ppm\<close> after its textual header.\<close>

definition ppm_body :: "(nat \<Rightarrow> u32) \<times> nat \<times> nat \<Rightarrow> u8 list" where
  "ppm_body = (\<lambda>(buf, w, h). concat (map (\<lambda>i. [ucast (drop_bit 16 (buf i)), ucast (drop_bit 8 (buf i)), ucast (buf i)]) [0..<w * h]))"

section \<open>VESA BIOS\<close>

definition VBE_ROM_SEG :: u32 where "VBE_ROM_SEG = 0xC000"
definition VBE_ROM_LIN :: u32 where "VBE_ROM_LIN = 0xC0000"
definition VBE_OFF_OEM :: u32 where "VBE_OFF_OEM = 0x0010"
definition VBE_OFF_VENDOR :: u32 where "VBE_OFF_VENDOR = 0x0050"
definition VBE_OFF_PRODUCT :: u32 where "VBE_OFF_PRODUCT = 0x0080"
definition VBE_OFF_REV :: u32 where "VBE_OFF_REV = 0x00C0"
definition VBE_OFF_MODES :: u32 where "VBE_OFF_MODES = 0x0100"

definition rom_put :: "'m emu88 \<Rightarrow> u32 \<Rightarrow> string \<Rightarrow> 'm \<Rightarrow> 'm" where
  "rom_put E off str m = (let bytes = map (\<lambda>c. of_char c :: u8) str @ [0] in
     fold (\<lambda>i. mem_writeb E (VBE_ROM_LIN + off + of_nat i) (bytes ! i)) [0..<length bytes] m)"

definition dosiz_vesa_init_rom :: "'m emu88 \<Rightarrow> 'm \<Rightarrow> 'm" where
  "dosiz_vesa_init_rom E m = (let
     m = mem_writeb E (VBE_ROM_LIN + 0) 0x55 m;
     m = mem_writeb E (VBE_ROM_LIN + 1) 0xAA m;
     m = mem_writeb E (VBE_ROM_LIN + 2) 0x40 m;
     m = rom_put E VBE_OFF_OEM ''S3 Incorporated. Trio64 (emu88)'' m;
     m = rom_put E VBE_OFF_VENDOR ''S3 Incorporated.'' m;
     m = rom_put E VBE_OFF_PRODUCT ''Trio64 (emu88 VESA)'' m;
     m = rom_put E VBE_OFF_REV ''Rev 1.0'' m;
     (mp, m) = fold (\<lambda>i (mp, m). (mp + 2, mem_writew E mp (vm_num (kVesaModes ! i)) m)) [0..<length kVesaModes]
       (VBE_ROM_LIN + VBE_OFF_MODES, m)
   in mem_writew E mp 0xFFFF m)"

definition zero_bytes :: "'m emu88 \<Rightarrow> u32 \<Rightarrow> nat \<Rightarrow> 'm \<Rightarrow> 'm" where
  "zero_bytes E p n m = fold (\<lambda>i. mem_writeb E (p + of_nat i) 0) [0..<n] m"

definition vbe_info :: "'m emu88 \<Rightarrow> u32 \<Rightarrow> 'm \<Rightarrow> 'm" where
  "vbe_info E p m = (let
     rom = (\<lambda>off. push_bit 16 VBE_ROM_SEG OR off);
     m = zero_bytes E p 512 m;
     m = mem_writeb E (p + 3) 0x41 (mem_writeb E (p + 2) 0x53 (mem_writeb E (p + 1) 0x45 (mem_writeb E (p + 0) 0x56 m)));
     m = mem_writew E (p + 0x04) 0x0200 m;
     m = mem_writed E (p + 0x06) (rom VBE_OFF_OEM) m;
     m = mem_writed E (p + 0x0A) 0 m;
     m = mem_writed E (p + 0x0E) (rom VBE_OFF_MODES) m;
     m = mem_writew E (p + 0x12) (ucast (SVGA_VRAM_TOTAL div 65536)) m;
     m = mem_writew E (p + 0x14) 0x0100 m;
     m = mem_writed E (p + 0x16) (rom VBE_OFF_VENDOR) m;
     m = mem_writed E (p + 0x1A) (rom VBE_OFF_PRODUCT) m
   in mem_writed E (p + 0x1E) (rom VBE_OFF_REV) m)"

definition vbe_mask :: "'m emu88 \<Rightarrow> u32 \<Rightarrow> u8 list \<Rightarrow> 'm \<Rightarrow> 'm" where
  "vbe_mask E p mv m = (let
     m = fold (\<lambda>i. mem_writeb E (p + 0x1F + of_nat i) (mv ! i)) [0..<8] m
   in fold (\<lambda>i. mem_writeb E (p + 0x36 + of_nat i) (mv ! i)) [0..<8] m)"

definition vbe_mode_info :: "'m emu88 \<Rightarrow> u32 \<Rightarrow> vesa_mode \<Rightarrow> 'm \<Rightarrow> 'm" where
  "vbe_mode_info E p vm m = (let
     bypp = vesa_bpp_bytes (vm_bpp vm);
     stride = of_nat (vm_w vm) * of_nat bypp :: u32;
     fbsize = stride * of_nat (vm_h vm);
     vram = SVGA_VRAM_TOTAL;
     m = mem_writew E (p + 0x00) 0x009B m;
     m = mem_writeb E (p + 0x02) 0x07 m;
     m = mem_writew E (p + 0x06) 64 (mem_writew E (p + 0x04) 64 m);
     m = mem_writew E (p + 0x08) 0xA000 m;
     m = mem_writew E (p + 0x10) (ucast stride) m;
     m = mem_writew E (p + 0x14) (of_nat (vm_h vm)) (mem_writew E (p + 0x12) (of_nat (vm_w vm)) m);
     m = mem_writeb E (p + 0x17) 16 (mem_writeb E (p + 0x16) 8 m);
     m = mem_writeb E (p + 0x18) 1 m;
     m = mem_writeb E (p + 0x19) (of_nat (vm_bpp vm)) m;
     m = mem_writeb E (p + 0x1A) 1 m;
     m = mem_writeb E (p + 0x1B) (if vm_bpp vm \<le> 8 then 4 else 6) m;
     pages = (if fbsize \<noteq> 0 \<and> vram \<ge> fbsize then ucast (vram div fbsize - 1) else 0);
     m = mem_writeb E (p + 0x1D) pages m;
     m = mem_writeb E (p + 0x1E) 1 m;
     m = (if vm_bpp vm = 15 then vbe_mask E p [5, 10, 5, 5, 5, 0, 1, 15] m
          else if vm_bpp vm = 16 then vbe_mask E p [5, 11, 6, 5, 5, 0, 0, 0] m
          else if vm_bpp vm = 24 then vbe_mask E p [8, 16, 8, 8, 8, 0, 0, 0] m
          else if vm_bpp vm = 32 then vbe_mask E p [8, 16, 8, 8, 8, 0, 8, 24] m
          else m);
     m = mem_writed E (p + 0x28) SVGA_LFB_PHYS m
   in mem_writew E (p + 0x32) (ucast stride) m)"

text \<open>Function 06h, the scan-line length, and function 07h, the display start.\<close>

definition vesa_bytes_pp :: "vesa_state \<Rightarrow> nat" where
  "vesa_bytes_pp v = vesa_bpp_bytes (if vs_bpp v \<noteq> 0 then vs_bpp v else 8)"

definition vesa_pitch :: "vesa_state \<Rightarrow> u32" where
  "vesa_pitch v = (if vs_stride v \<noteq> 0 then of_nat (vs_stride v) else 1)"

definition vesa_want :: "u8 \<Rightarrow> u16 \<Rightarrow> vesa_state \<Rightarrow> u32" where
  "vesa_want bl cx v = (let
     bypp = vesa_bytes_pp v;
     want = (if bl = 0 then ucast cx * of_nat bypp else ucast cx);
     minb = of_nat (vs_xres v) * of_nat bypp
   in if want < minb then minb else want)"

definition vesa_scanline :: "('m, 'h, 'z) video_scheme \<Rightarrow> u16 \<times> ('m, 'h, 'z) video_scheme" where
  "vesa_scanline s = (let
     v = vs s; bypp = vesa_bytes_pp v;
     v = (if vs_active v \<and> (reg_bl s = 0 \<or> reg_bl s = 2) then let
            want = vesa_want (reg_bl s) (reg_cx s) v
          in if vs_yres v > 0 \<and> want * of_nat (vs_yres v) \<le> SVGA_VRAM_TOTAL
             then vesa_set_scanline_bytes (sint want) v else v
          else v);
     st = vesa_pitch v;
     s = s\<lparr>vs := v\<rparr>
   in (0x004F, set_dx (ucast (SVGA_VRAM_TOTAL div st)) (set_cx (ucast (st div of_nat bypp)) (set_bx (ucast st) s))))"

definition vesa_display_start :: "('m, 'h, 'z) video_scheme \<Rightarrow> u16 \<times> ('m, 'h, 'z) video_scheme" where
  "vesa_display_start s = (let
     v = vs s; bypp = of_nat (vesa_bytes_pp v); st = vesa_pitch v; ds = vs_display_start v
   in if reg_bl s = 0x00 \<or> reg_bl s = 0x80 then
        (0x004F, s\<lparr>vs := v\<lparr>vs_display_start := ucast (reg_dx s) * st + ucast (reg_cx s) * bypp\<rparr>\<rparr>)
      else if reg_bl s = 0x01 then
        (0x004F, set_cx (ucast (ds mod st div bypp)) (set_dx (ucast (ds div st)) s))
      else (0x014F, s))"

definition dosiz_int10_vesa ::
  "'m emu88 \<Rightarrow> 'm svga \<Rightarrow> ('m, 'h, 'z) video_scheme \<Rightarrow> u16 \<times> ('m, 'h, 'z) video_scheme" where
  "dosiz_int10_vesa E V s = (let
     p = seg_phys s ES + (if cpu_pmode s then reg_edi s else ucast (reg_di s))
   in if reg_al s = 0x00 then (0x004F, wr (vbe_info E p) s)
      else if reg_al s = 0x01 then
        (case vesa_find (reg_cx s) of
           None \<Rightarrow> (0x014F, wr (zero_bytes E p 256) s)
         | Some vm \<Rightarrow> (0x004F, wr (vbe_mode_info E p vm) (wr (zero_bytes E p 256) s)))
      else if reg_al s = 0x02 then
        (case vesa_set_mode V (reg_bx s) s of (ok, s) \<Rightarrow> (if ok then 0x004F else 0x014F, s))
      else if reg_al s = 0x03 then
        (0x004F, set_bx (if vs_active (vs s) then vesa_mode_number (vs s) OR 0x4000 else ucast (g_mode (g s)) AND 0xFF) s)
      else if reg_al s = 0x05 then
        if reg_bl s \<noteq> 0 then (0x014F, s)
        else if reg_bh s = 0 then (0x004F, wr (set_svga_window_off V (ucast (reg_dx s) * 65536)) s)
        else if reg_bh s = 1 then (0x004F, set_dx (ucast (svga_window_off V (mem s) div 65536)) s)
        else (0x014F, s)
      else if reg_al s = 0x06 then vesa_scanline s
      else if reg_al s = 0x07 then vesa_display_start s
      else if reg_al s = 0x08 then (0x004F, set_bh 6 s)
      else if reg_al s = 0x09 then
        (0x004F, if reg_bl s = 0x00 \<or> reg_bl s = 0x80 then
           s\<lparr>g := fold (\<lambda>i. set_dac (uint (reg_dx s) + int i)
                     (mem_readb E (mem s) (p + of_nat (i * 4) + 2)) (mem_readb E (mem s) (p + of_nat (i * 4) + 1))
                     (mem_readb E (mem s) (p + of_nat (i * 4)))) [0..<unat (reg_cx s)] (g s)\<rparr>
         else s)
      else (0x014F, s))"

section \<open>The video BIOS\<close>

text \<open>\<open>vcell\<close> is the address of row \<open>r\<close>, column \<open>c\<close> of the text screen.\<close>

definition vcell :: "nat \<Rightarrow> nat \<Rightarrow> u32" where
  "vcell r c = 0xB8000 + of_nat (r * 80 + c) * 2"

definition blank_rows :: "'m emu88 \<Rightarrow> u8 \<Rightarrow> nat list \<Rightarrow> nat list \<Rightarrow> 'm \<Rightarrow> 'm" where
  "blank_rows E attr rows cols m =
     fold (\<lambda>r. fold (\<lambda>c m. mem_writeb E (vcell r c + 1) attr (mem_writeb E (vcell r c) 0x20 m)) cols) rows m"

definition scroll_window ::
  "'m emu88 \<Rightarrow> bool \<Rightarrow> u8 \<Rightarrow> nat \<Rightarrow> nat \<Rightarrow> nat \<Rightarrow> nat \<Rightarrow> nat \<Rightarrow> 'm \<Rightarrow> 'm" where
  "scroll_window E up attr lines tp left bt right m = (let
     bt = (if bt > 24 then 24 else bt);
     right = (if right > 79 then 79 else right);
     cols = [left..<right + 1]
   in if tp > bt \<or> left > right then m
      else if lines = 0 \<or> lines \<ge> bt - tp + 1 then blank_rows E attr [tp..<bt + 1] cols m
      else if up then
        blank_rows E attr [bt - lines + 1..<bt + 1] cols
          (fold (\<lambda>r. fold (\<lambda>c m. mem_writew E (vcell r c) (mem_readw E m (vcell (r + lines) c)) m) cols) [tp..<bt - lines + 1] m)
      else
        blank_rows E attr [tp..<tp + lines] cols
          (fold (\<lambda>r. fold (\<lambda>c m. mem_writew E (vcell r c) (mem_readw E m (vcell (r - lines) c)) m) cols) (rev [tp + lines..<bt + 1]) m))"

definition write_chars :: "'m emu88 \<Rightarrow> u8 \<Rightarrow> u8 \<Rightarrow> nat \<Rightarrow> nat \<Rightarrow> nat \<Rightarrow> 'm \<Rightarrow> 'm" where
  "write_chars E ch attr row col n m =
     fold (\<lambda>i m. mem_writeb E (vcell row (col + i) + 1) attr (mem_writeb E (vcell row (col + i)) ch m)) [0..<min n (80 - col)] m"

definition dosiz_int10 ::
  "'m emu88 \<Rightarrow> 'h os \<Rightarrow> 'm svga \<Rightarrow> ('m, 'h, 'z) video_scheme \<Rightarrow> ('m, 'h, 'z) video_scheme" where
  "dosiz_int10 E OS V s =
    (if reg_ah s = 0x00 then let
       s = set_mode E V (reg_al s AND 0x7F) s;
       s = wr (mem_writeb E 0x449 (reg_al s AND 0x7F)) s;
       s = wr (mem_writew E 0x44A (if g_mode (g s) = 0x13 then 40 else 80)) s;
       s = wr (mem_writew E 0x450 0) s
     in s\<lparr>g_text_attr := 0x07\<rparr>
     else if reg_ah s = 0x02 then wr (mem_writew E 0x450 (push_bit 8 (ucast (reg_dh s)) OR ucast (reg_dl s))) s
     else if reg_ah s = 0x03 then set_cx 0x0607 (set_dx (mem_readw E (mem s) 0x450) s)
     else if reg_ah s = 0x06 \<or> reg_ah s = 0x07 then
       wr (scroll_window E (reg_ah s = 0x06) (reg_bh s) (unat (reg_al s)) (unat (reg_ch s)) (unat (reg_cl s))
             (unat (reg_dh s)) (unat (reg_dl s))) s
     else if reg_ah s = 0x08 then let
       p = mem_readw E (mem s) 0x450; a = vcell (unat (hi8 p)) (unat (lo8 p))
     in set_ah (mem_readb E (mem s) (a + 1)) (set_al (mem_readb E (mem s) a) s)
     else if reg_ah s = 0x09 \<or> reg_ah s = 0x0A then let
       p = mem_readw E (mem s) 0x450;
       attr = (if reg_ah s = 0x09 then reg_bl s else g_text_attr s);
       n = (if reg_cx s \<noteq> 0 then unat (reg_cx s) else 1)
     in wr (write_chars E (reg_al s) attr (unat (hi8 p)) (unat (lo8 p)) n) s
     else if reg_ah s = 0x0E then
       if g_windowed s then wr (screen_putchar E (g_text_attr s) (reg_al s)) s
       else sysu (os_fflush OS) (sysu (os_fputc OS (reg_al s)) s)
     else if reg_ah s = 0x0F then
       set_bh 0 (set_ah (if g_mode (g s) = 0x13 then 40 else 80) (set_al (g_mode (g s)) s))
     else if reg_ah s = 0x10 then
       if reg_al s = 0x10 then s\<lparr>g := set_dac (uint (reg_bx s)) (reg_dh s) (reg_ch s) (reg_cl s) (g s)\<rparr>
       else if reg_al s = 0x12 then let t = seg_phys s ES + ucast (reg_dx s) in
         s\<lparr>g := fold (\<lambda>i. set_dac (uint (reg_bx s) + int i) (mem_readb E (mem s) (t + of_nat (i * 3)))
             (mem_readb E (mem s) (t + of_nat (i * 3) + 1)) (mem_readb E (mem s) (t + of_nat (i * 3) + 2)))
           [0..<unat (reg_cx s)] (g s)\<rparr>
       else s
     else if reg_ah s = 0x1A then (if reg_al s = 0x1A then set_bx 0x0008 (set_al 0x1A s) else s)
     else if reg_ah s = 0x4F then (case dosiz_int10_vesa E V s of (v, s) \<Rightarrow> set_ax v s)
     else s)"

section \<open>The mouse driver\<close>

text \<open>\<open>(int)\<close> of a \<open>long long\<close>.\<close>

definition int_cast :: "int \<Rightarrow> int" where
  "int_cast x = sint (word_of_int x :: u32)"

definition clamp :: "int \<Rightarrow> int \<Rightarrow> int \<Rightarrow> int" where
  "clamp lo hi x = (let x = (if x < lo then lo else x) in if x > hi then hi else x)"

definition mouse_to_virtual :: "int \<Rightarrow> int \<Rightarrow> ('m, 'h, 'z) video_scheme \<Rightarrow> int \<times> int" where
  "mouse_to_virtual hx hy s = (let
     (w, h) = frame_dims s; m = g_mouse s;
     x = (if w > 1 then min_x m + int_cast (hx * (max_x m - min_x m) sdiv (int w - 1)) else min_x m);
     y = (if h > 1 then min_y m + int_cast (hy * (max_y m - min_y m) sdiv (int h - 1)) else min_y m)
   in (clamp (min_x m) (max_x m) x, clamp (min_y m) (max_y m) y))"

definition button_edge :: "u32 \<Rightarrow> int \<Rightarrow> int \<Rightarrow> nat \<Rightarrow> mouse_state \<Rightarrow> mouse_state" where
  "button_edge buttons vx vy b m = (let
     m = (if bit buttons b \<and> \<not> bit (host_buttons m) b
          then m\<lparr>press_count := (press_count m)(b := press_count m b + 1), press_x := (press_x m)(b := vx), press_y := (press_y m)(b := vy)\<rparr>
          else m)
   in if \<not> bit buttons b \<and> bit (host_buttons m) b
      then m\<lparr>release_count := (release_count m)(b := release_count m b + 1), release_x := (release_x m)(b := vx), release_y := (release_y m)(b := vy)\<rparr>
      else m)"

definition dosiz_mouse_event :: "int \<Rightarrow> int \<Rightarrow> u32 \<Rightarrow> ('m, 'h, 'z) video_scheme \<Rightarrow> ('m, 'h, 'z) video_scheme" where
  "dosiz_mouse_event hx hy buttons s = (let
     s = s\<lparr>g_mouse := (g_mouse s)\<lparr>host_x := hx, host_y := hy\<rparr>\<rparr>;
     (vx, vy) = mouse_to_virtual hx hy s;
     m = fold (button_edge buttons vx vy) [0..<3] (g_mouse s)
   in s\<lparr>g_mouse := m\<lparr>host_buttons := buttons\<rparr>\<rparr>)"

definition mouse_set_position :: "('m, 'h, 'z) video_scheme \<Rightarrow> mouse_state \<Rightarrow> mouse_state" where
  "mouse_set_position s m = (let
     (w, h) = frame_dims s;
     rx = max_x m - min_x m; ry = max_y m - min_y m
   in m\<lparr>host_x := (if rx > 0 then int_cast ((uint (reg_cx s) - min_x m) * (int w - 1) sdiv rx) else 0),
        host_y := (if ry > 0 then int_cast ((uint (reg_dx s) - min_y m) * (int h - 1) sdiv ry) else 0)\<rparr>)"

definition mouse_button :: "u16 \<Rightarrow> nat" where
  "mouse_button bx = (let btn = unat (bx AND 3) in if btn > 2 then 0 else btn)"

definition dosiz_int33 :: "('m, 'h, 'z) video_scheme \<Rightarrow> ('m, 'h, 'z) video_scheme" where
  "dosiz_int33 s = (let
     (vx, vy) = mouse_to_virtual (host_x (g_mouse s)) (host_y (g_mouse s)) s;
     m = (g_mouse s)\<lparr>mouse_x := vx, mouse_y := vy, mouse_buttons := host_buttons (g_mouse s)\<rparr>;
     s = s\<lparr>g_mouse := m\<rparr>;
     upd = (\<lambda>m s. s\<lparr>g_mouse := m\<rparr>)
   in if reg_ax s = 0x0000 then
        if \<not> g_windowed s then set_bx 0 (set_ax 0 s)
        else set_bx 3 (set_ax 0xFFFF (upd (m\<lparr>mouse_visible := False, min_x := 0, max_x := 639, min_y := 0, max_y := 199,
               press_count := (press_count m)(0 := 0, 1 := 0, 2 := 0),
               release_count := (release_count m)(0 := 0, 1 := 0, 2 := 0)\<rparr>) s))
      else if reg_ax s = 0x0001 then upd (m\<lparr>mouse_visible := True\<rparr>) s
      else if reg_ax s = 0x0002 then upd (m\<lparr>mouse_visible := False\<rparr>) s
      else if reg_ax s = 0x0003 then
        set_dx (word_of_int (mouse_y m)) (set_cx (word_of_int (mouse_x m)) (set_bx (ucast (mouse_buttons m)) s))
      else if reg_ax s = 0x0004 then upd (mouse_set_position s m) s
      else if reg_ax s = 0x0005 then let btn = mouse_button (reg_bx s) in
        upd (m\<lparr>press_count := (press_count m)(btn := 0)\<rparr>)
         (set_dx (word_of_int (press_y m btn)) (set_cx (word_of_int (press_x m btn))
         (set_bx (word_of_int (press_count m btn)) (set_ax (ucast (mouse_buttons m)) s))))
      else if reg_ax s = 0x0006 then let btn = mouse_button (reg_bx s) in
        upd (m\<lparr>release_count := (release_count m)(btn := 0)\<rparr>)
         (set_dx (word_of_int (release_y m btn)) (set_cx (word_of_int (release_x m btn))
         (set_bx (word_of_int (release_count m btn)) (set_ax (ucast (mouse_buttons m)) s))))
      else if reg_ax s = 0x0007 then upd (m\<lparr>min_x := sint (reg_cx s), max_x := sint (reg_dx s)\<rparr>) s
      else if reg_ax s = 0x0008 then upd (m\<lparr>min_y := sint (reg_cx s), max_y := sint (reg_dx s)\<rparr>) s
      else if reg_ax s = 0x000B then set_dx 0 (set_cx 0 s)
      else s)"

section \<open>The pointer\<close>

definition kCursorArrow :: "string list" where
  "kCursorArrow =
    [''X          '', ''XX         '', ''XoX        '', ''XooX       '',
     ''XoooX      '', ''XooooX     '', ''XoooooX    '', ''XooooooX   '',
     ''XoooooooX  '', ''XoooooXXXXX'', ''XooXooX    '', ''XoX XooX   '',
     ''XX  XooX   '', ''X    XooX  '', ''     XooX  '', ''      XX   '']"

definition dosiz_draw_cursor :: "('m, 'h, 'z) video_scheme \<Rightarrow> nat \<Rightarrow> nat \<Rightarrow> (nat \<Rightarrow> u32) \<Rightarrow> nat \<Rightarrow> u32" where
  "dosiz_draw_cursor s w h buf = (if \<not> mouse_visible (g_mouse s) then buf else
     fold (\<lambda>r buf. let row = kCursorArrow ! r; py = host_y (g_mouse s) + int r in
       if py < 0 \<or> py \<ge> int h then buf
       else fold (\<lambda>c buf. let px = host_x (g_mouse s) + int c in
         if px < 0 \<or> px \<ge> int w \<or> row ! c = CHR '' '' then buf
         else buf(nat py * w + nat px := (if row ! c = CHR ''X'' then 0xFF000000 else 0xFFFFFFFF))) [0..<length row] buf) [0..<16] buf)"

section \<open>The palette ports\<close>

lemma port_3C9:
  "video_port_out 0x3C9 b v = v\<lparr>dac := (dac v)(dac_widx v := (dac v (dac_widx v))(dac_comp v := b AND 0x3F)),
     dac_widx := (if dac_comp v + 1 \<ge> 3 then dac_widx v + 1 else dac_widx v),
     dac_comp := (if dac_comp v + 1 \<ge> 3 then 0 else dac_comp v + 1)\<rparr>"
  "video_port_in 0x3C9 v = (dac v (dac_ridx v) (dac_rcomp v), v\<lparr>
     dac_ridx := (if dac_rcomp v + 1 \<ge> 3 then dac_ridx v + 1 else dac_ridx v),
     dac_rcomp := (if dac_rcomp v + 1 \<ge> 3 then 0 else dac_rcomp v + 1)\<rparr>)"
  by (simp_all add: video_port_out_def video_port_in_def Let_def)

lemma comp_step:
  assumes "k < 3"
  shows "(3 :: u8) \<le> of_nat k + 1 \<longleftrightarrow> k = 2" and "(3 :: u8) \<le> 1 + of_nat k \<longleftrightarrow> k = 2"
proof -
  have "unat (of_nat k + 1 :: u8) = k + 1"
    using assms unat_of_nat_u8 [of "Suc k"] by (simp add: add.commute)
  then show "(3 :: u8) \<le> of_nat k + 1 \<longleftrightarrow> k = 2" using assms by (auto simp: word_le_nat_alt)
  then show "(3 :: u8) \<le> 1 + of_nat k \<longleftrightarrow> k = 2" by (simp add: add.commute)
qed

fun dac_reads :: "nat \<Rightarrow> vga_state \<Rightarrow> u8 list \<times> vga_state" where
  "dac_reads 0 v = ([], v)"
| "dac_reads (Suc n) v = (let (b, v) = video_port_in 0x3C9 v; (bs, v) = dac_reads n v in (b # bs, v))"

lemma mod3_Suc:
  "Suc k div 3 = (if k mod 3 = 2 then Suc (k div 3) else k div 3)"
  "Suc k mod 3 = (if k mod 3 = 2 then 0 else Suc (k mod 3))"
  by presburger+

lemma div3_iff: "c < 3 \<Longrightarrow> u = k div 3 \<and> c = k mod 3 \<longleftrightarrow> 3 * u + c = k" for u c k :: nat
  using mult_div_mod_eq [of 3 k] by auto

lemma dac_writes_state:
  fixes i :: u8 and v :: vga_state
  assumes "length bs \<le> 768"
  defines "w \<equiv> fold (video_port_out 0x3C9) bs (video_port_out 0x3C8 i v)"
  shows "dac_widx w = i + of_nat (length bs div 3) \<and> dac_comp w = of_nat (length bs mod 3)
    \<and> (\<forall>j. \<forall>c<3. dac w j (of_nat c) =
        (if 3 * unat (j - i) + c < length bs then bs ! (3 * unat (j - i) + c) AND 0x3F else dac v j (of_nat c)))"
  using assms(1) unfolding w_def
proof (induction bs rule: rev_induct)
  case Nil
  then show ?case by (simp add: video_port_out_def)
next
  case (snoc b bs)
  let ?u = "fold (video_port_out 0x3C9) bs (video_port_out 0x3C8 i v)"
  let ?k = "length bs"
  have IH: "dac_widx ?u = i + of_nat (?k div 3)" "dac_comp ?u = of_nat (?k mod 3)"
    "\<And>j c. c < 3 \<Longrightarrow> dac ?u j (of_nat c) =
        (if 3 * unat (j - i) + c < ?k then bs ! (3 * unat (j - i) + c) AND 0x3F else dac v j (of_nat c))"
    using snoc by simp_all
  have q: "?k div 3 < 256" using snoc.prems by simp
  have here: "j = i + of_nat (?k div 3) \<longleftrightarrow> unat (j - i) = ?k div 3" for j :: u8
  proof -
    have "j = i + of_nat (?k div 3) \<longleftrightarrow> j - i = of_nat (?k div 3)" by (auto simp: diff_eq_eq add.commute)
    then show ?thesis using q by (simp add: word_unat_eq_iff unat_of_nat_u8)
  qed
  have comp: "(of_nat c :: u8) = of_nat (?k mod 3) \<longleftrightarrow> c = ?k mod 3" if "c < 3" for c
  proof -
    have "?k mod 3 < 256" by (rule less_trans [of _ 3]) simp_all
    with that show ?thesis by (simp add: word_unat_eq_iff unat_of_nat_u8)
  qed
  have pos: "unat (j - i) = ?k div 3 \<and> c = ?k mod 3 \<longleftrightarrow> 3 * unat (j - i) + c = ?k" if "c < 3" for j :: u8 and c
    using that by (rule div3_iff)
  have dac': "dac (video_port_out 0x3C9 b ?u) j (of_nat c) =
      (if 3 * unat (j - i) + c = ?k then b AND 0x3F else dac ?u j (of_nat c))" if "c < 3" for j c
    using that here [of j] pos [OF that, of j]
    by (cases "j = i + of_nat (?k div 3)") (auto simp: port_3C9 IH(1,2) comp)
  have "?k mod 3 < 3" by simp
  note step = comp_step [OF this]
  have "dac_widx (video_port_out 0x3C9 b ?u) = i + of_nat (Suc ?k div 3) \<and>
      dac_comp (video_port_out 0x3C9 b ?u) = of_nat (Suc ?k mod 3)"
    by (simp add: port_3C9 IH(1,2) step mod3_Suc add.commute [of "of_nat _" 1] add.assoc)
  moreover have "dac (video_port_out 0x3C9 b ?u) j (of_nat c) =
      (if 3 * unat (j - i) + c < Suc ?k then (bs @ [b]) ! (3 * unat (j - i) + c) AND 0x3F else dac v j (of_nat c))"
    if "c < 3" for j c
    by (simp add: dac' [OF that] IH(3) [OF that] nth_append less_Suc_eq)
  ultimately show ?case by simp
qed

lemma dac_reads_values:
  assumes "dac_ridx v = i + of_nat (k div 3)" and "dac_rcomp v = of_nat (k mod 3)"
  shows "fst (dac_reads n v) = map (\<lambda>m. dac v (i + of_nat (m div 3)) (of_nat (m mod 3))) [k..<k + n]"
  using assms
proof (induction n arbitrary: k v)
  case (Suc n)
  let ?v = "snd (video_port_in 0x3C9 v)"
  have "k mod 3 < 3" by simp
  note step = comp_step [OF this]
  have "dac_ridx ?v = i + of_nat (Suc k div 3)" "dac_rcomp ?v = of_nat (Suc k mod 3)" "dac ?v = dac v"
    using Suc.prems by (simp_all add: port_3C9 step mod3_Suc add.commute [of "of_nat _" 1] add.assoc)
  then have "fst (dac_reads n ?v) = map (\<lambda>m. dac v (i + of_nat (m div 3)) (of_nat (m mod 3))) [Suc k..<Suc k + n]"
    using Suc.IH by simp
  moreover have "fst (video_port_in 0x3C9 v) = dac v (i + of_nat (k div 3)) (of_nat (k mod 3))"
    using Suc.prems by (simp add: port_3C9)
  moreover have "[k..<k + Suc n] = k # [Suc k..<Suc k + n]" by (simp add: upt_conv_Cons del: upt_Suc)
  ultimately show ?case by (simp add: Let_def case_prod_unfold del: upt_Suc)
qed simp

text \<open>C35: up to 256 colours written through the palette ports (index to 3C8h, components to 3C9h) are read back
  from the same index (3C7h, then 3C9h), each component cut to six bits and the index wrapping at 256; palette
  components that were not written keep their values.\<close>

theorem dac_ports_roundtrip:
  fixes i :: u8 and v :: vga_state
  assumes "length bs \<le> 768"
  defines "w \<equiv> fold (video_port_out 0x3C9) bs (video_port_out 0x3C8 i v)"
  shows "fst (dac_reads (length bs) (video_port_out 0x3C7 i w)) = map (\<lambda>b. b AND 0x3F) bs
    \<and> (\<forall>j. \<forall>c<3. length bs \<le> 3 * unat (j - i) + c \<longrightarrow> dac w j (of_nat c) = dac v j (of_nat c))"
proof -
  note st = dac_writes_state [OF assms(1), of i v, folded w_def]
  have "dac_ridx (video_port_out 0x3C7 i w) = i + of_nat (0 div 3)" "dac_rcomp (video_port_out 0x3C7 i w) = of_nat (0 mod 3)"
    "dac (video_port_out 0x3C7 i w) = dac w"
    by (simp_all add: video_port_out_def)
  note reads = dac_reads_values [OF this(1,2), of "length bs", unfolded this(3)]
  have "dac w (i + of_nat (m div 3)) (of_nat (m mod 3)) = bs ! m AND 0x3F" if "m < length bs" for m
  proof -
    have "m div 3 < 256" using that assms(1) by simp
    then have "unat ((i + of_nat (m div 3)) - i) = m div 3" by (simp add: unat_of_nat_u8)
    moreover have "m mod 3 < 3" by simp
    ultimately show ?thesis using st that by simp
  qed
  then have "map (\<lambda>m. dac w (i + of_nat (m div 3)) (of_nat (m mod 3))) [0..<0 + length bs] = map (\<lambda>b. b AND 0x3F) bs"
    by (intro nth_equalityI) simp_all
  with reads st show ?thesis by simp
qed

text \<open>Three colours from entry FEh: the third wraps to entry 0.\<close>

definition sample_rgb :: "u8 list" where
  "sample_rgb = [1, 2, 3, 4, 5, 6, 7, 8, 0x49]"

definition sample_vga :: vga_state where
  "sample_vga = \<lparr>g_mode = 3, dac = (\<lambda>_ _. 0), dac_widx = 0, dac_comp = 0, dac_ridx = 0, dac_rcomp = 0, pel_mask = 0xFF\<rparr>"

lemma dac_ports_roundtrip_witness:
  "fst (dac_reads 9 (video_port_out 0x3C7 0xFE (fold (video_port_out 0x3C9) sample_rgb (video_port_out 0x3C8 0xFE sample_vga))))
    = [1, 2, 3, 4, 5, 6, 7, 8, 9]"
proof -
  have "length sample_rgb = 9" "map (\<lambda>b. b AND 0x3F) sample_rgb = [1, 2, 3, 4, 5, 6, 7, 8, 9]"
    by (simp_all add: sample_rgb_def)
  with dac_ports_roundtrip [where bs = sample_rgb and i = "0xFE" and v = sample_vga]
  show ?thesis by (simp del: dac_reads.simps)
qed

section \<open>Frames\<close>

lemma fold_unchanged:
  assumes "\<And>x b. x \<in> set xs \<Longrightarrow> f x b p = b p"
  shows "fold f xs b p = b p"
  using assms by (induction xs arbitrary: b) simp_all

lemma fold_pixel:
  assumes "x \<in> set xs" and "distinct xs" and "\<And>b. f x b p = v" and "\<And>z b. \<lbrakk>z \<in> set xs; z \<noteq> x\<rbrakk> \<Longrightarrow> f z b p = b p"
  shows "fold f xs b p = v"
  using assms
proof (induction xs arbitrary: b)
  case (Cons z zs)
  show ?case
  proof (cases "z = x")
    case True
    then have "fold f zs (f z b) p = f z b p" using Cons.prems by (intro fold_unchanged) auto
    with True Cons.prems(3) show ?thesis by simp
  next
    case False
    with Cons show ?thesis by simp
  qed
qed simp

text \<open>Pixel (\<open>y\<close>, \<open>x\<close>) of the 640 pixel wide text frame lies in one cell, at one place.\<close>

lemma text_pixel:
  fixes x y row col gx gy :: nat
  assumes "x < 640" and "col < 80" and "gx < 8" and "gy < 16"
  shows "(row * 16 + gy) * 640 + col * 8 + gx = y * 640 + x \<longleftrightarrow> y div 16 = row \<and> y mod 16 = gy \<and> x div 8 = col \<and> x mod 8 = gx"
    (is "?l \<longleftrightarrow> ?r")
proof
  assume ?l
  then have eq: "(row * 16 + gy) * 640 + (col * 8 + gx) = y * 640 + x" by simp
  have "col * 8 + gx < 640" using assms by simp
  with assms(1) have "((row * 16 + gy) * 640 + (col * 8 + gx)) div 640 = row * 16 + gy" "(y * 640 + x) div 640 = y"
    by (simp_all only: div_mult_self3 div_less)
  with eq have "row * 16 + gy = y" by argo
  moreover from this eq have "col * 8 + gx = x" by simp
  ultimately have "row * 16 + gy = y" "col * 8 + gx = x" by simp_all
  then show ?r using assms by auto
next
  assume ?r
  then have "y = row * 16 + gy" "x = col * 8 + gx"
    using div_mult_mod_eq [of y 16] div_mult_mod_eq [of x 8] by simp_all
  then show ?l by simp
qed

lemma draw_rows_pixel:
  assumes "x < 640" and "col < 80" and "set gys \<subseteq> {..<16}" and "distinct gys"
  shows "draw_rows 640 row col gys colour out (y * 640 + x) =
    (if y div 16 = row \<and> x div 8 = col \<and> y mod 16 \<in> set gys then colour (y mod 16) (x mod 8) else out (y * 640 + x))"
proof -
  let ?f = "\<lambda>gy gx (out :: nat \<Rightarrow> u32). out((row * 16 + gy) * 640 + col * 8 + gx := colour gy gx)"
  have off: "?f gy gx b (y * 640 + x) = b (y * 640 + x)"
    if "\<not> (y div 16 = row \<and> y mod 16 = gy \<and> x div 8 = col \<and> x mod 8 = gx)" "gy \<in> set gys" "gx \<in> set [0..<8]" for gy gx b
    using that assms text_pixel [of x col gx gy row y] by auto
  have on: "?f (y mod 16) (x mod 8) b (y * 640 + x) = colour (y mod 16) (x mod 8)"
    if "y div 16 = row" "x div 8 = col" for b
    using that assms text_pixel [of x col "x mod 8" "y mod 16" row y] by simp
  have line_off: "fold (?f gy) [0..<8] b (y * 640 + x) = b (y * 640 + x)"
    if "gy \<in> set gys" "\<not> (y div 16 = row \<and> x div 8 = col \<and> y mod 16 = gy)" for gy b
    using that off by (intro fold_unchanged) blast
  show ?thesis
  proof (cases "y div 16 = row \<and> x div 8 = col \<and> y mod 16 \<in> set gys")
    case True
    have "fold (?f (y mod 16)) [0..<8] b (y * 640 + x) = colour (y mod 16) (x mod 8)" for b
      using True on off by (intro fold_pixel [of "x mod 8"]) auto
    with True assms(4) line_off show ?thesis
      unfolding draw_rows_def by (subst fold_pixel [of "y mod 16"]) auto
  next
    case False
    with line_off show ?thesis unfolding draw_rows_def by (subst fold_unchanged) auto
  qed
qed

text \<open>What a character cell shows.\<close>

definition text_fg :: "'m emu88 \<Rightarrow> ('m, 'h, 'z) video_scheme \<Rightarrow> nat \<Rightarrow> nat \<Rightarrow> u32" where
  "text_fg E s row col = dac_to_argb (dac (g s) (mem_readb E (mem s) (cell (row * 80 + col) + 1) AND 0x0F))"

definition text_bg :: "'m emu88 \<Rightarrow> ('m, 'h, 'z) video_scheme \<Rightarrow> nat \<Rightarrow> nat \<Rightarrow> u32" where
  "text_bg E s row col = dac_to_argb (dac (g s) (drop_bit 4 (mem_readb E (mem s) (cell (row * 80 + col) + 1)) AND 0x07))"

definition text_at :: "'m emu88 \<Rightarrow> (u8 \<Rightarrow> nat \<Rightarrow> u8) \<Rightarrow> ('m, 'h, 'z) video_scheme \<Rightarrow> nat \<Rightarrow> nat \<Rightarrow> u32" where
  "text_at E font s y x = (let row = y div 16; col = x div 8; cpos = mem_readw E (mem s) 0x450 in
     if row = unat (hi8 cpos) \<and> col = unat (lo8 cpos) \<and> 13 \<le> y mod 16
       \<or> bit (font (mem_readb E (mem s) (cell (row * 80 + col))) (y mod 16)) (7 - x mod 8)
     then text_fg E s row col else text_bg E s row col)"

lemma glyph_bit: "gx < 8 \<Longrightarrow> (v :: u8) AND drop_bit gx 0x80 \<noteq> 0 \<longleftrightarrow> bit v (7 - gx)"
proof -
  assume "gx < 8"
  then have "drop_bit gx (0x80 :: u8) = 2 ^ (7 - gx)"
    using drop_bit_exp_eq [of gx 7, where 'a = "8 word"] by (auto simp: of_bool_def)
  then show ?thesis by (simp add: and_exp_eq_0_iff_not_bit)
qed

lemma draw_cell_pixel:
  assumes "x < 640" and "col < 80"
  shows "draw_cell E font s 640 (unat (hi8 (mem_readw E (mem s) 0x450))) (unat (lo8 (mem_readw E (mem s) 0x450))) row col out (y * 640 + x) =
    (if y div 16 = row \<and> x div 8 = col then text_at E font s y x else out (y * 640 + x))"
proof -
  define cr where "cr = unat (hi8 (mem_readw E (mem s) 0x450))"
  define cc where "cc = unat (lo8 (mem_readw E (mem s) 0x450))"
  have "set [0..<16] \<subseteq> {..<16 :: nat}" "set [13..<16] \<subseteq> {..<16 :: nat}" by (auto simp del: upt_rec_numeral)
  note px = draw_rows_pixel [OF assms(1) _ this(1) distinct_upt] draw_rows_pixel [OF assms(1) _ this(2) distinct_upt]
  show ?thesis
  proof (cases "y div 16 = row \<and> x div 8 = col")
    case False
    then show ?thesis
      unfolding draw_cell_def Let_def cr_def [symmetric] cc_def [symmetric]
      using assms(2) by (cases "row = cr \<and> col = cc") (auto simp: px simp del: upt_rec_numeral)
  next
    case True
    then have row: "row = y div 16" and col: "col = x div 8" by simp_all
    have at: "text_at E font s y x = (if (row = cr \<and> col = cc) \<and> 13 \<le> y mod 16
       \<or> bit (font (mem_readb E (mem s) (cell (row * 80 + col))) (y mod 16)) (7 - x mod 8)
       then text_fg E s row col else text_bg E s row col)"
      by (simp add: text_at_def Let_def row col cr_def cc_def)
    show ?thesis
      unfolding at draw_cell_def Let_def cr_def [symmetric] cc_def [symmetric]
      using True assms(2) by (cases "row = cr \<and> col = cc")
        (simp_all add: px glyph_bit text_fg_def text_bg_def del: upt_rec_numeral)
  qed
qed

text \<open>C39: in text mode the loops over rows, columns, scan lines and glyph bits of \<open>render\<close> fill every pixel of the
  640x400 frame with what the declarative picture says (the cell's foreground where the glyph has a bit or the
  block cursor covers the line, its background elsewhere) and write no pixel outside the frame.\<close>

theorem render_text_frame:
  assumes "\<not> vs_active (vs s)" and "g_mode (g s) \<noteq> 0x13"
  shows "\<exists>buf. render E V font s out = (buf, 640, 400)
    \<and> (\<forall>y<400. \<forall>x<640. buf (y * 640 + x) = text_at E font s y x) \<and> (\<forall>i\<ge>640 * 400. buf i = out i)"
proof -
  let ?cell = "draw_cell E font s 640 (unat (hi8 (mem_readw E (mem s) 0x450))) (unat (lo8 (mem_readw E (mem s) 0x450)))"
  have "render_text E font s 640 out (y * 640 + x) = text_at E font s y x" if "x < 640" "y < 400" for x y
  proof -
    have r: "y div 16 \<in> set [0..<25]" and c: "x div 8 \<in> set [0..<80]" using that by auto
    have line: "fold (?cell row) [0..<80] b (y * 640 + x) = (if y div 16 = row then text_at E font s y x else b (y * 640 + x))" for row b
    proof (cases "y div 16 = row")
      case True
      with that c have "fold (?cell row) [0..<80] b (y * 640 + x) = text_at E font s y x"
        by (intro fold_pixel [OF c distinct_upt]) (simp_all add: draw_cell_pixel del: upt_rec_numeral)
      with True show ?thesis by simp
    next
      case False
      with that have "fold (?cell row) [0..<80] b (y * 640 + x) = b (y * 640 + x)"
        by (intro fold_unchanged) (simp add: draw_cell_pixel del: upt_rec_numeral)
      with False show ?thesis by simp
    qed
    show ?thesis unfolding render_text_def Let_def
      by (rule fold_pixel [OF r distinct_upt]) (simp_all only: line, simp_all)
  qed
  moreover have "render_text E font s 640 out i = out i" if "640 * 400 \<le> i" for i
  proof -
    have "400 \<le> i div 640" using that by simp
    then have "25 \<le> i div 640 div 16" by simp
    then have "?cell row col b i = b i" if "row < 25" "col < 80" for row col b
      using draw_cell_pixel [of "i mod 640" col E font s row b "i div 640"] that by simp
    then show ?thesis unfolding render_text_def Let_def
      by (intro fold_unchanged) (simp del: upt_rec_numeral)
  qed
  ultimately show ?thesis using assms by (simp add: render_def frame_dims_def is_text_mode_def)
qed

section \<open>Bounds of the SVGA frame\<close>

text \<open>
  The active mode fits the advertised 8 MiB at its scan-line length, and the display start is small enough that no
  pixel offset wraps.
\<close>

definition vesa_ok :: "vesa_state \<Rightarrow> bool" where
  "vesa_ok v \<longleftrightarrow> vs_stride v \<le> 41943 \<and> unat (vs_display_start v) \<le> 65535 * 41943 + 65535 * 4
    \<and> (vs_active v \<longrightarrow> vs_xres v \<le> 1280 \<and> 200 \<le> vs_yres v \<and> vs_yres v \<le> 1024 \<and> vs_bpp v \<noteq> 0
         \<and> vs_xres v * vesa_bpp_bytes (vs_bpp v) \<le> vs_stride v \<and> vs_stride v * vs_yres v \<le> 8388608)"

lemma bpp_bytes_range: "1 \<le> vesa_bpp_bytes b" "vesa_bpp_bytes b \<le> 4"
  by (simp_all add: vesa_bpp_bytes_def)

lemma kVesaModes_fit:
  "\<forall>m\<in>set kVesaModes. 0 < vm_w m \<and> vm_w m \<le> 1280 \<and> 200 \<le> vm_h m \<and> vm_h m \<le> 1024 \<and> vm_bpp m \<noteq> 0
    \<and> vm_w m * vesa_bpp_bytes (vm_bpp m) \<le> 41943 \<and> vm_w m * vesa_bpp_bytes (vm_bpp m) * vm_h m \<le> 8388608"
  by (simp add: kVesaModes_def vesa_bpp_bytes_def)

lemma vesa_find_mem: "vesa_find n = Some m \<Longrightarrow> m \<in> set kVesaModes"
  by (auto simp: vesa_find_def find_Some_iff)

lemma video_frame [simp]:
  "vs (wr f s) = vs s" "vs (set_ax x s) = vs s" "vs (set_bx x s) = vs s" "vs (set_cx x s) = vs s" "vs (set_dx x s) = vs s"
  "vs (set_ah b s) = vs s" "vs (set_al b s) = vs s" "vs (set_bh b s) = vs s" "vs (sysu k s) = vs s"
  by (simp_all add: reg_defs wr_def sysu_def)

lemma vesa_ok_mode: "vesa_ok (vs s) \<Longrightarrow> vesa_ok (vs (snd (vesa_set_mode V n s)))"
  using kVesaModes_fit [rule_format, OF vesa_find_mem, of n]
  by (auto simp: vesa_set_mode_def Let_def vesa_ok_def SVGA_VRAM_TOTAL_def split: option.split)

lemma vesa_ok_legacy: "vesa_ok (vs s) \<Longrightarrow> vesa_ok (vs (set_mode E V mode s))"
  by (simp add: set_mode_def Let_def vesa_ok_def del: upt_rec_numeral)

lemma vesa_want_range:
  assumes "vesa_ok v" and "vs_active v"
  shows "vs_xres v * vesa_bpp_bytes (vs_bpp v) \<le> unat (vesa_want bl cx v) \<and> unat (vesa_want bl cx v) \<le> 65535 * 4"
proof -
  let ?b = "vesa_bytes_pp v"
  have b: "?b = vesa_bpp_bytes (vs_bpp v)" and x: "vs_xres v \<le> 1280"
    using assms by (simp_all add: vesa_ok_def vesa_bytes_pp_def)
  have b4: "?b \<le> 4" "1 \<le> ?b" using b bpp_bytes_range by simp_all
  have cx: "unat cx \<le> 65535" using unat_u16_less [of cx] by simp
  have cxb: "unat cx * ?b \<le> 65535 * 4" using cx b4 by (intro mult_le_mono)
  have mb: "vs_xres v * ?b \<le> 1280 * 4" using x b4 by (intro mult_le_mono)
  have "unat (ucast cx * of_nat ?b :: u32) = unat cx * ?b" "unat (ucast cx :: u32) = unat cx"
    "unat (of_nat (vs_xres v) * of_nat ?b :: u32) = vs_xres v * ?b"
    using cxb mb b4 x by (simp_all add: unat_word_ariths unat_of_nat_u32 unat_ucast_u16)
  with cx cxb mb show ?thesis
    unfolding vesa_want_def Let_def b [symmetric] by (auto simp: word_less_nat_alt)
qed

lemma sint_small:
  assumes "unat (w :: u32) \<le> 262140"
  shows "nat (sint w) = unat w"
proof -
  have "uint w < 2147483648" using assms uint_nat [of w] by linarith
  then have "sint w = uint w" by (simp add: sint_uint signed_take_bit_int_eq_self order_trans [OF _ uint_ge_0])
  then show ?thesis by simp
qed

lemma vesa_ok_pitch:
  assumes "vesa_ok v" and "vs_active v" and "vesa_want bl cx v * of_nat (vs_yres v) \<le> SVGA_VRAM_TOTAL"
  shows "vesa_ok (vesa_set_scanline_bytes (sint (vesa_want bl cx v)) v)"
proof -
  let ?w = "vesa_want bl cx v"
  have w: "vs_xres v * vesa_bpp_bytes (vs_bpp v) \<le> unat ?w" "unat ?w \<le> 65535 * 4"
    using vesa_want_range [OF assms(1,2)] by simp_all
  have y: "200 \<le> vs_yres v" "vs_yres v \<le> 1024" using assms by (simp_all add: vesa_ok_def)
  have "unat ?w * vs_yres v \<le> 65535 * 4 * 1024" using w(2) y(2) by (intro mult_le_mono)
  then have "unat (?w * of_nat (vs_yres v)) = unat ?w * vs_yres v"
    using y by (simp add: unat_word_ariths unat_of_nat_u32)
  with assms(3) have fits: "unat ?w * vs_yres v \<le> 8388608"
    by (simp add: word_le_nat_alt SVGA_VRAM_TOTAL_def)
  with y(1) have "unat ?w * 200 \<le> 8388608" by (meson mult_le_mono2 order_trans)
  then have "unat ?w \<le> 41943" "nat (sint ?w) = unat ?w" by (simp_all add: sint_small)
  with fits w(1) assms show ?thesis
    by (simp add: vesa_set_scanline_bytes_def vesa_ok_def)
qed

lemma vesa_ok_scanline:
  assumes "vesa_ok (vs s)"
  shows "vesa_ok (vs (snd (vesa_scanline s)))"
  using assms vesa_ok_pitch [of "vs s" "reg_bl s" "reg_cx s"] by (simp add: vesa_scanline_def Let_def)

lemma vesa_ok_display_start:
  assumes "vesa_ok (vs s)"
  shows "vesa_ok (vs (snd (vesa_display_start s)))"
proof -
  let ?v = "vs s"
  have st: "unat (vesa_pitch ?v) \<le> 41943"
    using assms by (simp add: vesa_pitch_def vesa_ok_def unat_of_nat_u32)
  have b: "vesa_bytes_pp ?v \<le> 4" using bpp_bytes_range by (simp add: vesa_bytes_pp_def)
  have r: "unat (reg_dx s) \<le> 65535" "unat (reg_cx s) \<le> 65535"
    using unat_u16_less [of "reg_dx s"] unat_u16_less [of "reg_cx s"] by simp_all
  have "unat (reg_dx s) * unat (vesa_pitch ?v) \<le> 65535 * 41943" "unat (reg_cx s) * vesa_bytes_pp ?v \<le> 65535 * 4"
    using st b r by (meson mult_le_mono)+
  then have "unat (ucast (reg_dx s) * vesa_pitch ?v + ucast (reg_cx s) * of_nat (vesa_bytes_pp ?v) :: u32)
      \<le> 65535 * 41943 + 65535 * 4"
    using b by (simp add: unat_word_ariths unat_of_nat_u32 unat_ucast_u16)
  with assms show ?thesis by (simp add: vesa_display_start_def Let_def vesa_ok_def)
qed

lemma vesa_ok_int10_vesa: "vesa_ok (vs s) \<Longrightarrow> vesa_ok (vs (snd (dosiz_int10_vesa E V s)))"
  using vesa_ok_mode [of s V "reg_bx s"] vesa_ok_scanline [of s] vesa_ok_display_start [of s]
  by (simp add: dosiz_int10_vesa_def Let_def case_prod_unfold split: option.split)

lemma vesa_ok_int10: "vesa_ok (vs s) \<Longrightarrow> vesa_ok (vs (dosiz_int10 E OS V s))"
  using vesa_ok_int10_vesa [of s E V] vesa_ok_legacy [of s E V "reg_al s AND 0x7F"]
  by (simp add: dosiz_int10_def Let_def case_prod_unfold)

text \<open>States reached by video BIOS calls, between which guest and host change anything but the VESA state.\<close>

inductive video_reach :: "'m emu88 \<Rightarrow> 'h os \<Rightarrow> 'm svga \<Rightarrow> ('m, 'h) video \<Rightarrow> bool" for E OS V where
  reach_start: "vs s = \<lparr>vs_active = False, vs_mode = 0, vs_xres = 0, vs_yres = 0, vs_bpp = 0, vs_stride = 0, vs_display_start = 0\<rparr>
    \<Longrightarrow> video_reach E OS V s"
| reach_int10: "video_reach E OS V s \<Longrightarrow> video_reach E OS V (dosiz_int10 E OS V s)"
| reach_other: "\<lbrakk>video_reach E OS V s; vs t = vs s\<rbrakk> \<Longrightarrow> video_reach E OS V t"

lemma video_reach_ok: "video_reach E OS V s \<Longrightarrow> vesa_ok (vs s)"
proof (induction rule: video_reach.induct)
  case (reach_start s)
  then show ?case by (simp add: vesa_ok_def)
next
  case (reach_int10 s)
  then show ?case by (simp add: vesa_ok_int10)
next
  case (reach_other s t)
  then show ?case by simp
qed

text \<open>C40: after any sequence of video BIOS calls (mode sets, scan-line lengths and display starts with arbitrary
  register values), the offset the renderer computes for a pixel of the active SVGA frame does not wrap, so its test
  against the size of the video memory keeps every byte it reads inside that memory.\<close>

theorem render_vesa_in_bounds:
  assumes "video_reach E OS V s" and "vs_active (vs s)" and "y < vs_yres (vs s)" and "x < vs_xres (vs s)"
    and "\<not> vesa_offset (vs s) y x + of_nat (vesa_bpp_bytes (vs_bpp (vs s))) > svga_vram_size V (mem s)"
    and "k < vesa_bpp_bytes (vs_bpp (vs s))"
  shows "unat (vesa_offset (vs s) y x + of_nat k)
      = unat (vs_display_start (vs s)) + y * vs_stride (vs s) + x * vesa_bpp_bytes (vs_bpp (vs s)) + k
    \<and> unat (vesa_offset (vs s) y x + of_nat k) < unat (svga_vram_size V (mem s))"
proof -
  let ?v = "vs s"
  let ?b = "vesa_bpp_bytes (vs_bpp ?v)"
  let ?n = "unat (vs_display_start ?v) + y * vs_stride ?v + x * ?b"
  have ok: "vesa_ok ?v" using assms(1) by (rule video_reach_ok)
  have b: "?b \<le> 4" by (rule bpp_bytes_range)
  have st: "vs_stride ?v \<le> 41943" and ds: "unat (vs_display_start ?v) \<le> 65535 * 41943 + 65535 * 4"
    and yb: "y \<le> 1024" and xb: "x \<le> 1280"
    using ok assms by (simp_all add: vesa_ok_def)
  have rows: "y * vs_stride ?v \<le> 1024 * 41943" using yb st by (intro mult_le_mono)
  have cols: "x * ?b \<le> 1280 * 4" using xb b by (intro mult_le_mono)
  have off: "unat (vesa_offset ?v y x) = ?n"
    using ds rows cols st b yb xb by (simp add: vesa_offset_def unat_word_ariths unat_of_nat_u32)
  then have sums: "unat (vesa_offset ?v y x + of_nat j) = ?n + j" if "j \<le> 4" for j
    using ds rows cols that by (simp add: unat_word_ariths unat_of_nat_u32)
  have "?n + ?b \<le> unat (svga_vram_size V (mem s))"
    using assms(5) sums [OF b] by (simp add: word_less_nat_alt not_less)
  with sums [of k] assms(6) b show ?thesis by simp
qed

section \<open>A concrete machine\<close>

definition sample_svga :: "(u32 \<Rightarrow> u8) svga" where
  "sample_svga = \<lparr>svga_base = (\<lambda>m. Some (\<lambda>off. m (0xE0000000 + off))), svga_vram_size = (\<lambda>_. 0x800000),
     svga_ensure = (\<lambda>_. id), svga_zero = (\<lambda>m a. if a \<ge> 0xE0000000 \<and> a < 0xE0800000 then 0 else m a),
     set_svga_active = (\<lambda>_. id), set_vga_planar = (\<lambda>_. id), set_vga_map_mask = (\<lambda>_. id), set_vga_read_map = (\<lambda>_. id),
     svga_window_off = (\<lambda>_. 0), set_svga_window_off = (\<lambda>_. id), set_svga_lfb_phys = (\<lambda>_. id)\<rparr>"

definition sample_vs :: vesa_state where
  "sample_vs = \<lparr>vs_active = False, vs_mode = 0, vs_xres = 0, vs_yres = 0, vs_bpp = 0, vs_stride = 0, vs_display_start = 0\<rparr>"

definition sample_mouse :: mouse_state where
  "sample_mouse = \<lparr>host_x = 0, host_y = 0, host_buttons = 0, mouse_x = 0, mouse_y = 0, mouse_buttons = 0, mouse_visible = False,
     min_x = 0, max_x = 639, min_y = 0, max_y = 199, press_count = (\<lambda>_. 0), release_count = (\<lambda>_. 0),
     press_x = (\<lambda>_. 0), press_y = (\<lambda>_. 0), release_x = (\<lambda>_. 0), release_y = (\<lambda>_. 0)\<rparr>"

text \<open>The call that sets VESA mode 101h, 640x480 at 8 bits per pixel.\<close>

definition sample_video :: "(u32 \<Rightarrow> u8, int list \<times> u8 list) video" where
  "sample_video = dos.extend ((sample_dos (\<lambda>_. 0))\<lparr>reg_eax := 0x4F02, reg_ebx := 0x101\<rparr>)
     (video.fields sample_vga sample_vs sample_mouse)"

lemma sample_video_simps:
  "reg_eax sample_video = 0x4F02" "reg_ebx sample_video = 0x101" "mem sample_video = (\<lambda>_. 0)"
  "g sample_video = sample_vga" "vs sample_video = sample_vs"
  by (simp_all add: sample_video_def dos.defs video.defs sample_dos_def)

lemma render_text_frame_witness:
  "\<exists>buf. render flat sample_svga (\<lambda>_ _. 0x80) sample_video (\<lambda>_. 0) = (buf, 640, 400) \<and> buf (399 * 640 + 639) = 0xFF000000"
proof -
  have "\<not> vs_active (vs sample_video)" "g_mode (g sample_video) \<noteq> 0x13"
    by (simp_all add: sample_video_simps sample_vs_def sample_vga_def)
  from render_text_frame [OF this, of flat sample_svga "\<lambda>_ _. 0x80" "\<lambda>_. 0"]
  obtain buf where buf: "render flat sample_svga (\<lambda>_ _. 0x80) sample_video (\<lambda>_. 0) = (buf, 640, 400)"
    and px: "\<forall>y<400. \<forall>x<640. buf (y * 640 + x) = text_at flat (\<lambda>_ _. 0x80) sample_video y x"
    by blast
  have "text_at flat (\<lambda>_ _. 0x80) sample_video 399 639 = 0xFF000000"
    by (simp add: text_at_def Let_def text_fg_def text_bg_def sample_video_simps sample_vga_def dac_to_argb_def argb_def dac_scale_def)
  then have "buf (399 * 640 + 639) = 0xFF000000" using px [rule_format, of 399 639] by simp
  with buf show ?thesis by blast
qed

lemma sample_vesa_mode:
  "vs (dosiz_int10 flat sample_os sample_svga sample_video) =
    \<lparr>vs_active = True, vs_mode = 0x101, vs_xres = 640, vs_yres = 480, vs_bpp = 8, vs_stride = 640, vs_display_start = 0\<rparr>"
proof -
  have regs: "reg_ah sample_video = 0x4F" "reg_al sample_video = 0x02" "reg_bx sample_video = 0x101"
    by (simp_all add: reg_defs lo8_def hi8_def lo16_def sample_video_simps)
  have "vesa_find 0x101 = Some \<lparr>vm_num = 0x101, vm_w = 640, vm_h = 480, vm_bpp = 8\<rparr>"
    by (simp add: vesa_find_def kVesaModes_def)
  then show ?thesis
    by (simp add: dosiz_int10_def dosiz_int10_vesa_def vesa_set_mode_def Let_def case_prod_unfold regs vesa_bpp_bytes_def)
qed

lemma sample_vram: "svga_vram_size sample_svga m = 0x800000"
  by (simp add: sample_svga_def)

lemma render_vesa_in_bounds_witness:
  "unat (vesa_offset (vs (dosiz_int10 flat sample_os sample_svga sample_video)) 479 639 + of_nat 0) = 307199"
proof -
  have "video_reach flat sample_os sample_svga (dosiz_int10 flat sample_os sample_svga sample_video)"
    by (intro reach_int10 reach_start) (simp add: sample_video_simps sample_vs_def)
  then show ?thesis
    using render_vesa_in_bounds [of flat sample_os sample_svga "dosiz_int10 flat sample_os sample_svga sample_video" 479 639 0]
    by (simp add: sample_vesa_mode vesa_bpp_bytes_def vesa_offset_def sample_vram)
qed

end
