(* ===== verification/Cpu.thy ===== *)
theory Cpu
  imports Descriptors Hardware Video
begin

text \<open>
  The CPU side of the shim \<open>compat/dosbox_compat\<close>: the copy of registers between the interface the handlers use and
  the engine, the control functions (\<open>CPU_SET_CRX\<close> to \<open>CPU_IRET\<close>), the descriptor-table proxies, and the routing
  of guest I/O ports. The CPU of the engine is the record \<open>emu_cpu\<close>, whose laws are those of a register file.
  Shown: copying registers out and in loses nothing, and \<open>CPU_IRET\<close> returns to exactly the frame on the stack.
\<close>

section \<open>The engine's CPU as a parameter\<close>

text \<open>\<open>far_jmp\<close> is \<open>far_call_or_jmp\<close> with \<open>op_size_32\<close> set around it; \<open>deliver_irq\<close> is \<open>request_int\<close> followed by
  \<open>check_interrupts\<close>; \<open>load_segment_cpl\<close> is \<open>load_segment\<close> with an explicit privilege level. 'c is the descriptor cache.\<close>

record ('m, 'c) emu_cpu =
  get_reg32 :: "'m \<Rightarrow> nat \<Rightarrow> u32"
  set_reg32 :: "nat \<Rightarrow> u32 \<Rightarrow> 'm \<Rightarrow> 'm"
  get_ip :: "'m \<Rightarrow> u32"
  set_ip :: "u32 \<Rightarrow> 'm \<Rightarrow> 'm"
  get_eflags :: "'m \<Rightarrow> u32"
  set_eflags :: "u32 \<Rightarrow> 'm \<Rightarrow> 'm"
  set_sreg :: "seg \<Rightarrow> u16 \<Rightarrow> 'm \<Rightarrow> 'm"
  set_cache_base :: "seg \<Rightarrow> u32 \<Rightarrow> 'm \<Rightarrow> 'm"
  set_seg_cache :: "seg \<Rightarrow> 'c \<Rightarrow> 'm \<Rightarrow> 'm"
  load_segment_cpl :: "seg \<Rightarrow> u16 \<Rightarrow> u8 \<Rightarrow> 'm \<Rightarrow> 'm"
  get_cpl :: "'m \<Rightarrow> u8"
  set_cpl :: "u8 \<Rightarrow> 'm \<Rightarrow> 'm"
  get_cr0 :: "'m \<Rightarrow> u32"
  set_cr :: "nat \<Rightarrow> u32 \<Rightarrow> 'm \<Rightarrow> 'm"
  protected_mode :: "'m \<Rightarrow> bool"
  paging_enabled :: "'m \<Rightarrow> bool"
  read_linear8 :: "'m \<Rightarrow> u32 \<Rightarrow> u8"
  emu_halted :: "'m \<Rightarrow> bool"
  execute :: "'m \<Rightarrow> 'm"
  deliver_irq :: "u8 \<Rightarrow> 'm \<Rightarrow> 'm"
  clear_exception :: "'m \<Rightarrow> 'm"
  set_gdtr_base :: "u32 \<Rightarrow> 'm \<Rightarrow> 'm"
  set_gdtr_limit :: "u16 \<Rightarrow> 'm \<Rightarrow> 'm"
  idtr_base :: "'m \<Rightarrow> u32"
  idtr_limit :: "'m \<Rightarrow> u16"
  set_idtr_base :: "u32 \<Rightarrow> 'm \<Rightarrow> 'm"
  set_idtr_limit :: "u16 \<Rightarrow> 'm \<Rightarrow> 'm"
  read_descriptor :: "'m \<Rightarrow> u32 \<Rightarrow> u16 \<Rightarrow> u8 list"
  parse_descriptor :: "u8 list \<Rightarrow> 'c"
  null_cache :: 'c
  set_ldtr :: "u16 \<Rightarrow> 'c \<Rightarrow> 'm \<Rightarrow> 'm"
  set_tr :: "u16 \<Rightarrow> 'c \<Rightarrow> 'm \<Rightarrow> 'm"
  far_jmp :: "bool \<Rightarrow> u16 \<Rightarrow> u32 \<Rightarrow> 'm \<Rightarrow> 'm"

section \<open>Register sync\<close>

definition sregs6 :: "seg list" where "sregs6 = [ES, CS, SS, DS, FS, GS]"

definition regs8 :: "('m, 'z) machine_scheme \<Rightarrow> u32 list" where
  "regs8 s = [reg_eax s, reg_ecx s, reg_edx s, reg_ebx s, reg_esp s, reg_ebp s, reg_esi s, reg_edi s]"

definition sync_to_emu :: "('m, 'c) emu_cpu \<Rightarrow> ('m, 'z) machine_scheme \<Rightarrow> ('m, 'z) machine_scheme" where
  "sync_to_emu C s = (let
     m = fold (\<lambda>i. set_reg32 C i (regs8 s ! i)) [0 ..< 8] (mem s);
     m = set_ip C (reg_eip s) m;
     m = set_eflags C (reg_flags s) m
   in s\<lparr>mem := fold (\<lambda>sg m. set_cache_base C sg (seg_phys s sg) (set_sreg C sg (seg_val s sg) m)) sregs6 m\<rparr>)"

definition sync_from_emu ::
  "'m emu88 \<Rightarrow> ('m, 'c) emu_cpu \<Rightarrow> ('m, 'z) machine_scheme \<Rightarrow> ('m, 'z) machine_scheme" where
  "sync_from_emu E C s = (let m = mem s in s\<lparr>
     reg_eax := get_reg32 C m 0, reg_ecx := get_reg32 C m 1, reg_edx := get_reg32 C m 2, reg_ebx := get_reg32 C m 3,
     reg_esp := get_reg32 C m 4, reg_ebp := get_reg32 C m 5, reg_esi := get_reg32 C m 6, reg_edi := get_reg32 C m 7,
     reg_eip := get_ip C m, reg_flags := get_eflags C m, seg_val := sregs E m, seg_phys := seg_cache_base E m,
     cpu_cpl := get_cpl C m, cpu_cr0 := get_cr0 C m, cpu_pmode := protected_mode C m,
     code_big := code_32 E m, stack_big := stack_32 E m\<rparr>)"

section \<open>CPU control\<close>

definition CPU_SET_CRX :: "('m, 'c) emu_cpu \<Rightarrow> nat \<Rightarrow> u32 \<Rightarrow> ('m, 'z) machine_scheme \<Rightarrow> ('m, 'z) machine_scheme" where
  "CPU_SET_CRX C cr v s = (if cr = 0 then s\<lparr>mem := set_cr C 0 v (mem s), cpu_cr0 := v, cpu_pmode := bit v 0\<rparr>
     else if cr \<in> {2, 3, 4} then s\<lparr>mem := set_cr C cr v (mem s)\<rparr> else s)"

definition CPU_LGDT :: "('m, 'c) emu_cpu \<Rightarrow> u16 \<Rightarrow> u32 \<Rightarrow> 'm \<Rightarrow> 'm" where
  "CPU_LGDT C limit base m = set_gdtr_base C base (set_gdtr_limit C limit m)"

definition CPU_LIDT :: "('m, 'c) emu_cpu \<Rightarrow> u16 \<Rightarrow> u32 \<Rightarrow> 'm \<Rightarrow> 'm" where
  "CPU_LIDT C limit base m = set_idtr_base C base (set_idtr_limit C limit m)"

definition CPU_LLDT :: "'m emu88 \<Rightarrow> ('m, 'c) emu_cpu \<Rightarrow> u16 \<Rightarrow> 'm \<Rightarrow> 'm" where
  "CPU_LLDT E C sel m = (if sel AND 0xFFFC = 0 then set_ldtr C 0 (null_cache C) m
     else set_ldtr C sel (parse_descriptor C (read_descriptor C m (gdtr_base E m) (drop_bit 3 sel))) m)"

definition CPU_LTR :: "'m emu88 \<Rightarrow> ('m, 'c) emu_cpu \<Rightarrow> u16 \<Rightarrow> 'm \<Rightarrow> 'm" where
  "CPU_LTR E C sel m = set_tr C sel (parse_descriptor C (read_descriptor C m (gdtr_base E m) (drop_bit 3 sel))) m"

definition CPU_JMP ::
  "'m emu88 \<Rightarrow> ('m, 'c) emu_cpu \<Rightarrow> bool \<Rightarrow> u16 \<Rightarrow> u32 \<Rightarrow> ('m, 'z) machine_scheme \<Rightarrow> ('m, 'z) machine_scheme" where
  "CPU_JMP E C use32 sel off s = (let
     s = mirror_seg E CS (s\<lparr>mem := far_jmp C use32 sel off (mem s)\<rparr>)
   in s\<lparr>reg_eip := get_ip C (mem s), code_big := code_32 E (mem s)\<rparr>)"

definition CPU_LoadCSCache ::
  "'m emu88 \<Rightarrow> ('m, 'c) emu_cpu \<Rightarrow> u16 \<Rightarrow> ('m, 'z) machine_scheme \<Rightarrow> ('m, 'z) machine_scheme" where
  "CPU_LoadCSCache E C sel s = (if sel AND 0xFFFC = 0 then s else let
     m = mem s;
     table = (if sel AND 4 \<noteq> 0 then ldtr_base E m else gdtr_base E m);
     cache = parse_descriptor C (read_descriptor C m table (drop_bit 3 sel));
     s = mirror_seg E CS (s\<lparr>mem := set_seg_cache C CS cache (set_sreg C CS sel m)\<rparr>)
   in s\<lparr>code_big := code_32 E (mem s)\<rparr>)"

text \<open>The stack frame \<open>CPU_IRET\<close> pops: instruction pointer, code selector, flags, and the size of the frame.\<close>

definition iret_frame :: "'m emu88 \<Rightarrow> bool \<Rightarrow> u32 \<Rightarrow> 'm \<Rightarrow> u32 \<times> u16 \<times> u32 \<times> u32" where
  "iret_frame E use32 p m = (if use32
     then (mem_readd E m p, lo16 (mem_readd E m (p + 4)), mem_readd E m (p + 8), 12)
     else (ucast (mem_readw E m p), mem_readw E m (p + 2), ucast (mem_readw E m (p + 4)), 6))"

definition stack_offset :: "'m emu88 \<Rightarrow> 'm \<Rightarrow> u32 \<Rightarrow> u32" where
  "stack_offset E m esp = (if stack_32 E m then esp else esp AND 0xFFFF)"

definition CPU_IRET ::
  "'m emu88 \<Rightarrow> ('m, 'c) emu_cpu \<Rightarrow> bool \<Rightarrow> ('m, 'z) machine_scheme \<Rightarrow> ('m, 'z) machine_scheme" where
  "CPU_IRET E C use32 s = (let
     s = sync_to_emu C s;
     m = mem s;
     ssb = seg_cache_base E m SS;
     esp = stack_offset E m (get_reg32 C m 4);
     (neip, ncs, nfl, sz) = iret_frame E use32 (ssb + esp) m;
     esp = esp + sz;
     curcpl = get_cpl C m;
     newcpl = (if protected_mode C m then ucast (ncs AND 3) else curcpl);
     finish = (\<lambda>sp m. set_reg32 C 4 sp (set_eflags C nfl (set_ip C neip m)));
     m = (if protected_mode C m \<and> newcpl > curcpl then let
            (nesp, nss) = (if use32 then (mem_readd E m (ssb + esp), lo16 (mem_readd E m (ssb + esp + 4)))
                           else (ucast (mem_readw E m (ssb + esp)), mem_readw E m (ssb + esp + 2)));
            m = clear_exception C (set_cpl C newcpl m);
            m = load_segment_cpl C SS nss newcpl (load_segment_cpl C CS ncs newcpl m)
          in finish nesp m
          else finish esp (load_segment_cpl C CS ncs newcpl m))
   in sync_from_emu E C (s\<lparr>mem := m\<rparr>))"

section \<open>Descriptor tables\<close>

text \<open>The eight bytes of a descriptor as two dwords, the array \<open>fill\<close> of the union; the bit fields of its two other members
  are read off by the accessors.\<close>

record descriptor =
  fill0 :: u32
  fill1 :: u32

definition desc_Load :: "'m emu88 \<Rightarrow> 'm \<Rightarrow> u32 \<Rightarrow> descriptor" where
  "desc_Load E m a = \<lparr>fill0 = mem_readd E m a, fill1 = mem_readd E m (a + 4)\<rparr>"

definition desc_Save :: "'m emu88 \<Rightarrow> descriptor \<Rightarrow> u32 \<Rightarrow> 'm \<Rightarrow> 'm" where
  "desc_Save E d a m = mem_writed E (a + 4) (fill1 d) (mem_writed E a (fill0 d) m)"

definition desc_GetBase :: "descriptor \<Rightarrow> u32" where
  "desc_GetBase d = push_bit 24 (drop_bit 24 (fill1 d)) OR push_bit 16 (fill1 d AND 0xFF) OR drop_bit 16 (fill0 d)"

definition desc_GetLimit :: "descriptor \<Rightarrow> u32" where
  "desc_GetLimit d = (let limit = push_bit 16 (drop_bit 16 (fill1 d) AND 0xF) OR (fill0 d AND 0xFFFF)
     in if bit (fill1 d) 23 then push_bit 12 limit OR 0xFFF else limit)"

definition desc_GetOffset :: "descriptor \<Rightarrow> u32" where
  "desc_GetOffset d = push_bit 16 (drop_bit 16 (fill1 d)) OR (fill0 d AND 0xFFFF)"

definition desc_GetSelector :: "descriptor \<Rightarrow> u16" where "desc_GetSelector d = ucast (drop_bit 16 (fill0 d))"
definition desc_Type :: "descriptor \<Rightarrow> u8" where "desc_Type d = ucast (drop_bit 8 (fill1 d) AND 0x1F)"
definition desc_Conforming :: "descriptor \<Rightarrow> u8" where "desc_Conforming d = desc_Type d AND 8"
definition desc_DPL :: "descriptor \<Rightarrow> u8" where "desc_DPL d = ucast (drop_bit 13 (fill1 d) AND 3)"
definition desc_Big :: "descriptor \<Rightarrow> u8" where "desc_Big d = ucast (drop_bit 22 (fill1 d) AND 1)"

definition idt_GetDescriptor :: "'m emu88 \<Rightarrow> ('m, 'c) emu_cpu \<Rightarrow> 'm \<Rightarrow> u32 \<Rightarrow> descriptor option" where
  "idt_GetDescriptor E C m sel = (let addr = sel AND NOT 7 in
     if addr \<ge> ucast (idtr_limit C m) then None else Some (desc_Load E m (idtr_base C m + addr)))"

text \<open>Where the entry of a selector lies, None past the limit of its table.\<close>

definition gdt_entry :: "'m emu88 \<Rightarrow> 'm \<Rightarrow> u16 \<Rightarrow> u32 option" where
  "gdt_entry E m sel = (let addr = (ucast sel :: u32) AND NOT 7 in
     if sel AND 4 \<noteq> 0 then (if addr \<ge> ldtr_limit E m then None else Some (ldtr_base E m + addr))
     else (if addr \<ge> ucast (gdtr_limit E m) then None else Some (gdtr_base E m + addr)))"

definition gdt_GetDescriptor :: "'m emu88 \<Rightarrow> 'm \<Rightarrow> u16 \<Rightarrow> descriptor option" where
  "gdt_GetDescriptor E m sel = map_option (desc_Load E m) (gdt_entry E m sel)"

definition gdt_SetDescriptor :: "'m emu88 \<Rightarrow> u16 \<Rightarrow> descriptor \<Rightarrow> 'm \<Rightarrow> bool \<times> 'm" where
  "gdt_SetDescriptor E sel d m = (case gdt_entry E m sel of None \<Rightarrow> (False, m) | Some a \<Rightarrow> (True, desc_Save E d a m))"

section \<open>Guest I/O ports\<close>

definition is_dac_port :: "u16 \<Rightarrow> bool" where "is_dac_port port \<longleftrightarrow> port \<ge> 0x3C6 \<and> port \<le> 0x3C9"

definition emu_port_out ::
  "('o, 'p, 'b) devices \<Rightarrow> (u32 \<Rightarrow> u8) \<Rightarrow> u16 \<Rightarrow> u8 \<Rightarrow> vga_state \<times> ('o, 'p, 'b) hardware \<Rightarrow> vga_state \<times> ('o, 'p, 'b) hardware" where
  "emu_port_out D rd port v = (\<lambda>(vga, hw).
     if is_dac_port port then (video_port_out port v vga, hw) else (vga, hw_port_out D rd port v hw))"

definition emu_port_in ::
  "('o, 'p, 'b) devices \<Rightarrow> (u32 \<Rightarrow> u8) \<Rightarrow> u16 \<Rightarrow> vga_state \<times> ('o, 'p, 'b) hardware \<Rightarrow> u8 \<times> vga_state \<times> ('o, 'p, 'b) hardware" where
  "emu_port_in D rd port = (\<lambda>(vga, hw).
     if is_dac_port port then (case video_port_in port vga of (v, vga) \<Rightarrow> (v, vga, hw))
     else case hw_port_in D rd port hw of (Some v, hw) \<Rightarrow> (v, vga, hw) | (None, hw) \<Rightarrow> (0xFF, vga, hw))"

section \<open>Laws of a register file\<close>

text \<open>What a register write of the engine leaves alone: memory and the CPU's modes.\<close>

definition same_mode :: "'m emu88 \<Rightarrow> ('m, 'c) emu_cpu \<Rightarrow> 'm \<Rightarrow> 'm \<Rightarrow> bool" where
  "same_mode E C m m' \<longleftrightarrow> fetch_mem E m' = fetch_mem E m \<and> fetch_mem16 E m' = fetch_mem16 E m \<and> fetch_mem32 E m' = fetch_mem32 E m
     \<and> is_ram E m' = is_ram E m \<and> get_cpl C m' = get_cpl C m \<and> get_cr0 C m' = get_cr0 C m
     \<and> protected_mode C m' = protected_mode C m \<and> stack_32 E m' = stack_32 E m \<and> code_32 E m' = code_32 E m
     \<and> paging_enabled C m' = paging_enabled C m \<and> emu_halted C m' = emu_halted C m"

lemma same_mode_refl [simp]: "same_mode E C m m"
  by (simp add: same_mode_def)

lemma same_mode_trans: "\<lbrakk>same_mode E C m m1; same_mode E C m1 m2\<rbrakk> \<Longrightarrow> same_mode E C m m2"
  by (simp add: same_mode_def)

lemma same_mode_step: "same_mode E C m' m'' \<Longrightarrow> same_mode E C m m'' = same_mode E C m m'"
  by (auto simp: same_mode_def)

text \<open>\<open>keep_flags\<close> is what the engine's flags register makes of a stored value (some bits are fixed in hardware). The
  last law is the real-mode segment load of the processor manuals.\<close>

locale cpu_engine = emu88_engine E for E :: "'m emu88" +
  fixes C :: "('m, 'c) emu_cpu" and keep_flags :: "u32 \<Rightarrow> u32"
  assumes set_reg32: "i < 8 \<Longrightarrow> get_reg32 C (set_reg32 C i v m) = (get_reg32 C m)(i := v)" "i < 8 \<Longrightarrow> get_ip C (set_reg32 C i v m) = get_ip C m"
      "i < 8 \<Longrightarrow> get_eflags C (set_reg32 C i v m) = get_eflags C m" "i < 8 \<Longrightarrow> sregs E (set_reg32 C i v m) = sregs E m"
      "i < 8 \<Longrightarrow> seg_cache_base E (set_reg32 C i v m) = seg_cache_base E m" "i < 8 \<Longrightarrow> same_mode E C m (set_reg32 C i v m)"
    and set_ip: "get_reg32 C (set_ip C v m) = get_reg32 C m" "get_ip C (set_ip C v m) = v"
      "get_eflags C (set_ip C v m) = get_eflags C m" "sregs E (set_ip C v m) = sregs E m"
      "seg_cache_base E (set_ip C v m) = seg_cache_base E m" "same_mode E C m (set_ip C v m)"
    and set_eflags: "get_reg32 C (set_eflags C v m) = get_reg32 C m" "get_ip C (set_eflags C v m) = get_ip C m"
      "get_eflags C (set_eflags C v m) = keep_flags v" "sregs E (set_eflags C v m) = sregs E m"
      "seg_cache_base E (set_eflags C v m) = seg_cache_base E m" "same_mode E C m (set_eflags C v m)"
    and set_sreg: "get_reg32 C (set_sreg C sg w m) = get_reg32 C m" "get_ip C (set_sreg C sg w m) = get_ip C m"
      "get_eflags C (set_sreg C sg w m) = get_eflags C m" "sregs E (set_sreg C sg w m) = (sregs E m)(sg := w)"
      "seg_cache_base E (set_sreg C sg w m) = seg_cache_base E m" "same_mode E C m (set_sreg C sg w m)"
    and set_cache_base: "get_reg32 C (set_cache_base C sg v m) = get_reg32 C m" "get_ip C (set_cache_base C sg v m) = get_ip C m"
      "get_eflags C (set_cache_base C sg v m) = get_eflags C m" "sregs E (set_cache_base C sg v m) = sregs E m"
      "seg_cache_base E (set_cache_base C sg v m) = (seg_cache_base E m)(sg := v)" "same_mode E C m (set_cache_base C sg v m)"
    and real_load: "\<not> protected_mode C m \<Longrightarrow> get_reg32 C (load_segment_cpl C sg w c m) = get_reg32 C m"
      "\<not> protected_mode C m \<Longrightarrow> get_ip C (load_segment_cpl C sg w c m) = get_ip C m"
      "\<not> protected_mode C m \<Longrightarrow> get_eflags C (load_segment_cpl C sg w c m) = get_eflags C m"
      "\<not> protected_mode C m \<Longrightarrow> sregs E (load_segment_cpl C sg w c m) = (sregs E m)(sg := w)"
      "\<not> protected_mode C m \<Longrightarrow> seg_cache_base E (load_segment_cpl C sg w c m) = (seg_cache_base E m)(sg := seg_lin w)"
      "\<not> protected_mode C m \<Longrightarrow> same_mode E C m (load_segment_cpl C sg w c m)"
begin

lemmas mode_simps =
  set_reg32(6) [THEN same_mode_step] set_ip(6) [THEN same_mode_step] set_eflags(6) [THEN same_mode_step]
  set_sreg(6) [THEN same_mode_step] set_cache_base(6) [THEN same_mode_step]

lemmas sync_simps = set_reg32(1-5) set_ip(1-5) set_eflags(1-5) set_sreg(1-5) set_cache_base(1-5) mode_simps

lemma sync_fold_segs:
  defines "f \<equiv> \<lambda>s sg m. set_cache_base C sg (seg_phys s sg) (set_sreg C sg (seg_val s sg) m)"
  shows "same_mode E C m0 (fold (f s) sgs m) = same_mode E C m0 m" "get_reg32 C (fold (f s) sgs m) = get_reg32 C m"
    "get_ip C (fold (f s) sgs m) = get_ip C m" "get_eflags C (fold (f s) sgs m) = get_eflags C m"
    "sregs E (fold (f s) sgs m) = override_on (sregs E m) (seg_val s) (set sgs)"
    "seg_cache_base E (fold (f s) sgs m) = override_on (seg_cache_base E m) (seg_phys s) (set sgs)"
  by (induction sgs arbitrary: m) (auto simp: f_def sync_simps override_on_def fun_eq_iff)

text \<open>The engine after \<open>sync_to_emu\<close>.\<close>

lemma sync_to_emu_obs:
  fixes s :: "('m, 'z) machine_scheme"
  defines "m \<equiv> mem (sync_to_emu C s)"
  shows "same_mode E C (mem s) m" "i < 8 \<Longrightarrow> get_reg32 C m i = regs8 s ! i" "get_ip C m = reg_eip s"
    "get_eflags C m = keep_flags (reg_flags s)" "sregs E m = seg_val s" "seg_cache_base E m = seg_phys s"
proof -
  have all: "set sregs6 = UNIV" using seg.exhaust by (auto simp: sregs6_def)
  have ov: "override_on f g UNIV = g" for f g :: "seg \<Rightarrow> 'x" by (simp add: override_on_def fun_eq_iff)
  have reg: "same_mode E C m0 (fold (\<lambda>i. set_reg32 C i (f i)) [0 ..< n] m1) = same_mode E C m0 m1"
      "\<forall>j < n. get_reg32 C (fold (\<lambda>i. set_reg32 C i (f i)) [0 ..< n] m1) j = f j" if "n \<le> 8" for f n m0 m1
    using that by (induction n) (auto simp: sync_simps)
  show "same_mode E C (mem s) m" "i < 8 \<Longrightarrow> get_reg32 C m i = regs8 s ! i" "get_ip C m = reg_eip s"
    "get_eflags C m = keep_flags (reg_flags s)" "sregs E m = seg_val s" "seg_cache_base E m = seg_phys s"
    using reg [of 8] ov by (simp_all add: m_def sync_to_emu_def Let_def sync_fold_segs all sync_simps del: upt_rec_numeral)
qed

lemma sync_to_emu_frame: "sync_to_emu C s = s\<lparr>mem := mem (sync_to_emu C s)\<rparr>"
  by (simp add: sync_to_emu_def Let_def)

text \<open>Reading the engine back after writing the interface into it.\<close>

lemma sync_from_to:
  "sync_from_emu E C (sync_to_emu C s) = s\<lparr>mem := mem (sync_to_emu C s), reg_flags := keep_flags (reg_flags s),
     cpu_cpl := get_cpl C (mem s), cpu_cr0 := get_cr0 C (mem s), cpu_pmode := protected_mode C (mem s),
     code_big := code_32 E (mem s), stack_big := stack_32 E (mem s)\<rparr>"
  using sync_to_emu_obs [where s = s] sync_to_emu_obs(2) [of 0, where s = s] sync_to_emu_obs(2) [of 1, where s = s] sync_to_emu_obs(2) [of 2, where s = s]
    sync_to_emu_obs(2) [of 3, where s = s] sync_to_emu_obs(2) [of 4, where s = s] sync_to_emu_obs(2) [of 5, where s = s] sync_to_emu_obs(2) [of 6, where s = s]
    sync_to_emu_obs(2) [of 7, where s = s]
  by (subst sync_to_emu_frame [of s]) (simp add: sync_from_emu_def Let_def regs8_def same_mode_def)

lemma iret_real:
  assumes "\<not> protected_mode C (mem s)"
    and "iret_frame E use32 (seg_phys s SS + stack_offset E (mem s) (reg_esp s)) (mem s) = (neip, ncs, nfl, sz)"
  shows "\<exists>m. CPU_IRET E C use32 s = sync_from_emu E C (s\<lparr>mem := m\<rparr>) \<and> same_mode E C (mem s) m \<and> get_ip C m = neip
    \<and> get_eflags C m = keep_flags nfl \<and> sregs E m = (seg_val s)(CS := ncs) \<and> seg_cache_base E m = (seg_phys s)(CS := seg_lin ncs)
    \<and> (\<forall>i < 8. get_reg32 C m i = (if i = 4 then stack_offset E (mem s) (reg_esp s) + sz else regs8 s ! i))"
proof -
  define m0 where "m0 = mem (sync_to_emu C s)"
  note obs = sync_to_emu_obs [where s = s, folded m0_def]
  have s0: "sync_to_emu C s = s\<lparr>mem := m0\<rparr>" unfolding m0_def by (rule sync_to_emu_frame)
  have md: "protected_mode C m0 = protected_mode C (mem s)" "stack_32 E m0 = stack_32 E (mem s)"
    using obs(1) by (simp_all add: same_mode_def)
  have fr: "iret_frame E use32 p m0 = iret_frame E use32 p (mem s)" "stack_offset E m0 r = stack_offset E (mem s) r" for p r
    using obs(1) by (simp_all add: same_mode_def iret_frame_def mem_readd_def mem_readw_def stack_offset_def)
  have esp: "get_reg32 C m0 4 = reg_esp s" using obs(2) [of 4] by (simp add: regs8_def)
  show ?thesis
    using assms obs
    by (simp add: CPU_IRET_def s0 md(1) fr esp)
      (rule exI, rule conjI, rule refl, simp add: md(1) sync_simps real_load real_load(6) [THEN same_mode_step])
qed

end

section \<open>A small processor\<close>

text \<open>
  A real-mode processor over a flat memory whose every instruction is a NOP satisfies the laws; the concrete runs
  of the development evaluate on it.
\<close>

record pc_state =
  pc_bytes :: "u32 \<Rightarrow> u8"
  pc_regs :: "nat \<Rightarrow> u32"
  pc_ip :: u32
  pc_flags :: u32
  pc_sregs :: "seg \<Rightarrow> u16"
  pc_bases :: "seg \<Rightarrow> u32"
  pc_halted :: bool
  pc_idt_base :: u32
  pc_idt_limit :: u16

definition pc :: "pc_state emu88" where
  "pc = \<lparr> fetch_mem = pc_bytes,
          fetch_mem16 = (\<lambda>m a. mk16 (pc_bytes m a) (pc_bytes m (a + 1))),
          fetch_mem32 = (\<lambda>m a. mk32 (mk16 (pc_bytes m a) (pc_bytes m (a + 1))) (mk16 (pc_bytes m (a + 2)) (pc_bytes m (a + 3)))),
          store_mem = (\<lambda>m a v. m\<lparr>pc_bytes := (pc_bytes m)(a := v)\<rparr>),
          store_mem16 = (\<lambda>m a w. m\<lparr>pc_bytes := (pc_bytes m)(a := lo8 w, a + 1 := hi8 w)\<rparr>),
          store_mem32 = (\<lambda>m a d. m\<lparr>pc_bytes := (pc_bytes m)(a := lo8 (lo16 d), a + 1 := hi8 (lo16 d),
             a + 2 := lo8 (hi16 d), a + 3 := hi8 (hi16 d))\<rparr>),
          get_mem_size = (\<lambda>m. 0x1000000), set_a20 = (\<lambda>m on. m), get_a20 = (\<lambda>m. True),
          load_segment = (\<lambda>m sg v. m\<lparr>pc_sregs := (pc_sregs m)(sg := v), pc_bases := (pc_bases m)(sg := seg_lin v)\<rparr>),
          load_segment_real = (\<lambda>m sg v. m\<lparr>pc_sregs := (pc_sregs m)(sg := v), pc_bases := (pc_bases m)(sg := seg_lin v)\<rparr>),
          sregs = pc_sregs, seg_cache_base = pc_bases, stack_32 = (\<lambda>m. False), code_32 = (\<lambda>m. False),
          gdtr_base = (\<lambda>m. 0x100000), gdtr_limit = (\<lambda>m. 0x7F), ldtr_base = (\<lambda>m. 0x104000), ldtr_limit = (\<lambda>m. 0x7FF),
          is_ram = (\<lambda>m a. True) \<rparr>"

definition pc_cpu :: "(pc_state, unit) emu_cpu" where
  "pc_cpu = \<lparr> get_reg32 = pc_regs, set_reg32 = (\<lambda>i v m. m\<lparr>pc_regs := (pc_regs m)(i := v)\<rparr>),
     get_ip = pc_ip, set_ip = (\<lambda>v m. m\<lparr>pc_ip := v\<rparr>),
     get_eflags = pc_flags, set_eflags = (\<lambda>v m. m\<lparr>pc_flags := v\<rparr>),
     set_sreg = (\<lambda>sg v m. m\<lparr>pc_sregs := (pc_sregs m)(sg := v)\<rparr>),
     set_cache_base = (\<lambda>sg v m. m\<lparr>pc_bases := (pc_bases m)(sg := v)\<rparr>),
     set_seg_cache = (\<lambda>sg c m. m),
     load_segment_cpl = (\<lambda>sg v c m. m\<lparr>pc_sregs := (pc_sregs m)(sg := v), pc_bases := (pc_bases m)(sg := seg_lin v)\<rparr>),
     get_cpl = (\<lambda>m. 0), set_cpl = (\<lambda>v m. m), get_cr0 = (\<lambda>m. 0), set_cr = (\<lambda>n v m. m),
     protected_mode = (\<lambda>m. False), paging_enabled = (\<lambda>m. False), read_linear8 = pc_bytes,
     emu_halted = pc_halted, execute = (\<lambda>m. m\<lparr>pc_ip := pc_ip m + 1\<rparr>), deliver_irq = (\<lambda>v m. m), clear_exception = id,
     set_gdtr_base = (\<lambda>v m. m), set_gdtr_limit = (\<lambda>v m. m), idtr_base = pc_idt_base, idtr_limit = pc_idt_limit,
     set_idtr_base = (\<lambda>v m. m\<lparr>pc_idt_base := v\<rparr>), set_idtr_limit = (\<lambda>v m. m\<lparr>pc_idt_limit := v\<rparr>), read_descriptor = (\<lambda>m t i. []), parse_descriptor = (\<lambda>d. ()),
     null_cache = (), set_ldtr = (\<lambda>v c m. m), set_tr = (\<lambda>v c m. m), far_jmp = (\<lambda>b v off m. m) \<rparr>"

lemma pc_is_ram [simp]: "is_ram pc m a"
  by (simp add: pc_def)

interpretation pc_ram: emu88_engine pc
  by unfold_locales (simp_all add: pc_def add.assoc)

interpretation pc_laws: cpu_engine pc pc_cpu id
  by unfold_locales (auto simp: pc_def pc_cpu_def same_mode_def)


text \<open>A stack with the frame 1234:5678, flags 0202.\<close>

definition pc_frame :: pc_state where
  "pc_frame = \<lparr>pc_bytes = (\<lambda>_. 0)(0x20100 := 0x78, 0x20101 := 0x56, 0x20102 := 0x34, 0x20103 := 0x12, 0x20104 := 2, 0x20105 := 2),
     pc_regs = (\<lambda>_. 0), pc_ip = 0, pc_flags = 2, pc_sregs = (\<lambda>_. 0), pc_bases = (\<lambda>_. 0), pc_halted = False,
     pc_idt_base = 0, pc_idt_limit = 0x3FF\<rparr>"

definition pc_start :: "pc_state machine" where
  "pc_start = \<lparr>mem = pc_frame, reg_eax = 1, reg_ebx = 2, reg_ecx = 3, reg_edx = 4,
     reg_esi = 5, reg_edi = 6, reg_ebp = 7, reg_esp = 0x100, reg_eip = 0x10, seg_val = (\<lambda>_. 0x2000),
     seg_phys = (\<lambda>_. 0x20000), cpu_pmode = False, stack_big = False, code_big = False, reg_flags = 2, cpu_cpl = 0,
     cpu_cr0 = 0, s_int_gate_bits32 = False\<rparr>"

lemma pc_start_frame: "iret_frame pc False (seg_phys pc_start SS + stack_offset pc (mem pc_start) (reg_esp pc_start)) (mem pc_start)
    = (0x5678, 0x1234, 0x0202, 6)"
  by (simp add: iret_frame_def stack_offset_def pc_start_def pc_frame_def pc_def mem_readw_def mk16_def)


end
