(* ===== verification/Callbacks.thy ===== *)
theory Callbacks
  imports Cpu Pool
begin

text \<open>
  The callback subsystem and the run loop of the shim: native handlers are reached through stubs in segment F000 that
  start with the opcode FE 38 and a callback number. A handler is a name; its meaning, nested runs included, is the
  argument \<open>call\<close>, None when the handler does not return. Shown: a stub, once written, makes the loop call its
  handler and no other; stubs, default vectors and the stubs of \<open>CALLBACK_RunRealInt\<close> do not overwrite each other;
  a loop that reaches a stop callback returns; callback numbers are a resource pool.
\<close>

section \<open>State\<close>

text \<open>The callback tables and the run loop's variables, with the interrupt controller the loop polls.\<close>

record ('m, 'f, 'o, 'p, 'b) shim = "'m machine" +
  g_cb_handlers :: "nat \<Rightarrow> 'f option"
  g_cb_allocated :: "nat \<Rightarrow> bool"
  g_call_stop :: u8
  g_default_iret :: u8
  g_cb_stop :: bool
  g_run_depth :: nat
  g_tick_handlers :: "'f list"
  g_tick_ctr :: u32
  shutdown_requested :: bool
  hw_st :: "('o, 'p, 'b) hardware"

definition CB_MAX :: nat where "CB_MAX = 250"
definition CB_SIZE :: nat where "CB_SIZE = 32"
definition CB_SEG :: u16 where "CB_SEG = 0xF000"
definition CB_SOFFSET :: nat where "CB_SOFFSET = 0x1000"

definition CALLBACK_RealPointer :: "u8 \<Rightarrow> u32" where
  "CALLBACK_RealPointer cb = RealMake CB_SEG (of_nat (CB_SOFFSET + unat cb * CB_SIZE))"

definition CALLBACK_PhysPointer :: "u8 \<Rightarrow> u32" where
  "CALLBACK_PhysPointer cb = PhysMake CB_SEG (of_nat (CB_SOFFSET + unat cb * CB_SIZE))"

definition CALLBACK_GetBase :: u32 where
  "CALLBACK_GetBase = push_bit 4 (ucast CB_SEG) + of_nat CB_SOFFSET"

section \<open>Stubs\<close>

datatype cb_type = CB_RETN | CB_RETF | CB_RETF8 | CB_RETF_STI | CB_RETF_CLI | CB_IRET | CB_IRETD | CB_IRET_STI
  | CB_IRET_EOI_PIC1 | CB_IRQ0 | CB_IRQ1 | CB_IRQ9 | CB_IRQ12 | CB_IRQ12_RET | CB_IRQ6_PCJR | CB_MOUSE | CB_INT29
  | CB_INT16 | CB_HOOKABLE | CB_TDE_IRET | CB_IPXESR | CB_IPXESR_RET | CB_INT21 | CB_INT13 | CB_VESA_WAIT | CB_VESA_PM

definition native :: "u8 \<Rightarrow> u8 list" where "native cb = [0xFE, 0x38, cb, 0]"

definition stub_bytes :: "u8 \<Rightarrow> cb_type \<Rightarrow> u8 list" where
  "stub_bytes cb ty = (case ty of
     CB_RETN \<Rightarrow> native cb @ [0xC3]
   | CB_RETF \<Rightarrow> native cb @ [0xCB]
   | CB_RETF8 \<Rightarrow> native cb @ [0xCA, 0x08, 0x00]
   | CB_IRETD \<Rightarrow> native cb @ [0x66, 0xCF]
   | CB_INT21 \<Rightarrow> [0xFB] @ native cb @ [0xCF, 0xCB, 0x51, 0xB9, 0x40, 0x01, 0xE2, 0xFE, 0x59, 0xCF]
   | _ \<Rightarrow> native cb @ [0xCF])"

definition write_stub :: "'m emu88 \<Rightarrow> u8 \<Rightarrow> cb_type \<Rightarrow> u32 \<Rightarrow> 'm \<Rightarrow> 'm" where
  "write_stub E cb ty a m = store_bytes E a (stub_bytes cb ty) m"

section \<open>Callback numbers\<close>

definition CALLBACK_Allocate :: "('m, 'f, 'o, 'p, 'b, 'z) shim_scheme \<Rightarrow> u8 \<times> ('m, 'f, 'o, 'p, 'b, 'z) shim_scheme" where
  "CALLBACK_Allocate s = (case find (\<lambda>i. \<not> g_cb_allocated s i) [1 ..< CB_MAX] of
     Some i \<Rightarrow> (of_nat i, s\<lparr>g_cb_allocated := (g_cb_allocated s)(i := True), g_cb_handlers := (g_cb_handlers s)(i := None)\<rparr>)
   | None \<Rightarrow> (0, s))"

definition CALLBACK_DeAllocate :: "u8 \<Rightarrow> ('m, 'f, 'o, 'p, 'b, 'z) shim_scheme \<Rightarrow> ('m, 'f, 'o, 'p, 'b, 'z) shim_scheme" where
  "CALLBACK_DeAllocate cb s = (if cb \<noteq> 0 \<and> unat cb < CB_MAX
     then s\<lparr>g_cb_allocated := (g_cb_allocated s)(unat cb := False), g_cb_handlers := (g_cb_handlers s)(unat cb := None)\<rparr> else s)"

definition CALLBACK_Setup ::
  "'m emu88 \<Rightarrow> u8 \<Rightarrow> 'f \<Rightarrow> cb_type \<Rightarrow> ('m, 'f, 'o, 'p, 'b, 'z) shim_scheme \<Rightarrow> bool \<times> ('m, 'f, 'o, 'p, 'b, 'z) shim_scheme" where
  "CALLBACK_Setup E cb h ty s = (if unat cb \<ge> CB_MAX then (False, s)
     else (True, wr (write_stub E cb ty (CALLBACK_PhysPointer cb))
       (s\<lparr>g_cb_handlers := (g_cb_handlers s)(unat cb := Some h)\<rparr>)))"

section \<open>The run loop\<close>

definition peekb :: "'m emu88 \<Rightarrow> ('m, 'c) emu_cpu \<Rightarrow> 'm \<Rightarrow> u32 \<Rightarrow> u8" where
  "peekb E C m lin = (if paging_enabled C m then read_linear8 C m lin else fetch_mem E m lin)"

definition callback_number :: "'m emu88 \<Rightarrow> ('m, 'c) emu_cpu \<Rightarrow> 'm \<Rightarrow> nat option" where
  "callback_number E C m = (let lin = seg_cache_base E m CS + get_ip C m in
     if peekb E C m lin = 0xFE \<and> peekb E C m (lin + 1) = 0x38
     then Some (unat (mk16 (peekb E C m (lin + 2)) (peekb E C m (lin + 3)))) else None)"

text \<open>A handler's turn: it works on the interface, which is then copied into the engine.\<close>

definition invoke ::
  "('m, 'c) emu_cpu \<Rightarrow> ('f \<Rightarrow> ('m, 'f, 'o, 'p, 'b, 'z) shim_scheme \<Rightarrow> (bool \<times> ('m, 'f, 'o, 'p, 'b, 'z) shim_scheme) option)
     \<Rightarrow> 'f \<Rightarrow> ('m, 'f, 'o, 'p, 'b, 'z) shim_scheme \<Rightarrow> ('m, 'f, 'o, 'p, 'b, 'z) shim_scheme option" where
  "invoke C call h s = (case call h s of
     None \<Rightarrow> None
   | Some (stop, s) \<Rightarrow> let s = sync_to_emu C s in Some (if stop then s\<lparr>g_cb_stop := True\<rparr> else s))"

text \<open>One step: the handler of the callback at CS:IP, or one instruction.\<close>

definition cpu_step ::
  "'m emu88 \<Rightarrow> ('m, 'c) emu_cpu \<Rightarrow> ('f \<Rightarrow> ('m, 'f, 'o, 'p, 'b, 'z) shim_scheme \<Rightarrow> (bool \<times> ('m, 'f, 'o, 'p, 'b, 'z) shim_scheme) option)
     \<Rightarrow> ('m, 'f, 'o, 'p, 'b, 'z) shim_scheme \<Rightarrow> ('m, 'f, 'o, 'p, 'b, 'z) shim_scheme option" where
  "cpu_step E C call s = (case callback_number E C (mem s) of
     None \<Rightarrow> Some (wr (execute C) s)
   | Some n \<Rightarrow> let
       s = sync_from_emu E C s;
       s = s\<lparr>reg_eip := reg_eip s + 4\<rparr>
     in case (if n < CB_MAX then g_cb_handlers s n else None) of
          None \<Rightarrow> Some (sync_to_emu C s)
        | Some h \<Rightarrow> invoke C call h s)"

definition call_all ::
  "('f \<Rightarrow> ('m, 'f, 'o, 'p, 'b, 'z) shim_scheme \<Rightarrow> (bool \<times> ('m, 'f, 'o, 'p, 'b, 'z) shim_scheme) option) \<Rightarrow> 'f list
     \<Rightarrow> ('m, 'f, 'o, 'p, 'b, 'z) shim_scheme \<Rightarrow> ('m, 'f, 'o, 'p, 'b, 'z) shim_scheme option" where
  "call_all call hs s = fold (\<lambda>h r. case r of None \<Rightarrow> None | Some s \<Rightarrow> map_option snd (call h s)) hs (Some s)"

definition fire_ticks ::
  "'m emu88 \<Rightarrow> ('m, 'c) emu_cpu \<Rightarrow> ('f \<Rightarrow> ('m, 'f, 'o, 'p, 'b, 'z) shim_scheme \<Rightarrow> (bool \<times> ('m, 'f, 'o, 'p, 'b, 'z) shim_scheme) option)
     \<Rightarrow> ('m, 'f, 'o, 'p, 'b, 'z) shim_scheme \<Rightarrow> ('m, 'f, 'o, 'p, 'b, 'z) shim_scheme option" where
  "fire_ticks E C call s = (if g_tick_handlers s = [] then Some s
     else map_option (sync_to_emu C) (call_all call (g_tick_handlers s) (sync_from_emu E C s)))"

text \<open>What the loop does after a step that did not stop it: interrupts and ticks, at the outermost level only.\<close>

definition poll_irq :: "('m, 'c) emu_cpu \<Rightarrow> ('m, 'f, 'o, 'p, 'b, 'z) shim_scheme \<Rightarrow> ('m, 'f, 'o, 'p, 'b, 'z) shim_scheme" where
  "poll_irq C s = (if g_run_depth s = 1 \<and> get_eflags C (mem s) AND 0x0200 \<noteq> 0
     then (case take_pending_irq_vector (hw_st s) of (vec, hw) \<Rightarrow> let s = s\<lparr>hw_st := hw\<rparr> in
       if vec \<ge> 0 then wr (deliver_irq C (of_int vec)) s else s)
     else s)"

definition poll_ticks ::
  "'m emu88 \<Rightarrow> ('m, 'c) emu_cpu \<Rightarrow> ('f \<Rightarrow> ('m, 'f, 'o, 'p, 'b, 'z) shim_scheme \<Rightarrow> (bool \<times> ('m, 'f, 'o, 'p, 'b, 'z) shim_scheme) option)
     \<Rightarrow> ('m, 'f, 'o, 'p, 'b, 'z) shim_scheme \<Rightarrow> ('m, 'f, 'o, 'p, 'b, 'z) shim_scheme option" where
  "poll_ticks E C call s = (if g_run_depth s = 1 then let s = s\<lparr>g_tick_ctr := g_tick_ctr s + 1\<rparr> in
       if g_tick_ctr s AND 0x3FFF = 0 then fire_ticks E C call s else Some s
     else Some s)"

partial_function (option) run_loop ::
  "'m emu88 \<Rightarrow> ('m, 'c) emu_cpu \<Rightarrow> ('f \<Rightarrow> ('m, 'f, 'o, 'p, 'b, 'z) shim_scheme \<Rightarrow> (bool \<times> ('m, 'f, 'o, 'p, 'b, 'z) shim_scheme) option)
     \<Rightarrow> ('m, 'f, 'o, 'p, 'b, 'z) shim_scheme \<Rightarrow> ('m, 'f, 'o, 'p, 'b, 'z) shim_scheme option" where
  "run_loop E C call s = (if shutdown_requested s then Some s
     else if emu_halted C (mem s) then Some s
     else (case cpu_step E C call s of
       None \<Rightarrow> None
     | Some s \<Rightarrow> if g_cb_stop s then Some (s\<lparr>g_cb_stop := False\<rparr>)
         else (case poll_ticks E C call (poll_irq C s) of None \<Rightarrow> None | Some s \<Rightarrow> run_loop E C call s)))"

definition DOSBOX_RunMachine ::
  "'m emu88 \<Rightarrow> ('m, 'c) emu_cpu \<Rightarrow> ('f \<Rightarrow> ('m, 'f, 'o, 'p, 'b, 'z) shim_scheme \<Rightarrow> (bool \<times> ('m, 'f, 'o, 'p, 'b, 'z) shim_scheme) option)
     \<Rightarrow> ('m, 'f, 'o, 'p, 'b, 'z) shim_scheme \<Rightarrow> ('m, 'f, 'o, 'p, 'b, 'z) shim_scheme option" where
  "DOSBOX_RunMachine E C call s = (let
     s = sync_to_emu C s;
     s = s\<lparr>g_run_depth := g_run_depth s + 1\<rparr>
   in map_option (\<lambda>s. sync_from_emu E C (s\<lparr>g_run_depth := g_run_depth s - 1\<rparr>)) (run_loop E C call s))"

section \<open>Calling the guest\<close>

definition real_writew :: "'m emu88 \<Rightarrow> u16 \<Rightarrow> u16 \<Rightarrow> u16 \<Rightarrow> 'm \<Rightarrow> 'm" where
  "real_writew E sg off v m = mem_writew E (PhysMake sg off) v m"

definition set_sp :: "u16 \<Rightarrow> ('m, 'z) machine_scheme \<Rightarrow> ('m, 'z) machine_scheme" where
  "set_sp v s = s\<lparr>reg_esp := mk32 v (hi16 (reg_esp s))\<rparr>"

text \<open>Run the machine from another CS:IP and come back to this one; \<open>run\<close> is \<open>DOSBOX_RunMachine\<close>.\<close>

definition run_from ::
  "'m emu88 \<Rightarrow> (('m, 'z) machine_scheme \<Rightarrow> ('m, 'z) machine_scheme option) \<Rightarrow> u16 \<Rightarrow> u32
     \<Rightarrow> ('m, 'z) machine_scheme \<Rightarrow> ('m, 'z) machine_scheme option" where
  "run_from E run sg off s = (let oldeip = reg_eip s; oldcs = seg_val s CS in
     map_option (\<lambda>s. SegSet16 E CS oldcs (s\<lparr>reg_eip := oldeip\<rparr>)) (run (SegSet16 E CS sg (s\<lparr>reg_eip := off\<rparr>))))"

text \<open>\<open>stop\<close> is \<open>g_call_stop\<close>.\<close>

definition CALLBACK_RunRealFar ::
  "'m emu88 \<Rightarrow> (('m, 'z) machine_scheme \<Rightarrow> ('m, 'z) machine_scheme option) \<Rightarrow> u8 \<Rightarrow> u16 \<Rightarrow> u16
     \<Rightarrow> ('m, 'z) machine_scheme \<Rightarrow> ('m, 'z) machine_scheme option" where
  "CALLBACK_RunRealFar E run stop sg off s = (let
     s = set_sp (reg_sp s - 4) s;
     p = CALLBACK_RealPointer stop;
     s = wr (real_writew E (seg_val s SS) (reg_sp s + 0) (RealOff p)) s;
     s = wr (real_writew E (seg_val s SS) (reg_sp s + 2) (RealSeg p)) s
   in run_from E run sg (ucast off) s)"

definition CALLBACK_RunRealInt ::
  "'m emu88 \<Rightarrow> (('m, 'z) machine_scheme \<Rightarrow> ('m, 'z) machine_scheme option) \<Rightarrow> u8
     \<Rightarrow> ('m, 'z) machine_scheme \<Rightarrow> ('m, 'z) machine_scheme option" where
  "CALLBACK_RunRealInt E run intnum s = run_from E run CB_SEG (of_nat (CB_SOFFSET + CB_MAX * CB_SIZE + unat intnum * 6)) s"

definition CALLBACK_Idle ::
  "'m emu88 \<Rightarrow> (('m, 'z) machine_scheme \<Rightarrow> ('m, 'z) machine_scheme option) \<Rightarrow> u8
     \<Rightarrow> ('m, 'z) machine_scheme \<Rightarrow> ('m, 'z) machine_scheme option" where
  "CALLBACK_Idle E run stop s = CALLBACK_RunRealFar E run stop 0 0 s"

section \<open>Handler objects\<close>

record cb_object =
  cb_installed :: bool
  m_cb_number :: u16
  vec_installed :: bool
  vec_interrupt :: u8
  vec_old :: u32

definition object_number :: "cb_object \<Rightarrow> ('m, 'f, 'o, 'p, 'b, 'z) shim_scheme \<Rightarrow> cb_object \<times> ('m, 'f, 'o, 'p, 'b, 'z) shim_scheme" where
  "object_number ob s = (if cb_installed ob then (ob, s)
     else case CALLBACK_Allocate s of (n, s) \<Rightarrow> (ob\<lparr>cb_installed := True, m_cb_number := ucast n\<rparr>, s))"

definition object_Install where
  "object_Install E h ty ob s = (case object_number ob s of (ob, s) \<Rightarrow> (ob, snd (CALLBACK_Setup E (ucast (m_cb_number ob)) h ty s)))"

definition object_Install_at where
  "object_Install_at E h ty a ob s = (case object_number ob s of (ob, s) \<Rightarrow>
     (ob, wr (write_stub E (ucast (m_cb_number ob)) ty a) (s\<lparr>g_cb_handlers := (g_cb_handlers s)(unat (m_cb_number ob) := Some h)\<rparr>)))"

definition object_Allocate where
  "object_Allocate h ob s = (if cb_installed ob then (ob, s)
     else case object_number ob s of (ob, s) \<Rightarrow> (ob, s\<lparr>g_cb_handlers := (g_cb_handlers s)(unat (m_cb_number ob) := Some h)\<rparr>))"

definition object_Set_RealVec where
  "object_Set_RealVec E vec ob s = (if vec_installed ob then (ob, s)
     else (ob\<lparr>vec_installed := True, vec_interrupt := vec, vec_old := mem_readd E (mem s) (ucast vec * 4)\<rparr>,
       wr (mem_writed E (ucast vec * 4) (CALLBACK_RealPointer (ucast (m_cb_number ob)))) s))"

definition object_Uninstall where
  "object_Uninstall E ob s = (let
     (ob, s) = (if vec_installed ob then (ob\<lparr>vec_installed := False\<rparr>, wr (mem_writed E (ucast (vec_interrupt ob) * 4) (vec_old ob)) s)
                else (ob, s))
   in if cb_installed ob then (ob\<lparr>cb_installed := False\<rparr>, CALLBACK_DeAllocate (ucast (m_cb_number ob)) s) else (ob, s))"

section \<open>Initialisation\<close>

text \<open>The stub \<open>INT n; native call_stop\<close> of \<open>CALLBACK_RunRealInt\<close>, and where it lies.\<close>

definition rint_bytes :: "u8 \<Rightarrow> nat \<Rightarrow> u8 list" where
  "rint_bytes stop n = [0xCD, of_nat n, 0xFE, 0x38, stop, 0]"

definition rint_addr :: "nat \<Rightarrow> u32" where
  "rint_addr n = CALLBACK_GetBase + of_nat (CB_MAX * CB_SIZE) + of_nat n * 6"

definition CALLBACK_Init ::
  "'m emu88 \<Rightarrow> 'f \<Rightarrow> 'f \<Rightarrow> ('m, 'f, 'o, 'p, 'b, 'z) shim_scheme \<Rightarrow> ('m, 'f, 'o, 'p, 'b, 'z) shim_scheme" where
  "CALLBACK_Init E stop_handler iret_handler s = (let
     s = s\<lparr>g_cb_allocated := (g_cb_allocated s)(0 := True)\<rparr>;
     (stop, s) = CALLBACK_Allocate s;
     (_, s) = CALLBACK_Setup E stop stop_handler CB_IRET (s\<lparr>g_call_stop := stop\<rparr>);
     (dflt, s) = CALLBACK_Allocate s;
     (_, s) = CALLBACK_Setup E dflt iret_handler CB_IRET (s\<lparr>g_default_iret := dflt\<rparr>);
     s = wr (fold (\<lambda>v. mem_writed E (of_nat v * 4) (CALLBACK_RealPointer dflt)) [0 ..< 256]) s
   in wr (fold (\<lambda>i. store_bytes E (rint_addr i) (rint_bytes stop i)) [0 ..< 256]) s)"

definition TIMER_AddTickHandler :: "'f option \<Rightarrow> ('m, 'f, 'o, 'p, 'b, 'z) shim_scheme \<Rightarrow> ('m, 'f, 'o, 'p, 'b, 'z) shim_scheme" where
  "TIMER_AddTickHandler h s = (case h of None \<Rightarrow> s | Some h \<Rightarrow> s\<lparr>g_tick_handlers := g_tick_handlers s @ [h]\<rparr>)"

text \<open>\<open>DOS_AllocateMemory\<close>: paragraphs below the program, \<open>next\<close> being the first free one. The result is the segment, or
  the number of paragraphs left.\<close>

definition DOS_AllocateMemory :: "u16 option \<Rightarrow> u16 \<Rightarrow> (u16 + u16) \<times> u16" where
  "DOS_AllocateMemory blocks nxt = (let need = (case blocks of Some b \<Rightarrow> if b \<noteq> 0 then b else 1 | None \<Rightarrow> 1) in
     if unat nxt + unat need > 0x100 then (Inl (0x100 - nxt), nxt) else (Inr nxt, nxt + need))"

section \<open>Stubs do not interfere\<close>

lemma PhysPointer_unat: "unat cb < CB_MAX \<Longrightarrow> unat (CALLBACK_PhysPointer cb) = 0xF1000 + 32 * unat cb"
proof -
  assume "unat cb < CB_MAX"
  then have "unat (of_nat (CB_SOFFSET + unat cb * CB_SIZE) :: u16) = 0x1000 + 32 * unat cb"
    using unat_of_nat_u16 [of "CB_SOFFSET + unat cb * CB_SIZE"] by (simp add: CB_MAX_def CB_SOFFSET_def CB_SIZE_def)
  then have "unat (ucast (of_nat (CB_SOFFSET + unat cb * CB_SIZE) :: u16) :: u32) = 0x1000 + 32 * unat cb"
    using unat_u16_less [of "of_nat (CB_SOFFSET + unat cb * CB_SIZE)"] by (simp add: unsigned_ucast_eq take_bit_nat_eq_self)
  moreover have "push_bit 4 (ucast CB_SEG :: u32) = 0xF0000" by (simp add: CB_SEG_def)
  ultimately show ?thesis using \<open>unat cb < CB_MAX\<close>
    by (simp add: CALLBACK_PhysPointer_def PhysMake_def unat_word_ariths CB_MAX_def)
qed

lemma stub_bytes_length: "4 < length (stub_bytes cb ty)" "length (stub_bytes cb ty) \<le> 15"
  by (cases ty; simp add: stub_bytes_def native_def)+

text \<open>The bytes \<open>bs\<close> lie in memory from address \<open>a\<close>.\<close>

definition bytes_at :: "'m emu88 \<Rightarrow> 'm \<Rightarrow> u32 \<Rightarrow> u8 list \<Rightarrow> bool" where
  "bytes_at E m a bs \<longleftrightarrow> (\<forall>i < length bs. mem_readb E m (a + of_nat i) = bs ! i)"

definition rom_ram :: "'m emu88 \<Rightarrow> 'm \<Rightarrow> bool" where
  "rom_ram E m \<longleftrightarrow> (\<forall>b. 0xF1000 \<le> unat b \<longrightarrow> unat b < 0xF3540 \<longrightarrow> is_ram E m b)"

definition stub_area :: "u8 \<Rightarrow> u32 set" where
  "stub_area cb = {b. 0xF1000 + 32 * unat cb \<le> unat b \<and> unat b < 0xF1000 + 32 * unat cb + 32}"

lemma bytes_at_same:
  assumes "same_outside E S m m'" and "bytes_at E m a bs" and "\<And>i. i < length bs \<Longrightarrow> is_ram E m (a + of_nat i) \<and> a + of_nat i \<notin> S"
  shows "bytes_at E m' a bs"
  using assms by (auto simp: bytes_at_def same_outside_def)

lemma stored_bytes_at: "\<lbrakk>stored E a bs m m'; unat a + length bs \<le> 2 ^ 32; \<And>i. i < length bs \<Longrightarrow> is_ram E m (a + of_nat i)\<rbrakk> \<Longrightarrow> bytes_at E m' a bs"
  using unat_plus_of_nat [of a] by (fastforce simp: bytes_at_def stored_def)

lemma stored_same_outside:
  "\<lbrakk>stored E a bs m m'; \<And>b. \<lbrakk>unat a \<le> unat b; unat b < unat a + length bs\<rbrakk> \<Longrightarrow> b \<in> S\<rbrakk> \<Longrightarrow> same_outside E S m m'"
  by (auto simp: stored_def same_outside_def)

lemma same_outside_join:
  "\<lbrakk>same_outside E S m m1; same_outside E T m1 m2\<rbrakk> \<Longrightarrow> same_outside E (S \<union> T) m m2"
  by (simp add: same_outside_def)

lemma rom_ram_same: "same_outside E S m m' \<Longrightarrow> rom_ram E m' = rom_ram E m"
  by (simp add: rom_ram_def same_outside_def)

context emu88_engine
begin

lemma setup_stub:
  fixes s :: "('m, 'f, 'o, 'p, 'b, 'z) shim_scheme" and h :: 'f and ty :: cb_type
  assumes "rom_ram E (mem s)" and "unat cb < CB_MAX"
  defines "t \<equiv> snd (CALLBACK_Setup E cb h ty s)"
  shows "bytes_at E (mem t) (CALLBACK_PhysPointer cb) (stub_bytes cb ty)" and "same_outside E (stub_area cb) (mem s) (mem t)"
    and "g_cb_handlers t = (g_cb_handlers s)(unat cb := Some h)"
proof -
  let ?a = "CALLBACK_PhysPointer cb" and ?b = "stub_bytes cb ty"
  have a: "unat ?a = 0xF1000 + 32 * unat cb" by (rule PhysPointer_unat [OF assms(2)])
  have len: "length ?b \<le> 15" by (rule stub_bytes_length)
  have ram: "is_ram E (mem s) (?a + of_nat i)" if "i < length ?b" for i
    using assms(1,2) that len a unat_plus_of_nat [of ?a i] by (simp add: rom_ram_def CB_MAX_def)
  have "stored E ?a ?b (mem s) (store_bytes E ?a ?b (mem s))"
    using ram a len assms(2) by (intro store_bytes_stored) (simp_all add: CB_MAX_def)
  then have st: "stored E ?a ?b (mem s) (mem t)"
    using assms(2) by (simp add: t_def CALLBACK_Setup_def write_stub_def wr_def)
  show "bytes_at E (mem t) ?a ?b"
    using ram a len assms(2) by (intro stored_bytes_at [OF st]) (simp_all add: CB_MAX_def)
  show "same_outside E (stub_area cb) (mem s) (mem t)"
    using a len by (intro stored_same_outside [OF st]) (simp add: stub_area_def)
  show "g_cb_handlers t = (g_cb_handlers s)(unat cb := Some h)"
    using assms(2) by (simp add: t_def CALLBACK_Setup_def wr_def)
qed

lemma stub_other:
  assumes "rom_ram E m" and "unat cb < CB_MAX" and "unat cb' < CB_MAX" and "cb \<noteq> cb'"
    and "same_outside E (stub_area cb') m m'" and "bytes_at E m (CALLBACK_PhysPointer cb) (stub_bytes cb ty)"
  shows "bytes_at E m' (CALLBACK_PhysPointer cb) (stub_bytes cb ty)"
proof (rule bytes_at_same [OF assms(5,6)])
  fix i assume i: "i < length (stub_bytes cb ty)"
  have a: "unat (CALLBACK_PhysPointer cb + of_nat i) = 0xF1000 + 32 * unat cb + i"
    using PhysPointer_unat [OF assms(2)] unat_plus_of_nat [of "CALLBACK_PhysPointer cb" i] i stub_bytes_length(2) [of cb ty] assms(2)
    by (simp add: CB_MAX_def)
  have "unat cb \<noteq> unat cb'" using assms(4) by (simp add: word_unat_eq_iff)
  then show "is_ram E m (CALLBACK_PhysPointer cb + of_nat i) \<and> CALLBACK_PhysPointer cb + of_nat i \<notin> stub_area cb'"
    using assms(1,2) a i stub_bytes_length(2) [of cb ty] by (auto simp: rom_ram_def stub_area_def CB_MAX_def)
qed

end

section \<open>Setting up callbacks\<close>

definition setup_all ::
  "'m emu88 \<Rightarrow> (u8 \<times> 'f \<times> cb_type) list \<Rightarrow> ('m, 'f, 'o, 'p, 'b, 'z) shim_scheme \<Rightarrow> ('m, 'f, 'o, 'p, 'b, 'z) shim_scheme" where
  "setup_all E cs s = fold (\<lambda>(cb, h, ty) s. snd (CALLBACK_Setup E cb h ty s)) cs s"

context emu88_engine
begin

lemma setup_all_stubs:
  fixes s :: "('m, 'f, 'o, 'p, 'b, 'z) shim_scheme"
  assumes "rom_ram E (mem s)" and "\<forall>(cb, h, ty) \<in> set cs. unat cb < CB_MAX" and "distinct (map fst cs)"
    and "(cb, h, ty) \<in> set cs"
  defines "t \<equiv> setup_all E cs s"
  shows "bytes_at E (mem t) (CALLBACK_PhysPointer cb) (stub_bytes cb ty) \<and> g_cb_handlers t (unat cb) = Some h \<and> rom_ram E (mem t)"
  unfolding t_def using assms(2-4)
proof (induction cs rule: rev_induct)
  case (snoc c cs)
  obtain cb' h' ty' where c: "c = (cb', h', ty')" by (cases c)
  let ?s = "setup_all E cs s"
  have last: "unat cb' < CB_MAX" using snoc.prems(1) c by auto
  have ram: "rom_ram E (mem ?s)"
    using snoc.prems(1)
  proof (induction cs rule: rev_induct)
    case (snoc d cs)
    then show ?case
      using rom_ram_same setup_stub(2) by (fastforce simp: setup_all_def split: prod.splits)
  qed (simp add: setup_all_def assms(1))
  note st = setup_stub [OF ram last, where h = h' and ty = ty']
  have eq: "setup_all E (cs @ [c]) s = snd (CALLBACK_Setup E cb' h' ty' ?s)" by (simp add: setup_all_def c)
  show ?case
  proof (cases "(cb, h, ty) = c")
    case True
    then show ?thesis using st ram rom_ram_same [OF st(2)] unfolding eq by (simp add: c)
  next
    case False
    then have mem: "(cb, h, ty) \<in> set cs" using snoc.prems(3) by simp
    with snoc.prems(2) c have ne: "cb \<noteq> cb'" by force
    have cb: "unat cb < CB_MAX" using snoc.prems(1) mem by auto
    have IH: "bytes_at E (mem ?s) (CALLBACK_PhysPointer cb) (stub_bytes cb ty)" "g_cb_handlers ?s (unat cb) = Some h"
      using snoc.IH snoc.prems mem by auto
    have "unat cb \<noteq> unat cb'" using ne by (simp add: word_unat_eq_iff)
    then show ?thesis
      using stub_other [OF ram cb last ne st(2) IH(1)] st(3) IH(2) rom_ram_same [OF st(2)] ram by (simp add: eq)
  qed
qed simp

end

section \<open>Dispatch\<close>

text \<open>Where the native opcode of a stub is: the stub of INT 21h starts with STI.\<close>

definition stub_entry :: "u8 \<Rightarrow> cb_type \<Rightarrow> u32" where
  "stub_entry cb ty = CALLBACK_PhysPointer cb + (if ty = CB_INT21 then 1 else 0)"

lemma bytes_at_number:
  assumes "bytes_at E m a bs" and "i + 3 < length bs" and "take 4 (drop i bs) = native cb"
    and "\<not> paging_enabled C m" and "seg_cache_base E m CS + get_ip C m = a + of_nat i"
  shows "callback_number E C m = Some (unat cb)"
proof -
  have b: "mem_readb E m (a + of_nat (i + j)) = bs ! (i + j)" if "j < 4" for j
    using assms(1,2) that by (auto simp: bytes_at_def simp flip: of_nat_add)
  have n: "bs ! (i + j) = native cb ! j" if "j < 4" for j
    using arg_cong [OF assms(3), of "\<lambda>l. l ! j"] that assms(2) by (simp add: nth_append)
  have r: "peekb E C m (a + of_nat i + of_nat j) = native cb ! j" if "j < 4" for j
    using b [OF that] n [OF that] assms(4) by (simp add: peekb_def mem_readb_def add.assoc)
  from r [of 0] r [of 1] r [of 2] r [of 3] have
    "peekb E C m (a + of_nat i) = 0xFE" "peekb E C m (a + of_nat i + 1) = 0x38"
    "peekb E C m (a + of_nat i + 2) = cb" "peekb E C m (a + of_nat i + 3) = 0"
    by (simp_all add: native_def)
  moreover have "unat (mk16 cb 0) = unat cb" using unat_u8_less [of cb] by (simp add: mk16_def unsigned_ucast_eq take_bit_nat_eq_self)
  ultimately show ?thesis unfolding callback_number_def assms(5) Let_def by simp
qed

lemma stub_number:
  assumes "bytes_at E m (CALLBACK_PhysPointer cb) (stub_bytes cb ty)" and "\<not> paging_enabled C m"
    and "seg_cache_base E m CS + get_ip C m = stub_entry cb ty"
  shows "callback_number E C m = Some (unat cb)"
proof -
  let ?i = "if ty = CB_INT21 then 1 else 0 :: nat"
  have "take 4 (drop ?i (stub_bytes cb ty)) = native cb" "?i + 3 < length (stub_bytes cb ty)"
    by (cases ty; simp add: stub_bytes_def native_def)+
  with assms show ?thesis
    by (intro bytes_at_number [where i = ?i]) (auto simp: stub_entry_def)
qed

lemma cpu_step_handler:
  "\<lbrakk>callback_number E C (mem s) = Some n; n < CB_MAX; g_cb_handlers s n = Some h\<rbrakk> \<Longrightarrow>
    cpu_step E C call s = invoke C call h ((sync_from_emu E C s)\<lparr>reg_eip := get_ip C (mem s) + 4\<rparr>)"
  by (simp add: cpu_step_def sync_from_emu_def Let_def)

section \<open>The loop as a sequence of rounds\<close>

text \<open>One round either ends the loop (Inl) or goes on (Inr).\<close>

definition loop_round ::
  "'m emu88 \<Rightarrow> ('m, 'c) emu_cpu \<Rightarrow> ('f \<Rightarrow> ('m, 'f, 'o, 'p, 'b, 'z) shim_scheme \<Rightarrow> (bool \<times> ('m, 'f, 'o, 'p, 'b, 'z) shim_scheme) option)
     \<Rightarrow> ('m, 'f, 'o, 'p, 'b, 'z) shim_scheme \<Rightarrow> (('m, 'f, 'o, 'p, 'b, 'z) shim_scheme + ('m, 'f, 'o, 'p, 'b, 'z) shim_scheme) option" where
  "loop_round E C call s = (if shutdown_requested s \<or> emu_halted C (mem s) then Some (Inl s)
     else (case cpu_step E C call s of
       None \<Rightarrow> None
     | Some s \<Rightarrow> if g_cb_stop s then Some (Inl (s\<lparr>g_cb_stop := False\<rparr>))
         else map_option Inr (poll_ticks E C call (poll_irq C s))))"

lemma run_loop_round:
  "run_loop E C call s = (case loop_round E C call s of None \<Rightarrow> None | Some (Inl t) \<Rightarrow> Some t | Some (Inr u) \<Rightarrow> run_loop E C call u)"
  by (subst run_loop.simps) (auto simp: loop_round_def map_option_case split: option.split)

text \<open>\<open>run_rounds s n t\<close>: \<open>n\<close> rounds that go on, then one that ends the loop in \<open>t\<close>.\<close>

inductive run_rounds ::
  "'m emu88 \<Rightarrow> ('m, 'c) emu_cpu \<Rightarrow> ('f \<Rightarrow> ('m, 'f, 'o, 'p, 'b, 'z) shim_scheme \<Rightarrow> (bool \<times> ('m, 'f, 'o, 'p, 'b, 'z) shim_scheme) option)
     \<Rightarrow> ('m, 'f, 'o, 'p, 'b, 'z) shim_scheme \<Rightarrow> nat \<Rightarrow> ('m, 'f, 'o, 'p, 'b, 'z) shim_scheme \<Rightarrow> bool"
  for E C call where
  last: "loop_round E C call s = Some (Inl t) \<Longrightarrow> run_rounds E C call s 0 t"
| on: "\<lbrakk>loop_round E C call s = Some (Inr u); run_rounds E C call u n t\<rbrakk> \<Longrightarrow> run_rounds E C call s (Suc n) t"

lemma run_rounds_loop: "run_rounds E C call s n t \<Longrightarrow> run_loop E C call s = Some t"
  by (induction rule: run_rounds.induct) (simp_all add: run_loop_round)

lemma loop_run_rounds: "run_loop E C call s = Some t \<Longrightarrow> \<exists>n. run_rounds E C call s n t"
proof (rule run_loop.raw_induct [where P = "\<lambda>E C call s t. \<exists>n. run_rounds E C call s n t"])
  fix f E C call s t
  assume IH: "\<And>E C call s t. f E C call s = Some t \<Longrightarrow> \<exists>n. run_rounds E C call s n t"
    and eq: "(if shutdown_requested s then Some s else if emu_halted C (mem s) then Some s
      else case cpu_step E C call s of None \<Rightarrow> None
      | Some s \<Rightarrow> if g_cb_stop s then Some (s\<lparr>g_cb_stop := False\<rparr>)
          else case poll_ticks E C call (poll_irq C s) of None \<Rightarrow> None | Some s \<Rightarrow> f E C call s) = Some t"
  then have "loop_round E C call s = Some (Inl t) \<or> (\<exists>u. loop_round E C call s = Some (Inr u) \<and> f E C call u = Some t)"
    by (auto simp: loop_round_def split: if_splits option.splits)
  then show "\<exists>n. run_rounds E C call s n t"
    using IH run_rounds.last run_rounds.on by metis
qed

section \<open>The tables after initialisation\<close>

definition rint_area :: "u32 set" where "rint_area = {b. 0xF2F40 \<le> unat b \<and> unat b < 0xF3540}"
definition ivt_area :: "u32 set" where "ivt_area = {b. unat b < 0x400}"

definition ivt_ram :: "'m emu88 \<Rightarrow> 'm \<Rightarrow> bool" where
  "ivt_ram E m \<longleftrightarrow> (\<forall>b\<in>ivt_area. is_ram E m b)"

lemma rint_addr_unat:
  assumes "n < 256"
  shows "unat (rint_addr n) = 0xF2F40 + 6 * n"
proof -
  have "CALLBACK_GetBase = 0xF1000" by (simp add: CALLBACK_GetBase_def CB_SEG_def CB_SOFFSET_def)
  then have eq: "rint_addr n = of_nat (0xF2F40 + 6 * n)"
    by (simp add: rint_addr_def CB_MAX_def CB_SIZE_def mult.commute)
  show ?thesis unfolding eq by (rule unat_of_nat_u32) (use assms in simp)
qed

lemma unat_vec:
  assumes "v < 256" and "k < 4"
  shows "unat (of_nat v * 4 + of_nat k :: u32) = 4 * v + k"
proof -
  have eq: "of_nat v * 4 + of_nat k = (of_nat (4 * v + k) :: u32)" by (simp add: mult.commute)
  show ?thesis unfolding eq by (rule unat_of_nat_u32) (use assms in simp)
qed

lemma ivt_ram_same: "same_outside E S m m' \<Longrightarrow> ivt_ram E m' = ivt_ram E m"
  by (simp add: ivt_ram_def same_outside_def)

context emu88_engine
begin

lemma rint_fold:
  fixes stop :: u8
  assumes "rom_ram E m" and "n \<le> 256"
  defines "m' \<equiv> \<lambda>n. fold (\<lambda>i. store_bytes E (rint_addr i) (rint_bytes stop i)) [0 ..< n] m"
  shows "same_outside E rint_area m (m' n) \<and> (\<forall>i < n. bytes_at E (m' n) (rint_addr i) (rint_bytes stop i))"
  using assms(2)
proof (induction n)
  case (Suc n)
  then have IH: "same_outside E rint_area m (m' n)" "\<forall>i < n. bytes_at E (m' n) (rint_addr i) (rint_bytes stop i)" and n: "n < 256"
    by simp_all
  have len: "length (rint_bytes stop i) = 6" for i by (simp add: rint_bytes_def)
  have off: "unat (rint_addr i + of_nat j) = 0xF2F40 + 6 * i + j" if "i < 256" "j < 6" for i j
    using that rint_addr_unat [OF that(1)] unat_plus_of_nat [of "rint_addr i" j] by simp
  have ram: "is_ram E m (rint_addr i + of_nat j)" if "i < 256" "j < 6" for i j
    using assms(1) off [OF that] that by (simp add: rom_ram_def)
  have ram': "is_ram E (m' n) b = is_ram E m b" for b using IH(1) by (simp add: same_outside_def)
  have st: "stored E (rint_addr n) (rint_bytes stop n) (m' n) (m' (Suc n))"
    using store_bytes_stored [of "rint_bytes stop n" "m' n" "rint_addr n"] ram n len rint_addr_unat [OF n]
    by (simp add: m'_def ram' [unfolded m'_def])
  have so: "same_outside E rint_area (m' n) (m' (Suc n))"
    using n len rint_addr_unat [OF n] by (intro stored_same_outside [OF st]) (simp add: rint_area_def)
  have new: "bytes_at E (m' (Suc n)) (rint_addr n) (rint_bytes stop n)"
    using ram n len rint_addr_unat [OF n] ram' by (intro stored_bytes_at [OF st]) simp_all
  have old: "bytes_at E (m' (Suc n)) (rint_addr i) (rint_bytes stop i)" if "i < n" for i
  proof -
    have "mem_readb E (m' (Suc n)) (rint_addr i + of_nat j) = mem_readb E (m' n) (rint_addr i + of_nat j)" if "j < 6" for j
      using st ram [of i j] ram' off [of i j] rint_addr_unat [OF n] that \<open>i < n\<close> n len by (simp add: stored_def)
    then show ?thesis using IH(2) \<open>i < n\<close> len by (simp add: bytes_at_def)
  qed
  show ?case using same_outside_trans [OF IH(1) so] new old by (auto simp: less_Suc_eq)
qed (simp add: m'_def)

lemma ivt_fold:
  fixes p :: u32
  assumes "ivt_ram E m" and "n \<le> 256"
  defines "m' \<equiv> \<lambda>n. fold (\<lambda>v. mem_writed E (of_nat v * 4) p) [0 ..< n] m"
  shows "same_outside E ivt_area m (m' n) \<and> (\<forall>v < n. mem_readd E (m' n) (of_nat v * 4) = p)"
  using assms(2)
proof (induction n)
  case (Suc n)
  then have IH: "same_outside E ivt_area m (m' n)" "\<forall>v < n. mem_readd E (m' n) (of_nat v * 4) = p" and n: "n < 256"
    by simp_all
  have off: "unat (of_nat v * 4 + of_nat k :: u32) = 4 * v + k" if "v \<le> n" "k < 4" for v k
    using unat_vec [of v k] that n by simp
  have ivt: "of_nat v * 4 + of_nat k \<in> ivt_area" if "v \<le> n" "k < 4" for v k
    using off [OF that] that n by (simp add: ivt_area_def)
  have ram: "is_ram E (m' n) (of_nat v * 4 + of_nat k)" if "v \<le> n" "k < 4" for v k
    using IH(1) assms(1) ivt [OF that] by (auto simp: ivt_ram_def same_outside_def)
  note r = ram [OF _, of _ 0] ram [OF _, of _ 1] ram [OF _, of _ 2] ram [OF _, of _ 3]
  note i = ivt [OF _, of _ 0] ivt [OF _, of _ 1] ivt [OF _, of _ 2] ivt [OF _, of _ 3]
  have step: "m' (Suc n) = mem_writed E (of_nat n * 4) p (m' n)" by (simp add: m'_def)
  have so: "same_outside E ivt_area (m' n) (m' (Suc n))"
    using r [of n] i [of n] by (auto simp: step same_outside_def mem_simps)
  have old: "mem_readd E (m' (Suc n)) (of_nat v * 4) = p" if "v < n" for v
  proof -
    have ne: "of_nat v * 4 + of_nat k \<noteq> (of_nat n * 4 + of_nat l :: u32)" if "k < 4" "l < 4" for k l
    proof
      assume "of_nat v * 4 + of_nat k = (of_nat n * 4 + of_nat l :: u32)"
      then have "4 * v + k = 4 * n + l" using off [of v k] off [of n l] that \<open>v < n\<close> by simp
      with that \<open>v < n\<close> show False by linarith
    qed
    have "mem_readb E (m' (Suc n)) (of_nat v * 4 + of_nat k) = mem_readb E (m' n) (of_nat v * 4 + of_nat k)" if "k < 4" for k
      using r [of n] ram [of v k] ne [OF that, of 0] ne [OF that, of 1] ne [OF that, of 2] ne [OF that, of 3] that \<open>v < n\<close>
      by (simp add: step readb_writed)
    from this [of 0] this [of 1] this [of 2] this [of 3]
    have "mem_readd E (m' (Suc n)) (of_nat v * 4) = mem_readd E (m' n) (of_nat v * 4)"
      using r [of v] r [of n] \<open>v < n\<close> by (simp add: readd_words readw_bytes step ram_writed add.assoc)
    with IH(2) \<open>v < n\<close> show ?thesis by simp
  qed
  show ?case using same_outside_trans [OF IH(1) so] old r [of n] by (auto simp: less_Suc_eq step mem_simps)
qed (simp add: m'_def)

end

lemma Allocate_fresh:
  assumes "\<forall>i < n. i \<noteq> 0 \<longrightarrow> g_cb_allocated s i" and "\<not> g_cb_allocated s n" and "0 < n" and "n < CB_MAX"
  shows "CALLBACK_Allocate s = (of_nat n, s\<lparr>g_cb_allocated := (g_cb_allocated s)(n := True), g_cb_handlers := (g_cb_handlers s)(n := None)\<rparr>)"
proof -
  have "find (\<lambda>i. \<not> g_cb_allocated s i) [1 ..< CB_MAX] = Some n"
    using assms by (auto simp: find_Some_iff intro!: exI [of _ "n - 1"])
  then show ?thesis by (simp add: CALLBACK_Allocate_def)
qed

lemma Setup_frame [simp]:
  "g_cb_allocated (snd (CALLBACK_Setup E cb h ty s)) = g_cb_allocated s"
  "g_call_stop (snd (CALLBACK_Setup E cb h ty s)) = g_call_stop s"
  "g_default_iret (snd (CALLBACK_Setup E cb h ty s)) = g_default_iret s"
  by (simp_all add: CALLBACK_Setup_def wr_def)

context emu88_engine
begin

lemma stub_far:
  assumes "rom_ram E m" and "unat cb < CB_MAX" and "same_outside E (ivt_area \<union> rint_area) m m'"
    and "bytes_at E m (CALLBACK_PhysPointer cb) (stub_bytes cb ty)"
  shows "bytes_at E m' (CALLBACK_PhysPointer cb) (stub_bytes cb ty)"
proof (rule bytes_at_same [OF assms(3,4)])
  fix i assume i: "i < length (stub_bytes cb ty)"
  have "unat (CALLBACK_PhysPointer cb + of_nat i) = 0xF1000 + 32 * unat cb + i"
    using PhysPointer_unat [OF assms(2)] unat_plus_of_nat [of "CALLBACK_PhysPointer cb" i] i stub_bytes_length(2) [of cb ty] assms(2)
    by (simp add: CB_MAX_def)
  then show "is_ram E m (CALLBACK_PhysPointer cb + of_nat i) \<and> CALLBACK_PhysPointer cb + of_nat i \<notin> ivt_area \<union> rint_area"
    using assms(1,2) i stub_bytes_length(2) [of cb ty] by (auto simp: rom_ram_def ivt_area_def rint_area_def CB_MAX_def)
qed

lemma readd_far:
  assumes "ivt_ram E m" and "same_outside E rint_area m m'" and "v < 256"
  shows "mem_readd E m' (of_nat v * 4) = mem_readd E m (of_nat v * 4)"
proof -
  have "is_ram E m (of_nat v * 4 + of_nat k) \<and> is_ram E m' (of_nat v * 4 + of_nat k)
      \<and> mem_readb E m' (of_nat v * 4 + of_nat k) = mem_readb E m (of_nat v * 4 + of_nat k)" if "k < 4" for k
    using assms unat_vec [OF assms(3) that] that by (auto simp: ivt_ram_def ivt_area_def rint_area_def same_outside_def)
  from this [of 0] this [of 1] this [of 2] this [of 3] show ?thesis by (simp add: readd_words readw_bytes add.assoc)
qed

end

section \<open>Callback numbers as a pool\<close>

definition cb_live :: "('m, 'f, 'o, 'p, 'b, 'z) shim_scheme \<Rightarrow> u8 set" where
  "cb_live s = {cb. cb \<noteq> 0 \<and> unat cb < CB_MAX \<and> g_cb_allocated s (unat cb)}"

definition cb_acquire :: "('m, 'f, 'o, 'p, 'b, 'z) shim_scheme \<Rightarrow> (u8 \<times> ('m, 'f, 'o, 'p, 'b, 'z) shim_scheme) option" where
  "cb_acquire s = (case CALLBACK_Allocate s of (cb, s) \<Rightarrow> if cb = 0 then None else Some (cb, s))"

lemma cb_acquire_Some:
  assumes "cb_acquire s = Some (cb, t)"
  shows "cb \<noteq> 0 \<and> unat cb < CB_MAX \<and> \<not> g_cb_allocated s (unat cb)
    \<and> t = s\<lparr>g_cb_allocated := (g_cb_allocated s)(unat cb := True), g_cb_handlers := (g_cb_handlers s)(unat cb := None)\<rparr>"
proof -
  from assms obtain n where n: "find (\<lambda>i. \<not> g_cb_allocated s i) [1 ..< CB_MAX] = Some n" and cb: "cb = of_nat n"
    and t: "t = s\<lparr>g_cb_allocated := (g_cb_allocated s)(n := True), g_cb_handlers := (g_cb_handlers s)(n := None)\<rparr>"
    by (auto simp: cb_acquire_def CALLBACK_Allocate_def split: option.splits if_splits)
  from n have "1 \<le> n" "n < CB_MAX" "\<not> g_cb_allocated s n" by (auto simp: find_Some_iff)
  moreover then have "unat cb = n" using unat_of_nat_u8 [of n] by (simp add: cb CB_MAX_def)
  ultimately show ?thesis using t by (auto simp: unat_eq_zero)
qed

lemma cb_acquire_None: "cb_acquire s = None \<Longrightarrow> cb_live s = {cb. cb \<noteq> 0 \<and> unat cb < CB_MAX}"
proof -
  assume a: "cb_acquire s = None"
  have "find (\<lambda>i. \<not> g_cb_allocated s i) [1 ..< CB_MAX] = None"
  proof (cases "find (\<lambda>i. \<not> g_cb_allocated s i) [1 ..< CB_MAX]")
    case (Some n)
    then have n: "1 \<le> n" "n < CB_MAX" by (auto simp: find_Some_iff)
    then have "unat (of_nat n :: u8) = n" by (intro unat_of_nat_u8) (simp add: CB_MAX_def)
    with n a Some show ?thesis by (auto simp: cb_acquire_def CALLBACK_Allocate_def unat_eq_zero split: if_splits)
  qed
  then have "g_cb_allocated s i" if "1 \<le> i" "i < CB_MAX" for i using that by (auto simp: find_None_iff)
  then show ?thesis by (auto simp: cb_live_def Suc_le_eq unat_gt_0)
qed

interpretation cb_pool: resource_pool "\<lambda>_ :: ('m, 'f, 'o, 'p, 'b, 'z) shim_scheme. True" cb_live "{cb. cb \<noteq> 0 \<and> unat cb < CB_MAX}"
  cb_acquire CALLBACK_DeAllocate
proof
  fix s s' :: "('m, 'f, 'o, 'p, 'b, 'z) shim_scheme" and k
  show "cb_acquire s = Some (k, s') \<Longrightarrow> k \<in> {cb. cb \<noteq> 0 \<and> unat cb < CB_MAX} \<and> k \<notin> cb_live s \<and> cb_live s' = insert k (cb_live s)"
    using cb_acquire_Some [of s k s'] by (auto simp: cb_live_def word_unat_eq_iff)
  show "cb_acquire s = None \<Longrightarrow> cb_live s = {cb. cb \<noteq> 0 \<and> unat cb < CB_MAX}" by (rule cb_acquire_None)
  show "k \<in> cb_live s \<Longrightarrow> cb_live (CALLBACK_DeAllocate k s) = cb_live s - {k}"
    by (auto simp: cb_live_def CALLBACK_DeAllocate_def word_unat_eq_iff)
qed (auto simp: cb_live_def)

lemma CALLBACK_Init_allocated:
  assumes "g_cb_allocated s = (\<lambda>_. False)"
  shows "g_cb_allocated (CALLBACK_Init E hs hi s) = (\<lambda>i. i < 3)"
proof -
  let ?al = "\<lambda>(n :: nat) i. i < n"
  have step: "CALLBACK_Allocate s = (of_nat n, s\<lparr>g_cb_allocated := ?al (Suc n), g_cb_handlers := (g_cb_handlers s)(n := None)\<rparr>)"
    if "g_cb_allocated s = ?al n" "0 < n" "n < CB_MAX" for n and s :: "('a, 'b, 'c, 'd, 'e, 'f) shim_scheme"
  proof -
    have "(?al n)(n := True) = ?al (Suc n)" by (auto simp: less_Suc_eq)
    with Allocate_fresh [of n s] that show ?thesis by simp
  qed
  note a1 = step [of _ 1, simplified] and a2 = step [of _ 2, simplified]
  have "(\<lambda>_. False)(0 := True) = (\<lambda>i :: nat. i = 0)" by (rule ext) simp
  moreover have "(\<lambda>i. i < Suc (Suc 0)) = (\<lambda>i. i < 2)" "(\<lambda>i. i < Suc 2) = (\<lambda>i. i < 3)" by auto
  ultimately show ?thesis
    using assms by (simp add: CALLBACK_Init_def case_prod_beta Let_def a1 a2 CB_MAX_def wr_def del: upt_rec_numeral)
qed

section \<open>Properties\<close>

text \<open>C31: callbacks reach their handlers. After any sequence of \<open>CALLBACK_Setup\<close> on distinct callback numbers, in whatever
  order, a CPU that arrives at the entry of one of the stubs (with the tables and the stubs' memory as the set-up left
  them) runs the handler registered for that number and no other, with the instruction pointer past the native opcode.\<close>

theorem callbacks_dispatch:
  assumes "emu88_engine E" and "rom_ram E (mem s)" and "\<forall>(cb, h, ty) \<in> set cs. unat cb < CB_MAX" and "distinct (map fst cs)"
    and "(cb, h, ty) \<in> set cs" and "fetch_mem E (mem t) = fetch_mem E (mem (setup_all E cs s))"
    and "g_cb_handlers t = g_cb_handlers (setup_all E cs s)" and "\<not> paging_enabled C (mem t)"
    and "seg_cache_base E (mem t) CS + get_ip C (mem t) = stub_entry cb ty"
  shows "cpu_step E C call t = invoke C call h ((sync_from_emu E C t)\<lparr>reg_eip := get_ip C (mem t) + 4\<rparr>)"
proof -
  note st = emu88_engine.setup_all_stubs [OF assms(1-5)]
  have "bytes_at E (mem t) (CALLBACK_PhysPointer cb) (stub_bytes cb ty)"
    using st assms(6) by (simp add: bytes_at_def mem_readb_def)
  from stub_number [OF this assms(8,9)] have "callback_number E C (mem t) = Some (unat cb)" .
  moreover have "unat cb < CB_MAX" using assms(3,5) by auto
  moreover have "g_cb_handlers t (unat cb) = Some h" unfolding assms(7) using st by (rule conjunct2 [THEN conjunct1])
  ultimately show ?thesis by (rule cpu_step_handler)
qed

text \<open>The run loop returns exactly when the machine gets, after finitely many rounds, to one that ends it: a stop request of
  a callback, a halted CPU or a shutdown; and it returns the state of that round.\<close>

theorem run_loop_returns:
  "run_loop E C call s = Some t \<longleftrightarrow> (\<exists>n. run_rounds E C call s n t)"
  using run_rounds_loop loop_run_rounds by metis

text \<open>Initialisation. Afterwards each of the 256 interrupt vectors points to the stub of the default handler, each of the
  256 stubs of \<open>CALLBACK_RunRealInt\<close> holds INT n and the call of the stop callback, both stubs are in place
  with their handlers, and nothing else in memory has changed.\<close>

theorem CALLBACK_Init_tables:
  fixes s :: "('m, 'f, 'o, 'p, 'b, 'z) shim_scheme" and hs hi :: 'f
  assumes "emu88_engine E" and "rom_ram E (mem s)" and "ivt_ram E (mem s)" and "g_cb_allocated s = (\<lambda>_. False)"
  shows "let t = CALLBACK_Init E hs hi s in g_call_stop t = 1 \<and> g_default_iret t = 2 \<and> g_cb_handlers t 1 = Some hs \<and> g_cb_handlers t 2 = Some hi
    \<and> (\<forall>v < 256. mem_readd E (mem t) (of_nat v * 4) = CALLBACK_RealPointer 2)
    \<and> (\<forall>n < 256. bytes_at E (mem t) (rint_addr n) (rint_bytes 1 n))
    \<and> bytes_at E (mem t) (CALLBACK_PhysPointer 1) (stub_bytes 1 CB_IRET)
    \<and> bytes_at E (mem t) (CALLBACK_PhysPointer 2) (stub_bytes 2 CB_IRET)
    \<and> same_outside E (stub_area 1 \<union> stub_area 2 \<union> ivt_area \<union> rint_area) (mem s) (mem t)"
proof -
  define s1 where "s1 = s\<lparr>g_cb_allocated := (\<lambda>_. False)(0 := True, Suc 0 := True), g_cb_handlers := (g_cb_handlers s)(Suc 0 := None), g_call_stop := 1\<rparr>"
  define s2 where "s2 = snd (CALLBACK_Setup E 1 hs CB_IRET s1)"
  define s3 where "s3 = s2\<lparr>g_cb_allocated := (g_cb_allocated s2)(2 := True), g_cb_handlers := (g_cb_handlers s2)(2 := None), g_default_iret := 2\<rparr>"
  define s4 where "s4 = snd (CALLBACK_Setup E 2 hi CB_IRET s3)"
  define m5 where "m5 = fold (\<lambda>v. mem_writed E (of_nat v * 4) (CALLBACK_RealPointer 2)) [0 ..< 256] (mem s4)"
  define m6 where "m6 = fold (\<lambda>i. store_bytes E (rint_addr i) (rint_bytes 1 i)) [0 ..< 256] m5"
  have a1: "CALLBACK_Allocate (s\<lparr>g_cb_allocated := (\<lambda>_. False)(0 := True)\<rparr>) =
      (1, s\<lparr>g_cb_allocated := (\<lambda>_. False)(0 := True, Suc 0 := True), g_cb_handlers := (g_cb_handlers s)(Suc 0 := None)\<rparr>)"
    by (subst Allocate_fresh [where n = "Suc 0"]) (simp_all add: CB_MAX_def)
  have al2: "g_cb_allocated s2 = (\<lambda>_. False)(0 := True, Suc 0 := True)" "g_call_stop s2 = 1" by (simp_all add: s2_def s1_def)
  have a2: "CALLBACK_Allocate s2 =
      (2, s2\<lparr>g_cb_allocated := (g_cb_allocated s2)(2 := True), g_cb_handlers := (g_cb_handlers s2)(2 := None)\<rparr>)"
    by (subst Allocate_fresh [where n = 2]) (auto simp: al2 CB_MAX_def less_2_cases_iff)
  have t: "CALLBACK_Init E hs hi s = s4\<lparr>mem := m6\<rparr>"
    unfolding CALLBACK_Init_def assms(4) a1 Let_def prod.case
    unfolding s1_def [symmetric] case_prod_beta s2_def [symmetric]
    unfolding a2 fst_conv snd_conv s3_def [symmetric] s4_def [symmetric]
    by (simp add: wr_def m5_def m6_def del: upt_rec_numeral)
  note engine = assms(1) and all_same = emu88_engine.setup_stub [OF assms(1)]
  have m1: "mem s1 = mem s" and m3: "mem s3 = mem s2" by (simp_all add: s1_def s3_def)
  have cb: "unat (1 :: u8) < CB_MAX" "unat (2 :: u8) < CB_MAX" by (simp_all add: CB_MAX_def)
  have ram1: "rom_ram E (mem s1)" using assms(2) m1 by simp
  note st1 = emu88_engine.setup_stub [OF engine ram1 cb(1), where h = hs and ty = CB_IRET, folded s2_def]
  have ram3: "rom_ram E (mem s3)" using rom_ram_same [OF st1(2)] ram1 m3 by simp
  note st2 = emu88_engine.setup_stub [OF engine ram3 cb(2), where h = hi and ty = CB_IRET, folded s4_def]
  have stub1: "bytes_at E (mem s4) (CALLBACK_PhysPointer 1) (stub_bytes 1 CB_IRET)"
    using emu88_engine.stub_other [OF engine ram3 cb _ st2(2)] st1(1) m3 by simp
  have so4: "same_outside E (stub_area 1 \<union> stub_area 2) (mem s) (mem s4)"
    using same_outside_join [OF st1(2)] st2(2) m1 m3 by simp
  have ram4: "ivt_ram E (mem s4)" "rom_ram E (mem s4)"
    using assms(2,3) rom_ram_same [OF so4] ivt_ram_same [OF so4] by blast+
  note ivt = emu88_engine.ivt_fold [OF engine ram4(1) order_refl, where p = "CALLBACK_RealPointer 2", folded m5_def]
  have ram5: "rom_ram E m5" using rom_ram_same [OF conjunct1 [OF ivt]] ram4(2) by (rule iffD2)
  note rint = emu88_engine.rint_fold [OF engine ram5 order_refl, where stop = 1, folded m6_def]
  have so6: "same_outside E (ivt_area \<union> rint_area) (mem s4) m6"
    by (rule same_outside_join [OF conjunct1 [OF ivt] conjunct1 [OF rint]])
  have ivt5: "ivt_ram E m5" using ivt_ram_same [OF conjunct1 [OF ivt]] ram4(1) by (rule iffD2)
  have "same_outside E (stub_area 1 \<union> stub_area 2 \<union> ivt_area \<union> rint_area) (mem s) m6"
    using same_outside_join [OF so4 so6] by (simp add: Un_assoc)
  moreover have "bytes_at E m6 (CALLBACK_PhysPointer 1) (stub_bytes 1 CB_IRET)" "bytes_at E m6 (CALLBACK_PhysPointer 2) (stub_bytes 2 CB_IRET)"
    using emu88_engine.stub_far [OF engine ram4(2) _ so6] cb stub1 st2(1) by simp_all
  moreover have "\<forall>v < 256. mem_readd E m6 (of_nat v * 4) = CALLBACK_RealPointer 2"
    using emu88_engine.readd_far [OF engine ivt5 conjunct1 [OF rint]] conjunct2 [OF ivt] by metis
  moreover have "g_call_stop s4 = 1" "g_default_iret s4 = 2" by (simp_all add: s4_def s3_def al2)
  moreover have "g_cb_handlers s2 1 = Some hs" using st1(3) by simp
  then have "g_cb_handlers s4 1 = Some hs" "g_cb_handlers s4 2 = Some hi" using st2(3) by (simp_all add: s3_def)
  moreover have fr: "g_call_stop (s4\<lparr>mem := m6\<rparr>) = g_call_stop s4" "g_default_iret (s4\<lparr>mem := m6\<rparr>) = g_default_iret s4"
    "g_cb_handlers (s4\<lparr>mem := m6\<rparr>) = g_cb_handlers s4" "mem (s4\<lparr>mem := m6\<rparr>) = m6" by simp_all
  ultimately show ?thesis using conjunct2 [OF rint] unfolding t Let_def fr by (simp only: simp_thms)
qed

section \<open>Concrete runs\<close>

text \<open>A fresh machine: no callbacks, zeroed memory.\<close>

definition shim_start :: "(pc_state, nat, unit, unit, unit) shim" where
  "shim_start = machine.extend pc_start \<lparr>g_cb_handlers = (\<lambda>_. None), g_cb_allocated = (\<lambda>_. False), g_call_stop = 0, g_default_iret = 0,
     g_cb_stop = False, g_run_depth = 0, g_tick_handlers = [], g_tick_ctr = 0, shutdown_requested = False, hw_st = hw_static\<rparr>"

lemma shim_start_ram: "rom_ram pc (mem shim_start)" "ivt_ram pc (mem shim_start)"
  by (simp_all add: rom_ram_def ivt_ram_def)

text \<open>Handlers 7 and 8 installed on callbacks 5 and 9, and the CPU at the stub of 9.\<close>

definition shim_two :: "(u8 \<times> nat \<times> cb_type) list" where "shim_two = [(5, 7, CB_RETF), (9, 8, CB_INT21)]"

definition shim_at_stub :: "(pc_state, nat, unit, unit, unit) shim" where
  "shim_at_stub = wr (\<lambda>m. m\<lparr>pc_ip := 0x1121, pc_bases := \<lambda>_. 0xF0000\<rparr>) (setup_all pc shim_two shim_start)"

theorem callbacks_dispatch_witness:
  "cpu_step pc pc_cpu (\<lambda>h s. if h = 8 then Some (True, s) else None) shim_at_stub \<noteq> None"
proof -
  have "cpu_step pc pc_cpu (\<lambda>h s. if h = 8 then Some (True, s) else None) shim_at_stub =
      invoke pc_cpu (\<lambda>h s. if h = 8 then Some (True, s) else None) 8
        ((sync_from_emu pc pc_cpu shim_at_stub)\<lparr>reg_eip := get_ip pc_cpu (mem shim_at_stub) + 4\<rparr>)"
    by (rule callbacks_dispatch [OF pc_ram.emu88_engine_axioms shim_start_ram(1), where cs = shim_two and cb = 9 and ty = CB_INT21])
      (simp_all add: shim_two_def shim_at_stub_def wr_def CB_MAX_def pc_def pc_cpu_def stub_entry_def
        CALLBACK_PhysPointer_def PhysMake_def CB_SEG_def CB_SOFFSET_def CB_SIZE_def)
  then show ?thesis by (simp add: invoke_def)
qed

theorem CALLBACK_Init_tables_witness:
  "let t = CALLBACK_Init pc 11 12 shim_start in g_cb_handlers t 1 = Some 11
    \<and> mem_readd pc (mem t) (of_nat 0x21 * 4) = CALLBACK_RealPointer 2 \<and> bytes_at pc (mem t) (rint_addr 0x10) (rint_bytes 1 0x10)"
proof -
  have "g_cb_allocated shim_start = (\<lambda>_. False)" by (simp add: shim_start_def machine.defs)
  note t = CALLBACK_Init_tables [OF pc_ram.emu88_engine_axioms shim_start_ram this, of 11 12, unfolded Let_def]
  have "(0x21 :: nat) < 256" "(0x10 :: nat) < 256" by simp_all
  with t show ?thesis unfolding Let_def by blast
qed

end
