(* ===== verification/Config.thy ===== *)
theory Config
  imports Paths
begin

text \<open>
  The configuration of \<open>config.cc\<close>, the command line of \<open>dosiz.cc\<close> and the environment switches of
  \<open>debug_settings.cpp\<close>: the \<open>.cfg\<close> parser, environment expansion, the search for the program, the sidecar file.
  The process environment and the host file system are parameters; a file is the list of its lines, None when it
  cannot be opened. Messages on stderr are left out. Shown: a printed configuration is parsed back unchanged.
\<close>

section \<open>Data\<close>

text \<open>An \<open>int\<close> of the code, read with \<open>sint\<close>.\<close>

type_synonym s32 = "32 word"

record drive_mount =
  dm_letter :: char
  dm_host_path :: string
  dm_mode :: file_mode

record config =
  program :: string
  args :: "string list"
  chdir_path :: string
  drives :: "drive_mount list"
  default_mode :: file_mode
  default_eol_convert :: bool
  file_mappings :: "file_mapping list"
  printer_path :: string
  aux_in_path :: string
  aux_out_path :: string
  machine_type :: string
  cputype :: string
  cpu_core :: string
  memsize_mb :: s32
  headless :: bool
  verbose :: s32

definition default_config :: config where
  "default_config = \<lparr>program = [], args = [], chdir_path = [], drives = [], default_mode = Auto, default_eol_convert = True,
     file_mappings = [], printer_path = [], aux_in_path = [], aux_out_path = [], machine_type = ''svga_s3'',
     cputype = ''auto'', cpu_core = ''auto'', memsize_mb = 16, headless = True, verbose = 0\<rparr>"

section \<open>Strings\<close>

definition is_blank :: "char \<Rightarrow> bool" where
  "is_blank c \<longleftrightarrow> c \<in> {CHR '' '', CHR 0x09, CHR 0x0D, CHR 0x0A}"

definition trim :: "string \<Rightarrow> string" where
  "trim s = (case find_first (\<lambda>c. \<not> is_blank c) s of None \<Rightarrow> []
     | Some b \<Rightarrow> (case find_last (\<lambda>c. \<not> is_blank c) s of None \<Rightarrow> [] | Some e \<Rightarrow> take (e - b + 1) (drop b s)))"

text \<open>\<open>isspace\<close>, \<open>isdigit\<close> and \<open>isalnum\<close> in the C locale.\<close>

definition isspace :: "char \<Rightarrow> bool" where
  "isspace c \<longleftrightarrow> (let n = of_char c :: nat in n = 32 \<or> 9 \<le> n \<and> n \<le> 13)"

definition isdigit :: "char \<Rightarrow> bool" where
  "isdigit c \<longleftrightarrow> (let n = of_char c :: nat in 48 \<le> n \<and> n \<le> 57)"

definition isalnum :: "char \<Rightarrow> bool" where
  "isalnum c \<longleftrightarrow> isdigit c \<or> (let n = of_char c :: nat in 65 \<le> n \<and> n \<le> 90 \<or> 97 \<le> n \<and> n \<le> 122)"

text \<open>\<open>std::atoi\<close> is \<open>strtol\<close>, which saturates at 64 bits, cut to an \<open>int\<close>.\<close>

definition strtol :: "string \<Rightarrow> int" where
  "strtol s = (let
     s = dropWhile isspace s;
     (neg, s) = (case s of c # cs \<Rightarrow> if c = CHR ''-'' then (True, cs) else if c = CHR ''+'' then (False, cs) else (False, s)
                 | [] \<Rightarrow> (False, s));
     n = foldl (\<lambda>n c. n * 10 + (int (of_char c) - 48)) 0 (takeWhile isdigit s)
   in max (- (2 ^ 63)) (min (2 ^ 63 - 1) (if neg then - n else n)))"

definition atoi :: "string \<Rightarrow> s32" where
  "atoi s = word_of_int (strtol s)"

definition parse_mode :: "string \<Rightarrow> file_mode" where
  "parse_mode v = (if v = ''text'' then Text else if v = ''binary'' then Binary else Auto)"

definition parse_bool :: "string \<Rightarrow> bool" where
  "parse_bool v \<longleftrightarrow> v = ''true'' \<or> v = ''1'' \<or> v = ''yes'' \<or> v = ''on''"

text \<open>\<open>$NAME\<close> and \<open>${NAME}\<close>; a variable that is not set expands to nothing.\<close>

function expand_env_vars :: "(string \<Rightarrow> string option) \<Rightarrow> string \<Rightarrow> string" where
  "expand_env_vars env s = (case s of [] \<Rightarrow> []
     | c # cs \<Rightarrow>
       if c \<noteq> CHR ''$'' then c # expand_env_vars env cs
       else let
         (name, rest) = (case cs of
             b # bs \<Rightarrow> if b = CHR ''{'' then (takeWhile (\<lambda>c. c \<noteq> CHR ''}'') bs, drop 1 (dropWhile (\<lambda>c. c \<noteq> CHR ''}'') bs))
                       else (takeWhile (\<lambda>c. isalnum c \<or> c = CHR ''_'') cs, dropWhile (\<lambda>c. isalnum c \<or> c = CHR ''_'') cs)
           | [] \<Rightarrow> ([], []))
       in (case env name of Some v \<Rightarrow> v | None \<Rightarrow> []) @ expand_env_vars env rest)"
  by pat_completeness auto
termination
proof (relation "measure (length \<circ> snd)", goal_cases)
  case (3 env s c cs)
  then show ?case
    by (auto split: list.splits if_splits simp: less_Suc_eq_le
        intro: le_trans [OF length_dropWhile_le] le_trans [OF diff_le_self length_dropWhile_le] le_trans [OF diff_le_self le_trans [OF length_dropWhile_le]])
qed auto

declare expand_env_vars.simps [simp del]

section \<open>The parser\<close>

text \<open>Split on whitespace into the tokens that are not empty.\<close>

definition split_args :: "string \<Rightarrow> string list \<Rightarrow> string list" where
  "split_args val as = (let
     (as, tok) = fold (\<lambda>c (as, tok). if isspace c then (if tok \<noteq> [] then (as @ [tok], []) else (as, tok)) else (as, tok @ [c]))
       val (as, [])
   in if tok \<noteq> [] then as @ [tok] else as)"

definition is_mode_name :: "string \<Rightarrow> bool" where
  "is_mode_name v \<longleftrightarrow> v = ''text'' \<or> v = ''binary'' \<or> v = ''auto''"

definition with_mode :: "string \<Rightarrow> file_mapping \<Rightarrow> file_mapping" where
  "with_mode v m = (let m = m\<lparr>fm_mode := parse_mode v\<rparr> in if fm_mode m = Binary then m\<lparr>fm_eol_convert := False\<rparr> else m)"

definition parse_mapping :: "config \<Rightarrow> string \<Rightarrow> string \<Rightarrow> file_mapping" where
  "parse_mapping cfg key val = (let
     m = \<lparr>fm_pattern = key, fm_host_path = [], fm_mode = default_mode cfg, fm_eol_convert = default_eol_convert cfg\<rparr>
   in if is_mode_name val then with_mode val m
      else let
        (m, val) = (case find_last (\<lambda>c. c = CHR '' '') val of
            Some sp \<Rightarrow> if is_mode_name (drop (sp + 1) val) then (with_mode (drop (sp + 1) val) m, trim (take sp val)) else (m, val)
          | None \<Rightarrow> (m, val))
      in m\<lparr>fm_host_path := val\<rparr>)"

definition set_key :: "string \<Rightarrow> string \<Rightarrow> config \<Rightarrow> config" where
  "set_key key val cfg =
    (if key = ''program'' then cfg\<lparr>program := val\<rparr>
     else if key = ''cd'' \<or> key = ''chdir'' then cfg\<lparr>chdir_path := val\<rparr>
     else if key = ''default_mode'' then cfg\<lparr>default_mode := parse_mode val\<rparr>
     else if key = ''eol_convert'' then cfg\<lparr>default_eol_convert := parse_bool val\<rparr>
     else if key = ''verbose'' then cfg\<lparr>verbose := atoi val\<rparr>
     else if key = ''printer'' then cfg\<lparr>printer_path := val\<rparr>
     else if key = ''aux_input'' then cfg\<lparr>aux_in_path := val\<rparr>
     else if key = ''aux_output'' then cfg\<lparr>aux_out_path := val\<rparr>
     else if key = ''machine'' then cfg\<lparr>machine_type := val\<rparr>
     else if key = ''cputype'' then cfg\<lparr>cputype := val\<rparr>
     else if key = ''core'' then cfg\<lparr>cpu_core := val\<rparr>
     else if key = ''memsize'' then cfg\<lparr>memsize_mb := atoi val\<rparr>
     else if key = ''headless'' then cfg\<lparr>headless := parse_bool val\<rparr>
     else if take 6 key = ''drive_'' \<and> length key = 7 then
       cfg\<lparr>drives := drives cfg @ [\<lparr>dm_letter = toupper (key ! 6), dm_host_path = val, dm_mode = Auto\<rparr>]\<rparr>
     else if key = ''args'' then cfg\<lparr>args := split_args val (args cfg)\<rparr>
     else cfg\<lparr>file_mappings := file_mappings cfg @ [parse_mapping cfg key val]\<rparr>)"

definition load_line :: "(string \<Rightarrow> string option) \<Rightarrow> string \<Rightarrow> config \<Rightarrow> config" where
  "load_line env line cfg = (let
     line = (case find_first (\<lambda>c. c = CHR ''#'') line of Some h \<Rightarrow> take h line | None \<Rightarrow> line);
     line = trim line
   in if line = [] then cfg
      else case find_first (\<lambda>c. c = CHR ''='') line of None \<Rightarrow> cfg
      | Some eq \<Rightarrow> set_key (trim (take eq line)) (expand_env_vars env (trim (drop (eq + 1) line))) cfg)"

definition load_config_file :: "(string \<Rightarrow> string option) \<Rightarrow> (string \<Rightarrow> string list option) \<Rightarrow> string \<Rightarrow> config \<Rightarrow> config option" where
  "load_config_file env file path cfg = map_option (\<lambda>lines. fold (load_line env) lines cfg) (file path)"

section \<open>Finding the program\<close>

definition S_ISREG :: "host_stat \<Rightarrow> bool" where
  "S_ISREG st \<longleftrightarrow> st_mode st AND 0xF000 = 0x8000"

definition path_is_file :: "host \<Rightarrow> string \<Rightarrow> bool" where
  "path_is_file H p = (case host_stat_of H p of Some st \<Rightarrow> S_ISREG st | None \<Rightarrow> False)"

definition has_path_sep :: "string \<Rightarrow> bool" where
  "has_path_sep s \<longleftrightarrow> (\<exists>c\<in>set s. c = CHR ''/'' \<or> c = CHR 0x5C)"

definition has_com_or_exe :: "string \<Rightarrow> bool" where
  "has_com_or_exe s = (if length s < 4 then False
     else let tail = upper (drop (length s - 4) s) in tail = ''.COM'' \<or> tail = ''.EXE'')"

definition in_dir :: "string \<Rightarrow> string \<Rightarrow> string" where
  "in_dir dir hit = (if hit = [] then [] else if dir = [] then hit else dir @ ''/'' @ hit)"

definition dir_or_dot :: "string \<Rightarrow> string" where
  "dir_or_dot dir = (if dir = [] then ''.'' else dir)"

definition scan_entry :: "string \<Rightarrow> string \<Rightarrow> string \<times> string \<Rightarrow> string \<times> string" where
  "scan_entry want_u entry = (\<lambda>(best_com, best_exe).
     if length entry \<noteq> length want_u + 4 then (best_com, best_exe)
     else let entry_u = upper entry; ext = drop (length want_u) entry_u in
       if take (length want_u) entry_u \<noteq> want_u then (best_com, best_exe)
       else if ext = ''.COM'' \<and> best_com = [] then (entry, best_exe)
       else if ext = ''.EXE'' \<and> best_exe = [] then (best_com, entry)
       else (best_com, best_exe))"

definition find_in_dir :: "host \<Rightarrow> string \<Rightarrow> string \<Rightarrow> string" where
  "find_in_dir H dir name = (case host_readdir H (dir_or_dot dir) of None \<Rightarrow> []
     | Some entries \<Rightarrow> let (best_com, best_exe) = fold (scan_entry (upper name)) entries ([], []) in
         in_dir dir (if best_com \<noteq> [] then best_com else best_exe))"

definition find_exact_in_dir :: "host \<Rightarrow> string \<Rightarrow> string \<Rightarrow> string" where
  "find_exact_in_dir H dir name = (case host_readdir H (dir_or_dot dir) of None \<Rightarrow> []
     | Some entries \<Rightarrow> in_dir dir (case find (\<lambda>e. upper e = upper name) entries of Some e \<Rightarrow> e | None \<Rightarrow> []))"

text \<open>The colon-separated directories of DOSIZ_PATH that are not empty.\<close>

function path_dirs :: "string \<Rightarrow> string list" where
  "path_dirs p = (let d = takeWhile (\<lambda>c. c \<noteq> CHR '':'') p; rest = dropWhile (\<lambda>c. c \<noteq> CHR '':'') p in
     (if d \<noteq> [] then [d] else []) @ (case rest of [] \<Rightarrow> [] | _ # rest \<Rightarrow> path_dirs rest))"
  by pat_completeness auto
termination
proof (relation "measure length", goal_cases)
  case (2 p d rest c rest')
  then have "length (c # rest') \<le> length p" by (metis length_dropWhile_le)
  then show ?case by simp
qed simp

declare path_dirs.simps [simp del]

definition resolve_program_path :: "host \<Rightarrow> string option \<Rightarrow> string \<Rightarrow> string" where
  "resolve_program_path H path name =
    (if has_path_sep name then (if path_is_file H name then name else [])
     else let
       dirs = [] # (case path of Some p \<Rightarrow> path_dirs p | None \<Rightarrow> []);
       hits = map (\<lambda>dir. if has_com_or_exe name then find_exact_in_dir H dir name else find_in_dir H dir name) dirs
     in case find (\<lambda>hit. hit \<noteq> []) hits of Some hit \<Rightarrow> hit | None \<Rightarrow> [])"

definition sidecar_cfg :: "host \<Rightarrow> string \<Rightarrow> string" where
  "sidecar_cfg H program_path = (case find_last (\<lambda>c. c = CHR ''.'') program_path of None \<Rightarrow> []
     | Some dot \<Rightarrow> let
         candidate = take dot program_path @ ''.cfg'';
         upper_candidate = take dot program_path @ ''.CFG''
       in if path_is_file H candidate then candidate
          else if path_is_file H upper_candidate then upper_candidate else [])"

section \<open>Environment switches\<close>

record debug_settings =
  dpmi_ring3 :: bool
  dpmi_ring0 :: bool
  force_dpmi :: bool
  no_dpmi :: bool
  le_as_mz :: bool
  dbg_trace :: bool
  dbg_dpmi_trace :: bool
  dbg_exc_trace :: bool
  dbg_ldt_trace :: bool
  dbg_simrm_trace :: bool
  dbg_stackwatch :: bool
  dbg_int4b_trace :: bool
  dbg_int4c_trace :: bool
  dbg_open_trace :: bool
  dbg_write_trace :: bool
  dbg_cpu_trace :: bool
  dosiz_path :: "string option"

definition env_present :: "(string \<Rightarrow> string option) \<Rightarrow> string \<Rightarrow> bool" where
  "env_present env name \<longleftrightarrow> env name \<noteq> None"

definition env_str :: "(string \<Rightarrow> string option) \<Rightarrow> string \<Rightarrow> string option" where
  "env_str env name = (case env name of Some v \<Rightarrow> if v \<noteq> [] then Some v else None | None \<Rightarrow> None)"

definition DebugSettings :: "(string \<Rightarrow> string option) \<Rightarrow> debug_settings" where
  "DebugSettings env = \<lparr>dpmi_ring3 = env_present env ''DOSIZ_DPMI_RING3'', dpmi_ring0 = env_present env ''DOSIZ_DPMI_RING0'',
     force_dpmi = env_present env ''DOSIZ_FORCE_DPMI'', no_dpmi = env_present env ''DOSIZ_NO_DPMI'',
     le_as_mz = env_present env ''DOSIZ_LE_AS_MZ'',
     dbg_trace = env_present env ''DOSIZ_TRACE'', dbg_dpmi_trace = env_present env ''DOSIZ_DPMI_TRACE'', dbg_exc_trace = env_present env ''DOSIZ_EXC_TRACE'',
     dbg_ldt_trace = env_present env ''DOSIZ_LDT_TRACE'', dbg_simrm_trace = env_present env ''DOSIZ_SIMRM_TRACE'', dbg_stackwatch = env_present env ''DOSIZ_STACKWATCH'',
     dbg_int4b_trace = env_present env ''DOSIZ_4B_TRACE'', dbg_int4c_trace = env_present env ''DOSIZ_4C_TRACE'', dbg_open_trace = env_present env ''DOSIZ_OPEN_TRACE'',
     dbg_write_trace = env_present env ''DOSIZ_WRITE_TRACE'', dbg_cpu_trace = env_present env ''DOSIZ_CPU_TRACE'',
     dosiz_path = env_str env ''DOSIZ_PATH''\<rparr>"

section \<open>The command line\<close>

text \<open>What \<open>main\<close> does before it hands over: exit with a status, or run a configuration.\<close>

datatype outcome = Exit int | Run config

definition tolower :: "char \<Rightarrow> char" where
  "tolower c = (let n = (of_char c :: nat) in if 65 \<le> n \<and> n \<le> 90 then char_of (n + 32) else c)"

definition ends_with :: "string \<Rightarrow> string \<Rightarrow> bool" where
  "ends_with s suffix \<longleftrightarrow> length s \<ge> length suffix
     \<and> map tolower (rev suffix) = map tolower (take (length suffix) (rev s))"

fun parse_options :: "string list \<Rightarrow> config \<Rightarrow> outcome + string list \<times> config" where
  "parse_options [] cfg = Inr ([], cfg)"
| "parse_options (a # rest) cfg =
    (if a = ''--help'' \<or> a = ''-h'' then Inl (Exit 0)
     else if a = ''--version'' then Inl (Exit 0)
     else if a = ''--window'' then parse_options rest (cfg\<lparr>headless := False\<rparr>)
     else if a = ''--verbose'' \<or> a = ''-v'' then parse_options rest (cfg\<lparr>verbose := 1\<rparr>)
     else if take 10 a = ''--machine='' then parse_options rest (cfg\<lparr>machine_type := drop 10 a\<rparr>)
     else if take 6 a = ''--cpu='' then parse_options rest (cfg\<lparr>cputype := drop 6 a\<rparr>)
     else if take 10 a = ''--memsize='' then parse_options rest (cfg\<lparr>memsize_mb := atoi (drop 10 a)\<rparr>)
     else if a = ''--'' then Inr (rest, cfg)
     else if length a > 1 \<and> a ! 0 = CHR ''-'' then Inl (Exit 1)
     else Inr (a # rest, cfg))"

definition load_named :: "(string \<Rightarrow> string option) \<Rightarrow> (string \<Rightarrow> string list option) \<Rightarrow> host \<Rightarrow> string \<Rightarrow> config \<Rightarrow> config option" where
  "load_named env file H first cfg =
    (if ends_with first ''.cfg'' \<or> ends_with first ''.conf'' then load_config_file env file first cfg
     else let resolved = resolve_program_path H (dosiz_path (DebugSettings env)) first in
       if resolved = [] then None
       else let sidecar = sidecar_cfg H resolved in
         map_option (\<lambda>cfg. cfg\<lparr>program := resolved\<rparr>)
           (if sidecar \<noteq> [] then load_config_file env file sidecar cfg else Some cfg))"

definition dosiz_main :: "(string \<Rightarrow> string option) \<Rightarrow> (string \<Rightarrow> string list option) \<Rightarrow> host \<Rightarrow> string list \<Rightarrow> outcome" where
  "dosiz_main env file H argv = (case parse_options argv default_config of
       Inl r \<Rightarrow> r
     | Inr ([], cfg) \<Rightarrow> Exit 1
     | Inr (first # rest, cfg) \<Rightarrow>
         (case load_named env file H first cfg of None \<Rightarrow> Exit 1
          | Some cfg \<Rightarrow> let cfg = cfg\<lparr>args := args cfg @ rest\<rparr> in
              if program cfg = [] then Exit 1 else Run cfg))"

section \<open>Printing a configuration\<close>

definition kv :: "string \<Rightarrow> string \<Rightarrow> string" where
  "kv key val = key @ '' = '' @ val"

definition mode_name :: "file_mode \<Rightarrow> string" where
  "mode_name m = (case m of Text \<Rightarrow> ''text'' | Binary \<Rightarrow> ''binary'' | Auto \<Rightarrow> ''auto'')"

definition bool_name :: "bool \<Rightarrow> string" where
  "bool_name b = (if b then ''true'' else ''false'')"

definition int_string :: "int \<Rightarrow> string" where
  "int_string n = (if n < 0 then ''-'' @ to_string (nat (- n)) else to_string (nat n))"

definition join_args :: "string list \<Rightarrow> string" where
  "join_args as = concat (map (\<lambda>a. '' '' @ a) as)"

definition arg_line :: "string list \<Rightarrow> string" where
  "arg_line as = drop 1 (join_args as)"

definition drive_key :: "char \<Rightarrow> string" where
  "drive_key c = ''drive_'' @ [c]"

definition mapping_value :: "file_mapping \<Rightarrow> string" where
  "mapping_value m = (if fm_host_path m = [] then mode_name (fm_mode m) else fm_host_path m @ '' '' @ mode_name (fm_mode m))"

definition print_config :: "config \<Rightarrow> string list" where
  "print_config cfg =
    [kv ''program'' (program cfg), kv ''cd'' (chdir_path cfg), kv ''default_mode'' (mode_name (default_mode cfg)),
     kv ''eol_convert'' (bool_name (default_eol_convert cfg)), kv ''verbose'' (int_string (sint (verbose cfg))),
     kv ''printer'' (printer_path cfg), kv ''aux_input'' (aux_in_path cfg), kv ''aux_output'' (aux_out_path cfg),
     kv ''machine'' (machine_type cfg), kv ''cputype'' (cputype cfg), kv ''core'' (cpu_core cfg),
     kv ''memsize'' (int_string (sint (memsize_mb cfg))), kv ''headless'' (bool_name (headless cfg)), kv ''args'' (arg_line (args cfg))]
    @ map (\<lambda>d. kv (drive_key (dm_letter d)) (dm_host_path d)) (drives cfg)
    @ map (\<lambda>m. kv (fm_pattern m) (mapping_value m)) (file_mappings cfg)"

text \<open>Values the file format can express: no comment sign, no variable reference, no blank at either end.\<close>

definition trimmed :: "string \<Rightarrow> bool" where
  "trimmed s \<longleftrightarrow> s = [] \<or> \<not> is_blank (hd s) \<and> \<not> is_blank (last s)"

definition clean :: "string \<Rightarrow> bool" where
  "clean v \<longleftrightarrow> trimmed v \<and> CHR ''#'' \<notin> set v \<and> CHR ''$'' \<notin> set v"

definition known_keys :: "string list" where
  "known_keys = [''program'', ''cd'', ''chdir'', ''default_mode'', ''eol_convert'', ''verbose'', ''printer'', ''aux_input'',
     ''aux_output'', ''machine'', ''cputype'', ''core'', ''memsize'', ''headless'', ''args'']"

definition key_ok :: "string \<Rightarrow> bool" where
  "key_ok k \<longleftrightarrow> k \<noteq> [] \<and> trimmed k \<and> CHR ''#'' \<notin> set k \<and> CHR ''='' \<notin> set k"

definition pattern_ok :: "string \<Rightarrow> bool" where
  "pattern_ok k \<longleftrightarrow> key_ok k \<and> k \<notin> set known_keys \<and> \<not> (take 6 k = ''drive_'' \<and> length k = 7)"

definition printable :: "config \<Rightarrow> bool" where
  "printable cfg \<longleftrightarrow> list_all clean [program cfg, chdir_path cfg, printer_path cfg, aux_in_path cfg, aux_out_path cfg,
       machine_type cfg, cputype cfg, cpu_core cfg]
     \<and> list_all (\<lambda>a. a \<noteq> [] \<and> list_all (\<lambda>c. \<not> isspace c \<and> c \<noteq> CHR ''#'' \<and> c \<noteq> CHR ''$'') a) (args cfg)
     \<and> list_all (\<lambda>d. clean (dm_host_path d) \<and> dm_mode d = Auto \<and> toupper (dm_letter d) = dm_letter d \<and> key_ok [dm_letter d]) (drives cfg)
     \<and> list_all (\<lambda>m. pattern_ok (fm_pattern m) \<and> clean (fm_host_path m)
           \<and> fm_eol_convert m = (fm_mode m \<noteq> Binary \<and> default_eol_convert cfg)) (file_mappings cfg)"

section \<open>Round trip\<close>

lemma find_first_eqI: "\<lbrakk>i < length s; P (s ! i); \<And>j. j < i \<Longrightarrow> \<not> P (s ! j)\<rbrakk> \<Longrightarrow> find_first P s = Some i"
  by (auto simp: find_first_def find_Some_iff intro!: exI [of _ i])

lemma find_last_eqI:
  assumes "i < length s" and "P (s ! i)" and "\<And>j. \<lbrakk>i < j; j < length s\<rbrakk> \<Longrightarrow> \<not> P (s ! j)"
  shows "find_last P s = Some i"
  unfolding find_last_def find_Some_iff
  using assms by (intro exI [of _ "length s - Suc i"]) (auto simp: rev_nth)

lemma find_first_None: "(\<And>c. c \<in> set s \<Longrightarrow> \<not> P c) \<Longrightarrow> find_first P s = None"
  by (auto simp: find_first_def find_None_iff)

lemma trim_pad:
  assumes "\<And>c. c \<in> set a \<Longrightarrow> is_blank c" and "\<And>c. c \<in> set b \<Longrightarrow> is_blank c" and "trimmed s"
  shows "trim (a @ s @ b) = s"
proof (cases "s = []")
  case True
  then have "find_first (\<lambda>c. \<not> is_blank c) (a @ s @ b) = None" using assms by (intro find_first_None) auto
  with True show ?thesis by (simp add: trim_def)
next
  case False
  let ?t = "a @ s @ b"
  obtain n where n: "length s = Suc n" using False by (cases s) auto
  have "find_first (\<lambda>c. \<not> is_blank c) ?t = Some (length a)"
    using False assms by (intro find_first_eqI) (auto simp: nth_append trimmed_def hd_conv_nth)
  moreover have "find_last (\<lambda>c. \<not> is_blank c) ?t = Some (length a + n)"
    using False assms n by (intro find_last_eqI) (auto simp: nth_append trimmed_def last_conv_nth)
  ultimately show ?thesis using n by (simp add: trim_def)
qed

lemma expand_no_dollar: "CHR ''$'' \<notin> set s \<Longrightarrow> expand_env_vars env s = s"
  by (induction s) (subst expand_env_vars.simps, auto)+

lemma blank_space [simp]: "is_blank CHR '' ''" "\<not> is_blank CHR ''=''"
  by (simp_all add: is_blank_def)

lemma load_kv:
  assumes "key_ok k" and "clean v"
  shows "load_line env (kv k v) cfg = set_key k v cfg"
proof -
  let ?line = "k @ '' ='' @ (if v = [] then [] else '' '' @ v)"
  have k: "k \<noteq> []" "trimmed k" "CHR ''#'' \<notin> set k" "CHR ''='' \<notin> set k" using assms by (simp_all add: key_ok_def)
  have v: "trimmed v" "CHR ''#'' \<notin> set v" "CHR ''$'' \<notin> set v" using assms by (simp_all add: clean_def)
  have nohash: "find_first (\<lambda>c. c = CHR ''#'') (kv k v) = None"
    using k v by (intro find_first_None) (auto simp: kv_def)
  have "trimmed ?line" using k v by (auto simp: trimmed_def)
  then have line: "trim (kv k v) = ?line"
    using trim_pad [of "[]" "if v = [] then '' '' else []" ?line] by (simp add: kv_def split: if_splits)
  have eq: "find_first (\<lambda>c. c = CHR ''='') ?line = Some (length k + 1)"
    using k(4) by (intro find_first_eqI) (auto simp: nth_append nth_Cons' in_set_conv_nth)
  have key: "trim (take (length k + 1) ?line) = k"
    using trim_pad [of "[]" "'' ''" k] k(2) by simp
  have val: "trim (drop (length k + 1 + 1) ?line) = v"
    using trim_pad [of "[]" "[]" v] trim_pad [of "'' ''" "[]" v] v(1) by (cases "v = []") simp_all
  show ?thesis
    unfolding load_line_def Let_def nohash option.case line eq key val
    using k(1) by (simp add: expand_no_dollar v)
qed

lemma digit_isdigit [simp]: "d < 10 \<Longrightarrow> isdigit (digit d)"
  by (simp add: isdigit_def of_char_digit Let_def)

lemma to_string_digits: "list_all isdigit (to_string n) \<and> to_string n \<noteq> []
    \<and> foldl (\<lambda>n c. n * 10 + (int (of_char c) - 48)) 0 (to_string n) = int n"
proof (induction n rule: to_string.induct)
  case (1 n)
  show ?case
  proof (cases "n < 10")
    case True
    then show ?thesis by (subst (1 2 3) to_string.simps) (simp add: of_char_digit)
  next
    case False
    with 1 show ?thesis by (subst (1 2 3) to_string.simps) (simp add: of_char_digit zdiv_int zmod_int)
  qed
qed

lemma isdigit_plain: "isdigit c \<Longrightarrow> \<not> isspace c \<and> c \<noteq> CHR ''-'' \<and> c \<noteq> CHR ''+''"
  by (auto simp: isdigit_def isspace_def Let_def)

lemma isdigit_clean: "isdigit c \<Longrightarrow> c \<noteq> CHR ''#'' \<and> c \<noteq> CHR ''$'' \<and> \<not> is_blank c"
  by (auto simp: isdigit_def is_blank_def Let_def)

lemma strtol_int_string: "\<lbrakk>- (2 ^ 63) \<le> n; n < 2 ^ 63\<rbrakk> \<Longrightarrow> strtol (int_string n) = n"
proof -
  assume range: "- (2 ^ 63) \<le> n" "n < 2 ^ 63"
  have nat: "takeWhile isdigit (to_string k) = to_string k" "dropWhile isspace (to_string k) = to_string k" for k
  proof -
    show "takeWhile isdigit (to_string k) = to_string k" using to_string_digits [of k] by (simp add: list_all_iff)
    show "dropWhile isspace (to_string k) = to_string k"
      using to_string_digits [of k] isdigit_plain by (cases "to_string k") auto
  qed
  obtain c cs where c: "to_string (nat n) = c # cs" "isdigit c"
    using to_string_digits [of "nat n"] by (cases "to_string (nat n)") auto
  show ?thesis
  proof (cases "n < 0")
    case True
    then show ?thesis
      using to_string_digits [of "nat (- n)"] nat [of "nat (- n)"]
      using range by (simp add: strtol_def int_string_def isspace_def del: takeWhile_eq_all_conv)
  next
    case False
    then show ?thesis
      using to_string_digits [of "nat n"] nat [of "nat n"] c isdigit_plain [OF c(2)]
      using range by (simp add: strtol_def int_string_def del: takeWhile_eq_all_conv)
  qed
qed

lemma atoi_int_string [simp]: "atoi (int_string (sint w)) = w"
proof -
  have "- (2 ^ 31) \<le> sint w" "sint w < 2 ^ 31" using sint_ge [of w] sint_lt [of w] by simp_all
  then have "strtol (int_string (sint w)) = sint w" by (intro strtol_int_string) simp_all
  then show ?thesis by (simp add: atoi_def)
qed

lemma cleanI:
  assumes "\<And>c. c \<in> set s \<Longrightarrow> c \<noteq> CHR ''#'' \<and> c \<noteq> CHR ''$''" and "s \<noteq> [] \<Longrightarrow> \<not> is_blank (hd s) \<and> \<not> is_blank (last s)"
  shows "clean s"
  unfolding clean_def trimmed_def using assms by metis

lemma clean_int: "clean (int_string n)"
proof (rule cleanI)
  have "\<forall>c\<in>set (to_string k). isdigit c" for k using to_string_digits [of k] by (simp add: list_all_iff)
  then have "c = CHR ''-'' \<or> isdigit c" if "c \<in> set (int_string n)" for c using that by (auto simp: int_string_def split: if_splits)
  moreover have "c \<noteq> CHR ''#'' \<and> c \<noteq> CHR ''$'' \<and> \<not> is_blank c" if "c = CHR ''-'' \<or> isdigit c" for c
    using that isdigit_clean [of c] by (elim disjE) (simp_all add: is_blank_def)
  ultimately have plain: "c \<in> set (int_string n) \<Longrightarrow> c \<noteq> CHR ''#'' \<and> c \<noteq> CHR ''$'' \<and> \<not> is_blank c" for c by blast
  then show "c \<in> set (int_string n) \<Longrightarrow> c \<noteq> CHR ''#'' \<and> c \<noteq> CHR ''$''" for c by blast
  show "int_string n \<noteq> [] \<Longrightarrow> \<not> is_blank (hd (int_string n)) \<and> \<not> is_blank (last (int_string n))"
    using plain hd_in_set last_in_set by blast
qed

lemma clean_names: "clean (mode_name m)" "clean (bool_name b)"
  by (cases m; simp add: clean_def mode_name_def trimmed_def is_blank_def)
    (simp add: clean_def bool_name_def trimmed_def is_blank_def)

lemma parse_mode_name [simp]: "parse_mode (mode_name m) = m" "is_mode_name (mode_name m)"
  by (cases m; simp add: parse_mode_def is_mode_name_def mode_name_def)+

lemma parse_bool_name [simp]: "parse_bool (bool_name b) = b"
  by (simp add: parse_bool_def bool_name_def)

lemma split_args_token:
  "list_all (\<lambda>c. \<not> isspace c) a \<Longrightarrow>
   fold (\<lambda>c (as, tok). if isspace c then (if tok \<noteq> [] then (as @ [tok], []) else (as, tok)) else (as, tok @ [c])) a (as, tok) = (as, tok @ a)"
  by (induction a arbitrary: tok) simp_all

lemma space_isspace [simp]: "isspace CHR '' ''"
  by (simp add: isspace_def)

text \<open>The state of the tokeniser after whole tokens, each followed by a blank or by the end.\<close>

lemma split_args_fold:
  assumes "list_all (\<lambda>a. a \<noteq> [] \<and> list_all (\<lambda>c. \<not> isspace c) a) (a # as)"
  shows "fold (\<lambda>c (as, tok). if isspace c then (if tok \<noteq> [] then (as @ [tok], []) else (as, tok)) else (as, tok @ [c]))
      (a @ join_args as) (pre, []) = (pre @ butlast (a # as), last (a # as))"
  using assms
proof (induction as arbitrary: a pre)
  case Nil
  then show ?case by (simp add: join_args_def split_args_token)
next
  case (Cons b as)
  have "join_args (b # as) = CHR '' '' # b @ join_args as" by (simp add: join_args_def)
  then show ?case using Cons.prems Cons.IH [of b "pre @ [a]"] by (simp add: split_args_token)
qed

lemma split_args_join:
  assumes "list_all (\<lambda>a. a \<noteq> [] \<and> list_all (\<lambda>c. \<not> isspace c) a) as"
  shows "split_args (arg_line as) [] = as"
proof (cases as)
  case Nil
  then show ?thesis by (simp add: split_args_def arg_line_def join_args_def)
next
  case (Cons a rest)
  have "arg_line as = a @ join_args rest" by (simp add: arg_line_def Cons join_args_def)
  then show ?thesis
    using assms split_args_fold [of a rest "[]"] Cons last_in_set [of "a # rest"]
    by (auto simp: split_args_def list_all_iff append_butlast_last_id)
qed

lemma mode_name_no_space: "is_mode_name v \<Longrightarrow> CHR '' '' \<notin> set v"
  by (auto simp: is_mode_name_def)

lemma parse_mapping_value:
  assumes "trimmed (fm_host_path m)" and "fm_eol_convert m = (fm_mode m \<noteq> Binary \<and> default_eol_convert cfg)"
  shows "parse_mapping cfg (fm_pattern m) (mapping_value m) = m"
proof (cases "fm_host_path m = []")
  case True
  with assms(2) show ?thesis
    by (cases m) (auto simp: parse_mapping_def mapping_value_def with_mode_def Let_def)
next
  case False
  let ?p = "fm_host_path m" and ?n = "mode_name (fm_mode m)"
  have nosp: "CHR '' '' \<notin> set ?n" by (cases "fm_mode m") (simp_all add: mode_name_def)
  have val: "mapping_value m = ?p @ '' '' @ ?n" using False by (simp add: mapping_value_def)
  have notmode: "\<not> is_mode_name (?p @ '' '' @ ?n)"
    using mode_name_no_space by (metis in_set_conv_decomp append.simps)
  have sp: "find_last (\<lambda>c. c = CHR '' '') (?p @ '' '' @ ?n) = Some (length ?p)"
    using nosp by (intro find_last_eqI) (auto simp: nth_append nth_Cons' in_set_conv_nth)
  have "trim (take (length ?p) (?p @ '' '' @ ?n)) = ?p" using trim_pad [of "[]" "[]" ?p] assms(1) by simp
  with assms(2) notmode show ?thesis
    unfolding parse_mapping_def Let_def val sp by (cases m) (auto simp: with_mode_def Let_def)
qed

lemma set_key_pattern:
  "pattern_ok k \<Longrightarrow> set_key k v cfg = cfg\<lparr>file_mappings := file_mappings cfg @ [parse_mapping cfg k v]\<rparr>"
  by (simp add: set_key_def pattern_ok_def known_keys_def)

lemma set_key_drive:
  "set_key (drive_key c) v cfg = cfg\<lparr>drives := drives cfg @ [\<lparr>dm_letter = toupper c, dm_host_path = v, dm_mode = Auto\<rparr>]\<rparr>"
  by (simp add: set_key_def drive_key_def)

lemma load_drives:
  assumes "list_all (\<lambda>d. clean (dm_host_path d) \<and> dm_mode d = Auto \<and> toupper (dm_letter d) = dm_letter d \<and> key_ok [dm_letter d]) ds"
  shows "fold (load_line env) (map (\<lambda>d. kv (drive_key (dm_letter d)) (dm_host_path d)) ds) cfg = cfg\<lparr>drives := drives cfg @ ds\<rparr>"
  using assms
proof (induction ds arbitrary: cfg)
  case (Cons d ds)
  then have "key_ok (drive_key (dm_letter d))" by (auto simp: drive_key_def key_ok_def trimmed_def is_blank_def)
  moreover have "\<lparr>dm_letter = dm_letter d, dm_host_path = dm_host_path d, dm_mode = Auto\<rparr> = d" using Cons.prems by simp
  ultimately show ?case using Cons by (simp add: load_kv set_key_drive)
qed simp

lemma clean_mapping_value: "clean (fm_host_path m) \<Longrightarrow> clean (mapping_value m)"
  using clean_names(1) [of "fm_mode m"]
  by (cases "fm_mode m") (auto simp: mapping_value_def clean_def trimmed_def mode_name_def)

lemma load_mappings:
  assumes "list_all (\<lambda>m. pattern_ok (fm_pattern m) \<and> clean (fm_host_path m)
      \<and> fm_eol_convert m = (fm_mode m \<noteq> Binary \<and> default_eol_convert cfg)) ms"
  shows "fold (load_line env) (map (\<lambda>m. kv (fm_pattern m) (mapping_value m)) ms) cfg = cfg\<lparr>file_mappings := file_mappings cfg @ ms\<rparr>"
  using assms
proof (induction ms arbitrary: cfg)
  case (Cons m ms)
  have "load_line env (kv (fm_pattern m) (mapping_value m)) cfg = cfg\<lparr>file_mappings := file_mappings cfg @ [m]\<rparr>"
    using Cons.prems
    by (simp add: load_kv pattern_ok_def clean_mapping_value, subst set_key_pattern)
      (simp_all add: pattern_ok_def parse_mapping_value clean_def)
  then show ?case using Cons.prems Cons.IH [of "cfg\<lparr>file_mappings := file_mappings cfg @ [m]\<rparr>"] by simp
qed simp

lemma clean_args:
  assumes "list_all (\<lambda>a. a \<noteq> [] \<and> list_all (\<lambda>c. \<not> isspace c \<and> c \<noteq> CHR ''#'' \<and> c \<noteq> CHR ''$'') a) as"
  shows "clean (arg_line as)"
proof (cases as)
  case (Cons a rest)
  have plain: "\<not> isspace c \<and> c \<noteq> CHR ''#'' \<and> c \<noteq> CHR ''$''" if "b \<in> set as" "c \<in> set b" for b c
    using that assms by (auto simp: list_all_iff)
  have ne: "b \<noteq> []" if "b \<in> set as" for b using that assms by (auto simp: list_all_iff)
  have blank: "\<not> isspace c \<Longrightarrow> \<not> is_blank c" for c by (auto simp: is_blank_def isspace_def)
  have j: "arg_line as = a @ join_args rest" by (simp add: arg_line_def Cons join_args_def)
  have "set (a @ join_args rest) \<subseteq> insert CHR '' '' (\<Union>b\<in>set as. set b)" by (auto simp: join_args_def Cons)
  then have chars: "c = CHR '' '' \<or> (\<exists>b\<in>set as. c \<in> set b)" if "c \<in> set (a @ join_args rest)" for c using that by blast
  have hd: "hd (a @ join_args rest) \<in> set a" using ne [of a] Cons by simp
  have "last (a @ join_args rest) \<in> set (last (a # rest))"
    using ne [of "last (a # rest)"] ne [of a] Cons by (cases rest rule: rev_cases) (auto simp: join_args_def)
  moreover have "last (a # rest) \<in> set as" using last_in_set [of "a # rest"] Cons by blast
  ultimately have last: "\<not> is_blank (last (a @ join_args rest))" using plain blank by blast
  show ?thesis unfolding j
  proof (rule cleanI)
    show "c \<noteq> CHR ''#'' \<and> c \<noteq> CHR ''$''" if "c \<in> set (a @ join_args rest)" for c
      using chars [OF that] plain by (elim disjE bexE) (simp, blast)
    show "\<not> is_blank (hd (a @ join_args rest)) \<and> \<not> is_blank (last (a @ join_args rest))"
      using last hd plain [of a] blank Cons by simp
  qed
qed (simp add: arg_line_def join_args_def clean_def trimmed_def)

text \<open>C24: parsing a printed configuration from the defaults gives the configuration back, whatever the process
  environment is: keys, drives, arguments and file mappings with their modes, for every configuration whose values
  hold no comment sign, no variable reference and no blank at either end.\<close>

theorem config_roundtrip:
  assumes "printable cfg"
  shows "load_config_file env (\<lambda>_. Some (print_config cfg)) path default_config = Some cfg"
proof -
  have keys: "key_ok ''program''" "key_ok ''cd''" "key_ok ''default_mode''" "key_ok ''eol_convert''" "key_ok ''verbose''"
    "key_ok ''printer''" "key_ok ''aux_input''" "key_ok ''aux_output''" "key_ok ''machine''" "key_ok ''cputype''" "key_ok ''core''"
    "key_ok ''memsize''" "key_ok ''headless''" "key_ok ''args''"
    by (simp_all add: key_ok_def trimmed_def is_blank_def)
  note p = assms [unfolded printable_def]
  have args: "clean (arg_line (args cfg))" using p by (intro clean_args) simp
  have split: "split_args (arg_line (args cfg)) [] = args cfg"
    using p by (intro split_args_join) (auto simp: list_all_iff)
  show ?thesis
    using p unfolding load_config_file_def print_config_def default_config_def
    by (simp add: load_kv keys clean_names clean_int args set_key_def split load_drives load_mappings)
qed

definition sample_config :: config where
  "sample_config = default_config\<lparr>program := ''TC.EXE'', args := [''-ml'', ''a.c''], memsize_mb := 32, headless := False,
     drives := [\<lparr>dm_letter = CHR ''D'', dm_host_path = ''/home/me/my files'', dm_mode = Auto\<rparr>],
     file_mappings := [\<lparr>fm_pattern = ''*.TXT'', fm_host_path = [], fm_mode = Text, fm_eol_convert = True\<rparr>,
       \<lparr>fm_pattern = ''LOG.DAT'', fm_host_path = ''/tmp/log = 1'', fm_mode = Binary, fm_eol_convert = False\<rparr>]\<rparr>"

lemma config_roundtrip_witness:
  "load_config_file (\<lambda>_. None) (\<lambda>_. Some (print_config sample_config)) ''x.cfg'' default_config = Some sample_config"
proof -
  have "printable sample_config"
    by (simp add: printable_def sample_config_def default_config_def clean_def trimmed_def is_blank_def pattern_ok_def
        key_ok_def known_keys_def isspace_def toupper_def)
  then show ?thesis by (rule config_roundtrip)
qed

text \<open>
  A mode-only mapping of an exact name (\<open>README.TXT = text\<close>) has no host path, and \<open>resolve_path\<close> returns that
  empty path for the name: the file cannot be opened any more.
\<close>

lemma exact_mode_only_loses_path:
  assumes "is_mode_name v" and "\<not> has_wildcard k" and "upper (basename_dos dos_path) = upper k"
  shows "fst (resolve_path H drv cur [parse_mapping cfg k v] dflt dos_path) = []"
  using assms by (simp add: resolve_path_def parse_mapping_def with_mode_def Let_def)

end
