(* ===== verification/Loader.thy ===== *)
theory Loader
  imports Dpmi Files Config "HOL-Library.Monad_Syntax"
begin

text \<open>
  The program loader of \<open>bridge.cc\<close>: COM, MZ and LE/LX images, the environment block and the PSP. A file is its
  list of bytes, empty when it cannot be read. None is behaviour C++ leaves undefined (a read past the end of the
  file buffer) or a walk of the MCB chain that does not end. \<open>le_launch_pm_prep\<close>, which builds the protected-mode
  tables, is an argument. Shown: an MZ file becomes its relocated image at the load segment and nothing else
  changes; the PSP and the environment stay in their blocks; an LE object with a well-formed page table becomes its image.
\<close>

section \<open>Data\<close>

record initial_regs =
  ir_cs :: u16
  ir_ip :: u16
  ir_ss :: u16
  ir_sp :: u16
  ir_ax :: u16
  ir_is_pm :: bool
  ir_is_32bit :: bool
  ir_pm_ds :: u16
  ir_pm_eip :: u32
  ir_pm_esp :: u32

definition real_regs :: "u16 \<Rightarrow> u16 \<Rightarrow> u16 \<Rightarrow> u16 \<Rightarrow> u16 \<Rightarrow> initial_regs" where
  "real_regs cs ip ss sp ax = \<lparr>ir_cs = cs, ir_ip = ip, ir_ss = ss, ir_sp = sp, ir_ax = ax, ir_is_pm = False,
     ir_is_32bit = False, ir_pm_ds = 0, ir_pm_eip = 0, ir_pm_esp = 0\<rparr>"

record le_object =
  virt_base :: u32
  virt_size :: u32
  le_flags :: u32
  first_page :: u32
  page_count :: u32
  host_base :: u32
  host_seg :: u16
  ldt_sel :: u16
  is_code :: bool
  is_big :: bool

definition COM_ENTRY_OFFSET :: u16 where "COM_ENTRY_OFFSET = 0x0100"
definition MAX_COM_SIZE :: nat where "MAX_COM_SIZE = 0xFF00"
definition ENV_SEG :: u16 where "ENV_SEG = 0x0050"
definition ENV_BYTES :: nat where "ENV_BYTES = 0x0800"

section \<open>Reading the file buffer\<close>

definition rdb :: "u8 list \<Rightarrow> nat \<Rightarrow> u8 option" where
  "rdb b off = (if off < length b then Some (b ! off) else None)"

definition rdw :: "u8 list \<Rightarrow> nat \<Rightarrow> u16 option" where
  "rdw b off = do { l \<leftarrow> rdb b off; h \<leftarrow> rdb b (off + 1); Some (mk16 l h) }"

definition rdd :: "u8 list \<Rightarrow> nat \<Rightarrow> u32 option" where
  "rdd b off = do { l \<leftarrow> rdw b off; h \<leftarrow> rdw b (off + 2); Some (mk32 l h) }"

section \<open>COM images\<close>

definition load_com_at :: "'m emu88 \<Rightarrow> u8 list \<Rightarrow> u16 \<Rightarrow> 'm \<Rightarrow> (initial_regs \<times> 'm) option" where
  "load_com_at E bytes psp_seg m =
    (if bytes = [] then None
     else if length bytes > MAX_COM_SIZE then None
     else Some (real_regs psp_seg COM_ENTRY_OFFSET psp_seg 0xFFFE 0,
       store_bytes E (ucast psp_seg * 16 + ucast COM_ENTRY_OFFSET) bytes m))"

section \<open>LE images\<close>

text \<open>The fields of the LE header that the loader reads.\<close>

record le_header =
  num_pages :: u32
  entry_obj :: u32
  entry_eip :: u32
  stack_obj :: u32
  stack_esp :: u32
  page_size :: u32
  last_page_sz :: u32
  obj_tbl_off :: u32
  num_objects :: u32
  page_tbl_off :: u32
  fixup_page_tbl :: u32
  fixup_rec_tbl :: u32
  data_pages :: u32

definition le_header_of :: "u8 list \<Rightarrow> nat \<Rightarrow> le_header option" where
  "le_header_of f le_off = do {
     np \<leftarrow> rdd f (le_off + 0x14); eo \<leftarrow> rdd f (le_off + 0x18); ee \<leftarrow> rdd f (le_off + 0x1C);
     so \<leftarrow> rdd f (le_off + 0x20); se \<leftarrow> rdd f (le_off + 0x24); ps \<leftarrow> rdd f (le_off + 0x28);
     lp \<leftarrow> rdd f (le_off + 0x2C); ot \<leftarrow> rdd f (le_off + 0x40); no \<leftarrow> rdd f (le_off + 0x44);
     pt \<leftarrow> rdd f (le_off + 0x48); fp \<leftarrow> rdd f (le_off + 0x68); fr \<leftarrow> rdd f (le_off + 0x6C);
     dp \<leftarrow> rdd f (le_off + 0x80);
     Some \<lparr>num_pages = np, entry_obj = eo, entry_eip = ee, stack_obj = so, stack_esp = se, page_size = ps,
       last_page_sz = lp, obj_tbl_off = ot, num_objects = no, page_tbl_off = pt, fixup_page_tbl = fp,
       fixup_rec_tbl = fr, data_pages = dp\<rparr> }"

definition le_object_of :: "u8 list \<Rightarrow> nat \<Rightarrow> le_object option" where
  "le_object_of f e = do {
     vs \<leftarrow> rdd f e; vb \<leftarrow> rdd f (e + 0x04); fl \<leftarrow> rdd f (e + 0x08); pi \<leftarrow> rdd f (e + 0x0C); pc \<leftarrow> rdd f (e + 0x10);
     Some \<lparr>virt_base = vb, virt_size = vs, le_flags = fl, first_page = pi, page_count = pc, host_base = 0, host_seg = 0,
       ldt_sel = 0, is_code = (fl AND 0x0004 \<noteq> 0), is_big = (fl AND 0x2000 \<noteq> 0)\<rparr> }"

text \<open>Memory for an object: the MCB chain when the paragraph count fits, the extended arena otherwise. The inner
  None is the failure the loader reports.\<close>

definition le_place :: "'m emu88 \<Rightarrow> le_object \<Rightarrow> ('m, 'z) arenas_scheme \<Rightarrow> (le_object option \<times> ('m, 'z) arenas_scheme) option" where
  "le_place E ob s = (let
     paras = (virt_size ob + 15) div 16;
     alloc_paras = (if paras = 0 then 1 else paras)
   in do {
     (ob, s) \<leftarrow> (if alloc_paras \<le> 0xFFFF then
         (case mcb_allocate E (ucast alloc_paras) (s_mcb_initialised s, mem s) of
            None \<Rightarrow> None
          | Some ((sg, largest), (ini, m)) \<Rightarrow>
              Some (if sg \<noteq> 0 then ob\<lparr>host_seg := sg, host_base := ucast sg * 16\<rparr> else ob, s\<lparr>s_mcb_initialised := ini, mem := m\<rparr>))
       else Some (ob, s));
     (if host_base ob = 0 then
        (case pm_alloc E (if virt_size ob \<noteq> 0 then virt_size ob else 16) (s_pm s, mem s) of
           (base, A, m) \<Rightarrow> let s = s\<lparr>s_pm := A, mem := m\<rparr> in
             Some (if base = 0 then None else Some (ob\<lparr>host_base := base\<rparr>), s))
      else Some (Some ob, s)) })"

text \<open>One page of an object. The file offset and the bounds are 32-bit sums; the copy stops at the end of the file.\<close>

definition le_copy_bytes :: "le_header \<Rightarrow> le_object \<Rightarrow> u32 \<Rightarrow> u32 \<Rightarrow> u32" where
  "le_copy_bytes h ob pnum dst_off = (let
     copy = (if pnum = num_pages h \<and> last_page_sz h \<noteq> 0 then last_page_sz h else page_size h)
   in if dst_off + copy > virt_size ob then virt_size ob - dst_off else copy)"

definition le_copy_page :: "'m emu88 \<Rightarrow> u8 list \<Rightarrow> u32 \<Rightarrow> u32 \<Rightarrow> u32 \<Rightarrow> 'm \<Rightarrow> 'm" where
  "le_copy_page E f file_pg_off dst copy m =
     fold (\<lambda>j. mem_writeb E (dst + of_nat j) (f ! unat (file_pg_off + of_nat j)))
       (takeWhile (\<lambda>j. unat (file_pg_off + of_nat j) < length f) [0..<unat copy]) m"

definition le_page :: "'m emu88 \<Rightarrow> u8 list \<Rightarrow> nat \<Rightarrow> le_header \<Rightarrow> le_object \<Rightarrow> nat \<Rightarrow> 'm \<Rightarrow> 'm" where
  "le_page E f le_off h ob p m = (let
     idx = first_page ob - 1 + of_nat p;
     pt_entry = le_off + unat (page_tbl_off h) + unat (idx * 4)
   in if idx \<ge> num_pages h then m
      else if pt_entry + 4 > length f then m
      else let
        pnum = push_bit 16 (ucast (f ! pt_entry)) OR push_bit 8 (ucast (f ! (pt_entry + 1))) OR ucast (f ! (pt_entry + 2));
        ptype = f ! (pt_entry + 3);
        dst_off = of_nat p * page_size h
      in if ptype \<noteq> 0 then m
         else if pnum = 0 then m
         else le_copy_page E f (data_pages h + (pnum - 1) * page_size h) (host_base ob + dst_off) (le_copy_bytes h ob pnum dst_off) m)"

definition le_fill :: "'m emu88 \<Rightarrow> u8 list \<Rightarrow> nat \<Rightarrow> le_header \<Rightarrow> le_object \<Rightarrow> 'm \<Rightarrow> 'm" where
  "le_fill E f le_off h ob m = (let
     m = fold (\<lambda>j. mem_writeb E (host_base ob + of_nat j) 0) [0..<unat (virt_size ob)] m
   in fold (le_page E f le_off h ob) [0..<unat (page_count ob)] m)"

fun le_load_objects ::
  "'m emu88 \<Rightarrow> u8 list \<Rightarrow> nat \<Rightarrow> le_header \<Rightarrow> nat list \<Rightarrow> le_object list \<Rightarrow> ('m, 'z) arenas_scheme
     \<Rightarrow> (bool \<times> le_object list \<times> ('m, 'z) arenas_scheme) option" where
  "le_load_objects E f le_off h [] objs s = Some (True, objs, s)"
| "le_load_objects E f le_off h (i # is) objs s = (let
     e = le_off + unat (obj_tbl_off h) + unat (of_nat i * 24 :: u32)
   in if e + 24 > length f then Some (False, objs, s)
      else do {
        ob \<leftarrow> le_object_of f e;
        (r, s) \<leftarrow> le_place E ob s;
        (case r of
           None \<Rightarrow> Some (False, objs, s)
         | Some ob \<Rightarrow> le_load_objects E f le_off h is (objs @ [ob]) (wr (le_fill E f le_off h ob) s)) })"

section \<open>LE fixups\<close>

definition patch8 :: "'m emu88 \<Rightarrow> u32 \<Rightarrow> u32 \<Rightarrow> 'm \<Rightarrow> 'm" where
  "patch8 E a v m = mem_writeb E a (ucast (v AND 0xFF)) m"

definition patch16 :: "'m emu88 \<Rightarrow> u32 \<Rightarrow> u32 \<Rightarrow> 'm \<Rightarrow> 'm" where
  "patch16 E a v m = patch8 E (a + 1) (drop_bit 8 v) (patch8 E a v m)"

definition patch32 :: "'m emu88 \<Rightarrow> u32 \<Rightarrow> u32 \<Rightarrow> 'm \<Rightarrow> 'm" where
  "patch32 E a v m = patch16 E (a + 2) (drop_bit 16 v) (patch16 E a v m)"

definition le_patch :: "'m emu88 \<Rightarrow> u8 \<Rightarrow> u32 \<Rightarrow> le_object \<Rightarrow> u32 \<Rightarrow> 'm \<Rightarrow> 'm" where
  "le_patch E src_type src_addr tgt tgt_off m = (let
     s = src_type AND 0x0F; target_linear = host_base tgt + tgt_off
   in if s = 0x05 then patch16 E src_addr target_linear m
      else if s = 0x07 then patch32 E src_addr target_linear m
      else if s = 0x08 then patch32 E src_addr (target_linear - (src_addr + 4)) m
      else if s = 0x02 then patch16 E src_addr (ucast (ldt_sel tgt)) m
      else if s = 0x06 then patch16 E (src_addr + 4) (ucast (ldt_sel tgt)) (patch32 E src_addr tgt_off m)
      else if s = 0x03 then patch16 E (src_addr + 2) (ucast (ldt_sel tgt)) (patch16 E src_addr tgt_off m)
      else if s = 0x00 then patch8 E src_addr target_linear m
      else m)"

text \<open>Where a fixup record points: object number, offset, and the position after the record.\<close>

definition le_target :: "u8 list \<Rightarrow> u8 \<Rightarrow> u8 \<Rightarrow> nat \<Rightarrow> (u32 \<times> u32 \<times> nat) option option" where
  "le_target f src_type tgt_flags p = do {
     (ob, p) \<leftarrow> (if tgt_flags AND 0x40 \<noteq> 0 then do { w \<leftarrow> rdw f p; Some (ucast w, p + 2) }
                else do { b \<leftarrow> rdb f p; Some (ucast b, p + 1) });
     (if src_type AND 0x0F = 0x02 then Some (Some (ob, 0, p))
      else if tgt_flags AND 0x10 \<noteq> 0 then
        (if p + 4 > length f then Some None else do { d \<leftarrow> rdd f p; Some (Some (ob, d, p + 4)) })
      else (if p + 2 > length f then Some None else do { w \<leftarrow> rdw f p; Some (Some (ob, ucast w, p + 2)) })) }"

lemma le_target_advances: "le_target f src_type tgt_flags p = Some (Some (tgt_obj, tgt_off, q)) \<Longrightarrow> p < q"
  by (auto simp: le_target_def Option.bind_eq_Some_conv split: if_splits)

text \<open>The address a record patches, None when it lies outside the source object.\<close>

definition le_source :: "le_object \<Rightarrow> u32 \<Rightarrow> u16 \<Rightarrow> u32 option" where
  "le_source src page_off src_off = (let off = sint (page_off + scast src_off :: u32) in
     if off < 0 \<or> of_int off \<ge> virt_size src then None else Some (host_base src + of_int off))"

text \<open>The records of one page: the inner None is the early \<open>return false\<close>.\<close>

function le_fixup_records ::
  "'m emu88 \<Rightarrow> u8 list \<Rightarrow> le_object list \<Rightarrow> le_object \<Rightarrow> u32 \<Rightarrow> nat \<Rightarrow> nat \<Rightarrow> 'm \<Rightarrow> (bool \<times> 'm) option" where
  "le_fixup_records E f objs src page_off p p_end m =
    (if p + 5 \<le> p_end \<and> p + 5 \<le> length f then
       (case rdw f (p + 2) of None \<Rightarrow> None
        | Some src_off \<Rightarrow>
          if (f ! (p + 1)) AND 0x03 \<noteq> 0 then Some (False, m)
          else if p + 4 \<ge> length f then Some (False, m)
          else (case le_target f (f ! p) (f ! (p + 1)) (p + 4) of
              None \<Rightarrow> None
            | Some None \<Rightarrow> Some (False, m)
            | Some (Some (tgt_obj, tgt_off, q)) \<Rightarrow>
                le_fixup_records E f objs src page_off q p_end
                  (if tgt_obj = 0 \<or> unat tgt_obj > length objs then m
                   else case le_source src page_off src_off of
                       None \<Rightarrow> m
                     | Some src_addr \<Rightarrow> le_patch E (f ! p) src_addr (objs ! (unat tgt_obj - 1)) tgt_off m)))
     else Some (True, m))"
  by pat_completeness auto
termination
proof (relation "measure (\<lambda>(E, f, objs, src, page_off, p, p_end, m). p_end - p)", goal_cases)
  case (2 E f objs src page_off p p_end m)
  then show ?case using le_target_advances by fastforce
qed simp

declare le_fixup_records.simps [simp del]

definition le_owner :: "le_object list \<Rightarrow> u32 \<Rightarrow> le_object option" where
  "le_owner objs page = find (\<lambda>ob. page \<ge> first_page ob \<and> page < first_page ob + page_count ob) objs"

fun le_fixup_pages :: "'m emu88 \<Rightarrow> u8 list \<Rightarrow> nat \<Rightarrow> le_header \<Rightarrow> le_object list \<Rightarrow> nat list \<Rightarrow> 'm \<Rightarrow> (bool \<times> 'm) option" where
  "le_fixup_pages E f le_off h objs [] m = Some (True, m)"
| "le_fixup_pages E f le_off h objs (pg # pgs) m = (let
     pt_entry = le_off + unat (fixup_page_tbl h) + unat (of_nat pg * 4 :: u32);
     pt_next = le_off + unat (fixup_page_tbl h) + unat ((of_nat pg + 1) * 4 :: u32)
   in if pt_next + 4 > length f then Some (False, m)
      else do {
        rec_start \<leftarrow> rdd f pt_entry;
        rec_end \<leftarrow> rdd f pt_next;
        (if rec_end < rec_start then Some (False, m)
         else if rec_start = rec_end then le_fixup_pages E f le_off h objs pgs m
         else case le_owner objs (of_nat pg + 1) of
             None \<Rightarrow> le_fixup_pages E f le_off h objs pgs m
           | Some src \<Rightarrow> do {
               (ok, m) \<leftarrow> le_fixup_records E f objs src ((of_nat pg + 1 - first_page src) * page_size h)
                 (le_off + unat (fixup_rec_tbl h) + unat rec_start) (le_off + unat (fixup_rec_tbl h) + unat rec_end) m;
               (if ok then le_fixup_pages E f le_off h objs pgs m else Some (False, m)) }) })"

definition le_apply_fixups :: "'m emu88 \<Rightarrow> u8 list \<Rightarrow> nat \<Rightarrow> le_header \<Rightarrow> le_object list \<Rightarrow> 'm \<Rightarrow> (bool \<times> 'm) option" where
  "le_apply_fixups E f le_off h objs m =
    (if fixup_page_tbl h = 0 \<or> fixup_rec_tbl h = 0 \<or> num_pages h = 0 then Some (True, m)
     else le_fixup_pages E f le_off h objs [0..<unat (num_pages h)] m)"

section \<open>LE launch\<close>

text \<open>One descriptor per object; the inner None is a full table.\<close>

fun le_install :: "'m emu88 \<Rightarrow> u16 \<Rightarrow> le_object list \<Rightarrow> ('m, 'z) dpmi_scheme \<Rightarrow> le_object list \<times> ('m, 'z) dpmi_scheme" where
  "le_install E idx [] s = ([], s)"
| "le_install E idx (ob # obs) s = (let
     access = (if is_code ob then 0x9A else 0x92);
     limit = (if virt_size ob > 0 then virt_size ob - 1 else 0);
     s = wr (write_ldt_descriptor E idx (host_base ob) limit access (is_big ob)) s;
     s = s\<lparr>s_ldt_in_use := ldt_set idx True (s_ldt_in_use s)\<rparr>;
     (obs, s) = le_install E (idx + 1) obs s
   in (ob\<lparr>ldt_sel := push_bit 3 idx OR 0x04\<rparr> # obs, s))"

definition le_install_descriptors ::
  "'m emu88 \<Rightarrow> le_object list \<Rightarrow> ('m, 'z) dpmi_scheme \<Rightarrow> le_object list option \<times> ('m, 'z) dpmi_scheme" where
  "le_install_descriptors E objs s = (let
     s = wr (MEM_A20_Enable E True) s;
     need = of_nat (length objs) :: u16;
     start = ldt_find_run (s_ldt_in_use s) need
   in if start = 0 then (None, s)
      else case le_install E start (take (unat need) objs) s of (obs, s) \<Rightarrow> (Some (obs @ drop (unat need) objs), s))"

text \<open>The stack object (its 1-based number), and whether the loader has to provide a stack.\<close>

definition last_data_object :: "le_object list \<Rightarrow> nat" where
  "last_data_object objs = (case find (\<lambda>i. \<not> is_code (objs ! (i - 1))) (rev [1..<length objs + 1]) of Some i \<Rightarrow> i | None \<Rightarrow> 0)"

definition le_stack_object :: "u32 \<Rightarrow> u32 \<Rightarrow> le_object list \<Rightarrow> bool \<times> nat" where
  "le_stack_object stack auto objs =
    (if stack = 0 \<or> unat stack > length objs then
       (True, if auto \<noteq> 0 \<and> unat auto \<le> length objs then unat auto
              else if last_data_object objs \<noteq> 0 then last_data_object objs else unat stack)
     else (False, unat stack))"

definition le_stack_pointer ::
  "'m emu88 \<Rightarrow> u32 \<Rightarrow> le_object \<Rightarrow> ('m, 'z) arenas_scheme \<Rightarrow> u32 \<times> ('m, 'z) arenas_scheme" where
  "le_stack_pointer E stack_size so s = (let
     stack_bytes = (if stack_size \<noteq> 0 then stack_size else 0x10000);
     (base, A, m) = pm_alloc E stack_bytes (s_pm s, mem s);
     s = s\<lparr>s_pm := A, mem := m\<rparr>
   in (if base \<noteq> 0 then base + stack_bytes - 16
       else if virt_size so > 16 then virt_size so - 16 else 0, s))"

text \<open>Flat data and code descriptors, 0 when the table has no room; the selectors are data, code.\<close>

definition le_flat_selectors :: "'m emu88 \<Rightarrow> ('m, 'z) dpmi_scheme \<Rightarrow> (u16 \<times> u16) \<times> ('m, 'z) dpmi_scheme" where
  "le_flat_selectors E s = (let
     s = wr (MEM_A20_Enable E True) s;
     run = ldt_find_run (s_ldt_in_use s) 2
   in if run = 0 then ((0, 0), s)
      else let
        s = wr (write_ldt_descriptor E run 0 0xFFFFF 0x92 True) s;
        s = wr (write_ldt_descriptor E (run + 1) 0 0xFFFFF 0x9A True) s;
        s = wr (mem_writeb E (LDT_BASE + ucast run * 8 + 6) 0xCF) s;
        s = wr (mem_writeb E (LDT_BASE + (ucast run + 1) * 8 + 6) 0xCF) s;
        s = s\<lparr>s_ldt_in_use := ldt_set (run + 1) True (ldt_set run True (s_ldt_in_use s))\<rparr>
      in ((push_bit 3 run OR 0x04, push_bit 3 (run + 1) OR 0x04), s))"

definition le_entry :: "(u16 \<times> u16) \<Rightarrow> le_header \<Rightarrow> u32 \<Rightarrow> le_object list \<Rightarrow> le_object \<Rightarrow> le_object \<Rightarrow> u32 \<Rightarrow> initial_regs" where
  "le_entry sels h auto objs eo so esp = (case sels of (flat_data, flat_code) \<Rightarrow>
     \<lparr>ir_cs = (if flat_code \<noteq> 0 then flat_code else ldt_sel eo), ir_ip = 0,
      ir_ss = (if flat_data \<noteq> 0 then flat_data else ldt_sel so), ir_sp = 0, ir_ax = 0, ir_is_pm = True, ir_is_32bit = is_big eo,
      ir_pm_ds = (if flat_data \<noteq> 0 then flat_data
                  else if auto \<noteq> 0 \<and> unat auto \<le> length objs then ldt_sel (objs ! (unat auto - 1)) else ldt_sel so),
      ir_pm_eip = (if flat_code \<noteq> 0 then host_base eo + entry_eip h else entry_eip h),
      ir_pm_esp = (if flat_data \<noteq> 0 then host_base so + esp else esp)\<rparr>)"

text \<open>Releasing the objects after a failed load.\<close>

definition le_release :: "'m emu88 \<Rightarrow> le_object list \<Rightarrow> ('m, 'z) arenas_scheme \<Rightarrow> ('m, 'z) arenas_scheme" where
  "le_release E objs s = fold (\<lambda>ob s.
     if host_seg ob \<noteq> 0 then s\<lparr>mem := snd (mcb_free E (host_seg ob) (s_mcb_initialised s, mem s))\<rparr>
     else if host_base ob \<noteq> 0 then s\<lparr>s_pm := snd (pm_free (host_base ob) (s_pm s))\<rparr> else s) objs s"

definition load_le ::
  "'m emu88 \<Rightarrow> (bool \<Rightarrow> ('m, 'z) dpmi_scheme \<Rightarrow> ('m, 'z) dpmi_scheme) \<Rightarrow> u8 list \<Rightarrow> nat \<Rightarrow> ('m, 'z) dpmi_scheme
     \<Rightarrow> (initial_regs option \<times> ('m, 'z) dpmi_scheme) option" where
  "load_le E prep f le_off s = do {
     h \<leftarrow> le_header_of f le_off;
     (let s = (if \<not> s_mcb_initialised s then s\<lparr>s_mcb_initialised := True, mem := mcb_init E (mem s)\<rparr> else s) in do {
     (ok, objs, s) \<leftarrow> le_load_objects E f le_off h [0..<unat (num_objects h)] [] s;
     (if \<not> ok then Some (None, le_release E objs s)
      else case le_install_descriptors E objs s of
          (None, s) \<Rightarrow> Some (None, s)
        | (Some objs, s) \<Rightarrow> do {
            (_, m) \<leftarrow> le_apply_fixups E f le_off h objs (mem s);
            auto \<leftarrow> rdd f (le_off + 0x94);
            (let s = s\<lparr>mem := m\<rparr>; (synth, so_no) = le_stack_object (stack_obj h) auto objs in
             if entry_obj h = 0 \<or> unat (entry_obj h) > length objs then Some (None, s)
             else if so_no = 0 then Some (None, s)
             else if so_no > length objs then None
             else do {
               stack_size \<leftarrow> (if synth then rdd f (le_off + 0xAC) else Some 0);
               (let eo = objs ! (unat (entry_obj h) - 1); so = objs ! (so_no - 1);
                    (esp, s) = (if synth then le_stack_pointer E stack_size so s else (stack_esp h, s));
                    (sels, s) = le_flat_selectors E s
                in Some (Some (le_entry sels h auto objs eo so esp), prep (is_big eo) s)) }) }) }) }"

section \<open>MZ images\<close>

text \<open>A relocation entry: the address it names, relative to the load segment, None past the end of the file.\<close>

definition mz_reloc :: "u8 list \<Rightarrow> u16 \<Rightarrow> nat \<Rightarrow> nat option" where
  "mz_reloc f reloc_offset i = (let entry = unat reloc_offset + i * 4 in
     if entry + 3 \<ge> length f then None
     else do { r_off \<leftarrow> rdw f entry; r_seg \<leftarrow> rdw f (entry + 2); Some (unat r_seg * 16 + unat r_off) })"

definition mz_fixup :: "'m emu88 \<Rightarrow> u16 \<Rightarrow> nat \<Rightarrow> 'm \<Rightarrow> 'm" where
  "mz_fixup E load_seg r m = (let
     target = of_nat (unat load_seg * 16 + r);
     val = mk16 (mem_readb E m target) (mem_readb E m (target + 1));
     fixed = val + load_seg
   in mem_writeb E (target + 1) (hi8 fixed) (mem_writeb E target (lo8 fixed) m))"

fun mz_relocate :: "'m emu88 \<Rightarrow> u8 list \<Rightarrow> u16 \<Rightarrow> u16 \<Rightarrow> nat list \<Rightarrow> 'm \<Rightarrow> bool \<times> 'm" where
  "mz_relocate E f load_seg reloc_offset [] m = (True, m)"
| "mz_relocate E f load_seg reloc_offset (i # is) m = (case mz_reloc f reloc_offset i of
     None \<Rightarrow> (False, m)
   | Some r \<Rightarrow> mz_relocate E f load_seg reloc_offset is (mz_fixup E load_seg r m))"

text \<open>Start and length of the image in the file; the \<open>size_t\<close> difference wraps for a negative size, which is then
  larger than the file.\<close>

definition mz_extent :: "u8 list \<Rightarrow> (nat \<times> nat) option" where
  "mz_extent f = do {
     last \<leftarrow> rdw f 0x02; pages \<leftarrow> rdw f 0x04; hdr \<leftarrow> rdw f 0x08;
     (let total = int (unat pages) * 512 - (if last \<noteq> 0 then 512 - int (unat last) else 0);
          header = unat hdr * 16
      in if total < int header \<or> total > int (length f) then None else Some (header, nat total - header)) }"

definition load_mz :: "'m emu88 \<Rightarrow> u8 list \<Rightarrow> u16 \<Rightarrow> 'm \<Rightarrow> (initial_regs option \<times> 'm) option" where
  "load_mz E f load_seg m = do {
     reloc_count \<leftarrow> rdw f 0x06; init_ss \<leftarrow> rdw f 0x0E; init_sp \<leftarrow> rdw f 0x10;
     init_ip \<leftarrow> rdw f 0x14; init_cs \<leftarrow> rdw f 0x16; reloc_offset \<leftarrow> rdw f 0x18;
     (case mz_extent f of None \<Rightarrow> Some (None, m)
      | Some (header, image_bytes) \<Rightarrow> let
          m = store_bytes E (ucast load_seg * 16) (take image_bytes (drop header f)) m;
          (ok, m) = mz_relocate E f load_seg reloc_offset [0..<unat reloc_count] m
        in Some (if ok then Some (real_regs (load_seg + init_cs) init_ip (load_seg + init_ss) init_sp 0) else None, m)) }"

text \<open>The signatures of bound extenders in the first 4096 bytes of the stub.\<close>

definition has_signature :: "u8 list \<Rightarrow> string \<Rightarrow> bool" where
  "has_signature stub sig = (let n = length sig in
     list_ex (\<lambda>i. take n (drop i stub) = map of_char sig) [0..<length stub + 1 - n])"

definition extender_bound :: "(string \<Rightarrow> string option) \<Rightarrow> u8 list \<Rightarrow> bool" where
  "extender_bound env f = (length f \<ge> 0x40 \<and> (case rdd f 0x3C of None \<Rightarrow> False
     | Some lfanew \<Rightarrow> lfanew > 0x40 \<and> unat lfanew \<le> length f \<and>
         (let stub = take (min (unat lfanew) 4096) f in
            (has_signature stub ''DOS/4G'' \<or> has_signature stub ''DOS/16M'' \<or> has_signature stub ''PMODE/W'')
            \<and> env ''DOSIZ_BYPASS_EXTENDER'' = None)))"

definition le_offset :: "u8 list \<Rightarrow> nat option" where
  "le_offset f = (if length f < 0x40 then None else case rdd f 0x3C of None \<Rightarrow> None
     | Some off \<Rightarrow> if off \<noteq> 0 \<and> unat off + 2 \<le> length f \<and> f ! unat off = 0x4C
           \<and> (f ! (unat off + 1) = 0x45 \<or> f ! (unat off + 1) = 0x58)
         then Some (unat off) else None)"

definition is_mz :: "u8 list \<Rightarrow> bool" where
  "is_mz f \<longleftrightarrow> f ! 0 = 0x4D \<and> f ! 1 = 0x5A \<or> f ! 0 = 0x5A \<and> f ! 1 = 0x4D"

text \<open>The result also says whether the image was found to be bound to an extender (\<open>s_extender_bound\<close>).\<close>

definition load_exe_at ::
  "'m emu88 \<Rightarrow> (string \<Rightarrow> string option) \<Rightarrow> (bool \<Rightarrow> ('m, 'z) dpmi_scheme \<Rightarrow> ('m, 'z) dpmi_scheme) \<Rightarrow> u8 list \<Rightarrow> u16
     \<Rightarrow> ('m, 'z) dpmi_scheme \<Rightarrow> (initial_regs option \<times> bool \<times> ('m, 'z) dpmi_scheme) option" where
  "load_exe_at E env prep f psp_seg s =
    (if length f < 0x1C then Some (None, False, s)
     else if \<not> is_mz f then Some (None, False, s)
     else let bound = extender_bound env f in
       case (if \<not> bound \<and> \<not> le_as_mz (DebugSettings env) then le_offset f else None) of
         Some le_off \<Rightarrow> map_option (\<lambda>(r, s). (r, bound, s)) (load_le E prep f le_off s)
       | None \<Rightarrow> map_option (\<lambda>(r, m). (r, bound, s\<lparr>mem := m\<rparr>)) (load_mz E f (psp_seg + 0x10) (mem s)))"

definition load_program_at ::
  "'m emu88 \<Rightarrow> (string \<Rightarrow> string option) \<Rightarrow> (string \<Rightarrow> u8 list) \<Rightarrow> (bool \<Rightarrow> ('m, 'z) dpmi_scheme \<Rightarrow> ('m, 'z) dpmi_scheme)
     \<Rightarrow> string \<Rightarrow> u16 \<Rightarrow> ('m, 'z) dpmi_scheme \<Rightarrow> (initial_regs option \<times> bool \<times> ('m, 'z) dpmi_scheme) option" where
  "load_program_at E env file prep path psp_seg s = (let f = file path in
     if length f \<ge> 2 \<and> f ! 0 = 0x4D \<and> f ! 1 = 0x5A then load_exe_at E env prep f psp_seg s
     else if ends_with path ''.exe'' then load_exe_at E env prep f psp_seg s
     else Some (case load_com_at E f psp_seg (mem s) of
         Some (r, m) \<Rightarrow> (Some r, False, s\<lparr>mem := m\<rparr>) | None \<Rightarrow> (None, False, s)))"

section \<open>Environment block and PSP\<close>

text \<open>\<open>put_string\<close>: the offset is None once the block is full.\<close>

fun env_chars :: "'m emu88 \<Rightarrow> string \<Rightarrow> nat \<Rightarrow> 'm \<Rightarrow> nat option \<times> 'm" where
  "env_chars E [] off m = (Some (off + 1), mem_writeb E (ucast ENV_SEG * 16 + of_nat off) 0 m)"
| "env_chars E (c # cs) off m = (if off \<ge> ENV_BYTES - 1 then (None, m)
     else env_chars E cs (off + 1) (mem_writeb E (ucast ENV_SEG * 16 + of_nat off) (byte_of c) m))"

fun env_strings :: "'m emu88 \<Rightarrow> string list \<Rightarrow> nat \<Rightarrow> 'm \<Rightarrow> nat option \<times> 'm" where
  "env_strings E [] off m = (Some off, m)"
| "env_strings E (e # es) off m = (case env_chars E e off m of
     (None, m) \<Rightarrow> (None, m) | (Some off, m) \<Rightarrow> env_strings E es off m)"

definition env_keys :: "string list" where
  "env_keys = [''HOME'', ''USER'', ''TMPDIR'', ''LANG'', ''TZ'', ''DJGPP'', ''WATCOM'', ''INCLUDE'', ''LIB'', ''LIBPATH'']"

definition env_entries :: "(string \<Rightarrow> string option) \<Rightarrow> string list" where
  "env_entries env = [''COMSPEC=C:'' @ [CHR 0x5C] @ ''COMMAND.COM'',
     ''PATH=C:'' @ [CHR 0x5C] @ (case env_str env ''DOSIZ_PATH'' of Some extra \<Rightarrow> CHR '';'' # extra | None \<Rightarrow> [])]
     @ concat (map (\<lambda>key. case env_str env key of None \<Rightarrow> []
         | Some val \<Rightarrow> let entry = key @ ''='' @ val in if length entry > 200 then [] else [entry]) env_keys)"

definition strip_root :: "string \<Rightarrow> string" where
  "strip_root rel = (if length rel \<ge> 2 \<and> rel ! 0 = CHR ''.'' \<and> is_sep (rel ! 1) then drop 2 rel
     else if rel \<noteq> [] \<and> is_sep (rel ! 0) then drop 1 rel else rel)"

definition dos_argv0 :: "string \<Rightarrow> string" where
  "dos_argv0 program_path = ''C:'' @ [CHR 0x5C]
     @ map (\<lambda>c. if c = CHR ''/'' then CHR 0x5C else toupper c) (strip_root program_path)"

definition build_env_block :: "'m emu88 \<Rightarrow> (string \<Rightarrow> string option) \<Rightarrow> string \<Rightarrow> 'm \<Rightarrow> bool \<times> 'm" where
  "build_env_block E env program_path m = (let base = ucast ENV_SEG * 16 in
     case env_strings E (env_entries env) 0 m of (None, m) \<Rightarrow> (False, m)
     | (Some off, m) \<Rightarrow>
        if off \<ge> ENV_BYTES then (False, m)
        else let m = mem_writeb E (base + of_nat off) 0 m; off = off + 1 in
          if off + 2 > ENV_BYTES then (False, m)
          else let m = mem_writeb E (base + of_nat (off + 1)) 0 (mem_writeb E (base + of_nat off) 1 m) in
            (case env_chars E (dos_argv0 program_path) (off + 2) m of (r, m) \<Rightarrow> (r \<noteq> None, m)))"

definition quote_arg :: "string \<Rightarrow> string" where
  "quote_arg a = (let
     q = (if \<exists>c\<in>set a. c = CHR '' '' \<or> c = CHR 0x09 then [CHR 0x22] else []);
     body = concat (map (\<lambda>c. if c = CHR 0x22 \<or> c = CHR 0x5C then [CHR 0x5C, c] else [c]) a)
   in '' '' @ q @ body @ q)"

definition command_tail :: "string list \<Rightarrow> string" where
  "command_tail as = take 126 (concat (map quote_arg as))"

definition psp_fixed :: "(nat \<times> u8) list" where
  "psp_fixed = [(0x00, 0xCD), (0x01, 0x20), (0x02, 0x00), (0x03, 0xA0)] @ map (\<lambda>i. (i, 0xFF)) [0x18..<0x2C]
     @ [(0x18, 0x00), (0x19, 0x01), (0x1A, 0x02), (0x1B, 0x03), (0x1C, 0x04), (0x32, 20), (0x33, 0),
        (0x34, 0x18), (0x35, 0x00), (0x36, lo8 PSP_SEG), (0x37, hi8 PSP_SEG)]"

definition put_at :: "'m emu88 \<Rightarrow> u32 \<Rightarrow> nat \<times> u8 \<Rightarrow> 'm \<Rightarrow> 'm" where
  "put_at E base = (\<lambda>(i, v). mem_writeb E (base + of_nat i) v)"

definition build_psp :: "'m emu88 \<Rightarrow> (string \<Rightarrow> string option) \<Rightarrow> string \<Rightarrow> string list \<Rightarrow> 'm \<Rightarrow> 'm" where
  "build_psp E env program_path as m = (let
     psp = ucast PSP_SEG * 16;
     m = fold (\<lambda>i. put_at E psp (i, 0)) [0..<256] m;
     m = fold (put_at E psp) psp_fixed m;
     (_, m) = build_env_block E env program_path m;
     m = fold (put_at E psp) [(0x2C, lo8 ENV_SEG), (0x2D, hi8 ENV_SEG)] m;
     tail = command_tail as;
     m = put_at E psp (0x80, of_nat (length tail)) m;
     m = fold (\<lambda>i. put_at E psp (0x81 + i, byte_of (tail ! i))) [0..<length tail] m
   in put_at E psp (0x81 + length tail, 0x0D) m)"

section \<open>The relocated image\<close>

definition reloc_word :: "u16 \<Rightarrow> nat \<Rightarrow> u8 list \<Rightarrow> u8 list" where
  "reloc_word load_seg r img = (let v = mk16 (img ! r) (img ! (r + 1)) + load_seg in img[r := lo8 v, r + 1 := hi8 v])"

text \<open>What an MZ file is in memory: the bytes after the header, with the load segment added to each relocated word.\<close>

definition mz_image :: "u8 list \<Rightarrow> u16 \<Rightarrow> nat \<times> nat \<Rightarrow> nat list \<Rightarrow> u8 list" where
  "mz_image f load_seg ext rs = fold (reloc_word load_seg) rs (take (snd ext) (drop (fst ext) f))"

definition mz_relocs :: "u8 list \<Rightarrow> u16 \<Rightarrow> nat \<Rightarrow> nat list" where
  "mz_relocs f reloc_offset n = map (\<lambda>i. the (mz_reloc f reloc_offset i)) [0..<n]"

lemma length_reloc_word [simp]: "length (reloc_word seg r img) = length img"
  by (simp add: reloc_word_def Let_def)

lemma length_reloc_fold [simp]: "length (fold (reloc_word seg) rs img) = length img"
  by (induction rs arbitrary: img) simp_all

lemma rdw_in: "off + 2 \<le> length f \<Longrightarrow> rdw f off = Some (mk16 (f ! off) (f ! (off + 1)))"
  by (simp add: rdw_def rdb_def)

lemma mz_extent_bounds: "mz_extent f = Some (h, n) \<Longrightarrow> h + n \<le> length f \<and> n < 0x3000000"
proof -
  assume ext: "mz_extent f = Some (h, n)"
  then obtain l where l: "rdw f 0x02 = Some l" by (cases "rdw f 0x02") (simp_all add: mz_extent_def)
  with ext obtain p where p: "rdw f 0x04 = Some p" by (cases "rdw f 0x04") (simp_all add: mz_extent_def)
  with ext l obtain d where d: "rdw f 0x08 = Some d" by (cases "rdw f 0x08") (simp_all add: mz_extent_def)
  define t where "t = int (unat p) * 512 - (if l \<noteq> 0 then 512 - int (unat l) else 0)"
  have t: "t \<le> int (unat p) * 512 + int (unat l)" by (simp add: t_def)
  have "h = unat d * 16" "n = nat t - unat d * 16" "int (unat d * 16) \<le> t" "t \<le> int (length f)"
    using ext unfolding mz_extent_def l p d Let_def by (auto simp: t_def split: if_splits)
  moreover have "unat p < 65536" "unat l < 65536" by (rule unat_u16_less)+
  ultimately show ?thesis using t by linarith
qed

lemma unat_seg16: "unat (ucast (seg :: u16) * 16 :: u32) = unat seg * 16"
  using unat_seg_lin [of seg] by (simp add: seg_lin_def)

context emu88_engine
begin

lemma mz_fixup_stored:
  assumes "stored E (ucast seg * 16) img m0 m" and "r + 1 < length img" and "unat seg * 16 + length img \<le> 2 ^ 32"
    and "\<And>b. \<lbrakk>unat seg * 16 \<le> unat b; unat b < unat seg * 16 + length img\<rbrakk> \<Longrightarrow> is_ram E m0 b"
  shows "stored E (ucast seg * 16) (reloc_word seg r img) m0 (mz_fixup E seg r m)"
proof -
  define a :: u32 where "a = of_nat (unat seg * 16 + r)"
  have a: "unat a = unat seg * 16 + r" unfolding a_def using assms(2,3) by (intro unat_of_nat_u32) simp
  have a1: "unat (a + 1) = unat seg * 16 + r + 1"
    using assms(2,3) unat_plus_of_nat [of a 1] a by simp
  have ram: "is_ram E m0 b = is_ram E m b" for b using assms(1) by (simp add: stored_def)
  have rd: "mem_readb E m b = (if unat seg * 16 \<le> unat b \<and> unat b < unat seg * 16 + length img then img ! (unat b - unat seg * 16) else mem_readb E m0 b)"
    if "is_ram E m0 b" for b
    using assms(1) that unfolding stored_def by (simp add: unat_seg16)
  have r0: "is_ram E m a" "is_ram E m (a + 1)"
    using assms(2,4) a a1 unfolding ram [symmetric] by auto
  have v: "mem_readb E m a = img ! r" "mem_readb E m (a + 1) = img ! (r + 1)"
    using rd [of a] rd [of "a + 1"] r0 ram a a1 assms(2) by simp_all
  let ?v = "mk16 (img ! r) (img ! (r + 1)) + seg"
  have fx: "mz_fixup E seg r m = mem_writeb E (a + 1) (hi8 ?v) (mem_writeb E a (lo8 ?v) m)"
    unfolding mz_fixup_def Let_def a_def [symmetric] v ..
  have neq: "b = a \<longleftrightarrow> unat b = unat seg * 16 + r" "b = a + 1 \<longleftrightarrow> unat b = unat seg * 16 + r + 1" for b
    by (simp_all only: word_unat_eq_iff a a1)
  have fix': "mem_readb E (mz_fixup E seg r m) b = (if b = a + 1 then hi8 ?v else if b = a then lo8 ?v else mem_readb E m b)"
    if "is_ram E m b" for b
    using r0 that by (simp add: fx mem_simps)
  have ram': "is_ram E (mz_fixup E seg r m) b = is_ram E m0 b" for b
    using r0 ram by (simp add: fx mem_simps)
  show ?thesis
    unfolding stored_def unat_seg16 length_reloc_word
    using ram ram' assms(2)
    by (auto simp: fix' rd neq reloc_word_def Let_def nth_list_update)
qed

lemma mz_relocate_stored:
  assumes "stored E (ucast seg * 16) img m0 m" and "unat seg * 16 + length img \<le> 2 ^ 32"
    and "\<And>b. \<lbrakk>unat seg * 16 \<le> unat b; unat b < unat seg * 16 + length img\<rbrakk> \<Longrightarrow> is_ram E m0 b"
    and "\<forall>i\<in>set ks. \<exists>r. mz_reloc f ro i = Some r \<and> r + 1 < length img"
  shows "\<exists>m'. mz_relocate E f seg ro ks m = (True, m')
    \<and> stored E (ucast seg * 16) (fold (reloc_word seg) (map (\<lambda>i. the (mz_reloc f ro i)) ks) img) m0 m'"
  using assms
proof (induction ks arbitrary: img m)
  case (Cons i ks)
  then obtain r where r: "mz_reloc f ro i = Some r" "r + 1 < length img" by auto
  have "stored E (ucast seg * 16) (reloc_word seg r img) m0 (mz_fixup E seg r m)"
    by (rule mz_fixup_stored [OF Cons.prems(1) r(2) Cons.prems(2,3)])
  from Cons.IH [OF this] Cons.prems(2-4) r(1) show ?case by simp
qed simp

end

text \<open>C36: an MZ file whose relocation entries lie in the file and name words of the image is loaded as exactly its
  relocated image at the load segment: every byte of the image comes from the file, with the load segment added to
  each relocated word, no other byte of memory changes, and the entry registers are the header's, offset by the
  load segment.\<close>

theorem load_mz_image:
  assumes "emu88_engine E" and "0x1C \<le> length f" and "mz_extent f = Some ext"
    and "rdw f 0x06 = Some cnt" and "rdw f 0x18 = Some ro"
    and "\<And>i. i < unat cnt \<Longrightarrow> \<exists>r. mz_reloc f ro i = Some r \<and> r + 1 < snd ext"
    and "\<And>b. \<lbrakk>unat seg * 16 \<le> unat b; unat b < unat seg * 16 + snd ext\<rbrakk> \<Longrightarrow> is_ram E m b"
  shows "\<exists>m'. load_mz E f seg m = Some (Some (real_regs (seg + mk16 (f ! 0x16) (f ! 0x17)) (mk16 (f ! 0x14) (f ! 0x15))
        (seg + mk16 (f ! 0x0E) (f ! 0x0F)) (mk16 (f ! 0x10) (f ! 0x11)) 0), m')
    \<and> stored E (ucast seg * 16) (mz_image f seg ext (mz_relocs f ro (unat cnt))) m m'"
proof -
  obtain h n where ext: "ext = (h, n)" by (cases ext)
  let ?img = "take n (drop h f)"
  have b: "h + n \<le> length f" "n < 0x3000000" using mz_extent_bounds assms(3) ext by simp_all
  then have len: "length ?img = n" by simp
  have seg: "unat seg < 65536" by (rule unat_u16_less)
  have ram: "is_ram E m (ucast seg * 16 + of_nat i)" if "i < n" for i
    using that assms(7) [of "ucast seg * 16 + of_nat i"] seg b(2) unat_plus_of_nat [of "ucast seg * 16" i] ext
    by (simp add: unat_seg16)
  have "stored E (ucast seg * 16) ?img m (store_bytes E (ucast seg * 16) ?img m)"
    using ram len seg b(2) by (intro emu88_engine.store_bytes_stored [OF assms(1)]) (simp_all add: unat_seg16)
  then have "\<exists>m'. mz_relocate E f seg ro [0..<unat cnt] (store_bytes E (ucast seg * 16) ?img m) = (True, m')
      \<and> stored E (ucast seg * 16) (fold (reloc_word seg) (map (\<lambda>i. the (mz_reloc f ro i)) [0..<unat cnt]) ?img) m m'"
    by (rule emu88_engine.mz_relocate_stored [OF assms(1)])
      (use assms(6,7) ext len seg b(2) in \<open>simp_all only: len snd_conv set_upt atLeastLessThan_iff, auto\<close>)
  then obtain m' where m': "mz_relocate E f seg ro [0..<unat cnt] (store_bytes E (ucast seg * 16) ?img m) = (True, m')"
      "stored E (ucast seg * 16) (mz_image f seg ext (mz_relocs f ro (unat cnt))) m m'"
    by (auto simp: mz_image_def mz_relocs_def ext)
  have "load_mz E f seg m = Some (Some (real_regs (seg + mk16 (f ! 0x16) (f ! 0x17)) (mk16 (f ! 0x14) (f ! 0x15))
        (seg + mk16 (f ! 0x0E) (f ! 0x0F)) (mk16 (f ! 0x10) (f ! 0x11)) 0), m')"
    using assms(2-5) m'(1) ext by (simp add: load_mz_def rdw_in)
  with m'(2) show ?thesis by blast
qed

text \<open>A 34-byte file with one relocation entry, loaded at segment 110h.\<close>

definition mz_sample :: "u8 list" where
  "mz_sample = [0x4D, 0x5A, 34, 0, 1, 0, 1, 0, 2, 0, 0, 0, 0, 0, 0, 0, 0x00, 0x01, 0, 0, 0, 0, 0, 0, 0x1C, 0, 0, 0,
     0, 0, 0, 0, 0x34, 0x12]"

lemma mz_sample_fields:
  "length mz_sample = 34" "mz_extent mz_sample = Some (32, 2)" "rdw mz_sample 0x06 = Some 1"
  "rdw mz_sample 0x18 = Some 0x1C" "mz_reloc mz_sample 0x1C 0 = Some 0"
  "mz_image mz_sample 0x110 (32, 2) (mz_relocs mz_sample 0x1C (Suc 0)) = [0x44, 0x13]"
  by code_simp+

lemma load_mz_image_witness:
  "\<exists>m'. stored flat (ucast (0x110 :: u16) * 16) [0x44, 0x13] (\<lambda>_. 0) m'"
proof -
  have "\<exists>r. mz_reloc mz_sample 0x1C i = Some r \<and> r + 1 < snd (32 :: nat, 2 :: nat)" if "i < unat (1 :: u16)" for i
    using that mz_sample_fields(5) by simp
  then show ?thesis
    using load_mz_image [OF flat_ram.emu88_engine_axioms, where f = mz_sample and ext = "(32, 2)" and cnt = 1 and ro = "0x1C"
        and seg = "0x110" and m = "\<lambda>_. 0"]
    by (auto simp: mz_sample_fields)
qed

section \<open>The image of a linear-executable object\<close>

definition ob_area :: "le_object \<Rightarrow> u32 set" where
  "ob_area ob = {b. unat (host_base ob) \<le> unat b \<and> unat b < unat (host_base ob) + unat (virt_size ob)}"

definition ob_ram :: "'m emu88 \<Rightarrow> le_object \<Rightarrow> 'm \<Rightarrow> bool" where
  "ob_ram E ob m \<longleftrightarrow> unat (host_base ob) + unat (virt_size ob) \<le> 2 ^ 32 \<and> (\<forall>b\<in>ob_area ob. is_ram E m b)"

text \<open>The page table of the file over the natural numbers: the number of the file page that makes page \<open>p\<close> of the object, 0 when it has none
  (no entry, an entry past the end of the file, or a page that is not a legal one), and the bytes of the file for it.\<close>

definition le_page_number :: "u8 list \<Rightarrow> nat \<Rightarrow> le_header \<Rightarrow> le_object \<Rightarrow> nat \<Rightarrow> nat" where
  "le_page_number f le_off h ob p = (let
     i = unat (first_page ob) - 1 + p;
     e = le_off + unat (page_tbl_off h) + 4 * i
   in if i < unat (num_pages h) \<and> e + 4 \<le> length f \<and> f ! (e + 3) = 0
      then 0x10000 * unat (f ! e) + 0x100 * unat (f ! (e + 1)) + unat (f ! (e + 2)) else 0)"

definition le_page_length :: "le_header \<Rightarrow> nat \<Rightarrow> nat" where
  "le_page_length h n = unat (if n = unat (num_pages h) \<and> last_page_sz h \<noteq> 0 then last_page_sz h else page_size h)"

definition le_page_data :: "u8 list \<Rightarrow> nat \<Rightarrow> le_header \<Rightarrow> le_object \<Rightarrow> nat \<Rightarrow> u8 list" where
  "le_page_data f le_off h ob p = (let n = le_page_number f le_off h ob p in
     if n = 0 then [] else take (le_page_length h n) (drop (unat (data_pages h) + (n - 1) * unat (page_size h)) f))"

text \<open>The object after its first \<open>k\<close> pages: each has its place, and what no page fills is 0.\<close>

definition le_image_upto :: "u8 list \<Rightarrow> nat \<Rightarrow> le_header \<Rightarrow> le_object \<Rightarrow> nat \<Rightarrow> u8 list" where
  "le_image_upto f le_off h ob k = map (\<lambda>i. let p = i div unat (page_size h); j = i mod unat (page_size h); d = le_page_data f le_off h ob p
     in if p < k \<and> j < length d then d ! j else 0) [0 ..< unat (virt_size ob)]"

abbreviation le_image :: "u8 list \<Rightarrow> nat \<Rightarrow> le_header \<Rightarrow> le_object \<Rightarrow> u8 list" where
  "le_image f le_off h ob \<equiv> le_image_upto f le_off h ob (unat (page_count ob))"

text \<open>A well-formed object: pages are numbered from 1, the page table names pages the file has, the last page is no longer than the others, no page
  begins past the end of the object, and file and object stay below 4 GB. The loader checks none of this.\<close>

definition le_fits :: "u8 list \<Rightarrow> nat \<Rightarrow> le_header \<Rightarrow> le_object \<Rightarrow> bool" where
  "le_fits f le_off h ob \<longleftrightarrow> 0 < page_size h \<and> last_page_sz h \<le> page_size h \<and> unat (num_pages h) < 2 ^ 30
     \<and> 0 < first_page ob \<and> unat (first_page ob) + unat (page_count ob) \<le> 2 ^ 32
     \<and> (\<forall>p < unat (page_count ob). le_page_number f le_off h ob p \<le> unat (num_pages h) \<and> p * unat (page_size h) \<le> unat (virt_size ob))
     \<and> unat (page_count ob) * unat (page_size h) < 2 ^ 32
     \<and> unat (data_pages h) + unat (num_pages h) * unat (page_size h) < 2 ^ 32"

lemma page_number_word:
  "unat (push_bit 16 (ucast (a :: u8)) OR push_bit 8 (ucast (b :: u8)) OR ucast (c :: u8) :: u32) = 0x10000 * unat a + 0x100 * unat b + unat c"
proof -
  have or_plus: "x OR y = x + y" if "x AND y = 0" for x y :: u32
    using word_plus_and_or [of x y] that by simp
  have u: "unat (ucast x :: u32) = unat x" for x :: u8 using unat_u8_less [of x] by (simp add: unsigned_ucast_eq take_bit_nat_eq_self)
  have "push_bit 16 (ucast a) AND (push_bit 8 (ucast b) OR ucast c) = (0 :: u32)" "push_bit 8 (ucast b) AND ucast c = (0 :: u32)"
    by (rule bit_word_eqI, auto simp: bit_simps dest!: bit_imp_le_length)+
  then have "push_bit 16 (ucast a) OR push_bit 8 (ucast b) OR ucast c = (push_bit 16 (ucast a) + (push_bit 8 (ucast b) + ucast c) :: u32)"
    by (simp add: or_plus or.assoc)
  moreover have "unat a < 256" "unat b < 256" "unat c < 256" using unat_u8_less by auto
  ultimately show ?thesis by (simp add: push_bit_eq_mult unat_word_ariths u)
qed

lemma takeWhile_upt_less: "takeWhile (\<lambda>j. o0 + j < n) [0 ..< c] = [0 ..< min c (n - o0)]"
proof -
  define k where "k = min c (n - o0)"
  have "[0 ..< c] = [0 ..< k] @ [k ..< c]" using upt_add_eq_append [of 0 k "c - k"] by (simp add: k_def)
  moreover have "takeWhile (\<lambda>j. o0 + j < n) [k ..< c] = []" by (cases "k < c") (auto simp: upt_conv_Cons k_def)
  moreover have "takeWhile (\<lambda>j. o0 + j < n) ([0 ..< k] @ [k ..< c]) = [0 ..< k] @ takeWhile (\<lambda>j. o0 + j < n) [k ..< c]"
    by (rule takeWhile_append2) (auto simp: k_def)
  ultimately show ?thesis by (simp add: k_def [symmetric])
qed

lemma le_copy_page_bytes:
  assumes "unat off + unat copy \<le> 2 ^ 32"
  shows "le_copy_page E f off dst copy m = store_bytes E dst (take (unat copy) (drop (unat off) f)) m"
proof -
  have off: "unat (off + of_nat j) = unat off + j" if "j < unat copy" for j using that assms by (intro unat_plus_of_nat) simp
  have tw: "takeWhile (\<lambda>j. unat (off + of_nat j) < length f) [0 ..< unat copy] = [0 ..< min (unat copy) (length f - unat off)]"
    using takeWhile_upt_less [of "unat off" "length f" "unat copy"] off
    by (metis (mono_tags, lifting) atLeastLessThan_iff set_upt takeWhile_cong)
  show ?thesis unfolding le_copy_page_def tw store_bytes_def
    by (rule fold_cong) (auto simp: off min.commute)
qed

lemma stored_overlay:
  assumes "stored E a img m0 m" and "stored E (a + of_nat d) bs m m'" and "d + length bs \<le> length img" and "unat a + length img \<le> 2 ^ 32"
  shows "stored E a (map (\<lambda>i. if d \<le> i \<and> i < d + length bs then bs ! (i - d) else img ! i) [0 ..< length img]) m0 m'"
proof (cases "bs = []")
  case True
  then show ?thesis using assms(1,2) by (auto simp: stored_def)
next
  case False
  then have "unat (a + of_nat d) = unat a + d" using assms(3,4) by (intro unat_plus_of_nat) (auto simp: neq_Nil_conv)
  then show ?thesis using assms(1-3) by (auto simp: stored_def)
qed

lemma length_le_image [simp]: "length (le_image_upto f le_off h ob k) = unat (virt_size ob)"
  by (simp add: le_image_upto_def)

lemma le_page_data_bound: "le_fits f le_off h ob \<Longrightarrow> length (le_page_data f le_off h ob p) \<le> unat (page_size h)"
  by (auto simp: le_fits_def le_page_data_def le_page_length_def Let_def word_le_nat_alt)

lemma le_image_step:
  fixes p :: nat
  assumes "le_fits f le_off h ob"
  defines "d \<equiv> p * unat (page_size h)"
  defines "bs \<equiv> take (unat (virt_size ob) - d) (le_page_data f le_off h ob p)"
  shows "map (\<lambda>i. if d \<le> i \<and> i < d + length bs then bs ! (i - d) else le_image_upto f le_off h ob p ! i) [0 ..< unat (virt_size ob)]
    = le_image_upto f le_off h ob (Suc p)"
proof -
  let ?ps = "unat (page_size h)"
  have ps: "0 < ?ps" using assms(1) by (simp add: le_fits_def word_less_nat_alt)
  have len: "length bs \<le> ?ps" using le_page_data_bound [OF assms(1), of p] by (simp add: bs_def)
  have "(if d \<le> i \<and> i < d + length bs then bs ! (i - d) else le_image_upto f le_off h ob p ! i) = le_image_upto f le_off h ob (Suc p) ! i"
    if i: "i < unat (virt_size ob)" for i
  proof (cases "i div ?ps = p")
    case True
    then have "i = d + i mod ?ps" unfolding d_def by (metis div_mult_mod_eq mult.commute)
    then have "i - d = i mod ?ps" "d \<le> i" by simp_all
    then show ?thesis using i True by (auto simp: le_image_upto_def Let_def bs_def)
  next
    case False
    have "\<not> (d \<le> i \<and> i < d + length bs)"
    proof
      assume "d \<le> i \<and> i < d + length bs"
      then have "i div ?ps = p" using len unfolding d_def by (intro div_nat_eqI) (auto simp: mult.commute)
      with False show False by simp
    qed
    then show ?thesis using i False by (auto simp: le_image_upto_def Let_def less_Suc_eq)
  qed
  then have "map (\<lambda>i. if d \<le> i \<and> i < d + length bs then bs ! (i - d) else le_image_upto f le_off h ob p ! i) [0 ..< unat (virt_size ob)]
      = map ((!) (le_image_upto f le_off h ob (Suc p))) [0 ..< unat (virt_size ob)]"
    by (intro map_cong refl) (simp only: set_upt atLeastLessThan_iff)
  also have "... = le_image_upto f le_off h ob (Suc p)" using map_nth [of "le_image_upto f le_off h ob (Suc p)"] by simp
  finally show ?thesis .
qed

lemma le_page_stores:
  assumes "le_fits f le_off h ob" and "p < unat (page_count ob)"
  shows "le_page E f le_off h ob p m = store_bytes E (host_base ob + of_nat (p * unat (page_size h)))
    (take (unat (virt_size ob) - p * unat (page_size h)) (le_page_data f le_off h ob p)) m"
proof -
  let ?ps = "unat (page_size h)" and ?n = "le_page_number f le_off h ob p" and ?e = "le_off + unat (page_tbl_off h) + 4 * (unat (first_page ob) - 1 + p)"
  define idx where "idx = first_page ob - 1 + of_nat p"
  define w :: u32 where "w = push_bit 16 (ucast (f ! ?e)) OR push_bit 8 (ucast (f ! (?e + 1))) OR ucast (f ! (?e + 2))"
  note fits = assms(1) [unfolded le_fits_def]
  have f1: "unat (first_page ob - 1) = unat (first_page ob) - 1" using fits by (simp add: unat_sub word_le_nat_alt word_less_nat_alt)
  have "unat (first_page ob) + unat (page_count ob) \<le> 2 ^ 32" "0 < unat (first_page ob)" using fits by (simp_all add: word_less_nat_alt)
  then have idx: "unat idx = unat (first_page ob) - 1 + p"
    unfolding idx_def f1 [symmetric] using assms(2) by (intro unat_plus_of_nat) (simp add: f1)
  have w: "unat w = 0x10000 * unat (f ! ?e) + 0x100 * unat (f ! (?e + 1)) + unat (f ! (?e + 2))" unfolding w_def by (rule page_number_word)
  have i4: "unat (idx * 4) = 4 * (unat (first_page ob) - 1 + p)" if "idx < num_pages h"
    using that fits by (simp add: unat_word_ariths idx word_less_nat_alt)
  have pt: "le_off + unat (page_tbl_off h) + unat (idx * 4) = ?e" if "idx < num_pages h" using i4 [OF that] by simp
  have nil: "store_bytes E a [] m = m" for a by (simp add: store_bytes_def)
  show ?thesis
  proof (cases "?n = 0")
    case True
    have "le_page E f le_off h ob p m = m"
    proof (cases "idx < num_pages h \<and> ?e + 4 \<le> length f \<and> f ! (?e + 3) = 0")
      case ok: True
      then have "unat w = 0" using True w idx by (simp add: le_page_number_def Let_def word_less_nat_alt)
      then have "w = 0" by (simp add: unat_eq_0)
      then show ?thesis using ok unfolding le_page_def Let_def idx_def [symmetric] pt [OF conjunct1 [OF ok]] w_def [symmetric] by simp
    next
      case bad: False
      show ?thesis
      proof (cases "idx < num_pages h")
        case True
        then show ?thesis using bad unfolding le_page_def Let_def idx_def [symmetric] pt [OF True] by simp
      qed (simp add: le_page_def Let_def idx_def [symmetric] not_less)
    qed
    moreover have "le_page_data f le_off h ob p = []" using True by (simp add: le_page_data_def)
    ultimately show ?thesis by (simp add: nil)
  next
    case False
    then have ok: "idx < num_pages h" "?e + 4 \<le> length f" "f ! (?e + 3) = 0" and n: "unat w = ?n"
      using w idx by (auto simp: le_page_number_def Let_def word_less_nat_alt split: if_splits)
    have w0: "w \<noteq> 0" using False n by auto
    define d where "d = of_nat p * page_size h"
    define c where "c = (if w = num_pages h \<and> last_page_sz h \<noteq> 0 then last_page_sz h else page_size h)"
    have top: "p * ?ps + ?ps < 2 ^ 32"
    proof -
      have "Suc p * ?ps \<le> unat (page_count ob) * ?ps" using assms(2) by (intro mult_le_mono1) simp
      then show ?thesis using fits by simp
    qed
    have dn: "d = of_nat (p * ?ps)" by (simp add: d_def)
    have d: "unat d = p * ?ps" unfolding dn by (rule unat_of_nat_u32) (use top in simp)
    have c: "unat c = le_page_length h ?n" "unat c \<le> ?ps"
      using fits n by (auto simp: c_def le_page_length_def word_le_nat_alt word_unat_eq_iff)
    have copy: "unat (le_copy_bytes h ob w d) = min (unat c) (unat (virt_size ob) - p * ?ps)"
    proof -
      have vs: "p * ?ps \<le> unat (virt_size ob)" using fits assms(2) by simp
      have "unat (d + c) = p * ?ps + unat c" using top c(2) by (simp add: unat_word_ariths d)
      moreover have "unat (virt_size ob - d) = unat (virt_size ob) - p * ?ps" using vs by (simp add: unat_sub word_le_nat_alt d)
      ultimately show ?thesis unfolding le_copy_bytes_def c_def [symmetric] Let_def using vs by (simp add: word_less_nat_alt)
    qed
    have nn: "?n \<le> unat (num_pages h)" using fits assms(2) by simp
    have top2: "unat (data_pages h) + (?n - 1) * ?ps + ?ps < 2 ^ 32"
    proof -
      have "(?n - 1) * ?ps + ?ps = ?n * ?ps" using False by (cases ?n) simp_all
      moreover have "?n * ?ps \<le> unat (num_pages h) * ?ps" using nn by (rule mult_le_mono1)
      moreover have "unat (data_pages h) + unat (num_pages h) * ?ps < 2 ^ 32" using fits by simp
      ultimately show ?thesis by linarith
    qed
    define off where "off = data_pages h + (w - 1) * page_size h"
    have w1: "unat (w - 1) = ?n - 1" using w0 n by (simp add: unat_minus_one)
    have off: "unat off = unat (data_pages h) + (?n - 1) * ?ps" unfolding off_def using top2 by (simp add: unat_word_ariths w1)
    have "le_page E f le_off h ob p m = le_copy_page E f off (host_base ob + d) (le_copy_bytes h ob w d) m"
      using ok w0 unfolding le_page_def Let_def idx_def [symmetric] pt [OF ok(1)] w_def [symmetric] d_def [symmetric] off_def [symmetric] by auto
    also have "... = store_bytes E (host_base ob + d) (take (unat (le_copy_bytes h ob w d)) (drop (unat off) f)) m"
      by (rule le_copy_page_bytes) (use off top2 copy c(2) in simp)
    also have "take (unat (le_copy_bytes h ob w d)) (drop (unat off) f) = take (unat (virt_size ob) - p * ?ps) (le_page_data f le_off h ob p)"
      using False by (simp add: le_page_data_def Let_def copy off c(1) min.commute)
    finally show ?thesis by (simp add: dn)
  qed
qed

context emu88_engine
begin

lemma le_page_stored:
  assumes "le_fits f le_off h ob" and "p < unat (page_count ob)" and "ob_ram E ob m0"
    and "stored E (host_base ob) (le_image_upto f le_off h ob p) m0 m"
  shows "stored E (host_base ob) (le_image_upto f le_off h ob (Suc p)) m0 (le_page E f le_off h ob p m)"
proof -
  let ?d = "p * unat (page_size h)" and ?len = "length (le_image_upto f le_off h ob p)"
  define bs where "bs = take (unat (virt_size ob) - ?d) (le_page_data f le_off h ob p)"
  have len: "?len = unat (virt_size ob)" by (simp add: le_image_upto_def)
  have d: "?d \<le> unat (virt_size ob)" using assms(1,2) by (simp add: le_fits_def)
  then have bs: "?d + length bs \<le> unat (virt_size ob)" by (simp add: bs_def)
  have top: "unat (host_base ob) + unat (virt_size ob) \<le> 2 ^ 32" using assms(3) by (simp add: ob_ram_def)
  have "stored E (host_base ob + of_nat ?d) bs m (store_bytes E (host_base ob + of_nat ?d) bs m)"
  proof (cases "bs = []")
    case True
    then show ?thesis by (simp add: store_bytes_def)
  next
    case False
    then have base: "unat (host_base ob + of_nat ?d) = unat (host_base ob) + ?d"
      using bs top by (intro unat_plus_of_nat) (auto simp: neq_Nil_conv)
    have "is_ram E m (host_base ob + of_nat ?d + of_nat i)" if "i < length bs" for i
    proof -
      have "unat (host_base ob + of_nat (?d + i)) = unat (host_base ob) + (?d + i)" using bs top that by (intro unat_plus_of_nat) simp
      then have "host_base ob + of_nat (?d + i) \<in> ob_area ob" using bs that by (simp add: ob_area_def)
      then show ?thesis using assms(3,4) by (simp add: ob_ram_def stored_def add.assoc)
    qed
    then show ?thesis using bs top by (intro store_bytes_stored) (simp_all add: base del: of_nat_mult)
  qed
  from stored_overlay [OF assms(4) this] bs top
  show ?thesis unfolding le_page_stores [OF assms(1,2)] bs_def [symmetric]
    using le_image_step [OF assms(1), of p, folded bs_def] by (simp add: len)
qed

lemma le_fill_stored:
  assumes "le_fits f le_off h ob" and "ob_ram E ob m"
  shows "stored E (host_base ob) (le_image f le_off h ob) m (le_fill E f le_off h ob m)"
proof -
  let ?zero = "fold (\<lambda>j. mem_writeb E (host_base ob + of_nat j) 0) [0 ..< unat (virt_size ob)] m"
  have top: "unat (host_base ob) + unat (virt_size ob) \<le> 2 ^ 32" using assms(2) by (simp add: ob_ram_def)
  have ram: "is_ram E m (host_base ob + of_nat i)" if "i < unat (virt_size ob)" for i
  proof -
    have "unat (host_base ob + of_nat i) = unat (host_base ob) + i" using top that by (intro unat_plus_of_nat) simp
    then show ?thesis using assms(2) that by (simp add: ob_ram_def ob_area_def)
  qed
  have z: "stored E (host_base ob) (le_image_upto f le_off h ob 0) m ?zero"
  proof -
    have "le_image_upto f le_off h ob 0 = replicate (unat (virt_size ob)) 0" by (simp add: le_image_upto_def map_replicate_const)
    then show ?thesis using write_bytes [OF ram top, where g = "\<lambda>_. 0"] by (auto simp: stored_def)
  qed
  have "k \<le> unat (page_count ob) \<Longrightarrow> stored E (host_base ob) (le_image_upto f le_off h ob k) m (fold (le_page E f le_off h ob) [0 ..< k] ?zero)" for k
  proof (induction k)
    case (Suc k)
    then show ?case using le_page_stored [OF assms(1) _ assms(2)] by simp
  qed (use z in simp)
  then show ?thesis by (simp add: le_fill_def Let_def)
qed

end

text \<open>The bound the loader puts on a copy (\<open>d\<close> the offset in the object, \<open>c\<close> the length of the page) holds exactly when the page
  does not begin past the end of the object and the 32-bit sum does not wrap to a value inside it.\<close>

lemma le_copy_bytes_inside:
  fixes pnum d :: u32 and h :: le_header and ob :: le_object
  defines "c \<equiv> (if pnum = num_pages h \<and> last_page_sz h \<noteq> 0 then last_page_sz h else page_size h)"
  shows "unat d + unat (le_copy_bytes h ob pnum d) \<le> unat (virt_size ob)
    \<longleftrightarrow> d \<le> virt_size ob \<and> (unat d + unat c < 2 ^ 32 \<or> virt_size ob < d + c)"
proof (cases "d \<le> virt_size ob")
  case True
  then have sub: "unat d + unat (virt_size ob - d) = unat (virt_size ob)" by (simp add: unat_sub word_le_nat_alt)
  have "unat (d + c) = unat d + unat c" if "unat d + unat c < 2 ^ 32" using that by (simp add: unat_word_ariths)
  moreover have "unat (virt_size ob) < 2 ^ 32" using unsigned_less [of "virt_size ob"] by simp
  ultimately show ?thesis using True sub
    unfolding le_copy_bytes_def c_def [symmetric] Let_def by (auto simp: word_less_nat_alt)
next
  case False
  then show ?thesis by (auto simp: word_le_nat_alt)
qed

text \<open>C38: the image of a linear-executable object. Loading an object whose page table is well-formed leaves exactly its image in the object's memory:
  every legal page of the file at its offset, the last page of the file with its shorter length, cut at the end of
  the object, and zeros everywhere else (pages without data, the tail of a short page, the part behind the pages). Nothing outside the object's memory changes.\<close>

theorem le_fill_image:
  assumes "emu88_engine E" and "le_fits f le_off h ob" and "ob_ram E ob m"
  shows "stored E (host_base ob) (le_image f le_off h ob) m (le_fill E f le_off h ob m)"
  by (rule emu88_engine.le_fill_stored [OF assms])

text \<open>An object of 24 bytes made of two pages of 16, the second with four bytes in the file.\<close>

definition le_sample :: "u8 list" where
  "le_sample = [0, 0, 1, 0, 0, 0, 2, 0] @ replicate 8 1 @ replicate 16 7 @ replicate 4 9"

definition le_sample_header :: le_header where
  "le_sample_header = \<lparr>num_pages = 2, entry_obj = 1, entry_eip = 0, stack_obj = 1, stack_esp = 0, page_size = 16,
    last_page_sz = 4, obj_tbl_off = 0, num_objects = 1, page_tbl_off = 0, fixup_page_tbl = 0, fixup_rec_tbl = 0, data_pages = 16\<rparr>"

definition le_sample_object :: le_object where
  "le_sample_object = \<lparr>virt_base = 0, virt_size = 24, le_flags = 0, first_page = 1, page_count = 2, host_base = 0x20000,
    host_seg = 0x2000, ldt_sel = 0, is_code = False, is_big = False\<rparr>"

theorem le_fill_image_witness:
  "stored flat 0x20000 (replicate 16 7 @ replicate 4 9 @ replicate 4 0) (\<lambda>_. 1) (le_fill flat le_sample 0 le_sample_header le_sample_object (\<lambda>_. 1))"
proof -
  have num: "le_page_number le_sample 0 le_sample_header le_sample_object 0 = 1" "le_page_number le_sample 0 le_sample_header le_sample_object 1 = 2"
    by (simp_all add: le_page_number_def le_sample_def le_sample_header_def le_sample_object_def)
  then have data: "le_page_data le_sample 0 le_sample_header le_sample_object 0 = replicate 16 7"
      "le_page_data le_sample 0 le_sample_header le_sample_object 1 = replicate 4 9"
    by (simp_all add: le_page_data_def le_page_length_def Let_def) (simp_all add: le_sample_def le_sample_header_def)
  have "le_image le_sample 0 le_sample_header le_sample_object ! i = (replicate 16 7 @ replicate 4 9 @ replicate 4 0) ! i" if "i < 24" for i
  proof (cases "i < 16")
    case True
    then show ?thesis using that data
      by (simp add: le_image_upto_def Let_def nth_append) (simp add: le_sample_object_def le_sample_header_def)
  next
    case False
    then have "i div 16 = 1" "i mod 16 = i - 16" using that by (simp_all add: div_nat_eqI mod_if)
    then show ?thesis using False that data
      by (simp add: le_image_upto_def Let_def nth_append) (simp add: le_sample_object_def le_sample_header_def)
  qed
  then have img: "le_image le_sample 0 le_sample_header le_sample_object = replicate 16 7 @ replicate 4 9 @ replicate 4 0"
    by (intro nth_equalityI) (simp_all add: le_sample_object_def)
  have "le_page_number le_sample 0 le_sample_header le_sample_object p \<le> 2 \<and> p * 16 \<le> 24" if "p < 2" for p
    using num that by (cases "p = 0") (auto simp: less_2_cases_iff)
  then have "le_fits le_sample 0 le_sample_header le_sample_object"
    unfolding le_fits_def by (simp add: le_sample_header_def le_sample_object_def)
  moreover have "ob_ram flat le_sample_object (\<lambda>_. 1 :: u8)" by (simp add: ob_ram_def le_sample_object_def)
  ultimately show ?thesis
    using le_fill_image [OF flat_ram.emu88_engine_axioms, of le_sample 0 le_sample_header le_sample_object "\<lambda>_. 1"] img by (simp add: le_sample_object_def)
qed

section \<open>The program segment prefix\<close>

definition env_area :: "u32 set" where "env_area = {b. 0x500 \<le> unat b \<and> unat b < 0xD00}"

text \<open>A program's first 256 bytes as DOS documents them: INT 20h, top of memory, the job file table with its five
  standard handles and the pointer to it, the environment segment, and the command tail.\<close>

definition psp_head :: "u8 list" where
  "psp_head = [0xCD, 0x20, 0x00, 0xA0] @ replicate 20 0 @ [0, 1, 2, 3, 4] @ replicate 15 0xFF @ [0x50, 0x00]
     @ replicate 4 0 @ [20, 0, 0x18, 0x00, 0x00, 0x01]"

definition psp_image :: "string list \<Rightarrow> u8 list" where
  "psp_image as = (let tail = command_tail as in psp_head @ replicate 72 0 @ [of_nat (length tail)] @ map byte_of tail @ [0x0D] @ replicate (126 - length tail) 0)"

text \<open>The PSP holds \<open>img\<close> and everything outside it and the environment is as before.\<close>

definition psp_holds :: "'m emu88 \<Rightarrow> u8 list \<Rightarrow> 'm \<Rightarrow> 'm \<Rightarrow> bool" where
  "psp_holds E img m m' \<longleftrightarrow> length img = 256 \<and> (\<forall>b. is_ram E m' b = is_ram E m b) \<and> (\<forall>b. is_ram E m b \<longrightarrow> b \<notin> env_area \<longrightarrow>
     mem_readb E m' b = (if 0x1000 \<le> unat b \<and> unat b < 0x1100 then img ! (unat b - 0x1000) else mem_readb E m b))"

definition put_img :: "nat \<times> u8 \<Rightarrow> u8 list \<Rightarrow> u8 list" where
  "put_img = (\<lambda>(i, v) img. img[i := v])"

definition psp_ram :: "'m emu88 \<Rightarrow> 'm \<Rightarrow> bool" where
  "psp_ram E m \<longleftrightarrow> (\<forall>b. 0x500 \<le> unat b \<longrightarrow> unat b < 0x1100 \<longrightarrow> is_ram E m b)"

lemma command_tail_length: "length (command_tail as) \<le> 126"
  by (simp add: command_tail_def)

lemma length_put_img [simp]: "length (fold put_img ps img) = length img"
  by (induction ps arbitrary: img) (simp_all add: put_img_def split: prod.splits)

lemma fold_put_img_zero: "fold put_img (map (\<lambda>i. (i, 0)) [0..<n]) (img :: u8 list) = replicate (min n (length img)) 0 @ drop n img"
proof (induction n)
  case (Suc n)
  then show ?case
    by (cases "n < length img") (simp_all add: put_img_def list_update_append replicate_append_same min_def
        Cons_nth_drop_Suc [symmetric] list_update_beyond flip: replicate_Suc)
qed simp

lemma fold_put_img_block: "length xs = k \<Longrightarrow>
  fold put_img (map (\<lambda>i. (k + i, f i)) [0..<n]) (xs @ ys) = xs @ map f [0..<min n (length ys)] @ drop n ys"
proof (induction n)
  case (Suc n)
  then show ?case
    by (cases "n < length ys") (simp_all add: put_img_def list_update_append min_def Cons_nth_drop_Suc [symmetric] list_update_beyond)
qed simp

lemma psp_fixed_image:
  "fold put_img ([(0x2C, lo8 ENV_SEG), (0x2D, hi8 ENV_SEG)]) (fold put_img psp_fixed (replicate 256 0)) =
    psp_head @ replicate 200 0"
  by code_simp

lemma psp_tail_image:
  "fold put_img ((0x80, of_nat (length (command_tail as)))
      # map (\<lambda>i. (0x81 + i, byte_of (command_tail as ! i))) [0..<length (command_tail as)]
      @ [(0x81 + length (command_tail as), 0x0D)]) (psp_head @ replicate 200 0) = psp_image as"
proof -
  let ?t = "command_tail as"
  define n where "n = length ?t"
  let ?h = "psp_head @ replicate 72 0 @ [of_nat n]"
  have n: "n \<le> 126" unfolding n_def by (rule command_tail_length)
  have len: "length psp_head = 56" by (simp add: psp_head_def)
  have m: "map (\<lambda>i. byte_of (?t ! i)) [0..<n] = map byte_of ?t" by (rule nth_equalityI) (simp_all add: n_def)
  have "replicate 200 (0 :: u8) = replicate 72 0 @ 0 # replicate 127 0"
    by (simp flip: replicate_Suc replicate_add)
  then have s1: "put_img (0x80, of_nat n) (psp_head @ replicate 200 0) = ?h @ replicate 127 0"
    by (simp add: put_img_def list_update_append len)
  have s2: "fold put_img (map (\<lambda>i. (0x81 + i, byte_of (?t ! i))) [0..<n]) (?h @ replicate 127 0)
      = ?h @ map byte_of ?t @ replicate (127 - n) 0"
    using fold_put_img_block [where xs = ?h and k = "0x81" and f = "\<lambda>i. byte_of (?t ! i)" and n = n and ys = "replicate 127 0"] n
    by (simp add: len min_def m del: upt_rec_numeral)
  have "127 - n = Suc (126 - n)" using n by simp
  then have s3: "put_img (0x81 + n, 0x0D) (?h @ map byte_of ?t @ replicate (127 - n) 0)
      = ?h @ map byte_of ?t @ 0x0D # replicate (126 - n) 0"
    by (simp add: put_img_def list_update_append len n_def)
  show ?thesis
    by (simp add: s1 [unfolded append_assoc append_Cons append_Nil] s2 [unfolded append_assoc append_Cons append_Nil]
        s3 [unfolded append_assoc append_Cons append_Nil] psp_image_def Let_def flip: n_def)
qed

context emu88_engine
begin

lemma env_addr: "off < ENV_BYTES \<Longrightarrow> unat (ucast ENV_SEG * 16 + of_nat off :: u32) = 0x500 + off"
  using unat_plus_of_nat [of "0x500" off] by (simp add: ENV_SEG_def ENV_BYTES_def)

lemma env_write:
  assumes "psp_ram E m" and "off < ENV_BYTES"
  shows "same_outside E env_area m (mem_writeb E (ucast ENV_SEG * 16 + of_nat off) v m)"
  using assms env_addr [OF assms(2)]
  by (intro same_outside_writeb) (simp_all add: psp_ram_def env_area_def ENV_BYTES_def)

lemma psp_ram_same: "\<lbrakk>psp_ram E m; same_outside E S m m'\<rbrakk> \<Longrightarrow> psp_ram E m'"
  by (simp add: psp_ram_def same_outside_def)

lemma env_chars_same:
  assumes "psp_ram E m" and "cs = [] \<Longrightarrow> off < ENV_BYTES" and "env_chars E cs off m = (r, m')"
  shows "same_outside E env_area m m' \<and> (\<forall>off'. r = Some off' \<longrightarrow> off' \<le> ENV_BYTES)"
  using assms
proof (induction cs arbitrary: off m)
  case (Cons c cs)
  show ?case
  proof (cases "off \<ge> ENV_BYTES - 1")
    case False
    then have off: "off < ENV_BYTES" "off + 1 < ENV_BYTES" by simp_all
    let ?m = "mem_writeb E (ucast ENV_SEG * 16 + of_nat off) (byte_of c) m"
    have w: "same_outside E env_area m ?m" by (rule env_write [OF Cons.prems(1) off(1)])
    with Cons.IH [OF psp_ram_same [OF Cons.prems(1) w], of "off + 1"] False off Cons.prems(3)
    show ?thesis by (auto intro: same_outside_trans)
  qed (use Cons.prems in simp)
qed (auto simp: env_write)

lemma env_strings_same:
  assumes "psp_ram E m" and "[] \<notin> set es" and "env_strings E es off m = (r, m')"
  shows "same_outside E env_area m m'"
  using assms
proof (induction es arbitrary: off m)
  case (Cons e es)
  obtain r1 m1 where m1: "env_chars E e off m = (r1, m1)" by (cases "env_chars E e off m")
  have s1: "same_outside E env_area m m1" using env_chars_same [OF Cons.prems(1) _ m1] Cons.prems(2) by auto
  then show ?case
    using Cons.IH [OF psp_ram_same [OF Cons.prems(1) s1]] Cons.prems(2,3) m1
    by (auto split: option.splits intro: same_outside_trans [OF s1])
qed simp

lemma build_env_block_same:
  assumes "psp_ram E m" and "build_env_block E env path m = (r, m')"
  shows "same_outside E env_area m m'"
proof -
  obtain r1 m1 where m1: "env_strings E (env_entries env) 0 m = (r1, m1)" by (cases "env_strings E (env_entries env) 0 m")
  have "[] \<notin> set (env_entries env)" by (auto simp: env_entries_def env_keys_def Let_def split: option.splits if_splits)
  with env_strings_same [OF assms(1) _ m1] have s1: "same_outside E env_area m m1" by simp
  note l1 = psp_ram_same [OF assms(1) s1]
  have w: "same_outside E env_area m (mem_writeb E (ucast ENV_SEG * 16 + of_nat off) v n)"
    if "same_outside E env_area m n" "off < ENV_BYTES" for off v n
    by (rule same_outside_trans [OF that(1) env_write [OF psp_ram_same [OF assms(1) that(1)] that(2)]])
  have a: "same_outside E env_area m n'" if "same_outside E env_area m n" "env_chars E (dos_argv0 path) off n = (q, n')" for off n n' q
    using env_chars_same [OF psp_ram_same [OF assms(1) that(1)] _ that(2)] that(1)
    by (auto simp: dos_argv0_def intro: same_outside_trans)
  have three: "same_outside E env_area m (mem_writeb E (ucast ENV_SEG * 16 + (2 + of_nat off)) 0
      (mem_writeb E (ucast ENV_SEG * 16 + (1 + of_nat off)) 1 (mem_writeb E (ucast ENV_SEG * 16 + of_nat off) 0 m1)))"
    if "\<not> ENV_BYTES < Suc (Suc (Suc off))" for off
    using w [OF w [OF w [OF s1, of off 0], of "off + 1" 1], of "off + 2" 0] that by simp
  show ?thesis
    using assms(2) s1 unfolding build_env_block_def m1
    by (auto simp: Let_def split: option.splits if_splits prod.splits intro: w s1)
      (auto elim!: a [rotated] intro: three)
qed

lemma psp_put:
  assumes "psp_ram E m0" and "psp_holds E img m0 m" and "i < 256"
  shows "psp_holds E (put_img (i, v) img) m0 (put_at E (ucast PSP_SEG * 16) (i, v) m)"
proof -
  have a: "unat (ucast PSP_SEG * 16 + of_nat i :: u32) = 0x1000 + i"
    using unat_plus_of_nat [of "0x1000" i] assms(3) by (simp add: PSP_SEG_def)
  moreover have "is_ram E m (ucast PSP_SEG * 16 + of_nat i)"
    using assms a unfolding psp_holds_def psp_ram_def by simp
  ultimately show ?thesis
    using assms(2,3)
    by (auto simp: psp_holds_def put_at_def put_img_def mem_simps word_unat_eq_iff nth_list_update)
qed

lemma psp_puts:
  assumes "psp_ram E m0" and "psp_holds E img m0 m" and "\<forall>p\<in>set ps. fst p < 256"
  shows "psp_holds E (fold put_img ps img) m0 (fold (put_at E (ucast PSP_SEG * 16)) ps m)"
  using assms(2,3)
proof (induction ps arbitrary: img m)
  case (Cons p ps)
  then show ?case using psp_put [OF assms(1) Cons.prems(1), of "fst p" "snd p"] by simp
qed simp

lemma psp_env:
  assumes "psp_holds E img m0 m" and "same_outside E env_area m m'"
  shows "psp_holds E img m0 m'"
  using assms by (auto simp: psp_holds_def same_outside_def)

end

text \<open>C37: a new program finds at its PSP exactly the 256 bytes DOS documents, for every argument list (the tail is
  cut to 126 bytes, so the final carriage return still fits), and building it, the environment block included,
  changes no byte of RAM outside the PSP and the 2 KiB environment block.\<close>

theorem build_psp_image:
  assumes "emu88_engine E" and "psp_ram E m" and "is_ram E m b" and "b \<notin> env_area"
  shows "mem_readb E (build_psp E env path as m) b =
    (if 0x1000 \<le> unat b \<and> unat b < 0x1100 then psp_image as ! (unat b - 0x1000) else mem_readb E m b)"
proof -
  let ?P = "put_at E (ucast PSP_SEG * 16)" and ?t = "command_tail as"
  note puts = emu88_engine.psp_puts [OF assms(1,2)]
  define old where "old = map (\<lambda>i. mem_readb E m (0x1000 + of_nat i)) [0..<256]"
  have u: "0x1000 + of_nat (unat c - 0x1000) = (c :: u32)" if "0x1000 \<le> unat c" for c
    using that by (simp add: of_nat_diff)
  have "psp_holds E old m m"
    using u by (auto simp: psp_holds_def old_def simp del: upt_rec_numeral)
  from puts [OF this, of "map (\<lambda>i. (i, 0)) [0..<256]"]
  have "psp_holds E (replicate 256 0) m (fold ?P (map (\<lambda>i. (i, 0)) [0..<256]) m)"
    by (simp add: fold_put_img_zero old_def del: upt_rec_numeral)
  from puts [OF this, of psp_fixed]
  have "psp_holds E (fold put_img psp_fixed (replicate 256 0)) m (fold ?P psp_fixed (fold ?P (map (\<lambda>i. (i, 0)) [0..<256]) m))"
    by (auto simp: psp_fixed_def simp del: upt_rec_numeral)
  moreover have "fold ?P (map (\<lambda>i. (i, 0)) [0..<256]) m = fold (\<lambda>i. ?P (i, 0)) [0..<256] m"
    by (simp add: fold_map comp_def del: upt_rec_numeral)
  ultimately obtain m1 where m1: "m1 = fold ?P psp_fixed (fold (\<lambda>i. ?P (i, 0)) [0..<256] m)"
      "psp_holds E (fold put_img psp_fixed (replicate 256 0)) m m1" by metis
  obtain r m2 where m2: "build_env_block E env path m1 = (r, m2)" by (cases "build_env_block E env path m1")
  have "psp_ram E m1" using assms(2) m1(2) by (simp add: psp_ram_def psp_holds_def)
  from emu88_engine.build_env_block_same [OF assms(1) this m2] have "same_outside E env_area m1 m2" .
  from puts [OF emu88_engine.psp_env [OF assms(1) m1(2) this], of "[(0x2C, lo8 ENV_SEG), (0x2D, hi8 ENV_SEG)]"]
  have m3: "psp_holds E (psp_head @ replicate 200 0) m (fold ?P [(0x2C, lo8 ENV_SEG), (0x2D, hi8 ENV_SEG)] m2)"
    unfolding psp_fixed_image by simp
  have len: "length psp_head = 56" by (simp add: psp_head_def)
  have t: "length ?t \<le> 126" by (rule command_tail_length)
  let ?ps = "(0x80, of_nat (length ?t)) # map (\<lambda>i. (0x81 + i, byte_of (?t ! i))) [0..<length ?t] @ [(0x81 + length ?t, 0x0D)]"
  have m4: "psp_holds E (fold put_img ?ps (psp_head @ replicate 200 0)) m
      (fold ?P ?ps (fold ?P [(0x2C, lo8 ENV_SEG), (0x2D, hi8 ENV_SEG)] m2))"
    by (rule puts [OF m3]) (use t in auto)
  have img: "fold put_img ?ps (psp_head @ replicate 200 0) = psp_image as" by (rule psp_tail_image)
  have "fold ?P ?ps (fold ?P [(0x2C, lo8 ENV_SEG), (0x2D, hi8 ENV_SEG)] m2) = build_psp E env path as m"
    using m2 by (simp add: build_psp_def Let_def m1(1) fold_map comp_def del: upt_rec_numeral)
  with m4 assms(3,4) show ?thesis unfolding img by (simp add: psp_holds_def)
qed

lemma build_psp_image_witness:
  "mem_readb flat (build_psp flat (\<lambda>_. None) ''P.EXE'' [''A''] (\<lambda>_. 0)) 0x1082 = 0x41"
proof -
  have "psp_image [''A''] ! 0x82 = 0x41" by code_simp
  then show ?thesis
    using build_psp_image [OF flat_ram.emu88_engine_axioms, of "\<lambda>_. 0" "0x1082" "\<lambda>_. None" "''P.EXE''" "[''A'']"]
    by (simp add: psp_ram_def env_area_def)
qed

end
