(* ===== verification/PmEntry.thy ===== *)
theory PmEntry
  imports Dpmi Callbacks Loader
begin

text \<open>
  Entry into protected mode: the kernel tables above 1 MB (\<open>pm_setup_gdt_and_idt\<close>), the far-call entry point of the
  DPMI host (\<open>dosiz_dpmi_entry\<close>) and the preparation of a linear-executable program (\<open>le_launch_pm_prep\<close>). The
  offsets of the host's callbacks, which the start-up code stores once, are fields of the state.
\<close>

section \<open>State and layout\<close>

record 'm dpmi_host = "'m dpmi" +
  s_current_psp_seg :: u16
  s_current_env_seg :: u16
  s_int21_cb_off :: u16
  s_int21_cb32_off :: u16
  s_int31_cb_off :: u16
  s_int31_cb32_off :: u16
  s_le_exc_cb16_off :: u16
  s_le_exc_cb32_off :: u16
  s_int80_cb32_off :: u16
  s_int1a_cb32_off :: u16
  s_int60_cb32_off :: u16
  s_pm_exc_ret_off :: u16

definition PM_SHIM_BASE :: u32 where "PM_SHIM_BASE = 0x106000"
definition PM_CB_STACK_BASE :: u32 where "PM_CB_STACK_BASE = 0x108000"
definition TSS_BASE :: u32 where "TSS_BASE = 0x109000"
definition PM_EXC_STACK_BASE :: u32 where "PM_EXC_STACK_BASE = 0x10A000"
definition PM_CS_SEL :: u16 where "PM_CS_SEL = 0x08"
definition PM_DS_SEL :: u16 where "PM_DS_SEL = 0x10"
definition PM_SS_SEL :: u16 where "PM_SS_SEL = 0x18"
definition PM_ES_SEL :: u16 where "PM_ES_SEL = 0x20"
definition PM_LDT_SEL :: u16 where "PM_LDT_SEL = 0x30"
definition PM_SHIM_SEL :: u16 where "PM_SHIM_SEL = 0x38"
definition PM_CB_STACK :: u16 where "PM_CB_STACK = 0x40"
definition PM_CB_STACK_SIZE :: u32 where "PM_CB_STACK_SIZE = 0x1000"
definition PM_TSS_SEL :: u16 where "PM_TSS_SEL = 0x48"
definition PM_CB3_SEL :: u16 where "PM_CB3_SEL = 0x73"
definition PM_EXC_STACK_SEL :: u16 where "PM_EXC_STACK_SEL = 0x7B"
definition TSS_SIZE :: u32 where "TSS_SIZE = 104"
definition PM_SHIM_SLOT_BYTES :: nat where "PM_SHIM_SLOT_BYTES = 16"
definition PM_SHIM_TOTAL :: u32 where "PM_SHIM_TOTAL = 256 * of_nat PM_SHIM_SLOT_BYTES"
definition IDT_LIMIT :: u16 where "IDT_LIMIT = 0x7FF"
definition LDT_BYTES :: nat where "LDT_BYTES = 2048"

section \<open>The kernel tables\<close>

definition para :: "u16 \<Rightarrow> u32" where "para sg = ucast sg * 16"

definition setup_gdt :: "'m emu88 \<Rightarrow> bool \<Rightarrow> u16 \<Rightarrow> u16 \<Rightarrow> u16 \<Rightarrow> u16 \<Rightarrow> 'm \<Rightarrow> 'm" where
  "setup_gdt E bits32 ccs cds css ces m = (let
     m = write_gdt_descriptor E 0 0 0 0 False m;
     m = write_gdt_descriptor E 1 (para ccs) 0xFFFF 0x9A bits32 m;
     m = write_gdt_descriptor E 2 (para cds) 0xFFFF 0x92 False m;
     m = write_gdt_descriptor E 3 (para css) 0xFFFF 0x92 False m;
     m = write_gdt_descriptor E 4 (para ces) 0xFFFF 0x92 False m;
     m = write_gdt_descriptor E 5 0xF0000 0xFFFF 0x9A False m;
     m = write_gdt_descriptor E 6 LDT_BASE (of_nat LDT_BYTES - 1) 0x82 False m;
     m = write_gdt_descriptor E 7 PM_SHIM_BASE (PM_SHIM_TOTAL - 1) 0x9A False m;
     m = write_gdt_descriptor E 8 PM_CB_STACK_BASE (PM_CB_STACK_SIZE - 1) 0x92 True m;
     m = write_gdt_descriptor E 9 TSS_BASE (TSS_SIZE - 1) 0x89 False m;
     m = write_gdt_descriptor E 10 (para ccs) 0xFFFF 0xFA bits32 m;
     m = write_gdt_descriptor E 11 (para cds) 0xFFFF 0xF2 False m;
     m = write_gdt_descriptor E 12 (para css) 0xFFFF 0xF2 False m;
     m = write_gdt_descriptor E 13 (para ces) 0xFFFF 0xF2 False m;
     m = write_gdt_descriptor E 14 0xF0000 0xFFFF 0xFA False m
   in write_gdt_descriptor E 15 PM_EXC_STACK_BASE (PM_CB_STACK_SIZE - 1) 0xF2 False m)"

definition setup_tss :: "'m emu88 \<Rightarrow> 'm \<Rightarrow> 'm" where
  "setup_tss E m = (let
     m = fold (\<lambda>i. mem_writeb E (TSS_BASE + of_nat i) 0) [0 ..< unat TSS_SIZE] m;
     m = mem_writed E (TSS_BASE + 4) PM_CB_STACK_SIZE m
   in mem_writew E (TSS_BASE + 8) PM_CB_STACK m)"

text \<open>The vectors whose exception pushes an error code, and the 32-bit shim of a vector: it drops the error code, calls
  the callback and returns with IRETD.\<close>

definition has_err :: "nat \<Rightarrow> bool" where
  "has_err v \<longleftrightarrow> v = 8 \<or> (v \<ge> 10 \<and> v \<le> 14) \<or> v = 17"

definition shim_bytes :: "nat \<Rightarrow> u8 \<Rightarrow> u8 \<Rightarrow> u8 list" where
  "shim_bytes v cb_lo cb_hi = (let
     code = (if has_err v then [0x66, 0x83, 0xC4, 0x04] else []) @ [0xFE, 0x38, cb_lo, cb_hi, 0x66, 0xCF]
   in code @ replicate (PM_SHIM_SLOT_BYTES - length code) 0x90)"

text \<open>Where the native opcode lies in a real-mode stub.\<close>

definition scan_native :: "'m emu88 \<Rightarrow> u32 \<Rightarrow> 'm \<Rightarrow> nat option" where
  "scan_native E stub m = find (\<lambda>i. mem_readb E m (stub + of_nat i) = 0xFE \<and> mem_readb E m (stub + of_nat i + 1) = 0x38) [0 ..< 5]"

text \<open>The gate of vector \<open>v\<close>, for those that point into the callback segment.\<close>

definition reflect_vector :: "'m emu88 \<Rightarrow> bool \<Rightarrow> nat \<Rightarrow> 'm \<Rightarrow> 'm" where
  "reflect_vector E bits32 v m = (if v = 0x21 \<or> v = 0x31 then m else let
     ivt = mem_readd E m (of_nat v * 4);
     sg = hi16 ivt;
     off = lo16 ivt
   in if sg \<noteq> CB_SEG then m
      else if \<not> bits32 then write_idt_gate E (of_nat v) PM_CB_SEL (ucast off) False m
      else let stub = para sg + ucast off in case scan_native E stub m of
          None \<Rightarrow> m
        | Some scan \<Rightarrow> let
            cb_lo = mem_readb E m (stub + of_nat scan + 2);
            cb_hi = mem_readb E m (stub + of_nat scan + 3);
            slot_off = of_nat (v * PM_SHIM_SLOT_BYTES);
            m = store_bytes E (PM_SHIM_BASE + slot_off) (shim_bytes v cb_lo cb_hi) m
          in write_idt_gate E (of_nat v) PM_SHIM_SEL slot_off True m)"

text \<open>A gate whose callback is installed.\<close>

definition gate_if :: "'m emu88 \<Rightarrow> u16 \<Rightarrow> u16 \<Rightarrow> u16 \<Rightarrow> bool \<Rightarrow> 'm \<Rightarrow> 'm" where
  "gate_if E v sel off bits32 m = (if off \<noteq> 0 then write_idt_gate E v sel (ucast off) bits32 m else m)"

definition pm_setup_gdt_and_idt ::
  "'m emu88 \<Rightarrow> ('m, 'c) emu_cpu \<Rightarrow> bool \<Rightarrow> u16 \<Rightarrow> u16 \<Rightarrow> u16 \<Rightarrow> u16 \<Rightarrow> ('m, 'z) dpmi_host_scheme \<Rightarrow> ('m, 'z) dpmi_host_scheme" where
  "pm_setup_gdt_and_idt E C bits32 ccs cds css ces s = (let
     m = MEM_A20_Enable E True (mem s);
     m = setup_gdt E bits32 ccs cds css ces m;
     m = setup_tss E m;
     m = CPU_LGDT C GDT_LIMIT GDT_BASE m;
     m = fold (\<lambda>i. write_idt_gate E (of_nat i) 0 0 bits32) [0 ..< 256] m;
     m = fold (reflect_vector E bits32) [0 ..< 256] m;
     m = gate_if E 0x21 PM_CB_SEL (if bits32 then s_int21_cb32_off s else s_int21_cb_off s) bits32 m;
     m = gate_if E 0x31 PM_CB_SEL (if bits32 then s_int31_cb32_off s else s_int31_cb_off s) bits32 m;
     m = gate_if E 0x80 PM_CB_SEL (s_int80_cb32_off s) True m;
     m = gate_if E 0x1A PM_CB_SEL (s_int1a_cb32_off s) True m;
     m = gate_if E 0x60 PM_SHIM_SEL (s_int60_cb32_off s) True m
   in s\<lparr>mem := CPU_LIDT C IDT_LIMIT IDT_BASE m\<rparr>)"

section \<open>The DPMI entry point\<close>

definition zero_ldt :: "'m emu88 \<Rightarrow> 'm \<Rightarrow> 'm" where
  "zero_ldt E m = fold (\<lambda>i. mem_writeb E (LDT_BASE + of_nat i) 0) [0 ..< LDT_BYTES] m"

definition reset_ldt :: "'m emu88 \<Rightarrow> ('m, 'z) dpmi_scheme \<Rightarrow> ('m, 'z) dpmi_scheme" where
  "reset_ldt E s = s\<lparr>mem := zero_ldt E (mem s), s_ldt_in_use := (replicate 32 0)[0 := 1], s_seg2desc_cache := \<lambda>_. 0\<rparr>"

definition default_exceptions :: "'m emu88 \<Rightarrow> bool \<Rightarrow> ('m, 'z) dpmi_host_scheme \<Rightarrow> ('m, 'z) dpmi_host_scheme" where
  "default_exceptions E bits32 s = (let cb = (if bits32 then s_le_exc_cb32_off s else s_le_exc_cb16_off s)
   in if cb = 0 then s else wr (fold (\<lambda>v. write_idt_gate E (of_nat v) PM_CB_SEL (ucast cb) bits32) [0 ..< 0x10]) s)"

definition ldt_slot :: "'m emu88 \<Rightarrow> u16 \<Rightarrow> u32 \<Rightarrow> u8 \<Rightarrow> bool \<Rightarrow> ('m, 'z) dpmi_scheme \<Rightarrow> ('m, 'z) dpmi_scheme" where
  "ldt_slot E idx base access bits32 s = s\<lparr>mem := write_ldt_descriptor E idx base 0xFFFF access bits32 (mem s),
     s_ldt_in_use := ldt_set idx True (s_ldt_in_use s)\<rparr>"

text \<open>The starter set of a ring-3 client: code, data, stack, PSP and environment in slots 1 to 5.\<close>

definition cur_psp_seg :: "('m, 'z) dpmi_host_scheme \<Rightarrow> u16" where
  "cur_psp_seg s = (if s_current_psp_seg s \<noteq> 0 then s_current_psp_seg s else PSP_SEG)"

definition cur_env_seg :: "('m, 'z) dpmi_host_scheme \<Rightarrow> u16" where
  "cur_env_seg s = (if s_current_env_seg s \<noteq> 0 then s_current_env_seg s else ENV_SEG)"

definition starter_set :: "'m emu88 \<Rightarrow> u16 \<Rightarrow> u16 \<Rightarrow> u16 \<Rightarrow> ('m, 'z) dpmi_host_scheme \<Rightarrow> ('m, 'z) dpmi_host_scheme" where
  "starter_set E ccs cds css s = (let
     s = ldt_slot E 1 (para ccs) 0xFA False s;
     s = ldt_slot E 2 (para cds) 0xF2 True s;
     s = ldt_slot E 3 (para css) 0xF2 True s;
     s = ldt_slot E 4 (para (cur_psp_seg s)) 0xF2 False s;
     s = ldt_slot E 5 (para (cur_env_seg s)) 0xF2 False s
   in wr (mem_writew E (para (cur_psp_seg s) + 0x2C) 0x2F) s)"

text \<open>The frame of the IRETD into ring 3. \<open>client_sp\<close> is read from \<open>reg_sp\<close> after the switch to the host's scratch stack, as
  in the code.\<close>

definition stage_iretd :: "'m emu88 \<Rightarrow> u16 \<Rightarrow> ('m, 'z) machine_scheme \<Rightarrow> ('m, 'z) machine_scheme" where
  "stage_iretd E client_ip s = (let
     s = CPU_SetSegGeneral E SS PM_CB_STACK s;
     s = s\<lparr>reg_esp := PM_CB_STACK_SIZE - 32\<rparr>;
     s = CPU_SetSegGeneral E DS 0x17 s;
     s = CPU_SetSegGeneral E ES 0x27 s;
     fr = seg_phys s SS + reg_esp s;
     s = wr (mem_writed E (fr + 0) (ucast client_ip)) s;
     s = wr (mem_writed E (fr + 4) 0x0F) s;
     s = wr (mem_writed E (fr + 8) 0x3002) s;
     client_sp = ucast (reg_sp s);
     s = wr (mem_writed E (fr + 12) client_sp) s
   in wr (mem_writed E (fr + 16) 0x1F) s)"

definition enter_ring3 ::
  "'m emu88 \<Rightarrow> ('m, 'c) emu_cpu \<Rightarrow> u16 \<Rightarrow> ('m, 'z) dpmi_host_scheme \<Rightarrow> ('m, 'z) dpmi_host_scheme" where
  "enter_ring3 E C client_cs s = (let
     client_ip = mem_readw E (mem s) (para (seg_val s SS) + ucast (reg_sp s));
     (cds, css) = (seg_val s DS, seg_val s SS);
     s = CPU_SET_CRX C 0 1 s;
     s = wr (CPU_LLDT E C PM_LDT_SEL) s;
     s = wr (CPU_LTR E C PM_TSS_SEL) s;
     s = reset_ldt E (s\<lparr>s_client_cpl := 3\<rparr>);
     s = starter_set E client_cs cds css s;
     s = stage_iretd E client_ip s
   in set_ax 0 (CPU_IRET E C True s))"

definition enter_ring0 ::
  "'m emu88 \<Rightarrow> ('m, 'c) emu_cpu \<Rightarrow> ('m, 'z) dpmi_host_scheme \<Rightarrow> ('m, 'z) dpmi_host_scheme" where
  "enter_ring0 E C s = (let
     stacked_cs = para (seg_val s SS) + ucast (reg_sp s) + 2;
     s = wr (mem_writeb E stacked_cs (lo8 PM_CS_SEL)) s;
     s = wr (mem_writeb E (stacked_cs + 1) (hi8 PM_CS_SEL)) s;
     s = CPU_SET_CRX C 0 1 s;
     s = wr (CPU_LLDT E C PM_LDT_SEL) s;
     s = CPU_SetSegGeneral E DS PM_DS_SEL s;
     s = CPU_SetSegGeneral E SS PM_SS_SEL s;
     s = CPU_SetSegGeneral E ES PM_ES_SEL s
   in set_cf E False (set_ax 0 s))"

text \<open>The tables of a client, built in real mode.\<close>

definition entry_tables ::
  "'m emu88 \<Rightarrow> ('m, 'c) emu_cpu \<Rightarrow> bool \<Rightarrow> u16 \<Rightarrow> ('m, 'z) dpmi_host_scheme \<Rightarrow> ('m, 'z) dpmi_host_scheme" where
  "entry_tables E C bits32 client_cs s = default_exceptions E bits32 (reset_ldt E
     (pm_setup_gdt_and_idt E C bits32 client_cs (seg_val s DS) (seg_val s SS) (seg_val s ES) s))"

definition dosiz_dpmi_entry ::
  "'m emu88 \<Rightarrow> ('m, 'c) emu_cpu \<Rightarrow> debug_settings \<Rightarrow> ('m, 'z) dpmi_host_scheme \<Rightarrow> ('m, 'z) dpmi_host_scheme" where
  "dosiz_dpmi_entry E C dbg s = (let
     sp = para (seg_val s SS) + ucast (reg_sp s);
     client_cs = mk16 (mem_readb E (mem s) (sp + 2)) (mem_readb E (mem s) (sp + 3));
     bits32 = (reg_ax s = 1);
     s = entry_tables E C bits32 client_cs s
   in if bits32 \<and> \<not> dpmi_ring0 dbg then enter_ring3 E C client_cs s else enter_ring0 E C s)"

section \<open>Linear-executable programs\<close>

text \<open>\<open>out\<close> is \<open>IO_WriteB\<close>, which reaches the port routing of the machine.\<close>

definition le_launch_pm_prep ::
  "'m emu88 \<Rightarrow> ('m, 'c) emu_cpu \<Rightarrow> (u16 \<Rightarrow> u8 \<Rightarrow> ('m, 'z) dpmi_host_scheme \<Rightarrow> ('m, 'z) dpmi_host_scheme) \<Rightarrow> bool
     \<Rightarrow> ('m, 'z) dpmi_host_scheme \<Rightarrow> ('m, 'z) dpmi_host_scheme" where
  "le_launch_pm_prep E C out bits32 s = (let
     s = pm_setup_gdt_and_idt E C bits32 (seg_val s CS) (seg_val s DS) (seg_val s SS) (seg_val s ES) s;
     cb_off = (if bits32 then s_le_exc_cb32_off s else s_le_exc_cb16_off s);
     gate = (\<lambda>v m. if v = 0x1A then m else let per = (if bits32 then s_pm_exc_cb32_off s ! v else 0)
       in write_idt_gate E (of_nat v) PM_CB_SEL (ucast (if per \<noteq> 0 then per else cb_off)) bits32 m);
     s = (if cb_off \<noteq> 0 then wr (fold gate [0 ..< 0x20]) s else s)
   in out 0xA1 0xFF (out 0x21 0xFF s))"

section \<open>Stores below 1.1 MB\<close>

text \<open>The kernel tables lie between 1 MB and 110000h; all of the memory below is RAM once A20 is open.\<close>

definition kernel_ram :: "'m emu88 \<Rightarrow> 'm \<Rightarrow> bool" where
  "kernel_ram E m \<longleftrightarrow> (\<forall>b. unat b < 0x110000 \<longrightarrow> is_ram E m b)"

definition area :: "nat \<Rightarrow> nat \<Rightarrow> u32 set" where
  "area a n = {b. a \<le> unat b \<and> unat b < a + n}"

definition kernel_area :: "u32 set" where "kernel_area = area 0x100000 0x10000"

definition gate_bytes :: "u16 \<Rightarrow> u32 \<Rightarrow> bool \<Rightarrow> u8 list" where
  "gate_bytes sel off bits32 = [ucast (off AND 0xFF), ucast (drop_bit 8 off AND 0xFF), ucast (sel AND 0xFF), ucast (drop_bit 8 sel AND 0xFF),
     0, if bits32 then 0xEE else 0xE6, ucast (drop_bit 16 off AND 0xFF), ucast (drop_bit 24 off AND 0xFF)]"

definition desc_bytes :: "u32 \<Rightarrow> u32 \<Rightarrow> u8 \<Rightarrow> bool \<Rightarrow> u8 list" where
  "desc_bytes base limit access bits32 = [ucast (limit AND 0xFF), ucast (drop_bit 8 limit AND 0xFF), ucast (base AND 0xFF),
     ucast (drop_bit 8 base AND 0xFF), ucast (drop_bit 16 base AND 0xFF), access,
     ucast (drop_bit 16 limit AND 0x0F) OR (if bits32 then 0x40 else 0), ucast (drop_bit 24 base AND 0xFF)]"

lemma write_idt_gate_store: "write_idt_gate E idx sel off bits32 m = store_bytes E (slot IDT_BASE idx) (gate_bytes sel off bits32) m"
  by (simp add: write_idt_gate_def store_bytes_def gate_bytes_def Let_def)

lemma write_descriptor_store: "write_descriptor E p base limit access bits32 m = store_bytes E p (desc_bytes base limit access bits32) m"
  by (simp add: write_descriptor_def store_bytes_def desc_bytes_def Let_def)

lemma gate_bytes_length [simp]: "length (gate_bytes sel off b) = 8"
  by (simp add: gate_bytes_def)

lemma desc_bytes_length [simp]: "length (desc_bytes base limit access b) = 8"
  by (simp add: desc_bytes_def)

lemma shim_bytes_length [simp]: "length (shim_bytes v lo hi) = 16"
  by (simp add: shim_bytes_def Let_def PM_SHIM_SLOT_BYTES_def)

lemma kernel_ram_same: "same_outside E S m m' \<Longrightarrow> kernel_ram E m' = kernel_ram E m"
  by (simp add: kernel_ram_def same_outside_def)

lemma area_mono: "\<lbrakk>a' \<le> a; a + n \<le> a' + n'\<rbrakk> \<Longrightarrow> area a n \<subseteq> area a' n'"
  by (auto simp: area_def)

lemma area_disjoint: "a + n \<le> b \<or> b + k \<le> a \<Longrightarrow> area a n \<inter> area b k = {}"
  by (auto simp: area_def)

lemma slot_unat: "v < 256 \<Longrightarrow> unat (slot IDT_BASE (of_nat v)) = 0x102000 + 8 * v"
  using unat_slot [of IDT_BASE 0 "of_nat v"] by (simp add: table_bases unat_of_nat_u16) (simp add: IDT_BASE_def)

lemma gdt_slot_unat: "v < 16 \<Longrightarrow> unat (slot GDT_BASE (of_nat v)) = 0x100000 + 8 * v"
  using unat_slot [of GDT_BASE 0 "of_nat v"] by (simp add: table_bases unat_of_nat_u16) (simp add: GDT_BASE_def)

lemma ldt_slot_unat: "v < 256 \<Longrightarrow> unat (slot LDT_BASE (of_nat v)) = 0x104000 + 8 * v"
  using unat_slot [of LDT_BASE 0 "of_nat v"] by (simp add: table_bases unat_of_nat_u16) (simp add: LDT_BASE_def)

lemma shim_unat: "v < 256 \<Longrightarrow> unat (PM_SHIM_BASE + of_nat (v * PM_SHIM_SLOT_BYTES)) = 0x106000 + 16 * v"
  using unat_plus_of_nat [of PM_SHIM_BASE "v * PM_SHIM_SLOT_BYTES"] by (simp add: PM_SHIM_BASE_def PM_SHIM_SLOT_BYTES_def)

lemma fold_areas:
  assumes "\<And>x n. \<lbrakk>x \<in> set xs; kernel_ram E n\<rbrakk> \<Longrightarrow> same_outside E S n (f x n)" and "kernel_ram E m"
  shows "same_outside E S m (fold f xs m)"
proof (rule same_outside_fold)
  fix x n assume x: "x \<in> set xs" and so: "same_outside E S m n"
  have "kernel_ram E n" using kernel_ram_same [OF so] assms(2) by simp
  then show "same_outside E S n (f x n)" by (rule assms(1) [OF x])
qed

context emu88_engine
begin

lemma store_low:
  assumes "kernel_ram E m" and "unat a + length bs \<le> 0x110000"
  shows "same_outside E (area (unat a) (length bs)) m (store_bytes E a bs m)" and "bytes_at E (store_bytes E a bs m) a bs"
proof -
  have ram: "is_ram E m (a + of_nat i)" if "i < length bs" for i
    using assms that unat_plus_of_nat [of a i] by (simp add: kernel_ram_def)
  have st: "stored E a bs m (store_bytes E a bs m)" using ram assms(2) by (intro store_bytes_stored) simp_all
  show "same_outside E (area (unat a) (length bs)) m (store_bytes E a bs m)" by (rule stored_same_outside [OF st]) (simp add: area_def)
  show "bytes_at E (store_bytes E a bs m) a bs" using ram assms(2) by (intro stored_bytes_at [OF st]) simp_all
qed

lemma bytes_keep:
  assumes "bytes_at E m a bs" and "same_outside E S m m'" and "kernel_ram E m" and "unat a + length bs \<le> 0x110000"
    and "S \<inter> area (unat a) (length bs) = {}"
  shows "bytes_at E m' a bs"
proof (rule bytes_at_same [OF assms(2,1)])
  fix i assume i: "i < length bs"
  have "unat (a + of_nat i) = unat a + i" using i assms(4) by (intro unat_plus_of_nat) simp
  then show "is_ram E m (a + of_nat i) \<and> a + of_nat i \<notin> S" using i assms(3,4,5) by (auto simp: kernel_ram_def area_def)
qed

lemma gate_low:
  assumes "kernel_ram E m" and "v < 256"
  shows "same_outside E (area (0x102000 + 8 * v) 8) m (write_idt_gate E (of_nat v) sel off b m)"
    and "bytes_at E (write_idt_gate E (of_nat v) sel off b m) (slot IDT_BASE (of_nat v)) (gate_bytes sel off b)"
  using store_low [OF assms(1), of "slot IDT_BASE (of_nat v)" "gate_bytes sel off b"] assms(2)
  by (simp_all add: write_idt_gate_store slot_unat)

lemma gdt_low:
  assumes "kernel_ram E m" and "v < 16"
  shows "same_outside E (area (0x100000 + 8 * v) 8) m (write_gdt_descriptor E (of_nat v) base limit access b m)"
    and "bytes_at E (write_gdt_descriptor E (of_nat v) base limit access b m) (slot GDT_BASE (of_nat v)) (desc_bytes base limit access b)"
  using store_low [OF assms(1), of "slot GDT_BASE (of_nat v)" "desc_bytes base limit access b"] assms(2)
  by (simp_all add: write_gdt_descriptor_def write_descriptor_store gdt_slot_unat)

end

section \<open>The tables after the set-up\<close>

lemma RealPointer_halves:
  "hi16 (CALLBACK_RealPointer cb) = CB_SEG" "para CB_SEG + ucast (lo16 (CALLBACK_RealPointer cb)) = CALLBACK_PhysPointer cb"
proof -
  have mk: "RealMake sg off = mk32 off sg" for sg off by (simp add: RealMake_def mk32_def or.commute)
  show "hi16 (CALLBACK_RealPointer cb) = CB_SEG" by (simp add: CALLBACK_RealPointer_def mk del: of_nat_add of_nat_mult)
  show "para CB_SEG + ucast (lo16 (CALLBACK_RealPointer cb)) = CALLBACK_PhysPointer cb"
    by (simp add: CALLBACK_RealPointer_def CALLBACK_PhysPointer_def mk PhysMake_def para_def CB_SEG_def del: of_nat_add of_nat_mult)
qed

text \<open>\<open>setup_gdt\<close> as a list of entries.\<close>

definition write_entry :: "'m emu88 \<Rightarrow> nat \<times> u32 \<times> u32 \<times> u8 \<times> bool \<Rightarrow> 'm \<Rightarrow> 'm" where
  "write_entry E e = (case e of (i, base, limit, access, big) \<Rightarrow> write_gdt_descriptor E (of_nat i) base limit access big)"

definition gdt_entries :: "bool \<Rightarrow> u16 \<Rightarrow> u16 \<Rightarrow> u16 \<Rightarrow> u16 \<Rightarrow> (nat \<times> u32 \<times> u32 \<times> u8 \<times> bool) list" where
  "gdt_entries bits32 ccs cds css ces = [(0, 0, 0, 0, False), (1, para ccs, 0xFFFF, 0x9A, bits32), (2, para cds, 0xFFFF, 0x92, False),
     (3, para css, 0xFFFF, 0x92, False), (4, para ces, 0xFFFF, 0x92, False), (5, 0xF0000, 0xFFFF, 0x9A, False),
     (6, LDT_BASE, of_nat LDT_BYTES - 1, 0x82, False), (7, PM_SHIM_BASE, PM_SHIM_TOTAL - 1, 0x9A, False),
     (8, PM_CB_STACK_BASE, PM_CB_STACK_SIZE - 1, 0x92, True), (9, TSS_BASE, TSS_SIZE - 1, 0x89, False), (10, para ccs, 0xFFFF, 0xFA, bits32),
     (11, para cds, 0xFFFF, 0xF2, False), (12, para css, 0xFFFF, 0xF2, False), (13, para ces, 0xFFFF, 0xF2, False),
     (14, 0xF0000, 0xFFFF, 0xFA, False), (15, PM_EXC_STACK_BASE, PM_CB_STACK_SIZE - 1, 0xF2, False)]"

lemma setup_gdt_fold: "setup_gdt E bits32 ccs cds css ces m = fold (write_entry E) (gdt_entries bits32 ccs cds css ces) m"
  by (simp add: setup_gdt_def gdt_entries_def Let_def write_entry_def)

lemma gdt_entries_slots:
  "distinct (map fst (gdt_entries bits32 ccs cds css ces))" "\<forall>e \<in> set (gdt_entries bits32 ccs cds css ces). fst e < 16"
  by (simp_all add: gdt_entries_def)

context emu88_engine
begin

lemma entry_low:
  assumes "kernel_ram E m" and "fst e < 16"
  shows "same_outside E (area (0x100000 + 8 * fst e) 8) m (write_entry E e m)"
  using gdt_low(1) [OF assms] by (cases e) (simp add: write_entry_def)

lemma entries_low:
  assumes "kernel_ram E m" and "\<forall>e \<in> set xs. fst e < 16"
  shows "same_outside E (area 0x100000 0x80) m (fold (write_entry E) xs m)"
proof (rule fold_areas [OF _ assms(1)])
  fix e n assume "e \<in> set xs" and n: "kernel_ram E n"
  then have e: "fst e < 16" using assms(2) by auto
  then have "area (0x100000 + 8 * fst e) 8 \<subseteq> area 0x100000 0x80" by (intro area_mono) auto
  then show "same_outside E (area 0x100000 0x80) n (write_entry E e n)"
    by (rule same_outside_mono [OF entry_low [OF n e]])
qed

lemma entries_hold:
  assumes "kernel_ram E m" and "\<forall>e \<in> set xs. fst e < 16" and "distinct (map fst xs)" and "(i, base, limit, access, big) \<in> set xs"
  shows "bytes_at E (fold (write_entry E) xs m) (slot GDT_BASE (of_nat i)) (desc_bytes base limit access big)"
proof -
  let ?e = "(i, base, limit, access, big)" and ?N = "- area (0x100000 + 8 * i) 8"
  obtain ys zs where xs: "xs = ys @ ?e # zs" using split_list [OF assms(4)] by blast
  define m1 where "m1 = fold (write_entry E) ys m"
  have i: "i < 16" using assms(2,4) by auto
  have "same_outside E (area 0x100000 0x80) m m1" unfolding m1_def using assms(2) by (intro entries_low [OF assms(1)]) (simp add: xs)
  then have l1: "kernel_ram E m1" using kernel_ram_same assms(1) by metis
  note w = gdt_low [OF l1 i, where base = base and limit = limit and access = access and b = big]
  have l2: "kernel_ram E (write_entry E ?e m1)" using kernel_ram_same [OF w(1)] l1 by (simp add: write_entry_def)
  have "same_outside E ?N (write_entry E ?e m1) (fold (write_entry E) zs (write_entry E ?e m1))"
  proof (rule fold_areas [OF _ l2])
    fix e n assume e: "e \<in> set zs" and n: "kernel_ram E n"
    have "fst e \<noteq> i" using assms(3) e by (force simp: xs)
    then have "area (0x100000 + 8 * fst e) 8 \<subseteq> ?N" by (auto simp: area_def)
    then show "same_outside E ?N n (write_entry E e n)"
      using assms(2) e by (intro same_outside_mono [OF entry_low [OF n]]) (auto simp: xs)
  qed
  from bytes_keep [OF _ this l2] w(2) show ?thesis
    using gdt_slot_unat [OF i] i by (simp add: xs m1_def write_entry_def)
qed

text \<open>The descriptors of the callback and the shim segment.\<close>

lemma setup_gdt_low:
  fixes bits32 :: bool and ccs cds css ces :: u16
  assumes "kernel_ram E m"
  defines "m' \<equiv> setup_gdt E bits32 ccs cds css ces m"
  shows "same_outside E (area 0x100000 0x80) m m'"
    and "bytes_at E m' (slot GDT_BASE 5) (desc_bytes 0xF0000 0xFFFF 0x9A False)"
    and "bytes_at E m' (slot GDT_BASE 7) (desc_bytes PM_SHIM_BASE (PM_SHIM_TOTAL - 1) 0x9A False)"
proof -
  note g = gdt_entries_slots [of bits32 ccs cds css ces]
  show "same_outside E (area 0x100000 0x80) m m'" unfolding m'_def setup_gdt_fold by (rule entries_low [OF assms(1) g(2)])
  have "bytes_at E m' (slot GDT_BASE (of_nat 5)) (desc_bytes 0xF0000 0xFFFF 0x9A False)"
    "bytes_at E m' (slot GDT_BASE (of_nat 7)) (desc_bytes PM_SHIM_BASE (PM_SHIM_TOTAL - 1) 0x9A False)"
    unfolding m'_def setup_gdt_fold by (rule entries_hold [OF assms(1) g(2,1)]; simp add: gdt_entries_def)+
  then show "bytes_at E m' (slot GDT_BASE 5) (desc_bytes 0xF0000 0xFFFF 0x9A False)"
    "bytes_at E m' (slot GDT_BASE 7) (desc_bytes PM_SHIM_BASE (PM_SHIM_TOTAL - 1) 0x9A False)" by simp_all
qed

lemma readd_same:
  assumes "same_outside E S m m'" and "\<And>k. k < 4 \<Longrightarrow> is_ram E m (a + of_nat k) \<and> a + of_nat k \<notin> S"
  shows "mem_readd E m' a = mem_readd E m a"
proof -
  have "is_ram E m (a + of_nat k) \<and> is_ram E m' (a + of_nat k) \<and> mem_readb E m' (a + of_nat k) = mem_readb E m (a + of_nat k)" if "k < 4" for k
    using assms(1) assms(2) [OF that] by (simp add: same_outside_def)
  from this [of 0] this [of 1] this [of 2] this [of 3] show ?thesis by (simp add: readd_words readw_bytes add.assoc)
qed

lemma setup_tss_low:
  assumes "kernel_ram E m"
  shows "same_outside E (area 0x109000 104) m (setup_tss E m)" (is "same_outside E ?S _ _")
proof -
  have tss: "unat (TSS_BASE + of_nat i) = 0x109000 + i" if "i < 200" for i
    using that unat_plus_of_nat [of TSS_BASE i] by (simp add: TSS_BASE_def)
  have ka: "TSS_BASE + of_nat i \<in> ?S" "kernel_ram E n \<Longrightarrow> is_ram E n (TSS_BASE + of_nat i)" if "i < 104" for i n
    using tss [of i] that by (simp_all add: area_def kernel_ram_def)
  have f: "same_outside E ?S m (fold (\<lambda>i. mem_writeb E (TSS_BASE + of_nat i) 0) [0 ..< unat TSS_SIZE] m)" (is "same_outside E _ m ?m1")
    using ka by (intro fold_areas [OF _ assms(1)] same_outside_writeb) (auto simp: TSS_SIZE_def)
  have l1: "kernel_ram E ?m1" using kernel_ram_same [OF f] assms by simp
  have w: "same_outside E ?S ?m1 (mem_writed E (TSS_BASE + 4) PM_CB_STACK_SIZE ?m1)" (is "same_outside E _ _ ?m2")
    using ka(1) [of 4] ka(1) [of 5] ka(1) [of 6] ka(1) [of 7] ka(2) [OF _ l1, of 4] ka(2) [OF _ l1, of 5] ka(2) [OF _ l1, of 6] ka(2) [OF _ l1, of 7]
    by (auto simp: same_outside_def mem_simps add.assoc)
  have l2: "kernel_ram E ?m2" using kernel_ram_same [OF w] l1 by simp
  have "same_outside E ?S ?m2 (mem_writew E (TSS_BASE + 8) PM_CB_STACK ?m2)"
    using ka(1) [of 8] ka(1) [of 9] ka(2) [OF _ l2, of 8] ka(2) [OF _ l2, of 9] by (intro same_outside_writew) (simp_all add: add.assoc)
  with f w show ?thesis unfolding setup_tss_def Let_def by (meson same_outside_trans)
qed

lemma gate_if_low:
  assumes "kernel_ram E m" and "v < 256"
  shows "same_outside E (area (0x102000 + 8 * v) 8) m (gate_if E (of_nat v) sel off b m)"
  using gate_low(1) [OF assms] by (simp add: gate_if_def)

lemma reflect_low:
  assumes "kernel_ram E m" and "v < 256"
  shows "same_outside E (area (0x102000 + 8 * v) 8 \<union> area (0x106000 + 16 * v) 16) m (reflect_vector E bits32 v m)" (is "same_outside E ?S _ _")
proof -
  have g: "same_outside E ?S n (write_idt_gate E (of_nat v) sel off b n)" if "kernel_ram E n" for n sel off b
    using gate_low(1) [OF that assms(2)] by (rule same_outside_mono) simp
  have st: "same_outside E ?S m (store_bytes E (PM_SHIM_BASE + of_nat (v * PM_SHIM_SLOT_BYTES)) (shim_bytes v lo hi) m)" for lo hi
    using store_low(1) [OF assms(1), of "PM_SHIM_BASE + of_nat (v * PM_SHIM_SLOT_BYTES)" "shim_bytes v lo hi"] shim_unat [OF assms(2)] assms(2)
    by (auto simp del: of_nat_mult intro: same_outside_mono)
  show ?thesis
    using g [OF assms(1)] same_outside_trans [OF st g] kernel_ram_same [OF st] assms(1)
    by (simp add: reflect_vector_def Let_def split: option.split)
qed

lemma reflect_hit:
  assumes "kernel_ram E m" and "v < 256" and "v \<noteq> 0x21" and "v \<noteq> 0x31" and "mem_readd E m (of_nat v * 4) = CALLBACK_RealPointer cb"
    and "unat cb < CB_MAX" and "bytes_at E m (CALLBACK_PhysPointer cb) (stub_bytes cb ty)"
  defines "m' \<equiv> reflect_vector E True v m"
  shows "bytes_at E m' (slot IDT_BASE (of_nat v)) (gate_bytes PM_SHIM_SEL (of_nat (v * PM_SHIM_SLOT_BYTES)) True)"
    and "bytes_at E m' (PM_SHIM_BASE + of_nat (v * PM_SHIM_SLOT_BYTES)) (shim_bytes v cb 0)"
proof -
  let ?p = "CALLBACK_PhysPointer cb" and ?a = "PM_SHIM_BASE + of_nat (v * PM_SHIM_SLOT_BYTES)"
  have bs: "mem_readb E m (?p + of_nat i) = stub_bytes cb ty ! i" if "i < 5" for i
    using assms(7) stub_bytes_length(1) [of cb ty] that by (simp add: bytes_at_def)
  from bs [of 0] bs [of 1] bs [of 2] bs [of 3] bs [of 4]
  have "\<exists>k. scan_native E ?p m = Some k \<and> mem_readb E m (?p + of_nat k + 2) = cb \<and> mem_readb E m (?p + of_nat k + 3) = 0"
    by (cases "ty = CB_INT21")
      (auto simp: scan_native_def stub_bytes_def native_def upt_rec add.assoc split: cb_type.splits)
  then obtain k where k: "scan_native E ?p m = Some k" "mem_readb E m (?p + of_nat k + 2) = cb" "mem_readb E m (?p + of_nat k + 3) = 0"
    by blast
  have m': "m' = write_idt_gate E (of_nat v) PM_SHIM_SEL (of_nat (v * PM_SHIM_SLOT_BYTES)) True (store_bytes E ?a (shim_bytes v cb 0) m)"
    unfolding m'_def reflect_vector_def Let_def assms(5) RealPointer_halves using assms(3,4) k by simp
  note st = store_low [OF assms(1), of ?a "shim_bytes v cb 0", unfolded shim_unat [OF assms(2)] shim_bytes_length]
  have a: "0x106000 + 16 * v + 16 \<le> 0x110000" using assms(2) by simp
  have l: "kernel_ram E (store_bytes E ?a (shim_bytes v cb 0) m)" using kernel_ram_same [OF st(1) [OF a]] assms(1) by simp
  show "bytes_at E m' (slot IDT_BASE (of_nat v)) (gate_bytes PM_SHIM_SEL (of_nat (v * PM_SHIM_SLOT_BYTES)) True)"
    unfolding m' by (rule gate_low(2) [OF l assms(2)])
  show "bytes_at E m' ?a (shim_bytes v cb 0)" unfolding m'
    using bytes_keep [OF st(2) [OF a] gate_low(1) [OF l assms(2)] l] shim_unat [OF assms(2)] assms(2)
    by (simp add: area_disjoint del: of_nat_mult)
qed

end

text \<open>The vectors with gates of their own: selector, offset and size. The gates of vectors 0 to 0Fh are the ones \<open>dosiz_dpmi_entry\<close> adds.\<close>

definition own_gate :: "bool \<Rightarrow> ('m, 'z) dpmi_host_scheme \<Rightarrow> nat \<Rightarrow> (u16 \<times> u16 \<times> bool) option" where
  "own_gate bits32 s v = (let (sel, off, big) =
     (if v = 0x21 then (PM_CB_SEL, if bits32 then s_int21_cb32_off s else s_int21_cb_off s, bits32)
      else if v = 0x31 then (PM_CB_SEL, if bits32 then s_int31_cb32_off s else s_int31_cb_off s, bits32)
      else if v = 0x80 then (PM_CB_SEL, s_int80_cb32_off s, True)
      else if v = 0x1A then (PM_CB_SEL, s_int1a_cb32_off s, True)
      else if v = 0x60 then (PM_SHIM_SEL, s_int60_cb32_off s, True)
      else if v < 0x10 then (PM_CB_SEL, if bits32 then s_le_exc_cb32_off s else s_le_exc_cb16_off s, bits32)
      else (0, 0, bits32))
   in if off = 0 then None else Some (sel, off, big))"

text \<open>The gate of a vector whose real-mode entry is the stub of \<open>cb\<close>.\<close>

definition reflected_gate :: "bool \<Rightarrow> nat \<Rightarrow> u8 \<Rightarrow> u8 list" where
  "reflected_gate bits32 v cb = (if v = 0x21 \<or> v = 0x31 then gate_bytes 0 0 bits32
     else if bits32 then gate_bytes PM_SHIM_SEL (of_nat (v * PM_SHIM_SLOT_BYTES)) True
     else gate_bytes PM_CB_SEL (ucast (lo16 (CALLBACK_RealPointer cb))) False)"

definition vector_gate :: "bool \<Rightarrow> ('m, 'z) dpmi_host_scheme \<Rightarrow> nat \<Rightarrow> u8 \<Rightarrow> u8 list" where
  "vector_gate bits32 s v cb = (case own_gate bits32 s v of Some (sel, off, big) \<Rightarrow> gate_bytes sel (ucast off) big
     | None \<Rightarrow> reflected_gate bits32 v cb)"

text \<open>The gates after the loop, in the order they are written; the last sixteen are those of \<open>default_exceptions\<close>.\<close>

definition fixed_gates :: "bool \<Rightarrow> ('m, 'z) dpmi_host_scheme \<Rightarrow> (nat \<times> u16 \<times> u16 \<times> bool) list" where
  "fixed_gates bits32 s = [(0x21, PM_CB_SEL, if bits32 then s_int21_cb32_off s else s_int21_cb_off s, bits32),
     (0x31, PM_CB_SEL, if bits32 then s_int31_cb32_off s else s_int31_cb_off s, bits32), (0x80, PM_CB_SEL, s_int80_cb32_off s, True),
     (0x1A, PM_CB_SEL, s_int1a_cb32_off s, True), (0x60, PM_SHIM_SEL, s_int60_cb32_off s, True)]"

definition exception_gates :: "bool \<Rightarrow> ('m, 'z) dpmi_host_scheme \<Rightarrow> (nat \<times> u16 \<times> u16 \<times> bool) list" where
  "exception_gates bits32 s = map (\<lambda>w. (w, PM_CB_SEL, if bits32 then s_le_exc_cb32_off s else s_le_exc_cb16_off s, bits32)) [0 ..< 16]"

text \<open>A list of gates written one after the other, and what the slot of \<open>v\<close> holds after them.\<close>

definition write_gates :: "'m emu88 \<Rightarrow> (nat \<times> u16 \<times> u16 \<times> bool) list \<Rightarrow> 'm \<Rightarrow> 'm" where
  "write_gates E gs m = fold (\<lambda>(w, sel, off, big). gate_if E (of_nat w) sel off big) gs m"

definition slot_after :: "nat \<Rightarrow> (nat \<times> u16 \<times> u16 \<times> bool) list \<Rightarrow> u8 list \<Rightarrow> u8 list" where
  "slot_after v gs bs = fold (\<lambda>(w, sel, off, big) bs. if w = v \<and> off \<noteq> 0 then gate_bytes sel (ucast off) big else bs) gs bs"

lemma slot_after_map: "slot_after v (map (\<lambda>w. (w, sel, off, big)) ws) bs = (if v \<in> set ws \<and> off \<noteq> 0 then gate_bytes sel (ucast off) big else bs)"
  unfolding slot_after_def by (induction ws arbitrary: bs) auto

lemma slot_after_append: "slot_after v (gs @ gs') bs = slot_after v gs' (slot_after v gs bs)"
  by (simp add: slot_after_def)

context emu88_engine
begin

lemma write_gates_hold:
  assumes "kernel_ram E m" and "\<forall>g \<in> set gs. fst g < 256" and "v < 256" and "length bs = 8" and "bytes_at E m (slot IDT_BASE (of_nat v)) bs"
  shows "bytes_at E (write_gates E gs m) (slot IDT_BASE (of_nat v)) (slot_after v gs bs) \<and> same_outside E (area 0x102000 0x800) m (write_gates E gs m)"
  using assms
proof (induction gs arbitrary: m bs)
  case (Cons g gs)
  obtain w sel off big where g: "g = (w, sel, off, big)" by (cases g)
  define m1 where "m1 = gate_if E (of_nat w) sel off big m"
  have w: "w < 256" using Cons.prems(2) by (simp add: g)
  have s1: "same_outside E (area (0x102000 + 8 * w) 8) m m1" unfolding m1_def by (rule gate_if_low [OF Cons.prems(1) w])
  have l1: "kernel_ram E m1" using kernel_ram_same [OF s1] Cons.prems(1) by simp
  define bs1 where "bs1 = (if w = v \<and> off \<noteq> 0 then gate_bytes sel (ucast off) big else bs)"
  have b1: "bytes_at E m1 (slot IDT_BASE (of_nat v)) bs1"
  proof (cases "w = v")
    case True
    then show ?thesis using gate_low(2) [OF Cons.prems(1) w] Cons.prems(5) by (simp add: m1_def gate_if_def bs1_def)
  next
    case False
    then have "area (0x102000 + 8 * w) 8 \<inter> area (0x102000 + 8 * v) 8 = {}" by (intro area_disjoint) linarith
    with False show ?thesis
      using bytes_keep [OF Cons.prems(5) s1 Cons.prems(1)] slot_unat [OF Cons.prems(3)] Cons.prems(3,4) by (simp add: bs1_def)
  qed
  have "length bs1 = 8" using Cons.prems(4) by (simp add: bs1_def)
  note IH = Cons.IH [OF l1 _ Cons.prems(3) this b1]
  have "write_gates E (g # gs) m = write_gates E gs m1" "slot_after v (g # gs) bs = slot_after v gs bs1"
    by (simp_all add: write_gates_def slot_after_def g m1_def bs1_def)
  moreover have "area (0x102000 + 8 * w) 8 \<subseteq> area 0x102000 0x800" using w by (intro area_mono) simp_all
  ultimately show ?case using IH Cons.prems(2) same_outside_trans [OF same_outside_mono [OF s1]] by simp
qed (simp add: write_gates_def slot_after_def)

text \<open>The loop over all vectors.\<close>

lemma reflect_table:
  fixes bits32 :: bool
  assumes "kernel_ram E m" and "v < 256" and "mem_readd E m (of_nat v * 4) = CALLBACK_RealPointer cb"
    and "unat cb < CB_MAX" and "bytes_at E m (CALLBACK_PhysPointer cb) (stub_bytes cb ty)"
  defines "m1 \<equiv> fold (\<lambda>i. write_idt_gate E (of_nat i) 0 0 bits32) [0 ..< 256] m"
  defines "m2 \<equiv> fold (reflect_vector E bits32) [0 ..< 256] m1"
  shows "bytes_at E m2 (slot IDT_BASE (of_nat v)) (reflected_gate bits32 v cb)"
    and "\<lbrakk>bits32; v \<noteq> 0x21; v \<noteq> 0x31\<rbrakk> \<Longrightarrow> bytes_at E m2 (PM_SHIM_BASE + of_nat (v * PM_SHIM_SLOT_BYTES)) (shim_bytes v cb 0)"
    and "same_outside E (area 0x102000 0x800 \<union> area 0x106000 0x1000) m m2"
proof -
  let ?K = "area 0x102000 0x800 \<union> area 0x106000 0x1000"
  let ?A = "\<lambda>w. area (0x102000 + 8 * w) 8 \<union> area (0x106000 + 16 * w) 16"
  let ?N = "- ?A v"
  have inK: "?A w \<subseteq> ?K" if "w < 256" for w using that by (auto simp: area_def)
  have inN: "?A w \<subseteq> ?N" if "w < 256" "w \<noteq> v" for w using that assms(2) by (auto simp: area_def)
  have gK: "same_outside E ?K n (write_idt_gate E (of_nat w) sel off b n)" if "w < 256" "kernel_ram E n" for w sel off b n
    using gate_low(1) [OF that(2,1)] by (rule same_outside_mono) (use inK [OF that(1)] in blast)
  have gN: "same_outside E ?N n (write_idt_gate E (of_nat w) sel off b n)" if "w < 256" "kernel_ram E n" "w \<noteq> v" for w sel off b n
    using gate_low(1) [OF that(2,1)] by (rule same_outside_mono) (use inN [OF that(1,3)] in blast)
  have rK: "same_outside E ?K n (reflect_vector E bits32 w n)" if "w < 256" "kernel_ram E n" for w n
    using reflect_low [OF that(2,1)] by (rule same_outside_mono) (rule inK [OF that(1)])
  have rN: "same_outside E ?N n (reflect_vector E bits32 w n)" if "w < 256" "kernel_ram E n" "w \<noteq> v" for w n
    using reflect_low [OF that(2,1)] by (rule same_outside_mono) (rule inN [OF that(1,3)])
  have split: "[0 ..< 256] = [0 ..< v] @ v # [Suc v ..< 256]"
    using assms(2) by (metis less_imp_le_nat upt_add_eq_append upt_conv_Cons le_add_diff_inverse zero_le)
  define n1 where "n1 = fold (\<lambda>i. write_idt_gate E (of_nat i) 0 0 bits32) [0 ..< v] m"
  define n2 where "n2 = write_idt_gate E (of_nat v) 0 0 bits32 n1"
  define n5 where "n5 = fold (reflect_vector E bits32) [0 ..< v] m1"
  define n6 where "n6 = reflect_vector E bits32 v n5"
  have m1: "m1 = fold (\<lambda>i. write_idt_gate E (of_nat i) 0 0 bits32) [Suc v ..< 256] n2" unfolding m1_def split n1_def n2_def by simp
  have m2: "m2 = fold (reflect_vector E bits32) [Suc v ..< 256] n6" unfolding m2_def split n5_def n6_def by simp
  have "same_outside E ?K m n1" unfolding n1_def by (rule fold_areas [OF gK assms(1)]) (use assms(2) in auto)
  then have k1: "kernel_ram E n1" using kernel_ram_same assms(1) by metis
  then have k2: "kernel_ram E n2" unfolding n2_def using kernel_ram_same [OF gK [OF assms(2)]] by simp
  have s1: "same_outside E ?K m m1" unfolding m1_def by (rule fold_areas [OF gK assms(1)]) auto
  have l1: "kernel_ram E m1" using kernel_ram_same [OF s1] assms(1) by simp
  have s5: "same_outside E ?K m1 n5" "same_outside E ?N m1 n5"
    unfolding n5_def by - ((rule fold_areas [OF rK l1]; use assms(2) in simp), (rule fold_areas [OF rN l1]; use assms(2) in simp))
  have s05: "same_outside E ?K m n5" by (rule same_outside_trans [OF s1 s5(1)])
  have l5: "kernel_ram E n5" using kernel_ram_same [OF s05] assms(1) by simp
  have inIDT: "unat (slot IDT_BASE (of_nat v)) + length (gate_bytes sel off b) \<le> 0x110000"
      "?N \<inter> area (unat (slot IDT_BASE (of_nat v))) (length (gate_bytes sel off b)) = {}" for sel off b
    using assms(2) slot_unat [OF assms(2)] by auto
  have zero: "bytes_at E n5 (slot IDT_BASE (of_nat v)) (gate_bytes 0 0 bits32)"
  proof -
    have "same_outside E ?N n2 m1" unfolding m1 by (rule fold_areas [OF gN k2]) auto
    note s = same_outside_trans [OF this s5(2)]
    have "bytes_at E n2 (slot IDT_BASE (of_nat v)) (gate_bytes 0 0 bits32)" unfolding n2_def by (rule gate_low(2) [OF k1 assms(2)])
    from bytes_keep [OF this s k2 inIDT] show ?thesis .
  qed
  have p: "unat (CALLBACK_PhysPointer cb) + 16 \<le> 0x100000" using PhysPointer_unat [OF assms(4)] assms(4) by (simp add: CB_MAX_def)
  have stub: "bytes_at E n5 (CALLBACK_PhysPointer cb) (stub_bytes cb ty)"
    using p stub_bytes_length(2) [of cb ty] by (intro bytes_keep [OF assms(5) s05 assms(1)]) (auto simp: area_def)
  have ram: "is_ram E m (of_nat v * 4 + of_nat k)" and old: "of_nat v * 4 + of_nat k \<notin> ?K" if "k < 4" for k
    using assms(1) unat_vec [OF assms(2) that] assms(2) that by (auto simp: kernel_ram_def area_def)
  have vec: "mem_readd E n5 (of_nat v * 4) = CALLBACK_RealPointer cb"
    unfolding assms(3) [symmetric] by (rule readd_same [OF s05]) (use ram old in blast)
  note hit = reflect_hit [OF l5 assms(2) _ _ vec assms(4) stub]
  have gate: "bytes_at E n6 (slot IDT_BASE (of_nat v)) (reflected_gate bits32 v cb)"
  proof (cases "v = 0x21 \<or> v = 0x31")
    case True
    then show ?thesis using zero by (auto simp: n6_def reflect_vector_def reflected_gate_def)
  next
    case False
    show ?thesis
    proof (cases bits32)
      case True
      then show ?thesis using hit(1) False by (simp add: n6_def reflected_gate_def)
    next
      case False
      then have "n6 = write_idt_gate E (of_nat v) PM_CB_SEL (ucast (lo16 (CALLBACK_RealPointer cb))) False n5"
        using \<open>\<not> (v = 0x21 \<or> v = 0x31)\<close> by (simp add: n6_def reflect_vector_def vec RealPointer_halves Let_def)
      then show ?thesis using gate_low(2) [OF l5 assms(2)] False \<open>\<not> (v = 0x21 \<or> v = 0x31)\<close> by (simp add: reflected_gate_def)
    qed
  qed
  have s6: "same_outside E ?K n5 n6" unfolding n6_def by (rule rK [OF assms(2) l5])
  have l6: "kernel_ram E n6" using kernel_ram_same [OF s6] l5 by simp
  have s2: "same_outside E ?K n6 m2" "same_outside E ?N n6 m2"
    unfolding m2 by - ((rule fold_areas [OF rK l6]; simp), (rule fold_areas [OF rN l6]; simp))
  show "same_outside E ?K m m2" by (rule same_outside_trans [OF s05 same_outside_trans [OF s6 s2(1)]])
  have len: "length (reflected_gate bits32 v cb) = 8" by (simp add: reflected_gate_def)
  show "bytes_at E m2 (slot IDT_BASE (of_nat v)) (reflected_gate bits32 v cb)"
    by (rule bytes_keep [OF gate s2(2) l6]) (use assms(2) slot_unat [OF assms(2)] len in auto)
  assume b: "bits32" "v \<noteq> 0x21" "v \<noteq> 0x31"
  then have "bytes_at E n6 (PM_SHIM_BASE + of_nat (v * PM_SHIM_SLOT_BYTES)) (shim_bytes v cb 0)" using hit(2) by (simp add: n6_def)
  then show "bytes_at E m2 (PM_SHIM_BASE + of_nat (v * PM_SHIM_SLOT_BYTES)) (shim_bytes v cb 0)"
    by (rule bytes_keep [OF _ s2(2) l6]) (use assms(2) shim_unat [OF assms(2)] in \<open>auto simp del: of_nat_mult\<close>)
qed

lemma zero_ldt_low:
  assumes "kernel_ram E m"
  shows "same_outside E (area 0x104000 0x800) m (zero_ldt E m)"
proof -
  have "unat (LDT_BASE + of_nat i) = 0x104000 + i" if "i < 2048" for i
    using that unat_plus_of_nat [of LDT_BASE i] by (simp add: LDT_BASE_def)
  then show ?thesis unfolding zero_ldt_def
    by (intro fold_areas [OF _ assms] same_outside_writeb) (auto simp: LDT_BYTES_def area_def kernel_ram_def)
qed

end

text \<open>The laws of the protected-mode instructions the host issues: none of them changes the contents of memory.\<close>

locale pm_engine = cpu_engine E C keep_flags for E :: "'m emu88" and C :: "('m, 'c) emu_cpu" and keep_flags +
  assumes table_regs: "same_outside E {} m (set_gdtr_base C a m)" "same_outside E {} m (set_gdtr_limit C l m)"
      "same_outside E {} m (set_idtr_base C a m)" "same_outside E {} m (set_idtr_limit C l m)"
      "same_outside E {} m (set_ldtr C sel c m)" "same_outside E {} m (set_tr C sel c m)" "same_outside E {} m (set_cr C n a m)"
    and segment_loads: "same_outside E {} m (load_segment E m sg sel)" "same_outside E {} m (load_segment_real E m sg sel)"
begin

lemma lgdt_same: "same_outside E {} m (CPU_LGDT C l a m)" "same_outside E {} m (CPU_LIDT C l a m)"
  unfolding CPU_LGDT_def CPU_LIDT_def
  by (rule same_outside_trans [OF table_regs(2) table_regs(1)], rule same_outside_trans [OF table_regs(4) table_regs(3)])

lemma setup_prefix:
  fixes bits32 :: bool and ccs cds css ces :: u16
  assumes "kernel_ram E m"
  defines "m' \<equiv> CPU_LGDT C GDT_LIMIT GDT_BASE (setup_tss E (setup_gdt E bits32 ccs cds css ces m))"
  shows "same_outside E (area 0x100000 0x80 \<union> area 0x109000 104) m m'"
    and "bytes_at E m' (slot GDT_BASE 5) (desc_bytes 0xF0000 0xFFFF 0x9A False)"
    and "bytes_at E m' (slot GDT_BASE 7) (desc_bytes PM_SHIM_BASE (PM_SHIM_TOTAL - 1) 0x9A False)"
proof -
  let ?g = "setup_gdt E bits32 ccs cds css ces m"
  note g = setup_gdt_low [OF assms(1), of bits32 ccs cds css ces]
  have l: "kernel_ram E ?g" using kernel_ram_same [OF g(1)] assms(1) by simp
  have t: "same_outside E (area 0x109000 104 \<union> {}) ?g m'"
    unfolding m'_def by (rule same_outside_join [OF setup_tss_low [OF l] lgdt_same(1)])
  show "same_outside E (area 0x100000 0x80 \<union> area 0x109000 104) m m'" using same_outside_join [OF g(1) t] by simp
  show "bytes_at E m' (slot GDT_BASE 5) (desc_bytes 0xF0000 0xFFFF 0x9A False)"
    "bytes_at E m' (slot GDT_BASE 7) (desc_bytes PM_SHIM_BASE (PM_SHIM_TOTAL - 1) 0x9A False)"
    using bytes_keep [OF g(2) t l] bytes_keep [OF g(3) t l] gdt_slot_unat [of 5] gdt_slot_unat [of 7] by (simp_all add: area_disjoint)
qed

lemma gates_own: "slot_after v (exception_gates bits32 s) (slot_after v (fixed_gates bits32 s) (reflected_gate bits32 v cb)) = vector_gate bits32 s v cb"
  unfolding exception_gates_def slot_after_map
  by (auto simp: slot_after_def fixed_gates_def vector_gate_def own_gate_def Let_def)

lemma default_exceptions_gates: "mem (default_exceptions E bits32 s) = write_gates E (exception_gates bits32 s) (mem s)"
proof -
  let ?cb = "if bits32 then s_le_exc_cb32_off s else s_le_exc_cb16_off s"
  have "write_gates E (map (\<lambda>w. (w, PM_CB_SEL, ?cb, bits32)) ws) m
      = (if ?cb = 0 then m else fold (\<lambda>v. write_idt_gate E (of_nat v) PM_CB_SEL (ucast ?cb) bits32) ws m)" for ws m
    unfolding write_gates_def by (induction ws arbitrary: m) (simp_all add: gate_if_def)
  then show ?thesis by (simp add: default_exceptions_def exception_gates_def Let_def wr_def del: upt_rec_numeral)
qed

lemma entry_tables_hold:
  fixes s :: "('m, 'z) dpmi_host_scheme" and ccs :: u16 and bits32 :: bool
  defines "m \<equiv> MEM_A20_Enable E True (mem s)"
  defines "t \<equiv> entry_tables E C bits32 ccs s"
  assumes "kernel_ram E m" and "v < 256" and "mem_readd E m (of_nat v * 4) = CALLBACK_RealPointer cb"
    and "unat cb < CB_MAX" and "bytes_at E m (CALLBACK_PhysPointer cb) (stub_bytes cb ty)"
  shows "bytes_at E (mem t) (slot IDT_BASE (of_nat v)) (vector_gate bits32 s v cb)"
    and "\<lbrakk>bits32; v \<noteq> 0x21; v \<noteq> 0x31\<rbrakk> \<Longrightarrow> bytes_at E (mem t) (PM_SHIM_BASE + of_nat (v * PM_SHIM_SLOT_BYTES)) (shim_bytes v cb 0)"
    and "bytes_at E (mem t) (slot GDT_BASE 5) (desc_bytes 0xF0000 0xFFFF 0x9A False)"
    and "bytes_at E (mem t) (slot GDT_BASE 7) (desc_bytes PM_SHIM_BASE (PM_SHIM_TOTAL - 1) 0x9A False)"
    and "bytes_at E (mem t) (CALLBACK_PhysPointer cb) (stub_bytes cb ty)"
    and "same_outside E kernel_area m (mem t)"
proof -
  define m1 where "m1 = CPU_LGDT C GDT_LIMIT GDT_BASE (setup_tss E (setup_gdt E bits32 ccs (seg_val s DS) (seg_val s SS) (seg_val s ES) m))"
  note pre = setup_prefix [OF assms(3), of bits32 ccs "seg_val s DS" "seg_val s SS" "seg_val s ES", folded m1_def]
  have l1: "kernel_ram E m1" using kernel_ram_same [OF pre(1)] assms(3) by simp
  have vec: "mem_readd E m1 (of_nat v * 4) = CALLBACK_RealPointer cb"
    unfolding assms(5) [symmetric]
    by (rule readd_same [OF pre(1)]) (use assms(3,4) unat_vec [OF assms(4)] in \<open>auto simp: kernel_ram_def area_def\<close>)
  have p: "unat (CALLBACK_PhysPointer cb) + 16 \<le> 0x100000" using PhysPointer_unat [OF assms(6)] assms(6) by (simp add: CB_MAX_def)
  have keep_stub: "bytes_at E n (CALLBACK_PhysPointer cb) (stub_bytes cb ty)" if "same_outside E S m n" "S \<subseteq> kernel_area" for S n
    using p stub_bytes_length(2) [of cb ty] that(2) by (intro bytes_keep [OF assms(7) that(1) assms(3)]) (auto simp: area_def kernel_area_def)
  have stub: "bytes_at E m1 (CALLBACK_PhysPointer cb) (stub_bytes cb ty)"
    by (rule keep_stub [OF pre(1)]) (auto simp: area_def kernel_area_def)
  define m2 where "m2 = fold (reflect_vector E bits32) [0 ..< 256] (fold (\<lambda>i. write_idt_gate E (of_nat i) 0 0 bits32) [0 ..< 256] m1)"
  note r = reflect_table [where ?bits32.0 = bits32, OF l1 assms(4) vec assms(6) stub, folded m2_def]
  have l2: "kernel_ram E m2" using kernel_ram_same [OF r(3)] l1 by simp
  define m3 where "m3 = write_gates E (fixed_gates bits32 s) m2"
  have len: "length (reflected_gate bits32 v cb) = 8" "length (slot_after v (fixed_gates bits32 s) (reflected_gate bits32 v cb)) = 8"
    by (simp_all add: reflected_gate_def slot_after_def fixed_gates_def)
  have g3: "bytes_at E m3 (slot IDT_BASE (of_nat v)) (slot_after v (fixed_gates bits32 s) (reflected_gate bits32 v cb))"
      "same_outside E (area 0x102000 0x800) m2 m3"
    using write_gates_hold [OF l2 _ assms(4) len(1) r(1), of "fixed_gates bits32 s", folded m3_def] by (simp_all add: fixed_gates_def)
  define m5 where "m5 = zero_ldt E (CPU_LIDT C IDT_LIMIT IDT_BASE m3)"
  have l3: "kernel_ram E m3" using kernel_ram_same [OF g3(2)] l2 by simp
  have l4: "kernel_ram E (CPU_LIDT C IDT_LIMIT IDT_BASE m3)" using kernel_ram_same [OF lgdt_same(2)] l3 by simp
  have s5: "same_outside E ({} \<union> area 0x104000 0x800) m3 m5" unfolding m5_def by (rule same_outside_join [OF lgdt_same(2) zero_ldt_low [OF l4]])
  have l5: "kernel_ram E m5" using kernel_ram_same [OF s5] l3 by simp
  have g5: "bytes_at E m5 (slot IDT_BASE (of_nat v)) (slot_after v (fixed_gates bits32 s) (reflected_gate bits32 v cb))"
    by (rule bytes_keep [OF g3(1) s5 l3]) (use assms(4) slot_unat [OF assms(4)] len in \<open>auto simp: area_def\<close>)
  have t: "mem t = write_gates E (exception_gates bits32 s) m5"
    unfolding t_def entry_tables_def default_exceptions_gates
    by (simp add: pm_setup_gdt_and_idt_def Let_def reset_ldt_def m5_def m3_def m2_def m1_def m_def exception_gates_def write_gates_def fixed_gates_def
        del: upt_rec_numeral)
  have g6: "bytes_at E (mem t) (slot IDT_BASE (of_nat v)) (vector_gate bits32 s v cb)" "same_outside E (area 0x102000 0x800) m5 (mem t)"
    using write_gates_hold [OF l5 _ assms(4) len(2) g5, of "exception_gates bits32 s", folded t] gates_own [of v bits32 s cb]
    by (auto simp: exception_gates_def simp del: upt_rec_numeral)
  show "bytes_at E (mem t) (slot IDT_BASE (of_nat v)) (vector_gate bits32 s v cb)" by (rule g6(1))
  have s26: "same_outside E (area 0x102000 0x800 \<union> (({} \<union> area 0x104000 0x800) \<union> area 0x102000 0x800)) m2 (mem t)"
    by (rule same_outside_join [OF g3(2) same_outside_join [OF s5 g6(2)]])
  have tail: "same_outside E ((area 0x102000 0x800 \<union> area 0x106000 0x1000) \<union> (area 0x102000 0x800 \<union> (({} \<union> area 0x104000 0x800) \<union> area 0x102000 0x800))) m1 (mem t)"
    by (rule same_outside_join [OF r(3) s26])
  show "bytes_at E (mem t) (slot GDT_BASE 5) (desc_bytes 0xF0000 0xFFFF 0x9A False)"
    by (rule bytes_keep [OF pre(2) tail l1]) (use gdt_slot_unat [of 5] in \<open>auto simp: area_def\<close>)
  show "bytes_at E (mem t) (slot GDT_BASE 7) (desc_bytes PM_SHIM_BASE (PM_SHIM_TOTAL - 1) 0x9A False)"
    by (rule bytes_keep [OF pre(3) tail l1]) (use gdt_slot_unat [of 7] in \<open>auto simp: area_def\<close>)
  show all: "same_outside E kernel_area m (mem t)"
    by (rule same_outside_mono [OF same_outside_join [OF pre(1) tail]]) (auto simp: area_def kernel_area_def)
  show "bytes_at E (mem t) (CALLBACK_PhysPointer cb) (stub_bytes cb ty)" by (rule keep_stub [OF all order.refl])
  assume b: "bits32" "v \<noteq> 0x21" "v \<noteq> 0x31"
  show "bytes_at E (mem t) (PM_SHIM_BASE + of_nat (v * PM_SHIM_SLOT_BYTES)) (shim_bytes v cb 0)"
    by (rule bytes_keep [OF r(2) [OF b] s26 l2]) (use assms(4) shim_unat [OF assms(4)] in \<open>auto simp: area_def simp del: of_nat_mult\<close>)
qed

end

text \<open>A CPU that enters the shim of \<open>v\<close> past the code that drops the error code is at the native opcode of \<open>cb\<close>.\<close>

lemma shim_number:
  assumes "bytes_at E m (PM_SHIM_BASE + of_nat (v * PM_SHIM_SLOT_BYTES)) (shim_bytes v cb 0)" and "\<not> paging_enabled C m"
    and "seg_cache_base E m CS + get_ip C m = PM_SHIM_BASE + of_nat (v * PM_SHIM_SLOT_BYTES) + (if has_err v then 4 else 0)"
  shows "callback_number E C m = Some (unat cb)"
  using assms
  by (intro bytes_at_number [where a = "PM_SHIM_BASE + of_nat (v * PM_SHIM_SLOT_BYTES)" and i = "if has_err v then 4 else 0" and bs = "shim_bytes v cb 0"])
    (simp_all add: shim_bytes_def Let_def native_def PM_SHIM_SLOT_BYTES_def del: of_nat_mult)

section \<open>Properties\<close>


interpretation pc_pm: pm_engine pc pc_cpu id
  by unfold_locales (auto simp: pc_def pc_cpu_def same_outside_def mem_readb_def)

text \<open>Vector 1Ch at the stub of callback 5.\<close>

definition pm_bytes :: "u32 \<Rightarrow> u8" where
  "pm_bytes = (\<lambda>_. 0)(0x70 := 0xA0, 0x71 := 0x10, 0x73 := 0xF0, 0xF10A0 := 0xFE, 0xF10A1 := 0x38, 0xF10A2 := 5, 0xF10A4 := 0xCF)"

definition pm_start :: "pc_state dpmi_host" where
  "pm_start = dpmi.extend (arenas.extend (machine.extend (pc_start\<lparr>mem := pc_frame\<lparr>pc_bytes := pm_bytes\<rparr>\<rparr>)
       (arenas.fields False \<lparr>s_pm_busy = [], s_pm_initialised = False, s_pm_end = 0\<rparr>))
     (dpmi.fields (replicate 32 0) (\<lambda>_. 0) 0 (replicate 32 \<lparr>exc_sel = 0, exc_off = 0\<rparr>) (replicate 32 0) [] 0 True))
     (dpmi_host.fields 0 0 0x10 0x20 0x30 0x40 0x50 0x60 0x70 0x80 0x90 0xA0)"

lemma pm_start_mem: "MEM_A20_Enable pc True (mem pm_start) = pc_frame\<lparr>pc_bytes := pm_bytes\<rparr>"
  by (simp add: pm_start_def machine.defs arenas.defs dpmi.defs dpmi_host.defs MEM_A20_Enable_def pc_def)


section \<open>The stack of a ring-3 client\<close>

text \<open>Consecutive dwords.\<close>

fun writeds :: "'m emu88 \<Rightarrow> u32 \<Rightarrow> u32 list \<Rightarrow> 'm \<Rightarrow> 'm" where
  "writeds E a [] m = m"
| "writeds E a (d # ds) m = writeds E (a + 4) ds (mem_writed E a d m)"

text \<open>The IRETD frame never holds the client's stack pointer: \<open>client_sp\<close> is read after \<open>reg_esp\<close> was set to the host's scratch
  stack, so every client enters ring 3 with ESP = 0FE0h.\<close>

context emu88_engine
begin

lemma writed_low:
  assumes "kernel_ram E m" and "unat a + 4 \<le> 0x110000"
  shows "same_outside E (area (unat a) 4) m (mem_writed E a d m)" and "mem_readd E (mem_writed E a d m) a = d"
proof -
  have ram: "is_ram E m (a + of_nat k) \<and> a + of_nat k \<in> area (unat a) 4" if "k < 4" for k
    using assms that unat_plus_of_nat [of a k] by (simp add: kernel_ram_def area_def)
  from ram [of 0] ram [of 1] ram [of 2] ram [of 3]
  show "mem_readd E (mem_writed E a d m) a = d" "same_outside E (area (unat a) 4) m (mem_writed E a d m)"
    by (auto simp: mem_simps same_outside_def)
qed

lemma readd_keep:
  assumes "same_outside E S m m'" and "kernel_ram E m" and "unat a + 4 \<le> 0x110000" and "S \<inter> area (unat a) 4 = {}"
  shows "mem_readd E m' a = mem_readd E m a"
proof (rule readd_same [OF assms(1)])
  fix k :: nat assume "k < 4"
  then have "unat (a + of_nat k) = unat a + k" using assms(3) by (intro unat_plus_of_nat) simp
  then show "is_ram E m (a + of_nat k) \<and> a + of_nat k \<notin> S" using assms(2-4) \<open>k < 4\<close> by (auto simp: kernel_ram_def area_def)
qed

lemma writeds_low:
  assumes "kernel_ram E m" and "unat a + 4 * length ds \<le> 0x110000"
  shows "same_outside E (area (unat a) (4 * length ds)) m (writeds E a ds m)
    \<and> (\<forall>i < length ds. mem_readd E (writeds E a ds m) (a + of_nat (4 * i)) = ds ! i)"
  using assms
proof (induction ds arbitrary: a m)
  case (Cons d ds)
  let ?m1 = "mem_writed E a d m"
  have a4: "unat (a + 4) = unat a + 4" using unat_plus_of_nat [of a 4] Cons.prems(2) by simp
  have w: "same_outside E (area (unat a) 4) m ?m1" "mem_readd E ?m1 a = d" using writed_low [OF Cons.prems(1)] Cons.prems(2) by simp_all
  have l1: "kernel_ram E ?m1" using kernel_ram_same [OF w(1)] Cons.prems(1) by simp
  have IH: "same_outside E (area (unat a + 4) (4 * length ds)) ?m1 (writeds E (a + 4) ds ?m1)"
      "\<forall>i < length ds. mem_readd E (writeds E (a + 4) ds ?m1) (a + 4 + of_nat (4 * i)) = ds ! i"
    using Cons.IH [OF l1, of "a + 4"] Cons.prems(2) by (simp_all add: a4)
  have "mem_readd E (writeds E (a + 4) ds ?m1) a = d"
    using readd_keep [OF IH(1) l1, of a] w(2) Cons.prems(2) by (simp add: area_disjoint)
  moreover have "same_outside E (area (unat a) (4 * length (d # ds))) m (writeds E a (d # ds) m)"
    unfolding writeds.simps by (rule same_outside_mono [OF same_outside_join [OF w(1) IH(1)]]) (auto simp: area_def)
  ultimately show ?case using IH(2) by (auto simp: less_Suc_eq_0_disj add.assoc)
qed simp

end

context pm_engine
begin

lemma stage_iretd_frame:
  fixes s :: "('m, 'z) machine_scheme" and ip :: u16
  defines "t \<equiv> stage_iretd E ip s" and "p \<equiv> PM_CB_STACK_BASE + 0xFE0"
  assumes "kernel_ram E (mem s)" and "seg_cache_base E (load_segment E (mem s) SS PM_CB_STACK) SS = PM_CB_STACK_BASE"
  shows "seg_phys t SS + reg_esp t = p" and "i < 5 \<Longrightarrow> mem_readd E (mem t) (p + of_nat (4 * i)) = [ucast ip, 0x0F, 0x3002, 0xFE0, 0x1F] ! i"
proof -
  define m0 where "m0 = load_segment E (load_segment E (load_segment E (mem s) SS PM_CB_STACK) DS 0x17) ES 0x27"
  have "same_outside E {} (mem s) m0" unfolding m0_def by (meson same_outside_trans segment_loads(1))
  from kernel_ram_same [OF this] have l: "kernel_ram E m0" using assms(3) by simp
  have mt: "mem t = writeds E p [ucast ip, 0x0F, 0x3002, 0xFE0, 0x1F] m0" and sp: "seg_phys t SS + reg_esp t = p"
    unfolding t_def stage_iretd_def Let_def p_def
    by (simp_all add: CPU_SetSegGeneral_def mirror_seg_def wr_def Let_def assms(4) m0_def PM_CB_STACK_SIZE_def reg_sp_def lo16_def add.assoc)
  show "seg_phys t SS + reg_esp t = p" by (rule sp)
  show "mem_readd E (mem t) (p + of_nat (4 * i)) = [ucast ip, 0x0F, 0x3002, 0xFE0, 0x1F] ! i" if "i < 5"
    using writeds_low [OF l, of p "[ucast ip, 0x0F, 0x3002, 0xFE0, 0x1F]"] that unfolding mt
    by (simp add: p_def PM_CB_STACK_BASE_def)
qed

end

end
