(* ===== verification/Int21.thy ===== *)
theory Int21
  imports Files Mcb
begin

text \<open>
  The remaining services of INT 21h in \<open>bridge.cc\<close> (interrupt vectors, date and time, country data, memory
  blocks, process exit) and the dispatcher \<open>dosiz_int21\<close>, which composes them with the console and file
  services. Loading and running a child (AH=4Bh after its checks) is an argument of the dispatcher.
\<close>

section \<open>Interrupt vectors\<close>

definition int21_25 :: "'m emu88 \<Rightarrow> ('m, 'h, 'z) dos_scheme \<Rightarrow> ('m, 'h, 'z) dos_scheme" where
  "int21_25 E s = (let
     ivt = ucast (reg_al s) * 4;
     m = mem s;
     m = mem_writeb E ivt (lo8 (reg_dx s)) m;
     m = mem_writeb E (ivt + 1) (hi8 (reg_dx s)) m;
     m = mem_writeb E (ivt + 2) (lo8 (seg_val s DS)) m;
     m = mem_writeb E (ivt + 3) (hi8 (seg_val s DS)) m
   in s\<lparr>mem := m\<rparr>)"

definition int21_35 :: "'m emu88 \<Rightarrow> ('m, 'h, 'z) dos_scheme \<Rightarrow> ('m, 'h, 'z) dos_scheme" where
  "int21_35 E s = (let
     ivt = ucast (reg_al s) * 4;
     off = mk16 (mem_readb E (mem s) ivt) (mem_readb E (mem s) (ivt + 1));
     sg = mk16 (mem_readb E (mem s) (ivt + 2)) (mem_readb E (mem s) (ivt + 3))
   in SegSet16 E ES sg (set_bx off s))"

section \<open>Small services\<close>

text \<open>AH=29h skips blanks; SI wraps, so a segment of blanks is scanned forever.\<close>

partial_function (option) skip_blanks :: "'m emu88 \<Rightarrow> 'm \<Rightarrow> u32 \<Rightarrow> u16 \<Rightarrow> u16 option" where
  "skip_blanks E m base si = (let c = mem_readb E m (base + ucast si) in
     if c \<noteq> 0x20 \<and> c \<noteq> 0x09 then Some si else skip_blanks E m base (si + 1))"

definition int21_29 :: "'m emu88 \<Rightarrow> ('m, 'h, 'z) dos_scheme \<Rightarrow> ('m, 'h, 'z) dos_scheme option" where
  "int21_29 E s = map_option (\<lambda>si. set_al 0xFF (set_si si s)) (skip_blanks E (mem s) (seg_phys s DS) (reg_si s))"

definition int21_33 :: "('m, 'h, 'z) dos_scheme \<Rightarrow> ('m, 'h, 'z) dos_scheme" where
  "int21_33 s = (if reg_al s = 0 then set_dl (ctrl_break_on s) s
     else if reg_al s = 1 then s\<lparr>ctrl_break_on := reg_dl s\<rparr> else s)"

definition int21_37 :: "('m, 'h, 'z) dos_scheme \<Rightarrow> ('m, 'h, 'z) dos_scheme" where
  "int21_37 s = (if reg_al s = 0 then set_al 0 (set_dl (switchar s) s)
     else if reg_al s = 1 then set_al 0 (s\<lparr>switchar := reg_dl s\<rparr>) else s)"

definition int21_51 :: "('m, 'h, 'z) dos_scheme \<Rightarrow> ('m, 'h, 'z) dos_scheme" where
  "int21_51 s = set_bx PSP_SEG s"

definition int21_30 :: "('m, 'h, 'z) dos_scheme \<Rightarrow> ('m, 'h, 'z) dos_scheme" where
  "int21_30 s = set_cx 0 (set_bl 0 (set_bh 0 (set_ah 22 (set_al 6 s))))"

definition int21_2A :: "'h os \<Rightarrow> ('m, 'h, 'z) dos_scheme \<Rightarrow> ('m, 'h, 'z) dos_scheme" where
  "int21_2A OS s = (let
     lt = host_localtime (os_view OS (host_st s)) (fst (os_time OS (host_st s)));
     s = set_al (of_nat (tm_wday lt)) s;
     s = set_cx (of_int (tm_year lt + 1900)) s;
     s = set_dh (of_nat (tm_mon lt + 1)) s
   in set_dl (of_nat (tm_mday lt)) s)"

definition int21_2C :: "'h os \<Rightarrow> ('m, 'h, 'z) dos_scheme \<Rightarrow> ('m, 'h, 'z) dos_scheme" where
  "int21_2C OS s = (let
     (sec, nsec) = os_time OS (host_st s);
     lt = host_localtime (os_view OS (host_st s)) sec;
     s = set_ch (of_nat (tm_hour lt)) s;
     s = set_cl (of_nat (tm_min lt)) s;
     s = set_dh (of_nat (tm_sec lt)) s
   in set_dl (of_nat (nsec div 10000000)) s)"

definition int21_58 :: "'m emu88 \<Rightarrow> ('m, 'h, 'z) dos_scheme \<Rightarrow> ('m, 'h, 'z) dos_scheme" where
  "int21_58 E s = (if reg_al s = 0 then set_cf E False (set_ax 0 s)
     else if reg_al s = 1 then set_cf E False s
     else if reg_al s = 2 then set_cf E False (set_al 0 s)
     else if reg_al s = 3 then set_cf E False s
     else return_error E 1 s)"

definition int21_66 :: "'m emu88 \<Rightarrow> ('m, 'h, 'z) dos_scheme \<Rightarrow> ('m, 'h, 'z) dos_scheme" where
  "int21_66 E s = set_cf E False (set_dx 437 (set_bx 437 s))"

definition int21_5E :: "'m emu88 \<Rightarrow> ('m, 'h, 'z) dos_scheme \<Rightarrow> ('m, 'h, 'z) dos_scheme" where
  "int21_5E E s = (if reg_al s = 0 then let
       buf = dos_arg_addr DS (ucast (reg_dx s)) (reg_edx s) s;
       s = wr (store_bytes E buf (map byte_of (''DOSIZ          '' @ [CHR 0x00]))) s
     in set_cf E False (set_ch 1 (set_cx 0 s))
     else return_error E 1 s)"

definition int21_FF :: "'m emu88 \<Rightarrow> ('m, 'h, 'z) dos_scheme \<Rightarrow> ('m, 'h, 'z) dos_scheme" where
  "int21_FF E s = (if reg_al s = 0 \<and> reg_dh s = 0 \<and> reg_dl s = 0x78
     then set_cf E False (s\<lparr>reg_eax := 0x4734FFFF\<rparr>) else return_error E 1 s)"

section \<open>Tables in low memory\<close>

definition int21_38 :: "'m emu88 \<Rightarrow> ('m, 'h, 'z) dos_scheme \<Rightarrow> ('m, 'h, 'z) dos_scheme" where
  "int21_38 E s = (if reg_al s \<noteq> 0 then return_error E 1 s
     else let
       buf = dos_arg_addr DS (ucast (reg_dx s)) (reg_edx s) s;
       m = store_bytes E buf (replicate 32 0) (mem s);
       m = mem_writew E buf 0 m;
       m = mem_writeb E (buf + 2) 0x24 m;
       m = mem_writeb E (buf + 7) 0x2C m;
       m = mem_writeb E (buf + 9) 0x2E m;
       m = mem_writeb E (buf + 11) 0x2F m;
       m = mem_writeb E (buf + 13) 0x3A m;
       m = mem_writeb E (buf + 15) 0 m;
       m = mem_writeb E (buf + 16) 2 m;
       m = mem_writeb E (buf + 17) 0 m
     in set_cf E False (set_bx 1 (s\<lparr>mem := m\<rparr>)))"

definition int21_52 :: "'m emu88 \<Rightarrow> ('m, 'h, 'z) dos_scheme \<Rightarrow> ('m, 'h, 'z) dos_scheme" where
  "int21_52 E s = (let
     s = (if lol_inited s then s
       else (wr (\<lambda>m. mem_writeb E 0x605 0xFF (mem_writeb E 0x604 0xFF (store_bytes E 0x600 (replicate 16 0) m))) s)
         \<lparr>lol_inited := True\<rparr>)
   in set_cf E False (set_bx 0 (SegSet16 E ES 0x60 s)))"

definition int21_63 :: "'m emu88 \<Rightarrow> ('m, 'h, 'z) dos_scheme \<Rightarrow> ('m, 'h, 'z) dos_scheme" where
  "int21_63 E s = (let
     s = wr (store_bytes E 0x900 [0, 0, 0, 0]) s;
     s = SegSet16 E DS 0x90 s
   in set_cf E False (set_al 0 (set_si 0 s)))"

definition install_nls :: "'m emu88 \<Rightarrow> ('m, 'h, 'z) dos_scheme \<Rightarrow> ('m, 'h, 'z) dos_scheme" where
  "install_nls E s = (if nls_installed s then s
     else let
       m = mem_writew E 0x700 128 (mem s);
       m = store_bytes E 0x702 (map of_nat [0x80 ..< 0x100]) m;
       m = mem_writew E 0x800 256 m;
       m = store_bytes E 0x802 (map of_nat [0 ..< 0x100]) m
     in s\<lparr>mem := m, nls_installed := True\<rparr>)"

definition far_ptr :: "u8 \<Rightarrow> u16 \<Rightarrow> u16 \<Rightarrow> u8 list" where
  "far_ptr ident sg off = [ident, lo8 off, hi8 off, lo8 sg, hi8 sg]"

text \<open>The filename character table of AX=6505h: ten bytes and the first thirteen of the illegal characters.\<close>

definition filename_table :: "u8 list" where
  "filename_table = [0x17, 0, 0, 0x21, 0xFF, 0, 0x80, 0x80, 0, 13] @
     map byte_of (take 13 [CHR ''.'', CHR 0x22, CHR ''/'', CHR 0x5C, CHR ''['', CHR '']'', CHR '':'', CHR ''|'',
       CHR ''<'', CHR ''>'', CHR ''+'', CHR ''='', CHR '';'', CHR '',''])"

definition country_info :: "u8 list" where
  "country_info = (replicate 41 0)[0 := 1, 1 := 41, 3 := 0xB5, 4 := 1, 5 := 1, 8 := 0x24, 14 := 0x2C, 16 := 0x2E,
     30 := 0x3A, 32 := 0x2F]"

definition int21_65 :: "'m emu88 \<Rightarrow> ('m, 'h, 'z) dos_scheme \<Rightarrow> ('m, 'h, 'z) dos_scheme" where
  "int21_65 E s = (let
     cx_in = unat (reg_cx s);
     dst = dos_arg_addr ES (ucast (reg_di s)) (reg_edi s) s;
     al = reg_al s;
     s = install_nls E s;
     s = (if al = 5 then wr (store_bytes E 0x610 filename_table) s else s);
     buf = (if al = 5 then far_ptr 5 0x60 0x10
       else if al = 2 \<or> al = 4 then far_ptr al 0x70 0
       else if al = 6 then far_ptr 6 0x80 0
       else if al = 7 then [7, 0, 0, 0, 0]
       else country_info);
     n = min cx_in (length buf)
   in set_cf E False (set_cx (of_nat n) (wr (store_bytes E dst (take n buf)) s)))"

section \<open>Memory blocks and processes\<close>

definition int21_48 :: "'m emu88 \<Rightarrow> ('m, 'h, 'z) dos_scheme \<Rightarrow> ('m, 'h, 'z) dos_scheme option" where
  "int21_48 E s = (case mcb_allocate E (reg_bx s) (s_mcb_initialised s, mem s) of
     None \<Rightarrow> None
   | Some ((sg, largest), (ini, m)) \<Rightarrow> let s = s\<lparr>mem := m, s_mcb_initialised := ini\<rparr> in
       Some (if sg = 0 then set_cf E True (set_bx largest (set_ax 8 s)) else set_cf E False (set_ax sg s)))"

definition int21_49 :: "'m emu88 \<Rightarrow> ('m, 'h, 'z) dos_scheme \<Rightarrow> ('m, 'h, 'z) dos_scheme" where
  "int21_49 E s = (case mcb_free E (seg_val s ES) (s_mcb_initialised s, mem s) of
     (ok, m) \<Rightarrow> if ok then set_cf E False (s\<lparr>mem := m\<rparr>) else return_error E 9 (s\<lparr>mem := m\<rparr>))"

definition int21_4A :: "'m emu88 \<Rightarrow> ('m, 'h, 'z) dos_scheme \<Rightarrow> ('m, 'h, 'z) dos_scheme" where
  "int21_4A E s = (if seg_val s ES = PSP_SEG
     then set_cf E False (wr (mem_writew E (seg_lin (PSP_SEG - 1) + 3) (reg_bx s)) s)
     else if seg_val s ES < MCB_ARENA_START then set_cf E False s
     else case mcb_resize E (seg_val s ES) (reg_bx s) (s_mcb_initialised s, mem s) of
       ((got, largest), m) \<Rightarrow> let s = s\<lparr>mem := m\<rparr> in
         if got = reg_bx s then set_cf E False s
         else set_cf E True (set_bx largest (set_ax 8 s)))"

definition int21_4C :: "('m, 'h, 'z) dos_scheme \<Rightarrow> ('m, 'h, 'z) dos_scheme" where
  "int21_4C s = (case s_process_stack s of
     p # ps \<Rightarrow> s\<lparr>s_process_stack := p\<lparr>child_exit_code := ucast (reg_al s)\<rparr> # ps, s_child_exit_pending := True\<rparr>
   | [] \<Rightarrow> s\<lparr>s_exit_code := uint (reg_al s), shutdown_requested := True\<rparr>)"

definition int21_4D :: "'m emu88 \<Rightarrow> ('m, 'h, 'z) dos_scheme \<Rightarrow> ('m, 'h, 'z) dos_scheme" where
  "int21_4D E s = set_cf E False (set_ax (s_last_child_exit s) s)"

text \<open>AH=4Bh up to loading: \<open>exec\<close> loads and runs the program with the given host path.\<close>

definition int21_4B ::
  "'m emu88 \<Rightarrow> 'h os \<Rightarrow> (string \<Rightarrow> ('m, 'h, 'z) dos_scheme \<Rightarrow> ('m, 'h, 'z) dos_scheme option) \<Rightarrow>
    ('m, 'h, 'z) dos_scheme \<Rightarrow> ('m, 'h, 'z) dos_scheme option" where
  "int21_4B E OS exec s = (if reg_al s = 5 then Some (set_ax 0 (set_cf E False s))
     else if reg_al s \<notin> {0, 1, 3} then Some (return_error E 1 s)
     else let host_path = fst (resolve OS s (ds_dx_path E s)) in
       if \<not> os_access OS host_path (host_st s) then Some (return_error E 2 s)
       else exec host_path s)"

section \<open>The dispatcher\<close>

text \<open>The result says whether the handler returned CBRET_STOP; None when a loop of the handler does not end.\<close>

definition dosiz_int21 ::
  "'m emu88 \<Rightarrow> 'h os \<Rightarrow> (string \<Rightarrow> ('m, 'h, 'z) dos_scheme \<Rightarrow> ('m, 'h, 'z) dos_scheme option) \<Rightarrow>
    ('m, 'h, 'z) dos_scheme \<Rightarrow> (bool \<times> ('m, 'h, 'z) dos_scheme) option" where
  "dosiz_int21 E OS exec s = (let ah = reg_ah s; ret = (\<lambda>s. Some (False, s)); may = map_option (Pair False) in
     if ah = 0x01 then ret (int21_01 E OS s)
     else if ah = 0x07 \<or> ah = 0x08 then ret (int21_07 E OS s)
     else if ah = 0x0B then ret (int21_0B E OS s)
     else if ah = 0x02 then ret (int21_02 E OS s)
     else if ah = 0x06 then ret (int21_06 E OS s)
     else if ah = 0x0A then ret (int21_0A E OS s)
     else if ah = 0x09 then may (int21_09 E OS s)
     else if ah = 0x3C then ret (int21_3C E OS s)
     else if ah = 0x3D then ret (int21_3D E OS s)
     else if ah = 0x3E then ret (int21_3E E OS s)
     else if ah = 0x3F then ret (int21_3F E OS s)
     else if ah = 0x40 then ret (int21_40 E OS s)
     else if ah = 0x42 then ret (int21_42 E OS s)
     else if ah = 0x1A then ret (int21_1A s)
     else if ah = 0x4E then ret (int21_4E E OS s)
     else if ah = 0x4F then ret (int21_4F E OS s)
     else if ah = 0x0E then ret (int21_0E s)
     else if ah = 0x19 then ret (int21_19 s)
     else if ah = 0x25 then ret (int21_25 E s)
     else if ah = 0x29 then may (int21_29 E s)
     else if ah = 0x33 then ret (int21_33 s)
     else if ah = 0x36 then ret (int21_36 s)
     else if ah = 0x37 then ret (int21_37 s)
     else if ah = 0x50 then ret s
     else if ah = 0x51 \<or> ah = 0x62 then ret (int21_51 s)
     else if ah = 0x5D then ret (return_error E 1 s)
     else if ah = 0x60 then ret (int21_60 E s)
     else if ah = 0x65 then ret (int21_65 E s)
     else if ah = 0x63 then ret (int21_63 E s)
     else if ah = 0x2A then ret (int21_2A OS s)
     else if ah = 0x2C then ret (int21_2C OS s)
     else if ah = 0x56 then ret (int21_56 E OS s)
     else if ah = 0x57 then ret (int21_57 E OS s)
     else if ah = 0x30 then ret (int21_30 s)
     else if ah = 0x35 then ret (int21_35 E s)
     else if ah = 0x39 then ret (int21_39 E OS s)
     else if ah = 0x3A then ret (int21_3A E OS s)
     else if ah = 0x41 then ret (int21_41 E OS s)
     else if ah = 0x3B then ret (int21_3B E OS s)
     else if ah = 0x38 then ret (int21_38 E s)
     else if ah = 0x43 then ret (int21_43 E OS s)
     else if ah = 0x44 then ret (int21_44 E OS s)
     else if ah = 0x45 then ret (int21_45 E OS s)
     else if ah = 0x46 then ret (int21_46 E OS s)
     else if ah = 0x47 then ret (int21_47 E s)
     else if ah = 0x48 then may (int21_48 E s)
     else if ah = 0x49 then ret (int21_49 E s)
     else if ah = 0x4A then ret (int21_4A E s)
     else if ah = 0x4C then Some (True, int21_4C s)
     else if ah = 0x4B then may (int21_4B E OS exec s)
     else if ah = 0x4D then ret (int21_4D E s)
     else if ah = 0x6C then ret (int21_6C E OS s)
     else if ah = 0x66 then ret (int21_66 E s)
     else if ah = 0x68 then ret (set_cf E False s)
     else if ah = 0x52 then ret (int21_52 E s)
     else if ah = 0xFF then ret (int21_FF E s)
     else if ah = 0x58 then ret (int21_58 E s)
     else if ah = 0x5E then ret (int21_5E E s)
     else if ah = 0x71 then ret (int21_71 E s)
     else ret (return_error E 1 s))"

text \<open>Entered through the 32-bit gate.\<close>

definition dosiz_int21_bits32 ::
  "'m emu88 \<Rightarrow> 'h os \<Rightarrow> (string \<Rightarrow> ('m, 'h, 'z) dos_scheme \<Rightarrow> ('m, 'h, 'z) dos_scheme option) \<Rightarrow>
    ('m, 'h, 'z) dos_scheme \<Rightarrow> (bool \<times> ('m, 'h, 'z) dos_scheme) option" where
  "dosiz_int21_bits32 E OS exec s = map_option (map_prod id (\<lambda>t. t\<lparr>s_int_gate_bits32 := s_int_gate_bits32 s\<rparr>))
     (dosiz_int21 E OS exec (s\<lparr>s_int_gate_bits32 := True\<rparr>))"

section \<open>Descriptors over any run of services\<close>

lemma misc_quiet:
  "quiet fds s (int21_25 E s)" "quiet fds s (int21_33 s)" "quiet fds s (int21_37 s)" "quiet fds s (int21_51 s)"
  "quiet fds s (int21_65 E s)" "quiet fds s (int21_63 E s)" "quiet fds s (int21_2A OS s)" "quiet fds s (int21_2C OS s)"
  "quiet fds s (int21_30 s)" "quiet fds s (int21_35 E s)" "quiet fds s (int21_38 E s)" "quiet fds s (int21_49 E s)"
  "quiet fds s (int21_4A E s)" "quiet fds s (int21_4C s)" "quiet fds s (int21_4D E s)" "quiet fds s (int21_66 E s)"
  "quiet fds s (int21_52 E s)" "quiet fds s (int21_FF E s)" "quiet fds s (int21_58 E s)" "quiet fds s (int21_5E E s)"
  by (auto simp: int21_25_def int21_33_def int21_37_def int21_51_def int21_65_def int21_63_def int21_2A_def int21_2C_def
      int21_30_def int21_35_def int21_38_def int21_49_def int21_4A_def int21_4C_def int21_4D_def int21_66_def int21_52_def
      int21_FF_def int21_58_def int21_5E_def install_nls_def Let_def quiet_def
      simp del: upt_rec_numeral split: prod.split list.split)

lemma partial_quiet:
  "fd_laws OS fds \<Longrightarrow> int21_09 E OS s = Some t \<Longrightarrow> quiet fds s t"
  "int21_29 E s = Some t \<Longrightarrow> quiet fds s t"
  "int21_48 E s = Some t \<Longrightarrow> quiet fds s t"
proof -
  assume laws: "fd_laws OS fds" and "int21_09 E OS s = Some t"
  then obtain u where u: "print_dollar E OS (seg_phys s DS) (reg_dx s) s = Some u" "t = sysu (os_fflush OS) u"
    by (auto simp: int21_09_def)
  have "quiet fds s u" using print_dollar_quiet [OF u(1)] laws by blast
  then show "quiet fds s t" using laws by (simp add: u(2) quiet_def fd_laws_def)
qed (auto simp: int21_29_def int21_48_def Let_def quiet_def split: option.splits if_splits)

lemma int21_call_ok:
  assumes laws: "fd_laws OS fds" and ok: "fd_ok fds base s" and call: "dosiz_int21 E OS exec s = Some (b, t)"
    and no_exec: "reg_ah s \<noteq> 0x4B" and no_std: "\<not> (reg_ah s = 0x46 \<and> reg_cx s \<le> 4)"
  shows "fd_ok fds base t"
proof -
  note q = console_quiet [OF laws, THEN quiet_ok, OF ok] int21_0A_quiet [OF laws, THEN quiet_ok, OF ok]
    int21_3F_quiet [OF laws, THEN quiet_ok, OF ok] int21_40_quiet [OF laws, THEN quiet_ok, OF ok]
    find_quiet [THEN quiet_ok, OF ok] directory_quiet [OF laws, THEN quiet_ok, OF ok] misc_quiet [THEN quiet_ok, OF ok]
    int21_3C_ok [OF laws ok] int21_3D_ok [OF laws ok] int21_3E_ok [OF laws ok] int21_42_ok [OF laws ok]
    int21_45_ok [OF laws ok] int21_6C_ok [OF laws ok]
  note p = partial_quiet(1) [OF laws, THEN quiet_ok, OF _ ok] partial_quiet(2,3) [THEN quiet_ok, OF _ ok]
    int21_46_ok [OF laws ok]
  show ?thesis
    using call no_exec no_std ok unfolding dosiz_int21_def Let_def
    by (auto simp: q p split: if_splits)
qed

text \<open>AH=4Bh either answers itself or returns what the execution of the program returns.\<close>

lemma int21_4B_cases:
  assumes "int21_4B E OS exec s = Some t"
  shows "(s_handles t = s_handles s \<and> host_st t = host_st s) \<or> (\<exists>p. exec p s = Some t)"
  using assms by (auto simp: int21_4B_def Let_def split: if_splits)

text \<open>
  States a guest can bring DOS into with calls whose AH and CX are in \<open>K\<close>: between two calls it changes everything but the handle table and the
  host as it likes. A program it starts (AH=4Bh) makes calls of its own, from the state of that call on.
\<close>

inductive dos_reach ::
  "'m emu88 \<Rightarrow> 'h os \<Rightarrow> (u8 \<times> u16) set \<Rightarrow> ('m, 'h, 'z) dos_scheme \<Rightarrow> ('m, 'h, 'z) dos_scheme \<Rightarrow> bool"
  for E OS K where
  start: "dos_reach E OS K s s"
| guest: "\<lbrakk>dos_reach E OS K s0 s; s_handles t = s_handles s; host_st t = host_st s\<rbrakk> \<Longrightarrow> dos_reach E OS K s0 t"
| call: "\<lbrakk>dos_reach E OS K s0 s; (reg_ah s, reg_cx s) \<in> K; \<forall>p u. exec p s = Some u \<longrightarrow> dos_reach E OS K s u;
    dosiz_int21 E OS exec s = Some (b, t)\<rbrakk> \<Longrightarrow> dos_reach E OS K s0 t"

lemma u16_upto_4: "(c :: u16) \<le> 4 \<Longrightarrow> c \<in> {0, 1, 2, 3, 4}"
proof -
  assume "c \<le> 4"
  then have "unat c \<in> {0, 1, 2, 3, 4}" by (auto simp: word_le_nat_alt)
  then show ?thesis by (auto simp: word_unat_eq_iff)
qed

text \<open>The standard handles 3 and 4 among the targets of AH=46h: the host does not have them open of its own.\<close>

definition aux_targets :: "(u8 \<times> u16) set \<Rightarrow> int set" where
  "aux_targets K = {uint c | c. (0x46, c) \<in> K \<and> c \<in> {3, 4}}"

text \<open>C21: No descriptor of the host is lost or shared. Under the POSIX rules for descriptors, in every state
  a guest and the programs it starts reach with INT 21h calls, the descriptors in the handle table are pairwise different, none of
  them is one of the host's own, and together with the host's own they are exactly the open ones: every
  error path of create, open and duplicate closes what it opened, and a close gives the descriptor back. This includes redirecting standard
  input, output and error with AH=46h, which reuses the host's descriptor. Only redirecting the standard handles 3 and 4 opens a descriptor that no handle
  owns, under that number: these at most two are the set \<open>L\<close>.\<close>

theorem int21_no_descriptor_leak:
  assumes "fd_laws OS fds" and "{0, 1, 2} \<subseteq> base" and "fd_ok fds base s0" and "dos_reach E OS K s0 s"
  shows "\<exists>L \<subseteq> aux_targets K. distinct (table_fds (s_handles s)) \<and> set (table_fds (s_handles s)) \<inter> (base \<union> L) = {}
    \<and> fds (host_st s) = base \<union> L \<union> set (table_fds (s_handles s))"
proof -
  have "\<exists>L \<subseteq> aux_targets K. fd_ok fds (base \<union> L) s"
    using assms(4,2,3)
  proof (induction arbitrary: base)
    case (start s)
    then show ?case by (intro exI [of _ "{}"]) simp
  next
    case (guest s0 s t)
    then show ?case by (simp add: fd_ok_def)
  next
    case (call s0 s exec b t)
    from call.IH(1) [OF call.prems] obtain L where L: "L \<subseteq> aux_targets K" "fd_ok fds (base \<union> L) s" by (elim exE conjE)
    have base: "{0, 1, 2} \<subseteq> base \<union> L" using call.prems(1) by blast
    consider (exec) "reg_ah s = 0x4B" | (std) "reg_ah s = 0x46" "reg_cx s \<le> 4" | (other) "reg_ah s \<noteq> 0x4B" "\<not> (reg_ah s = 0x46 \<and> reg_cx s \<le> 4)"
      by blast
    then show ?case
    proof cases
      case exec
      then have "int21_4B E OS exec s = Some t" using call.hyps(3) by (simp add: dosiz_int21_def Let_def)
      then consider (own) "s_handles t = s_handles s" "host_st t = host_st s" | (run) p where "exec p s = Some t"
        using int21_4B_cases by blast
      then show ?thesis
      proof cases
        case own
        then show ?thesis using L by (intro exI [of _ L]) (simp add: fd_ok_def)
      next
        case run
        from call.IH(2) [rule_format, OF this] base L(2) obtain L' where "L' \<subseteq> aux_targets K" "fd_ok fds (base \<union> L \<union> L') t" by metis
        then show ?thesis using L(1) by (intro exI [of _ "L \<union> L'"]) (simp add: Un_assoc)
      qed
    next
      case std
      then have t: "t = int21_46 E OS s" using call.hyps(3) by (simp add: dosiz_int21_def)
      have cx: "uint (reg_cx s) \<in> {0, 1, 2} \<or> uint (reg_cx s) \<in> aux_targets K"
      proof -
        have "reg_cx s \<in> {0, 1, 2, 3, 4}" using u16_upto_4 [OF std(2)] .
        then show ?thesis using call.hyps(2) std(1) by (auto simp: aux_targets_def)
      qed
      from int21_46_std [OF assms(1) L(2) std(2), of E, folded t] show ?thesis
      proof
        assume "fd_ok fds (base \<union> L) t"
        then show ?thesis using L(1) by blast
      next
        assume own: "fd_ok fds (insert (uint (reg_cx s)) (base \<union> L)) t"
        from cx show ?thesis
        proof
          assume "uint (reg_cx s) \<in> {0, 1, 2}"
          then have "insert (uint (reg_cx s)) (base \<union> L) = base \<union> L" using call.prems(1) by blast
          then show ?thesis using own L(1) by auto
        next
          assume "uint (reg_cx s) \<in> aux_targets K"
          then show ?thesis using own L(1) by (intro exI [of _ "insert (uint (reg_cx s)) L"]) simp
        qed
      qed
    next
      case other
      then show ?thesis using int21_call_ok [OF assms(1) L(2) call.hyps(3)] L(1) by blast
    qed
  qed
  then show ?thesis unfolding fd_ok_def by blast
qed

text \<open>A file is opened and standard output redirected to it.\<close>

theorem int21_no_descriptor_leak_witness:
  "\<exists>s. dos_reach flat sample_os {(0x3D, 0), (0x46, 1)} (sample_dos (\<lambda>_. 0)) s
    \<and> set (fst (host_st s)) = {0, 1, 2, 3} \<and> set (table_fds (s_handles s)) = {3}"
proof -
  let ?K = "{(0x3D, 0), (0x46, 1)} :: (u8 \<times> u16) set"
  let ?s0 = "sample_dos (\<lambda>_. 0)" and ?exec = "\<lambda>p s. None"
  let ?s1 = "?s0\<lparr>reg_eax := 0x3D00\<rparr>"
  define t where "t = int21_3D flat sample_os ?s1"
  define s2 where "s2 = t\<lparr>reg_eax := 0x4600, reg_ebx := 5, reg_ecx := 1\<rparr>"
  define t2 where "t2 = int21_46 flat sample_os s2"
  have ah: "reg_ah ?s1 = 0x3D" "reg_cx ?s1 = 0" "reg_ah s2 = 0x46" "reg_cx s2 = 1"
    by (simp_all add: s2_def reg_ah_def reg_ax_def reg_cx_def lo16_def hi8_def sample_dos_def)
  then have call1: "dosiz_int21 flat sample_os ?exec ?s1 = Some (False, t)" and call2: "dosiz_int21 flat sample_os ?exec s2 = Some (False, t2)"
    by (simp_all add: dosiz_int21_def t_def t2_def)
  have h: "host_st t = ([3, 0, 1, 2], [10, 20, 30])"
    by (simp add: t_def int21_3D_def Let_def sample_open sample_fstat zero_stat_file bind_handle_host [of _ 5] free_handle_empty
        split: prod.split)
  have "host_st t2 = host_st t"
    by (simp add: t2_def int21_46_def Let_def ah(4) sample_os_def split: option.split) (simp add: s2_def h)
  then have fds: "set (fst (host_st t2)) = {0, 1, 2, 3}" using h by auto
  have ok: "fd_ok (\<lambda>h. set (fst h)) {0, 1, 2} ?s0" by (auto simp: fd_ok_def sample_dos_def table_fds_def)
  have "dos_reach flat sample_os ?K ?s0 ?s1" by (rule guest [OF start]) simp_all
  then have "dos_reach flat sample_os ?K ?s0 t" by (rule call [OF _ _ _ call1]) (simp_all add: ah)
  then have "dos_reach flat sample_os ?K ?s0 s2" by (rule guest) (simp_all add: s2_def)
  then have reach: "dos_reach flat sample_os ?K ?s0 t2" by (rule call [OF _ _ _ call2]) (simp_all add: ah)
  have "aux_targets ?K = {}" by (auto simp: aux_targets_def)
  then have "{0, 1, 2, 3} = {0, 1, 2} \<union> set (table_fds (s_handles t2))" "set (table_fds (s_handles t2)) \<inter> {0, 1, 2} = {}"
    using int21_no_descriptor_leak [OF sample_fd_laws _ ok reach] fds by auto
  then have "set (table_fds (s_handles t2)) = {0, 1, 2, 3} - {0, 1, 2}" by blast
  then have "set (table_fds (s_handles t2)) = {3}" by auto
  then show ?thesis using reach fds by blast
qed

end
