(* ===== verification/Exec.thy ===== *)
theory Exec
  imports PmEntry Int21
begin

text \<open>
  Running a child process: AH=4Bh of INT 21h. The handler reserves memory, loads the image, builds the child's
  environment and PSP, saves the parent and the protected-mode state, enters the child in a nested run loop and, when
  the child has ended, puts everything back. The nested run is an argument (\<open>DOSBOX_RunMachine\<close> of \<open>Callbacks\<close>),
  as is the engine. Shown: when that run ends, whatever the child did, a real-mode parent gets its registers, segments, stack, descriptor
  tables, exception handlers, PSP and process stack back, with the child's exit code in AL; \<open>System\<close> instantiates the run.
\<close>

section \<open>The kernel's state\<close>

text \<open>The variables of the DOS services with those of the DPMI host; \<open>as_dpmi\<close> is the same machine with the latter.\<close>

type_synonym dpmi_statics = "unit dpmi_host_ext dpmi_ext"

record ('m, 'h) kernel = "('m, 'h) dos" +
  dpmi_vars :: dpmi_statics
  extender_flag :: bool

definition as_dpmi :: "('m, 'h, 'z) kernel_scheme \<Rightarrow> 'm dpmi_host" where
  "as_dpmi s = arenas.extend (arenas.truncate s) (dpmi_vars s)"

definition from_dpmi :: "'m dpmi_host \<Rightarrow> ('m, 'h, 'z) kernel_scheme \<Rightarrow> ('m, 'h, 'z) kernel_scheme" where
  "from_dpmi d s = (arenas.extend (arenas.truncate d) (arenas.more s))\<lparr>dpmi_vars := arenas.more d\<rparr>"

definition upd_dpmi :: "('m dpmi_host \<Rightarrow> 'm dpmi_host) \<Rightarrow> ('m, 'h, 'z) kernel_scheme \<Rightarrow> ('m, 'h, 'z) kernel_scheme" where
  "upd_dpmi f s = s\<lparr>dpmi_vars := arenas.more (f (as_dpmi s))\<rparr>"

section \<open>Memory for the child\<close>

definition CHILD_MAX_PARAS :: u16 where "CHILD_MAX_PARAS = 0x4000"
definition env_paras :: u16 where "env_paras = of_nat ((ENV_BYTES + 15) div 16)"

definition child_paras :: "u16 \<Rightarrow> u16 option" where
  "child_paras largest = (if largest \<le> env_paras + 0x20 then None else let want = largest - (env_paras + 0x20)
     in Some (if want > CHILD_MAX_PARAS then CHILD_MAX_PARAS else want))"

definition clear_bytes :: "'m emu88 \<Rightarrow> u32 \<Rightarrow> nat \<Rightarrow> 'm \<Rightarrow> 'm" where
  "clear_bytes E a n m = store_bytes E a (replicate n 0) m"

text \<open>\<open>mcb_free\<close> and \<open>mcb_allocate\<close> on the kernel's state; the outer None is a chain walk that does not end.\<close>

definition free_block :: "'m emu88 \<Rightarrow> u16 \<Rightarrow> ('m, 'z) arenas_scheme \<Rightarrow> ('m, 'z) arenas_scheme" where
  "free_block E sg s = s\<lparr>mem := snd (mcb_free E sg (s_mcb_initialised s, mem s))\<rparr>"

definition allocate_block :: "'m emu88 \<Rightarrow> u16 \<Rightarrow> ('m, 'z) arenas_scheme \<Rightarrow> (u16 \<times> ('m, 'z) arenas_scheme) option" where
  "allocate_block E need s = map_option (\<lambda>((sg, _), (ini, m)). (sg, s\<lparr>mem := m, s_mcb_initialised := ini\<rparr>))
     (mcb_allocate E need (s_mcb_initialised s, mem s))"

section \<open>Load without execute, overlays\<close>

definition child_psp_head :: "'m emu88 \<Rightarrow> u32 \<Rightarrow> 'm \<Rightarrow> 'm" where
  "child_psp_head E psp m = store_bytes E psp [0xCD, 0x20, 0x00, 0xA0] (clear_bytes E psp 256 m)"

definition load_only ::
  "'m emu88 \<Rightarrow> initial_regs \<Rightarrow> u16 \<Rightarrow> ('m, 'z) machine_scheme \<Rightarrow> ('m, 'z) machine_scheme" where
  "load_only E r child_psp s = (let
     psp = para child_psp;
     s = wr (child_psp_head E psp) s;
     s = wr (store_bytes E (psp + 0x2C) [lo8 ENV_SEG, hi8 ENV_SEG]) s;
     s = wr (store_bytes E (psp + 0x80) [0, 0x0D]) s;
     pb = seg_phys s ES + ucast (reg_bx s);
     s = wr (mem_writew E (pb + 0x0E) (ir_sp r)) s;
     s = wr (mem_writew E (pb + 0x10) (ir_ss r)) s;
     s = wr (mem_writew E (pb + 0x12) (ir_ip r)) s;
     s = wr (mem_writew E (pb + 0x14) (ir_cs r)) s
   in set_cf E False s)"

section \<open>Environment and PSP of the child\<close>

definition parent_env_seg :: "'m emu88 \<Rightarrow> u16 \<Rightarrow> 'm \<Rightarrow> u16" where
  "parent_env_seg E ds m = (if mem_readb E m (para ds) = 0xCD
     then (let e = mem_readw E m (para ds + 0x2C) in if e = 0 then ENV_SEG else e) else ENV_SEG)"

definition copy_bytes :: "'m emu88 \<Rightarrow> u32 \<Rightarrow> u32 \<Rightarrow> nat \<Rightarrow> 'm \<Rightarrow> 'm" where
  "copy_bytes E src dst n m = fold (\<lambda>i m. mem_writeb E (dst + of_nat i) (mem_readb E m (src + of_nat i)) m) [0 ..< n] m"

text \<open>The offset past the double NUL that ends the variables.\<close>

definition env_end :: "'m emu88 \<Rightarrow> u32 \<Rightarrow> 'm \<Rightarrow> nat" where
  "env_end E base m = (case find (\<lambda>i. mem_readb E m (base + of_nat i) = 0 \<and> mem_readb E m (base + of_nat i + 1) = 0) [0 ..< ENV_BYTES - 1] of
     Some i \<Rightarrow> i + 2 | None \<Rightarrow> ENV_BYTES - 1)"

definition child_argv0 :: "string \<Rightarrow> string" where
  "child_argv0 dos_path = (let
     p = upper (map (\<lambda>c. if c = CHR ''/'' then CHR 0x5C else c) dos_path)
   in if length p < 2 \<or> p ! 1 \<noteq> CHR '':''
      then ''C:'' @ [CHR 0x5C] @ (case p of c # cs \<Rightarrow> if c = CHR 0x5C then cs else p | [] \<Rightarrow> p) else p)"

definition put_argv0 :: "'m emu88 \<Rightarrow> u32 \<Rightarrow> string \<Rightarrow> 'm \<Rightarrow> 'm" where
  "put_argv0 E base argv0 m = (let
     i = env_end E base m;
     (i, m) = (if i + 2 \<le> ENV_BYTES then (i + 2, store_bytes E (base + of_nat i) [1, 0] m) else (i, m));
     n = min (length argv0) (ENV_BYTES - 1 - i);
     m = store_bytes E (base + of_nat i) (map byte_of (take n argv0)) m
   in if i + n < ENV_BYTES then mem_writeb E (base + of_nat (i + n)) 0 m else m)"

definition child_environment :: "'m emu88 \<Rightarrow> u16 \<Rightarrow> u16 \<Rightarrow> string \<Rightarrow> 'm \<Rightarrow> 'm" where
  "child_environment E ds child_env dos_path m = (let
     m = copy_bytes E (para (parent_env_seg E ds m)) (para child_env) ENV_BYTES m
   in put_argv0 E (para child_env) (child_argv0 dos_path) m)"

text \<open>The command tail comes from the far pointer at offset 2 of the parameter block \<open>pb\<close>.\<close>

definition copy_tail :: "'m emu88 \<Rightarrow> u32 \<Rightarrow> u32 \<Rightarrow> 'm \<Rightarrow> 'm" where
  "copy_tail E pb psp m = (let
     tail_base = para (mem_readw E m (pb + 4)) + ucast (mem_readw E m (pb + 2));
     tail_len = mem_readb E m tail_base;
     m = mem_writeb E (psp + 0x80) tail_len m;
     m = copy_bytes E (tail_base + 1) (psp + 0x81) (min (unat tail_len) 127) m
   in mem_writeb E (psp + 0x81 + ucast tail_len) 0x0D m)"

definition child_psp_block :: "'m emu88 \<Rightarrow> u16 \<Rightarrow> u16 \<Rightarrow> u32 \<Rightarrow> 'm \<Rightarrow> 'm" where
  "child_psp_block E child_psp child_env pb m = (let
     psp = para child_psp;
     m = child_psp_head E psp m;
     m = store_bytes E (psp + 0x18) (replicate 20 0xFF) m;
     m = store_bytes E (psp + 0x18) [0, 1, 2, 3, 4] m;
     m = store_bytes E (psp + 0x2C) [lo8 child_env, hi8 child_env] m;
     m = store_bytes E (psp + 0x32) [20, 0, 0x18, 0, lo8 child_psp, hi8 child_psp] m
   in copy_tail E pb psp m)"

section \<open>Saving and restoring the parent\<close>

definition read_bytes :: "'m emu88 \<Rightarrow> u32 \<Rightarrow> nat \<Rightarrow> 'm \<Rightarrow> u8 list" where
  "read_bytes E a n m = map (\<lambda>i. mem_readb E m (a + of_nat i)) [0 ..< n]"

definition process_of :: "u16 \<Rightarrow> u16 \<Rightarrow> ('m, 'z) machine_scheme \<Rightarrow> process_state" where
  "process_of child_psp child_env s = \<lparr>ps_seg = seg_val s, ps_eip = reg_eip s, ps_esp = reg_esp s, ps_ebp = reg_ebp s,
     ps_eax = reg_eax s, ps_ebx = reg_ebx s, ps_ecx = reg_ecx s, ps_edx = reg_edx s, ps_esi = reg_esi s, ps_edi = reg_edi s,
     ps_eflags = reg_flags s, child_data_seg = child_psp, child_env_seg = child_env, child_exit_code = 0\<rparr>"

record snapshot =
  sv_psp_seg :: u16
  sv_env_seg :: u16
  sv_ldt :: "u8 list"
  sv_ldt_in_use :: "u8 list"
  sv_pm_exc :: "exc_handler list"
  sv_cb_stack :: "u8 list"
  sv_idt_base :: u32
  sv_idt_limit :: u16
  sv_stack_big :: bool
  sv_cr0 :: u32

definition take_snapshot ::
  "'m emu88 \<Rightarrow> ('m, 'c) emu_cpu \<Rightarrow> ('m, 'h, 'z) kernel_scheme \<Rightarrow> snapshot" where
  "take_snapshot E C s = \<lparr>sv_psp_seg = s_current_psp_seg (as_dpmi s), sv_env_seg = s_current_env_seg (as_dpmi s),
     sv_ldt = read_bytes E LDT_BASE LDT_BYTES (mem s), sv_ldt_in_use = s_ldt_in_use (as_dpmi s), sv_pm_exc = s_pm_exc (as_dpmi s),
     sv_cb_stack = read_bytes E PM_CB_STACK_BASE (unat PM_CB_STACK_SIZE) (mem s),
     sv_idt_base = idtr_base C (mem s), sv_idt_limit = idtr_limit C (mem s), sv_stack_big = stack_big s, sv_cr0 = cpu_cr0 s\<rparr>"

definition enter_child ::
  "'m emu88 \<Rightarrow> ('m, 'c) emu_cpu \<Rightarrow> initial_regs \<Rightarrow> u16 \<Rightarrow> u32 \<Rightarrow> ('m, 'z) machine_scheme \<Rightarrow> ('m, 'z) machine_scheme" where
  "enter_child E C r child_psp cr0 s = (let
     s = SegSet16 E CS (ir_cs r) s;
     s = SegSet16 E DS child_psp s;
     s = SegSet16 E ES child_psp s;
     s = SegSet16 E SS (ir_ss r) s;
     s = s\<lparr>reg_eip := ucast (ir_ip r), reg_esp := ucast (ir_sp r), reg_eax := ucast (ir_ax r)\<rparr>
   in if bit cr0 0 then CPU_SET_CRX C 0 (cr0 AND NOT 1) s else s)"

definition restore_tables ::
  "'m emu88 \<Rightarrow> ('m, 'c) emu_cpu \<Rightarrow> snapshot \<Rightarrow> ('m, 'h, 'z) kernel_scheme \<Rightarrow> ('m, 'h, 'z) kernel_scheme" where
  "restore_tables E C v s = (let
     s = CPU_SET_CRX C 0 (sv_cr0 v) s;
     s = wr (store_bytes E LDT_BASE (sv_ldt v)) s;
     s = upd_dpmi (\<lambda>d. d\<lparr>s_ldt_in_use := sv_ldt_in_use v, s_pm_exc := sv_pm_exc v\<rparr>) s;
     s = wr (store_bytes E PM_CB_STACK_BASE (sv_cb_stack v)) s;
     s = s\<lparr>s_child_exit_pending := False\<rparr>
   in upd_dpmi (\<lambda>d. d\<lparr>s_current_psp_seg := sv_psp_seg v, s_current_env_seg := sv_env_seg v\<rparr>) s)"

definition restore_segments ::
  "'m emu88 \<Rightarrow> ('m, 'c) emu_cpu \<Rightarrow> snapshot \<Rightarrow> process_state \<Rightarrow> ('m, 'z) machine_scheme \<Rightarrow> ('m, 'z) machine_scheme" where
  "restore_segments E C v p s = (if bit (sv_cr0 v) 0
     then let
       s = fold (\<lambda>sg. CPU_SetSegGeneral E sg (ps_seg p sg)) [DS, SS, ES, FS, GS] s;
       base = (case gdt_GetDescriptor E (mem s) (ps_seg p CS) of Some d \<Rightarrow> desc_GetBase d | None \<Rightarrow> 0)
     in s\<lparr>seg_val := (seg_val s)(CS := ps_seg p CS), seg_phys := (seg_phys s)(CS := base)\<rparr>
     else let
       s = fold (\<lambda>sg. SegSet16 E sg (ps_seg p sg)) [CS, DS, SS, ES, FS, GS] s;
       s = s\<lparr>code_big := False, cpu_cpl := 0\<rparr>;
       s = wr (\<lambda>m. set_idtr_limit C (sv_idt_limit v) (set_idtr_base C (sv_idt_base v) m)) s
     in s\<lparr>stack_big := sv_stack_big v\<rparr>)"

definition restore_registers :: "process_state \<Rightarrow> ('m, 'z) machine_scheme \<Rightarrow> ('m, 'z) machine_scheme" where
  "restore_registers p s = s\<lparr>reg_eip := ps_eip p, reg_esp := ps_esp p, reg_ebp := ps_ebp p, reg_eax := ps_eax p, reg_ebx := ps_ebx p,
     reg_ecx := ps_ecx p, reg_edx := ps_edx p, reg_esi := ps_esi p, reg_edi := ps_edi p, reg_flags := ps_eflags p\<rparr>"

text \<open>The state in which the nested run begins: the parent is on the process stack, the child's PSP is current and the registers are
  those of the loaded image.\<close>

definition push_process :: "u16 \<Rightarrow> u16 \<Rightarrow> ('m, 'h, 'z) kernel_scheme \<Rightarrow> ('m, 'h, 'z) kernel_scheme" where
  "push_process child_psp child_env s = s\<lparr>s_process_stack := process_of child_psp child_env s # s_process_stack s\<rparr>"

definition child_start ::
  "'m emu88 \<Rightarrow> ('m, 'c) emu_cpu \<Rightarrow> initial_regs \<Rightarrow> u16 \<Rightarrow> u16 \<Rightarrow> ('m, 'h, 'z) kernel_scheme \<Rightarrow> ('m, 'h, 'z) kernel_scheme" where
  "child_start E C r child_psp child_env s = enter_child E C r child_psp (cpu_cr0 s)
     (upd_dpmi (\<lambda>d. d\<lparr>s_current_psp_seg := child_psp, s_current_env_seg := child_env\<rparr>) (push_process child_psp child_env s))"

text \<open>From the snapshot to the end of the handler. The process stack after the run has the child's entry on top, as its own exit
  left it; an empty stack would be undefined behaviour.\<close>

definition run_child ::
  "'m emu88 \<Rightarrow> ('m, 'c) emu_cpu \<Rightarrow> (('m, 'h, 'z) kernel_scheme \<Rightarrow> ('m, 'h, 'z) kernel_scheme option) \<Rightarrow> initial_regs \<Rightarrow> u16 \<Rightarrow> u16
     \<Rightarrow> ('m, 'h, 'z) kernel_scheme \<Rightarrow> ('m, 'h, 'z) kernel_scheme option" where
  "run_child E C run r child_psp child_env s = (let
     v = take_snapshot E C (push_process child_psp child_env s)
   in case run (child_start E C r child_psp child_env s) of
        None \<Rightarrow> None
      | Some s \<Rightarrow> let s = restore_tables E C v s in (case s_process_stack s of
            [] \<Rightarrow> None
          | p # ps \<Rightarrow> let
              s = s\<lparr>s_process_stack := ps\<rparr>;
              s = restore_registers p (restore_segments E C v p s);
              s = free_block E child_psp s;
              s = (if child_env_seg p \<noteq> 0 then free_block E (child_env_seg p) s else s);
              s = set_al (ucast (child_exit_code p)) (s\<lparr>s_last_child_exit := child_exit_code p\<rparr>)
            in Some (set_cf E False s)))"

section \<open>The handler\<close>

definition load_image ::
  "'m emu88 \<Rightarrow> (string \<Rightarrow> string option) \<Rightarrow> ('h \<Rightarrow> string \<Rightarrow> u8 list) \<Rightarrow> (bool \<Rightarrow> 'm dpmi_host \<Rightarrow> 'm dpmi_host) \<Rightarrow> string \<Rightarrow> u16
     \<Rightarrow> ('m, 'h, 'z) kernel_scheme \<Rightarrow> (initial_regs option \<times> ('m, 'h, 'z) kernel_scheme) option" where
  "load_image E env file prep path sg s = map_option
     (\<lambda>(r, bound, d). (r, (from_dpmi d s)\<lparr>extender_flag := extender_flag s \<or> bound\<rparr>))
     (load_program_at E env (file (host_st s)) prep path sg (as_dpmi s))"

definition exec_overlay where
  "exec_overlay E env file prep path s = (let
     load_seg = mem_readw E (mem s) (seg_phys s ES + ucast (reg_bx s))
   in map_option (\<lambda>(r, s). case r of None \<Rightarrow> return_error E 2 s | Some _ \<Rightarrow> set_cf E False s)
     (load_image E env file prep path load_seg s))"

definition exec_loaded ::
  "'m emu88 \<Rightarrow> ('m, 'c) emu_cpu \<Rightarrow> (('m, 'h, 'z) kernel_scheme \<Rightarrow> ('m, 'h, 'z) kernel_scheme option) \<Rightarrow> string \<Rightarrow> initial_regs \<Rightarrow> u16
     \<Rightarrow> ('m, 'h, 'z) kernel_scheme \<Rightarrow> ('m, 'h, 'z) kernel_scheme option" where
  "exec_loaded E C run dos_path r child_psp s = (if reg_al s = 1 then Some (load_only E r child_psp s)
     else case allocate_block E env_paras s of
       None \<Rightarrow> None
     | Some (child_env, s) \<Rightarrow> if child_env = 0 then Some (return_error E 8 (free_block E child_psp s))
         else let
           s = wr (child_environment E (seg_val s DS) child_env dos_path) s;
           s = wr (child_psp_block E child_psp child_env (seg_phys s ES + ucast (reg_bx s))) s
         in run_child E C run r child_psp child_env s)"

text \<open>\<open>exec\<close> of \<open>int21_4B\<close>: the path has been resolved and the file exists.\<close>

definition dos_exec ::
  "'m emu88 \<Rightarrow> ('m, 'c) emu_cpu \<Rightarrow> (string \<Rightarrow> string option) \<Rightarrow> ('h \<Rightarrow> string \<Rightarrow> u8 list) \<Rightarrow> (bool \<Rightarrow> 'm dpmi_host \<Rightarrow> 'm dpmi_host)
     \<Rightarrow> (('m, 'h, 'z) kernel_scheme \<Rightarrow> ('m, 'h, 'z) kernel_scheme option) \<Rightarrow> string
     \<Rightarrow> ('m, 'h, 'z) kernel_scheme \<Rightarrow> ('m, 'h, 'z) kernel_scheme option" where
  "dos_exec E C env file prep run host_path s = (if reg_al s = 3 then exec_overlay E env file prep host_path s
     else let
       dos_path = ds_dx_path E s;
       s = (if s_mcb_initialised s then s else s\<lparr>mem := mcb_init E (mem s), s_mcb_initialised := True\<rparr>)
     in case mcb_find_free E (mem s) 0xFFFF of None \<Rightarrow> None
     | Some (_, largest) \<Rightarrow> (case child_paras largest of
         None \<Rightarrow> Some (return_error E 8 s)
       | Some want \<Rightarrow> (case allocate_block E want s of
           None \<Rightarrow> None
         | Some (child_psp, s) \<Rightarrow> if child_psp = 0 then Some (return_error E 8 s)
             else let s = wr (clear_bytes E (para child_psp) (unat want * 16)) s in
               (case load_image E env file prep host_path child_psp s of
                  None \<Rightarrow> None
                | Some (None, s) \<Rightarrow> Some (return_error E 2 (free_block E child_psp s))
                | Some (Some r, s) \<Rightarrow> exec_loaded E C run dos_path r child_psp s))))"

section \<open>The two views of the state\<close>

lemma more_sel:
  fixes d d' :: "('m, 'z) dpmi_host_scheme"
  assumes "arenas.more d = arenas.more d'"
  shows "s_ldt_in_use d = s_ldt_in_use d'" "s_pm_exc d = s_pm_exc d'"
    "s_current_psp_seg d = s_current_psp_seg d'" "s_current_env_seg d = s_current_env_seg d'"
  using assms by (cases d; cases d'; simp)+

lemma more_as_dpmi [simp]: "arenas.more (as_dpmi s) = dpmi_vars s"
  by (simp add: as_dpmi_def arenas.defs)

lemmas as_dpmi_same = more_sel [of "as_dpmi t" "as_dpmi s" for t s, unfolded more_as_dpmi]

lemma as_dpmi_upd [simp]:
  "s_ldt_in_use (as_dpmi (upd_dpmi f s)) = s_ldt_in_use (f (as_dpmi s))" "s_pm_exc (as_dpmi (upd_dpmi f s)) = s_pm_exc (f (as_dpmi s))"
  "s_current_psp_seg (as_dpmi (upd_dpmi f s)) = s_current_psp_seg (f (as_dpmi s))"
  "s_current_env_seg (as_dpmi (upd_dpmi f s)) = s_current_env_seg (f (as_dpmi s))"
  by (rule more_sel, simp add: upd_dpmi_def)+

lemma as_dpmi_frame [simp]:
  "s_ldt_in_use (as_dpmi (wr f s)) = s_ldt_in_use (as_dpmi s)" "s_pm_exc (as_dpmi (wr f s)) = s_pm_exc (as_dpmi s)"
  "s_ldt_in_use (as_dpmi (s\<lparr>s_child_exit_pending := b\<rparr>)) = s_ldt_in_use (as_dpmi s)"
  "s_pm_exc (as_dpmi (s\<lparr>s_child_exit_pending := b\<rparr>)) = s_pm_exc (as_dpmi s)"
  by (rule as_dpmi_same, simp add: wr_def)+

lemma upd_dpmi_frame [simp]:
  "mem (upd_dpmi f s) = mem s" "s_process_stack (upd_dpmi f s) = s_process_stack s" "seg_val (upd_dpmi f s) = seg_val s"
  "cpu_cr0 (upd_dpmi f s) = cpu_cr0 s" "cpu_pmode (upd_dpmi f s) = cpu_pmode s" "s_mcb_initialised (upd_dpmi f s) = s_mcb_initialised s"
  by (simp_all add: upd_dpmi_def)

section \<open>Blocks and the kernel area\<close>

lemma read_bytes_at: "bytes_at E m a (read_bytes E a n m0) \<Longrightarrow> read_bytes E a n m = read_bytes E a n m0"
  by (simp add: bytes_at_def read_bytes_def)

lemma seg_lin_low: "unat (seg_lin sg) \<le> 0xFFFF0"
  using unat_u16_less [of sg] by (simp add: seg_lin_def unat_word_ariths unsigned_ucast_eq take_bit_nat_eq_self)

text \<open>The laws of real-mode segment loads and of the interrupt table register.\<close>

locale exec_engine = pm_engine E C keep_flags for E :: "'m emu88" and C :: "('m, 'c) emu_cpu" and keep_flags +
  assumes real_seg: "sregs E (load_segment_real E m sg w) = (sregs E m)(sg := w)"
      "seg_cache_base E (load_segment_real E m sg w) = (seg_cache_base E m)(sg := seg_lin w)"
    and idt: "idtr_base C (set_idtr_base C a m) = a" "idtr_limit C (set_idtr_limit C l m) = l" "idtr_base C (set_idtr_limit C l m) = idtr_base C m"
      "idtr_base C (store_mem E m b v) = idtr_base C m" "idtr_limit C (store_mem E m b v) = idtr_limit C m"
      "idtr_base C (store_mem16 E m b w) = idtr_base C m" "idtr_limit C (store_mem16 E m b w) = idtr_limit C m"
begin

lemma idt_writes [simp]: "idtr_base C (mem_writeb E b v m) = idtr_base C m" "idtr_limit C (mem_writeb E b v m) = idtr_limit C m"
    "idtr_base C (mem_writew E b w m) = idtr_base C m" "idtr_limit C (mem_writew E b w m) = idtr_limit C m"
  by (simp_all add: mem_writeb_def mem_writew_def idt)

lemma mcb_free_idt [simp]:
  "idtr_base C (snd (mcb_free E sg (ini, m))) = idtr_base C m" "idtr_limit C (snd (mcb_free E sg (ini, m))) = idtr_limit C m"
  by (simp_all add: mcb_free_def Let_def)

lemma writew_low:
  assumes "kernel_ram E m" and "unat a + 2 \<le> 0x100000"
  shows "same_outside E (area 0 0x100000) m (mem_writew E a w m)"
proof -
  have "unat (a + 1) = unat a + 1" using unat_plus_of_nat [of a 1] assms(2) by simp
  then show ?thesis using assms by (intro same_outside_writew) (simp_all add: kernel_ram_def area_def)
qed

lemma mcb_free_low:
  assumes "kernel_ram E m"
  shows "same_outside E (area 0 0x100000) m (snd (mcb_free E sg (ini, m)))"
proof -
  have lin: "unat (seg_lin x + of_nat k) = unat (seg_lin x) + k" if "k < 8" for x k
    using that seg_lin_low [of x] by (intro unat_plus_of_nat) simp
  have w: "same_outside E (area 0 0x100000) n (mem_writew E (seg_lin x + 1) v n)" "same_outside E (area 0 0x100000) n (mem_writew E (seg_lin x + 3) v n)"
    if "kernel_ram E n" for x v n using that lin [of 1 x] lin [of 3 x] seg_lin_low [of x] by (intro writew_low; simp)+
  have b: "same_outside E (area 0 0x100000) n (mem_writeb E (seg_lin x) v n)" if "kernel_ram E n" for x v n
    using that seg_lin_low [of x] by (intro same_outside_writeb) (simp_all add: kernel_ram_def area_def)
  note k = kernel_ram_same [OF w(1) [OF assms]]
  show ?thesis
    using same_outside_trans [OF same_outside_trans [OF w(1) [OF assms] w(2)] b] w(1) [OF assms] k kernel_ram_same [OF w(2)] assms
    by (simp add: mcb_free_def Let_def)
qed

end

lemma kernel_bytes_low:
  assumes "bytes_at E m a bs" and "same_outside E (area 0 0x100000) m m'" and "kernel_ram E m" and "0x100000 \<le> unat a"
    and "unat a + length bs \<le> 0x110000"
  shows "bytes_at E m' a bs"
proof (rule bytes_at_same [OF assms(2,1)])
  fix i assume i: "i < length bs"
  then have "unat (a + of_nat i) = unat a + i" using assms(5) by (intro unat_plus_of_nat) simp
  then show "is_ram E m (a + of_nat i) \<and> a + of_nat i \<notin> area 0 0x100000" using i assms(3-5) by (simp add: kernel_ram_def area_def)
qed

lemma kernel_more:
  fixes s t :: "('m, 'h, 'z) kernel_scheme"
  assumes "machine.more t = machine.more s"
  shows "s_process_stack t = s_process_stack s" "dpmi_vars t = dpmi_vars s" "s_child_exit_pending t = s_child_exit_pending s"
  using assms by (cases s; cases t; simp)+

lemma enter_child_more: "machine.more (enter_child E C r cpsp cr0 s) = machine.more s"
  by (simp add: enter_child_def Let_def SegSet16_def mirror_seg_def CPU_SET_CRX_def)

lemma free_block_frame [simp]:
  "s_process_stack (free_block E sg s) = s_process_stack s" "dpmi_vars (free_block E sg s) = dpmi_vars s"
  "s_child_exit_pending (free_block E sg s) = s_child_exit_pending s"
  for s :: "('m, 'h, 'z) kernel_scheme"
  by (simp_all add: free_block_def)

lemma free_block_machine [simp]:
  "seg_val (free_block E sg s) = seg_val s" "seg_phys (free_block E sg s) = seg_phys s" "stack_big (free_block E sg s) = stack_big s"
  "cpu_cr0 (free_block E sg s) = cpu_cr0 s" "cpu_pmode (free_block E sg s) = cpu_pmode s"
  "reg_eip (free_block E sg s) = reg_eip s" "reg_esp (free_block E sg s) = reg_esp s" "reg_ebp (free_block E sg s) = reg_ebp s"
  "reg_eax (free_block E sg s) = reg_eax s" "reg_ebx (free_block E sg s) = reg_ebx s" "reg_ecx (free_block E sg s) = reg_ecx s"
  "reg_edx (free_block E sg s) = reg_edx s" "reg_esi (free_block E sg s) = reg_esi s" "reg_edi (free_block E sg s) = reg_edi s"
  "reg_flags (free_block E sg s) = reg_flags s" "mem (free_block E sg s) = snd (mcb_free E sg (s_mcb_initialised s, mem s))"
  by (simp_all add: free_block_def)

context exec_engine
begin

lemma restore_tables_mem:
  fixes t :: "('m, 'h, 'z) kernel_scheme"
  assumes "kernel_ram E (mem t)" and "length (sv_ldt v) = LDT_BYTES" and "length (sv_cb_stack v) = 0x1000"
  defines "m \<equiv> mem (restore_tables E C v t)"
  shows "bytes_at E m LDT_BASE (sv_ldt v)" and "bytes_at E m PM_CB_STACK_BASE (sv_cb_stack v)" and "kernel_ram E m"
proof -
  define m0 where "m0 = set_cr C 0 (sv_cr0 v) (mem t)"
  have m: "m = store_bytes E PM_CB_STACK_BASE (sv_cb_stack v) (store_bytes E LDT_BASE (sv_ldt v) m0)"
    by (simp add: m_def restore_tables_def Let_def CPU_SET_CRX_def wr_def m0_def)
  have l0: "kernel_ram E m0" using kernel_ram_same [OF table_regs(7)] assms(1) by (simp add: m0_def)
  have a: "unat LDT_BASE = 0x104000" "unat PM_CB_STACK_BASE = 0x108000" by (simp_all add: LDT_BASE_def PM_CB_STACK_BASE_def)
  note s1 = store_low [OF l0, of LDT_BASE "sv_ldt v", unfolded a assms(2) LDT_BYTES_def, simplified]
  have l1: "kernel_ram E (store_bytes E LDT_BASE (sv_ldt v) m0)" using kernel_ram_same [OF s1(1)] l0 by simp
  note s2 = store_low [OF l1, of PM_CB_STACK_BASE "sv_cb_stack v", unfolded a assms(3), simplified]
  show "bytes_at E m PM_CB_STACK_BASE (sv_cb_stack v)" unfolding m by (rule s2(2))
  show "bytes_at E m LDT_BASE (sv_ldt v)" unfolding m
    by (rule bytes_keep [OF s1(2) s2(1) l1]) (auto simp: a assms(2) LDT_BYTES_def area_def)
  show "kernel_ram E m" unfolding m using kernel_ram_same [OF s2(1)] l1 by simp
qed

lemma set_segs_real:
  fixes s :: "('m, 'z) machine_scheme"
  shows "same_outside E {} (mem s) (mem (fold (\<lambda>sg. SegSet16 E sg (f sg)) sgs s))"
  "seg_val (fold (\<lambda>sg. SegSet16 E sg (f sg)) sgs s) sg = (if sg \<in> set sgs then f sg else seg_val s sg)"
  "seg_phys (fold (\<lambda>sg. SegSet16 E sg (f sg)) sgs s) sg = (if sg \<in> set sgs then seg_lin (f sg) else seg_phys s sg)"
  "machine.more (fold (\<lambda>sg. SegSet16 E sg (f sg)) sgs s) = machine.more s"
  "cpu_cr0 (fold (\<lambda>sg. SegSet16 E sg (f sg)) sgs s) = cpu_cr0 s"
  "cpu_pmode (fold (\<lambda>sg. SegSet16 E sg (f sg)) sgs s) = cpu_pmode s"
proof (induction sgs arbitrary: s)
  case (Cons x sgs)
  have st: "same_outside E {} (mem s) (mem (SegSet16 E x (f x) s))" "seg_val (SegSet16 E x (f x) s) = (seg_val s)(x := f x)"
      "seg_phys (SegSet16 E x (f x) s) = (seg_phys s)(x := seg_lin (f x))" "machine.more (SegSet16 E x (f x) s) = machine.more s"
      "cpu_cr0 (SegSet16 E x (f x) s) = cpu_cr0 s" "cpu_pmode (SegSet16 E x (f x) s) = cpu_pmode s" for s :: "('m, 'z) machine_scheme"
    by (simp_all add: SegSet16_def mirror_seg_def Let_def real_seg segment_loads(2))
  {
    case 1 show ?case unfolding fold_Cons comp_apply by (rule same_outside_trans [OF st(1) Cons(1)])
  next
    case 2 show ?case using Cons(2) [of "SegSet16 E x (f x) s"] by (simp add: st)
  next
    case 3 show ?case using Cons(3) [of "SegSet16 E x (f x) s"] by (simp add: st)
  next
    case 4 show ?case using Cons(4) [of "SegSet16 E x (f x) s"] by (simp add: st)
  next
    case 5 show ?case using Cons(5) [of "SegSet16 E x (f x) s"] by (simp add: st)
  next
    case 6 show ?case using Cons(6) [of "SegSet16 E x (f x) s"] by (simp add: st)
  }
qed simp_all

lemma restore_segments_real:
  fixes s :: "('m, 'z) machine_scheme" and p :: process_state
  assumes "\<not> bit (sv_cr0 v) 0"
  defines "t \<equiv> restore_segments E C v p s"
  shows "same_outside E {} (mem s) (mem t)" and "seg_val t = ps_seg p" and "seg_phys t = (\<lambda>sg. seg_lin (ps_seg p sg))"
    and "stack_big t = sv_stack_big v" and "idtr_base C (mem t) = sv_idt_base v" and "idtr_limit C (mem t) = sv_idt_limit v"
    and "machine.more t = machine.more s" and "cpu_cr0 t = cpu_cr0 s" and "cpu_pmode t = cpu_pmode s"
proof -
  let ?sgs = "[CS, DS, SS, ES, FS, GS]"
  let ?f = "fold (\<lambda>sg. SegSet16 E sg (ps_seg p sg)) ?sgs s"
  have all: "sg \<in> set ?sgs" for sg using seg.exhaust by (cases sg) auto
  have t: "t = ?f\<lparr>code_big := False, cpu_cpl := 0, mem := set_idtr_limit C (sv_idt_limit v) (set_idtr_base C (sv_idt_base v) (mem ?f)),
      stack_big := sv_stack_big v\<rparr>"
    using assms(1) by (simp add: t_def restore_segments_def Let_def wr_def del: fold.simps)
  note fs = set_segs_real [where f = "ps_seg p" and sgs = ?sgs and s = s]
  show "same_outside E {} (mem s) (mem t)"
    unfolding t using same_outside_trans [OF fs(1) same_outside_trans [OF table_regs(3) table_regs(4)]] by simp
  show "seg_val t = ps_seg p" unfolding t using fs(2) all by (simp add: fun_eq_iff del: fold.simps list.set)
  show "seg_phys t = (\<lambda>sg. seg_lin (ps_seg p sg))" unfolding t using fs(3) all by (simp add: fun_eq_iff del: fold.simps list.set)
  show "stack_big t = sv_stack_big v" "idtr_base C (mem t) = sv_idt_base v" "idtr_limit C (mem t) = sv_idt_limit v"
    unfolding t by (simp_all add: idt)
  show "machine.more t = machine.more s" "cpu_cr0 t = cpu_cr0 s" "cpu_pmode t = cpu_pmode s"
    unfolding t using fs(4-6) by (simp_all del: fold.simps)
qed

end

definition same_registers :: "('m, 'z) machine_scheme \<Rightarrow> ('m, 'z) machine_scheme \<Rightarrow> bool" where
  "same_registers s t \<longleftrightarrow> reg_eip t = reg_eip s \<and> reg_esp t = reg_esp s \<and> reg_ebp t = reg_ebp s \<and> reg_ebx t = reg_ebx s
     \<and> reg_ecx t = reg_ecx s \<and> reg_edx t = reg_edx s \<and> reg_esi t = reg_esi s \<and> reg_edi t = reg_edi s \<and> reg_flags t = reg_flags s
     \<and> seg_val t = seg_val s \<and> seg_phys t = seg_phys s \<and> stack_big t = stack_big s \<and> cpu_cr0 t = cpu_cr0 s \<and> cpu_pmode t = cpu_pmode s"

text \<open>The protected-mode state a child may overwrite.\<close>

definition same_tables :: "'m emu88 \<Rightarrow> ('m, 'c) emu_cpu \<Rightarrow> ('m, 'h, 'z) kernel_scheme \<Rightarrow> ('m, 'h, 'z) kernel_scheme \<Rightarrow> bool" where
  "same_tables E C s t \<longleftrightarrow> read_bytes E LDT_BASE LDT_BYTES (mem t) = read_bytes E LDT_BASE LDT_BYTES (mem s)
     \<and> read_bytes E PM_CB_STACK_BASE 0x1000 (mem t) = read_bytes E PM_CB_STACK_BASE 0x1000 (mem s)
     \<and> s_ldt_in_use (as_dpmi t) = s_ldt_in_use (as_dpmi s) \<and> s_pm_exc (as_dpmi t) = s_pm_exc (as_dpmi s)
     \<and> s_current_psp_seg (as_dpmi t) = s_current_psp_seg (as_dpmi s) \<and> s_current_env_seg (as_dpmi t) = s_current_env_seg (as_dpmi s)
     \<and> idtr_base C (mem t) = idtr_base C (mem s) \<and> idtr_limit C (mem t) = idtr_limit C (mem s)"

context exec_engine
begin

lemma run_child_restores:
  fixes s t :: "('m, 'h, 'z) kernel_scheme"
  assumes "run (child_start E C r cpsp cenv s) = Some w" and "kernel_ram E (mem w)"
    and "s_process_stack w = (process_of cpsp cenv s)\<lparr>child_exit_code := code\<rparr> # s_process_stack s"
    and "\<not> bit (cpu_cr0 s) 0" and "\<not> cpu_pmode s"
    and "seg_phys s = (\<lambda>sg. seg_lin (seg_val s sg))" and "unat (cf_addr s) + 2 \<le> 0x100000"
  shows "\<exists>t. run_child E C run r cpsp cenv s = Some t \<and> same_registers s t \<and> same_tables E C s t \<and> s_process_stack t = s_process_stack s
    \<and> s_last_child_exit t = code \<and> reg_al t = ucast code \<and> reg_ah t = reg_ah s \<and> \<not> s_child_exit_pending t"
proof -
  define v where "v = take_snapshot E C (push_process cpsp cenv s)"
  define p where "p = (process_of cpsp cenv s)\<lparr>child_exit_code := code\<rparr>"
  have p: "ps_seg p = seg_val s" "child_env_seg p = cenv" "child_exit_code p = code" by (simp_all add: p_def process_of_def)
  define t2 where "t2 = restore_tables E C v w"
  define t3 where "t3 = restore_segments E C v p (t2\<lparr>s_process_stack := s_process_stack s\<rparr>)"
  define t4 where "t4 = free_block E cpsp (restore_registers p t3)"
  define t5 where "t5 = (if cenv \<noteq> 0 then free_block E cenv t4 else t4)"
  define t6 where "t6 = set_al (ucast code) (t5\<lparr>s_last_child_exit := code\<rparr>)"
  define t where "t = set_cf E False t6"
  have st2: "s_process_stack t2 = p # s_process_stack s"
    by (simp add: t2_def restore_tables_def Let_def CPU_SET_CRX_def wr_def assms(3) p_def)
  have ret: "run_child E C run r cpsp cenv s = Some t"
    using assms(1) st2 [unfolded t2_def] unfolding run_child_def Let_def v_def [symmetric]
    by (cases "cenv = 0") (simp_all add: t_def t6_def t5_def t4_def t3_def t2_def p)
  have v: "sv_cr0 v = cpu_cr0 s" "sv_stack_big v = stack_big s" "sv_idt_base v = idtr_base C (mem s)" "sv_idt_limit v = idtr_limit C (mem s)"
      "sv_ldt v = read_bytes E LDT_BASE LDT_BYTES (mem s)" "sv_cb_stack v = read_bytes E PM_CB_STACK_BASE 0x1000 (mem s)"
    by (simp_all add: v_def take_snapshot_def push_process_def PM_CB_STACK_SIZE_def)
  have vd: "sv_ldt_in_use v = s_ldt_in_use (as_dpmi s)" "sv_pm_exc v = s_pm_exc (as_dpmi s)"
      "sv_psp_seg v = s_current_psp_seg (as_dpmi s)" "sv_env_seg v = s_current_env_seg (as_dpmi s)"
    using as_dpmi_same [of "push_process cpsp cenv s" s] by (simp_all add: v_def take_snapshot_def push_process_def)
  have len: "length (sv_ldt v) = LDT_BYTES" "length (sv_cb_stack v) = 0x1000" by (simp_all add: v read_bytes_def del: upt_rec_numeral)
  note m2 = restore_tables_mem [OF assms(2) len, folded t2_def]
  note r3 = restore_segments_real [where v = v and p = p and s = "t2\<lparr>s_process_stack := s_process_stack s\<rparr>", folded t3_def]
  have cr: "\<not> bit (sv_cr0 v) 0" using assms(4) v by simp
  have c2: "cpu_cr0 t2 = cpu_cr0 s" "\<not> cpu_pmode t2" using assms(4) by (simp_all add: t2_def restore_tables_def Let_def CPU_SET_CRX_def wr_def v)
  have m3: "same_outside E {} (mem t2) (mem t3)" using r3(1) [OF cr] by simp
  have k3: "kernel_ram E (mem t3)" using kernel_ram_same [OF m3] m2(3) by simp
  have m4: "same_outside E (area 0 0x100000) (mem t3) (mem t4)" using mcb_free_low [OF k3] by (simp add: t4_def restore_registers_def)
  have k4: "kernel_ram E (mem t4)" using kernel_ram_same [OF m4] k3 by simp
  have m5: "same_outside E (area 0 0x100000) (mem t4) (mem t5)" using mcb_free_low [OF k4] by (simp add: t5_def)
  have k5: "kernel_ram E (mem t5)" using kernel_ram_same [OF m5] k4 by simp
  have m6: "mem t6 = mem t5" by (simp add: t6_def set_al_def set_ax_def)
  have regs: "reg_eip t6 = reg_eip s" "reg_esp t6 = reg_esp s" "reg_ebp t6 = reg_ebp s" "reg_ebx t6 = reg_ebx s" "reg_ecx t6 = reg_ecx s"
    "reg_edx t6 = reg_edx s" "reg_esi t6 = reg_esi s" "reg_edi t6 = reg_edi s" "reg_flags t6 = reg_flags s"
    by (simp_all add: t6_def t5_def t4_def set_al_def set_ax_def restore_registers_def p_def process_of_def)
  have segs: "seg_val t6 = seg_val s" "seg_phys t6 = seg_phys s" "stack_big t6 = stack_big s" "cpu_cr0 t6 = cpu_cr0 s" "cpu_pmode t6 = cpu_pmode s"
    using r3(2-4,8,9) [OF cr] c2 assms(5,6) by (simp_all add: t6_def t5_def t4_def set_al_def set_ax_def restore_registers_def p v)
  have cf: "cf_addr t6 = cf_addr s" using segs regs assms(5) by (simp add: cf_addr_def reg_sp_def)
  have m7: "same_outside E (area 0 0x100000) (mem t6) (mem t)"
    unfolding t_def set_cf_def Let_def using writew_low [OF k5 assms(7)] by (simp add: m6 cf)
  have sr: "same_registers s t" unfolding same_registers_def t_def using regs segs by (simp add: set_cf_def Let_def)
  have low: "same_outside E (area 0 0x100000) (mem t3) (mem t)"
    using same_outside_trans [OF same_outside_trans [OF m4 m5]] m7 m6 by simp
  have keep: "bytes_at E (mem t) a bs" if "bytes_at E (mem t2) a bs" "0x100000 \<le> unat a" "unat a + length bs \<le> 0x110000" for a bs
    using kernel_bytes_low [OF bytes_keep [OF that(1) m3 m2(3) that(3)] low k3 that(2,3)] by simp
  have a: "unat LDT_BASE = 0x104000" "unat PM_CB_STACK_BASE = 0x108000" by (simp_all add: LDT_BASE_def PM_CB_STACK_BASE_def)
  have tabs: "read_bytes E LDT_BASE LDT_BYTES (mem t) = read_bytes E LDT_BASE LDT_BYTES (mem s)"
      "read_bytes E PM_CB_STACK_BASE 0x1000 (mem t) = read_bytes E PM_CB_STACK_BASE 0x1000 (mem s)"
    using keep [OF m2(1)] keep [OF m2(2)] len a unfolding v(5,6) by (auto intro!: read_bytes_at simp: LDT_BYTES_def)
  have more: "dpmi_vars t = dpmi_vars t2" "s_process_stack t = s_process_stack s" "s_child_exit_pending t = s_child_exit_pending t2"
    using kernel_more [OF r3(7) [OF cr]] by (simp_all add: t_def t6_def t5_def t4_def set_al_def set_ax_def restore_registers_def set_cf_def Let_def)
  have stat: "s_ldt_in_use (as_dpmi t2) = s_ldt_in_use (as_dpmi s)" "s_pm_exc (as_dpmi t2) = s_pm_exc (as_dpmi s)"
      "s_current_psp_seg (as_dpmi t2) = s_current_psp_seg (as_dpmi s)" "s_current_env_seg (as_dpmi t2) = s_current_env_seg (as_dpmi s)"
    by (simp_all add: t2_def restore_tables_def Let_def vd)
  have "idtr_base C (mem t) = idtr_base C (mem s)" "idtr_limit C (mem t) = idtr_limit C (mem s)"
    using r3(5,6) [OF cr] by (simp_all add: t_def t6_def t5_def t4_def set_al_def set_ax_def restore_registers_def set_cf_def Let_def v)
  then have st: "same_tables E C s t" unfolding same_tables_def using tabs stat as_dpmi_same [OF more(1)] by simp
  have "reg_eax t = mk32 (mk16 (ucast code) (hi8 (lo16 (reg_eax s)))) (hi16 (reg_eax s))" "s_last_child_exit t = code"
    by (simp_all add: t_def t6_def t5_def t4_def restore_registers_def p_def process_of_def set_al_def set_ax_def set_cf_def Let_def reg_ah_def reg_ax_def)
  then have "s_last_child_exit t = code \<and> reg_al t = ucast code \<and> reg_ah t = reg_ah s" by (simp add: reg_al_def reg_ah_def reg_ax_def)
  moreover have "\<not> s_child_exit_pending t" unfolding more t2_def by (simp add: restore_tables_def Let_def upd_dpmi_def)
  ultimately show ?thesis using ret sr st more(2) by blast
qed

end

section \<open>The handle table\<close>

text \<open>The handler itself leaves the handle table and the host alone: what a call of AH=4Bh does to them is what its child does. With
  this the rule for programs in \<open>dos_reach\<close> covers the handler.\<close>

definition same_files :: "('m, 'h, 'z) kernel_scheme \<Rightarrow> ('m, 'h, 'z) kernel_scheme \<Rightarrow> bool" where
  "same_files s t \<longleftrightarrow> s_handles t = s_handles s \<and> host_st t = host_st s"

lemma same_files_more: "machine.more t = machine.more s \<Longrightarrow> same_files s t"
  for s t :: "('m, 'h, 'z) kernel_scheme"
  by (cases s; cases t; simp add: same_files_def)

lemma same_files_from_dpmi: "same_files s (from_dpmi d s)"
  by (cases s) (simp add: same_files_def from_dpmi_def arenas.defs)

lemma same_files_allocate: "allocate_block E n s = Some (sg, t) \<Longrightarrow> same_files s t"
  by (auto simp: allocate_block_def same_files_def)

lemma same_files_image: "load_image E env file prep path sg s = Some (r, t) \<Longrightarrow> same_files s t"
  using same_files_from_dpmi [of s] by (auto simp: load_image_def same_files_def)

lemma restore_segments_more:
  fixes s :: "('m, 'z) machine_scheme" and E :: "'m emu88"
  shows "machine.more (restore_segments E C v p s) = machine.more s"
proof -
  have "machine.more (SegSet16 E sg w s) = machine.more s" "machine.more (CPU_SetSegGeneral E sg w s) = machine.more s"
    for sg w and s :: "('m, 'z) machine_scheme"
    by (simp_all add: SegSet16_def CPU_SetSegGeneral_def mirror_seg_def Let_def)
  then show ?thesis by (simp add: restore_segments_def Let_def wr_def)
qed

lemma load_only_more: "machine.more (load_only E r p s) = machine.more s"
  by (simp add: load_only_def Let_def wr_def set_cf_def)

lemma return_error_more: "machine.more (return_error E c s) = machine.more s"
  by (simp add: return_error_def set_cf_def set_ax_def Let_def)

lemma same_files_steps [simp]:
  fixes s t :: "('m, 'h, 'z) kernel_scheme"
  shows "same_files s s" "same_files s (upd_dpmi f t) = same_files s t" "same_files s (wr f0 t) = same_files s t"
    "same_files s (free_block E n t) = same_files s t" "same_files s (t\<lparr>s_process_stack := ps\<rparr>) = same_files s t"
    "same_files s (t\<lparr>s_child_exit_pending := b\<rparr>) = same_files s t" "same_files s (t\<lparr>s_last_child_exit := x\<rparr>) = same_files s t"
    "same_files s (set_al v t) = same_files s t" "same_files s (set_cf E b t) = same_files s t"
    "same_files s (restore_registers p t) = same_files s t" "same_files s (restore_segments E C sv p t) = same_files s t"
    "same_files s (enter_child E C r n cr0 t) = same_files s t" "same_files s (CPU_SET_CRX C k x32 t) = same_files s t"
    "same_files s (load_only E r n t) = same_files s t" "same_files s (return_error E x t) = same_files s t"
    "same_files s (t\<lparr>mem := m, s_mcb_initialised := b\<rparr>) = same_files s t"
proof -
  have more: "same_files s u = same_files s t" if "machine.more u = machine.more t" for u
    using that same_files_more [of u t] by (auto simp: same_files_def)
  show "same_files s (restore_segments E C sv p t) = same_files s t" "same_files s (enter_child E C r n cr0 t) = same_files s t"
    "same_files s (load_only E r n t) = same_files s t" "same_files s (return_error E x t) = same_files s t"
    by (rule more; simp add: restore_segments_more enter_child_more load_only_more return_error_more)+
qed (simp_all add: same_files_def upd_dpmi_def wr_def free_block_def set_al_def set_ax_def set_cf_def Let_def restore_registers_def CPU_SET_CRX_def)

lemma same_files_trans: "\<lbrakk>same_files s t; same_files t u\<rbrakk> \<Longrightarrow> same_files s u"
  by (simp add: same_files_def)

text \<open>\<open>through run s t\<close>: \<open>t\<close> has the files of \<open>s\<close>, or those a run left that began with the files of \<open>s\<close>.\<close>

definition through :: "(('m, 'h, 'z) kernel_scheme \<Rightarrow> ('m, 'h, 'z) kernel_scheme option) \<Rightarrow> ('m, 'h, 'z) kernel_scheme \<Rightarrow> ('m, 'h, 'z) kernel_scheme \<Rightarrow> bool" where
  "through run s t \<longleftrightarrow> same_files s t \<or> (\<exists>u w. same_files s u \<and> run u = Some w \<and> same_files w t)"

lemma through_from: "\<lbrakk>same_files s s'; through run s' t\<rbrakk> \<Longrightarrow> through run s t"
  unfolding through_def using same_files_trans by blast

lemma run_child_files:
  assumes "run_child E C run r cpsp cenv s = Some t"
  shows "through run s t"
proof -
  obtain w where w: "run (child_start E C r cpsp cenv s) = Some w" and t: "same_files w t"
    using assms by (auto simp: run_child_def Let_def restore_tables_def split: option.splits list.splits if_splits)
  have "same_files s (child_start E C r cpsp cenv s)" by (simp add: child_start_def push_process_def)
  then show ?thesis using w t by (auto simp: through_def)
qed

lemma exec_loaded_files:
  assumes "exec_loaded E C run path r cpsp s = Some t"
  shows "through run s t"
proof (cases "reg_al s = 1")
  case True
  then show ?thesis using assms by (auto simp: exec_loaded_def through_def)
next
  case False
  then obtain cenv s1 where a: "allocate_block E env_paras s = Some (cenv, s1)" using assms by (auto simp: exec_loaded_def split: option.splits)
  note s1 = same_files_allocate [OF a]
  show ?thesis
  proof (cases "cenv = 0")
    case True
    then show ?thesis using assms False a s1 by (auto simp: exec_loaded_def through_def)
  next
    case nz: False
    let ?s2 = "wr (child_psp_block E cpsp cenv (seg_phys s1 ES + ucast (reg_bx s1))) (wr (child_environment E (seg_val s1 DS) cenv path) s1)"
    have "run_child E C run r cpsp cenv ?s2 = Some t"
      using assms False a nz by (simp add: exec_loaded_def Let_def wr_def reg_defs)
    then show ?thesis using s1 by (intro through_from [OF _ run_child_files]) simp_all
  qed
qed

lemma dos_exec_files:
  assumes "dos_exec E C env file prep run path s = Some t"
  shows "through run s t"
proof (cases "reg_al s = 3")
  case True
  then obtain r s1 where "load_image E env file prep path (mem_readw E (mem s) (seg_phys s ES + ucast (reg_bx s))) s = Some (r, s1)"
      "t = (case r of None \<Rightarrow> return_error E 2 s1 | Some _ \<Rightarrow> set_cf E False s1)"
    using assms by (auto simp: dos_exec_def exec_overlay_def Let_def)
  then show ?thesis using same_files_image by (fastforce simp: through_def split: option.splits)
next
  case False
  define s1 where "s1 = (if s_mcb_initialised s then s else s\<lparr>mem := mcb_init E (mem s), s_mcb_initialised := True\<rparr>)"
  have s1: "same_files s s1" by (simp add: s1_def)
  have d: "dos_exec E C env file prep run path s = (case mcb_find_free E (mem s1) 0xFFFF of None \<Rightarrow> None
     | Some (_, largest) \<Rightarrow> (case child_paras largest of None \<Rightarrow> Some (return_error E 8 s1)
       | Some want \<Rightarrow> (case allocate_block E want s1 of None \<Rightarrow> None
         | Some (cpsp, s2) \<Rightarrow> if cpsp = 0 then Some (return_error E 8 s2)
             else (case load_image E env file prep path cpsp (wr (clear_bytes E (para cpsp) (unat want * 16)) s2) of None \<Rightarrow> None
                | Some (None, s3) \<Rightarrow> Some (return_error E 2 (free_block E cpsp s3))
                | Some (Some r, s3) \<Rightarrow> exec_loaded E C run (ds_dx_path E s) r cpsp s3))))"
    by (simp only: dos_exec_def s1_def [symmetric] Let_def False if_False)
  have a: "same_files s s2" if "allocate_block E want s1 = Some (cpsp, s2)" for want cpsp s2
    by (rule same_files_trans [OF s1 same_files_allocate [OF that]])
  have l: "same_files s s3"
    if "allocate_block E want s1 = Some (cpsp, s2)" "load_image E env file prep path cpsp (wr f0 s2) = Some (r, s3)" for want cpsp s2 r s3 f0
    using same_files_image [OF that(2)] a [OF that(1)] by (simp add: same_files_def wr_def)
  have e: "through run s t" if "same_files s s3" "exec_loaded E C run dpath r cpsp s3 = Some t" for s3 dpath r cpsp
    by (rule through_from [OF that(1) exec_loaded_files [OF that(2)]])
  have th: "through run s (return_error E x u)" "through run s (return_error E x (free_block E n u))" if "same_files s u" for u x n
    using that by (simp_all add: through_def)
  from assms show ?thesis unfolding d
    by (auto split: option.splits if_splits simp: th(1) [OF s1] th(1) [OF a]; use l e th(2) in blast)
qed

lemma dos_reach_trans: "\<lbrakk>dos_reach E OS K s t; dos_reach E OS K t u\<rbrakk> \<Longrightarrow> dos_reach E OS K s u"
proof (rotate_tac 1, induction rule: dos_reach.induct)
  case (call s0 u1 exec b u2)
  then show ?case using dos_reach.call by blast
qed (auto intro: dos_reach.guest)

text \<open>The handler of AH=4Bh meets the rule for programs when the nested run makes INT 21h calls of its own.\<close>

lemma dos_exec_reached:
  assumes "dos_exec E C env file prep run path s = Some t" and "\<And>u w. run u = Some w \<Longrightarrow> dos_reach E OS K u w"
  shows "dos_reach E OS K s t"
proof -
  have step: "dos_reach E OS K x y" if "same_files x y" for x y
    by (rule dos_reach.guest [OF dos_reach.start]) (use that in \<open>simp_all add: same_files_def\<close>)
  show ?thesis using dos_exec_files [OF assms(1)] assms(2) step dos_reach_trans unfolding through_def by meson
qed

section \<open>Properties\<close>

text \<open>C25: a parent survives its child. Let the run that AH=4Bh starts (the child's registers loaded, the parent on the process stack) end, in any state
  where the kernel area is RAM and the child's entry is on top of the process stack with its exit code, whatever the child did to registers, segments, memory, descriptor tables,
  exception handlers and interrupt table. Then AH=4Bh returns to a real-mode parent: its registers, segments and stack mode, the
  local descriptor table, the ring-0 stack, the handlers and the process stack are as before, and AL and the code for AH=4Dh are that exit code.\<close>

theorem exec_restores_parent:
  fixes s w :: "('m, 'h, 'z) kernel_scheme"
  assumes "exec_engine E C kf" and "run (child_start E C r cpsp cenv s) = Some w" and "kernel_ram E (mem w)"
    and "s_process_stack w = (process_of cpsp cenv s)\<lparr>child_exit_code := code\<rparr> # s_process_stack s"
    and "\<not> bit (cpu_cr0 s) 0" and "\<not> cpu_pmode s"
    and "seg_phys s = (\<lambda>sg. seg_lin (seg_val s sg))" and "unat (cf_addr s) + 2 \<le> 0x100000"
  shows "\<exists>t. run_child E C run r cpsp cenv s = Some t \<and> same_registers s t \<and> same_tables E C s t \<and> s_process_stack t = s_process_stack s
    \<and> s_last_child_exit t = code \<and> reg_al t = ucast code \<and> reg_ah t = reg_ah s \<and> \<not> s_child_exit_pending t"
  by (rule exec_engine.run_child_restores [where run = run, OF assms])

interpretation pc_exec: exec_engine pc pc_cpu id
  by unfold_locales (auto simp: pc_def pc_cpu_def)

end
