(* ===== verification/RealMode.thy ===== *)
theory RealMode
  imports Exec
begin

text \<open>
  Crossings between protected and real mode in \<open>bridge.cc\<close>: the calls of real-mode code by INT 31h AX=0300h to 0302h, the
  real-mode callbacks of AX=0303h, and the delivery of processor exceptions to the client. The nested run of the engine is
  the argument \<open>run\<close> (\<open>DOSBOX_RunMachine\<close>). Shown: a client gets its registers back whatever the real-mode code does and
  finds its results in the call structure, with the exception of AX=0302h, which loses the instruction pointer; an
  exception handler that returns at once resumes the interrupted program.
\<close>

section \<open>The real-mode call structure\<close>

record rm_regs =
  rr_edi :: u32
  rr_esi :: u32
  rr_ebp :: u32
  rr_ebx :: u32
  rr_edx :: u32
  rr_ecx :: u32
  rr_eax :: u32
  rr_flags :: u16
  rr_es :: u16
  rr_ds :: u16
  rr_fs :: u16
  rr_gs :: u16
  rr_ip :: u16
  rr_cs :: u16
  rr_sp :: u16
  rr_ss :: u16

definition rm_read :: "'m emu88 \<Rightarrow> u32 \<Rightarrow> 'm \<Rightarrow> rm_regs" where
  "rm_read E p m = \<lparr>rr_edi = mem_readd E m (p + 0x00), rr_esi = mem_readd E m (p + 0x04), rr_ebp = mem_readd E m (p + 0x08),
     rr_ebx = mem_readd E m (p + 0x10), rr_edx = mem_readd E m (p + 0x14), rr_ecx = mem_readd E m (p + 0x18),
     rr_eax = mem_readd E m (p + 0x1C), rr_flags = mem_readw E m (p + 0x20), rr_es = mem_readw E m (p + 0x22),
     rr_ds = mem_readw E m (p + 0x24), rr_fs = mem_readw E m (p + 0x26), rr_gs = mem_readw E m (p + 0x28),
     rr_ip = mem_readw E m (p + 0x2A), rr_cs = mem_readw E m (p + 0x2C), rr_sp = mem_readw E m (p + 0x2E),
     rr_ss = mem_readw E m (p + 0x30)\<rparr>"

text \<open>The fields the host writes back after a call, and all of them for a callback.\<close>

definition rm_write :: "'m emu88 \<Rightarrow> u32 \<Rightarrow> rm_regs \<Rightarrow> 'm \<Rightarrow> 'm" where
  "rm_write E p r m = (let
     m = mem_writed E (p + 0x00) (rr_edi r) m;
     m = mem_writed E (p + 0x04) (rr_esi r) m;
     m = mem_writed E (p + 0x08) (rr_ebp r) m;
     m = mem_writed E (p + 0x10) (rr_ebx r) m;
     m = mem_writed E (p + 0x14) (rr_edx r) m;
     m = mem_writed E (p + 0x18) (rr_ecx r) m;
     m = mem_writed E (p + 0x1C) (rr_eax r) m;
     m = mem_writew E (p + 0x20) (rr_flags r) m;
     m = mem_writew E (p + 0x22) (rr_es r) m;
     m = mem_writew E (p + 0x24) (rr_ds r) m;
     m = mem_writew E (p + 0x26) (rr_fs r) m
   in mem_writew E (p + 0x28) (rr_gs r) m)"

definition rm_write_all :: "'m emu88 \<Rightarrow> u32 \<Rightarrow> rm_regs \<Rightarrow> 'm \<Rightarrow> 'm" where
  "rm_write_all E p r m = (let
     m = rm_write E p r m;
     m = mem_writew E (p + 0x2A) (rr_ip r) m;
     m = mem_writew E (p + 0x2C) (rr_cs r) m;
     m = mem_writew E (p + 0x2E) (rr_sp r) m
   in mem_writew E (p + 0x30) (rr_ss r) m)"

definition rm_of :: "('m, 'z) machine_scheme \<Rightarrow> rm_regs" where
  "rm_of s = \<lparr>rr_edi = reg_edi s, rr_esi = reg_esi s, rr_ebp = reg_ebp s, rr_ebx = reg_ebx s, rr_edx = reg_edx s, rr_ecx = reg_ecx s,
     rr_eax = reg_eax s, rr_flags = lo16 (reg_flags s), rr_es = seg_val s ES, rr_ds = seg_val s DS, rr_fs = seg_val s FS,
     rr_gs = seg_val s GS, rr_ip = lo16 (reg_eip s), rr_cs = seg_val s CS, rr_sp = lo16 (reg_esp s), rr_ss = seg_val s SS\<rparr>"

section \<open>Into real mode and back\<close>

text \<open>Real mode with the structure's registers; a zero SS selects the stack \<open>sg:sp\<close>.\<close>

definition rm_enter ::
  "'m emu88 \<Rightarrow> ('m, 'c) emu_cpu \<Rightarrow> rm_regs \<Rightarrow> u16 \<Rightarrow> u32 \<Rightarrow> ('m, 'z) machine_scheme \<Rightarrow> ('m, 'z) machine_scheme" where
  "rm_enter E C r sg sp s = (let
     cr0 = cpu_cr0 s;
     s = wr (CPU_LIDT C 0x3FF 0) s;
     s = CPU_SET_CRX C 0 (cr0 AND NOT 1) s;
     s = s\<lparr>reg_eax := rr_eax r, reg_ebx := rr_ebx r, reg_ecx := rr_ecx r, reg_edx := rr_edx r, reg_esi := rr_esi r,
           reg_edi := rr_edi r, reg_ebp := rr_ebp r\<rparr>;
     s = SegSet16 E DS (rr_ds r) s;
     s = SegSet16 E ES (rr_es r) s;
     s = SegSet16 E FS (rr_fs r) s;
     s = SegSet16 E GS (rr_gs r) s
   in if rr_ss r \<noteq> 0 then (SegSet16 E SS (rr_ss r) s)\<lparr>reg_esp := ucast (rr_sp r)\<rparr>
      else (SegSet16 E SS sg s)\<lparr>reg_esp := sp\<rparr>)"

text \<open>Back in the client \<open>s0\<close>: mode, interrupt table, segments by \<open>reload\<close>, the base of CS from its descriptor, registers; then the
  results \<open>r\<close> go to the structure at \<open>p\<close>.\<close>

definition rm_leave ::
  "'m emu88 \<Rightarrow> ('m, 'c) emu_cpu \<Rightarrow> (('m, 'z) machine_scheme \<Rightarrow> ('m, 'z) machine_scheme) \<Rightarrow> ('m, 'z) machine_scheme \<Rightarrow> u32
     \<Rightarrow> ('m, 'z) machine_scheme \<Rightarrow> ('m, 'z) machine_scheme" where
  "rm_leave E C reload s0 p s = (let
     r = rm_of s;
     s = CPU_SET_CRX C 0 (cpu_cr0 s0) s;
     s = wr (CPU_LIDT C (idtr_limit C (mem s0)) (idtr_base C (mem s0))) s;
     s = reload s;
     base = (case gdt_GetDescriptor E (mem s) (seg_val s0 CS) of Some d \<Rightarrow> desc_GetBase d | None \<Rightarrow> 0);
     s = s\<lparr>seg_val := (seg_val s)(CS := seg_val s0 CS), seg_phys := (seg_phys s)(CS := base)\<rparr>;
     s = s\<lparr>reg_eax := reg_eax s0, reg_ebx := reg_ebx s0, reg_ecx := reg_ecx s0, reg_edx := reg_edx s0, reg_esi := reg_esi s0,
           reg_edi := reg_edi s0, reg_ebp := reg_ebp s0, reg_esp := reg_esp s0\<rparr>;
     s = wr (rm_write E p r) s
   in set_cf E False s)"

definition reload_all :: "'m emu88 \<Rightarrow> (seg \<Rightarrow> u16) \<Rightarrow> ('m, 'z) machine_scheme \<Rightarrow> ('m, 'z) machine_scheme" where
  "reload_all E sel s = fold (\<lambda>sg. CPU_SetSegGeneral E sg (sel sg)) [DS, SS, ES, FS, GS] s"

text \<open>AX=0300h keeps a selector whose descriptor the client has freed.\<close>

definition restore_seg :: "'m emu88 \<Rightarrow> (seg \<Rightarrow> u16) \<Rightarrow> seg \<Rightarrow> ('m, 'z) machine_scheme \<Rightarrow> ('m, 'z) machine_scheme" where
  "restore_seg E sel sg s = (
     if sel sg \<noteq> 0 \<and> (case gdt_GetDescriptor E (mem s) (sel sg) of Some d \<Rightarrow> \<not> bit (fill1 d) 15 | None \<Rightarrow> False)
     then s\<lparr>seg_val := (seg_val s)(sg := sel sg), seg_phys := (seg_phys s)(sg := 0)\<rparr>
     else CPU_SetSegGeneral E sg (sel sg) s)"

definition reload_present :: "'m emu88 \<Rightarrow> (seg \<Rightarrow> u16) \<Rightarrow> ('m, 'z) machine_scheme \<Rightarrow> ('m, 'z) machine_scheme" where
  "reload_present E sel s = fold (restore_seg E sel) [DS, ES, FS, GS] (CPU_SetSegGeneral E SS (sel SS) s)"

section \<open>AX=0300h, 0301h, 0302h\<close>

definition int31_0302 ::
  "'m emu88 \<Rightarrow> ('m, 'c) emu_cpu \<Rightarrow> (('m, 'z) machine_scheme \<Rightarrow> ('m, 'z) machine_scheme option) \<Rightarrow> u32
     \<Rightarrow> ('m, 'z) machine_scheme \<Rightarrow> ('m, 'z) machine_scheme option" where
  "int31_0302 E C run rm_stop s0 = (let
     p = seg_phys s0 ES + reg_edi s0;
     r = rm_read E p (mem s0);
     s = rm_enter E C r 0x0050 0x0F00 s0;
     s = s\<lparr>reg_esp := (reg_esp s - 6) AND 0xFFFF\<rparr>;
     s = wr (real_writew E (seg_val s SS) (reg_sp s + 0) (RealOff rm_stop)) s;
     s = wr (real_writew E (seg_val s SS) (reg_sp s + 2) (RealSeg rm_stop)) s;
     s = wr (real_writew E (seg_val s SS) (reg_sp s + 4) (rr_flags r)) s;
     s = SegSet16 E CS (rr_cs r) (s\<lparr>reg_eip := ucast (rr_ip r)\<rparr>)
   in map_option (rm_leave E C (reload_all E (seg_val s0)) s0 p) (run s))"

definition int31_0301 ::
  "'m emu88 \<Rightarrow> ('m, 'c) emu_cpu \<Rightarrow> (('m, 'z) machine_scheme \<Rightarrow> ('m, 'z) machine_scheme option) \<Rightarrow> u8
     \<Rightarrow> ('m, 'z) machine_scheme \<Rightarrow> ('m, 'z) machine_scheme option" where
  "int31_0301 E C run call_stop s0 = (let
     p = seg_phys s0 ES + reg_edi s0;
     r = rm_read E p (mem s0);
     s = rm_enter E C r 0x0050 0x0F00 s0
   in map_option (rm_leave E C (reload_all E (seg_val s0)) s0 p) (CALLBACK_RunRealFar E run call_stop (rr_cs r) (rr_ip r) s))"

text \<open>The result says whether the handler returned CBRET_STOP: the interrupt ended a child (\<open>exited\<close>), which must unwind.\<close>

definition int31_0300 ::
  "'m emu88 \<Rightarrow> ('m, 'c) emu_cpu \<Rightarrow> (('m, 'z) machine_scheme \<Rightarrow> ('m, 'z) machine_scheme option) \<Rightarrow> (('m, 'z) machine_scheme \<Rightarrow> bool)
     \<Rightarrow> ('m, 'z) machine_scheme \<Rightarrow> (bool \<times> ('m, 'z) machine_scheme) option" where
  "int31_0300 E C run exited s0 = (let
     p = seg_phys s0 ES + reg_edi s0;
     r = rm_read E p (mem s0);
     s = rm_enter E C r 0x9000 0xFFF0 s0
   in case CALLBACK_RunRealInt E run (reg_bl s0) s of
        None \<Rightarrow> None
      | Some s \<Rightarrow> Some (if exited s then (True, wr (CPU_LIDT C (idtr_limit C (mem s0)) (idtr_base C (mem s0))) s)
          else (False, rm_leave E C (reload_present E (seg_val s0)) s0 p s)))"

section \<open>Real-mode callbacks\<close>

definition rm_return :: "'m emu88 \<Rightarrow> u32 \<Rightarrow> ('m, 'z) machine_scheme \<Rightarrow> ('m, 'z) machine_scheme \<Rightarrow> ('m, 'z) machine_scheme" where
  "rm_return E p s0 s = (let
     r = rm_read E p (mem s);
     s = s\<lparr>reg_edi := rr_edi r, reg_esi := rr_esi r, reg_ebp := rr_ebp r, reg_ebx := rr_ebx r, reg_edx := rr_edx r,
           reg_ecx := rr_ecx r, reg_eax := rr_eax r, reg_flags := ucast (rr_flags r) OR (reg_flags s AND 0xFFFF0000)\<rparr>;
     s = SegSet16 E ES (mem_readw E (mem s) (p + 0x22)) s;
     s = SegSet16 E DS (mem_readw E (mem s) (p + 0x24)) s;
     s = SegSet16 E FS (mem_readw E (mem s) (p + 0x26)) s;
     s = SegSet16 E GS (mem_readw E (mem s) (p + 0x28)) s;
     s = (SegSet16 E SS (seg_val s0 SS) s)\<lparr>reg_esp := reg_esp s0\<rparr>
   in (SegSet16 E CS (seg_val s0 CS) s)\<lparr>reg_eip := reg_eip s0\<rparr>)"

text \<open>The far-return frame for the client's procedure, sized by its code segment.\<close>

definition push_far :: "'m emu88 \<Rightarrow> bool \<Rightarrow> u16 \<Rightarrow> ('m, 'z) machine_scheme \<Rightarrow> ('m, 'z) machine_scheme" where
  "push_far E big off s = (if big
     then let
       s = s\<lparr>reg_esp := reg_esp s - 8\<rparr>;
       fr = seg_phys s SS + reg_esp s;
       s = wr (mem_writed E (fr + 0) (ucast off)) s;
       s = wr (mem_writew E (fr + 4) PM_CB_SEL) s
     in wr (mem_writew E (fr + 6) 0) s
     else let
       s = s\<lparr>reg_esp := reg_esp s - 4\<rparr>;
       fr = seg_phys s SS + reg_esp s;
       s = wr (mem_writew E (fr + 0) off) s
     in wr (mem_writew E (fr + 2) PM_CB_SEL) s)"

text \<open>The client's procedure about to run: the caller's registers are in the structure at \<open>p\<close>, the processor is in protected
  mode with the procedure's code segment, the structure in ES:EDI and the host's ring-0 stack.\<close>

definition rm_callback_entry ::
  "'m emu88 \<Rightarrow> ('m, 'c) emu_cpu \<Rightarrow> u32 \<Rightarrow> rm_callback \<Rightarrow> u32 \<Rightarrow> ('m, 'z) machine_scheme \<Rightarrow> ('m, 'z) machine_scheme" where
  "rm_callback_entry E C rm_stop cb p s = (let
     cr0 = cpu_cr0 s;
     s = wr (rm_write_all E p (rm_of s)) s;
     s = wr (CPU_LIDT C IDT_LIMIT IDT_BASE) s;
     s = CPU_SET_CRX C 0 (cr0 OR 1) s;
     s = CPU_LoadCSCache E C (rmcb_pm_cs cb) s;
     big = (case gdt_GetDescriptor E (mem s) (rmcb_pm_cs cb) of Some d \<Rightarrow> desc_Big d > 0 | None \<Rightarrow> False);
     s = s\<lparr>code_big := big\<rparr>;
     s = CPU_SetSegGeneral E DS (rmcb_struct_sel cb) s;
     s = CPU_SetSegGeneral E ES (rmcb_struct_sel cb) s;
     s = CPU_SetSegGeneral E SS PM_CB_STACK s;
     s = s\<lparr>reg_edi := rmcb_struct_off cb, reg_esp := PM_CB_STACK_SIZE - 16\<rparr>;
     s = push_far E big (RealOff rm_stop) s
   in s\<lparr>reg_eip := rmcb_pm_eip cb\<rparr>)"

definition do_rm_callback ::
  "'m emu88 \<Rightarrow> ('m, 'c) emu_cpu \<Rightarrow> (('m, 'z) dpmi_scheme \<Rightarrow> ('m, 'z) dpmi_scheme option) \<Rightarrow> u32 \<Rightarrow> nat
     \<Rightarrow> ('m, 'z) dpmi_scheme \<Rightarrow> ('m, 'z) dpmi_scheme option" where
  "do_rm_callback E C run rm_stop idx s0 = (let cb = s_rm_callbacks s0 ! idx
   in if length (s_rm_callbacks s0) \<le> idx \<or> \<not> rmcb_allocated cb then Some s0 else let
     p = pm_selector_linear E (mem s0) (rmcb_struct_sel cb) (rmcb_struct_off cb);
     m = rm_write_all E p (rm_of s0) (mem s0)
   in map_option (\<lambda>s. let
        s = CPU_SET_CRX C 0 (cpu_cr0 s0) s;
        s = wr (CPU_LIDT C (idtr_limit C m) (idtr_base C m)) s
      in rm_return E p s0 s) (run (rm_callback_entry E C rm_stop cb p s0)))"

section \<open>Exceptions\<close>

record fault =
  f_err :: u32
  f_eip :: u32
  f_cs :: u32
  f_eflags :: u32
  f_esp :: u32
  f_ss :: u16

text \<open>The frame of a 32-bit gate entered from ring 3; \<open>has_err\<close> of \<open>PmEntry\<close> is \<open>pm_exc_has_err_code\<close>.\<close>

definition read_fault :: "'m emu88 \<Rightarrow> nat \<Rightarrow> u32 \<Rightarrow> 'm \<Rightarrow> fault" where
  "read_fault E vec p m = (let k = (if has_err vec then 4 else 0) in
     \<lparr>f_err = (if has_err vec then mem_readd E m p else 0), f_eip = mem_readd E m (p + k), f_cs = mem_readd E m (p + k + 4),
      f_eflags = mem_readd E m (p + k + 8), f_esp = mem_readd E m (p + k + 12), f_ss = lo16 (mem_readd E m (p + k + 16))\<rparr>)"

text \<open>The static variables of the recursion guard.\<close>

record guard =
  recursive_fault_count :: int
  last_fault_eip :: u32
  last_fault_cs :: u16

text \<open>The handler's entry frame on the exception stack.\<close>

definition exc_frame :: "'m emu88 \<Rightarrow> u32 \<Rightarrow> u16 \<Rightarrow> fault \<Rightarrow> 'm \<Rightarrow> 'm" where
  "exc_frame E p ret f m = (let
     m = mem_writed E (p + 0) (ucast ret) m;
     m = mem_writed E (p + 4) (ucast PM_CB3_SEL) m;
     m = mem_writed E (p + 8) (f_err f) m;
     m = mem_writed E (p + 12) (f_eip f) m;
     m = mem_writed E (p + 16) (f_cs f) m;
     m = mem_writed E (p + 20) (f_eflags f) m;
     m = mem_writed E (p + 24) (f_esp f) m
   in mem_writed E (p + 28) (ucast (f_ss f)) m)"

datatype exc_result = Terminate | LeFault nat | Handled

definition dosiz_pm_exc_dispatch ::
  "'m emu88 \<Rightarrow> nat \<Rightarrow> guard \<Rightarrow> ('m, 'z) dpmi_host_scheme \<Rightarrow> exc_result \<times> guard \<times> ('m, 'z) dpmi_host_scheme" where
  "dosiz_pm_exc_dispatch E vec gd s = (let
     r0_fp = seg_phys s SS + reg_esp s;
     f = read_fault E vec r0_fp (mem s)
   in if lo16 (mem_readd E (mem s) (r0_fp + (if has_err vec then 8 else 4))) AND 3 = 0 then (LeFault vec, gd, s)
      else let
        same = (f_cs f = ucast (last_fault_cs gd) \<and> f_eip f = last_fault_eip gd);
        gd = (if same then gd\<lparr>recursive_fault_count := recursive_fault_count gd + 1\<rparr>
             else \<lparr>recursive_fault_count = 0, last_fault_eip = f_eip f, last_fault_cs = lo16 (f_cs f)\<rparr>)
      in if same \<and> recursive_fault_count gd > 4 then (Terminate, gd, s)
      else let
        h = s_pm_exc s ! vec
      in if exc_sel h = 0 then (Terminate, gd, s)
      else let
        esp = PM_CB_STACK_SIZE - 32;
        s = wr (exc_frame E (PM_EXC_STACK_BASE + esp) (s_pm_exc_ret_off s) f) s;
        q = r0_fp + (if has_err vec then 4 else 0);
        s = wr (mem_writed E (q + 0) (exc_off h)) s;
        s = wr (mem_writed E (q + 4) (ucast ((exc_sel h AND 0xFFFC) OR 3))) s;
        s = wr (mem_writed E (q + 8) (f_eflags f AND NOT 0x200)) s;
        s = wr (mem_writed E (q + 12) esp) s;
        s = wr (mem_writed E (q + 16) (ucast PM_EXC_STACK_SEL)) s
      in (Handled, gd, if has_err vec then s\<lparr>reg_esp := reg_esp s + 4\<rparr> else s))"

definition dosiz_pm_exc_ret :: "'m emu88 \<Rightarrow> ('m, 'z) machine_scheme \<Rightarrow> ('m, 'z) machine_scheme" where
  "dosiz_pm_exc_ret E s = (let
     fp = seg_phys s SS + (if stack_big s then reg_esp s else ucast (reg_sp s));
     eip = mem_readd E (mem s) (fp + 4);
     cs_val = mem_readd E (mem s) (fp + 8);
     eflags = mem_readd E (mem s) (fp + 12);
     oesp = mem_readd E (mem s) (fp + 16);
     oss = lo16 (mem_readd E (mem s) (fp + 20));
     s = CPU_SetSegGeneral E SS oss s;
     new_esp = oesp - 12;
     s = wr (mem_writed E (seg_phys s SS + new_esp + 0) eip) s;
     s = wr (mem_writed E (seg_phys s SS + new_esp + 4) cs_val) s;
     s = wr (mem_writed E (seg_phys s SS + new_esp + 8) eflags) s
   in if stack_big s then s\<lparr>reg_esp := new_esp\<rparr> else set_sp (lo16 new_esp) s)"

text \<open>What the exception report of a linear-executable client shows: error code, CS, instruction pointer, flags. A fault ends the
  program with exit code 1.\<close>

definition dosiz_le_exc_dump32 :: "'m emu88 \<Rightarrow> nat \<Rightarrow> ('m, 'z) machine_scheme \<Rightarrow> u32 option \<times> u16 \<times> u32 \<times> u32" where
  "dosiz_le_exc_dump32 E vec s = (let
     sp = seg_phys s SS + reg_esp s;
     off = (if has_err vec then 4 else 0)
   in (if has_err vec then Some (mem_readd E (mem s) sp) else None, mem_readw E (mem s) (sp + off + 4),
       mem_readd E (mem s) (sp + off), mem_readd E (mem s) (sp + off + 8)))"

definition dosiz_le_exc_dump16 :: "'m emu88 \<Rightarrow> nat \<Rightarrow> ('m, 'z) machine_scheme \<Rightarrow> u16 option \<times> u16 \<times> u16 \<times> u16" where
  "dosiz_le_exc_dump16 E vec s = (let
     sp = seg_phys s SS + reg_esp s;
     off = (if has_err vec then 2 else 0)
   in (if has_err vec then Some (mem_readw E (mem s) sp) else None, mem_readw E (mem s) (sp + off + 2),
       mem_readw E (mem s) (sp + off), mem_readw E (mem s) (sp + off + 4)))"

section \<open>Fields of a structure\<close>

text \<open>The twelve fields a real-mode call returns.\<close>

definition rm_results :: "rm_regs \<Rightarrow> rm_regs \<Rightarrow> bool" where
  "rm_results a b \<longleftrightarrow> rr_edi a = rr_edi b \<and> rr_esi a = rr_esi b \<and> rr_ebp a = rr_ebp b \<and> rr_ebx a = rr_ebx b \<and> rr_edx a = rr_edx b
     \<and> rr_ecx a = rr_ecx b \<and> rr_eax a = rr_eax b \<and> rr_flags a = rr_flags b \<and> rr_es a = rr_es b \<and> rr_ds a = rr_ds b
     \<and> rr_fs a = rr_fs b \<and> rr_gs a = rr_gs b"

definition area_ram :: "'m emu88 \<Rightarrow> u32 \<Rightarrow> nat \<Rightarrow> 'm \<Rightarrow> bool" where
  "area_ram E p n m \<longleftrightarrow> n < 0x100000000 \<and> (\<forall>k < n. is_ram E m (p + of_nat k))"

definition field_at :: "u32 \<Rightarrow> u32 \<Rightarrow> nat \<Rightarrow> u32 set" where
  "field_at p x w = {p + x + of_nat k | k. k < w}"

lemma area_ram_same: "same_outside E S m m' \<Longrightarrow> area_ram E p n m' = area_ram E p n m"
  by (simp add: area_ram_def same_outside_def)

lemma field_ram: "\<lbrakk>area_ram E p n m; unat x + w \<le> n; k < w\<rbrakk> \<Longrightarrow> is_ram E m (p + x + of_nat k)"
proof -
  assume a: "area_ram E p n m" "unat x + w \<le> n" "k < w"
  have "p + x + of_nat k = p + of_nat (unat x + k)" by simp
  moreover have "is_ram E m (p + of_nat (unat x + k))" using a unfolding area_ram_def by (simp del: of_nat_add)
  ultimately show ?thesis by (simp add: add.assoc)
qed

lemma field_apart:
  fixes p x y :: u32
  assumes "unat x + w \<le> unat y \<or> unat y + j < unat x" and "k < w" and "unat x + w \<le> n" and "unat y + j < n" and "n < 0x100000000"
  shows "p + y + of_nat j \<noteq> p + x + of_nat k"
proof
  assume "p + y + of_nat j = p + x + of_nat k"
  then have "(of_nat (unat y + j) :: u32) = of_nat (unat x + k)" by (simp add: add.assoc)
  moreover have "unat (of_nat (unat y + j) :: u32) = unat y + j" "unat (of_nat (unat x + k) :: u32) = unat x + k"
    using assms(2-5) by (auto intro!: unat_of_nat_u32 simp del: of_nat_add)
  ultimately have "unat y + j = unat x + k" by metis
  then show False using assms(1,2) by linarith
qed

context emu88_engine
begin

lemma readw_same:
  assumes "same_outside E S m m'" and "\<And>k. k < 2 \<Longrightarrow> is_ram E m (a + of_nat k) \<and> a + of_nat k \<notin> S"
  shows "mem_readw E m' a = mem_readw E m a"
proof -
  have "is_ram E m (a + of_nat k) \<and> is_ram E m' (a + of_nat k) \<and> mem_readb E m' (a + of_nat k) = mem_readb E m (a + of_nat k)" if "k < 2" for k
    using assms(1) assms(2) [OF that] by (simp add: same_outside_def)
  from this [of 0] this [of 1] show ?thesis by (simp add: readw_bytes)
qed

lemma writed_field:
  assumes "area_ram E p n m" and "unat x + 4 \<le> n"
  shows "same_outside E (field_at p x 4) m (mem_writed E (p + x) d m)" and "mem_readd E (mem_writed E (p + x) d m) (p + x) = d"
proof -
  have ram: "is_ram E m (p + x + of_nat k) \<and> p + x + of_nat k \<in> field_at p x 4" if "k < 4" for k
    using field_ram [OF assms that] that by (auto simp: field_at_def)
  from ram [of 0] ram [of 1] ram [of 2] ram [of 3]
  show "mem_readd E (mem_writed E (p + x) d m) (p + x) = d" "same_outside E (field_at p x 4) m (mem_writed E (p + x) d m)"
    by (auto simp: mem_simps same_outside_def)
qed

lemma writew_field:
  assumes "area_ram E p n m" and "unat x + 2 \<le> n"
  shows "same_outside E (field_at p x 2) m (mem_writew E (p + x) w m)" and "mem_readw E (mem_writew E (p + x) w m) (p + x) = w"
proof -
  have ram: "is_ram E m (p + x + of_nat k) \<and> p + x + of_nat k \<in> field_at p x 2" if "k < 2" for k
    using field_ram [OF assms that] that by (auto simp: field_at_def)
  from ram [of 0] ram [of 1]
  show "mem_readw E (mem_writew E (p + x) w m) (p + x) = w" "same_outside E (field_at p x 2) m (mem_writew E (p + x) w m)"
    by (auto simp: mem_simps same_outside_def)
qed

lemma read_field_same:
  assumes "same_outside E (field_at p x w) m m'" and "area_ram E p n m" and "unat x + w \<le> n"
  shows "\<lbrakk>unat y + 4 \<le> n; unat x + w \<le> unat y \<or> unat y + 4 \<le> unat x\<rbrakk> \<Longrightarrow> mem_readd E m' (p + y) = mem_readd E m (p + y)"
    and "\<lbrakk>unat y + 2 \<le> n; unat x + w \<le> unat y \<or> unat y + 2 \<le> unat x\<rbrakk> \<Longrightarrow> mem_readw E m' (p + y) = mem_readw E m (p + y)"
proof -
  have apart: "is_ram E m (p + y + of_nat j) \<and> p + y + of_nat j \<notin> field_at p x w"
    if "unat y + v \<le> n" "unat x + w \<le> unat y \<or> unat y + v \<le> unat x" "j < v" for j v
  proof -
    have "p + y + of_nat j \<noteq> p + x + of_nat k" if "k < w" for k
      using field_apart [of x w y j k n p] that \<open>unat y + v \<le> n\<close> \<open>unat x + w \<le> unat y \<or> unat y + v \<le> unat x\<close> \<open>j < v\<close> assms(2,3)
      unfolding area_ram_def by linarith
    then show ?thesis using field_ram [OF assms(2) that(1,3)] unfolding field_at_def by blast
  qed
  show "mem_readd E m' (p + y) = mem_readd E m (p + y)" if "unat y + 4 \<le> n" "unat x + w \<le> unat y \<or> unat y + 4 \<le> unat x"
    using apart [OF that] by (intro readd_same [OF assms(1)]) simp
  show "mem_readw E m' (p + y) = mem_readw E m (p + y)" if "unat y + 2 \<le> n" "unat x + w \<le> unat y \<or> unat y + 2 \<le> unat x"
    using apart [OF that] by (intro readw_same [OF assms(1)]) simp
qed

text \<open>Reading a field through the writes of the others; the index 0 is written without its \<open>+ 0\<close>.\<close>

lemma area_ram_write:
  "\<lbrakk>area_ram E p n m; unat x + 4 \<le> n\<rbrakk> \<Longrightarrow> area_ram E p n (mem_writed E (p + x) d m)"
  "\<lbrakk>area_ram E p n m; unat x + 2 \<le> n\<rbrakk> \<Longrightarrow> area_ram E p n (mem_writew E (p + x) w m)"
  using area_ram_same [OF writed_field(1)] area_ram_same [OF writew_field(1)] by blast+

lemma field_keep:
  assumes "area_ram E p 0x32 m"
  shows "\<lbrakk>unat x + 4 \<le> 0x32; unat y + 4 \<le> 0x32; unat x + 4 \<le> unat y \<or> unat y + 4 \<le> unat x\<rbrakk> \<Longrightarrow> mem_readd E (mem_writed E (p + x) d m) (p + y) = mem_readd E m (p + y)"
    and "\<lbrakk>unat x + 4 \<le> 0x32; unat y + 2 \<le> 0x32; unat x + 4 \<le> unat y \<or> unat y + 2 \<le> unat x\<rbrakk> \<Longrightarrow> mem_readw E (mem_writed E (p + x) d m) (p + y) = mem_readw E m (p + y)"
    and "\<lbrakk>unat x + 2 \<le> 0x32; unat y + 4 \<le> 0x32; unat x + 2 \<le> unat y \<or> unat y + 4 \<le> unat x\<rbrakk> \<Longrightarrow> mem_readd E (mem_writew E (p + x) w m) (p + y) = mem_readd E m (p + y)"
    and "\<lbrakk>unat x + 2 \<le> 0x32; unat y + 2 \<le> 0x32; unat x + 2 \<le> unat y \<or> unat y + 2 \<le> unat x\<rbrakk> \<Longrightarrow> mem_readw E (mem_writew E (p + x) w m) (p + y) = mem_readw E m (p + y)"
  using read_field_same [OF writed_field(1) [OF assms] assms] read_field_same [OF writew_field(1) [OF assms] assms] by simp_all

lemmas field_keep0 = field_keep(1,2) [where x = 0, simplified] field_keep(1,3) [where y = 0, simplified]

lemmas field_simps =
  writed_field(2) [where n = "0x32"] writew_field(2) [where n = "0x32"] writed_field(2) [where n = "0x32" and x = 0, simplified]
  area_ram_write [where n = "0x32"] area_ram_write(1) [where n = "0x32" and x = 0, simplified] field_keep field_keep0

text \<open>What the host writes to the call structure is what a client reads there.\<close>

lemma rm_write_ram: "area_ram E p 0x32 m \<Longrightarrow> area_ram E p 0x32 (rm_write E p r m)"
  by (simp add: rm_write_def Let_def field_simps)

lemma rm_write_ram_iff: "area_ram E p 0x32 m \<Longrightarrow> is_ram E (rm_write E p r m) b = is_ram E m b"
proof -
  have d: "is_ram E (mem_writed E (p + x) d n) b = is_ram E n b" if "area_ram E p 0x32 n" "unat x + 4 \<le> 0x32" for x d n
    using writed_field(1) [OF that] by (simp add: same_outside_def)
  have w: "is_ram E (mem_writew E (p + x) v n) b = is_ram E n b" if "area_ram E p 0x32 n" "unat x + 2 \<le> 0x32" for x v n
    using writew_field(1) [OF that] by (simp add: same_outside_def)
  assume "area_ram E p 0x32 m"
  then show ?thesis by (simp add: rm_write_def Let_def field_simps d w d [where x = 0, simplified])
qed

lemma rm_read_same:
  assumes "same_outside E S m m'" and "area_ram E p 0x32 m" and "S \<inter> field_at p 0 0x32 = {}"
  shows "rm_read E p m' = rm_read E p m"
proof -
  have k: "is_ram E m (p + x + of_nat j) \<and> p + x + of_nat j \<notin> S" if "unat x + w \<le> 0x32" "j < w" for x j w
  proof -
    have "p + x + of_nat j = p + 0 + of_nat (unat x + j)" by (simp add: add.assoc)
    then have "p + x + of_nat j \<in> field_at p 0 0x32" using that unfolding field_at_def by fastforce
    then show ?thesis using field_ram [OF assms(2) that] assms(3) by blast
  qed
  have d: "mem_readd E m' (p + x) = mem_readd E m (p + x)" if "unat x + 4 \<le> 0x32" for x
    using k [OF that] by (intro readd_same [OF assms(1)])
  have w: "mem_readw E m' (p + x) = mem_readw E m (p + x)" if "unat x + 2 \<le> 0x32" for x
    using k [OF that] by (intro readw_same [OF assms(1)])
  show ?thesis by (simp add: rm_read_def d w d [of 0, simplified])
qed

lemma rm_read_write: "area_ram E p 0x32 m \<Longrightarrow> rm_results (rm_read E p (rm_write E p r m)) r"
  by (simp add: rm_write_def rm_read_def rm_results_def Let_def field_simps)

lemma rm_read_write_all: "area_ram E p 0x32 m \<Longrightarrow> rm_read E p (rm_write_all E p r m) = r"
  by (simp add: rm_write_all_def rm_write_def rm_read_def Let_def field_simps)

end

section \<open>Back in the client\<close>

definition same_client :: "('m, 'z) machine_scheme \<Rightarrow> ('m, 'z) machine_scheme \<Rightarrow> bool" where
  "same_client s t \<longleftrightarrow> reg_eax t = reg_eax s \<and> reg_ebx t = reg_ebx s \<and> reg_ecx t = reg_ecx s \<and> reg_edx t = reg_edx s
     \<and> reg_esi t = reg_esi s \<and> reg_edi t = reg_edi s \<and> reg_ebp t = reg_ebp s \<and> reg_esp t = reg_esp s
     \<and> seg_val t CS = seg_val s CS \<and> cpu_cr0 t = cpu_cr0 s"

lemma SetSeg_frame [simp]:
  "reg_eip (CPU_SetSegGeneral E sg v s) = reg_eip s" "cpu_cr0 (CPU_SetSegGeneral E sg v s) = cpu_cr0 s"
  "reg_eip (SegSet16 E sg v s) = reg_eip s" "cpu_cr0 (SegSet16 E sg v s) = cpu_cr0 s"
  "seg_val (SegSet16 E sg v s) = (seg_val s)(sg := sregs E (load_segment_real E (mem s) sg v) sg)"
  by (simp_all add: CPU_SetSegGeneral_def SegSet16_def mirror_seg_def Let_def)

lemma rm_enter_eip [simp]: "reg_eip (rm_enter E C r sg sp s) = reg_eip s"
  by (simp add: rm_enter_def Let_def CPU_SET_CRX_def wr_def)

lemma run_from_eip: "run_from E run sg off s = Some t \<Longrightarrow> reg_eip t = reg_eip s"
  by (auto simp: run_from_def Let_def)

text \<open>A reload of the segment registers leaves memory, instruction pointer and mode alone.\<close>

definition reloads :: "'m emu88 \<Rightarrow> (('m, 'z) machine_scheme \<Rightarrow> ('m, 'z) machine_scheme) \<Rightarrow> bool" where
  "reloads E f \<longleftrightarrow> (\<forall>u. same_outside E {} (mem u) (mem (f u)) \<and> reg_eip (f u) = reg_eip u \<and> cpu_cr0 (f u) = cpu_cr0 u)"

lemma reloads_fold: "(\<And>x. reloads E (f x)) \<Longrightarrow> reloads E (fold f xs)"
  by (induction xs) (auto simp: reloads_def intro: same_outside_trans)

lemma reloads_comp: "\<lbrakk>reloads E f; reloads E h\<rbrakk> \<Longrightarrow> reloads E (\<lambda>s. f (h s))"
  by (auto simp: reloads_def intro: same_outside_trans)

context pm_engine
begin

lemma reloads_seg: "reloads E (CPU_SetSegGeneral E sg v)"
  using segment_loads(1) by (simp add: reloads_def CPU_SetSegGeneral_def mirror_seg_def Let_def)

lemma reloads_restore: "reloads E (restore_seg E sel sg)"
  unfolding reloads_def restore_seg_def by (simp add: reloads_seg [unfolded reloads_def])

lemma reloads_client: "reloads E (reload_all E sel)" "reloads E (reload_present E sel)"
proof -
  have a: "reload_all E sel = fold (\<lambda>sg. CPU_SetSegGeneral E sg (sel sg)) [DS, SS, ES, FS, GS]" by (rule ext) (simp add: reload_all_def)
  have p: "reload_present E sel = (\<lambda>s. fold (restore_seg E sel) [DS, ES, FS, GS] (CPU_SetSegGeneral E SS (sel SS) s))"
    by (rule ext) (simp add: reload_present_def)
  show "reloads E (reload_all E sel)" unfolding a by (rule reloads_fold reloads_seg)+
  show "reloads E (reload_present E sel)" unfolding p by (rule reloads_comp [OF reloads_fold]) (rule reloads_seg reloads_restore)+
qed

lemma rm_leave_returns:
  fixes s u :: "('m, 'z) machine_scheme" and p :: u32
  assumes "reloads E reload"
  defines "t \<equiv> rm_leave E C reload s p u"
  shows "same_client s t" and "reg_eip t = reg_eip u"
    and "\<lbrakk>area_ram E p 0x32 (mem u); is_ram E (mem u) (cf_addr t); is_ram E (mem u) (cf_addr t + 1);
          {cf_addr t, cf_addr t + 1} \<inter> field_at p 0 0x32 = {}\<rbrakk> \<Longrightarrow> rm_results (rm_read E p (mem t)) (rm_of u)"
proof -
  show "same_client s t" "reg_eip t = reg_eip u"
    using assms(1) unfolding same_client_def t_def rm_leave_def Let_def
    by (simp_all add: wr_def reloads_def CPU_SET_CRX_def set_cf_def Let_def)
  assume r: "area_ram E p 0x32 (mem u)" and c: "is_ram E (mem u) (cf_addr t)" "is_ram E (mem u) (cf_addr t + 1)"
    and apart: "{cf_addr t, cf_addr t + 1} \<inter> field_at p 0 0x32 = {}"
  show "rm_results (rm_read E p (mem t)) (rm_of u)"
  proof -
    define s1 where "s1 = reload (wr (CPU_LIDT C (idtr_limit C (mem s)) (idtr_base C (mem s))) (CPU_SET_CRX C 0 (cpu_cr0 s) u))"
    have "same_outside E {} (mem (wr (CPU_LIDT C (idtr_limit C (mem s)) (idtr_base C (mem s))) (CPU_SET_CRX C 0 (cpu_cr0 s) u))) (mem s1)"
      using assms(1) unfolding s1_def reloads_def by blast
    then have m1: "same_outside E {} (mem u) (mem s1)"
      using same_outside_trans [OF same_outside_trans [OF table_regs(7) lgdt_same(2)]] by (simp add: wr_def CPU_SET_CRX_def)
    have r1: "area_ram E p 0x32 (mem s1)" using r area_ram_same [OF m1] by simp
    define m2 where "m2 = rm_write E p (rm_of u) (mem s1)"
    have r2: "area_ram E p 0x32 m2" unfolding m2_def by (rule rm_write_ram [OF r1])
    obtain w where t: "mem t = mem_writew E (cf_addr t) w m2"
      unfolding t_def rm_leave_def Let_def s1_def [symmetric] by (auto simp: set_cf_def Let_def m2_def wr_def)
    have "is_ram E m2 b = is_ram E (mem u) b" for b
      using rm_write_ram_iff [OF r1] m1 by (simp add: m2_def same_outside_def)
    then have "same_outside E {cf_addr t, cf_addr t + 1} m2 (mem t)"
      using c unfolding t by (intro same_outside_writew) simp_all
    then have "rm_read E p (mem t) = rm_read E p m2" using rm_read_same r2 apart by blast
    then show ?thesis unfolding m2_def using rm_read_write [OF r1] by simp
  qed
qed

end

section \<open>The frames of an exception\<close>

lemma exc_frame_writeds:
  "exc_frame E p ret f m = writeds E p [ucast ret, ucast PM_CB3_SEL, f_err f, f_eip f, f_cs f, f_eflags f, f_esp f, ucast (f_ss f)] m"
  by (simp add: exc_frame_def Let_def add.assoc)

lemma dispatch_handled:
  assumes "dosiz_pm_exc_dispatch E vec gd s = (Handled, gd', t)"
  defines "f \<equiv> read_fault E vec (seg_phys s SS + reg_esp s) (mem s)" and "q \<equiv> seg_phys s SS + reg_esp s + (if has_err vec then 4 else 0)"
  shows "mem t = writeds E q [exc_off (s_pm_exc s ! vec), ucast ((exc_sel (s_pm_exc s ! vec) AND 0xFFFC) OR 3), f_eflags f AND NOT 0x200,
      PM_CB_STACK_SIZE - 32, ucast PM_EXC_STACK_SEL] (exc_frame E (PM_EXC_STACK_BASE + (PM_CB_STACK_SIZE - 32)) (s_pm_exc_ret_off s) f (mem s))"
    and "seg_phys t SS + reg_esp t = q"
  using assms(1) unfolding dosiz_pm_exc_dispatch_def Let_def f_def [symmetric] q_def
  by (auto simp: wr_def add.assoc split: if_splits)

lemma lo16_ucast [simp]: "lo16 (ucast (w :: u16)) = w"
  unfolding lo16_def by (rule bit_word_eqI) (simp add: bit_simps)

lemma ucast_16_32_eq: "(ucast (w :: u16) :: u32) = ucast w' \<longleftrightarrow> w = w'"
  by (metis lo16_ucast)

text \<open>The exceptions a client raises one after the other, each delivered with the guard the one before left.\<close>

fun deliveries :: "'m emu88 \<Rightarrow> nat \<Rightarrow> guard \<Rightarrow> ('m, 'z) dpmi_host_scheme list \<Rightarrow> exc_result list" where
  "deliveries E vec gd [] = []"
| "deliveries E vec gd (s # ss) = (case dosiz_pm_exc_dispatch E vec gd s of (r, gd, _) \<Rightarrow> r # deliveries E vec gd ss)"

definition faults_at :: "'m emu88 \<Rightarrow> nat \<Rightarrow> u16 \<Rightarrow> u32 \<Rightarrow> ('m, 'z) machine_scheme \<Rightarrow> bool" where
  "faults_at E vec cs eip s \<longleftrightarrow> (let f = read_fault E vec (seg_phys s SS + reg_esp s) (mem s) in f_cs f = ucast cs \<and> f_eip f = eip)
     \<and> cs AND 3 \<noteq> 0"

lemma dispatch_step:
  assumes "faults_at E vec cs eip s" and "dosiz_pm_exc_dispatch E vec gd s = (r, gd', t)"
  shows "r = Terminate \<or> last_fault_cs gd' = cs \<and> last_fault_eip gd' = eip
    \<and> recursive_fault_count gd' = (if last_fault_cs gd = cs \<and> last_fault_eip gd = eip then recursive_fault_count gd + 1 else 0)"
    and "r \<noteq> Terminate \<Longrightarrow> recursive_fault_count gd' \<le> 4 \<or> \<not> (last_fault_cs gd = cs \<and> last_fault_eip gd = eip)"
proof -
  have cs: "lo16 (mem_readd E (mem s) (seg_phys s SS + reg_esp s + (if has_err vec then 8 else 4))) = cs"
    using assms(1) lo16_ucast [of cs] by (auto simp: faults_at_def read_fault_def Let_def add.assoc)
  have f: "f_cs (read_fault E vec (seg_phys s SS + reg_esp s) (mem s)) = ucast cs" "f_eip (read_fault E vec (seg_phys s SS + reg_esp s) (mem s)) = eip" "cs AND 3 \<noteq> 0"
    using assms(1) by (simp_all add: faults_at_def Let_def)
  note d = assms(2) [unfolded dosiz_pm_exc_dispatch_def Let_def cs f ucast_16_32_eq]
  show "r = Terminate \<or> last_fault_cs gd' = cs \<and> last_fault_eip gd' = eip
    \<and> recursive_fault_count gd' = (if last_fault_cs gd = cs \<and> last_fault_eip gd = eip then recursive_fault_count gd + 1 else 0)"
    "r \<noteq> Terminate \<Longrightarrow> recursive_fault_count gd' \<le> 4 \<or> \<not> (last_fault_cs gd = cs \<and> last_fault_eip gd = eip)"
    using d f(3) lo16_ucast [of cs] by (auto split: if_splits)
qed

lemma deliveries_again:
  assumes "\<forall>s \<in> set ss. faults_at E vec cs eip s" and "last_fault_cs gd = cs" and "last_fault_eip gd = eip"
    and "5 \<le> recursive_fault_count gd + int (length ss)" and "recursive_fault_count gd \<le> 4"
  shows "Terminate \<in> set (deliveries E vec gd ss)"
  using assms
proof (induction ss arbitrary: gd)
  case (Cons s ss)
  obtain r gd' t where d: "dosiz_pm_exc_dispatch E vec gd s = (r, gd', t)" by (cases "dosiz_pm_exc_dispatch E vec gd s") auto
  show ?case
  proof (cases "r = Terminate")
    case False
    note st = dispatch_step [OF _ d, of cs eip]
    have "last_fault_cs gd' = cs" "last_fault_eip gd' = eip" "recursive_fault_count gd' = recursive_fault_count gd + 1" "recursive_fault_count gd' \<le> 4"
      using st False Cons.prems by auto
    then show ?thesis using Cons.IH [of gd'] Cons.prems by (simp add: d)
  qed (simp add: d)
qed simp

text \<open>The frame \<open>dosiz_pm_exc_ret\<close> leaves for the IRETD, at \<open>p\<close>.\<close>

context emu88_engine
begin

lemma three_dwords:
  fixes a b c p :: u32
  assumes "area_ram E p 12 m"
  defines "m' \<equiv> mem_writed E (p + 8) c (mem_writed E (p + 4) b (mem_writed E (p + 0) a m))"
  shows "mem_readd E m' p = a" and "mem_readd E m' (p + 4) = b" and "mem_readd E m' (p + 8) = c"
proof -
  define m1 where "m1 = mem_writed E (p + 0) a m"
  define m2 where "m2 = mem_writed E (p + 4) b m1"
  have m': "m' = mem_writed E (p + 8) c m2" by (simp add: m'_def m2_def m1_def)
  have r1: "area_ram E p 12 m1" unfolding m1_def by (rule area_ram_write(1) [OF assms(1)]) simp
  have r2: "area_ram E p 12 m2" unfolding m2_def by (rule area_ram_write(1) [OF r1]) simp
  note w1 = writed_field [OF assms(1), of 0 a, folded m1_def] and w2 = writed_field [OF r1, of 4 b, folded m2_def]
    and w3 = writed_field [OF r2, of 8 c, folded m']
  show "mem_readd E m' p = a" "mem_readd E m' (p + 4) = b" "mem_readd E m' (p + 8) = c"
    using w1(2) w2(2) w3(2) read_field_same(1) [OF w2(1) r1, of 0] read_field_same(1) [OF w3(1) r2, of 0] read_field_same(1) [OF w3(1) r2, of 4]
    by simp_all
qed

end

context pm_engine
begin

lemma exc_ret_frame:
  fixes u :: "('m, 'z) machine_scheme" and f :: fault
  defines "fp \<equiv> seg_phys u SS + (if stack_big u then reg_esp u else ucast (reg_sp u))" and "t \<equiv> dosiz_pm_exc_ret E u"
    and "p \<equiv> seg_cache_base E (load_segment E (mem u) SS (f_ss f)) SS + (f_esp f - 12)"
  assumes "mem_readd E (mem u) (fp + 4) = f_eip f" and "mem_readd E (mem u) (fp + 8) = f_cs f" and "mem_readd E (mem u) (fp + 12) = f_eflags f"
    and "mem_readd E (mem u) (fp + 16) = f_esp f" and "lo16 (mem_readd E (mem u) (fp + 20)) = f_ss f" and "area_ram E p 12 (mem u)"
  shows "iret_frame E True p (mem t) = (f_eip f, lo16 (f_cs f), f_eflags f, 12)" and "stack_big t \<Longrightarrow> seg_phys t SS + reg_esp t = p"
proof -
  define m0 where "m0 = load_segment E (mem u) SS (f_ss f)"
  have r: "area_ram E p 12 m0" unfolding m0_def using area_ram_same [OF segment_loads(1)] assms(9) by simp
  have mt: "mem t = mem_writed E (p + 8) (f_eflags f) (mem_writed E (p + 4) (f_cs f) (mem_writed E (p + 0) (f_eip f) m0))"
    unfolding t_def dosiz_pm_exc_ret_def Let_def fp_def [symmetric] assms(4-8)
    by (simp add: CPU_SetSegGeneral_def mirror_seg_def wr_def p_def m0_def set_sp_def Let_def)
  show "iret_frame E True p (mem t) = (f_eip f, lo16 (f_cs f), f_eflags f, 12)"
    unfolding iret_frame_def mt using three_dwords [OF r] by simp
  show "seg_phys t SS + reg_esp t = p" if "stack_big t"
    using that unfolding t_def dosiz_pm_exc_ret_def Let_def fp_def [symmetric] assms(4-8)
    by (simp add: CPU_SetSegGeneral_def mirror_seg_def wr_def p_def set_sp_def Let_def split: if_splits)
qed

end

context pm_engine
begin

lemma exception_round:
  fixes s t :: "('m, 'z) dpmi_host_scheme" and u :: "('m, 'y) machine_scheme"
  assumes "dosiz_pm_exc_dispatch E vec gd s = (Handled, gd', t)"
  defines "f \<equiv> read_fault E vec (seg_phys s SS + reg_esp s) (mem s)"
    and "p \<equiv> seg_cache_base E (load_segment E (mem u) SS (f_ss (read_fault E vec (seg_phys s SS + reg_esp s) (mem s)))) SS
       + (f_esp (read_fault E vec (seg_phys s SS + reg_esp s) (mem s)) - 12)"
  assumes "kernel_ram E (mem s)" and "unat (seg_phys t SS + reg_esp t) + 20 \<le> 0x10AFE0"
    and "same_outside E S (mem t) (mem u)" and "S \<inter> area 0x10AFE8 24 = {}"
    and "seg_phys u SS + (if stack_big u then reg_esp u else ucast (reg_sp u)) = PM_EXC_STACK_BASE + 0xFE8"
    and "area_ram E p 12 (mem u)"
  shows "i < 5 \<Longrightarrow> mem_readd E (mem t) (seg_phys t SS + reg_esp t + of_nat (4 * i)) = [exc_off (s_pm_exc s ! vec),
      ucast ((exc_sel (s_pm_exc s ! vec) AND 0xFFFC) OR 3), f_eflags f AND NOT 0x200, 0xFE0, ucast PM_EXC_STACK_SEL] ! i"
    and "iret_frame E True p (mem (dosiz_pm_exc_ret E u)) = (f_eip f, lo16 (f_cs f), f_eflags f, 12)"
    and "stack_big (dosiz_pm_exc_ret E u) \<Longrightarrow> seg_phys (dosiz_pm_exc_ret E u) SS + reg_esp (dosiz_pm_exc_ret E u) = p"
proof -
  let ?frame = "[ucast (s_pm_exc_ret_off s), ucast PM_CB3_SEL, f_err f, f_eip f, f_cs f, f_eflags f, f_esp f, ucast (f_ss f)] :: u32 list"
  let ?iret = "[exc_off (s_pm_exc s ! vec), ucast ((exc_sel (s_pm_exc s ! vec) AND 0xFFFC) OR 3), f_eflags f AND NOT 0x200, 0xFE0,
      ucast PM_EXC_STACK_SEL] :: u32 list"
  define e where "e = PM_EXC_STACK_BASE + 0xFE0"
  define q where "q = seg_phys t SS + reg_esp t"
  have e: "unat e = 0x10AFE0" by (simp add: e_def PM_EXC_STACK_BASE_def)
  define m1 where "m1 = writeds E e ?frame (mem s)"
  have mt: "mem t = writeds E q ?iret m1"
    using dispatch_handled [OF assms(1)] unfolding q_def m1_def e_def f_def by (simp add: exc_frame_writeds PM_CB_STACK_SIZE_def)
  have w1: "same_outside E (area 0x10AFE0 32) (mem s) m1" "\<And>i. i < 8 \<Longrightarrow> mem_readd E m1 (e + of_nat (4 * i)) = ?frame ! i"
    using writeds_low [OF assms(4), of e ?frame] e unfolding m1_def by simp_all
  have r1: "kernel_ram E m1" using kernel_ram_same [OF w1(1)] assms(4) by simp
  have w2: "same_outside E (area (unat q) 20) m1 (mem t)" "\<And>i. i < 5 \<Longrightarrow> mem_readd E (mem t) (q + of_nat (4 * i)) = ?iret ! i"
    using writeds_low [OF r1, of q ?iret] assms(5) unfolding mt q_def by simp_all
  show "mem_readd E (mem t) (seg_phys t SS + reg_esp t + of_nat (4 * i)) = ?iret ! i" if "i < 5"
    using w2(2) [OF that] unfolding q_def .
  have rt: "kernel_ram E (mem t)" using kernel_ram_same [OF w2(1)] r1 by simp
  have slot: "mem_readd E (mem u) (e + of_nat (4 * i)) = ?frame ! i" if "2 \<le> i" "i < 8" for i
  proof -
    have ei: "unat (e + of_nat (4 * i)) = 0x10AFE0 + 4 * i" using unat_plus_of_nat [of e "4 * i"] e that by simp
    have "S \<inter> area (unat (e + of_nat (4 * i))) 4 = {}" using assms(7) that unfolding ei by (auto simp: area_def)
    moreover have "area (unat q) 20 \<inter> area (unat (e + of_nat (4 * i))) 4 = {}"
      unfolding ei using assms(5) that by (intro area_disjoint) (simp add: q_def)
    ultimately show ?thesis
      using readd_keep [OF assms(6) rt, of "e + of_nat (4 * i)"] readd_keep [OF w2(1) r1, of "e + of_nat (4 * i)"] w1(2) that ei by simp
  qed
  have fp: "PM_EXC_STACK_BASE + 0xFE8 + k = e + (8 + k)" for k by (simp add: e_def add.assoc)
  note fr = exc_ret_frame [of u f, unfolded assms(8) fp, folded f_def p_def]
  have sl: "mem_readd E (mem u) (e + 12) = f_eip f" "mem_readd E (mem u) (e + 16) = f_cs f" "mem_readd E (mem u) (e + 20) = f_eflags f"
      "mem_readd E (mem u) (e + 24) = f_esp f" "mem_readd E (mem u) (e + 28) = ucast (f_ss f)"
    using slot [of 3] slot [of 4] slot [of 5] slot [of 6] slot [of 7] by simp_all
  show "iret_frame E True p (mem (dosiz_pm_exc_ret E u)) = (f_eip f, lo16 (f_cs f), f_eflags f, 12)"
    "stack_big (dosiz_pm_exc_ret E u) \<Longrightarrow> seg_phys (dosiz_pm_exc_ret E u) SS + reg_esp (dosiz_pm_exc_ret E u) = p"
    using fr sl assms(9) unfolding p_def f_def [symmetric] by simp_all
qed

end

section \<open>Back from a callback\<close>

lemma lo16_flags: "lo16 (ucast (w :: u16) OR (f AND 0xFFFF0000)) = w"
proof -
  have k: "(0xFFFF0000 :: u32) = push_bit 16 0xFFFF" by simp
  show ?thesis unfolding lo16_def k by (rule bit_word_eqI) (auto simp: bit_simps simp del: push_bit_numeral)
qed

context exec_engine
begin

lemma SegSet16_real:
  "seg_val (SegSet16 E sg w s) = (seg_val s)(sg := w)" "same_outside E {} (mem s) (mem (SegSet16 E sg w s))"
  by (simp_all add: SegSet16_def mirror_seg_def Let_def real_seg segment_loads(2))

lemma rm_return_regs:
  fixes s0 s :: "('m, 'z) machine_scheme" and p :: u32
  defines "t \<equiv> rm_return E p s0 s"
  shows "reg_eip t = reg_eip s0" and "reg_esp t = reg_esp s0" and "seg_val t CS = seg_val s0 CS" and "seg_val t SS = seg_val s0 SS"
    and "cpu_cr0 t = cpu_cr0 s" and "area_ram E p 0x32 (mem s) \<Longrightarrow> rm_results (rm_of t) (rm_read E p (mem s))"
proof -
  show "reg_eip t = reg_eip s0" "reg_esp t = reg_esp s0" "seg_val t CS = seg_val s0 CS" "seg_val t SS = seg_val s0 SS" "cpu_cr0 t = cpu_cr0 s"
    by (simp_all add: t_def rm_return_def Let_def SegSet16_real SegSet16_def mirror_seg_def real_seg)
  show "rm_results (rm_of t) (rm_read E p (mem s))" if "area_ram E p 0x32 (mem s)"
  proof -
    have load: "area_ram E p 0x32 (load_segment_real E m sg w) = area_ram E p 0x32 m" for m sg w by (rule area_ram_same [OF segment_loads(2)])
    have word: "mem_readw E (load_segment_real E m sg w) (p + x) = mem_readw E m (p + x)"
      if "area_ram E p 0x32 m" "unat x + 2 \<le> 0x32" for m sg w x
      using readw_same [OF segment_loads(2)] field_ram [OF that] by simp
    show ?thesis
      using that by (simp add: t_def rm_return_def Let_def SegSet16_real SegSet16_def mirror_seg_def real_seg rm_results_def rm_of_def load word rm_read_def lo16_flags)
  qed
qed

end

context exec_engine
begin

lemma rm_callback_round:
  fixes s t :: "('m, 'z) dpmi_scheme" and idx :: nat
  defines "cb \<equiv> s_rm_callbacks s ! idx"
  defines "p \<equiv> pm_selector_linear E (mem s) (rmcb_struct_sel cb) (rmcb_struct_off cb)"
  assumes "do_rm_callback E C run rm_stop idx s = Some t" and "idx < length (s_rm_callbacks s)" and "rmcb_allocated cb"
  shows "\<exists>v u. run v = Some u \<and> reg_eip v = rmcb_pm_eip cb \<and> reg_edi v = rmcb_struct_off cb \<and> cpu_pmode v
    \<and> reg_eip t = reg_eip s \<and> reg_esp t = reg_esp s \<and> seg_val t CS = seg_val s CS \<and> seg_val t SS = seg_val s SS \<and> cpu_cr0 t = cpu_cr0 s
    \<and> (area_ram E p 0x32 (mem u) \<longrightarrow> rm_results (rm_of t) (rm_read E p (mem u)))"
proof -
  have n: "\<not> (length (s_rm_callbacks s) \<le> idx \<or> \<not> rmcb_allocated cb)" using assms(4,5) by simp
  obtain v u s1 where v: "run v = Some u" "reg_eip v = rmcb_pm_eip cb" "reg_edi v = rmcb_struct_off cb" "cpu_pmode v"
      and t: "t = rm_return E p s s1" and s1: "same_outside E {} (mem u) (mem s1)" "cpu_cr0 s1 = cpu_cr0 s"
  proof -
    let ?v = "rm_callback_entry E C rm_stop cb p s" and ?m = "rm_write_all E p (rm_of s) (mem s)"
    obtain u where u: "run ?v = Some u" "t = rm_return E p s (wr (CPU_LIDT C (idtr_limit C ?m) (idtr_base C ?m)) (CPU_SET_CRX C 0 (cpu_cr0 s) u))"
      using assms(3) n unfolding do_rm_callback_def Let_def p_def cb_def by auto
    have "reg_eip ?v = rmcb_pm_eip cb \<and> reg_edi ?v = rmcb_struct_off cb \<and> cpu_pmode ?v"
      by (auto simp: rm_callback_entry_def Let_def push_far_def wr_def CPU_SetSegGeneral_def mirror_seg_def CPU_LoadCSCache_def CPU_SET_CRX_def bit_simps)
    moreover have "same_outside E {} (mem u) (mem (wr (CPU_LIDT C (idtr_limit C ?m) (idtr_base C ?m)) (CPU_SET_CRX C 0 (cpu_cr0 s) u)))"
      using same_outside_trans [OF table_regs(7) lgdt_same(2)] by (simp add: wr_def CPU_SET_CRX_def)
    ultimately show thesis using that [OF u(1) _ _ _ u(2)] by (simp add: wr_def CPU_SET_CRX_def)
  qed
  have "area_ram E p 0x32 (mem s1) = area_ram E p 0x32 (mem u)" by (rule area_ram_same [OF s1(1)])
  moreover have "area_ram E p 0x32 (mem u) \<Longrightarrow> rm_read E p (mem s1) = rm_read E p (mem u)"
    using rm_read_same [OF s1(1)] by simp
  ultimately show ?thesis
    using v rm_return_regs [where s = s1 and p = p and ?s0.0 = s, folded t] s1(2) by (intro exI [of _ v] exI [of _ u]) simp
qed

end

section \<open>Properties\<close>

text \<open>A run begins in real mode with the general registers of the structure.\<close>

definition begins :: "rm_regs \<Rightarrow> ('m, 'z) machine_scheme \<Rightarrow> bool" where
  "begins r v \<longleftrightarrow> reg_eax v = rr_eax r \<and> reg_ebx v = rr_ebx r \<and> reg_ecx v = rr_ecx r \<and> reg_edx v = rr_edx r
     \<and> reg_esi v = rr_esi r \<and> reg_edi v = rr_edi r \<and> reg_ebp v = rr_ebp r \<and> \<not> cpu_pmode v \<and> \<not> bit (cpu_cr0 v) 0"

text \<open>The structure at \<open>p\<close> lies in RAM, apart from the flags image whose carry the call clears.\<close>

definition struct_apart :: "'m emu88 \<Rightarrow> u32 \<Rightarrow> u32 \<Rightarrow> 'm \<Rightarrow> bool" where
  "struct_apart E p cf m \<longleftrightarrow> area_ram E p 0x32 m \<and> is_ram E m cf \<and> is_ram E m (cf + 1) \<and> {cf, cf + 1} \<inter> field_at p 0 0x32 = {}"

lemma begins_seg [simp]:
  "begins r (SegSet16 E sg v s) = begins r s" "begins r (s\<lparr>reg_eip := ip\<rparr>) = begins r s" "begins r (s\<lparr>reg_esp := sp\<rparr>) = begins r s"
  "begins r (wr f s) = begins r s"
  by (simp_all add: begins_def SegSet16_def mirror_seg_def wr_def Let_def)

lemma rm_enter_begins: "begins r (rm_enter E C r sg sp s)"
  unfolding rm_enter_def Let_def
  by (cases "rr_ss r = 0") (simp_all, simp_all add: begins_def SegSet16_def mirror_seg_def CPU_SET_CRX_def wr_def Let_def bit_simps)

lemma run_from_outcome:
  assumes "run_from E run sg off s = Some w"
  shows "\<exists>v u. run v = Some u \<and> (\<forall>r. begins r s \<longrightarrow> begins r v) \<and> w = SegSet16 E CS (seg_val s CS) (u\<lparr>reg_eip := reg_eip s\<rparr>)"
proof -
  obtain u where "run (SegSet16 E CS sg (s\<lparr>reg_eip := off\<rparr>)) = Some u" "w = SegSet16 E CS (seg_val s CS) (u\<lparr>reg_eip := reg_eip s\<rparr>)"
    using assms by (auto simp: run_from_def Let_def)
  then show ?thesis by (intro exI [of _ "SegSet16 E CS sg (s\<lparr>reg_eip := off\<rparr>)"] exI [of _ u]) simp
qed

lemma RunRealFar_from:
  assumes "CALLBACK_RunRealFar E run stop sg off s = Some w"
  obtains e where "run_from E run sg (ucast off) e = Some w" "\<And>r. begins r e = begins r s" "reg_eip e = reg_eip s"
proof -
  let ?P = "CALLBACK_RealPointer stop" and ?s = "set_sp (reg_sp s - 4) s"
  let ?e1 = "wr (real_writew E (seg_val ?s SS) (reg_sp ?s + 0) (RealOff ?P)) ?s"
  let ?e = "wr (real_writew E (seg_val ?e1 SS) (reg_sp ?e1 + 2) (RealSeg ?P)) ?e1"
  have "begins r ?e = begins r s" for r unfolding begins_seg by (simp add: begins_def set_sp_def)
  moreover have "reg_eip ?e = reg_eip s" by (simp add: wr_def set_sp_def)
  ultimately show thesis using assms that [of ?e] unfolding CALLBACK_RunRealFar_def Let_def by blast
qed

context pm_engine
begin

lemma leave_after:
  fixes s u w :: "('m, 'z) machine_scheme" and p :: u32
  assumes "reloads E reload" and "w = SegSet16 E CS cs (u\<lparr>reg_eip := ip\<rparr>)"
  defines "t \<equiv> rm_leave E C reload s p w"
  shows "same_client s t \<and> reg_eip t = ip \<and> (struct_apart E p (cf_addr t) (mem u) \<longrightarrow> rm_results (rm_read E p (mem t)) (rm_of u))"
proof -
  have same: "same_outside E {} (mem u) (mem w)" using segment_loads(2) by (simp add: assms(2) SegSet16_def mirror_seg_def Let_def)
  have of: "rm_results x (rm_of w) = rm_results x (rm_of u)" for x
    by (simp add: rm_results_def rm_of_def assms(2) SegSet16_def mirror_seg_def Let_def)
  have "reg_eip w = ip" by (simp add: assms(2))
  then show ?thesis
    using rm_leave_returns [OF assms(1), where s = s and p = p and u = w, folded t_def] area_ram_same [OF same] same
    unfolding struct_apart_def of same_outside_def by simp
qed

lemma rm_calls:
  fixes s t :: "('m, 'z) machine_scheme"
  defines "p \<equiv> seg_phys s ES + reg_edi s"
  assumes "int31_0300 E C run exited s = Some (False, t) \<or> int31_0301 E C run stop s = Some t"
  shows "same_client s t \<and> reg_eip t = reg_eip s \<and> (\<exists>v u. run v = Some u \<and> begins (rm_read E p (mem s)) v
    \<and> (struct_apart E p (cf_addr t) (mem u) \<longrightarrow> rm_results (rm_read E p (mem t)) (rm_of u)))"
proof -
  let ?r = "rm_read E p (mem s)"
  have call: ?thesis if "run_from E run sg off e = Some w" "begins ?r e" "reg_eip e = reg_eip s" "t = rm_leave E C reload s p w" "reloads E reload"
    for reload sg off e w
    using run_from_outcome [OF that(1)] leave_after [OF that(5), where s = s and p = p] that(2-4) by metis
  from assms(2) show ?thesis
  proof
    assume "int31_0300 E C run exited s = Some (False, t)"
    then obtain w where w: "run_from E run CB_SEG (of_nat (CB_SOFFSET + CB_MAX * CB_SIZE + unat (reg_bl s) * 6)) (rm_enter E C ?r 0x9000 0xFFF0 s) = Some w"
        "t = rm_leave E C (reload_present E (seg_val s)) s p w"
      unfolding int31_0300_def CALLBACK_RunRealInt_def Let_def p_def by (auto split: option.splits if_splits)
    show ?thesis by (rule call [OF w(1) rm_enter_begins rm_enter_eip w(2) reloads_client(2)])
  next
    assume "int31_0301 E C run stop s = Some t"
    then obtain w where w: "CALLBACK_RunRealFar E run stop (rr_cs ?r) (rr_ip ?r) (rm_enter E C ?r 0x0050 0x0F00 s) = Some w"
        "t = rm_leave E C (reload_all E (seg_val s)) s p w"
      unfolding int31_0301_def Let_def p_def by auto
    obtain e where e: "run_from E run (rr_cs ?r) (ucast (rr_ip ?r)) e = Some w"
        "\<And>r. begins r e = begins r (rm_enter E C ?r 0x0050 0x0F00 s)" "reg_eip e = reg_eip (rm_enter E C ?r 0x0050 0x0F00 s)"
      using RunRealFar_from [OF w(1)] by blast
    show ?thesis
      by (rule call [OF e(1) _ _ w(2) reloads_client(1)]) (simp_all add: e(2,3) rm_enter_begins)
  qed
qed

lemma rm_iret_call:
  fixes s t :: "('m, 'z) machine_scheme"
  defines "p \<equiv> seg_phys s ES + reg_edi s"
  assumes "int31_0302 E C run rm_stop s = Some t"
  shows "same_client s t \<and> (\<exists>v u. run v = Some u \<and> begins (rm_read E p (mem s)) v \<and> reg_eip t = reg_eip u
    \<and> (struct_apart E p (cf_addr t) (mem u) \<longrightarrow> rm_results (rm_read E p (mem t)) (rm_of u)))"
proof -
  obtain v u where v: "run v = Some u" "begins (rm_read E p (mem s)) v" "t = rm_leave E C (reload_all E (seg_val s)) s p u"
  proof -
    let ?r = "rm_read E p (mem s)"
    define e where "e = rm_enter E C ?r 0x0050 0x0F00 s"
    define e1 where "e1 = e\<lparr>reg_esp := (reg_esp e - 6) AND 0xFFFF\<rparr>"
    define e2 where "e2 = wr (real_writew E (seg_val e1 SS) (reg_sp e1 + 0) (RealOff rm_stop)) e1"
    define e3 where "e3 = wr (real_writew E (seg_val e2 SS) (reg_sp e2 + 2) (RealSeg rm_stop)) e2"
    define e4 where "e4 = wr (real_writew E (seg_val e3 SS) (reg_sp e3 + 4) (rr_flags ?r)) e3"
    define v where "v = SegSet16 E CS (rr_cs ?r) (e4\<lparr>reg_eip := ucast (rr_ip ?r)\<rparr>)"
    have "begins ?r v" unfolding v_def e4_def e3_def e2_def e1_def begins_seg unfolding e_def by (rule rm_enter_begins)
    moreover obtain u where "run v = Some u" "t = rm_leave E C (reload_all E (seg_val s)) s p u"
      using assms(2) unfolding int31_0302_def Let_def p_def v_def e4_def e3_def e2_def e1_def e_def by auto
    ultimately show thesis using that by blast
  qed
  note r = rm_leave_returns [OF reloads_client(1) [of "seg_val s"], where s = s and p = p and u = u, folded v(3)]
  have "struct_apart E p (cf_addr t) (mem u) \<longrightarrow> rm_results (rm_read E p (mem t)) (rm_of u)"
    using r(3) unfolding struct_apart_def by simp
  with r(1,2) v(1,2) show ?thesis by blast
qed

end

text \<open>C26: the real-mode calls AX=0300h and AX=0301h are transparent. Whatever the real-mode code does, the client gets back its
  general registers, instruction pointer, code segment and processor mode; the code runs in real mode with the
  registers of the call structure; and at the return the structure has the registers and segments the run ended with.\<close>

theorem rm_call_returns:
  fixes s t :: "('m, 'z) machine_scheme"
  assumes "pm_engine E C kf" and "int31_0300 E C run exited s = Some (False, t) \<or> int31_0301 E C run stop s = Some t"
  shows "same_client s t \<and> reg_eip t = reg_eip s \<and> (\<exists>v u. run v = Some u \<and> begins (rm_read E (seg_phys s ES + reg_edi s) (mem s)) v
    \<and> (struct_apart E (seg_phys s ES + reg_edi s) (cf_addr t) (mem u) \<longrightarrow> rm_results (rm_read E (seg_phys s ES + reg_edi s) (mem t)) (rm_of u)))"
  using pm_engine.rm_calls [OF assms] .

text \<open>AX=0302h returns registers and results the same way, but not the instruction pointer: the client resumes at
  the offset where the nested run ended.\<close>

theorem rm_iret_call_loses_eip:
  fixes s t :: "('m, 'z) machine_scheme"
  assumes "pm_engine E C kf" and "int31_0302 E C run rm_stop s = Some t"
  shows "same_client s t \<and> (\<exists>v u. run v = Some u \<and> begins (rm_read E (seg_phys s ES + reg_edi s) (mem s)) v \<and> reg_eip t = reg_eip u
    \<and> (struct_apart E (seg_phys s ES + reg_edi s) (cf_addr t) (mem u) \<longrightarrow> rm_results (rm_read E (seg_phys s ES + reg_edi s) (mem t)) (rm_of u)))"
  using pm_engine.rm_iret_call [OF assms] .

lemma pc_leave_cf:
  "\<not> bit (cpu_cr0 s) 0 \<Longrightarrow> cf_addr (rm_leave pc pc_cpu (reload_all pc (seg_val s)) s p u) = seg_lin (seg_val s SS) + ucast (reg_sp s) + 4"
  by (simp add: rm_leave_def Let_def cf_addr_def set_cf_def wr_def reload_all_def CPU_SetSegGeneral_def mirror_seg_def CPU_SET_CRX_def
      pc_def pc_cpu_def reg_sp_def)

text \<open>C27: an exception is delivered to the client's handler and undone by its return. The host's ring-0 stack holds the frame
  of an IRETD to the handler of the vector at privilege 3, with interrupts off and its private stack; a handler that
  leaves its exception frame alone and returns makes the host push, on the client's stack, exactly the
  interrupted instruction pointer, code segment and flags.\<close>

theorem exception_resumes:
  fixes s t :: "('m, 'z) dpmi_host_scheme" and u :: "('m, 'y) machine_scheme"
  assumes "pm_engine E C kf" and "dosiz_pm_exc_dispatch E vec gd s = (Handled, gd', t)"
    and "f = read_fault E vec (seg_phys s SS + reg_esp s) (mem s)"
    and "p = seg_cache_base E (load_segment E (mem u) SS (f_ss f)) SS + (f_esp f - 12)"
    and "kernel_ram E (mem s)" and "unat (seg_phys t SS + reg_esp t) + 20 \<le> 0x10AFE0"
    and "same_outside E S (mem t) (mem u)" and "S \<inter> area 0x10AFE8 24 = {}"
    and "seg_phys u SS + (if stack_big u then reg_esp u else ucast (reg_sp u)) = PM_EXC_STACK_BASE + 0xFE8"
    and "area_ram E p 12 (mem u)"
  shows "(\<forall>i < 5. mem_readd E (mem t) (seg_phys t SS + reg_esp t + of_nat (4 * i)) = [exc_off (s_pm_exc s ! vec),
      ucast ((exc_sel (s_pm_exc s ! vec) AND 0xFFFC) OR 3), f_eflags f AND NOT 0x200, 0xFE0, ucast PM_EXC_STACK_SEL] ! i)
    \<and> iret_frame E True p (mem (dosiz_pm_exc_ret E u)) = (f_eip f, lo16 (f_cs f), f_eflags f, 12)
    \<and> (stack_big (dosiz_pm_exc_ret E u) \<longrightarrow> seg_phys (dosiz_pm_exc_ret E u) SS + reg_esp (dosiz_pm_exc_ret E u) = p)"
  using pm_engine.exception_round [OF assms(1,2,5-9)] assms(10) unfolding assms(3,4) by simp

text \<open>C29: a client whose handler faults again at the same instruction does not loop for ever: of any six exceptions in a row
  at one place one ends the program.\<close>

theorem exception_loop_ends:
  assumes "\<forall>s \<in> set ss. faults_at E vec cs eip s" and "6 \<le> length ss" and "0 \<le> recursive_fault_count gd"
  shows "Terminate \<in> set (deliveries E vec gd ss)"
proof (cases ss)
  case (Cons s ss')
  obtain r gd' t where d: "dosiz_pm_exc_dispatch E vec gd s = (r, gd', t)" by (cases "dosiz_pm_exc_dispatch E vec gd s") auto
  show ?thesis
  proof (cases "r = Terminate")
    case False
    then show ?thesis
      using dispatch_step [OF _ d, of cs eip] deliveries_again [of ss' E vec cs eip gd'] assms Cons d by (auto split: if_splits)
  qed (simp add: Cons d)
qed (use assms in simp)

text \<open>C30: a real-mode callback (AX=0303h) runs the client's procedure in protected mode at its entry point with EDI on its
  structure, and comes back to the real-mode caller: instruction pointer, code and stack segment, stack pointer and
  mode are the caller's, the other registers and segments those the procedure left in the structure.\<close>

theorem rm_callback_returns:
  fixes s t :: "('m, 'z) dpmi_scheme"
  assumes "exec_engine E C kf" and "do_rm_callback E C run rm_stop idx s = Some t" and "idx < length (s_rm_callbacks s)"
    and "s_rm_callbacks s ! idx = cb" and "rmcb_allocated cb" and "pm_selector_linear E (mem s) (rmcb_struct_sel cb) (rmcb_struct_off cb) = p"
  shows "\<exists>v u. run v = Some u \<and> reg_eip v = rmcb_pm_eip cb \<and> reg_edi v = rmcb_struct_off cb \<and> cpu_pmode v
    \<and> reg_eip t = reg_eip s \<and> reg_esp t = reg_esp s \<and> seg_val t CS = seg_val s CS \<and> seg_val t SS = seg_val s SS \<and> cpu_cr0 t = cpu_cr0 s
    \<and> (area_ram E p 0x32 (mem u) \<longrightarrow> rm_results (rm_of t) (rm_read E p (mem u)))"
  using exec_engine.rm_callback_round [OF assms(1-3)] assms(4-6) by simp

theorem rm_call_returns_witness:
  "let t = the (int31_0301 pc pc_cpu (\<lambda>v. Some (v\<lparr>reg_eax := 0x1234\<rparr>)) 5 pc_start)
   in reg_eax t = 1 \<and> reg_eip t = 0x10 \<and> rr_eax (rm_read pc 0x20006 (mem t)) = 0x1234"
proof -
  let ?run = "\<lambda>v. Some (v\<lparr>reg_eax := 0x1234\<rparr>) :: pc_state machine option"
  obtain t w where t: "int31_0301 pc pc_cpu ?run 5 pc_start = Some t" "t = rm_leave pc pc_cpu (reload_all pc (seg_val pc_start)) pc_start 0x20006 w"
    by (simp add: int31_0301_def CALLBACK_RunRealFar_def run_from_def Let_def) (simp add: pc_start_def)
  have "cf_addr t = 0x20104"
    unfolding t(2) by (subst pc_leave_cf) (simp_all add: pc_start_def reg_sp_def seg_lin_def lo16_def)
  then have "struct_apart pc 0x20006 (cf_addr t) m" for m
    using field_apart [of 0 "0x32" "0xFE" 0 _ "0x200" "0x20006"] field_apart [of 0 "0x32" "0xFF" 0 _ "0x200" "0x20006"]
    by (auto simp: struct_apart_def area_ram_def field_at_def)
  then show ?thesis
    using rm_call_returns [OF pc_pm.pm_engine_axioms, where s = pc_start and t = t and run = ?run and stop = 5] t(1)
    by (auto simp: same_client_def rm_results_def rm_of_def pc_start_def)
qed

text \<open>An invalid opcode of a ring-3 client at 000F:1200.\<close>

definition exc_start :: "pc_state dpmi_host" where
  "exc_start = pm_start\<lparr>mem := pc_frame\<lparr>pc_bytes := (\<lambda>_. 0)(0x20101 := 0x12, 0x20104 := 0x0F, 0x2010C := 0x20)\<rparr>,
     s_pm_exc := replicate 32 \<lparr>exc_sel = 0x17, exc_off = 0x500\<rparr>\<rparr>"

definition no_fault :: guard where "no_fault = \<lparr>recursive_fault_count = 0, last_fault_eip = 0, last_fault_cs = 0\<rparr>"

lemma exc_start_fault: "read_fault pc 6 (seg_phys exc_start SS + reg_esp exc_start) (mem exc_start)
    = \<lparr>f_err = 0, f_eip = 0x1200, f_cs = 0x0F, f_eflags = 0, f_esp = 0x20, f_ss = 0\<rparr>"
  by (simp add: read_fault_def has_err_def exc_start_def pm_start_def pc_start_def machine.defs arenas.defs dpmi.defs dpmi_host.defs
      mem_readd_def pc_def mk32_def mk16_def lo16_def)

theorem exception_loop_ends_witness: "Terminate \<in> set (deliveries pc 6 no_fault (replicate 6 exc_start))"
  by (rule exception_loop_ends [where cs = "0x0F" and eip = "0x1200"])
    (auto simp: faults_at_def exc_start_fault no_fault_def)

theorem exception_resumes_witness:
  "let t = snd (snd (dosiz_pm_exc_dispatch pc 6 no_fault exc_start)) in
   iret_frame pc True 0x14 (mem (dosiz_pm_exc_ret pc (t\<lparr>seg_phys := (\<lambda>_. PM_EXC_STACK_BASE), reg_esp := 0xFE8\<rparr>))) = (0x1200, 0x0F, 0, 12)"
proof -
  have cs: "lo16 (mem_readd pc (mem exc_start) (seg_phys exc_start SS + reg_esp exc_start + 4)) = 0x0F"
    by (simp add: exc_start_def pm_start_def pc_start_def machine.defs arenas.defs dpmi.defs dpmi_host.defs mem_readd_def pc_def mk32_def mk16_def lo16_def)
  have h: "exc_sel (s_pm_exc exc_start ! 6) = 0x17" by (simp add: exc_start_def)
  obtain gd' t where d: "dosiz_pm_exc_dispatch pc 6 no_fault exc_start = (Handled, gd', t)"
    using cs h by (simp add: dosiz_pm_exc_dispatch_def Let_def exc_start_fault has_err_def no_fault_def)
  have "seg_phys t SS + reg_esp t = seg_phys exc_start SS + reg_esp exc_start" "stack_big t = stack_big exc_start"
    using d cs h by (auto simp: dosiz_pm_exc_dispatch_def Let_def exc_start_fault has_err_def no_fault_def wr_def)
  then have q: "unat (seg_phys t SS + reg_esp t) + 20 \<le> 0x10AFE0" and b: "\<not> stack_big t"
    by (simp_all add: exc_start_def pm_start_def pc_start_def machine.defs arenas.defs dpmi.defs dpmi_host.defs)
  define u where "u = t\<lparr>seg_phys := (\<lambda>_. PM_EXC_STACK_BASE), reg_esp := 0xFE8\<rparr>"
  have base: "seg_cache_base pc (load_segment pc m SS 0) SS = 0" for m by (simp add: pc_def seg_lin_def)
  have "iret_frame pc True 0x14 (mem (dosiz_pm_exc_ret pc u)) = (0x1200, lo16 0x0F, 0, 12)"
    using exception_resumes [OF pc_pm.pm_engine_axioms d refl refl _ q, where u = u and S = "{}"] b
    by (simp add: exc_start_fault base u_def kernel_ram_def area_ram_def reg_sp_def lo16_def)
  then show ?thesis by (simp add: d u_def lo16_def)
qed

text \<open>A callback whose procedure at offset 0700h returns at once.\<close>

definition cb_start :: "pc_state dpmi_host" where
  "cb_start = pm_start\<lparr>s_rm_callbacks := [\<lparr>rmcb_allocated = True, rmcb_pm_cs = 0x0F, rmcb_pm_eip = 0x700, rmcb_struct_sel = 0x17,
     rmcb_struct_off = 0x40, rmcb_rm_addr = 0\<rparr>]\<rparr>"

theorem rm_callback_returns_witness:
  "\<exists>t. do_rm_callback pc pc_cpu (\<lambda>v. Some (v\<lparr>reg_eip := 0\<rparr>)) 0 0 cb_start = Some t \<and> seg_val t CS = seg_val cb_start CS
    \<and> reg_eip t = reg_eip cb_start \<and> reg_esp t = reg_esp cb_start \<and> \<not> bit (cpu_cr0 t) 0"
proof -
  obtain t where t: "do_rm_callback pc pc_cpu (\<lambda>v. Some (v\<lparr>reg_eip := 0\<rparr>)) 0 0 cb_start = Some t"
    by (simp add: do_rm_callback_def Let_def cb_start_def)
  have "cpu_cr0 cb_start = 0" by (simp add: cb_start_def pm_start_def pc_start_def machine.defs arenas.defs dpmi.defs dpmi_host.defs)
  then show ?thesis
    using rm_callback_returns [OF pc_exec.exec_engine_axioms t _ refl _ refl] t by (auto simp: cb_start_def)
qed

end
