(* ===== verification/Ems.thy ===== *)
theory Ems
  imports Machine Pool "HOL-Library.Multiset"
begin

text \<open>
  INT 67h of \<open>bridge.cc\<close>: the LIM EMS 4.0 manager with its copy-flush page frame, and the VCPI
  queries. The pool of 16 KB pages is a \<open>resource_pool\<close>; \<open>ems_inv L\<close> says that the used pages are those in \<open>L\<close> and
  the pages the handles own, each owned once, and \<open>ems_view\<close> is the contents of a pool page
  as the guest will see it, in the frame while it is mapped and in the pool otherwise.
  A handler that would index the pool outside its bounds returns None.
\<close>

section \<open>State\<close>

definition EMS_FRAME_SEG :: u16 where "EMS_FRAME_SEG = 0xE000"
definition EMS_FRAME_BASE :: u32 where "EMS_FRAME_BASE = 0xE0000"
definition EMS_PAGE_SIZE :: u32 where "EMS_PAGE_SIZE = 0x4000"
definition EMS_TOTAL_PAGES :: u16 where "EMS_TOTAL_PAGES = 512"
definition EMS_VERSION :: u8 where "EMS_VERSION = 0x40"
definition VCPI_VERSION :: u8 where "VCPI_VERSION = 0x10"

record ems_handle =
  pages :: "u16 list"
  handle_name :: "u8 list"
  map_saved :: bool
  saved_h :: "u16 list"
  saved_p :: "u16 list"

text \<open>\<open>s_ems_pool\<close> is a vector: its size, 0 before the first reset, and its bytes.\<close>

record 'm ems = "'m machine" +
  s_ems_pool_size :: nat
  s_ems_pool :: "nat \<Rightarrow> u8"
  s_ems_pool_used :: "bool list"
  s_ems_handles :: "(u16 \<times> ems_handle) list"
  s_ems_next_handle :: u16
  s_ems_slot_h :: "u16 list"
  s_ems_slot_p :: "u16 list"
  s_ems_slot_pool :: "u16 list"

definition new_handle :: ems_handle where
  "new_handle = \<lparr>pages = [], handle_name = replicate 8 0, map_saved = False,
     saved_h = replicate 4 0xFFFF, saved_p = replicate 4 0xFFFF\<rparr>"

section \<open>The page pool and the frame\<close>

definition ems_reset :: "'m ems \<Rightarrow> 'm ems" where
  "ems_reset s = (let
     s = (if s_ems_pool_size s = 0
       then s\<lparr>s_ems_pool_size := unat EMS_TOTAL_PAGES * unat EMS_PAGE_SIZE, s_ems_pool := (\<lambda>_. 0),
              s_ems_pool_used := replicate (unat EMS_TOTAL_PAGES) False\<rparr>
       else s\<lparr>s_ems_pool_used := map (\<lambda>_. False) (s_ems_pool_used s)\<rparr>)
   in s\<lparr>s_ems_handles := [], s_ems_next_handle := 1, s_ems_slot_h := replicate 4 0xFFFF,
        s_ems_slot_p := replicate 4 0xFFFF, s_ems_slot_pool := replicate 4 0xFFFF\<rparr>)"

definition ems_pages_allocated :: "bool list \<Rightarrow> u16" where
  "ems_pages_allocated used = of_nat (length (filter (\<lambda>b. b) used))"

definition pool_off :: "u16 \<Rightarrow> nat" where
  "pool_off pp = unat pp * unat EMS_PAGE_SIZE"

definition pool_fill :: "nat \<Rightarrow> (nat \<Rightarrow> u8) \<Rightarrow> (nat \<Rightarrow> u8) \<Rightarrow> nat \<Rightarrow> u8" where
  "pool_fill off g pool = fold (\<lambda>i p. p(off + i := g i)) [0 ..< unat EMS_PAGE_SIZE] pool"

text \<open>The first free page, taken and zeroed: the page index (FFFFh when there is none), the flags and the pool.\<close>

definition ems_alloc_pool_page :: "bool list \<times> (nat \<Rightarrow> u8) \<Rightarrow> u16 \<times> bool list \<times> (nat \<Rightarrow> u8)" where
  "ems_alloc_pool_page st = (case st of (used, pool) \<Rightarrow>
     case find (\<lambda>j. \<not> used ! j) [0 ..< unat EMS_TOTAL_PAGES] of
       Some j \<Rightarrow> (of_nat j, used[j := True], pool_fill (pool_off (of_nat j)) (\<lambda>_. 0) pool)
     | None \<Rightarrow> (0xFFFF, used, pool))"

definition frame_addr :: "nat \<Rightarrow> u32" where
  "frame_addr slot = EMS_FRAME_BASE + of_nat slot * EMS_PAGE_SIZE"

definition frame_store :: "'m emu88 \<Rightarrow> nat \<Rightarrow> (nat \<Rightarrow> u8) \<Rightarrow> 'm \<Rightarrow> 'm" where
  "frame_store E slot g m =
     fold (\<lambda>i. mem_writeb E (frame_addr slot + of_nat i) (g i)) [0 ..< unat EMS_PAGE_SIZE] m"

definition ems_load_slot :: "'m emu88 \<Rightarrow> nat \<Rightarrow> u16 \<Rightarrow> 'm ems \<Rightarrow> 'm ems" where
  "ems_load_slot E slot pool_page s = (if slot > 3 then s else let
     pool_page = (if pool_page \<noteq> 0xFFFF \<and> pool_page \<ge> EMS_TOTAL_PAGES then 0xFFFF else pool_page);
     cur = s_ems_slot_pool s ! slot;
     s = (if cur \<noteq> 0xFFFF
       then s\<lparr>s_ems_pool := pool_fill (pool_off cur)
              (\<lambda>i. mem_readb E (mem s) (frame_addr slot + of_nat i)) (s_ems_pool s)\<rparr>
       else s);
     s = (if pool_page \<noteq> 0xFFFF
       then wr (frame_store E slot (\<lambda>i. s_ems_pool s (pool_off pool_page + i))) s
       else s)
   in s\<lparr>s_ems_slot_pool := (s_ems_slot_pool s)[slot := pool_page]\<rparr>)"

definition ems_flush_all :: "'m emu88 \<Rightarrow> 'm ems \<Rightarrow> 'm ems" where
  "ems_flush_all E s = fold (\<lambda>sl s. if s_ems_slot_pool s ! sl = 0xFFFF then s
     else s\<lparr>s_ems_pool := pool_fill (pool_off (s_ems_slot_pool s ! sl))
              (\<lambda>i. mem_readb E (mem s) (frame_addr sl + of_nat i)) (s_ems_pool s)\<rparr>) [0, 1, 2, 3] s"

definition ems_reload_all :: "'m emu88 \<Rightarrow> 'm ems \<Rightarrow> 'm ems" where
  "ems_reload_all E s = fold (\<lambda>sl s. if s_ems_slot_pool s ! sl = 0xFFFF then s
     else wr (frame_store E sl (\<lambda>i. s_ems_pool s (pool_off (s_ems_slot_pool s ! sl) + i))) s) [0, 1, 2, 3] s"

text \<open>None is \<open>SIZE_MAX\<close>.\<close>

definition ems_pool_byte :: "ems_handle \<Rightarrow> u32 \<Rightarrow> nat option" where
  "ems_pool_byte h off = (let logical = unat (off div EMS_PAGE_SIZE) in
     if logical \<ge> length (pages h) then None
     else Some (pool_off (pages h ! logical) + unat (off mod EMS_PAGE_SIZE)))"

definition ems_map :: "'m emu88 \<Rightarrow> u8 \<Rightarrow> u16 \<Rightarrow> u16 \<Rightarrow> 'm ems \<Rightarrow> u8 \<times> 'm ems" where
  "ems_map E slot handle lp s = (if slot > 3 then (0x8B, s)
     else let slot = unat slot in
     case map_of (s_ems_handles s) handle of
       None \<Rightarrow> (0x83, s)
     | Some h \<Rightarrow>
       if lp = 0xFFFF then let s = ems_load_slot E slot 0xFFFF s in
         (0, s\<lparr>s_ems_slot_h := (s_ems_slot_h s)[slot := 0xFFFF], s_ems_slot_p := (s_ems_slot_p s)[slot := 0xFFFF]\<rparr>)
       else if unat lp \<ge> length (pages h) then (0x8A, s)
       else let s = ems_load_slot E slot (pages h ! unat lp) s in
         (0, s\<lparr>s_ems_slot_h := (s_ems_slot_h s)[slot := handle], s_ems_slot_p := (s_ems_slot_p s)[slot := lp]\<rparr>))"

text \<open>The loop that pushes \<open>n\<close> fresh pages.\<close>

fun ems_push_pages :: "nat \<Rightarrow> u16 list \<Rightarrow> bool list \<times> (nat \<Rightarrow> u8) \<Rightarrow> u16 list \<times> bool list \<times> (nat \<Rightarrow> u8)" where
  "ems_push_pages 0 ps st = (ps, st)"
| "ems_push_pages (Suc n) ps st = (case ems_alloc_pool_page st of (p, st') \<Rightarrow> ems_push_pages n (ps @ [p]) st')"

definition ems_free_pages :: "bool list \<Rightarrow> nat" where
  "ems_free_pages used = unat EMS_TOTAL_PAGES - unat (ems_pages_allocated used)"

definition ems_alloc_handle :: "u16 \<Rightarrow> bool \<Rightarrow> 'm ems \<Rightarrow> u8 \<times> u16 option \<times> 'm ems" where
  "ems_alloc_handle n allow_zero s = (
     if n = 0 \<and> \<not> allow_zero then (0x89, None, s)
     else if unat n > ems_free_pages (s_ems_pool_used s) then (0x88, None, s)
     else if length (s_ems_handles s) \<ge> 254 then (0x85, None, s)
     else let
       (ps, used, pool) = ems_push_pages (unat n) [] (s_ems_pool_used s, s_ems_pool s);
       id = s_ems_next_handle s
     in (0, Some id, s\<lparr>s_ems_pool_used := used, s_ems_pool := pool, s_ems_next_handle := id + 1,
           s_ems_handles := map_set id (new_handle\<lparr>pages := ps\<rparr>) (s_ems_handles s)\<rparr>))"

section \<open>INT 67h\<close>

definition vcpi :: "'m emu88 \<Rightarrow> 'm ems \<Rightarrow> 'm ems" where
  "vcpi E s = (
     if reg_al s = 0x00 then
       (if reg_cx s = 0 \<and> reg_di s = 0x0012 then set_bh VCPI_VERSION (set_ah 0 s) else set_ah 0x8F s)
     else if reg_al s = 0x02 then
       (set_ah 0 s)\<lparr>reg_edx := (if MEM_TotalPages E (mem s) \<noteq> 0 then MEM_TotalPages E (mem s) - 1 else 0)\<rparr>
     else if reg_al s = 0x03 then
       (set_ah 0 s)\<lparr>reg_edx := of_nat (ems_free_pages (s_ems_pool_used s)) * 4\<rparr>
     else if reg_al s = 0x0A then set_cx 0x70 (set_bx 0x08 (set_ah 0 s))
     else set_ah 0x84 s)"

text \<open>AH=43h and 5Ah.\<close>

definition ems_alloc_call :: "bool \<Rightarrow> 'm ems \<Rightarrow> 'm ems" where
  "ems_alloc_call allow_zero s = (case ems_alloc_handle (reg_bx s) allow_zero s of
     (st, h, s) \<Rightarrow> (case h of Some h \<Rightarrow> set_dx h (set_ah st s) | None \<Rightarrow> set_ah st s))"

definition ems_page_counts :: "'m ems \<Rightarrow> 'm ems" where
  "ems_page_counts s = set_dx EMS_TOTAL_PAGES (set_bx (of_nat (ems_free_pages (s_ems_pool_used s))) s)"

definition ems_unmap_handle :: "'m emu88 \<Rightarrow> u16 \<Rightarrow> 'm ems \<Rightarrow> 'm ems" where
  "ems_unmap_handle E handle s = fold (\<lambda>sl s. if s_ems_slot_h s ! sl = handle
     then (ems_load_slot E sl 0xFFFF s)\<lparr>s_ems_slot_h := (s_ems_slot_h s)[sl := 0xFFFF],
            s_ems_slot_p := (s_ems_slot_p s)[sl := 0xFFFF]\<rparr>
     else s) [0, 1, 2, 3] s"

definition clear_used :: "u16 list \<Rightarrow> bool list \<Rightarrow> bool list" where
  "clear_used ps used = fold (\<lambda>pp u. u[unat pp := False]) ps used"

definition ems_dealloc :: "'m emu88 \<Rightarrow> 'm ems \<Rightarrow> 'm ems" where
  "ems_dealloc E s = (let dx = reg_dx s in
     case map_of (s_ems_handles s) dx of
     None \<Rightarrow> set_ah 0x83 s
   | Some h \<Rightarrow> if map_saved h then set_ah 0x86 s
     else let
       s = ems_unmap_handle E dx s
     in set_ah 0 (s\<lparr>s_ems_pool_used := clear_used (pages h) (s_ems_pool_used s),
          s_ems_handles := map_erase dx (s_ems_handles s)\<rparr>))"

definition ems_save_map :: "'m ems \<Rightarrow> 'm ems" where
  "ems_save_map s = (case map_of (s_ems_handles s) (reg_dx s) of
     None \<Rightarrow> set_ah 0x83 s
   | Some h \<Rightarrow> if map_saved h then set_ah 0x8D s
     else set_ah 0 (s\<lparr>s_ems_handles := map_set (reg_dx s)
       (h\<lparr>saved_h := s_ems_slot_h s, saved_p := s_ems_slot_p s, map_saved := True\<rparr>) (s_ems_handles s)\<rparr>))"

definition ems_restore_slots :: "'m emu88 \<Rightarrow> ems_handle \<Rightarrow> 'm ems \<Rightarrow> 'm ems" where
  "ems_restore_slots E h s =
     fold (\<lambda>sl s. snd (ems_map E (of_nat sl) (saved_h h ! sl) (saved_p h ! sl) s)) [0, 1, 2, 3] s"

definition ems_restore_map :: "'m emu88 \<Rightarrow> 'm ems \<Rightarrow> 'm ems" where
  "ems_restore_map E s = (let dx = reg_dx s in
     case map_of (s_ems_handles s) dx of
     None \<Rightarrow> set_ah 0x83 s
   | Some h \<Rightarrow> if \<not> map_saved h then set_ah 0x8E s
     else let
       s = ems_restore_slots E h s
     in set_ah 0 (s\<lparr>s_ems_handles := map_set dx (h\<lparr>map_saved := False\<rparr>) (s_ems_handles s)\<rparr>))"

definition ems_all_pages :: "'m emu88 \<Rightarrow> 'm ems \<Rightarrow> 'm ems" where
  "ems_all_pages E s = (let
     buf = seg_phys s ES + ucast (reg_di s);
     hs = s_ems_handles s;
     s = wr (fold (\<lambda>n m. mem_writew E (buf + of_nat (n * 4) + 2) (of_nat (length (pages (snd (hs ! n)))))
                (mem_writew E (buf + of_nat (n * 4) + 0) (fst (hs ! n)) m)) [0 ..< length hs]) s
   in set_ah 0 (set_bx (of_nat (length hs)) s))"

text \<open>The loop of AH=50h over the array at \<open>arr\<close>.\<close>

fun ems_map_array :: "'m emu88 \<Rightarrow> u32 \<Rightarrow> nat list \<Rightarrow> 'm ems \<Rightarrow> u8 \<times> 'm ems" where
  "ems_map_array E arr [] s = (0, s)"
| "ems_map_array E arr (i # is) s = (let
     lp = mem_readw E (mem s) (arr + of_nat (i * 4) + 0);
     sec = mem_readw E (mem s) (arr + of_nat (i * 4) + 2)
   in if reg_al s = 1 \<and> (sec < EMS_FRAME_SEG \<or> unat sec \<ge> unat EMS_FRAME_SEG + 0x1000) then (0x8B, s)
   else let
     slot = (if reg_al s = 1 then (sec - EMS_FRAME_SEG) div 0x400 else sec);
     (st, s) = ems_map E (ucast slot) (reg_dx s) lp s
   in if st \<noteq> 0 then (st, s) else ems_map_array E arr is s)"

definition ems_map_multiple :: "'m emu88 \<Rightarrow> 'm ems \<Rightarrow> 'm ems" where
  "ems_map_multiple E s = (case map_of (s_ems_handles s) (reg_dx s) of
     None \<Rightarrow> set_ah 0x83 s
   | Some h \<Rightarrow> if reg_al s > 1 then set_ah 0x8F s
     else let (st, s) = ems_map_array E (seg_phys s DS + ucast (reg_si s)) [0 ..< unat (reg_cx s)] s
       in set_ah st s)"

definition ems_realloc :: "'m ems \<Rightarrow> 'm ems" where
  "ems_realloc s = (case map_of (s_ems_handles s) (reg_dx s) of
     None \<Rightarrow> set_ah 0x83 s
   | Some h \<Rightarrow> let
       want = reg_bx s;
       have_n = (of_nat (length (pages h)) :: u16);
       ok = (\<lambda>s. set_ah 0 (set_bx want s))
     in if want > have_n then let need = want - have_n in
       (if unat need > ems_free_pages (s_ems_pool_used s) then set_ah 0x88 s
        else let (ps, used, pool) = ems_push_pages (unat need) (pages h) (s_ems_pool_used s, s_ems_pool s)
          in ok (s\<lparr>s_ems_pool_used := used, s_ems_pool := pool,
                s_ems_handles := map_set (reg_dx s) (h\<lparr>pages := ps\<rparr>) (s_ems_handles s)\<rparr>))
     else if want < have_n then
       ok (s\<lparr>s_ems_pool_used := clear_used (drop (unat want) (pages h)) (s_ems_pool_used s),
             s_ems_handles := map_set (reg_dx s) (h\<lparr>pages := take (unat want) (pages h)\<rparr>) (s_ems_handles s)\<rparr>)
     else ok s)"

definition ems_name_call :: "'m emu88 \<Rightarrow> 'm ems \<Rightarrow> 'm ems" where
  "ems_name_call E s = (case map_of (s_ems_handles s) (reg_dx s) of
     None \<Rightarrow> set_ah 0x83 s
   | Some h \<Rightarrow> let b = seg_phys s ES + ucast (reg_di s) in
     if reg_al s = 0 then set_ah 0 (wr (fold (\<lambda>i. mem_writeb E (b + of_nat i) (handle_name h ! i)) [0 ..< 8]) s)
     else if reg_al s = 1 then set_ah 0 (s\<lparr>s_ems_handles := map_set (reg_dx s)
       (h\<lparr>handle_name := map (\<lambda>i. mem_readb E (mem s) (b + of_nat i)) [0 ..< 8]\<rparr>) (s_ems_handles s)\<rparr>)
     else set_ah 0x8F s)"

text \<open>AH=57h. One end of the region: a status byte, or the handle (None for conventional memory) and
  the byte offset.\<close>

definition ems_region :: "u8 \<Rightarrow> u16 \<Rightarrow> u16 \<Rightarrow> u16 \<Rightarrow> u32 \<Rightarrow> 'm ems \<Rightarrow> u8 + ems_handle option \<times> u32" where
  "ems_region ty handle off pg bytes s = (if ty \<noteq> 0 then
     (case map_of (s_ems_handles s) handle of
       None \<Rightarrow> Inl 0x83
     | Some h \<Rightarrow> let base = (ucast pg :: u32) * EMS_PAGE_SIZE + ucast off in
       if base + bytes > of_nat (length (pages h)) * EMS_PAGE_SIZE then Inl 0x8A else Inr (Some h, base))
     else Inr (None, (ucast pg :: u32) * 16 + ucast off))"

fun ems_read_region :: "'m emu88 \<Rightarrow> ems_handle option \<Rightarrow> u32 \<Rightarrow> nat list \<Rightarrow> 'm ems \<Rightarrow> u8 list option" where
  "ems_read_region E H base [] s = Some []"
| "ems_read_region E H base (i # is) s = (case H of
     None \<Rightarrow> map_option ((#) (mem_readb E (mem s) (base + of_nat i))) (ems_read_region E H base is s)
   | Some h \<Rightarrow> (case ems_pool_byte h (base + of_nat i) of
       None \<Rightarrow> None
     | Some k \<Rightarrow> map_option ((#) (s_ems_pool s k)) (ems_read_region E H base is s)))"

fun ems_write_region :: "'m emu88 \<Rightarrow> ems_handle option \<Rightarrow> u32 \<Rightarrow> nat \<Rightarrow> u8 list \<Rightarrow> 'm ems \<Rightarrow> 'm ems option" where
  "ems_write_region E H base i [] s = Some s"
| "ems_write_region E H base i (b # bs) s = (case H of
     None \<Rightarrow> ems_write_region E H base (Suc i) bs (wr (mem_writeb E (base + of_nat i) b) s)
   | Some h \<Rightarrow> (case ems_pool_byte h (base + of_nat i) of
       None \<Rightarrow> None
     | Some k \<Rightarrow> ems_write_region E H base (Suc i) bs (s\<lparr>s_ems_pool := (s_ems_pool s)(k := b)\<rparr>)))"

definition ems_move_region :: "'m emu88 \<Rightarrow> 'm ems \<Rightarrow> 'm ems option" where
  "ems_move_region E s = (if reg_al s > 1 then Some (set_ah 0x84 s) else let
     d = seg_phys s DS + ucast (reg_si s);
     bytes = mem_readd E (mem s) (d + 0x00);
     s_type = mem_readb E (mem s) (d + 0x04);
     s_handle = mem_readw E (mem s) (d + 0x05);
     s_off = mem_readw E (mem s) (d + 0x07);
     s_pg = mem_readw E (mem s) (d + 0x09);
     d_type = mem_readb E (mem s) (d + 0x0B);
     d_handle = mem_readw E (mem s) (d + 0x0C);
     d_off = mem_readw E (mem s) (d + 0x0E);
     d_pg = mem_readw E (mem s) (d + 0x10)
   in if bytes = 0 then Some (set_ah 0 s)
   else case ems_region s_type s_handle s_off s_pg bytes s of
     Inl st \<Rightarrow> Some (set_ah st s)
   | Inr (sH, s_base) \<Rightarrow> (case ems_region d_type d_handle d_off d_pg bytes s of
       Inl st \<Rightarrow> Some (set_ah st s)
     | Inr (dH, d_base) \<Rightarrow> let
         s = ems_flush_all E s;
         is = [0 ..< unat bytes]
       in case ems_read_region E sH s_base is s of
         None \<Rightarrow> None
       | Some bufS \<Rightarrow> (case (if reg_al s = 1
             then (case ems_read_region E dH d_base is s of
                 None \<Rightarrow> None
               | Some bufD \<Rightarrow> ems_write_region E sH s_base 0 bufD s)
             else Some s) of
           None \<Rightarrow> None
         | Some s \<Rightarrow> map_option (\<lambda>s. set_ah 0 (ems_reload_all E s))
             (ems_write_region E dH d_base 0 bufS s))))"

definition ems_phys_array :: "'m emu88 \<Rightarrow> 'm ems \<Rightarrow> 'm ems" where
  "ems_phys_array E s = (let
     b = seg_phys s ES + ucast (reg_di s);
     s = (if reg_al s = 0
       then wr (fold (\<lambda>i m. mem_writew E (b + of_nat (i * 4) + 2) (of_nat i)
              (mem_writew E (b + of_nat (i * 4) + 0) (EMS_FRAME_SEG + of_nat (i * 0x400)) m)) [0, 1, 2, 3]) s
       else s)
   in set_ah 0 (set_cx 4 s))"

definition ems_hw_config :: "'m emu88 \<Rightarrow> 'm ems \<Rightarrow> 'm ems" where
  "ems_hw_config E s = (
     if reg_al s = 0 then let d = seg_phys s ES + ucast (reg_di s) in
       set_ah 0 (wr (mem_writew E (d + 8) 0) (wr (mem_writew E (d + 6) 0) (wr (mem_writew E (d + 4) 0x0010)
         (wr (mem_writew E (d + 2) 0) (wr (mem_writew E (d + 0) 0x0400) s)))))
     else if reg_al s = 1 then set_ah 0 (ems_page_counts s)
     else set_ah 0x8F s)"

definition ems_pages_owned :: "'m ems \<Rightarrow> 'm ems" where
  "ems_pages_owned s = (case map_of (s_ems_handles s) (reg_dx s) of
     None \<Rightarrow> set_ah 0x83 s
   | Some h \<Rightarrow> set_ah 0 (set_bx (of_nat (length (pages h))) s))"

definition dosiz_int67 :: "'m emu88 \<Rightarrow> 'm ems \<Rightarrow> 'm ems option" where
  "dosiz_int67 E s = (let ah = reg_ah s in
     if ah = 0xDE then Some (vcpi E s)
     else if ah = 0x40 then Some (set_ah 0 s)
     else if ah = 0x41 then Some (set_bx EMS_FRAME_SEG (set_ah 0 s))
     else if ah = 0x42 then Some (ems_page_counts (set_ah 0 s))
     else if ah = 0x43 then Some (ems_alloc_call False s)
     else if ah = 0x44 then (case ems_map E (reg_al s) (reg_dx s) (reg_bx s) s of (st, s) \<Rightarrow> Some (set_ah st s))
     else if ah = 0x45 then Some (ems_dealloc E s)
     else if ah = 0x46 then Some (set_al EMS_VERSION (set_ah 0 s))
     else if ah = 0x47 then Some (ems_save_map s)
     else if ah = 0x48 then Some (ems_restore_map E s)
     else if ah = 0x4B then Some (set_bx (of_nat (length (s_ems_handles s))) (set_ah 0 s))
     else if ah = 0x4C then Some (ems_pages_owned s)
     else if ah = 0x4D then Some (ems_all_pages E s)
     else if ah = 0x50 then Some (ems_map_multiple E s)
     else if ah = 0x51 then Some (ems_realloc s)
     else if ah = 0x53 then Some (ems_name_call E s)
     else if ah = 0x57 then ems_move_region E s
     else if ah = 0x58 then Some (ems_phys_array E s)
     else if ah = 0x59 then Some (ems_hw_config E s)
     else if ah = 0x5A then Some (ems_alloc_call True s)
     else Some (set_ah 0x84 s))"

section \<open>Invariant and contents\<close>

text \<open>The pages handles own, the used flags as a set, and the invariant: \<open>L\<close> are the pages that are marked used but that no
  handle owns any more.\<close>

definition used_pages :: "bool list \<Rightarrow> nat set" where
  "used_pages used = {j. j < length used \<and> used ! j}"

definition owned :: "(u16 \<times> ems_handle) list \<Rightarrow> nat list" where
  "owned hs = concat (map (\<lambda>p. map unat (pages (snd p))) hs)"

definition ems_inv :: "nat set \<Rightarrow> 'm ems \<Rightarrow> bool" where
  "ems_inv L s \<longleftrightarrow> length (s_ems_pool_used s) = 512 \<and> map_ok (s_ems_handles s)
     \<and> distinct (owned (s_ems_handles s)) \<and> set (owned (s_ems_handles s)) \<inter> L = {}
     \<and> set (owned (s_ems_handles s)) \<union> L = used_pages (s_ems_pool_used s) \<and> length (s_ems_handles s) \<le> 254"

text \<open>Every slot maps a pool page or nothing, and no page is in two slots.\<close>

definition slots_ok :: "'m ems \<Rightarrow> bool" where
  "slots_ok s \<longleftrightarrow> length (s_ems_slot_pool s) = 4
     \<and> (\<forall>sl < 4. s_ems_slot_pool s ! sl \<noteq> 0xFFFF \<longrightarrow> s_ems_slot_pool s ! sl < EMS_TOTAL_PAGES)
     \<and> (\<forall>i < 4. \<forall>j < 4. s_ems_slot_pool s ! i = s_ems_slot_pool s ! j \<longrightarrow> s_ems_slot_pool s ! i \<noteq> 0xFFFF \<longrightarrow> i = j)"

definition slot_of :: "'m ems \<Rightarrow> u16 \<Rightarrow> nat option" where
  "slot_of s pp = find (\<lambda>sl. s_ems_slot_pool s ! sl = pp) [0, 1, 2, 3]"

text \<open>Byte \<open>i\<close> of pool page \<open>pp\<close> as the guest owns it.\<close>

definition ems_view :: "'m emu88 \<Rightarrow> 'm ems \<Rightarrow> u16 \<Rightarrow> nat \<Rightarrow> u8" where
  "ems_view E s pp i = (case slot_of s pp of
     Some sl \<Rightarrow> mem_readb E (mem s) (frame_addr sl + of_nat i)
   | None \<Rightarrow> s_ems_pool s (pool_off pp + i))"

definition frame_ram :: "'m emu88 \<Rightarrow> 'm \<Rightarrow> bool" where
  "frame_ram E m \<longleftrightarrow> (\<forall>a. 0xE0000 \<le> a \<longrightarrow> a < 0xF0000 \<longrightarrow> is_ram E m a)"

section \<open>The pool as a resource\<close>

lemma page_size: "unat EMS_PAGE_SIZE = 16384"
  by (simp add: EMS_PAGE_SIZE_def)

lemma pool_fill_at:
  "pool_fill off g pool k = (if off \<le> k \<and> k < off + unat EMS_PAGE_SIZE then g (k - off) else pool k)"
proof -
  have "fold (\<lambda>i p. p(off + i := g i)) [0 ..< n] pool k = (if off \<le> k \<and> k < off + n then g (k - off) else pool k)"
    for n by (induction n) auto
  then show ?thesis by (simp add: pool_fill_def)
qed

text \<open>Acquiring a page of the pool, in the form of the shared contract.\<close>

definition ems_acquire :: "bool list \<Rightarrow> (nat \<times> bool list) option" where
  "ems_acquire used = (case ems_alloc_pool_page (used, \<lambda>_. 0) of
     (j, used', _) \<Rightarrow> if j = 0xFFFF then None else Some (unat j, used'))"

lemma ems_alloc_pool_page_cases:
  assumes "length used = 512"
  obtains
    (full) "ems_alloc_pool_page (used, pool) = (0xFFFF, used, pool)" "used_pages used = {..<512}"
  | (page) j where "j < 512" "j \<notin> used_pages used"
      "ems_alloc_pool_page (used, pool) = (of_nat j, used[j := True], pool_fill (pool_off (of_nat j)) (\<lambda>_. 0) pool)"
      "unat (of_nat j :: u16) = j" "(of_nat j :: u16) \<noteq> 0xFFFF"
proof (cases "find (\<lambda>j. \<not> used ! j) [0 ..< unat EMS_TOTAL_PAGES]")
  case None
  have "used_pages used = {..<512}"
    using None assms by (auto simp: used_pages_def find_None_iff EMS_TOTAL_PAGES_def simp del: upt_rec_numeral)
  then show thesis using None by (intro full) (simp_all add: ems_alloc_pool_page_def)
next
  case (Some j)
  then have j: "j < 512" "\<not> used ! j"
    by (auto simp: find_Some_iff EMS_TOTAL_PAGES_def simp del: upt_rec_numeral)
  have u: "unat (of_nat j :: u16) = j" using j(1) by (simp add: unat_of_nat_u16)
  then have "(of_nat j :: u16) \<noteq> 0xFFFF" using j(1) by (auto simp: word_unat_eq_iff)
  with j u Some show thesis
    by (intro page [of j]) (simp_all add: ems_alloc_pool_page_def used_pages_def)
qed

lemma used_pages_update:
  assumes "j < length used"
  shows "used_pages (used[j := True]) = insert j (used_pages used)"
    and "used_pages (used[j := False]) = used_pages used - {j}"
  using assms by (auto simp: used_pages_def nth_list_update)

lemma ems_acquire_cases:
  assumes "length used = 512"
  shows "case ems_acquire used of
      None \<Rightarrow> used_pages used = {..<512}
    | Some (j, used') \<Rightarrow> j < 512 \<and> j \<notin> used_pages used \<and> used' = used[j := True]"
  using assms
  by (cases rule: ems_alloc_pool_page_cases [where pool = "\<lambda>_. 0"])
    (simp_all add: ems_acquire_def)

interpretation ems_pool: resource_pool
  "\<lambda>used. length used = 512" used_pages "{..<512}" ems_acquire "\<lambda>j used. used[j := False]"
proof
  fix used used' :: "bool list" and j :: nat
  assume len: "length used = 512"
  show "used_pages used \<subseteq> {..<512}" using len by (auto simp: used_pages_def)
  show "ems_acquire used = None \<Longrightarrow> used_pages used = {..<512}"
    using ems_acquire_cases [OF len] by simp
  show "ems_acquire used = Some (j, used') \<Longrightarrow> length used' = 512"
    using ems_acquire_cases [OF len] len by simp
  show "ems_acquire used = Some (j, used') \<Longrightarrow>
      j \<in> {..<512} \<and> j \<notin> used_pages used \<and> used_pages used' = insert j (used_pages used)"
    using ems_acquire_cases [OF len] len by (auto simp: used_pages_update)
  show "j \<in> used_pages used \<Longrightarrow> length (used[j := False]) = 512" using len by simp
  show "j \<in> used_pages used \<Longrightarrow> used_pages (used[j := False]) = used_pages used - {j}"
    by (rule used_pages_update) (simp add: used_pages_def)
qed simp

lemma ems_free_pages_card:
  assumes "length used = 512"
  shows "ems_free_pages used = 512 - card (used_pages used)" "card (used_pages used) \<le> 512"
proof -
  have c: "card (used_pages used) = length (filter (\<lambda>b. b) used)"
    by (simp add: used_pages_def length_filter_conv_card)
  have le: "length (filter (\<lambda>b. b) used) \<le> 512" using assms length_filter_le [of "\<lambda>b. b" used] by simp
  then show "card (used_pages used) \<le> 512" using c by simp
  show "ems_free_pages used = 512 - card (used_pages used)"
    using le unfolding c ems_free_pages_def ems_pages_allocated_def
    by (simp add: unat_of_nat_u16 EMS_TOTAL_PAGES_def)
qed

text \<open>Pushing pages: as long as there are enough, each is a fresh one.\<close>

lemma ems_push_pages:
  assumes "length used = 512" and "n \<le> 512 - card (used_pages used)"
  shows "\<exists>new used' pool'. ems_push_pages n ps (used, pool) = (ps @ new, used', pool') \<and> length new = n
    \<and> length used' = 512 \<and> distinct (map unat new) \<and> set (map unat new) \<inter> used_pages used = {}
    \<and> used_pages used' = used_pages used \<union> set (map unat new)"
  using assms
proof (induction n arbitrary: ps used pool)
  case (Suc n)
  have fin: "finite (used_pages used)" by (simp add: used_pages_def)
  show ?case
    using Suc.prems(1)
  proof (cases rule: ems_alloc_pool_page_cases [where pool = pool])
    case full
    then show ?thesis using Suc.prems(2) by simp
  next
    case (page j)
    have up: "used_pages (used[j := True]) = insert j (used_pages used)"
      using page(1) Suc.prems(1) by (simp add: used_pages_update)
    have "n \<le> 512 - card (used_pages (used[j := True]))"
      using Suc.prems(2) fin page(2) up by simp
    with Suc.IH [of "used[j := True]" "ps @ [of_nat j]" "pool_fill (pool_off (of_nat j)) (\<lambda>_. 0) pool"]
    obtain new used' pool' where
      IH: "ems_push_pages n (ps @ [of_nat j]) (used[j := True], pool_fill (pool_off (of_nat j)) (\<lambda>_. 0) pool)
        = ((ps @ [of_nat j]) @ new, used', pool')" "length new = n" "length used' = 512" "distinct (map unat new)"
      "set (map unat new) \<inter> insert j (used_pages used) = {}"
      "used_pages used' = insert j (used_pages used) \<union> set (map unat new)"
      using Suc.prems(1) unfolding up by auto
    then show ?thesis
      using page by (intro exI [of _ "of_nat j # new"] exI [of _ used'] exI [of _ pool']) auto
  qed
qed simp

section \<open>The handle table\<close>

lemma owned_insort: "mset (owned (insort_key fst (k, h) xs)) = mset (map unat (pages h)) + mset (owned xs)"
  by (induction xs) (auto simp: owned_def)

lemma owned_erase:
  assumes "distinct (map fst xs)" and "map_of xs k = Some h"
  shows "mset (owned xs) = mset (map unat (pages h)) + mset (owned (map_erase k xs))"
  using assms
proof (induction xs)
  case (Cons x xs)
  have "filter (\<lambda>p. fst p \<noteq> k) xs = xs" if "k \<notin> fst ` set xs"
    using that by (intro filter_True) auto
  with Cons show ?case by (auto simp: owned_def map_erase_def split: if_splits)
qed simp

lemma owned_set:
  assumes "distinct (map fst xs)"
  shows "mset (owned (map_set k h xs)) = mset (map unat (pages h)) + mset (owned (map_erase k xs))"
  by (simp add: map_set_def map_erase_def [symmetric] owned_insort)

lemma erase_new: "map_of xs k = None \<Longrightarrow> map_erase k xs = xs"
  unfolding map_erase_def by (rule filter_True) (auto simp: map_of_eq_None_iff)

lemma length_map_set_new: "map_of xs k = None \<Longrightarrow> length (map_set k v xs) = Suc (length xs)"
  by (simp add: map_set_def map_erase_def [symmetric] erase_new)

lemma length_map_erase:
  "\<lbrakk>distinct (map fst xs); map_of xs k = Some h\<rbrakk> \<Longrightarrow> Suc (length (map_erase k xs)) = length xs"
proof (induction xs)
  case (Cons x xs)
  have "filter (\<lambda>p. fst p \<noteq> k) xs = xs" if "k \<notin> fst ` set xs"
    using that by (intro filter_True) auto
  with Cons show ?case by (auto simp: map_erase_def split: if_splits)
qed simp

lemma length_map_set_old:
  "\<lbrakk>distinct (map fst xs); map_of xs k = Some h\<rbrakk> \<Longrightarrow> length (map_set k v xs) = length xs"
  using length_map_erase [of xs k h] by (simp add: map_set_def map_erase_def [symmetric])

text \<open>Replacing the entry of a handle: what it owned and what the others own.\<close>

lemma owned_split:
  assumes "map_ok hs" and "map_of hs k = Some h"
  shows "distinct (owned hs) \<longleftrightarrow> distinct (map unat (pages h) @ owned (map_erase k hs))"
    and "set (owned hs) = set (map unat (pages h)) \<union> set (owned (map_erase k hs))"
proof -
  have eq: "mset (owned hs) = mset (map unat (pages h) @ owned (map_erase k hs))"
    using owned_erase [of hs k h] assms by (simp add: map_ok_def)
  show "distinct (owned hs) \<longleftrightarrow> distinct (map unat (pages h) @ owned (map_erase k hs))"
    by (rule mset_eq_imp_distinct_iff [OF eq])
  show "set (owned hs) = set (map unat (pages h)) \<union> set (owned (map_erase k hs))"
    using mset_eq_setD [OF eq] by simp
qed

lemma owned_replace:
  assumes "map_ok hs"
  shows "distinct (owned (map_set k h hs)) \<longleftrightarrow> distinct (map unat (pages h) @ owned (map_erase k hs))"
    and "set (owned (map_set k h hs)) = set (map unat (pages h)) \<union> set (owned (map_erase k hs))"
proof -
  have eq: "mset (owned (map_set k h hs)) = mset (map unat (pages h) @ owned (map_erase k hs))"
    using owned_set [of hs k h] assms by (simp add: map_ok_def)
  show "distinct (owned (map_set k h hs)) \<longleftrightarrow> distinct (map unat (pages h) @ owned (map_erase k hs))"
    by (rule mset_eq_imp_distinct_iff [OF eq])
  show "set (owned (map_set k h hs)) = set (map unat (pages h)) \<union> set (owned (map_erase k hs))"
    using mset_eq_setD [OF eq] by simp
qed

lemma clear_used_pages:
  "length (clear_used ps used) = length used \<and>
   ((\<forall>p \<in> set ps. unat p < length used) \<longrightarrow> used_pages (clear_used ps used) = used_pages used - unat ` set ps)"
  unfolding clear_used_def
proof (induction ps arbitrary: used)
  case (Cons p ps)
  show ?case using Cons [of "used[unat p := False]"] by (auto simp: used_pages_update)
qed simp

text \<open>The part of the state the invariant is about.\<close>

definition book :: "'m ems \<Rightarrow> (bool list \<times> (u16 \<times> ems_handle) list) \<times> u16" where
  "book s = ((s_ems_pool_used s, s_ems_handles s), s_ems_next_handle s)"

definition book_ok :: "nat set \<Rightarrow> bool list \<times> (u16 \<times> ems_handle) list \<Rightarrow> bool" where
  "book_ok L b \<longleftrightarrow> (case b of (used, hs) \<Rightarrow> length used = 512 \<and> map_ok hs \<and> distinct (owned hs)
     \<and> set (owned hs) \<inter> L = {} \<and> set (owned hs) \<union> L = used_pages used \<and> length hs \<le> 254)"

lemma ems_inv_book: "ems_inv L s = book_ok L (fst (book s))"
  by (simp add: ems_inv_def book_ok_def book_def)

lemma book_okD:
  assumes "book_ok L (used, hs)"
  shows "length used = 512" "map_ok hs" "distinct (map fst hs)" "distinct (owned hs)"
    "set (owned hs) \<union> L = used_pages used" "length hs \<le> 254" "set (owned hs) \<inter> L = {}"
  using assms by (auto simp: book_ok_def map_ok_def)

lemma book_ok_same_pages:
  assumes ok: "book_ok L (used, hs)" and h: "map_of hs k = Some h" and "pages h' = pages h"
  shows "book_ok L (used, map_set k h' hs)"
proof -
  note b = book_okD [OF ok]
  then show ?thesis
    using owned_split [OF b(2) h] owned_replace [OF b(2), of k h'] length_map_set_old [OF b(3) h] assms(3)
    by (simp add: book_ok_def)
qed

lemma book_ok_grow:
  assumes ok: "book_ok L (used, hs)" and h: "map_of hs k = Some h"
    and new: "distinct (map unat new)" "set (map unat new) \<inter> used_pages used = {}"
      "used_pages used' = used_pages used \<union> set (map unat new)" "length used' = 512"
  shows "book_ok L (used', map_set k (h\<lparr>pages := pages h @ new\<rparr>) hs)"
proof -
  note b = book_okD [OF ok]
  note sp = owned_split [OF b(2) h]
  have fresh: "set (map unat new) \<inter> set (owned hs) = {}" "set (map unat new) \<inter> L = {}" using b(5) new(2) by auto
  have "distinct (owned (map_set k (h\<lparr>pages := pages h @ new\<rparr>) hs))"
    using b(4) new(1) fresh(1) sp owned_replace(1) [OF b(2), of k "h\<lparr>pages := pages h @ new\<rparr>"]
    by (simp add: Int_Un_distrib2 Int_commute Int_Un_distrib)
  moreover have own: "set (owned (map_set k (h\<lparr>pages := pages h @ new\<rparr>) hs)) = set (owned hs) \<union> set (map unat new)"
    using sp(2) owned_replace(2) [OF b(2), of k "h\<lparr>pages := pages h @ new\<rparr>"] by auto
  moreover have "(set (owned hs) \<union> set (map unat new)) \<inter> L = {}" using b(7) fresh(2) by blast
  moreover have "(set (owned hs) \<union> set (map unat new)) \<union> L = used_pages used'" using b(5) new(3) by blast
  ultimately show ?thesis
    using b(2,6) new(4) length_map_set_old [OF b(3) h] by (simp add: book_ok_def)
qed

lemma book_ok_shrink:
  assumes ok: "book_ok L (used, hs)" and h: "map_of hs k = Some h"
  shows "book_ok L (clear_used (drop n (pages h)) used, map_set k (h\<lparr>pages := take n (pages h)\<rparr>) hs)"
proof -
  note b = book_okD [OF ok]
  note sp = owned_split [OF b(2) h]
  have all: "set (pages h) = set (take n (pages h)) \<union> set (drop n (pages h))"
    by (metis append_take_drop_id set_append)
  have d: "distinct (map unat (take n (pages h)) @ map unat (drop n (pages h)) @ owned (map_erase k hs))"
  proof -
    have "map unat (pages h) = map unat (take n (pages h)) @ map unat (drop n (pages h))"
      by (simp add: map_append [symmetric] del: map_append)
    with b(4) sp(1) show ?thesis by simp
  qed
  have lt: "unat p < 512" if "p \<in> set (pages h)" for p
    using that b(1) sp(2) b(5) [symmetric] by (auto simp: used_pages_def)
  then have "used_pages (clear_used (drop n (pages h)) used) = used_pages used - unat ` set (drop n (pages h))"
    using clear_used_pages [of "drop n (pages h)" used] b(1) by (simp add: in_set_dropD)
  moreover have "length (clear_used (drop n (pages h)) used) = 512"
    using clear_used_pages [of "drop n (pages h)" used] b(1) by simp
  moreover have "used_pages used = (unat ` set (take n (pages h)) \<union> unat ` set (drop n (pages h)) \<union> set (owned (map_erase k hs))) \<union> L"
    using b(5) unfolding sp set_map all by (simp add: image_Un)
  moreover have "(unat ` set (take n (pages h)) \<union> unat ` set (drop n (pages h)) \<union> set (owned (map_erase k hs))) \<inter> L = {}"
    using b(7) unfolding sp set_map all by (simp add: image_Un)
  ultimately show ?thesis
    using b(2,6) d length_map_set_old [OF b(3) h] owned_replace [OF b(2), of k "h\<lparr>pages := take n (pages h)\<rparr>"]
    by (auto simp: book_ok_def)
qed

lemma book_ok_erase:
  assumes ok: "book_ok L (used, hs)" and h: "map_of hs k = Some h"
  shows "book_ok L (clear_used (pages h) used, map_erase k hs)"
proof -
  note b = book_okD [OF ok]
  note sp = owned_split [OF b(2) h]
  have "unat p < 512" if "p \<in> set (pages h)" for p
    using that b(1) sp(2) b(5) [symmetric] by (auto simp: used_pages_def)
  then have "used_pages (clear_used (pages h) used) = used_pages used - unat ` set (pages h)"
    "length (clear_used (pages h) used) = 512"
    using clear_used_pages [of "pages h" used] b(1) by auto
  moreover have "used_pages used = (unat ` set (pages h) \<union> set (owned (map_erase k hs))) \<union> L"
    "(unat ` set (pages h) \<union> set (owned (map_erase k hs))) \<inter> L = {}"
    using b(5,7) unfolding sp by simp_all
  moreover have "distinct (owned (map_erase k hs))" "unat ` set (pages h) \<inter> set (owned (map_erase k hs)) = {}"
    using b(4) unfolding sp by simp_all
  ultimately show ?thesis
    using b(2,6) length_map_erase [OF b(3) h] by (auto simp: book_ok_def)
qed

text \<open>A new handle under the number \<open>k\<close>: when the number is in use, the pages of its old owner are lost.\<close>

definition lost_by :: "u16 \<Rightarrow> (u16 \<times> ems_handle) list \<Rightarrow> nat set" where
  "lost_by k hs = (case map_of hs k of None \<Rightarrow> {} | Some h \<Rightarrow> unat ` set (pages h))"

lemma book_ok_new:
  assumes ok: "book_ok L (used, hs)" and "length hs < 254"
    and new: "distinct (map unat new)" "set (map unat new) \<inter> used_pages used = {}"
      "used_pages used' = used_pages used \<union> set (map unat new)" "length used' = 512"
  shows "book_ok (L \<union> lost_by k hs) (used', map_set k (h'\<lparr>pages := new\<rparr>) hs)"
proof -
  note b = book_okD [OF ok]
  have len: "length (map_set k (h'\<lparr>pages := new\<rparr>) hs) \<le> 254"
    using assms(2) length_map_set_new [of hs k] length_map_set_old [OF b(3), of k] by (cases "map_of hs k") simp_all
  have sp: "set (owned hs) = lost_by k hs \<union> set (owned (map_erase k hs))" "lost_by k hs \<inter> set (owned (map_erase k hs)) = {}"
    "distinct (owned (map_erase k hs))"
    using owned_split [OF b(2)] b(4) by (cases "map_of hs k"; simp add: lost_by_def erase_new)+
  have own: "distinct (owned (map_set k (h'\<lparr>pages := new\<rparr>) hs)) \<longleftrightarrow> distinct (map unat new @ owned (map_erase k hs))"
    "set (owned (map_set k (h'\<lparr>pages := new\<rparr>) hs)) = set (map unat new) \<union> set (owned (map_erase k hs))"
    using owned_replace [OF b(2), of k "h'\<lparr>pages := new\<rparr>"] by simp_all
  show ?thesis
    using b(2,5,7) new sp len unfolding book_ok_def prod.case own by auto
qed

section \<open>Operations keep the books\<close>

lemma book_regs [simp]:
  "book (set_ax v s) = book s" "book (set_bx v s) = book s" "book (set_cx v s) = book s" "book (set_dx v s) = book s"
  "book (set_ah w s) = book s" "book (set_al w s) = book s" "book (set_bh w s) = book s"
  "book (s\<lparr>reg_edx := d\<rparr>) = book s" "book (wr f s) = book s" "book (s\<lparr>s_ems_pool := p\<rparr>) = book s"
  "book (s\<lparr>s_ems_slot_pool := l\<rparr>) = book s" "book (s\<lparr>s_ems_slot_h := l\<rparr>) = book s"
  "book (s\<lparr>s_ems_slot_p := l\<rparr>) = book s"
  by (simp_all add: book_def reg_defs wr_def)

lemma book_load_slot [simp]: "book (ems_load_slot E sl pp s) = book s"
  by (simp add: ems_load_slot_def Let_def)

lemma book_map [simp]: "book (snd (ems_map E sl h lp s)) = book s"
  by (simp add: ems_map_def Let_def split: option.split)

lemma book_fold:
  assumes "\<And>x s. book (f x s) = book s"
  shows "book (fold f xs s) = book s"
  using assms by (induction xs arbitrary: s) simp_all

lemma book_flush_all [simp]: "book (ems_flush_all E s) = book s"
  unfolding ems_flush_all_def by (rule book_fold) simp

lemma book_reload_all [simp]: "book (ems_reload_all E s) = book s"
  unfolding ems_reload_all_def by (rule book_fold) simp

lemma book_unmap_handle [simp]: "book (ems_unmap_handle E h s) = book s"
  unfolding ems_unmap_handle_def by (rule book_fold) simp

lemma book_restore_slots [simp]: "book (ems_restore_slots E h s) = book s"
  unfolding ems_restore_slots_def by (rule book_fold) simp

lemma book_map_array [simp]: "book (snd (ems_map_array E arr is s)) = book s"
proof (induction E arr "is" s rule: ems_map_array.induct)
  case (2 E arr i "is" s)
  define lp where "lp = mem_readw E (mem s) (arr + of_nat (i * 4) + 0)"
  define sec where "sec = mem_readw E (mem s) (arr + of_nat (i * 4) + 2)"
  obtain st t where m: "ems_map E (ucast (if reg_al s = 1 then (sec - EMS_FRAME_SEG) div 0x400 else sec)) (reg_dx s) lp s = (st, t)"
    by fastforce
  have bk: "book t = book s" using arg_cong [OF m, of "\<lambda>p. book (snd p)"] by simp
  have "ems_map_array E arr (i # is) s = (if reg_al s = 1 \<and> (sec < EMS_FRAME_SEG \<or> unat sec \<ge> unat EMS_FRAME_SEG + 0x1000)
      then (0x8B, s) else if st \<noteq> 0 then (st, t) else ems_map_array E arr is t)"
    using m unfolding ems_map_array.simps Let_def lp_def [symmetric] sec_def [symmetric] by auto
  then show ?case
    using bk 2 [OF lp_def sec_def _ refl m [symmetric] refl] by (simp split: if_split)
qed simp

lemma book_write_region:
  "ems_write_region E H base i bs s = Some t \<Longrightarrow> book t = book s"
proof (induction bs arbitrary: i s)
  case (Cons b bs)
  then show ?case by (auto split: option.splits dest!: Cons.IH)
qed simp

lemma book_move_region:
  assumes "ems_move_region E s = Some t"
  shows "book t = book s"
  using assms unfolding ems_move_region_def Let_def
  by (auto split: if_splits sum.splits prod.splits option.splits dest!: book_write_region)

text \<open>What a call does to the books: the handle counter stays and no handle is added, or one is created under the counter's
  number.\<close>

definition ems_keeps :: "nat set \<Rightarrow> 'm ems \<Rightarrow> 'm ems \<Rightarrow> bool" where
  "ems_keeps L s t \<longleftrightarrow> ems_inv L t \<and> s_ems_next_handle t = s_ems_next_handle s
     \<and> dom (map_of (s_ems_handles t)) \<subseteq> dom (map_of (s_ems_handles s))"

definition ems_creates :: "nat set \<Rightarrow> 'm ems \<Rightarrow> 'm ems \<Rightarrow> bool" where
  "ems_creates L s t \<longleftrightarrow> ems_inv (L \<union> lost_by (s_ems_next_handle s) (s_ems_handles s)) t \<and> s_ems_next_handle t = s_ems_next_handle s + 1
     \<and> dom (map_of (s_ems_handles t)) \<subseteq> insert (s_ems_next_handle s) (dom (map_of (s_ems_handles s)))"

lemma book_eq: "book t = book s \<Longrightarrow>
    s_ems_pool_used t = s_ems_pool_used s \<and> s_ems_handles t = s_ems_handles s \<and> s_ems_next_handle t = s_ems_next_handle s"
  by (simp add: book_def)

lemma keeps_same: "\<lbrakk>ems_inv L s; book t = book s\<rbrakk> \<Longrightarrow> ems_keeps L s t"
  using book_eq [of t s] by (simp add: ems_keeps_def ems_inv_book)

lemma keepsI:
  "\<lbrakk>book t = ((used, hs), s_ems_next_handle s); book_ok L (used, hs); dom (map_of hs) \<subseteq> dom (map_of (s_ems_handles s))\<rbrakk> \<Longrightarrow> ems_keeps L s t"
  by (simp add: ems_keeps_def ems_inv_book) (simp add: book_def)

lemma inv_alloc_call:
  assumes inv: "ems_inv L s"
  shows "ems_keeps L s (ems_alloc_call z s) \<or> ems_creates L s (ems_alloc_call z s)"
proof (cases "reg_bx s = 0 \<and> \<not> z \<or> unat (reg_bx s) > ems_free_pages (s_ems_pool_used s) \<or> length (s_ems_handles s) \<ge> 254")
  case True
  then have "book (ems_alloc_call z s) = book s" by (auto simp: ems_alloc_call_def ems_alloc_handle_def)
  then show ?thesis using keeps_same [OF inv] by simp
next
  case False
  have bk: "book_ok L (s_ems_pool_used s, s_ems_handles s)" using inv by (simp add: ems_inv_book book_def)
  note b = book_okD [OF bk]
  have "unat (reg_bx s) \<le> 512 - card (used_pages (s_ems_pool_used s))"
    using False ems_free_pages_card [OF b(1)] by simp
  then obtain ps used' pool' where p: "ems_push_pages (unat (reg_bx s)) [] (s_ems_pool_used s, s_ems_pool s) = (ps, used', pool')"
    "length used' = 512" "distinct (map unat ps)" "set (map unat ps) \<inter> used_pages (s_ems_pool_used s) = {}"
    "used_pages used' = used_pages (s_ems_pool_used s) \<union> set (map unat ps)"
    using ems_push_pages [OF b(1), of "unat (reg_bx s)" "[]" "s_ems_pool s"] by auto
  let ?n = "s_ems_next_handle s"
  have eq: "book (ems_alloc_call z s) = ((used', map_set ?n (new_handle\<lparr>pages := ps\<rparr>) (s_ems_handles s)), ?n + 1)"
    using False p(1) by (auto simp: ems_alloc_call_def ems_alloc_handle_def book_def set_dx_def set_ah_def set_ax_def Let_def)
  have "book_ok (L \<union> lost_by ?n (s_ems_handles s)) (used', map_set ?n (new_handle\<lparr>pages := ps\<rparr>) (s_ems_handles s))"
    using False by (intro book_ok_new [OF bk _ p(3-5,2)]) simp
  then have "ems_creates L s (ems_alloc_call z s)"
    using eq by (simp add: ems_creates_def ems_inv_book) (simp add: book_def)
  then show ?thesis ..
qed

lemma inv_realloc:
  assumes inv: "ems_inv L s"
  shows "ems_keeps L s (ems_realloc s)"
proof (cases "map_of (s_ems_handles s) (reg_dx s)")
  case None
  then show ?thesis using inv by (intro keeps_same) (simp_all add: ems_realloc_def)
next
  case (Some h)
  have bk: "book_ok L (s_ems_pool_used s, s_ems_handles s)" using inv by (simp add: ems_inv_book book_def)
  note b = book_okD [OF bk]
  have old: "dom (map_of (map_set (reg_dx s) h' (s_ems_handles s))) \<subseteq> dom (map_of (s_ems_handles s))" for h' using Some by auto
  let ?n = "of_nat (length (pages h)) :: u16"
  let ?need = "reg_bx s - ?n"
  consider (more) "?n < reg_bx s" "unat ?need \<le> ems_free_pages (s_ems_pool_used s)"
    | (fail) "?n < reg_bx s" "\<not> unat ?need \<le> ems_free_pages (s_ems_pool_used s)"
    | (less) "reg_bx s < ?n" | (same) "reg_bx s = ?n" by fastforce
  then show ?thesis
  proof cases
    case more
    then have "unat ?need \<le> 512 - card (used_pages (s_ems_pool_used s))"
      using ems_free_pages_card [OF b(1)] by simp
    from ems_push_pages [OF b(1) this, of "pages h" "s_ems_pool s"]
    obtain ps used' pool' where p: "ems_push_pages (unat ?need) (pages h) (s_ems_pool_used s, s_ems_pool s) = (pages h @ ps, used', pool')"
      "length used' = 512" "distinct (map unat ps)" "set (map unat ps) \<inter> used_pages (s_ems_pool_used s) = {}"
      "used_pages used' = used_pages (s_ems_pool_used s) \<union> set (map unat ps)" by blast
    have "book (ems_realloc s) = ((used', map_set (reg_dx s) (h\<lparr>pages := pages h @ ps\<rparr>) (s_ems_handles s)), s_ems_next_handle s)"
      using more p(1) Some by (simp add: ems_realloc_def Let_def) (simp add: book_def)
    then show ?thesis by (rule keepsI [OF _ book_ok_grow [OF bk Some p(3-5,2)] old])
  next
    case fail
    then show ?thesis using inv Some by (intro keeps_same) (simp_all add: ems_realloc_def Let_def)
  next
    case less
    have "book (ems_realloc s) = ((clear_used (drop (unat (reg_bx s)) (pages h)) (s_ems_pool_used s),
        map_set (reg_dx s) (h\<lparr>pages := take (unat (reg_bx s)) (pages h)\<rparr>) (s_ems_handles s)), s_ems_next_handle s)"
      using less Some less_not_sym [OF less] by (simp add: ems_realloc_def Let_def) (simp add: book_def)
    then show ?thesis by (rule keepsI [OF _ book_ok_shrink [OF bk Some] old])
  next
    case same
    then show ?thesis using inv Some by (intro keeps_same) (simp_all add: ems_realloc_def Let_def)
  qed
qed

lemma keeps_update:
  assumes "book_ok L (used, hs)" and "dom (map_of hs) \<subseteq> dom (map_of (s_ems_handles s))" and "s_ems_next_handle t = s_ems_next_handle s"
  shows "ems_keeps L s (set_ah v (t\<lparr>s_ems_pool_used := used, s_ems_handles := hs\<rparr>))"
    and "s_ems_pool_used t = used \<Longrightarrow> ems_keeps L s (set_ah v (t\<lparr>s_ems_handles := hs\<rparr>))"
  by (rule keepsI [OF _ assms(1,2)]; simp, simp add: book_def assms(3))+

lemma inv_handle_calls:
  assumes inv: "ems_inv L s"
  shows "ems_keeps L s (ems_dealloc E s)" and "ems_keeps L s (ems_save_map s)" and "ems_keeps L s (ems_restore_map E s)"
    and "ems_keeps L s (ems_name_call E s)" and "ems_keeps L s (ems_map_multiple E s)"
proof -
  have bk: "book_ok L (s_ems_pool_used s, s_ems_handles s)" using inv by (simp add: ems_inv_book book_def)
  note same = keeps_same [OF inv]
  have m: "book (case ems_map_array E a is s of (st, t) \<Rightarrow> set_ah st t) = book s" for a "is"
    using book_map_array [of E a "is" s] by (simp add: case_prod_beta)
  have erase: "ems_keeps L s (set_ah v (t\<lparr>s_ems_pool_used := clear_used (pages h) (s_ems_pool_used s),
      s_ems_handles := map_erase k (s_ems_handles s)\<rparr>))"
    if "map_of (s_ems_handles s) k = Some h" "s_ems_next_handle t = s_ems_next_handle s" for k h v and t :: "'a ems"
    by (rule keeps_update(1) [OF book_ok_erase [OF bk that(1)] _ that(2)]) auto
  have keep: "ems_keeps L s (set_ah v (t\<lparr>s_ems_handles := map_set k h' (s_ems_handles s)\<rparr>))"
    if "map_of (s_ems_handles s) k = Some h" "pages h' = pages h" "s_ems_pool_used t = s_ems_pool_used s"
      "s_ems_next_handle t = s_ems_next_handle s" for k h h' v and t :: "'a ems"
    by (rule keeps_update(2) [OF book_ok_same_pages [OF bk that(1,2)] _ that(4,3)]) (use that(1) in auto)
  show "ems_keeps L s (ems_dealloc E s)"
    using same erase book_eq [OF book_unmap_handle [of E "reg_dx s" s]]
    by (simp add: ems_dealloc_def Let_def split: option.split)
  show "ems_keeps L s (ems_save_map s)" "ems_keeps L s (ems_name_call E s)"
    using same keep by (simp_all add: ems_save_map_def ems_name_call_def Let_def split: option.split)
  show "ems_keeps L s (ems_restore_map E s)"
    using same keep book_eq [OF book_restore_slots [of E _ s]]
    by (simp add: ems_restore_map_def Let_def split: option.split)
  show "ems_keeps L s (ems_map_multiple E s)"
    using same m by (simp add: ems_map_multiple_def Let_def split: option.split)
qed

lemma inv_int67:
  assumes inv: "ems_inv L s" and run: "dosiz_int67 E s = Some t"
  shows "ems_keeps L s t \<or> ems_creates L s t"
proof -
  have m: "ems_map E (reg_al s) (reg_dx s) (reg_bx s) s = (st, u) \<Longrightarrow> book u = book s" for st u
    by (metis book_map snd_conv)
  note other = vcpi_def ems_page_counts_def ems_pages_owned_def ems_all_pages_def ems_phys_array_def ems_hw_config_def
  have "book t = book s \<or> ems_keeps L s t \<or> ems_creates L s t"
    using run inv_alloc_call [OF inv] inv_realloc [OF inv] inv_handle_calls [OF inv] book_move_region [of E s t]
    by (auto simp: dosiz_int67_def Let_def other split: if_splits option.splits prod.splits dest: m)
  then show ?thesis using keeps_same [OF inv] by blast
qed

section \<open>The page frame\<close>

lemma frame_addr_nat:
  assumes "sl < 4" and "i < 16384"
  shows "unat (frame_addr sl + of_nat i) = 0xE0000 + sl * 16384 + i"
proof -
  have "frame_addr sl + of_nat i = of_nat (0xE0000 + sl * 16384 + i)"
    by (simp add: frame_addr_def EMS_FRAME_BASE_def EMS_PAGE_SIZE_def)
  moreover have "0xE0000 + sl * 16384 + i < 4294967296" using assms by simp
  ultimately show ?thesis by (simp only: unat_of_nat_u32)
qed

lemma frame_addr_ram:
  "\<lbrakk>frame_ram E m; sl < 4; i < 16384\<rbrakk> \<Longrightarrow> is_ram E m (frame_addr sl + of_nat i)"
  unfolding frame_ram_def word_le_nat_alt word_less_nat_alt by (simp add: frame_addr_nat)

lemma frame_addr_eq:
  assumes "sl < 4" "sl' < 4" "i < 16384" "j < 16384"
  shows "frame_addr sl + of_nat i = frame_addr sl' + of_nat j \<longleftrightarrow> sl = sl' \<and> i = j"
proof
  assume "frame_addr sl + of_nat i = frame_addr sl' + of_nat j"
  then have "sl * 16384 + i = sl' * 16384 + j"
    using frame_addr_nat [OF assms(1,3)] frame_addr_nat [OF assms(2,4)] by simp
  then have "sl = sl'" using assms(3,4) by linarith
  with \<open>sl * 16384 + i = sl' * 16384 + j\<close> show "sl = sl' \<and> i = j" by simp
qed simp

lemma pool_fill_page:
  assumes "i < 16384"
  shows "pool_fill (pool_off c) g pool (pool_off q + i) = (if q = c then g i else pool (pool_off q + i))"
proof (cases "q = c")
  case False
  then have ne: "unat q \<noteq> unat c" by (simp add: word_unat_eq_iff)
  have "\<not> (pool_off c \<le> pool_off q + i \<and> pool_off q + i < pool_off c + unat EMS_PAGE_SIZE)"
  proof
    assume a: "pool_off c \<le> pool_off q + i \<and> pool_off q + i < pool_off c + unat EMS_PAGE_SIZE"
    then have "unat c * 16384 < (unat q + 1) * 16384" "unat q * 16384 < (unat c + 1) * 16384"
      using assms by (simp_all add: pool_off_def page_size)
    then have "unat c < unat q + 1" "unat q < unat c + 1" unfolding mult_less_cancel2 by blast+
    with ne show False by linarith
  qed
  with False show ?thesis by (auto simp: pool_fill_at)
qed (simp add: pool_fill_at page_size assms)

lemma all_below_4: "(\<forall>n < 4. P n) \<longleftrightarrow> P 0 \<and> P 1 \<and> P 2 \<and> P (3 :: nat)"
  by (auto simp: numeral_eq_Suc less_Suc_eq)

lemma slot_of_iff:
  assumes "slots_ok s" and "q \<noteq> 0xFFFF"
  shows "slot_of s q = Some sl \<longleftrightarrow> sl < 4 \<and> s_ems_slot_pool s ! sl = q"
    and "slot_of s q = None \<longleftrightarrow> (\<forall>sl < 4. s_ems_slot_pool s ! sl \<noteq> q)"
proof -
  show none: "slot_of s q = None \<longleftrightarrow> (\<forall>sl < 4. s_ems_slot_pool s ! sl \<noteq> q)"
    unfolding slot_of_def all_below_4 by simp
  show "slot_of s q = Some sl \<longleftrightarrow> sl < 4 \<and> s_ems_slot_pool s ! sl = q"
  proof
    assume "slot_of s q = Some sl"
    then show "sl < 4 \<and> s_ems_slot_pool s ! sl = q"
      unfolding slot_of_def by (auto split: if_splits)
  next
    assume sl: "sl < 4 \<and> s_ems_slot_pool s ! sl = q"
    then obtain sl' where sl': "slot_of s q = Some sl'" using none by fastforce
    then have "sl' < 4 \<and> s_ems_slot_pool s ! sl' = q"
      unfolding slot_of_def by (auto split: if_splits)
    then have "sl' = sl" using sl assms by (auto simp: slots_ok_def)
    then show "slot_of s q = Some sl" using sl' by simp
  qed
qed

context emu88_engine
begin

lemma frame_store:
  assumes ram: "frame_ram E m" and sl: "sl < 4"
  shows "is_ram E (frame_store E sl g m) b = is_ram E m b"
    and "i < 16384 \<Longrightarrow> mem_readb E (frame_store E sl g m) (frame_addr sl + of_nat i) = g i"
    and "\<lbrakk>is_ram E m b; \<forall>i < 16384. b \<noteq> frame_addr sl + of_nat i\<rbrakk> \<Longrightarrow>
      mem_readb E (frame_store E sl g m) b = mem_readb E m b"
proof -
  have a: "unat (frame_addr sl) = 0xE0000 + sl * 16384" using frame_addr_nat [OF sl, of 0] by simp
  have "is_ram E m (frame_addr sl + of_nat i)" if "i < 16384" for i
    by (rule frame_addr_ram [OF ram sl that])
  moreover have "unat (frame_addr sl) + 16384 \<le> 2 ^ 32" using a sl by simp
  ultimately have W: "is_ram E (frame_store E sl g m) b = is_ram E m b"
    "is_ram E m b \<Longrightarrow> mem_readb E (frame_store E sl g m) b =
      (if unat (frame_addr sl) \<le> unat b \<and> unat b < unat (frame_addr sl) + 16384
       then g (unat b - unat (frame_addr sl)) else mem_readb E m b)" for b
    using write_bytes [of 16384 m "frame_addr sl" g] unfolding frame_store_def page_size by blast+
  show "is_ram E (frame_store E sl g m) b = is_ram E m b" by (rule W)
  show "i < 16384 \<Longrightarrow> mem_readb E (frame_store E sl g m) (frame_addr sl + of_nat i) = g i"
    using W(2) [OF frame_addr_ram [OF ram sl]] by (simp add: a frame_addr_nat [OF sl])
  assume b: "is_ram E m b" "\<forall>i < 16384. b \<noteq> frame_addr sl + of_nat i"
  have "\<not> (unat (frame_addr sl) \<le> unat b \<and> unat b < unat (frame_addr sl) + 16384)"
  proof
    assume c: "unat (frame_addr sl) \<le> unat b \<and> unat b < unat (frame_addr sl) + 16384"
    define i where "i = unat b - unat (frame_addr sl)"
    have "i < 16384" "unat b = unat (frame_addr sl + of_nat i)"
      using c frame_addr_nat [OF sl, of i] a by (auto simp: i_def)
    then show False using b(2) by (metis word_unat_eq_iff)
  qed
  with W(2) [OF b(1)] show "mem_readb E (frame_store E sl g m) b = mem_readb E m b" by simp
qed

lemma load_slot:
  fixes s :: "'m ems"
  assumes ok: "slots_ok s" and ram: "frame_ram E (mem s)" and sl: "sl < 4"
    and pp: "pp = 0xFFFF \<or> pp < EMS_TOTAL_PAGES \<and> (\<forall>j < 4. j \<noteq> sl \<longrightarrow> s_ems_slot_pool s ! j \<noteq> pp)"
  defines "t \<equiv> ems_load_slot E sl pp s"
  shows "slots_ok t" and "frame_ram E (mem t)" and "s_ems_slot_pool t ! sl = pp"
    and "\<lbrakk>q \<noteq> 0xFFFF; i < 16384\<rbrakk> \<Longrightarrow> ems_view E t q i = ems_view E s q i"
proof -
  define cur where "cur = s_ems_slot_pool s ! sl"
  define pool1 where "pool1 = (if cur \<noteq> 0xFFFF then pool_fill (pool_off cur)
    (\<lambda>i. mem_readb E (mem s) (frame_addr sl + of_nat i)) (s_ems_pool s) else s_ems_pool s)"
  define m1 where "m1 = (if pp \<noteq> 0xFFFF then frame_store E sl (\<lambda>i. pool1 (pool_off pp + i)) (mem s) else mem s)"
  have ppc: "(if pp \<noteq> 0xFFFF \<and> EMS_TOTAL_PAGES \<le> pp then 0xFFFF else pp) = pp" using pp by auto
  have t: "s_ems_pool t = pool1" "mem t = m1" "s_ems_slot_pool t = (s_ems_slot_pool s)[sl := pp]"
    using sl unfolding t_def ems_load_slot_def Let_def ppc
    by (auto simp: cur_def pool1_def m1_def wr_def)
  have len: "length (s_ems_slot_pool s) = 4" using ok by (simp add: slots_ok_def)
  have nth: "s_ems_slot_pool t ! j = (if j = sl then pp else s_ems_slot_pool s ! j)" if "j < 4" for j
    using that len by (simp add: t nth_list_update)
  show okt: "slots_ok t" using ok pp sl len by (auto simp: slots_ok_def t nth_list_update split: if_splits)
  show "frame_ram E (mem t)"
    using ram frame_store(1) [OF ram sl] by (simp add: frame_ram_def t m1_def)
  show "s_ems_slot_pool t ! sl = pp" using nth [OF sl] by simp
  assume q: "q \<noteq> 0xFFFF" and i: "i < 16384"
  have pool1: "pool1 (pool_off q + i) = (if q = cur then mem_readb E (mem s) (frame_addr sl + of_nat i) else s_ems_pool s (pool_off q + i))"
    using q by (simp add: pool1_def pool_fill_page [OF i])
  note so = slot_of_iff [OF ok q] slot_of_iff [OF okt q]
  show "ems_view E t q i = ems_view E s q i"
  proof (cases "q = pp")
    case True
    have "slot_of t q = Some sl" using so(3) [of sl] nth sl True by simp
    then have "ems_view E t q i = pool1 (pool_off q + i)"
      using frame_store(2) [OF ram sl i] True q by (simp add: ems_view_def t m1_def)
    moreover have "slot_of s q = (if q = cur then Some sl else None)"
      using so(1) [of sl] so(2) pp q True sl by (auto simp: cur_def)
    ultimately show ?thesis by (simp add: pool1 ems_view_def)
  next
    case False
    show ?thesis
    proof (cases "\<exists>j < 4. j \<noteq> sl \<and> s_ems_slot_pool s ! j = q")
      case True
      then obtain j where j: "j < 4" "j \<noteq> sl" "s_ems_slot_pool s ! j = q" by blast
      have "slot_of s q = Some j" "slot_of t q = Some j" using so(1) [of j] so(3) [of j] j nth by simp_all
      moreover have "mem_readb E m1 (frame_addr j + of_nat i) = mem_readb E (mem s) (frame_addr j + of_nat i)"
        using frame_store(3) [OF ram sl frame_addr_ram [OF ram j(1) i]] frame_addr_eq [OF j(1) sl i] j(2)
        by (simp add: m1_def)
      ultimately show ?thesis by (simp add: ems_view_def t)
    next
      case no: False
      have "slot_of t q = None" using so(4) no nth False by auto
      moreover have "slot_of s q = (if q = cur then Some sl else None)"
        using so(1) [of sl] so(2) no sl by (auto simp: cur_def)
      ultimately show ?thesis by (simp add: ems_view_def t pool1)
    qed
  qed
qed

end

lemma load_slot_other:
  "s_ems_slot_pool (ems_load_slot E sl pp s) = (if sl > 3 then s_ems_slot_pool s else
     (s_ems_slot_pool s)[sl := if pp \<noteq> 0xFFFF \<and> EMS_TOTAL_PAGES \<le> pp then 0xFFFF else pp])"
  by (simp add: ems_load_slot_def Let_def wr_def)

lemma ems_map_found:
  fixes E :: "'m emu88"
  assumes "map_of (s_ems_handles s) handle = Some h" and "unat slot < 4" and "unat lp < length (pages h)" and "lp \<noteq> 0xFFFF"
  defines "t \<equiv> ems_load_slot E (unat slot) (pages h ! unat lp) s"
  shows "ems_map E slot handle lp s = (0, t\<lparr>s_ems_slot_h := (s_ems_slot_h t)[unat slot := handle],
    s_ems_slot_p := (s_ems_slot_p t)[unat slot := lp]\<rparr>)"
proof -
  have "\<not> slot > 3" using assms(2) by (simp add: word_less_nat_alt)
  then show ?thesis using assms by (simp add: ems_map_def Let_def t_def)
qed

lemma ems_map_bad_handle:
  "map_of (s_ems_handles s) handle = None \<Longrightarrow> snd (ems_map E slot handle lp s) = s"
  by (simp add: ems_map_def Let_def)

lemma ems_map_other_slot:
  "sl \<noteq> unat slot \<Longrightarrow> s_ems_slot_pool (snd (ems_map E slot handle lp s)) ! sl = s_ems_slot_pool s ! sl"
  by (simp add: ems_map_def Let_def load_slot_other split: option.split)

lemma ems_read_region_oob:
  assumes "i \<in> set is" and "ems_pool_byte h (base + of_nat i) = None"
  shows "ems_read_region E (Some h) base is s = None"
  using assms by (induction "is") (auto split: option.split)

text \<open>The states a guest can drive the manager into with \<open>n\<close> calls: between calls it changes its registers and memory at will.\<close>

inductive ems_reach :: "'m emu88 \<Rightarrow> 'm ems \<Rightarrow> nat \<Rightarrow> 'm ems \<Rightarrow> bool" for E s where
  start: "ems_reach E s 0 s"
| guest: "\<lbrakk>ems_reach E s n t; machine.more u = machine.more t\<rbrakk> \<Longrightarrow> ems_reach E s n u"
| call: "\<lbrakk>ems_reach E s n t; dosiz_int67 E t = Some u\<rbrakk> \<Longrightarrow> ems_reach E s (Suc n) u"

text \<open>Every handle has a number below the counter, which has counted the calls without wrapping.\<close>

definition numbered :: "'m ems \<Rightarrow> nat \<Rightarrow> 'm ems \<Rightarrow> bool" where
  "numbered s n t \<longleftrightarrow> unat (s_ems_next_handle t) \<le> unat (s_ems_next_handle s) + n
     \<and> (\<forall>h \<in> dom (map_of (s_ems_handles t)). h < s_ems_next_handle t)"

lemma numbered_keeps: "\<lbrakk>numbered s n t; ems_keeps L t u\<rbrakk> \<Longrightarrow> numbered s (Suc n) u"
  unfolding numbered_def ems_keeps_def by (simp, blast)

lemma numbered_creates:
  assumes "numbered s n t" and "ems_creates L t u" and "unat (s_ems_next_handle s) + Suc n < 65536"
  shows "numbered s (Suc n) u" and "ems_inv L u"
proof -
  let ?k = "s_ems_next_handle t"
  have k: "unat (?k + 1) = unat ?k + 1" "unat ?k \<le> unat (s_ems_next_handle s) + n"
    using assms(1,3) by (simp_all add: numbered_def unat_word_ariths)
  have u: "s_ems_next_handle u = ?k + 1" "dom (map_of (s_ems_handles u)) \<subseteq> insert ?k (dom (map_of (s_ems_handles t)))"
    using assms(2) by (simp_all add: ems_creates_def)
  have "h < ?k + 1" if "h \<in> dom (map_of (s_ems_handles u))" for h
  proof -
    have "h = ?k \<or> h < ?k" using that u(2) assms(1) unfolding numbered_def by blast
    then show ?thesis using k(1) by (auto simp: word_less_nat_alt)
  qed
  then show "numbered s (Suc n) u" using k by (simp add: numbered_def u(1))
  have "map_of (s_ems_handles t) (s_ems_next_handle t) = None"
    using assms(1) unfolding numbered_def by (metis domIff less_irrefl)
  then show "ems_inv L u" using assms(2) by (simp add: ems_creates_def lost_by_def)
qed

lemma book_more: "machine.more u = machine.more t \<Longrightarrow> book u = book t"
  by (cases u; cases t) (simp add: book_def)

section \<open>Concrete states\<close>

definition ems_boot :: "u32 \<Rightarrow> u32 \<Rightarrow> u32 \<Rightarrow> (u32 \<Rightarrow> u8) ems" where
  "ems_boot ax bx dx = ems_reset \<lparr> mem = (\<lambda>_. 0), reg_eax = ax, reg_ebx = bx, reg_ecx = 0, reg_edx = dx,
     reg_esi = 0, reg_edi = 0, reg_ebp = 0, reg_esp = 0x100, reg_eip = 0,
     seg_val = (\<lambda>_. 0), seg_phys = (\<lambda>_. 0x30000), cpu_pmode = False, stack_big = False,
     code_big = False, reg_flags = 0x202, cpu_cpl = 0, cpu_cr0 = 0, s_int_gate_bits32 = False,
     s_ems_pool_size = 0, s_ems_pool = (\<lambda>_. 0), s_ems_pool_used = [], s_ems_handles = [], s_ems_next_handle = 0,
     s_ems_slot_h = [], s_ems_slot_p = [], s_ems_slot_pool = [] \<rparr>"

text \<open>A handle that owns pool pages 3 and 5, with page 3 in slot 1.\<close>

definition ems_mapped :: "(u32 \<Rightarrow> u8) ems" where
  "ems_mapped = (ems_boot 0x4400 1 1)\<lparr>s_ems_handles := [(1, new_handle\<lparr>pages := [3, 5]\<rparr>)], s_ems_next_handle := 2,
     s_ems_slot_h := [0xFFFF, 1, 0xFFFF, 0xFFFF], s_ems_slot_p := [0xFFFF, 0, 0xFFFF, 0xFFFF],
     s_ems_slot_pool := [0xFFFF, 3, 0xFFFF, 0xFFFF]\<rparr>"

lemma ems_boot_fields:
  "s_ems_pool_used (ems_boot ax bx dx) = replicate 512 False" "s_ems_handles (ems_boot ax bx dx) = []"
  "s_ems_next_handle (ems_boot ax bx dx) = 1"
  "s_ems_slot_pool (ems_boot ax bx dx) = replicate 4 0xFFFF" "s_ems_slot_h (ems_boot ax bx dx) = replicate 4 0xFFFF"
  by (simp_all add: ems_boot_def ems_reset_def Let_def EMS_TOTAL_PAGES_def)

lemma ems_boot_inv: "ems_inv {} (ems_boot ax bx dx)"
  by (simp add: ems_inv_def ems_boot_fields used_pages_def owned_def)

lemma replicate_4: "replicate 4 x = [x, x, x, x]"
  by (simp add: numeral_eq_Suc)

lemma ems_mapped_fields:
  "s_ems_handles ems_mapped = [(1, new_handle\<lparr>pages := [3, 5]\<rparr>)]" "reg_dx ems_mapped = 1"
  "s_ems_slot_pool ems_mapped = [0xFFFF, 3, 0xFFFF, 0xFFFF]" "s_ems_slot_h ems_mapped = [0xFFFF, 1, 0xFFFF, 0xFFFF]"
  by (simp_all add: ems_mapped_def ems_boot_def ems_reset_def Let_def reg_defs lo16_def)

lemma ems_mapped_slots: "slots_ok ems_mapped"
  unfolding slots_ok_def ems_mapped_fields all_below_4
  by (simp add: EMS_TOTAL_PAGES_def word_less_nat_alt)

section \<open>Properties\<close>

text \<open>C6: The page accounts. Take any sequence of INT 67h calls with any registers, and any changes the guest makes to its registers
  and memory in between. In every state it leads to no page is owned by two handles, every page a handle owns is marked used, and there are at most 254
  handles; the pages that are marked used without an owner are a set \<open>L\<close>, which stays empty for as long as the 16-bit handle counter cannot have wrapped (65534 calls
  after a reset, which sets it to 1): up to then the used pages are exactly the owned ones. A counter that has wrapped can replace an
  open handle, whose pages then are the ones lost.\<close>

theorem ems_reachable_inv:
  assumes "ems_reach E s n t" and "ems_inv {} s" and "\<forall>h \<in> dom (map_of (s_ems_handles s)). h < s_ems_next_handle s"
  shows "\<exists>L. ems_inv L t \<and> (unat (s_ems_next_handle s) + n < 65536 \<longrightarrow> L = {})"
proof -
  have "\<exists>L. ems_inv L t \<and> (unat (s_ems_next_handle s) + n < 65536 \<longrightarrow> L = {} \<and> numbered s n t)"
    using assms
  proof induction
    case start
    then show ?case by (auto simp: numbered_def)
  next
    case (guest n t u)
    then show ?case using book_eq [OF book_more [of u t]] by (simp add: ems_inv_def numbered_def)
  next
    case (call n t u)
    then obtain L where L: "ems_inv L t" "unat (s_ems_next_handle s) + n < 65536 \<longrightarrow> L = {} \<and> numbered s n t" by blast
    from inv_int67 [OF L(1) call.hyps(2)] show ?case
    proof
      assume "ems_keeps L t u"
      then show ?thesis using L(2) numbered_keeps [of s n t L u] by (auto simp: ems_keeps_def)
    next
      assume c: "ems_creates L t u"
      show ?thesis
      proof (cases "unat (s_ems_next_handle s) + Suc n < 65536")
        case True
        then show ?thesis using L(2) numbered_creates [OF _ c True] by (intro exI [of _ L]) simp
      next
        case False
        then show ?thesis using c unfolding ems_creates_def by blast
      qed
    qed
  qed
  then show ?thesis by blast
qed

theorem ems_reachable_inv_witness: "ems_inv {} (ems_alloc_call False (ems_boot 0x4300 4 0))"
proof -
  have ah: "reg_ah (ems_boot 0x4300 4 0) = 0x43"
    by (simp add: ems_boot_def ems_reset_def Let_def reg_defs lo16_def hi8_def)
  then have "dosiz_int67 flat (ems_boot 0x4300 4 0) = Some (ems_alloc_call False (ems_boot 0x4300 4 0))"
    by (simp add: dosiz_int67_def Let_def)
  from ems_reach.call [OF ems_reach.start this] show ?thesis
    using ems_reachable_inv [OF _ ems_boot_inv, of flat "0x4300" 4 0 "Suc 0"] by (force simp: ems_boot_fields)
qed

text \<open>C5: Mapping loses nothing. AH=44h with a valid handle and logical page answers 0 and brings that page's
  contents into the chosen 16 KB slot of the frame, while every page of the pool, the one that was in the
  slot before included, keeps its contents as the guest sees them. The hypothesis that the page is in
  no other slot is the documented limitation on aliasing.\<close>

theorem ems_map_preserves_contents:
  fixes E :: "'m emu88" and s :: "'m ems"
  assumes "emu88_engine E" and "slots_ok s" and "frame_ram E (mem s)"
    and h: "map_of (s_ems_handles s) handle = Some h" and sl: "unat slot < 4"
    and lp: "unat lp < length (pages h)" "lp \<noteq> 0xFFFF" and pp: "pages h ! unat lp < EMS_TOTAL_PAGES"
    and elsewhere: "\<forall>j < 4. j \<noteq> unat slot \<longrightarrow> s_ems_slot_pool s ! j \<noteq> pages h ! unat lp"
  shows "\<exists>t. ems_map E slot handle lp s = (0, t) \<and> slots_ok t \<and> frame_ram E (mem t)
    \<and> (\<forall>i < 16384. mem_readb E (mem t) (frame_addr (unat slot) + of_nat i) = ems_view E s (pages h ! unat lp) i)
    \<and> (\<forall>q i. q \<noteq> 0xFFFF \<longrightarrow> i < 16384 \<longrightarrow> ems_view E t q i = ems_view E s q i)"
proof -
  define pg where "pg = pages h ! unat lp"
  define t where "t = ems_load_slot E (unat slot) pg s"
  define u where "u = t\<lparr>s_ems_slot_h := (s_ems_slot_h t)[unat slot := handle],
    s_ems_slot_p := (s_ems_slot_p t)[unat slot := lp]\<rparr>"
  have pg: "pg \<noteq> 0xFFFF" using pp by (auto simp: pg_def EMS_TOTAL_PAGES_def word_less_nat_alt)
  have ok: "pg = 0xFFFF \<or> pg < EMS_TOTAL_PAGES \<and> (\<forall>j < 4. j \<noteq> unat slot \<longrightarrow> s_ems_slot_pool s ! j \<noteq> pg)"
    using pp elsewhere by (simp add: pg_def)
  note L = emu88_engine.load_slot [OF assms(1-3) sl ok, folded t_def]
  have same: "slots_ok u = slots_ok t" "mem u = mem t" "ems_view E u = ems_view E t" "slot_of u = slot_of t"
    by (auto simp: u_def slots_ok_def ems_view_def slot_of_def fun_eq_iff)
  have "slot_of u pg = Some (unat slot)" using slot_of_iff(1) [OF L(1) pg] L(3) sl same by simp
  then have "mem_readb E (mem u) (frame_addr (unat slot) + of_nat i) = ems_view E u pg i" for i
    by (simp add: ems_view_def)
  then show ?thesis
    using ems_map_found [OF h sl lp, of E] L same pg by (auto simp: pg_def [symmetric] t_def [symmetric] u_def [symmetric])
qed

theorem ems_map_preserves_contents_witness:
  "\<exists>t. ems_map flat 1 1 1 ems_mapped = (0, t) \<and> slots_ok t
    \<and> ems_view flat t 3 7 = ems_view flat ems_mapped 3 7"
proof -
  have "map_of (s_ems_handles ems_mapped) 1 = Some (new_handle\<lparr>pages := [3, 5]\<rparr>)" by (simp add: ems_mapped_fields)
  from ems_map_preserves_contents [OF flat_ram.emu88_engine_axioms ems_mapped_slots _ this, of 1 1]
  obtain t where "ems_map flat 1 1 1 ems_mapped = (0, t)" "slots_ok t"
    "\<forall>q i. q \<noteq> 0xFFFF \<longrightarrow> i < 16384 \<longrightarrow> ems_view flat t q i = ems_view flat ems_mapped q i"
    unfolding all_below_4 by (auto simp: ems_mapped_fields frame_ram_def EMS_TOTAL_PAGES_def word_less_nat_alt)
  then show ?thesis by auto
qed

text \<open>Restoring a page map does not unmap. A slot that was empty when AH=47h saved the map is recorded
  with handle FFFFh, which AH=48h passes to \<open>ems_map\<close>; that rejects the handle, so a page
  mapped into the slot in between stays mapped although the restore reports success.\<close>

theorem ems_restore_keeps_mapping:
  assumes h: "map_of (s_ems_handles s) (reg_dx s) = Some h" "map_saved h"
    and empty: "saved_h h = [0xFFFF, 0xFFFF, 0xFFFF, 0xFFFF]" and none: "map_of (s_ems_handles s) 0xFFFF = None"
  shows "reg_ah (ems_restore_map E s) = 0 \<and> s_ems_slot_pool (ems_restore_map E s) = s_ems_slot_pool s
    \<and> s_ems_slot_h (ems_restore_map E s) = s_ems_slot_h s \<and> mem (ems_restore_map E s) = mem s"
proof -
  have "ems_restore_slots E h s = s"
    unfolding ems_restore_slots_def empty by (simp add: ems_map_bad_handle [OF none])
  then show ?thesis using h by (simp add: ems_restore_map_def Let_def) (simp add: reg_defs)
qed

theorem ems_restore_keeps_mapping_witness:
  "s_ems_slot_pool (ems_restore_map flat (ems_mapped\<lparr>s_ems_handles := [(1, new_handle\<lparr>pages := [3, 5], map_saved := True\<rparr>)]\<rparr>)) ! 1 = 3"
proof -
  let ?s = "ems_mapped\<lparr>s_ems_handles := [(1, new_handle\<lparr>pages := [3, 5], map_saved := True\<rparr>)]\<rparr>"
  have dx: "reg_dx ?s = 1" using ems_mapped_fields(2) by (simp add: reg_defs)
  have "map_of (s_ems_handles ?s) (reg_dx ?s) = Some (new_handle\<lparr>pages := [3, 5], map_saved := True\<rparr>)"
    unfolding dx by simp
  from ems_restore_keeps_mapping [OF this, of flat] show ?thesis
    by (simp add: new_handle_def ems_mapped_fields replicate_4)
qed

text \<open>Shrinking a handle leaves its pages in the frame. AH=51h gives the cut pages back to the pool without
  looking at the slots: a page mapped at that moment is marked free while its slot still names it, so the
  next flush of the slot will write the stale frame over whoever owns the page by then.\<close>

theorem ems_shrink_leaves_mapping:
  assumes inv: "ems_inv {} s" and h: "map_of (s_ems_handles s) (reg_dx s) = Some h"
    and cut: "reg_bx s < of_nat (length (pages h))" and pg: "pg \<in> set (drop (unat (reg_bx s)) (pages h))"
    and sl: "s_ems_slot_pool s ! sl = pg"
  shows "reg_ah (ems_realloc s) = 0 \<and> s_ems_slot_pool (ems_realloc s) ! sl = pg
    \<and> unat pg \<notin> used_pages (s_ems_pool_used (ems_realloc s))"
proof -
  have bk: "book_ok {} (s_ems_pool_used s, s_ems_handles s)" using inv by (simp add: ems_inv_book book_def)
  note b = book_okD [OF bk]
  have "unat p < 512" if "p \<in> set (pages h)" for p
    using that b(1,5) owned_split(2) [OF b(2) h] by (auto simp: used_pages_def)
  then have cl: "unat pg \<notin> used_pages (clear_used (drop (unat (reg_bx s)) (pages h)) (s_ems_pool_used s))"
    using clear_used_pages [of "drop (unat (reg_bx s)) (pages h)" "s_ems_pool_used s"] b(1) pg
    by (simp add: in_set_dropD)
  have "s_ems_pool_used (ems_realloc s) = clear_used (drop (unat (reg_bx s)) (pages h)) (s_ems_pool_used s)
    \<and> s_ems_slot_pool (ems_realloc s) = s_ems_slot_pool s \<and> reg_ah (ems_realloc s) = 0"
    using h cut less_not_sym [OF cut] by (simp add: ems_realloc_def Let_def) (simp add: reg_defs)
  then show ?thesis using cl sl by simp
qed

theorem ems_shrink_leaves_mapping_witness:
  "s_ems_slot_pool (ems_realloc (ems_mapped\<lparr>s_ems_pool_used := (replicate 512 False)[3 := True, 5 := True], reg_ebx := 0\<rparr>)) ! 1 = 3"
proof -
  let ?s = "ems_mapped\<lparr>s_ems_pool_used := (replicate 512 False)[3 := True, 5 := True], reg_ebx := 0\<rparr>"
  have r: "reg_dx ?s = 1" "reg_bx ?s = 0" using ems_mapped_fields(2) by (simp_all add: reg_defs lo16_def)
  have "used_pages ((replicate 512 False)[3 := True, 5 := True]) = {3, 5}"
    by (auto simp: used_pages_def nth_list_update)
  then have inv: "ems_inv {} ?s"
    by (simp add: ems_inv_def ems_mapped_fields owned_def new_handle_def map_ok_def)
  have h: "map_of (s_ems_handles ?s) (reg_dx ?s) = Some (new_handle\<lparr>pages := [3, 5]\<rparr>)"
    unfolding r by (simp add: ems_mapped_fields)
  show ?thesis
    using ems_shrink_leaves_mapping [OF inv h, of 3 1] unfolding r
    by (simp add: ems_mapped_fields word_less_nat_alt)
qed

text \<open>Region moves can index outside the pool. AH=57h checks the end of an EMS region with a 32-bit sum:
  when offset plus length passes 4 GiB the sum wraps, the check passes, and the copy loop reads the pool
  through an index \<open>ems_pool_byte\<close> rejects with \<open>SIZE_MAX\<close>: the host accesses memory outside the vector.\<close>

theorem ems_move_wraps_out_of_bounds:
  fixes E :: "'m emu88" and s :: "'m ems"
  defines "d \<equiv> seg_phys s DS + ucast (reg_si s)"
  defines "bytes \<equiv> mem_readd E (mem s) (d + 0x00)"
  defines "base \<equiv> ucast (mem_readw E (mem s) (d + 0x09)) * EMS_PAGE_SIZE + ucast (mem_readw E (mem s) (d + 0x07)) :: u32"
  assumes al: "reg_al s \<le> 1" and ty: "mem_readb E (mem s) (d + 0x04) \<noteq> 0" "mem_readb E (mem s) (d + 0x0B) = 0"
    and h: "map_of (s_ems_handles s) (mem_readw E (mem s) (d + 0x05)) = Some h" "length (pages h) \<le> 512"
    and wrap: "unat base + unat bytes \<ge> 2 ^ 32" and pass: "base + bytes \<le> of_nat (length (pages h)) * EMS_PAGE_SIZE"
  shows "ems_move_region E s = None"
proof -
  define L where "L = length (pages h) * 16384"
  define i where "i = L - unat base"
  have bl: "unat bytes < 2 ^ 32" "unat base < 2 ^ 32" using unat_u32_less [of bytes] unat_u32_less [of base] by simp_all
  have i: "i < unat bytes" using wrap bl(2) h(2) unat_u32_less [of bytes] by (simp add: i_def L_def)
  have "unat base + i < 2 ^ 32" using bl(2) h(2) by (simp add: i_def L_def)
  moreover have "base + of_nat i = of_nat (unat base + i)" by simp
  ultimately have u: "unat (base + of_nat i) = unat base + i" using unat_of_nat_u32 [of "unat base + i"] by simp
  then have "unat ((base + of_nat i) div EMS_PAGE_SIZE) = (unat base + i) div 16384"
    by (simp add: unat_div page_size)
  then have oob: "ems_pool_byte h (base + of_nat i) = None"
    by (simp add: ems_pool_byte_def Let_def i_def L_def)
  have nz: "bytes \<noteq> 0" using i by auto
  have "ems_region (mem_readb E (mem s) (d + 0x04)) (mem_readw E (mem s) (d + 0x05)) (mem_readw E (mem s) (d + 0x07))
      (mem_readw E (mem s) (d + 0x09)) bytes s = Inr (Some h, base)"
    using ty h pass by (simp add: ems_region_def Let_def base_def)
  moreover have "ems_read_region E (Some h) base [0 ..< unat bytes] t = None" for t :: "'m ems"
    using i by (intro ems_read_region_oob [OF _ oob]) simp
  moreover have "ems_region (mem_readb E (mem s) (d + 0x0B)) hd off pg n s = Inr (None, ucast pg * 16 + ucast off)" for hd off pg n
    using ty(2) by (simp add: ems_region_def)
  ultimately show ?thesis
    using al nz unfolding ems_move_region_def Let_def d_def [symmetric] bytes_def [symmetric] by simp
qed

theorem ems_move_wraps_out_of_bounds_witness:
  "ems_move_region flat (ems_mapped\<lparr>mem := (\<lambda>_. 0)(0x30000 := 0xFF, 0x30001 := 0xFF, 0x30002 := 0xFF, 0x30003 := 0xFF,
     0x30004 := 1, 0x30005 := 1, 0x30007 := 1)\<rparr>) = None"
proof -
  let ?s = "ems_mapped\<lparr>mem := (\<lambda>_. 0)(0x30000 := 0xFF, 0x30001 := 0xFF, 0x30002 := 0xFF, 0x30003 := 0xFF,
     0x30004 := 1, 0x30005 := 1, 0x30007 := 1)\<rparr>"
  have d: "seg_phys ?s DS + ucast (reg_si ?s) = 0x30000" "reg_al ?s = 0"
    by (simp_all add: ems_mapped_def ems_boot_def ems_reset_def Let_def reg_defs lo16_def lo8_def)
  have h: "map_of (s_ems_handles ?s) 1 = Some (new_handle\<lparr>pages := [3, 5]\<rparr>)" by (simp add: ems_mapped_fields)
  show ?thesis
    using ems_move_wraps_out_of_bounds [of ?s flat "new_handle\<lparr>pages := [3, 5]\<rparr>"] h
    unfolding d
    by (simp add: EMS_PAGE_SIZE_def mem_readd_def mem_readw_def mem_readb_def flat_def mk32_def mk16_def)
qed

end
