(* ===== verification/Xms.thy ===== *)
theory Xms
  imports PmArena
begin

text \<open>
  The XMS driver and the INT 2Fh multiplex handler of \<open>bridge.cc\<close>. Extended memory blocks are
  handles into the arena of \<open>PmArena\<close>. The invariant \<open>xms_inv\<close> relates the handle table to the
  busy list: every handle names a busy block of at least its size, and no two handles share a block.
\<close>

section \<open>State\<close>

record 'm xms = "'m arenas" +
  s_xms_handles :: "u16 \<rightharpoonup> u32"
  s_xms_sizes :: "u16 \<rightharpoonup> u32"
  s_xms_next_handle :: u16
  s_hma_allocated :: bool
  s_xms_driver_seg :: u16
  s_xms_driver_off :: u16
  s_extender_bound :: bool
  s_dpmi_entry_seg :: u16
  s_dpmi_entry_off :: u16
  force_dpmi :: bool
  no_dpmi :: bool

section \<open>Operations\<close>

text \<open>\<open>reg_ax = 0; reg_bl = code\<close>.\<close>

definition xms_fail :: "u8 \<Rightarrow> ('m, 'z) machine_scheme \<Rightarrow> ('m, 'z) machine_scheme" where
  "xms_fail code s = set_bl code (set_ax 0 s)"

definition xms_request_hma :: "'m xms \<Rightarrow> 'm xms" where
  "xms_request_hma s = (if s_hma_allocated s then xms_fail 0x92 s
     else set_ax 1 (s\<lparr>s_hma_allocated := True\<rparr>))"

definition xms_release_hma :: "'m xms \<Rightarrow> 'm xms" where
  "xms_release_hma s = (if \<not> s_hma_allocated s then xms_fail 0x93 s
     else set_ax 1 (s\<lparr>s_hma_allocated := False\<rparr>))"

definition xms_query_a20 :: "'m emu88 \<Rightarrow> 'm xms \<Rightarrow> 'm xms" where
  "xms_query_a20 E s = set_bl 0 (set_ax (if MEM_A20_Enabled E (mem s) then 1 else 0) s)"

definition xms_query_free :: "'m emu88 \<Rightarrow> 'm xms \<Rightarrow> 'm xms" where
  "xms_query_free E s = (let
     s = s\<lparr>s_pm := pm_init E (mem s) (s_pm s)\<rparr>;
     total_kb = (s_pm_end (s_pm s) - PM_ARENA_START) div 1024
   in set_bl 0 (set_dx (ucast (total_kb AND 0xFFFF)) (set_ax (ucast (total_kb AND 0xFFFF)) s)))"

definition xms_alloc :: "'m emu88 \<Rightarrow> 'm xms \<Rightarrow> 'm xms" where
  "xms_alloc E s = (let
     bytes = (ucast (reg_dx s) :: u32) * 1024;
     (base, A, m) = pm_alloc E (if bytes \<noteq> 0 then bytes else 4096) (s_pm s, mem s);
     s = s\<lparr>s_pm := A, mem := m\<rparr>
   in if base = 0 then xms_fail 0xA0 s
   else let
     h = s_xms_next_handle s;
     s = s\<lparr>s_xms_next_handle := h + 1, s_xms_handles := (s_xms_handles s)(h \<mapsto> base),
           s_xms_sizes := (s_xms_sizes s)(h \<mapsto> ucast (reg_dx s))\<rparr>
   in set_dx h (set_ax 1 s))"

definition xms_free :: "'m xms \<Rightarrow> 'm xms" where
  "xms_free s = (case s_xms_handles s (reg_dx s) of
     None \<Rightarrow> xms_fail 0xA2 s
   | Some base \<Rightarrow> set_ax 1 (s\<lparr>s_pm := snd (pm_free base (s_pm s)),
       s_xms_handles := (s_xms_handles s)(reg_dx s := None),
       s_xms_sizes := (s_xms_sizes s)(reg_dx s := None)\<rparr>))"

definition rm_far_to_linear :: "u32 \<Rightarrow> u32" where
  "rm_far_to_linear packed = (let
     sg = drop_bit 16 packed AND 0xFFFF;
     off = packed AND 0xFFFF
   in sg * 16 + off)"

text \<open>The linear address of one end of a move: handle 0 is real-mode memory.\<close>

definition xms_move_addr :: "u16 \<Rightarrow> u32 \<Rightarrow> 'm xms \<Rightarrow> u32 option" where
  "xms_move_addr h off s = (if h = 0 then Some (rm_far_to_linear off)
     else map_option (\<lambda>base. base + off) (s_xms_handles s h))"

definition xms_copy :: "'m emu88 \<Rightarrow> u32 \<Rightarrow> u32 \<Rightarrow> nat \<Rightarrow> 'm \<Rightarrow> 'm" where
  "xms_copy E slin dlin n m =
     fold (\<lambda>i m. mem_writeb E (dlin + of_nat i) (mem_readb E m (slin + of_nat i)) m) [0 ..< n] m"

definition xms_move :: "'m emu88 \<Rightarrow> 'm xms \<Rightarrow> 'm xms" where
  "xms_move E s = (let
     p = seg_phys s DS + ucast (reg_si s);
     len = mem_readd E (mem s) (p + 0);
     sh = mem_readw E (mem s) (p + 4);
     soff = mem_readd E (mem s) (p + 6);
     dh = mem_readw E (mem s) (p + 10);
     doff = mem_readd E (mem s) (p + 12)
   in case xms_move_addr sh soff s of
     None \<Rightarrow> xms_fail 0xA3 s
   | Some slin \<Rightarrow> (case xms_move_addr dh doff s of
       None \<Rightarrow> xms_fail 0xA5 s
     | Some dlin \<Rightarrow> set_ax 1 (wr (xms_copy E slin dlin (unat len)) s)))"

definition xms_lock :: "'m xms \<Rightarrow> 'm xms" where
  "xms_lock s = (case s_xms_handles s (reg_dx s) of
     None \<Rightarrow> xms_fail 0xA2 s
   | Some base \<Rightarrow> set_ax 1 (set_bx (ucast (base AND 0xFFFF))
       (set_dx (ucast (drop_bit 16 base AND 0xFFFF)) s)))"

definition xms_info :: "'m xms \<Rightarrow> 'm xms" where
  "xms_info s = (case s_xms_sizes s (reg_dx s) of
     None \<Rightarrow> xms_fail 0xA2 s
   | Some kb \<Rightarrow> set_ax 1 (set_dx (ucast (kb AND 0xFFFF)) (set_bl 0 (set_bh 1 s))))"

definition dosiz_xms_driver :: "'m emu88 \<Rightarrow> 'm xms \<Rightarrow> 'm xms" where
  "dosiz_xms_driver E s = (let fn = reg_ah s in
     if fn = 0x00 then set_dx 1 (set_bx 0 (set_ax 0x0300 s))
     else if fn = 0x01 then xms_request_hma s
     else if fn = 0x02 then xms_release_hma s
     else if fn = 0x03 \<or> fn = 0x05 then set_ax 1 (wr (MEM_A20_Enable E True) s)
     else if fn = 0x04 \<or> fn = 0x06 then set_ax 1 s
     else if fn = 0x07 then xms_query_a20 E s
     else if fn = 0x08 then xms_query_free E s
     else if fn = 0x09 then xms_alloc E s
     else if fn = 0x0A then xms_free s
     else if fn = 0x0B then xms_move E s
     else if fn = 0x0C then xms_lock s
     else if fn = 0x0D then set_ax 1 s
     else if fn = 0x0E then xms_info s
     else xms_fail 0x80 s)"

text \<open>INT 2Fh: Windows and XMS detection, and the DPMI probe (AX=1687h).\<close>

definition int2f_dpmi_probe :: "'m emu88 \<Rightarrow> 'm xms \<Rightarrow> 'm xms" where
  "int2f_dpmi_probe E s = (if (s_extender_bound s \<and> \<not> force_dpmi s) \<or> no_dpmi s
     then set_ax 0xFFFF s
     else set_di (s_dpmi_entry_off s) (SegSet16 E ES (s_dpmi_entry_seg s)
       (set_si 0 (set_dl 0x5A (set_dh 0 (set_cl 3 (set_bx 1 (set_ax 0 s))))))))"

definition dosiz_int2f :: "'m emu88 \<Rightarrow> 'm xms \<Rightarrow> 'm xms" where
  "dosiz_int2f E s = (
     if reg_ax s \<ge> 0x1600 \<and> reg_ax s \<le> 0x160A then set_ax 0 s
     else if reg_ax s = 0x4300 then set_al 0x80 s
     else if reg_ax s = 0x4310 then set_bx (s_xms_driver_off s) (SegSet16 E ES (s_xms_driver_seg s) s)
     else if reg_ax s = 0x1687 then int2f_dpmi_probe E s
     else s)"

section \<open>Invariant\<close>

definition xms_backed :: "pm_arena \<Rightarrow> u32 \<Rightarrow> u32 \<Rightarrow> bool" where
  "xms_backed A base kb \<longleftrightarrow>
     (\<exists>b \<in> set (s_pm_busy A). pm_base b = base \<and> unat kb * 1024 \<le> unat (pm_size b))"

text \<open>Every handle names a busy block of at least its size, and no two handles share a block.\<close>

definition xms_blocks :: "'m xms \<Rightarrow> bool" where
  "xms_blocks s \<longleftrightarrow> pm_inv (s_pm s) \<and> dom (s_xms_handles s) = dom (s_xms_sizes s)
     \<and> inj_on (s_xms_handles s) (dom (s_xms_handles s))
     \<and> (\<forall>h base kb. s_xms_handles s h = Some base \<longrightarrow> s_xms_sizes s h = Some kb \<longrightarrow> xms_backed (s_pm s) base kb)"

text \<open>While the counter has not wrapped, handles are positive and below it.\<close>

definition xms_inv :: "'m xms \<Rightarrow> bool" where
  "xms_inv s \<longleftrightarrow> xms_blocks s \<and> 0 < s_xms_next_handle s \<and> (\<forall>h \<in> dom (s_xms_handles s). 0 < h \<and> h < s_xms_next_handle s)"

text \<open>The states a client can drive the driver into with \<open>n\<close> calls: between two calls it may change its
  registers, its segments and memory at will.\<close>

inductive xms_reach :: "'m emu88 \<Rightarrow> 'm xms \<Rightarrow> nat \<Rightarrow> 'm xms \<Rightarrow> bool" for E s where
  start: "xms_reach E s 0 s"
| guest: "\<lbrakk>xms_reach E s n t; s_pm u = s_pm t; s_xms_handles u = s_xms_handles t; s_xms_sizes u = s_xms_sizes t;
    s_xms_next_handle u = s_xms_next_handle t\<rbrakk> \<Longrightarrow> xms_reach E s n u"
| call: "xms_reach E s n t \<Longrightarrow> xms_reach E s (Suc n) (dosiz_xms_driver E t)"

section \<open>Lemmas\<close>

lemma xms_fields [simp]:
  "s_pm (set_ax v s) = s_pm s" "s_pm (set_bx v s) = s_pm s" "s_pm (set_dx v s) = s_pm s"
  "s_xms_handles (set_ax v s) = s_xms_handles s" "s_xms_handles (set_bx v s) = s_xms_handles s"
  "s_xms_handles (set_dx v s) = s_xms_handles s"
  "s_xms_sizes (set_ax v s) = s_xms_sizes s" "s_xms_sizes (set_bx v s) = s_xms_sizes s"
  "s_xms_sizes (set_dx v s) = s_xms_sizes s"
  "s_xms_next_handle (set_ax v s) = s_xms_next_handle s" "s_xms_next_handle (set_bx v s) = s_xms_next_handle s"
  "s_xms_next_handle (set_dx v s) = s_xms_next_handle s"
  by (simp_all add: set_ax_def set_bx_def set_dx_def)

lemma xms_fail_fields [simp]:
  "s_pm (xms_fail c s) = s_pm s" "s_xms_handles (xms_fail c s) = s_xms_handles s"
  "s_xms_sizes (xms_fail c s) = s_xms_sizes s" "s_xms_next_handle (xms_fail c s) = s_xms_next_handle s"
  by (simp_all add: xms_fail_def set_bl_def)

lemma xms_blocks_cong:
  "\<lbrakk>s_pm t = s_pm s; s_xms_handles t = s_xms_handles s; s_xms_sizes t = s_xms_sizes s\<rbrakk> \<Longrightarrow> xms_blocks t = xms_blocks s"
  by (simp add: xms_blocks_def)

lemma xms_inv_cong:
  "\<lbrakk>s_pm t = s_pm s; s_xms_handles t = s_xms_handles s; s_xms_sizes t = s_xms_sizes s;
    s_xms_next_handle t = s_xms_next_handle s\<rbrakk> \<Longrightarrow> xms_inv t = xms_inv s"
  by (simp add: xms_inv_def xms_blocks_def)

lemma xms_inv_pm: "xms_inv s \<Longrightarrow> pm_inv (s_pm s)"
  by (simp add: xms_inv_def xms_blocks_def)

text \<open>The request of AH=09h never wraps when it is rounded to pages.\<close>

definition xms_bytes :: "u16 \<Rightarrow> u32" where
  "xms_bytes kb = (if (ucast kb :: u32) * 1024 \<noteq> 0 then ucast kb * 1024 else 4096)"

lemma unat_xms_bytes: "unat (xms_bytes kb) = (if kb = 0 then 4096 else unat kb * 1024)"
proof -
  have "unat (ucast kb * 1024 :: u32) = unat kb * 1024"
    using unat_u16_less [of kb] by (simp add: unat_word_ariths unsigned_ucast_eq take_bit_nat_eq_self)
  then show ?thesis
    by (auto simp: xms_bytes_def word_unat_eq_iff)
qed

lemma xms_bytes_ok: "xms_bytes kb \<noteq> 0" "\<not> pm_round_up (xms_bytes kb) < xms_bytes kb"
  "unat kb * 1024 \<le> unat (pm_round_up (xms_bytes kb))"
proof -
  have b: "unat (xms_bytes kb) + 4095 < 2 ^ 32" "unat (xms_bytes kb) \<noteq> 0"
    using unat_u16_less [of kb] by (auto simp: unat_xms_bytes unat_gt_0)
  then have "unat (pm_round_up (xms_bytes kb)) = (unat (xms_bytes kb) + 4095) div 4096 * 4096"
    by (simp add: unat_pm_round_up)
  then have le: "unat (xms_bytes kb) \<le> unat (pm_round_up (xms_bytes kb))" by linarith
  then show "\<not> pm_round_up (xms_bytes kb) < xms_bytes kb" by (simp add: word_less_nat_alt)
  show "xms_bytes kb \<noteq> 0" using b(2) by auto
  show "unat kb * 1024 \<le> unat (pm_round_up (xms_bytes kb))"
    using le by (simp add: unat_xms_bytes split: if_splits)
qed

text \<open>The state after a successful AH=09h.\<close>

definition xms_allocated :: "'m emu88 \<Rightarrow> u32 \<Rightarrow> 'm xms \<Rightarrow> 'm xms" where
  "xms_allocated E f s = (let r = pm_round_up (xms_bytes (reg_dx s)); h = s_xms_next_handle s in
     set_dx h (set_ax 1 (s\<lparr>s_pm := (s_pm s)\<lparr>s_pm_busy := sort_key pm_base (s_pm_busy (s_pm s)) @ [\<lparr>pm_base = f, pm_size = r\<rparr>]\<rparr>,
       mem := pm_zero_fill E f r (mem s),
       s_xms_next_handle := h + 1, s_xms_handles := (s_xms_handles s)(h \<mapsto> f),
       s_xms_sizes := (s_xms_sizes s)(h \<mapsto> ucast (reg_dx s))\<rparr>)))"

lemma xms_alloc_cases:
  fixes E :: "'m emu88" and s :: "'m xms"
  assumes inv: "pm_inv (s_pm s)"
  defines "r \<equiv> pm_round_up (xms_bytes (reg_dx s))"
  obtains
    (oom) A' where "xms_alloc E s = xms_fail 0xA0 (s\<lparr>s_pm := A'\<rparr>)" "pm_inv A'"
      "set (s_pm_busy A') = set (s_pm_busy (s_pm s))" "\<And>d. \<not> pm_fits_at (s_pm s) (unat r) d"
  | (got) f where "xms_alloc E s = xms_allocated E f s" "pm_inv (s_pm (xms_allocated E f s))"
      "pm_fits_at (s_pm s) (unat r) (unat f)" "\<And>d. pm_fits_at (s_pm s) (unat r) d \<Longrightarrow> unat f \<le> d"
  using inv xms_bytes_ok(1,2) [of "reg_dx s"]
proof (cases rule: pm_alloc_cases [where E = E and m = "mem s"])
  case (none A')
  have "xms_alloc E s = xms_fail 0xA0 (s\<lparr>s_pm := A', mem := mem s\<rparr>)"
    using none(1) unfolding xms_alloc_def xms_bytes_def [symmetric] Let_def by simp
  with none show thesis by (intro oom [of A']) (simp_all add: r_def)
next
  case (some f)
  have "xms_alloc E s = xms_allocated E f s"
    using some(1,3) unfolding xms_alloc_def xms_bytes_def [symmetric] Let_def
    by (simp add: xms_allocated_def Let_def reg_dx_def)
  with some show thesis by (intro got [of f]) (simp_all add: r_def xms_allocated_def Let_def)
qed

lemma pm_fits_new_base:
  assumes "pm_inv A" and "pm_fits_at A n (unat f)" and "0 < n"
  shows "f \<notin> pm_base ` set (s_pm_busy A)"
proof
  assume "f \<in> pm_base ` set (s_pm_busy A)"
  then obtain b where b: "b \<in> set (s_pm_busy A)" "f = pm_base b" by blast
  then have "0 < pm_size b" using assms(1) by (auto simp: pm_inv_def pm_block_ok_def)
  then have "0 < unat (pm_size b)" by (simp add: word_less_nat_alt)
  moreover have "unat f + n \<le> unat (pm_base b) \<or> unat (pm_base b) + unat (pm_size b) \<le> unat f"
    using assms(2) b(1) by (auto simp: pm_fits_at_def pm_clear_def)
  ultimately show False using assms(3) b(2) by auto
qed

text \<open>A handle's block is busy, so a fresh block is not one of theirs.\<close>

lemma xms_blocks_base:
  assumes "xms_blocks s" and "s_xms_handles s h = Some base"
  shows "base \<in> pm_base ` set (s_pm_busy (s_pm s))"
proof -
  have "h \<in> dom (s_xms_sizes s)" using assms by (auto simp: xms_blocks_def)
  then show ?thesis using assms by (fastforce simp: xms_blocks_def xms_backed_def)
qed

lemma xms_allocated_blocks:
  fixes E :: "'m emu88" and s :: "'m xms"
  assumes inv: "xms_blocks s" and pm: "pm_inv (s_pm (xms_allocated E f s))"
    and fits: "pm_fits_at (s_pm s) (unat (pm_round_up (xms_bytes (reg_dx s)))) (unat f)"
  shows "xms_blocks (xms_allocated E f s)"
proof -
  let ?h = "s_xms_next_handle s"
  let ?t = "xms_allocated E f s"
  have sizes: "dom (s_xms_sizes s) = dom (s_xms_handles s)" and inj: "inj_on (s_xms_handles s) (dom (s_xms_handles s))"
    and pm0: "pm_inv (s_pm s)"
    and backed: "\<And>h base kb. \<lbrakk>s_xms_handles s h = Some base; s_xms_sizes s h = Some kb\<rbrakk> \<Longrightarrow> xms_backed (s_pm s) base kb"
    using inv by (auto simp: xms_blocks_def)
  have "0 < unat (pm_round_up (xms_bytes (reg_dx s)))"
    using pm_round_up_props(4) xms_bytes_ok by (simp add: word_neq_0_conv)
  then have new: "f \<notin> pm_base ` set (s_pm_busy (s_pm s))" using pm_fits_new_base [OF pm0 fits] by blast
  then have f: "s_xms_handles s h \<noteq> Some f" for h using xms_blocks_base [OF inv] by metis
  have f_back: "xms_backed (s_pm ?t) f (ucast (reg_dx s))"
    using xms_bytes_ok(3) [of "reg_dx s"]
    by (simp add: xms_backed_def xms_allocated_def Let_def unat_ucast_u16)
  have old: "xms_backed (s_pm ?t) base kb" if "xms_backed (s_pm s) base kb" for base kb
    using that by (auto simp: xms_backed_def xms_allocated_def Let_def)
  have t: "s_xms_handles ?t = (s_xms_handles s)(?h \<mapsto> f)" "s_xms_sizes ?t = (s_xms_sizes s)(?h \<mapsto> ucast (reg_dx s))"
    by (simp_all add: xms_allocated_def Let_def)
  have "inj_on (s_xms_handles ?t) (dom (s_xms_handles ?t))"
    using inj f unfolding t(1) by (auto simp: inj_on_def dom_def)
  moreover have "xms_backed (s_pm ?t) base kb"
    if "s_xms_handles ?t h = Some base" "s_xms_sizes ?t h = Some kb" for h base kb
    using that f_back old backed [of h base kb] unfolding t by (auto split: if_splits)
  ultimately show ?thesis
    using pm sizes unfolding xms_blocks_def t by auto
qed

lemma xms_allocated_inv:
  fixes E :: "'m emu88" and s :: "'m xms"
  assumes inv: "xms_inv s" and below_max: "s_xms_next_handle s < 0xFFFF"
    and pm: "pm_inv (s_pm (xms_allocated E f s))"
    and fits: "pm_fits_at (s_pm s) (unat (pm_round_up (xms_bytes (reg_dx s)))) (unat f)"
  shows "xms_inv (xms_allocated E f s)"
proof -
  let ?h = "s_xms_next_handle s"
  have t: "s_xms_handles (xms_allocated E f s) = (s_xms_handles s)(?h \<mapsto> f)" "s_xms_next_handle (xms_allocated E f s) = ?h + 1"
    by (simp_all add: xms_allocated_def Let_def)
  have pos: "0 < ?h" and below: "\<And>h. h \<in> dom (s_xms_handles s) \<Longrightarrow> 0 < h \<and> h < ?h" and bl: "xms_blocks s"
    using inv by (auto simp: xms_inv_def)
  have succ: "?h < ?h + 1" using below_max by (simp add: word_less_nat_alt unat_word_ariths)
  have "0 < h \<and> h < ?h + 1" if "h \<in> insert ?h (dom (s_xms_handles s))" for h
    using that below [of h] succ pos by (auto intro: less_trans)
  then show ?thesis
    using xms_allocated_blocks [OF bl pm fits] pos succ unfolding xms_inv_def t by (auto intro: less_trans)
qed

lemma xms_free_blocks:
  assumes inv: "xms_blocks s"
  shows "xms_blocks (xms_free s)"
proof (cases "s_xms_handles s (reg_dx s)")
  case None
  then show ?thesis using inv by (simp add: xms_free_def xms_blocks_cong [OF xms_fail_fields(1-3)])
next
  case (Some base)
  let ?d = "reg_dx s"
  let ?t = "xms_free s"
  have t: "s_xms_handles ?t = (s_xms_handles s)(?d := None)" "s_xms_sizes ?t = (s_xms_sizes s)(?d := None)"
    "s_pm ?t = snd (pm_free base (s_pm s))"
    using Some by (simp_all add: xms_free_def)
  have pm: "pm_inv (s_pm s)" and inj: "inj_on (s_xms_handles s) (dom (s_xms_handles s))" using inv unfolding xms_blocks_def by blast+
  have "xms_backed (s_pm ?t) b kb" if "s_xms_handles ?t h = Some b" "s_xms_sizes ?t h = Some kb" for h b kb
  proof -
    have h: "h \<noteq> ?d" "s_xms_handles s h = Some b" "s_xms_sizes s h = Some kb"
      using that unfolding t by (auto split: if_splits)
    then have "b \<noteq> base" using inj Some by (metis (mono_tags, lifting) domI inj_onD)
    moreover have "xms_backed (s_pm s) b kb" using inv h by (auto simp: xms_blocks_def)
    ultimately show ?thesis by (auto simp: t xms_backed_def pm_free_spec(3) [OF pm])
  qed
  moreover have "inj_on (s_xms_handles ?t) (dom (s_xms_handles ?t))"
    using inj unfolding t by (auto simp: inj_on_def)
  ultimately show ?thesis
    using inv pm_free_spec(2) [OF pm, of base] unfolding xms_blocks_def t by auto
qed

lemma xms_free_inv: "xms_inv s \<Longrightarrow> xms_inv (xms_free s)"
  using xms_free_blocks [of s] by (auto simp: xms_inv_def xms_free_def xms_fail_fields split: option.split)

lemma xms_alloc_blocks:
  assumes "xms_blocks s"
  shows "xms_blocks (xms_alloc E s)"
proof -
  have "pm_inv (s_pm s)" using assms by (simp add: xms_blocks_def)
  then show ?thesis
  proof (cases rule: xms_alloc_cases [where E = E])
    case (oom A')
    then show ?thesis using assms by (auto simp: xms_blocks_def xms_backed_def)
  next
    case (got f)
    then show ?thesis using xms_allocated_blocks [OF assms] by simp
  qed
qed

lemma xms_alloc_inv:
  assumes inv: "xms_inv s" and "s_xms_next_handle s < 0xFFFF"
  shows "xms_inv (xms_alloc E s)"
  using xms_inv_pm [OF inv]
proof (cases rule: xms_alloc_cases [where E = E])
  case (oom A')
  then show ?thesis using inv by (auto simp: xms_inv_def xms_blocks_def xms_backed_def)
next
  case (got f)
  then show ?thesis using xms_allocated_inv [OF assms] by simp
qed

text \<open>Every other function leaves the handle table and the arena alone.\<close>

lemma xms_driver_other:
  assumes "reg_ah s \<noteq> 9" and "reg_ah s \<noteq> 10" and "s_pm_initialised (s_pm s)"
  shows "s_pm (dosiz_xms_driver E s) = s_pm s" and "s_xms_handles (dosiz_xms_driver E s) = s_xms_handles s"
    and "s_xms_sizes (dosiz_xms_driver E s) = s_xms_sizes s"
    and "s_xms_next_handle (dosiz_xms_driver E s) = s_xms_next_handle s"
  using assms
  by (simp_all add: dosiz_xms_driver_def xms_request_hma_def xms_release_hma_def xms_query_a20_def
      xms_query_free_def xms_move_def xms_lock_def xms_info_def pm_init_def Let_def set_bl_def set_bh_def
      wr_def split: option.split)

lemma xms_driver_blocks:
  assumes "xms_blocks s"
  shows "xms_blocks (dosiz_xms_driver E s)"
proof -
  have "s_pm_initialised (s_pm s)" using assms by (simp add: xms_blocks_def pm_inv_def)
  then show ?thesis
    using xms_alloc_blocks [OF assms] xms_free_blocks [OF assms] xms_blocks_cong [OF xms_driver_other(1-3)] assms
    by (cases "reg_ah s = 9 \<or> reg_ah s = 10") (auto simp: dosiz_xms_driver_def)
qed

lemma xms_driver_inv:
  assumes inv: "xms_inv s" and "s_xms_next_handle s < 0xFFFF"
  shows "xms_inv (dosiz_xms_driver E s)"
proof -
  have "s_pm_initialised (s_pm s)" using xms_inv_pm [OF inv] by (simp add: pm_inv_def)
  then show ?thesis
    using xms_alloc_inv [OF assms] xms_free_inv [OF inv] xms_inv_cong [OF xms_driver_other] inv
    by (cases "reg_ah s = 9 \<or> reg_ah s = 10") (auto simp: dosiz_xms_driver_def)
qed

text \<open>A call advances the counter by at most one.\<close>

lemma xms_driver_counter:
  assumes "xms_blocks s"
  shows "s_xms_next_handle (dosiz_xms_driver E s) \<in> {s_xms_next_handle s, s_xms_next_handle s + 1}"
proof -
  have pm: "pm_inv (s_pm s)" using assms by (simp add: xms_blocks_def)
  then have ini: "s_pm_initialised (s_pm s)" by (simp add: pm_inv_def)
  have "s_xms_next_handle (xms_alloc E s) \<in> {s_xms_next_handle s, s_xms_next_handle s + 1}"
    using pm by (cases rule: xms_alloc_cases [where E = E]) (simp_all add: xms_allocated_def Let_def)
  moreover have "s_xms_next_handle (xms_free s) = s_xms_next_handle s" by (simp add: xms_free_def split: option.split)
  ultimately show ?thesis using xms_driver_other(4) [OF _ _ ini]
    by (cases "reg_ah s = 9 \<or> reg_ah s = 10") (auto simp: dosiz_xms_driver_def)
qed

lemma xms_lock_found:
  assumes "s_xms_handles s (reg_dx s) = Some base"
  shows "reg_ax (xms_lock s) = 1" and "mk32 (reg_bx (xms_lock s)) (reg_dx (xms_lock s)) = base"
proof -
  have "mk32 (ucast (base AND 0xFFFF)) (ucast (drop_bit 16 base AND 0xFFFF)) = base"
    unfolding and_numeral_mask mk32_def
    by (rule bit_word_eqI) (auto simp: bit_simps)
  then show "reg_ax (xms_lock s) = 1" "mk32 (reg_bx (xms_lock s)) (reg_dx (xms_lock s)) = base"
    using assms by (simp_all add: xms_lock_def)
qed

section \<open>Concrete states\<close>

text \<open>A client of a 16 MB machine that has not used the driver yet.\<close>

definition xms_client :: "u32 \<Rightarrow> u32 \<Rightarrow> (u32 \<Rightarrow> u8) xms" where
  "xms_client ax dx = \<lparr> mem = (\<lambda>_. 0), reg_eax = ax, reg_ebx = 0, reg_ecx = 0, reg_edx = dx,
     reg_esi = 0, reg_edi = 0, reg_ebp = 0, reg_esp = 0x100, reg_eip = 0,
     seg_val = (\<lambda>_. 0), seg_phys = (\<lambda>_. 0x30000), cpu_pmode = False, stack_big = False,
     code_big = False, reg_flags = 0x202, cpu_cpl = 0, cpu_cr0 = 0, s_int_gate_bits32 = False, s_mcb_initialised = True,
     s_pm = \<lparr>s_pm_busy = [], s_pm_initialised = True, s_pm_end = 0x1000000\<rparr>,
     s_xms_handles = Map.empty, s_xms_sizes = Map.empty, s_xms_next_handle = 1, s_hma_allocated = False,
     s_xms_driver_seg = 0xF000, s_xms_driver_off = 0x100, s_extender_bound = False,
     s_dpmi_entry_seg = 0xF000, s_dpmi_entry_off = 0x200, force_dpmi = False, no_dpmi = False \<rparr>"

lemma xms_client_inv: "xms_inv (xms_client ax dx)"
  by (simp add: xms_inv_def xms_blocks_def xms_client_def pm_inv_def word_less_nat_alt)

lemma xms_client_fits: "pm_fits_at (s_pm (xms_client ax 64)) (unat (pm_round_up (xms_bytes 64))) 0x120000"
  by (simp add: pm_fits_at_def xms_client_def pm_clear_def PM_ARENA_START_def unat_pm_round_up unat_xms_bytes)

section \<open>Properties\<close>

text \<open>C7: The life of an extended memory block. While a client has been handed fewer than 65535 blocks and one
  of DX kilobytes fits, AH=09h answers AX=1 with a handle in DX that was not in use; locking it returns the
  lowest address where the block fits, clear of every other busy block; AH=0Eh reports its size; and
  freeing it leaves the handle table and the set of busy blocks as they were.\<close>

theorem xms_block_lifecycle:
  fixes E :: "'m emu88" and s :: "'m xms"
  assumes inv: "xms_inv s" and "s_xms_next_handle s < 0xFFFF"
    and fits: "pm_fits_at (s_pm s) (unat (pm_round_up (xms_bytes (reg_dx s)))) d"
  shows "\<exists>t base. xms_alloc E s = t \<and> xms_inv t \<and> reg_ax t = 1 \<and> s_xms_handles s (reg_dx t) = None
    \<and> reg_ax (xms_lock t) = 1 \<and> mk32 (reg_bx (xms_lock t)) (reg_dx (xms_lock t)) = base
    \<and> pm_fits_at (s_pm s) (unat (pm_round_up (xms_bytes (reg_dx s)))) (unat base) \<and> unat base \<le> d
    \<and> reg_dx (xms_info t) = reg_dx s
    \<and> s_xms_handles (xms_free t) = s_xms_handles s
    \<and> set (s_pm_busy (s_pm (xms_free t))) = set (s_pm_busy (s_pm s))"
proof -
  have pm: "pm_inv (s_pm s)" by (rule xms_inv_pm [OF inv])
  obtain f where t: "xms_alloc E s = xms_allocated E f s" and pm': "pm_inv (s_pm (xms_allocated E f s))"
    and f: "pm_fits_at (s_pm s) (unat (pm_round_up (xms_bytes (reg_dx s)))) (unat f)" "unat f \<le> d"
    using pm by (cases rule: xms_alloc_cases [where E = E]) (use fits in blast)+
  define t where "t = xms_allocated E f s"
  have fld: "reg_ax t = 1" "reg_dx t = s_xms_next_handle s"
    "s_xms_handles t = (s_xms_handles s)(s_xms_next_handle s \<mapsto> f)"
    "s_xms_sizes t = (s_xms_sizes s)(s_xms_next_handle s \<mapsto> ucast (reg_dx s))"
    "set (s_pm_busy (s_pm t)) = insert \<lparr>pm_base = f, pm_size = pm_round_up (xms_bytes (reg_dx s))\<rparr>
      (set (s_pm_busy (s_pm s)))"
    by (simp_all add: t_def xms_allocated_def Let_def)
  have fresh: "s_xms_handles s (s_xms_next_handle s) = None"
    using inv unfolding xms_inv_def by (metis domIff less_irrefl)
  have "0 < unat (pm_round_up (xms_bytes (reg_dx s)))"
    using pm_round_up_props(4) xms_bytes_ok by (simp add: word_neq_0_conv)
  then have new: "f \<notin> pm_base ` set (s_pm_busy (s_pm s))" by (rule pm_fits_new_base [OF pm f(1)])
  have "s_xms_handles (xms_free t) = s_xms_handles s" using fresh by (simp add: xms_free_def fld fun_upd_idem)
  moreover have "set (s_pm_busy (s_pm (xms_free t))) = set (s_pm_busy (s_pm s))"
    using new pm' pm_free_spec(3) [of "s_pm t" f] by (auto simp: xms_free_def fld t_def [symmetric])
  moreover have "(ucast (ucast (reg_dx s) AND (0xFFFF :: u32)) :: u16) = reg_dx s"
    unfolding and_numeral_mask by (rule bit_word_eqI) (auto simp: bit_simps)
  then have "reg_dx (xms_info t) = reg_dx s" by (simp add: xms_info_def fld)
  ultimately show ?thesis
    using f fresh fld xms_lock_found [of t f] xms_allocated_inv [OF assms(1,2) pm' f(1)] t
    by (auto simp: t_def [symmetric])
qed

theorem xms_block_lifecycle_witness:
  "reg_ax (xms_alloc flat (xms_client 0x900 64)) = 1
   \<and> s_xms_handles (xms_free (xms_alloc flat (xms_client 0x900 64))) = Map.empty"
proof -
  have "reg_dx (xms_client 0x900 64) = 64" by (simp add: xms_client_def reg_defs lo16_def)
  then show ?thesis
    using xms_block_lifecycle [OF xms_client_inv, of "0x900" 64 "0x120000" flat] xms_client_fits [of "0x900"]
    by (auto simp: xms_client_def word_less_nat_alt)
qed

text \<open>C8: The handle table stays consistent. In every state a client reaches by calling the driver in any
  order with any registers, and changing its own registers and memory in between, the arena is well formed, every handle
  names a busy block at least as large as its recorded size, and no two handles share a block. As long as the 16-bit handle counter
  cannot have wrapped, all handles are positive and below it, so that the next one is new; beyond that a handle in use may be handed out again
  (\<open>xms_handle_counter_wraps\<close>), which loses its old block but breaks nothing else.\<close>

theorem xms_reachable_inv:
  assumes "xms_reach E s n t" and "xms_inv s"
  shows "xms_blocks t \<and> (unat (s_xms_next_handle s) + n < 65536 \<longrightarrow> xms_inv t)"
proof -
  let ?small = "unat (s_xms_next_handle s) + n < 65536"
  have "xms_blocks t \<and> (?small \<longrightarrow> xms_inv t \<and> unat (s_xms_next_handle t) \<le> unat (s_xms_next_handle s) + n)"
    using assms
  proof induction
    case start
    then show ?case by (simp add: xms_inv_def)
  next
    case (guest n t u)
    then show ?case using xms_inv_cong [of u t] xms_blocks_cong [of u t] by simp
  next
    case (call n t)
    then have bl: "xms_blocks t" by blast
    have "xms_inv (dosiz_xms_driver E t) \<and> unat (s_xms_next_handle (dosiz_xms_driver E t)) \<le> unat (s_xms_next_handle s) + Suc n"
      if "unat (s_xms_next_handle s) + Suc n < 65536"
    proof -
      have le: "xms_inv t" "unat (s_xms_next_handle t) \<le> unat (s_xms_next_handle s) + n" using call that by auto
      then have "s_xms_next_handle t < 0xFFFF" using that by (simp add: word_less_nat_alt)
      moreover have "unat (s_xms_next_handle t + 1) = unat (s_xms_next_handle t) + 1" using le that by (simp add: unat_word_ariths)
      ultimately show ?thesis using xms_driver_inv [OF le(1)] xms_driver_counter [OF bl, of E] le(2) by auto
    qed
    then show ?case using xms_driver_blocks [OF bl] by blast
  qed
  then show ?thesis by blast
qed

theorem xms_reachable_inv_witness:
  "xms_blocks (dosiz_xms_driver flat (xms_client 0x900 64)) \<and> xms_inv (dosiz_xms_driver flat (xms_client 0x900 64))"
  using xms_reachable_inv [OF xms_reach.call [OF xms_reach.start] xms_client_inv, of flat "0x900" 64]
  by (simp add: xms_client_def)

text \<open>Moving memory. When both ends of a move name real-mode memory or live handles, AH=0Bh answers AX=1
  and the destination holds the old contents of the source, with every other byte unchanged, provided the
  ranges are RAM below 4 GiB and the destination does not start inside the source.\<close>

theorem xms_move_copies:
  fixes E :: "'m emu88" and s :: "'m xms"
  defines "p \<equiv> seg_phys s DS + ucast (reg_si s)"
  defines "n \<equiv> unat (mem_readd E (mem s) p)"
  assumes "emu88_engine E"
    and src: "xms_move_addr (mem_readw E (mem s) (p + 4)) (mem_readd E (mem s) (p + 6)) s = Some slin"
    and dst: "xms_move_addr (mem_readw E (mem s) (p + 10)) (mem_readd E (mem s) (p + 12)) s = Some dlin"
    and "\<And>i. i < n \<Longrightarrow> is_ram E (mem s) (slin + of_nat i) \<and> is_ram E (mem s) (dlin + of_nat i)"
    and "unat slin + n \<le> 2 ^ 32" and "unat dlin + n \<le> 2 ^ 32"
    and "unat dlin \<le> unat slin \<or> unat slin + n \<le> unat dlin"
  shows "reg_ax (xms_move E s) = 1 \<and> copied E (mem s) (mem (xms_move E s)) slin dlin n"
proof -
  have "xms_move E s = set_ax 1 (wr (xms_copy E slin dlin n) s)"
    using src dst by (simp add: xms_move_def Let_def p_def [symmetric] n_def)
  then show ?thesis
    using emu88_engine.copy_bytes [OF assms(3), of n "mem s" slin dlin] assms(6-9)
    by (simp add: wr_def xms_copy_def)
qed

theorem xms_move_copies_witness:
  "mem_readb flat (mem (xms_move flat ((xms_client 0xB00 0)\<lparr>
     mem := (\<lambda>_. 0)(0x30000 := 4, 0x30008 := 0x00, 0x30009 := 0x40, 0x3000E := 0x00, 0x3000F := 0x50, 0x40002 := 0x77)\<rparr>))) 0x50002 = 0x77"
proof -
  let ?s = "(xms_client 0xB00 0)\<lparr>
     mem := (\<lambda>_. 0)(0x30000 := 4, 0x30008 := 0x00, 0x30009 := 0x40, 0x3000E := 0x00, 0x3000F := 0x50, 0x40002 := 0x77)\<rparr>"
  have p: "seg_phys ?s DS + ucast (reg_si ?s) = 0x30000"
    by (simp add: xms_client_def reg_defs lo16_def)
  have hd: "mem_readd flat (mem ?s) 0x30000 = 4" "mem_readw flat (mem ?s) (0x30000 + 4) = 0"
    "mem_readd flat (mem ?s) (0x30000 + 6) = 0x40000000" "mem_readw flat (mem ?s) (0x30000 + 10) = 0"
    "mem_readd flat (mem ?s) (0x30000 + 12) = 0x50000000"
    by (simp_all add: mem_readd_def mem_readw_def flat_def mk32_def mk16_def)
  have ad: "xms_move_addr 0 0x40000000 ?s = Some 0x40000" "xms_move_addr 0 0x50000000 ?s = Some 0x50000"
    by (simp_all add: xms_move_addr_def rm_far_to_linear_def)
  have "copied flat (mem ?s) (mem (xms_move flat ?s)) 0x40000 0x50000 4"
    using xms_move_copies [OF flat_ram.emu88_engine_axioms, of ?s "0x40000" "0x50000"]
    unfolding p hd ad by simp
  then have "mem_readb flat (mem (xms_move flat ?s)) (0x50000 + of_nat 2) = mem_readb flat (mem ?s) (0x40000 + of_nat 2)"
    unfolding copied_def by (metis (no_types, lifting) numeral_less_iff semiring_norm(76) semiring_norm(78))
  then show ?thesis by (simp add: mem_readb_def flat_def)
qed

text \<open>The handle counter wraps into live handles. Handles come from a 16-bit counter that is never
  checked: once it reaches a handle that is still in use, AH=09h hands the same number out again, and the
  block behind the old meaning of that handle stays busy although no handle names it any more.\<close>

theorem xms_handle_counter_wraps:
  fixes E :: "'m emu88" and s :: "'m xms"
  assumes pm: "pm_inv (s_pm s)" and live: "s_xms_handles s (s_xms_next_handle s) = Some old"
    and inj: "inj_on (s_xms_handles s) (dom (s_xms_handles s))"
    and busy: "old \<in> pm_base ` set (s_pm_busy (s_pm s))"
    and fits: "pm_fits_at (s_pm s) (unat (pm_round_up (xms_bytes (reg_dx s)))) d"
  shows "\<exists>t. xms_alloc E s = t \<and> reg_ax t = 1 \<and> reg_dx t = s_xms_next_handle s
    \<and> old \<in> pm_base ` set (s_pm_busy (s_pm t)) \<and> (\<forall>h. s_xms_handles t h \<noteq> Some old)"
  using pm
proof (cases rule: xms_alloc_cases [where E = E])
  case (oom A')
  then show ?thesis using fits by blast
next
  case (got f)
  have "0 < unat (pm_round_up (xms_bytes (reg_dx s)))"
    using pm_round_up_props(4) xms_bytes_ok by (simp add: word_neq_0_conv)
  then have "f \<noteq> old" using pm_fits_new_base [OF pm got(3)] busy by blast
  moreover have "h = s_xms_next_handle s" if "s_xms_handles s h = Some old" for h
    using inj live that by (metis (mono_tags, lifting) domI inj_onD)
  ultimately show ?thesis
    using got(1) busy by (auto simp: xms_allocated_def Let_def image_iff)
qed

theorem xms_handle_counter_wraps_witness:
  "reg_dx (xms_alloc flat ((xms_client 0x900 64)\<lparr>s_xms_handles := [1 \<mapsto> 0x120000],
     s_pm := \<lparr>s_pm_busy = [\<lparr>pm_base = 0x120000, pm_size = 0x1000\<rparr>], s_pm_initialised = True, s_pm_end = 0x1000000\<rparr>\<rparr>)) = 1"
proof -
  let ?s = "(xms_client 0x900 64)\<lparr>s_xms_handles := [1 \<mapsto> 0x120000],
     s_pm := \<lparr>s_pm_busy = [\<lparr>pm_base = 0x120000, pm_size = 0x1000\<rparr>], s_pm_initialised = True, s_pm_end = 0x1000000\<rparr>\<rparr>"
  have pm: "pm_inv (s_pm ?s)"
    by (simp add: pm_inv_def pm_block_ok_def PM_ARENA_START_def)
  have r: "reg_dx ?s = 64" "s_xms_next_handle ?s = 1" by (simp_all add: xms_client_def reg_defs lo16_def)
  have "pm_fits_at (s_pm ?s) (unat (pm_round_up (xms_bytes (reg_dx ?s)))) 0x200000"
    by (simp add: r pm_fits_at_def pm_clear_def PM_ARENA_START_def unat_pm_round_up unat_xms_bytes)
  then show ?thesis
    using xms_handle_counter_wraps [OF pm, of "0x120000" "0x200000" flat] r by (simp add: inj_on_def)
qed

end
