(* ===== verification/Pktdrv.thy ===== *)
theory Pktdrv
  imports Callbacks Config
begin

text \<open>
  The packet driver on INT 60h (\<open>dosiz_int60\<close> of \<open>bridge.cc\<close>), its receive path into the guest's polling buffer and the
  tick handler that drains it. The Ethernet backend is the abstract class \<open>EthernetConnection\<close>: a record of what it
  answers. The shim of this repository opens none (\<open>ETHERNET_OpenConnection\<close> returns null), which is the case None. Shown:
  a frame is never overwritten before the guest has taken it, and of the frames of one drain exactly the first that fits is delivered.
\<close>

section \<open>State\<close>

text \<open>\<open>SendPacket\<close> and \<open>GetPackets\<close> hand the frames they receive to the callback one after the other: a frame list.\<close>

record 'e ethernet =
  eth_open :: "string \<Rightarrow> 'e option"
  eth_send :: "u8 list \<Rightarrow> 'e \<Rightarrow> u8 list list \<times> 'e"
  eth_get :: "'e \<Rightarrow> u8 list list \<times> 'e"

record ('m, 'e) pktdrv = "'m machine" +
  s_pktdrv_rx_seg :: u16
  s_pktdrv_rx_off :: u16
  s_pktdrv_rcv_mode :: u8
  s_pktdrv_active :: bool
  s_pktdrv_polling_buf :: u32
  s_pktdrv_polling_pending :: u32
  s_pktdrv_polling_len :: u32
  s_pktdrv_polling_active :: bool
  s_pktdrv_eth :: "'e option"

definition s_pktdrv_mac :: "u8 list" where "s_pktdrv_mac = [0xAC, 0xDE, 0x48, 0x88, 0x99, 0xAA]"

section \<open>Receiving\<close>

definition dosiz_pktdrv_rx_deliver :: "'m emu88 \<Rightarrow> u8 list \<Rightarrow> ('m, 'e, 'z) pktdrv_scheme \<Rightarrow> ('m, 'e, 'z) pktdrv_scheme" where
  "dosiz_pktdrv_rx_deliver E packet s = (
     if \<not> s_pktdrv_polling_active s \<or> packet = [] \<or> length packet > 1514 then s
     else if mem_readd E (mem s) (s_pktdrv_polling_pending s) \<noteq> 0 then s
     else let
       s = wr (store_bytes E (s_pktdrv_polling_buf s) packet) s;
       s = wr (mem_writed E (s_pktdrv_polling_len s) (of_nat (length packet))) s
     in wr (mem_writed E (s_pktdrv_polling_pending s) 1) s)"

definition deliver_all :: "'m emu88 \<Rightarrow> u8 list list \<Rightarrow> ('m, 'e, 'z) pktdrv_scheme \<Rightarrow> ('m, 'e, 'z) pktdrv_scheme" where
  "deliver_all E ps s = fold (dosiz_pktdrv_rx_deliver E) ps s"

definition dosiz_pktdrv_tx :: "'m emu88 \<Rightarrow> 'e ethernet \<Rightarrow> u8 list \<Rightarrow> ('m, 'e, 'z) pktdrv_scheme \<Rightarrow> ('m, 'e, 'z) pktdrv_scheme" where
  "dosiz_pktdrv_tx E N buf s = (case s_pktdrv_eth s of None \<Rightarrow> s
     | Some e \<Rightarrow> (case eth_send N buf e of (ps, e) \<Rightarrow> deliver_all E ps (s\<lparr>s_pktdrv_eth := Some e\<rparr>)))"

definition dosiz_pktdrv_rx_drain :: "'m emu88 \<Rightarrow> 'e ethernet \<Rightarrow> ('m, 'e, 'z) pktdrv_scheme \<Rightarrow> ('m, 'e, 'z) pktdrv_scheme" where
  "dosiz_pktdrv_rx_drain E N s = (if \<not> s_pktdrv_polling_active s then s else case s_pktdrv_eth s of None \<Rightarrow> s
     | Some e \<Rightarrow> if mem_readd E (mem s) (s_pktdrv_polling_pending s) \<noteq> 0 then s
         else (case eth_get N e of (ps, e) \<Rightarrow> deliver_all E ps (s\<lparr>s_pktdrv_eth := Some e\<rparr>)))"

definition dosiz_pktdrv_tick :: "'m emu88 \<Rightarrow> 'e ethernet \<Rightarrow> ('m, 'e, 'z) pktdrv_scheme \<Rightarrow> ('m, 'e, 'z) pktdrv_scheme" where
  "dosiz_pktdrv_tick E N s = wr (\<lambda>m. mem_writed E 0x46C (mem_readd E m 0x46C + 1) m) (dosiz_pktdrv_rx_drain E N s)"

definition dosiz_pktdrv_open_ethernet :: "'m emu88 \<Rightarrow> 'e ethernet \<Rightarrow> ('m, 'e, 'z) pktdrv_scheme \<Rightarrow> ('m, 'e, 'z) pktdrv_scheme" where
  "dosiz_pktdrv_open_ethernet E N s = (case eth_open N ''slirp'' of None \<Rightarrow> s\<lparr>s_pktdrv_eth := None\<rparr>
     | Some e \<Rightarrow> (case eth_get N e of (ps, e) \<Rightarrow> deliver_all E ps (s\<lparr>s_pktdrv_eth := Some e\<rparr>)))"

text \<open>The screenshot tick: the interval from the environment, read once, and the counter; the result says whether a capture is
  requested.\<close>

record screenshot =
  interval_ms :: int
  shot_counter :: int

definition dosiz_screenshot_tick :: "string option \<Rightarrow> screenshot \<Rightarrow> bool \<times> screenshot" where
  "dosiz_screenshot_tick env st = (let
     st = (if interval_ms st < 0 then let sec = (case env of Some e \<Rightarrow> atoi e | None \<Rightarrow> 0)
       in st\<lparr>interval_ms := if sint sec > 0 then sint (sec * 1000) else 0\<rparr> else st)
   in if interval_ms st = 0 then (False, st)
      else let st = st\<lparr>shot_counter := shot_counter st + 1\<rparr>
        in if shot_counter st \<ge> interval_ms st then (True, st\<lparr>shot_counter := 0\<rparr>) else (False, st))"

section \<open>INT 60h\<close>

text \<open>The error codes go to AH.\<close>

definition pkt_error :: "'m emu88 \<Rightarrow> u32 \<Rightarrow> ('m, 'z) machine_scheme \<Rightarrow> ('m, 'z) machine_scheme" where
  "pkt_error E code s = set_cf E True (s\<lparr>reg_eax := (reg_eax s AND 0xFFFF00FF) OR push_bit 8 code\<rparr>)"

definition int60_01 :: "'m emu88 \<Rightarrow> ('m, 'e, 'z) pktdrv_scheme \<Rightarrow> ('m, 'e, 'z) pktdrv_scheme" where
  "int60_01 E s = set_cf E False (s\<lparr>reg_eax := (reg_eax s AND 0xFFFFFF00) OR 0x01, reg_ebx := (reg_ebx s AND 0xFFFF0000) OR 0xFFFF,
     reg_edx := reg_edx s AND 0xFFFFFF00, reg_ecx := (reg_ecx s AND 0xFFFF0000) OR 0x0202\<rparr>)"

definition int60_02 :: "'m emu88 \<Rightarrow> ('m, 'e, 'z) pktdrv_scheme \<Rightarrow> ('m, 'e, 'z) pktdrv_scheme" where
  "int60_02 E s = set_cf E False (s\<lparr>s_pktdrv_rx_seg := seg_val s ES, s_pktdrv_rx_off := lo16 (reg_edi s), s_pktdrv_active := True,
     reg_eax := (reg_eax s AND 0xFFFF0000) OR 0x0001\<rparr>)"

definition int60_03 :: "'m emu88 \<Rightarrow> ('m, 'e, 'z) pktdrv_scheme \<Rightarrow> ('m, 'e, 'z) pktdrv_scheme" where
  "int60_03 E s = set_cf E False (s\<lparr>s_pktdrv_active := False, s_pktdrv_rx_seg := 0, s_pktdrv_rx_off := 0\<rparr>)"

definition int60_04 :: "'m emu88 \<Rightarrow> 'e ethernet \<Rightarrow> ('m, 'e, 'z) pktdrv_scheme \<Rightarrow> ('m, 'e, 'z) pktdrv_scheme" where
  "int60_04 E N s = (let len = lo16 (reg_ecx s)
   in if len = 0 \<or> len > 1514 then pkt_error E 0x05 s
      else let
        src = seg_phys s DS + (reg_esi s AND 0xFFFF);
        buf = map (\<lambda>i. mem_readb E (mem s) (src + of_nat i)) [0 ..< unat len]
      in set_cf E False (dosiz_pktdrv_tx E N buf s))"

definition int60_05 :: "'m emu88 \<Rightarrow> ('m, 'e, 'z) pktdrv_scheme \<Rightarrow> ('m, 'e, 'z) pktdrv_scheme" where
  "int60_05 E s = set_cf E False (s\<lparr>s_pktdrv_active := False\<rparr>)"

definition int60_06 :: "'m emu88 \<Rightarrow> ('m, 'e, 'z) pktdrv_scheme \<Rightarrow> ('m, 'e, 'z) pktdrv_scheme" where
  "int60_06 E s = (if lo16 (reg_ecx s) < 6 then pkt_error E 0x09 s
     else let
       s = wr (store_bytes E (seg_phys s ES + (reg_edi s AND 0xFFFF)) s_pktdrv_mac) s
     in set_cf E False (s\<lparr>reg_ecx := (reg_ecx s AND 0xFFFF0000) OR 6\<rparr>))"

definition int60_14 :: "'m emu88 \<Rightarrow> ('m, 'e, 'z) pktdrv_scheme \<Rightarrow> ('m, 'e, 'z) pktdrv_scheme" where
  "int60_14 E s = set_cf E False (s\<lparr>s_pktdrv_rcv_mode := lo8 (lo16 (reg_ecx s))\<rparr>)"

definition int60_15 :: "'m emu88 \<Rightarrow> ('m, 'e, 'z) pktdrv_scheme \<Rightarrow> ('m, 'e, 'z) pktdrv_scheme" where
  "int60_15 E s = set_cf E False (s\<lparr>reg_eax := (reg_eax s AND 0xFFFF0000) OR ucast (s_pktdrv_rcv_mode s)\<rparr>)"

definition int60_99 :: "'m emu88 \<Rightarrow> ('m, 'e, 'z) pktdrv_scheme \<Rightarrow> ('m, 'e, 'z) pktdrv_scheme" where
  "int60_99 E s = set_cf E False (s\<lparr>s_pktdrv_polling_buf := reg_edi s, s_pktdrv_polling_pending := reg_esi s,
     s_pktdrv_polling_len := reg_ecx s, s_pktdrv_polling_active := reg_edi s \<noteq> 0\<rparr>)"

definition dosiz_int60 :: "'m emu88 \<Rightarrow> 'e ethernet \<Rightarrow> ('m, 'e, 'z) pktdrv_scheme \<Rightarrow> ('m, 'e, 'z) pktdrv_scheme" where
  "dosiz_int60 E N s = (let ah = reg_ah s
   in if ah = 0x01 then int60_01 E s
      else if ah = 0x02 then int60_02 E s
      else if ah = 0x03 then int60_03 E s
      else if ah = 0x04 then int60_04 E N s
      else if ah = 0x05 then int60_05 E s
      else if ah = 0x06 then int60_06 E s
      else if ah = 0x14 then int60_14 E s
      else if ah = 0x15 then int60_15 E s
      else if ah = 0x99 then int60_99 E s
      else pkt_error E 0x01 s)"

section \<open>One frame at a time\<close>

definition dword_area :: "u32 \<Rightarrow> u32 set" where "dword_area a = {a, a + 1, a + 2, a + 3}"

text \<open>The guest's three areas: RAM, apart from each other, and none wraps round the end of memory.\<close>

definition polling_areas :: "'m emu88 \<Rightarrow> ('m, 'e, 'z) pktdrv_scheme \<Rightarrow> bool" where
  "polling_areas E s \<longleftrightarrow> (let buf = s_pktdrv_polling_buf s; pend = s_pktdrv_polling_pending s; len = s_pktdrv_polling_len s;
       frm = {b. unat buf \<le> unat b \<and> unat b < unat buf + 1514} in
     unat buf + 1514 \<le> 2 ^ 32 \<and> (\<forall>b \<in> frm \<union> dword_area pend \<union> dword_area len. is_ram E (mem s) b)
     \<and> frm \<inter> dword_area pend = {} \<and> frm \<inter> dword_area len = {} \<and> dword_area pend \<inter> dword_area len = {})"

definition acceptable :: "u8 list \<Rightarrow> bool" where "acceptable p \<longleftrightarrow> p \<noteq> [] \<and> length p \<le> 1514"

text \<open>What a delivery leaves: the frame, its length and the flag; nothing else changes.\<close>

definition delivered :: "'m emu88 \<Rightarrow> u8 list \<Rightarrow> ('m, 'e, 'z) pktdrv_scheme \<Rightarrow> ('m, 'e, 'z) pktdrv_scheme \<Rightarrow> bool" where
  "delivered E p s t \<longleftrightarrow> bytes_at E (mem t) (s_pktdrv_polling_buf s) p \<and> mem_readd E (mem t) (s_pktdrv_polling_len s) = of_nat (length p)
     \<and> mem_readd E (mem t) (s_pktdrv_polling_pending s) = 1
     \<and> same_outside E ({b. unat (s_pktdrv_polling_buf s) \<le> unat b \<and> unat b < unat (s_pktdrv_polling_buf s) + length p}
         \<union> dword_area (s_pktdrv_polling_len s) \<union> dword_area (s_pktdrv_polling_pending s)) (mem s) (mem t)"

context emu88_engine
begin

lemma writed_area:
  assumes "\<forall>b \<in> dword_area a. is_ram E m b"
  shows "same_outside E (dword_area a) m (mem_writed E a d m)" and "mem_readd E (mem_writed E a d m) a = d"
  using assms by (auto simp: dword_area_def mem_simps same_outside_def)

lemma readd_area:
  assumes "same_outside E S m m'" and "\<forall>b \<in> dword_area a. is_ram E m b" and "S \<inter> dword_area a = {}"
  shows "mem_readd E m' a = mem_readd E m a"
  using assms by (auto simp: dword_area_def same_outside_def readd_words readw_bytes add.assoc)

lemma rx_deliver_one:
  fixes s :: "('m, 'e, 'z) pktdrv_scheme"
  assumes "polling_areas E s" and "acceptable p" and "s_pktdrv_polling_active s" and "mem_readd E (mem s) (s_pktdrv_polling_pending s) = 0"
  shows "delivered E p s (dosiz_pktdrv_rx_deliver E p s)"
proof -
  define buf where "buf = s_pktdrv_polling_buf s"
  define pend where "pend = s_pktdrv_polling_pending s"
  define len where "len = s_pktdrv_polling_len s"
  define S :: "u32 set" where "S = {b. unat buf \<le> unat b \<and> unat b < unat buf + length p}"
  define m1 where "m1 = store_bytes E buf p (mem s)"
  define m2 where "m2 = mem_writed E len (of_nat (length p)) m1"
  define m3 where "m3 = mem_writed E pend 1 m2"
  have n: "length p \<le> 1514" using assms(2) by (simp add: acceptable_def)
  have areas: "unat buf + 1514 \<le> 2 ^ 32" "\<forall>b. unat buf \<le> unat b \<longrightarrow> unat b < unat buf + 1514 \<longrightarrow> is_ram E (mem s) b"
      "\<forall>b \<in> dword_area pend. is_ram E (mem s) b" "\<forall>b \<in> dword_area len. is_ram E (mem s) b"
      "S \<inter> dword_area pend = {}" "S \<inter> dword_area len = {}" "dword_area pend \<inter> dword_area len = {}"
    using assms(1) n unfolding polling_areas_def Let_def buf_def [symmetric] pend_def [symmetric] len_def [symmetric] S_def by auto
  have t: "mem (dosiz_pktdrv_rx_deliver E p s) = m3"
    using assms(2-4) unfolding dosiz_pktdrv_rx_deliver_def Let_def acceptable_def
    by (simp add: wr_def m3_def m2_def m1_def buf_def pend_def len_def)
  have ram: "is_ram E (mem s) (buf + of_nat i)" if "i < length p" for i
    using areas(1,2) n that unat_plus_of_nat [of buf i] by simp
  have st: "stored E buf p (mem s) m1" unfolding m1_def using ram areas(1) n by (intro store_bytes_stored) simp_all
  have b1: "bytes_at E m1 buf p" using ram areas(1) n by (intro stored_bytes_at [OF st]) simp_all
  have s1: "same_outside E S (mem s) m1" by (intro stored_same_outside [OF st]) (simp add: S_def)
  have r1: "is_ram E m1 b = is_ram E (mem s) b" for b using s1 by (simp add: same_outside_def)
  have w2: "same_outside E (dword_area len) m1 m2" "mem_readd E m2 len = of_nat (length p)"
    using writed_area [of len m1] areas(4) r1 unfolding m2_def by simp_all
  have r2: "is_ram E m2 b = is_ram E (mem s) b" for b using w2(1) r1 by (simp add: same_outside_def)
  have w3: "same_outside E (dword_area pend) m2 m3" "mem_readd E m3 pend = 1"
    using writed_area [of pend m2] areas(3) r2 unfolding m3_def by simp_all
  have l3: "mem_readd E m3 len = of_nat (length p)"
    using readd_area [OF w3(1), of len] areas(4,7) r2 w2(2) by simp
  have so: "same_outside E (dword_area len \<union> dword_area pend) m1 m3" by (rule same_outside_join [OF w2(1) w3(1)])
  have "buf + of_nat i \<in> S" if "i < length p" for i
    using that n areas(1) unat_plus_of_nat [of buf i] by (simp add: S_def)
  then have "bytes_at E m3 buf p" using areas(5,6) ram r1 by (intro bytes_at_same [OF so b1]) blast
  moreover have "same_outside E (S \<union> dword_area len \<union> dword_area pend) (mem s) m3"
    using same_outside_join [OF s1 so] by (simp add: Un_assoc)
  ultimately show ?thesis
    unfolding delivered_def t buf_def [symmetric] pend_def [symmetric] len_def [symmetric] using w3(2) l3 by (simp add: S_def)
qed

end

lemma rx_deliver_busy: "mem_readd E (mem s) (s_pktdrv_polling_pending s) \<noteq> 0 \<Longrightarrow> dosiz_pktdrv_rx_deliver E p s = s"
  by (simp add: dosiz_pktdrv_rx_deliver_def)

lemma deliver_all_busy: "mem_readd E (mem s) (s_pktdrv_polling_pending s) \<noteq> 0 \<Longrightarrow> deliver_all E ps s = s"
  by (induction ps) (simp_all add: deliver_all_def rx_deliver_busy)

lemma rx_deliver_fields [simp]:
  "s_pktdrv_polling_pending (dosiz_pktdrv_rx_deliver E p s) = s_pktdrv_polling_pending s"
  "s_pktdrv_eth (dosiz_pktdrv_rx_deliver E p s) = s_pktdrv_eth s"
  by (simp_all add: dosiz_pktdrv_rx_deliver_def wr_def Let_def)

context emu88_engine
begin

lemma deliver_all_first:
  fixes s :: "('m, 'e, 'z) pktdrv_scheme"
  assumes "polling_areas E s" and "s_pktdrv_polling_active s" and "mem_readd E (mem s) (s_pktdrv_polling_pending s) = 0"
  shows "case find acceptable ps of None \<Rightarrow> deliver_all E ps s = s | Some p \<Rightarrow> delivered E p s (deliver_all E ps s)"
proof (induction ps)
  case (Cons p ps)
  show ?case
  proof (cases "acceptable p")
    case True
    let ?t = "dosiz_pktdrv_rx_deliver E p s"
    have d: "delivered E p s ?t" by (rule rx_deliver_one [OF assms(1) True assms(2,3)])
    then have "deliver_all E ps ?t = ?t" by (intro deliver_all_busy) (simp add: delivered_def)
    then show ?thesis using True d by (simp add: deliver_all_def)
  next
    case False
    then have "dosiz_pktdrv_rx_deliver E p s = s" by (auto simp: dosiz_pktdrv_rx_deliver_def acceptable_def)
    then have eq: "deliver_all E (p # ps) s = deliver_all E ps s" by (simp add: deliver_all_def)
    show ?thesis unfolding eq using Cons.IH False by simp
  qed
qed (simp add: deliver_all_def)

end

section \<open>Properties\<close>

text \<open>C10: the receive path never overwrites a frame the guest has not taken. While the guest's flag is set a drain does nothing
  and does not even ask the backend; with the flag clear it delivers the first frame of acceptable size that the backend hands
  over: the frame's bytes in the buffer, its length and the flag, and nothing else in memory.\<close>

theorem pktdrv_drain:
  fixes s :: "('m, 'e, 'z) pktdrv_scheme"
  assumes "emu88_engine E" and "polling_areas E s" and "s_pktdrv_polling_active s" and "s_pktdrv_eth s = Some e" and "eth_get N e = (ps, e')"
  shows "if mem_readd E (mem s) (s_pktdrv_polling_pending s) \<noteq> 0 then dosiz_pktdrv_rx_drain E N s = s
    else case find acceptable ps of None \<Rightarrow> mem (dosiz_pktdrv_rx_drain E N s) = mem s | Some p \<Rightarrow> delivered E p s (dosiz_pktdrv_rx_drain E N s)"
proof (cases "mem_readd E (mem s) (s_pktdrv_polling_pending s) = 0")
  case True
  let ?s = "s\<lparr>s_pktdrv_eth := Some e'\<rparr>"
  have d: "dosiz_pktdrv_rx_drain E N s = deliver_all E ps ?s" using assms(3-5) True by (simp add: dosiz_pktdrv_rx_drain_def)
  have "polling_areas E ?s" using assms(2) by (simp add: polling_areas_def)
  from emu88_engine.deliver_all_first [OF assms(1) this, of ps] True assms(3)
  have "case find acceptable ps of None \<Rightarrow> deliver_all E ps ?s = ?s | Some p \<Rightarrow> delivered E p ?s (deliver_all E ps ?s)" by simp
  then show ?thesis unfolding d using True by (auto simp: delivered_def split: option.splits)
next
  case False
  then show ?thesis using assms(3,4) by (simp add: dosiz_pktdrv_rx_drain_def)
qed

section \<open>A concrete run\<close>

text \<open>A backend with an oversized and a three-byte frame waiting.\<close>

definition two_frames :: "unit ethernet" where
  "two_frames = \<lparr>eth_open = (\<lambda>_. Some ()), eth_send = (\<lambda>_ e. ([], e)), eth_get = (\<lambda>e. ([replicate 2000 0, [1, 2, 3]], e))\<rparr>"

definition net_start :: "(pc_state, unit) pktdrv" where
  "net_start = machine.extend pc_start (pktdrv.fields 0 0 3 True 0x50000 0x60000 0x60004 True (Some ()))"

theorem pktdrv_drain_witness:
  "delivered pc [1, 2, 3] net_start (dosiz_pktdrv_rx_drain pc two_frames net_start)"
proof -
  have f: "s_pktdrv_polling_buf net_start = 0x50000" "s_pktdrv_polling_pending net_start = 0x60000" "s_pktdrv_polling_len net_start = 0x60004"
      "s_pktdrv_polling_active net_start" "s_pktdrv_eth net_start = Some ()" "mem net_start = pc_frame"
    by (simp_all add: net_start_def pktdrv.defs machine.defs pc_start_def)
  have "polling_areas pc net_start" by (auto simp: polling_areas_def Let_def f dword_area_def)
  moreover have "mem_readd pc pc_frame 0x60000 = 0" by (simp add: mem_readd_def pc_def pc_frame_def mk32_def mk16_def)
  moreover have "find acceptable [replicate 2000 0, [1, 2, 3]] = Some [1, 2, 3]" by (simp add: acceptable_def)
  ultimately show ?thesis
    using pktdrv_drain [OF pc_ram.emu88_engine_axioms _ f(4,5), of two_frames "[replicate 2000 0, [1, 2, 3]]" "()"]
    by (simp add: f two_frames_def)
qed

end
