(* ===== verification/Startup.thy ===== *)
theory Startup
  imports RealMode Video Ems Xms Pktdrv
begin

text \<open>
  Start-up: \<open>dosiz_startup\<close> installs the callbacks of all components, sets up the BIOS data area, the packet driver's stub and
  the VESA ROM, loads the program and enters it. The state of the whole program is the record \<open>boot\<close>: the tables of the
  shim and the variables of each component, over which the components' own functions act through a view. Shown: after
  start-up every interrupt vector leads to its handler, none of the writes in between having touched a stub or a vector.
\<close>

section \<open>The state of the program\<close>

text \<open>The functions installed as callbacks or tick handlers.\<close>

datatype handler = Call_stop | Default_iret | Dosiz_int21 | Dosiz_rm_stop | Dosiz_noop_retf | Rmcb nat | Dosiz_int21_bits32
  | Dosiz_int80 | Dosiz_int1a | Dosiz_int60 | Dosiz_int31 | Dosiz_int31_bits32 | Dosiz_le_exc_any32 | Dosiz_le_exc_any16
  | Pm_exc nat | Dosiz_pm_exc_ret | Dosiz_dpmi_entry | Dosiz_int2f | Dosiz_int67 | Dosiz_int10 | Dosiz_int33
  | Dosiz_xms_driver | Dosiz_int16 | Dosiz_int15 | Dosiz_pktdrv_tick | Dosiz_video_tick | Dosiz_screenshot_tick
  | Dosiz_bios_timer_tick | Audio_tick

record ('m, 'o, 'p, 'b, 'h, 'e) boot = "('m, handler, 'o, 'p, 'b) shim" +
  b_mcb_initialised :: bool
  b_pm :: pm_arena
  b_dpmi :: dpmi_statics
  b_video :: "('h, unit video_ext) dos_ext"
  b_ems :: "unit ems_ext"
  b_xms :: "unit xms_ext"
  b_net :: "('e, unit) pktdrv_ext"
  s_rm_stop_ptr :: u32
  s_int60_cb_seg :: u16
  s_int60_cb_off :: u16
  dos_next_para :: u16

text \<open>The same machine seen by a component: with its variables, and back.\<close>

definition arenas_of :: "('m, 'o, 'p, 'b, 'h, 'e, 'z) boot_scheme \<Rightarrow> 'm arenas" where
  "arenas_of s = machine.extend (machine.truncate s) (arenas.fields (b_mcb_initialised s) (b_pm s))"

definition with_machine :: "('m, 'y) machine_scheme \<Rightarrow> ('m, 'o, 'p, 'b, 'h, 'e, 'z) boot_scheme \<Rightarrow> ('m, 'o, 'p, 'b, 'h, 'e, 'z) boot_scheme" where
  "with_machine a s = machine.extend (machine.truncate a) (machine.more s)"

definition with_arenas :: "('m, 'y) arenas_scheme \<Rightarrow> ('m, 'o, 'p, 'b, 'h, 'e, 'z) boot_scheme \<Rightarrow> ('m, 'o, 'p, 'b, 'h, 'e, 'z) boot_scheme" where
  "with_arenas a s = (with_machine a s)\<lparr>b_mcb_initialised := s_mcb_initialised a, b_pm := s_pm a\<rparr>"

definition dpmi_view :: "('m, 'o, 'p, 'b, 'h, 'e, 'z) boot_scheme \<Rightarrow> 'm dpmi_host" where
  "dpmi_view s = arenas.extend (arenas_of s) (b_dpmi s)"

definition put_dpmi :: "'m dpmi_host \<Rightarrow> ('m, 'o, 'p, 'b, 'h, 'e, 'z) boot_scheme \<Rightarrow> ('m, 'o, 'p, 'b, 'h, 'e, 'z) boot_scheme" where
  "put_dpmi d s = (with_arenas d s)\<lparr>b_dpmi := arenas.more d\<rparr>"

definition in_dpmi :: "('m dpmi_host \<Rightarrow> 'm dpmi_host) \<Rightarrow> ('m, 'o, 'p, 'b, 'h, 'e, 'z) boot_scheme \<Rightarrow> ('m, 'o, 'p, 'b, 'h, 'e, 'z) boot_scheme" where
  "in_dpmi f s = put_dpmi (f (dpmi_view s)) s"

definition in_video :: "(('m, 'h) video \<Rightarrow> ('m, 'h) video) \<Rightarrow> ('m, 'o, 'p, 'b, 'h, 'e, 'z) boot_scheme \<Rightarrow> ('m, 'o, 'p, 'b, 'h, 'e, 'z) boot_scheme" where
  "in_video f s = (let d = f (arenas.extend (arenas_of s) (b_video s)) in (with_arenas d s)\<lparr>b_video := arenas.more d\<rparr>)"

definition in_xms :: "('m xms \<Rightarrow> 'm xms) \<Rightarrow> ('m, 'o, 'p, 'b, 'h, 'e, 'z) boot_scheme \<Rightarrow> ('m, 'o, 'p, 'b, 'h, 'e, 'z) boot_scheme" where
  "in_xms f s = (let d = f (arenas.extend (arenas_of s) (b_xms s)) in (with_arenas d s)\<lparr>b_xms := arenas.more d\<rparr>)"

definition in_ems :: "('m ems \<Rightarrow> 'm ems) \<Rightarrow> ('m, 'o, 'p, 'b, 'h, 'e, 'z) boot_scheme \<Rightarrow> ('m, 'o, 'p, 'b, 'h, 'e, 'z) boot_scheme" where
  "in_ems f s = (let d = f (machine.extend (machine.truncate s) (b_ems s)) in (with_machine d s)\<lparr>b_ems := machine.more d\<rparr>)"

definition in_net :: "(('m, 'e) pktdrv \<Rightarrow> ('m, 'e) pktdrv) \<Rightarrow> ('m, 'o, 'p, 'b, 'h, 'e, 'z) boot_scheme \<Rightarrow> ('m, 'o, 'p, 'b, 'h, 'e, 'z) boot_scheme" where
  "in_net f s = (let d = f (machine.extend (machine.truncate s) (b_net s)) in (with_machine d s)\<lparr>b_net := machine.more d\<rparr>)"

section \<open>Installing the callbacks\<close>

definition fresh_object :: cb_object where
  "fresh_object = \<lparr>cb_installed = False, m_cb_number = 0, vec_installed = False, vec_interrupt = 0, vec_old = 0\<rparr>"

text \<open>An entry: the handler, the type of its stub, the vector it takes and what becomes of the stub's address.\<close>

type_synonym 's entry = "handler \<times> cb_type \<times> u8 option \<times> (u32 \<Rightarrow> 's \<Rightarrow> 's)"

definition install_entry ::
  "'m emu88 \<Rightarrow> ('m, 'o, 'p, 'b, 'h, 'e, 'z) boot_scheme entry \<Rightarrow> ('m, 'o, 'p, 'b, 'h, 'e, 'z) boot_scheme \<Rightarrow> ('m, 'o, 'p, 'b, 'h, 'e, 'z) boot_scheme" where
  "install_entry E = (\<lambda>(h, ty, vec, store) s. let
     (ob, s) = object_Install E h ty fresh_object s;
     (ob, s) = (case vec of Some v \<Rightarrow> object_Set_RealVec E v ob s | None \<Rightarrow> (ob, s))
   in store (CALLBACK_RealPointer (ucast (m_cb_number ob))) s)"

definition no_store :: "u32 \<Rightarrow> 's \<Rightarrow> 's" where "no_store p s = s"

text \<open>The packet driver's stub: the signature a client looks for, a jump to the callback, and a shim for 32-bit code.\<close>

definition pkt_stub :: "u32 \<Rightarrow> u8 list" where
  "pkt_stub cb = [0xEB, 0x09, 0x90] @ map byte_of ''PKT DRVR'' @ [0xEA, lo8 (lo16 cb), hi8 (lo16 cb), lo8 (hi16 cb), hi8 (hi16 cb)]"

definition install_pktdrv ::
  "'m emu88 \<Rightarrow> 'e ethernet \<Rightarrow> u32 \<Rightarrow> ('m, 'o, 'p, 'b, 'h, 'e, 'z) boot_scheme \<Rightarrow> ('m, 'o, 'p, 'b, 'h, 'e, 'z) boot_scheme" where
  "install_pktdrv E N cb s = (case DOS_AllocateMemory (Some 1) (dos_next_para s) of
     (Inl _, nxt) \<Rightarrow> s\<lparr>dos_next_para := nxt\<rparr>
   | (Inr stub_seg, nxt) \<Rightarrow> if stub_seg = 0 then s\<lparr>dos_next_para := nxt\<rparr> else let
       s = s\<lparr>dos_next_para := nxt\<rparr>;
       s = wr (store_bytes E (para stub_seg) (pkt_stub cb)) s;
       s = wr (mem_writew E (0x60 * 4 + 0) 0) s;
       s = wr (mem_writew E (0x60 * 4 + 2) stub_seg) s;
       s = s\<lparr>s_int60_cb_seg := stub_seg, s_int60_cb_off := 0\<rparr>;
       cb_stub = para (hi16 cb) + ucast (lo16 cb);
       s = (case scan_native E cb_stub (mem s) of None \<Rightarrow> s
         | Some scan \<Rightarrow> let
             lo = mem_readb E (mem s) (cb_stub + of_nat scan + 2);
             hi = mem_readb E (mem s) (cb_stub + of_nat scan + 3);
             slot_off = 0x60 * PM_SHIM_SLOT_BYTES;
             s = wr (store_bytes E (PM_SHIM_BASE + of_nat slot_off) (shim_bytes 0x60 lo hi)) s
           in in_dpmi (\<lambda>d. d\<lparr>s_int60_cb32_off := of_nat slot_off\<rparr>) s);
       s = in_net (dosiz_pktdrv_open_ethernet E N) s
     in TIMER_AddTickHandler (Some Dosiz_pktdrv_tick) s)"

text \<open>The callbacks up to the packet driver, in the order of the code.\<close>

definition boot_table1 :: "'m emu88 \<Rightarrow> 'e ethernet \<Rightarrow> ('m, 'o, 'p, 'b, 'h, 'e, 'z) boot_scheme entry list" where
  "boot_table1 E N =
     [(Dosiz_int21, CB_INT21, Some 0x21, \<lambda>p. in_dpmi (\<lambda>d. d\<lparr>s_int21_cb_off := lo16 p\<rparr>)),
      (Dosiz_rm_stop, CB_IRET, None, \<lambda>p s. s\<lparr>s_rm_stop_ptr := p\<rparr>),
      (Dosiz_noop_retf, CB_RETF, None, \<lambda>p. in_dpmi (\<lambda>d. d\<lparr>s_noop_retf_ptr := p\<rparr>))]
     @ map (\<lambda>i. (Rmcb i, CB_RETF, None, \<lambda>p. in_dpmi (\<lambda>d. d\<lparr>s_rm_callbacks :=
         (s_rm_callbacks d)[i := (s_rm_callbacks d ! i)\<lparr>rmcb_rm_addr := p, rmcb_allocated := False\<rparr>]\<rparr>))) [0 ..< 32]
     @ [(Dosiz_int21_bits32, CB_IRETD, None, \<lambda>p. in_dpmi (\<lambda>d. d\<lparr>s_int21_cb32_off := lo16 p\<rparr>)),
      (Dosiz_int80, CB_IRETD, None, \<lambda>p. in_dpmi (\<lambda>d. d\<lparr>s_int80_cb32_off := lo16 p\<rparr>)),
      (Dosiz_int1a, CB_IRETD, None, \<lambda>p. in_dpmi (\<lambda>d. d\<lparr>s_int1a_cb32_off := lo16 p\<rparr>)),
      (Dosiz_int1a, CB_IRET, Some 0x1A, no_store),
      (Dosiz_int60, CB_IRET, None, install_pktdrv E N)]"

text \<open>The DPMI host.\<close>

definition boot_table2 :: "('m, 'o, 'p, 'b, 'h, 'e, 'z) boot_scheme entry list" where
  "boot_table2 =
     [(Dosiz_int31, CB_IRET, Some 0x31, \<lambda>p. in_dpmi (\<lambda>d. d\<lparr>s_int31_cb_off := lo16 p\<rparr>)),
      (Dosiz_int31_bits32, CB_IRETD, None, \<lambda>p. in_dpmi (\<lambda>d. d\<lparr>s_int31_cb32_off := lo16 p\<rparr>)),
      (Dosiz_le_exc_any32, CB_IRETD, None, \<lambda>p. in_dpmi (\<lambda>d. d\<lparr>s_le_exc_cb32_off := lo16 p\<rparr>)),
      (Dosiz_le_exc_any16, CB_IRET, None, \<lambda>p. in_dpmi (\<lambda>d. d\<lparr>s_le_exc_cb16_off := lo16 p\<rparr>))]
     @ map (\<lambda>v. (Pm_exc v, CB_IRETD, None, \<lambda>p. in_dpmi (\<lambda>d. d\<lparr>s_pm_exc_cb32_off := (s_pm_exc_cb32_off d)[v := lo16 p]\<rparr>))) [0 ..< 32]
     @ [(Dosiz_pm_exc_ret, CB_IRETD, None, \<lambda>p. in_dpmi (\<lambda>d. d\<lparr>s_pm_exc_ret_off := lo16 p\<rparr>)),
      (Dosiz_dpmi_entry, CB_RETF, None, \<lambda>p. in_xms (\<lambda>d. d\<lparr>s_dpmi_entry_seg := hi16 p, s_dpmi_entry_off := lo16 p\<rparr>)),
      (Dosiz_int2f, CB_IRET, Some 0x2F, no_store)]"

text \<open>The video state, the BIOS data area and the VESA ROM.\<close>

definition video_bda :: "'m emu88 \<Rightarrow> 'm \<Rightarrow> 'm" where
  "video_bda E m = (let
     m = mem_writeb E 0x449 0x03 m;
     m = mem_writew E 0x44A 80 m;
     m = mem_writew E 0x44C 0x1000 m;
     m = mem_writew E 0x450 0 m;
     m = mem_writeb E 0x484 24 m;
     m = mem_writew E 0x485 16 m
   in dosiz_vesa_init_rom E (kbd_ring_init E m))"

definition boot_table3 :: "('m, 'o, 'p, 'b, 'h, 'e, 'z) boot_scheme entry list" where
  "boot_table3 = [(Dosiz_int33, CB_IRET, Some 0x33, no_store),
     (Dosiz_xms_driver, CB_RETF, None, \<lambda>p. in_xms (\<lambda>d. d\<lparr>s_xms_driver_seg := hi16 p, s_xms_driver_off := lo16 p\<rparr>)),
     (Dosiz_int16, CB_IRET, Some 0x16, \<lambda>_. in_video (\<lambda>d. d\<lparr>s_int16_peek := None\<rparr>)),
     (Dosiz_int15, CB_IRET, Some 0x15, no_store)]"

definition install_all ::
  "'m emu88 \<Rightarrow> ('m, 'o, 'p, 'b, 'h, 'e, 'z) boot_scheme entry list \<Rightarrow> ('m, 'o, 'p, 'b, 'h, 'e, 'z) boot_scheme \<Rightarrow> ('m, 'o, 'p, 'b, 'h, 'e, 'z) boot_scheme" where
  "install_all E tab s = fold (install_entry E) tab s"

definition boot_install ::
  "'m emu88 \<Rightarrow> 'm svga \<Rightarrow> 'e ethernet \<Rightarrow> ('m, 'o, 'p, 'b, 'h, 'e, 'z) boot_scheme \<Rightarrow> ('m, 'o, 'p, 'b, 'h, 'e, 'z) boot_scheme" where
  "boot_install E V N s = (let
     s = install_all E boot_table2 (install_all E (boot_table1 E N) s);
     s = install_entry E (Dosiz_int67, CB_IRET, Some 0x67, no_store) (in_ems ems_reset s);
     s = wr (video_bda E) (in_video (video_init E V) s);
     s = TIMER_AddTickHandler (Some Dosiz_video_tick) (install_entry E (Dosiz_int10, CB_IRET, Some 0x10, no_store) s);
     s = TIMER_AddTickHandler (Some Dosiz_screenshot_tick) (install_all E boot_table3 s)
   in TIMER_AddTickHandler (Some Dosiz_bios_timer_tick) (wr (mem_writed E 0x46C 0x000F0000) s))"

section \<open>Entering the program\<close>

text \<open>A linear-executable program is entered in protected mode with ES on its PSP, when a descriptor is free.\<close>

definition psp_selector :: "'m emu88 \<Rightarrow> u16 \<Rightarrow> ('m, 'z) dpmi_scheme \<Rightarrow> u16 \<times> ('m, 'z) dpmi_scheme" where
  "psp_selector E dflt s = (let idx = ldt_find_run (s_ldt_in_use s) 1
   in if idx = 0 then (dflt, s)
      else (push_bit 3 idx OR 4, s\<lparr>s_ldt_in_use := ldt_set idx True (s_ldt_in_use s),
         mem := write_ldt_descriptor E idx (ucast PSP_SEG * 16) 0xFFFF 0x92 False (mem s)\<rparr>))"

definition enter_pm ::
  "'m emu88 \<Rightarrow> ('m, 'c) emu_cpu \<Rightarrow> initial_regs \<Rightarrow> ('m, 'o, 'p, 'b, 'h, 'e, 'z) boot_scheme \<Rightarrow> ('m, 'o, 'p, 'b, 'h, 'e, 'z) boot_scheme" where
  "enter_pm E C r s = (let
     s = CPU_SET_CRX C 0 1 s;
     s = wr (CPU_LLDT E C PM_LDT_SEL) s;
     s = CPU_SetSegGeneral E DS (ir_pm_ds r) s;
     (psp_sel, d) = psp_selector E (ir_pm_ds r) (dpmi_view s);
     s = put_dpmi d s;
     s = CPU_SetSegGeneral E ES psp_sel s;
     s = CPU_SetSegGeneral E SS (ir_ss r) s;
     s = s\<lparr>reg_esp := ir_pm_esp r\<rparr>
   in CPU_JMP E C (ir_is_32bit r) (ir_cs r) (ir_pm_eip r) s)"

definition enter_rm :: "'m emu88 \<Rightarrow> initial_regs \<Rightarrow> ('m, 'z) machine_scheme \<Rightarrow> ('m, 'z) machine_scheme" where
  "enter_rm E r s = (let
     s = SegSet16 E CS (ir_cs r) s;
     s = SegSet16 E DS PSP_SEG s;
     s = SegSet16 E ES PSP_SEG s;
     s = SegSet16 E SS (ir_ss r) s;
     s = s\<lparr>reg_eip := ucast (ir_ip r)\<rparr>;
     s = set_sp (ir_sp r) s
   in set_ax (ir_ax r) s)"

text \<open>\<open>run\<close> is \<open>DOSBOX_RunMachine\<close>; \<open>prep\<close> is \<open>le_launch_pm_prep\<close>. None: the loader meets data of undefined behaviour, or the run
  does not end.\<close>

definition dosiz_startup ::
  "'m emu88 \<Rightarrow> ('m, 'c) emu_cpu \<Rightarrow> 'm svga \<Rightarrow> 'e ethernet \<Rightarrow> (string \<Rightarrow> string option) \<Rightarrow> (string \<Rightarrow> u8 list) \<Rightarrow> (bool \<Rightarrow> 'm dpmi_host \<Rightarrow> 'm dpmi_host)
     \<Rightarrow> (('m, 'o, 'p, 'b, 'h, 'e, 'z) boot_scheme \<Rightarrow> ('m, 'o, 'p, 'b, 'h, 'e, 'z) boot_scheme option) \<Rightarrow> string \<Rightarrow> string list
     \<Rightarrow> ('m, 'o, 'p, 'b, 'h, 'e, 'z) boot_scheme \<Rightarrow> ('m, 'o, 'p, 'b, 'h, 'e, 'z) boot_scheme option" where
  "dosiz_startup E C V N env file prep run prg as s = (let
     s = wr (build_psp E env prg as) (boot_install E V N s)
   in case load_program_at E env file prep prg PSP_SEG (dpmi_view s) of
        None \<Rightarrow> None
      | Some (r, bound, d) \<Rightarrow> let
          s = put_dpmi d s;
          s = in_xms (\<lambda>x. x\<lparr>s_extender_bound := s_extender_bound x \<or> bound\<rparr>) s
        in case r of
             None \<Rightarrow> Some ((in_video (\<lambda>d. d\<lparr>s_exit_code := 1, dos.shutdown_requested := True\<rparr>) s)\<lparr>shim.shutdown_requested := True\<rparr>)
           | Some r \<Rightarrow> run (if ir_is_pm r then enter_pm E C r s else enter_rm E r s))"

section \<open>The program as a whole\<close>

text \<open>\<open>run_program\<close>: the static variables of the DOS kernel from the configuration (\<open>cwd\<close> is \<open>getcwd\<close>), the callback tables, the sound
  hardware, then the start-up. \<open>window\<close> and \<open>audio\<close> say whether the window and the audio device of \<open>display.cc\<close> open, \<open>dump\<close> whether
  DOSIZ_FRAME_DUMP is set. The result is the exit code; the frame and audio dumps and the destructors of the handler
  objects, which follow when the machine no longer runs, are left out.\<close>

definition config_drives :: "config \<Rightarrow> string option \<Rightarrow> (char \<times> string) list" where
  "config_drives cfg cwd = (let ds = fold (\<lambda>d. map_set (dm_letter d) (dm_host_path d)) (drives cfg) []
   in if ds = [] then [(CHR ''C'', case cwd of Some d \<Rightarrow> d | None \<Rightarrow> ''.'')] else ds)"

definition reset_statics :: "config \<Rightarrow> string option \<Rightarrow> ('m, 'h, 'z) dos_scheme \<Rightarrow> ('m, 'h, 'z) dos_scheme" where
  "reset_statics cfg cwd s = (let ds = config_drives cfg cwd in
     s\<lparr>s_exit_code := 0, s_handles := [], s_drive_cwd := [], s_mcb_initialised := False, s_file_mappings := file_mappings cfg,
       s_dta_linear := para PSP_SEG + 0x80, s_finds := [], s_drives := ds, s_current_drive := fst (hd ds),
       s_default_mode := default_mode cfg\<rparr>)"

definition program_init ::
  "'m emu88 \<Rightarrow> ('o, 'p, 'b) devices \<Rightarrow> config \<Rightarrow> string option \<Rightarrow> bool \<Rightarrow> bool \<Rightarrow> bool
     \<Rightarrow> ('m, 'o, 'p, 'b, 'h, 'e, 'z) boot_scheme \<Rightarrow> ('m, 'o, 'p, 'b, 'h, 'e, 'z) boot_scheme" where
  "program_init E D cfg cwd window audio dump s = (let
     s = in_video (reset_statics cfg cwd) s;
     s = CALLBACK_Init E Call_stop Default_iret s;
     s = s\<lparr>shim.shutdown_requested := False, hw_st := hw_init D (hw_st s)\<rparr>;
     s = TIMER_AddTickHandler (Some Audio_tick) s;
     s = in_video (\<lambda>d. d\<lparr>dos.shutdown_requested := False, g_windowed := \<not> headless cfg \<or> dump\<rparr>) s
   in if \<not> headless cfg \<and> window
      then let s = in_video (\<lambda>d. d\<lparr>g_display_open := True\<rparr>) s
        in if audio then s\<lparr>hw_st := set_host_audio True (hw_st s)\<rparr> else s
      else s)"

definition run_program ::
  "'m emu88 \<Rightarrow> ('m, 'c) emu_cpu \<Rightarrow> 'm svga \<Rightarrow> 'e ethernet \<Rightarrow> ('o, 'p, 'b) devices \<Rightarrow> (string \<Rightarrow> string option) \<Rightarrow> (string \<Rightarrow> u8 list)
     \<Rightarrow> (bool \<Rightarrow> 'm dpmi_host \<Rightarrow> 'm dpmi_host)
     \<Rightarrow> (('m, 'o, 'p, 'b, 'h, 'e, 'z) boot_scheme \<Rightarrow> ('m, 'o, 'p, 'b, 'h, 'e, 'z) boot_scheme option) \<Rightarrow> config \<Rightarrow> string option
     \<Rightarrow> bool \<Rightarrow> bool \<Rightarrow> bool \<Rightarrow> ('m, 'o, 'p, 'b, 'h, 'e, 'z) boot_scheme \<Rightarrow> (int \<times> ('m, 'o, 'p, 'b, 'h, 'e, 'z) boot_scheme) option" where
  "run_program E C V N D env file prep run cfg cwd window audio dump s =
     map_option (\<lambda>s. (s_exit_code (arenas.extend (arenas_of s) (b_video s) :: ('m, 'h) video), s))
       (dosiz_startup E C V N env file prep run (program cfg) (args cfg) (program_init E D cfg cwd window audio dump s))"

section \<open>Steps that leave the stubs and vectors alone\<close>

definition boot_ram :: "'m emu88 \<Rightarrow> 'm \<Rightarrow> bool" where
  "boot_ram E m \<longleftrightarrow> (\<forall>b. unat b < 0x110000 \<longrightarrow> is_ram E m b)"

text \<open>Memory that holds neither a vector other than 60h nor a stub.\<close>

definition scratch_area :: "u32 set" where
  "scratch_area = {b. 0x400 \<le> unat b \<and> unat b < 0xF1000 \<or> 0x180 \<le> unat b \<and> unat b < 0x184 \<or> 0xF3540 \<le> unat b}"

definition spares ::
  "'m emu88 \<Rightarrow> ('m, 'o, 'p, 'b, 'h, 'e, 'z) boot_scheme \<Rightarrow> ('m, 'o, 'p, 'b, 'h, 'e, 'z) boot_scheme \<Rightarrow> bool" where
  "spares E s t \<longleftrightarrow> same_outside E scratch_area (mem s) (mem t) \<and> g_cb_handlers t = g_cb_handlers s
     \<and> g_cb_allocated t = g_cb_allocated s \<and> (0x40 \<le> unat (dos_next_para s) \<longrightarrow> 0x40 \<le> unat (dos_next_para t))"

text \<open>The states in which the start-up runs: RAM below 110000h, and paragraphs handed out above the vectors.\<close>

definition bootable :: "'m emu88 \<Rightarrow> ('m, 'o, 'p, 'b, 'h, 'e, 'z) boot_scheme \<Rightarrow> bool" where
  "bootable E s \<longleftrightarrow> boot_ram E (mem s) \<and> 0x40 \<le> unat (dos_next_para s)"

lemma boot_ram_same: "same_outside E S m m' \<Longrightarrow> boot_ram E m' = boot_ram E m"
  by (simp add: boot_ram_def same_outside_def)

lemma boot_ram_rom: "boot_ram E m \<Longrightarrow> rom_ram E m \<and> ivt_ram E m"
  by (simp add: boot_ram_def rom_ram_def ivt_ram_def ivt_area_def)

lemma spares_refl [simp]: "spares E s s" by (simp add: spares_def)

lemma spares_trans: "\<lbrakk>spares E s t; spares E t u\<rbrakk> \<Longrightarrow> spares E s u"
  unfolding spares_def using same_outside_trans by metis

lemma spares_bootable: "\<lbrakk>spares E s t; bootable E s\<rbrakk> \<Longrightarrow> bootable E t"
  unfolding spares_def bootable_def using boot_ram_same by metis

lemma with_machine_frame [simp]:
  "mem (with_machine a s) = mem a" "g_cb_handlers (with_machine a s) = g_cb_handlers s"
  "g_cb_allocated (with_machine a s) = g_cb_allocated s" "dos_next_para (with_machine a s) = dos_next_para s"
  by (cases s; simp add: with_machine_def machine.defs)+

lemma view_mem [simp]:
  "mem (arenas_of s) = mem s" "mem (dpmi_view s) = mem s"
  "mem (arenas.extend (arenas_of s) x) = mem s" "mem (machine.extend (machine.truncate s) y) = mem s"
  by (simp_all add: dpmi_view_def arenas_of_def arenas.defs machine.defs)

lemma in_component_frame [simp]:
  "mem (in_dpmi f s) = mem (f (dpmi_view s))" "g_cb_handlers (in_dpmi f s) = g_cb_handlers s"
  "g_cb_allocated (in_dpmi f s) = g_cb_allocated s" "dos_next_para (in_dpmi f s) = dos_next_para s"
  "mem (in_xms f' s) = mem (f' (arenas.extend (arenas_of s) (b_xms s)))" "g_cb_handlers (in_xms f' s) = g_cb_handlers s"
  "g_cb_allocated (in_xms f' s) = g_cb_allocated s" "dos_next_para (in_xms f' s) = dos_next_para s"
  "mem (in_video h s) = mem (h (arenas.extend (arenas_of s) (b_video s)))" "g_cb_handlers (in_video h s) = g_cb_handlers s"
  "g_cb_allocated (in_video h s) = g_cb_allocated s" "dos_next_para (in_video h s) = dos_next_para s"
  "mem (in_ems e s) = mem (e (machine.extend (machine.truncate s) (b_ems s)))" "g_cb_handlers (in_ems e s) = g_cb_handlers s"
  "g_cb_allocated (in_ems e s) = g_cb_allocated s" "dos_next_para (in_ems e s) = dos_next_para s"
  "mem (in_net n s) = mem (n (machine.extend (machine.truncate s) (b_net s)))" "g_cb_handlers (in_net n s) = g_cb_handlers s"
  "g_cb_allocated (in_net n s) = g_cb_allocated s" "dos_next_para (in_net n s) = dos_next_para s"
  by (simp_all add: in_dpmi_def put_dpmi_def in_xms_def in_video_def in_ems_def in_net_def with_arenas_def Let_def)

lemma quiet_wr: "same_outside E scratch_area (mem s) (f (mem s)) \<Longrightarrow> spares E s (wr f s)"
  by (simp add: spares_def wr_def)

lemma quiet_tick [simp]: "spares E s (TIMER_AddTickHandler h s)"
  by (simp add: spares_def TIMER_AddTickHandler_def split: option.split)

section \<open>The tables during the start-up\<close>

text \<open>The first callbacks are installed as \<open>tab\<close> says, the vectors of \<open>tab\<close> lead to them and the other vectors, 60h apart, to
  callback 2.\<close>

definition cb_at :: "nat \<Rightarrow> u8" where "cb_at i = of_nat (Suc i)"

definition installed ::
  "'m emu88 \<Rightarrow> (handler \<times> cb_type \<times> u8 option) list \<Rightarrow> ('m, 'o, 'p, 'b, 'h, 'e, 'z) boot_scheme \<Rightarrow> bool" where
  "installed E tab s \<longleftrightarrow> bootable E s \<and> (\<forall>i < CB_MAX. g_cb_allocated s i \<longleftrightarrow> i \<le> length tab)
     \<and> (\<forall>i < length tab. case tab ! i of (h, ty, vec) \<Rightarrow> g_cb_handlers s (Suc i) = Some h
          \<and> bytes_at E (mem s) (CALLBACK_PhysPointer (cb_at i)) (stub_bytes (cb_at i) ty)
          \<and> (\<forall>v. vec = Some v \<longrightarrow> v \<noteq> 0x60 \<and> mem_readd E (mem s) (ucast v * 4) = CALLBACK_RealPointer (cb_at i)))
     \<and> (\<forall>v. v \<noteq> 0x60 \<longrightarrow> Some v \<notin> (snd \<circ> snd) ` set tab \<longrightarrow> mem_readd E (mem s) (ucast v * 4) = CALLBACK_RealPointer 2)"

definition strip :: "'s entry \<Rightarrow> handler \<times> cb_type \<times> u8 option" where
  "strip = (\<lambda>(h, ty, vec, _). (h, ty, vec))"

lemma vec_unat: "unat (ucast (v :: u8) * 4 :: u32) = 4 * unat v" "k < 4 \<Longrightarrow> unat (ucast (v :: u8) * 4 + of_nat k :: u32) = 4 * unat v + k"
proof -
  have v: "unat v < 256" using unat_u8_less .
  have eq: "ucast v * 4 = (of_nat (unat v) * 4 :: u32)" by simp
  show "k < 4 \<Longrightarrow> unat (ucast v * 4 + of_nat k :: u32) = 4 * unat v + k" unfolding eq by (rule unat_vec [OF v])
  show "unat (ucast v * 4 :: u32) = 4 * unat v" unfolding eq using unat_vec [OF v, of 0] by simp
qed

lemma installed_bootable: "installed E tab s \<Longrightarrow> bootable E s"
  by (simp add: installed_def)

lemma installed_ram: "installed E tab s \<Longrightarrow> rom_ram E (mem s) \<and> ivt_ram E (mem s)"
  using installed_bootable by (intro boot_ram_rom) (auto simp: bootable_def)

context emu88_engine
begin

lemma readd_eqI:
  assumes "ivt_ram E m" and "\<And>b. is_ram E m' b = is_ram E m b"
    and "\<And>b. \<lbrakk>4 * unat v \<le> unat b; unat b < 4 * unat v + 4\<rbrakk> \<Longrightarrow> mem_readb E m' b = mem_readb E m b"
  shows "mem_readd E m' (ucast (v :: u8) * 4) = mem_readd E m (ucast v * 4)"
proof -
  have "is_ram E m (ucast v * 4 + of_nat k) \<and> is_ram E m' (ucast v * 4 + of_nat k)
      \<and> mem_readb E m' (ucast v * 4 + of_nat k) = mem_readb E m (ucast v * 4 + of_nat k)" if "k < 4" for k
    using assms vec_unat(2) [OF that, of v] that unat_u8_less [of v] by (simp add: ivt_ram_def ivt_area_def)
  from this [of 0] this [of 1] this [of 2] this [of 3] show ?thesis by (simp add: readd_words readw_bytes add.assoc)
qed

lemma vector_write:
  fixes v :: u8 and p :: u32
  assumes "ivt_ram E m"
  defines "m' \<equiv> mem_writed E (ucast v * 4) p m"
  shows "mem_readd E m' (ucast v * 4) = p" and "\<And>w. w \<noteq> v \<Longrightarrow> mem_readd E m' (ucast w * 4) = mem_readd E m (ucast w * 4)"
    and "same_outside E ivt_area m m'"
proof -
  have r: "is_ram E m (ucast v * 4 + of_nat k)" "ucast v * 4 + of_nat k \<in> ivt_area" if "k < 4" for k
    using assms(1) vec_unat(2) [OF that, of v] that unat_u8_less [of v] by (simp_all add: ivt_ram_def ivt_area_def)
  note rs = r [of 0] r [of 1] r [of 2] r [of 3]
  show "mem_readd E m' (ucast v * 4) = p" using rs by (simp add: m'_def mem_simps)
  show so: "same_outside E ivt_area m m'" using rs by (auto simp: m'_def same_outside_def mem_simps)
  fix w :: u8 assume "w \<noteq> v"
  then have ne: "unat w \<noteq> unat v" by (simp add: word_unat_eq_iff)
  show "mem_readd E m' (ucast w * 4) = mem_readd E m (ucast w * 4)"
  proof (rule readd_eqI [OF assms(1)])
    show "is_ram E m' b = is_ram E m b" for b using so by (simp add: same_outside_def)
    fix b :: u32 assume b: "4 * unat w \<le> unat b" "unat b < 4 * unat w + 4"
    have "b \<noteq> ucast v * 4 + of_nat k" if "k < 4" for k
    proof
      assume "b = ucast v * 4 + of_nat k"
      then have "4 * unat w \<le> 4 * unat v + k \<and> 4 * unat v + k < 4 * unat w + 4" using b by (simp only: vec_unat(2) [OF that])
      with that ne show False by presburger
    qed
    from this [of 0] this [of 1] this [of 2] this [of 3] have "b \<noteq> ucast v * 4" "b \<noteq> ucast v * 4 + 1" "b \<noteq> ucast v * 4 + 2" "b \<noteq> ucast v * 4 + 3"
      by simp_all
    moreover have "is_ram E m b" using b assms(1) unat_u8_less [of w] by (simp add: ivt_ram_def ivt_area_def)
    ultimately show "mem_readb E m' b = mem_readb E m b" using rs by (simp add: m'_def readb_writed)
  qed
qed

lemma readd_stub:
  assumes "ivt_ram E m" and "same_outside E (stub_area cb) m m'"
  shows "mem_readd E m' (ucast (v :: u8) * 4) = mem_readd E m (ucast v * 4)"
proof (rule readd_eqI [OF assms(1)])
  show "is_ram E m' b = is_ram E m b" for b using assms(2) by (simp add: same_outside_def)
  fix b :: u32 assume "4 * unat v \<le> unat b" "unat b < 4 * unat v + 4"
  then have "b \<notin> stub_area cb" "is_ram E m b"
    using unat_u8_less [of v] assms(1) by (simp_all add: stub_area_def ivt_ram_def ivt_area_def)
  with assms(2) show "mem_readb E m' b = mem_readb E m b" by (simp add: same_outside_def)
qed

lemma installed_quiet:
  assumes "installed E tab s" and "spares E s t" and "length tab < 249"
  shows "installed E tab t"
proof -
  have ram: "rom_ram E (mem s)" "ivt_ram E (mem s)" using installed_ram [OF assms(1)] by simp_all
  have so: "same_outside E scratch_area (mem s) (mem t)" using assms(2) by (simp add: spares_def)
  have bt: "bootable E t" using assms spares_bootable by (auto simp: installed_def)
  have st: "bytes_at E (mem t) (CALLBACK_PhysPointer (cb_at i)) (stub_bytes (cb_at i) ty)"
    if "bytes_at E (mem s) (CALLBACK_PhysPointer (cb_at i)) (stub_bytes (cb_at i) ty)" "i < length tab" for i ty
  proof (rule bytes_at_same [OF so that(1)])
    have cb: "unat (cb_at i) = Suc i" using that(2) assms(3) by (simp add: cb_at_def unat_of_nat_u8 del: of_nat_Suc)
    fix j assume j: "j < length (stub_bytes (cb_at i) ty)"
    have "unat (CALLBACK_PhysPointer (cb_at i) + of_nat j) = 0xF1000 + 32 * Suc i + j"
      using PhysPointer_unat [of "cb_at i"] cb that(2) assms(3) unat_plus_of_nat [of "CALLBACK_PhysPointer (cb_at i)" j] j
        stub_bytes_length(2) [of "cb_at i" ty] by (simp add: CB_MAX_def)
    then show "is_ram E (mem s) (CALLBACK_PhysPointer (cb_at i) + of_nat j) \<and> CALLBACK_PhysPointer (cb_at i) + of_nat j \<notin> scratch_area"
      using ram(1) that(2) assms(3) j stub_bytes_length(2) [of "cb_at i" ty] by (simp add: rom_ram_def scratch_area_def)
  qed
  have rd: "mem_readd E (mem t) (ucast v * 4) = mem_readd E (mem s) (ucast v * 4)" if "v \<noteq> 0x60" for v :: u8
  proof (rule readd_eqI [OF ram(2)])
    show "is_ram E (mem t) b = is_ram E (mem s) b" for b using so by (simp add: same_outside_def)
    fix b :: u32 assume b: "4 * unat v \<le> unat b" "unat b < 4 * unat v + 4"
    moreover have "unat v \<noteq> 0x60" using that by (auto simp: word_unat_eq_iff)
    ultimately have "b \<notin> scratch_area" "is_ram E (mem s) b"
      using unat_u8_less [of v] ram(2) by (simp_all add: scratch_area_def ivt_ram_def ivt_area_def)
    with so show "mem_readb E (mem t) b = mem_readb E (mem s) b" by (simp add: same_outside_def)
  qed
  have fr: "g_cb_handlers t = g_cb_handlers s" "g_cb_allocated t = g_cb_allocated s" using assms(2) by (simp_all add: spares_def)
  show ?thesis
    using assms(1) bt st rd unfolding installed_def fr by (auto split: prod.splits)
qed

lemma installed_entry:
  assumes "installed E tab s" and "length tab < 248" and "vec \<noteq> Some 0x60" and "vec \<noteq> None \<longrightarrow> vec \<notin> (snd \<circ> snd) ` set tab"
    and "\<And>p s. bootable E s \<Longrightarrow> spares E s (store p s)"
  shows "installed E (tab @ [(h, ty, vec)]) (install_entry E (h, ty, vec, store) s)"
proof -
  let ?cb = "cb_at (length tab)"
  have cb: "unat ?cb = Suc (length tab)" "unat ?cb < CB_MAX"
    using assms(2) by (simp_all add: cb_at_def unat_of_nat_u8 CB_MAX_def del: of_nat_Suc)
  define s1 where "s1 = s\<lparr>g_cb_allocated := (g_cb_allocated s)(unat ?cb := True), g_cb_handlers := (g_cb_handlers s)(unat ?cb := None)\<rparr>"
  have al: "CALLBACK_Allocate s = (?cb, s1)"
    using assms(1,2) cb Allocate_fresh [of "unat ?cb" s] by (simp add: installed_def s1_def CB_MAX_def cb_at_def)
  define s2 where "s2 = snd (CALLBACK_Setup E ?cb h ty s1)"
  define s3 where "s3 = (case vec of None \<Rightarrow> s2 | Some v \<Rightarrow> wr (mem_writed E (ucast v * 4) (CALLBACK_RealPointer ?cb)) s2)"
  have uc: "ucast (ucast ?cb :: u16) = ?cb" by (rule bit_word_eqI) (auto simp: bit_simps)
  have eq: "install_entry E (h, ty, vec, store) s = store (CALLBACK_RealPointer ?cb) s3"
    by (simp add: install_entry_def object_Install_def object_number_def fresh_object_def al object_Set_RealVec_def s2_def s3_def
        case_prod_beta Let_def uc split: option.split)
  have m1: "mem s1 = mem s" by (simp add: s1_def)
  have ram: "rom_ram E (mem s1)" "ivt_ram E (mem s1)" using installed_ram [OF assms(1)] by (simp_all add: m1)
  note st = setup_stub [OF ram(1) cb(2), where h = h and ty = ty, folded s2_def]
  have ivt2: "ivt_ram E (mem s2)" using ivt_ram_same [OF st(2)] ram(2) by simp
  define s4 where "s4 = store (CALLBACK_RealPointer ?cb) s3"
  have so3: "same_outside E ivt_area (mem s2) (mem s3)"
    using vector_write(3) [OF ivt2] by (simp add: s3_def wr_def split: option.split)
  have so: "same_outside E (stub_area ?cb \<union> ivt_area) (mem s) (mem s3)" using same_outside_join [OF st(2) so3] by (simp add: m1)
  have fr: "g_cb_handlers s3 = (g_cb_handlers s)(Suc (length tab) := Some h)" "dos_next_para s3 = dos_next_para s"
    "g_cb_allocated s3 = (g_cb_allocated s)(Suc (length tab) := True)"
    using cb by (auto simp: s3_def s2_def s1_def CALLBACK_Setup_def wr_def split: option.split)
  have bt: "bootable E s3" using assms(1) boot_ram_same [OF so] by (simp add: installed_def bootable_def fr)
  have far: "same_outside E (ivt_area \<union> rint_area) (mem s2) (mem s3)" by (rule same_outside_mono [OF so3]) simp
  have ram2: "rom_ram E (mem s2)" using rom_ram_same [OF st(2)] ram(1) by simp
  have new: "bytes_at E (mem s3) (CALLBACK_PhysPointer ?cb) (stub_bytes ?cb ty)" by (rule stub_far [OF ram2 cb(2) far st(1)])
  have old: "bytes_at E (mem s3) (CALLBACK_PhysPointer (cb_at i)) (stub_bytes (cb_at i) ty')"
    if "bytes_at E (mem s) (CALLBACK_PhysPointer (cb_at i)) (stub_bytes (cb_at i) ty')" "i < length tab" for i ty'
  proof -
    have i: "unat (cb_at i) = Suc i" using that(2) assms(2) by (simp add: cb_at_def unat_of_nat_u8 del: of_nat_Suc)
    then have "unat (cb_at i) < CB_MAX" "cb_at i \<noteq> ?cb" using that(2) assms(2) cb by (auto simp: CB_MAX_def)
    then show ?thesis using stub_far [OF ram2 _ far] stub_other [OF ram(1) _ cb(2) _ st(2)] that(1) by (simp add: m1)
  qed
  have vec2: "mem_readd E (mem s2) (ucast v * 4) = mem_readd E (mem s) (ucast v * 4)" for v :: u8
    using readd_stub [OF ram(2) st(2)] by (simp add: m1)
  have vec_same: "mem_readd E (mem s3) (ucast v * 4) = mem_readd E (mem s) (ucast v * 4)" if "vec \<noteq> Some v" for v
  proof (cases vec)
    case (Some x)
    with that have "v \<noteq> x" by simp
    then show ?thesis using vector_write(2) [OF ivt2, of v x] vec2 by (simp add: s3_def wr_def Some)
  qed (simp add: s3_def vec2)
  have vec_new: "mem_readd E (mem s3) (ucast v * 4) = CALLBACK_RealPointer ?cb" if "vec = Some v" for v
    using vector_write(1) [OF ivt2] by (simp add: s3_def wr_def that)
  have "installed E (tab @ [(h, ty, vec)]) s3"
    unfolding installed_def
  proof (intro conjI allI impI)
    show "bootable E s3" by (rule bt)
    show "g_cb_allocated s3 i \<longleftrightarrow> i \<le> length (tab @ [(h, ty, vec)])" if "i < CB_MAX" for i
      using assms(1) that by (auto simp: installed_def fr)
    show "case (tab @ [(h, ty, vec)]) ! i of (h, ty, vec) \<Rightarrow> g_cb_handlers s3 (Suc i) = Some h
          \<and> bytes_at E (mem s3) (CALLBACK_PhysPointer (cb_at i)) (stub_bytes (cb_at i) ty)
          \<and> (\<forall>v. vec = Some v \<longrightarrow> v \<noteq> 0x60 \<and> mem_readd E (mem s3) (ucast v * 4) = CALLBACK_RealPointer (cb_at i))"
      if i: "i < length (tab @ [(h, ty, vec)])" for i
    proof (cases "i = length tab")
      case True
      then show ?thesis using assms(3) new vec_new by (auto simp: fr)
    next
      case False
      with i have i: "i < length tab" by simp
      obtain h' ty' vec' where t: "tab ! i = (h', ty', vec')" by (cases "tab ! i")
      have "vec' \<in> (snd \<circ> snd) ` set tab" using t i nth_mem [OF i] by force
      then have "vec \<noteq> Some v" if "vec' = Some v" for v using assms(4) that by auto
      then show ?thesis using assms(1) i t old vec_same unfolding installed_def by (auto simp: nth_append fr)
    qed
    show "mem_readd E (mem s3) (ucast v * 4) = CALLBACK_RealPointer 2"
      if "v \<noteq> 0x60" "Some v \<notin> (snd \<circ> snd) ` set (tab @ [(h, ty, vec)])" for v
      using assms(1) that vec_same unfolding installed_def by auto
  qed
  then show ?thesis
    unfolding eq using assms(2) by (intro installed_quiet [OF _ assms(5) [OF bt]]) simp_all
qed

lemma installed_all:
  assumes "installed E tab s" and "length tab + length es < 249" and "Some 0x60 \<notin> (snd \<circ> snd) ` set (map strip es)"
    and "distinct (filter (\<lambda>v. v \<noteq> None) (map (snd \<circ> snd) (tab @ map strip es)))"
    and "\<And>h ty vec store p s. \<lbrakk>(h, ty, vec, store) \<in> set es; bootable E s\<rbrakk> \<Longrightarrow> spares E s (store p s)"
  shows "installed E (tab @ map strip es) (install_all E es s)"
  using assms
proof (induction es arbitrary: tab s)
  case (Cons x es)
  obtain h ty vec store where x: "x = (h, ty, vec, store)" by (cases x)
  have "installed E (tab @ [(h, ty, vec)]) (install_entry E x s)"
    unfolding x
  proof (rule installed_entry [OF Cons.prems(1)])
    show "length tab < 248" "vec \<noteq> Some 0x60" using Cons.prems(2,3) by (auto simp: x strip_def)
    show "vec \<noteq> None \<longrightarrow> vec \<notin> (snd \<circ> snd) ` set tab" using Cons.prems(4) by (force simp: x strip_def)
    show "spares E s (store p s)" if "bootable E s" for p s by (rule Cons.prems(5) [OF _ that, where h = h and ty = ty and vec = vec]) (simp add: x)
  qed
  from this have "installed E ((tab @ [(h, ty, vec)]) @ map strip es) (install_all E es (install_entry E x s))"
  proof (rule Cons.IH)
    show "length (tab @ [(h, ty, vec)]) + length es < 249" using Cons.prems(2) by simp
    show "Some 0x60 \<notin> (snd \<circ> snd) ` set (map strip es)" using Cons.prems(3) by (auto simp: x strip_def)
    show "distinct (filter (\<lambda>v. v \<noteq> None) (map (snd \<circ> snd) ((tab @ [(h, ty, vec)]) @ map strip es)))"
      using Cons.prems(4) by (simp only: x strip_def list.map prod.case append_assoc append_Cons append_Nil)
    show "spares E s (store p s)" if "(h, ty, vec, store) \<in> set es" "bootable E s" for h ty vec store p s
      by (rule Cons.prems(5) [OF _ that(2), where h = h and ty = ty and vec = vec]) (simp add: that)
  qed
  then show ?case by (simp add: install_all_def x strip_def)
qed (simp add: install_all_def)

end

section \<open>The writes of the start-up\<close>

definition quiet_mem :: "'m emu88 \<Rightarrow> ('m \<Rightarrow> 'm) \<Rightarrow> bool" where
  "quiet_mem E f \<longleftrightarrow> (\<forall>m. boot_ram E m \<longrightarrow> same_outside E scratch_area m (f m))"

lemma quiet_mem_id [simp]: "quiet_mem E (\<lambda>m. m)" by (simp add: quiet_mem_def)

lemma quiet_mem_comp: "\<lbrakk>quiet_mem E f; quiet_mem E h\<rbrakk> \<Longrightarrow> quiet_mem E (f \<circ> h)"
  unfolding quiet_mem_def comp_def using boot_ram_same same_outside_trans by metis

lemma quiet_mem_fold: "(\<And>x. x \<in> set xs \<Longrightarrow> quiet_mem E (f x)) \<Longrightarrow> quiet_mem E (fold f xs)"
proof (induction xs)
  case (Cons x xs)
  then show ?case using quiet_mem_comp [of E "fold f xs" "f x"] by (simp add: comp_def)
qed (simp add: id_def)

lemma quiet_wr_mem: "\<lbrakk>quiet_mem E f; bootable E s\<rbrakk> \<Longrightarrow> spares E s (wr f s)"
  by (rule quiet_wr) (simp add: quiet_mem_def bootable_def)

definition scratch_ram :: "u32 \<Rightarrow> nat \<Rightarrow> bool" where
  "scratch_ram a n \<longleftrightarrow> 0x400 \<le> unat a \<and> unat a + n \<le> 0xF1000 \<or> 0x180 \<le> unat a \<and> unat a + n \<le> 0x184
     \<or> 0xF3540 \<le> unat a \<and> unat a + n \<le> 0x110000"

lemma scratch_ram_byte:
  assumes "scratch_ram a n" and "i < n"
  shows "unat (a + of_nat i) = unat a + i \<and> unat (a + of_nat i) < 0x110000 \<and> a + of_nat i \<in> scratch_area"
proof -
  have "unat a + i < 2 ^ 32" using assms by (auto simp: scratch_ram_def)
  then have "unat (a + of_nat i) = unat a + i" by (rule unat_plus_of_nat)
  with assms show ?thesis by (auto simp: scratch_ram_def scratch_area_def)
qed

context emu88_engine
begin

lemma quiet_writeb: "scratch_ram a 1 \<Longrightarrow> quiet_mem E (mem_writeb E a v)"
  using scratch_ram_byte [of a 1 0] by (auto simp: quiet_mem_def boot_ram_def intro!: same_outside_writeb)

lemma quiet_writew: "scratch_ram a 2 \<Longrightarrow> quiet_mem E (mem_writew E a v)"
  using scratch_ram_byte [of a 2 0] scratch_ram_byte [of a 2 1] by (auto simp: quiet_mem_def boot_ram_def intro!: same_outside_writew)

lemma quiet_writed: "scratch_ram a 4 \<Longrightarrow> quiet_mem E (mem_writed E a v)"
  using scratch_ram_byte [of a 4 0] scratch_ram_byte [of a 4 1] scratch_ram_byte [of a 4 2] scratch_ram_byte [of a 4 3]
  by (auto simp: quiet_mem_def boot_ram_def same_outside_def mem_simps)

lemma quiet_store_bytes:
  assumes "scratch_ram a (length bs)"
  shows "quiet_mem E (store_bytes E a bs)"
  unfolding quiet_mem_def
proof (intro allI impI)
  fix m assume m: "boot_ram E m"
  have "stored E a bs m (store_bytes E a bs m)"
    using m scratch_ram_byte [OF assms] assms by (intro store_bytes_stored) (auto simp: boot_ram_def scratch_ram_def)
  then show "same_outside E scratch_area m (store_bytes E a bs m)"
    by (rule stored_same_outside) (use assms in \<open>auto simp: scratch_ram_def scratch_area_def\<close>)
qed

lemma quiet_rom_put: "scratch_ram (VBE_ROM_LIN + off) (Suc (length str)) \<Longrightarrow> quiet_mem E (rom_put E off str)"
proof -
  assume a: "scratch_ram (VBE_ROM_LIN + off) (Suc (length str))"
  have "quiet_mem E (mem_writeb E (VBE_ROM_LIN + off + of_nat i) v)" if "i < Suc (length str)" for i v
    using scratch_ram_byte [OF a that] that a by (intro quiet_writeb) (auto simp: scratch_ram_def)
  then show ?thesis unfolding rom_put_def Let_def by (intro quiet_mem_fold) (simp only: set_upt length_append length_map list.size atLeastLessThan_iff One_nat_def add_Suc_right add_0_right)
qed

lemma rom_modes:
  fixes f :: "nat \<Rightarrow> u16"
  assumes "boot_ram E m" and "scratch_ram a (2 * n)"
  defines "r \<equiv> \<lambda>n. fold (\<lambda>i (mp, m). (mp + 2, mem_writew E mp (f i) m)) [0 ..< n] (a, m)"
  shows "fst (r n) = a + of_nat (2 * n) \<and> same_outside E scratch_area m (snd (r n))"
  using assms(2)
proof (induction n)
  case (Suc n)
  have step: "r (Suc n) = (fst (r n) + 2, mem_writew E (fst (r n)) (f n) (snd (r n)))" by (simp add: r_def case_prod_beta)
  have "scratch_ram a (2 * n)" using Suc.prems by (auto simp: scratch_ram_def)
  note IH = Suc.IH [OF this]
  have ram: "boot_ram E (snd (r n))" using boot_ram_same [OF conjunct2 [OF IH]] assms(1) by simp
  have "scratch_ram (fst (r n)) 2"
    using scratch_ram_byte [OF Suc.prems, of "2 * n"] Suc.prems IH by (auto simp: scratch_ram_def)
  then have "same_outside E scratch_area (snd (r n)) (mem_writew E (fst (r n)) (f n) (snd (r n)))"
    using quiet_writew ram by (simp add: quiet_mem_def)
  with IH show ?case by (auto simp: step add.assoc intro: same_outside_trans)
qed (simp add: r_def)

lemma quiet_vesa: "quiet_mem E (dosiz_vesa_init_rom E)"
proof -
  define hd where "hd = rom_put E VBE_OFF_REV ''Rev 1.0'' \<circ> rom_put E VBE_OFF_PRODUCT ''Trio64 (emu88 VESA)'' \<circ> rom_put E VBE_OFF_VENDOR ''S3 Incorporated.''
      \<circ> rom_put E VBE_OFF_OEM ''S3 Incorporated. Trio64 (emu88)'' \<circ> mem_writeb E (VBE_ROM_LIN + 2) 0x40 \<circ> mem_writeb E (VBE_ROM_LIN + 1) 0xAA
      \<circ> mem_writeb E (VBE_ROM_LIN + 0) 0x55"
  have hd: "quiet_mem E hd"
    unfolding hd_def by (intro quiet_mem_comp quiet_rom_put quiet_writeb) (simp_all add: scratch_ram_def VBE_ROM_LIN_def VBE_OFF_REV_def
        VBE_OFF_PRODUCT_def VBE_OFF_VENDOR_def VBE_OFF_OEM_def)
  define r where "r m = fold (\<lambda>i (mp, m). (mp + 2, mem_writew E mp (vm_num (kVesaModes ! i)) m)) [0..<length kVesaModes] (VBE_ROM_LIN + VBE_OFF_MODES, hd m)" for m
  have eq: "dosiz_vesa_init_rom E m = mem_writew E (fst (r m)) 0xFFFF (snd (r m))" for m
    unfolding dosiz_vesa_init_rom_def Let_def r_def hd_def comp_def by (rule case_prod_beta)
  show ?thesis
    unfolding quiet_mem_def
  proof (intro allI impI)
    fix m assume m: "boot_ram E m"
    then have so: "same_outside E scratch_area m (hd m)" using hd by (simp add: quiet_mem_def)
    have ram: "boot_ram E (hd m)" using boot_ram_same [OF so] m by simp
    have len: "length kVesaModes < 100" by (simp add: kVesaModes_def)
    then have sc: "scratch_ram (VBE_ROM_LIN + VBE_OFF_MODES) (Suc (2 * length kVesaModes))"
      and sc': "scratch_ram (VBE_ROM_LIN + VBE_OFF_MODES) (2 * length kVesaModes)"
      by (simp_all add: scratch_ram_def VBE_ROM_LIN_def VBE_OFF_MODES_def)
    note r = rom_modes [OF ram sc', where f = "\<lambda>i. vm_num (kVesaModes ! i)", folded r_def]
    have "scratch_ram (fst (r m)) 2"
      using scratch_ram_byte [OF sc lessI] r len by (simp add: scratch_ram_def VBE_ROM_LIN_def VBE_OFF_MODES_def)
    moreover have "boot_ram E (snd (r m))" using boot_ram_same [OF conjunct2 [OF r]] ram by simp
    ultimately have "same_outside E scratch_area (snd (r m)) (dosiz_vesa_init_rom E m)"
      using quiet_writew by (simp add: quiet_mem_def eq)
    with so r show "same_outside E scratch_area m (dosiz_vesa_init_rom E m)" using same_outside_trans by metis
  qed
qed

lemma quiet_video_bda: "quiet_mem E (video_bda E)"
proof -
  have eq: "video_bda E = dosiz_vesa_init_rom E \<circ> mem_writew E 0x41C 0x1E \<circ> mem_writew E 0x41A 0x1E \<circ> mem_writew E 0x485 16
      \<circ> mem_writeb E 0x484 24 \<circ> mem_writew E 0x450 0 \<circ> mem_writew E 0x44C 0x1000 \<circ> mem_writew E 0x44A 80 \<circ> mem_writeb E 0x449 0x03"
    by (rule ext) (simp add: video_bda_def Let_def kbd_ring_init_def)
  show ?thesis
    unfolding eq by (intro quiet_mem_comp quiet_vesa quiet_writeb quiet_writew) (simp_all add: scratch_ram_def)
qed

end

section \<open>The start-up keeps the tables\<close>

text \<open>The setters of the emulated video card change what the window at A0000h shows, and no other memory.\<close>

definition vga_window :: "u32 set" where "vga_window = {b. 0xA0000 \<le> unat b \<and> unat b < 0xC0000}"

definition svga_keeps :: "'m emu88 \<Rightarrow> 'm svga \<Rightarrow> bool" where
  "svga_keeps E V \<longleftrightarrow> (\<forall>m b v. same_outside E vga_window m (set_svga_active V b m) \<and> same_outside E vga_window m (set_vga_planar V b m)
     \<and> same_outside E vga_window m (set_vga_map_mask V v m) \<and> same_outside E vga_window m (set_vga_read_map V v m))"

text \<open>Functions that do so wherever the start-up runs.\<close>

definition quietly ::
  "'m emu88 \<Rightarrow> (('m, 'o, 'p, 'b, 'h, 'e, 'z) boot_scheme \<Rightarrow> ('m, 'o, 'p, 'b, 'h, 'e, 'z) boot_scheme) \<Rightarrow> bool" where
  "quietly E f \<longleftrightarrow> (\<forall>s. bootable E s \<longrightarrow> spares E s (f s))"

lemma quietly_comp: "\<lbrakk>quietly E f; quietly E h\<rbrakk> \<Longrightarrow> quietly E (f \<circ> h)"
  unfolding quietly_def comp_def using spares_trans spares_bootable by metis

lemma quietly_wr: "quiet_mem E f \<Longrightarrow> quietly E (wr f)"
  by (simp add: quietly_def quiet_wr_mem)

context emu88_engine
begin

lemma quiet_video_init:
  fixes s :: "('m, 'o, 'p, 'b, 'h, 'e, 'z) boot_scheme"
  assumes "svga_keeps E V" and "bootable E s"
  shows "spares E s (in_video (video_init E V) s)"
proof -
  have sub: "vga_window \<subseteq> scratch_area" by (auto simp: vga_window_def scratch_area_def)
  have set: "quiet_mem E (set_svga_active V b)" "quiet_mem E (set_vga_planar V b)" "quiet_mem E (set_vga_map_mask V v)" "quiet_mem E (set_vga_read_map V v)" for b v
    using assms(1) by (auto simp: svga_keeps_def quiet_mem_def intro!: same_outside_mono [OF _ sub])
  have cell: "quiet_mem E (mem_writeb E (0xB8000 + of_nat k) v)" if "k < 4000" for k v
  proof (rule quiet_writeb)
    have "unat (0xB8000 + of_nat k :: u32) = 0xB8000 + k" using that unat_plus_of_nat [of "0xB8000" k] by simp
    then show "scratch_ram (0xB8000 + of_nat k) 1" using that by (simp add: scratch_ram_def)
  qed
  let ?f = "fold (\<lambda>i. mem_writeb E (0xB8000 + of_nat (i * 2 + 1)) 0x07 \<circ> mem_writeb E (0xB8000 + of_nat (i * 2)) 0x20) [0..<80 * 25]
      \<circ> (set_vga_read_map V 0 \<circ> set_vga_map_mask V 0x0F \<circ> set_vga_planar V False \<circ> set_svga_active V False)"
  have q: "quiet_mem E ?f"
    by (intro quiet_mem_comp quiet_mem_fold set cell) (auto simp del: upt_rec_numeral)
  have eq: "mem (video_init E V d) = ?f (mem d)" for d :: "('m, 'h, 'w) video_scheme"
    by (simp add: video_init_def set_mode_def wr_def Let_def del: upt_rec_numeral)
  show ?thesis using q assms(2) by (simp only: spares_def quiet_mem_def bootable_def in_component_frame eq view_mem simp_thms)
qed

lemma quiet_install_pktdrv:
  fixes s :: "('m, 'o, 'p, 'b, 'h, 'e, 'z) boot_scheme"
  assumes "eth_open N ''slirp'' = None" and "bootable E s"
  shows "spares E s (install_pktdrv E N cb s)"
proof (cases "unat (dos_next_para s) + 1 > 0x100")
  case True
  then show ?thesis by (simp add: install_pktdrv_def DOS_AllocateMemory_def spares_def)
next
  case False
  define sg where "sg = dos_next_para s"
  have sg: "0x40 \<le> unat sg" "unat sg < 0x100" using assms(2) False by (simp_all add: sg_def bootable_def)
  define shim where "shim s = (case scan_native E (para (hi16 cb) + ucast (lo16 cb)) (mem s) of None \<Rightarrow> s
    | Some scan \<Rightarrow> in_dpmi (\<lambda>d. d\<lparr>s_int60_cb32_off := of_nat (0x60 * PM_SHIM_SLOT_BYTES)\<rparr>)
       (wr (store_bytes E (PM_SHIM_BASE + of_nat (0x60 * PM_SHIM_SLOT_BYTES)) (shim_bytes 0x60
         (mem_readb E (mem s) (para (hi16 cb) + ucast (lo16 cb) + of_nat scan + 2))
         (mem_readb E (mem s) (para (hi16 cb) + ucast (lo16 cb) + of_nat scan + 3)))) s))" for s :: "('m, 'o, 'p, 'b, 'h, 'e, 'z) boot_scheme"
  let ?f = "TIMER_AddTickHandler (Some Dosiz_pktdrv_tick) \<circ> in_net (dosiz_pktdrv_open_ethernet E N) \<circ> shim
    \<circ> (\<lambda>s. s\<lparr>s_int60_cb_seg := sg, s_int60_cb_off := 0\<rparr>) \<circ> wr (mem_writew E (0x60 * 4 + 2) sg) \<circ> wr (mem_writew E (0x60 * 4 + 0) 0)
    \<circ> wr (store_bytes E (para sg) (pkt_stub cb)) \<circ> (\<lambda>s. s\<lparr>dos_next_para := sg + 1\<rparr>)"
  have "sg \<noteq> 0" using sg by auto
  then have eq: "install_pktdrv E N cb s = ?f s"
    using False by (simp add: install_pktdrv_def DOS_AllocateMemory_def Let_def shim_def sg_def case_prod_beta split: option.split)
  have psg: "unat (para sg) = 16 * unat sg"
  proof -
    have "para sg = of_nat (16 * unat sg)" by (simp add: para_def)
    then show ?thesis using sg unat_of_nat_u32 [of "16 * unat sg"] by simp
  qed
  have stub: "scratch_ram (para sg) (length (pkt_stub cb))" using sg by (simp add: scratch_ram_def psg pkt_stub_def)
  have sh: "quietly E shim"
    unfolding quietly_def
  proof (intro allI impI)
    fix s :: "('m, 'o, 'p, 'b, 'h, 'e, 'z) boot_scheme" assume b: "bootable E s"
    have "quiet_mem E (store_bytes E (PM_SHIM_BASE + of_nat (0x60 * PM_SHIM_SLOT_BYTES)) (shim_bytes 0x60 lo hi))" for lo hi
      by (rule quiet_store_bytes) (simp add: scratch_ram_def PM_SHIM_BASE_def PM_SHIM_SLOT_BYTES_def)
    with b show "spares E s (shim s)" by (simp add: shim_def spares_def wr_def quiet_mem_def bootable_def split: option.split)
  qed
  have net: "quietly E (in_net (dosiz_pktdrv_open_ethernet E N))"
    by (simp add: quietly_def spares_def dosiz_pktdrv_open_ethernet_def assms(1))
  have fin: "quietly E (TIMER_AddTickHandler h)" for h by (simp add: quietly_def)
  have upd: "quietly E (\<lambda>s. s\<lparr>s_int60_cb_seg := sg, s_int60_cb_off := 0\<rparr>)" "quietly E (\<lambda>s. s\<lparr>dos_next_para := sg + 1\<rparr>)"
    using sg by (simp_all add: quietly_def spares_def unat_word_ariths)
  have "quietly E ?f"
    by (intro quietly_comp fin net sh upd quietly_wr quiet_store_bytes [OF stub] quiet_writew) (simp_all add: scratch_ram_def)
  with assms(2) show ?thesis unfolding eq by (simp add: quietly_def)
qed

lemma installed_quietly: "\<lbrakk>installed E tab s; quietly E f; length tab < 249\<rbrakk> \<Longrightarrow> installed E tab (f s)"
  by (rule installed_quiet) (auto simp: quietly_def installed_bootable)

end

section \<open>The start-up\<close>

definition boot_shape :: "(handler \<times> cb_type \<times> u8 option) list" where
  "boot_shape = [(Call_stop, CB_IRET, None), (Default_iret, CB_IRET, None), (Dosiz_int21, CB_INT21, Some 0x21), (Dosiz_rm_stop, CB_IRET, None),
     (Dosiz_noop_retf, CB_RETF, None)] @ map (\<lambda>i. (Rmcb i, CB_RETF, None)) [0 ..< 32]
     @ [(Dosiz_int21_bits32, CB_IRETD, None), (Dosiz_int80, CB_IRETD, None), (Dosiz_int1a, CB_IRETD, None), (Dosiz_int1a, CB_IRET, Some 0x1A),
     (Dosiz_int60, CB_IRET, None), (Dosiz_int31, CB_IRET, Some 0x31), (Dosiz_int31_bits32, CB_IRETD, None), (Dosiz_le_exc_any32, CB_IRETD, None),
     (Dosiz_le_exc_any16, CB_IRET, None)] @ map (\<lambda>i. (Pm_exc i, CB_IRETD, None)) [0 ..< 32]
     @ [(Dosiz_pm_exc_ret, CB_IRETD, None), (Dosiz_dpmi_entry, CB_RETF, None), (Dosiz_int2f, CB_IRET, Some 0x2F), (Dosiz_int67, CB_IRET, Some 0x67),
     (Dosiz_int10, CB_IRET, Some 0x10), (Dosiz_int33, CB_IRET, Some 0x33), (Dosiz_xms_driver, CB_RETF, None), (Dosiz_int16, CB_IRET, Some 0x16),
     (Dosiz_int15, CB_IRET, Some 0x15)]"

text \<open>The handler each interrupt vector is for.\<close>

definition boot_vectors :: "(u8 \<times> handler) list" where
  "boot_vectors = [(0x21, Dosiz_int21), (0x1A, Dosiz_int1a), (0x31, Dosiz_int31), (0x2F, Dosiz_int2f), (0x67, Dosiz_int67),
     (0x10, Dosiz_int10), (0x33, Dosiz_int33), (0x16, Dosiz_int16), (0x15, Dosiz_int15)]"

definition vector_handler :: "u8 \<Rightarrow> handler" where
  "vector_handler v = (case map_of boot_vectors v of Some h \<Rightarrow> h | None \<Rightarrow> Default_iret)"

lemma boot_shape_vectors:
  "map (\<lambda>(h, ty, vec). (vec, h)) (filter (\<lambda>(h, ty, vec). vec \<noteq> None) boot_shape) = map (\<lambda>(v, h). (Some v, h)) boot_vectors"
  by (simp add: boot_shape_def boot_vectors_def filter_map comp_def)

lemma boot_shape_distinct: "distinct (filter (\<lambda>v. v \<noteq> None) (map (snd \<circ> snd) boot_shape))"
  by (simp add: boot_shape_def filter_map comp_def)

lemma boot_shape_sound:
  assumes "(h, ty, Some v) \<in> set boot_shape"
  shows "v \<noteq> 0x60 \<and> vector_handler v = h"
proof -
  have "(Some v, h) \<in> set (map (\<lambda>(h, ty, vec). (vec, h)) (filter (\<lambda>(h, ty, vec). vec \<noteq> None) boot_shape))"
    using assms by force
  then have "(v, h) \<in> set boot_vectors" unfolding boot_shape_vectors by auto
  moreover have "distinct (map fst boot_vectors)" "0x60 \<notin> fst ` set boot_vectors" by (simp_all add: boot_vectors_def)
  ultimately show ?thesis by (force simp: vector_handler_def)
qed

lemma boot_shape_complete:
  assumes "Some v \<notin> (snd \<circ> snd) ` set boot_shape"
  shows "vector_handler v = Default_iret"
proof -
  have "v \<notin> fst ` set boot_vectors"
  proof
    assume "v \<in> fst ` set boot_vectors"
    then obtain h where "(Some v, h) \<in> set (map (\<lambda>(v, h). (Some v, h)) boot_vectors)" by force
    then show False unfolding boot_shape_vectors [symmetric] using assms by force
  qed
  then have "map_of boot_vectors v = None" by (simp add: map_of_eq_None_iff)
  then show ?thesis by (simp add: vector_handler_def)
qed

lemma boot_shape_length: "length boot_shape = 87"
  by (simp add: boot_shape_def)

definition quiet_stores :: "'m emu88 \<Rightarrow> ('m, 'o, 'p, 'b, 'h, 'e, 'z) boot_scheme entry list \<Rightarrow> bool" where
  "quiet_stores E es \<longleftrightarrow> (\<forall>(h, ty, vec, store) \<in> set es. \<forall>p. quietly E (store p))"

lemma CALLBACK_Init_para [simp]: "dos_next_para (CALLBACK_Init E hs hi s) = dos_next_para s"
  by (simp add: CALLBACK_Init_def CALLBACK_Setup_def CALLBACK_Allocate_def case_prod_beta Let_def wr_def split: option.split del: upt_rec_numeral)

context emu88_engine
begin

lemma installed_Init:
  fixes s :: "('m, 'o, 'p, 'b, 'h, 'e, 'z) boot_scheme"
  assumes "bootable E s" and "g_cb_allocated s = (\<lambda>_. False)"
  shows "installed E (take 2 boot_shape) (CALLBACK_Init E Call_stop Default_iret s)"
proof -
  let ?t = "CALLBACK_Init E Call_stop Default_iret s"
  have ram: "rom_ram E (mem s)" "ivt_ram E (mem s)" using boot_ram_rom [of E "mem s"] assms(1) by (simp_all add: bootable_def)
  note t = CALLBACK_Init_tables [OF emu88_engine_axioms ram assms(2), of Call_stop Default_iret, unfolded Let_def]
  from t have "same_outside E (stub_area 1 \<union> stub_area 2 \<union> ivt_area \<union> rint_area) (mem s) (mem ?t)" by (elim conjE)
  from boot_ram_same [OF this] have "bootable E ?t" using assms(1) by (simp add: bootable_def)
  moreover have "take 2 boot_shape = [(Call_stop, CB_IRET, None), (Default_iret, CB_IRET, None)]" by (simp add: boot_shape_def)
  moreover have "mem_readd E (mem ?t) (ucast v * 4) = CALLBACK_RealPointer 2" for v :: u8
  proof -
    have "ucast v * 4 = (of_nat (unat v) * 4 :: u32)" by simp
    then show ?thesis using t unat_u8_less [of v] by metis
  qed
  moreover have "g_cb_handlers ?t (Suc 0) = Some Call_stop" "g_cb_handlers ?t (Suc (Suc 0)) = Some Default_iret"
    "bytes_at E (mem ?t) (CALLBACK_PhysPointer 1) (stub_bytes 1 CB_IRET)" "bytes_at E (mem ?t) (CALLBACK_PhysPointer 2) (stub_bytes 2 CB_IRET)"
    using t by (simp_all only: One_nat_def numeral_2_eq_2)
  ultimately show ?thesis
    by (auto simp: installed_def CALLBACK_Init_allocated [OF assms(2)] cb_at_def less_Suc_eq)
qed

lemma installed_program_init:
  fixes s :: "('m, 'o, 'p, 'b, 'h, 'e, 'z) boot_scheme"
  assumes "bootable E s" and "g_cb_allocated s = (\<lambda>_. False)"
  shows "installed E (take 2 boot_shape) (program_init E D cfg cwd window audio dump s)"
proof -
  let ?s = "in_video (reset_statics cfg cwd) s" and ?t = "CALLBACK_Init E Call_stop Default_iret (in_video (reset_statics cfg cwd) s)"
  have "bootable E ?s" "g_cb_allocated ?s = (\<lambda>_. False)" using assms by (simp_all add: bootable_def reset_statics_def Let_def)
  from installed_Init [OF this] have t: "installed E (take 2 boot_shape) ?t" .
  have "spares E ?t (program_init E D cfg cwd window audio dump s)"
    by (simp add: program_init_def Let_def spares_def TIMER_AddTickHandler_def)
  with t show ?thesis by (rule installed_quiet) (simp add: boot_shape_def)
qed

lemma install_part:
  fixes s :: "('m, 'o, 'p, 'b, 'h, 'e, 'z) boot_scheme"
  assumes "installed E (take n boot_shape) s" and "map strip es = take k (drop n boot_shape)" and "n + k \<le> 87"
    and "quiet_stores E es"
  shows "installed E (take (n + k) boot_shape) (install_all E es s)"
proof -
  have sh: "take (n + k) boot_shape = take n boot_shape @ map strip es" by (simp add: take_add assms(2))
  show ?thesis
    unfolding sh
  proof (rule installed_all [OF assms(1)])
    show "spares E s (store p s)" if "(h, ty, vec, store) \<in> set es" "bootable E s"
      for h ty vec store p and s :: "('m, 'o, 'p, 'b, 'h, 'e, 'z) boot_scheme"
      using assms(4) that by (auto simp: quiet_stores_def quietly_def)
    have "length es = k" using arg_cong [OF assms(2), of length] assms(3) by (simp add: boot_shape_length)
    then show "length (take n boot_shape) + length es < 249" using assms(3) by simp
    have "set (map strip es) \<subseteq> set boot_shape" unfolding assms(2) using set_take_subset set_drop_subset by fast
    then show "Some 0x60 \<notin> (snd \<circ> snd) ` set (map strip es)" using boot_shape_sound by force
    show "distinct (filter (\<lambda>v. v \<noteq> None) (map (snd \<circ> snd) (take n boot_shape @ map strip es)))"
      using boot_shape_distinct unfolding sh [symmetric]
      by (subst (asm) append_take_drop_id [of "n + k", symmetric]) (simp only: map_append filter_append distinct_append)
  qed
qed

lemma installed_boot:
  fixes s :: "('m, 'o, 'p, 'b, 'h, 'e, 'z) boot_scheme"
  assumes "installed E (take 2 boot_shape) s" and "svga_keeps E V" and "eth_open N ''slirp'' = None"
  shows "installed E boot_shape (boot_install E V N s)"
proof -
  have pkt: "quietly E (install_pktdrv E N p :: ('m, 'o, 'p, 'b, 'h, 'e, 'z) boot_scheme \<Rightarrow> _)" for p
    unfolding quietly_def using quiet_install_pktdrv [OF assms(3)] by blast
  have st: "quiet_stores E (boot_table1 E N :: ('m, 'o, 'p, 'b, 'h, 'e, 'z) boot_scheme entry list)"
    "quiet_stores E (boot_table2 :: ('m, 'o, 'p, 'b, 'h, 'e, 'z) boot_scheme entry list)"
    "quiet_stores E (boot_table3 :: ('m, 'o, 'p, 'b, 'h, 'e, 'z) boot_scheme entry list)"
    using pkt by (auto simp: quiet_stores_def boot_table1_def boot_table2_def boot_table3_def no_store_def quietly_def spares_def)
  have t: "map strip (boot_table1 E N :: ('m, 'o, 'p, 'b, 'h, 'e, 'z) boot_scheme entry list) = take 40 (drop 2 boot_shape)"
    "map strip (boot_table2 :: ('m, 'o, 'p, 'b, 'h, 'e, 'z) boot_scheme entry list) = take 39 (drop 42 boot_shape)"
    "map strip (boot_table3 :: ('m, 'o, 'p, 'b, 'h, 'e, 'z) boot_scheme entry list) = take 4 (drop 83 boot_shape)"
    by (simp_all add: boot_table1_def boot_table2_def boot_table3_def boot_shape_def strip_def)
  define s1 where "s1 = install_all E (boot_table1 E N) s"
  have "installed E (take (2 + 40) boot_shape) s1" unfolding s1_def by (rule install_part [OF assms(1) t(1) _ st(1)]) simp
  then have s1: "installed E (take 42 boot_shape) s1" by simp
  define s2 where "s2 = install_all E boot_table2 s1"
  have "installed E (take (42 + 39) boot_shape) s2" unfolding s2_def by (rule install_part [OF s1 t(2) _ st(2)]) simp
  then have s2: "installed E (take 81 boot_shape) s2" by simp
  have one: "quiet_stores E [(h, ty, vec, no_store :: _ \<Rightarrow> ('m, 'o, 'p, 'b, 'h, 'e, 'z) boot_scheme \<Rightarrow> _)]" for h ty vec
    by (simp add: quiet_stores_def quietly_def no_store_def)
  have "quietly E (in_ems ems_reset :: ('m, 'o, 'p, 'b, 'h, 'e, 'z) boot_scheme \<Rightarrow> _)"
    by (simp add: quietly_def spares_def ems_reset_def Let_def)
  from installed_quietly [OF s2 this] have s3: "installed E (take 81 boot_shape) (in_ems ems_reset s2)" by simp
  define s4 where "s4 = install_all E [(Dosiz_int67, CB_IRET, Some 0x67, no_store)] (in_ems ems_reset s2)"
  have "installed E (take (81 + 1) boot_shape) s4"
    unfolding s4_def by (rule install_part [OF s3 _ _ one]) (simp_all add: boot_shape_def strip_def)
  then have s4: "installed E (take 82 boot_shape) s4" by simp
  define s5 where "s5 = wr (video_bda E) (in_video (video_init E V) s4)"
  have "quietly E (in_video (video_init E V) :: ('m, 'o, 'p, 'b, 'h, 'e, 'z) boot_scheme \<Rightarrow> _)"
    unfolding quietly_def using quiet_video_init [OF assms(2)] by blast
  from installed_quietly [OF installed_quietly [OF s4 this] quietly_wr [OF quiet_video_bda]]
  have s5: "installed E (take 82 boot_shape) s5" by (simp add: s5_def)
  define s6 where "s6 = install_all E [(Dosiz_int10, CB_IRET, Some 0x10, no_store)] s5"
  have "installed E (take (82 + 1) boot_shape) s6"
    unfolding s6_def by (rule install_part [OF s5 _ _ one]) (simp_all add: boot_shape_def strip_def)
  from installed_quiet [OF this quiet_tick] have s6: "installed E (take 83 boot_shape) (TIMER_AddTickHandler (Some Dosiz_video_tick) s6)" by simp
  define s7 where "s7 = install_all E boot_table3 (TIMER_AddTickHandler (Some Dosiz_video_tick) s6)"
  have "installed E (take (83 + 4) boot_shape) s7" unfolding s7_def by (rule install_part [OF s6 t(3) _ st(3)]) simp
  then have s7: "installed E boot_shape s7" by (simp add: boot_shape_length)
  have "quiet_mem E (mem_writed E 0x46C 0x000F0000)" by (rule quiet_writed) (simp add: scratch_ram_def)
  note w = quietly_wr [OF this]
  have len: "length boot_shape < 249" by (simp add: boot_shape_length)
  note s8 = installed_quiet [OF s7 quiet_tick [where h = "Some Dosiz_screenshot_tick"] len]
  note s9 = installed_quiet [OF installed_quietly [OF s8 w len] quiet_tick [where h = "Some Dosiz_bios_timer_tick"] len]
  show ?thesis
    using s9 by (simp add: boot_install_def Let_def s7_def s6_def s5_def s4_def s2_def s1_def install_all_def)
qed

end

section \<open>From a vector to its handler\<close>

lemma installed_vector:
  fixes t :: "('m, 'o, 'p, 'b, 'h, 'e, 'z) boot_scheme" and C :: "('m, 'c) emu_cpu"
  assumes "installed E boot_shape t" and "v \<noteq> 0x60"
  shows "\<exists>cb ty. mem_readd E (mem t) (ucast v * 4) = CALLBACK_RealPointer cb
      \<and> (\<forall>u :: ('m, 'o, 'p, 'b, 'h, 'e, 'z) boot_scheme. fetch_mem E (mem u) = fetch_mem E (mem t) \<and> g_cb_handlers u = g_cb_handlers t
           \<and> \<not> paging_enabled C (mem u) \<and> seg_cache_base E (mem u) CS + get_ip C (mem u) = stub_entry cb ty \<longrightarrow>
         cpu_step E C call u = invoke C call (vector_handler v) ((sync_from_emu E C u)\<lparr>reg_eip := get_ip C (mem u) + 4\<rparr>))"
proof -
  obtain i ty vec where i: "i < length boot_shape" "boot_shape ! i = (vector_handler v, ty, vec)"
    and rd: "mem_readd E (mem t) (ucast v * 4) = CALLBACK_RealPointer (cb_at i)"
  proof (cases "Some v \<in> (snd \<circ> snd) ` set boot_shape")
    case True
    then obtain h ty where "(h, ty, Some v) \<in> set boot_shape" by force
    then obtain i where "i < length boot_shape" "boot_shape ! i = (h, ty, Some v)" by (auto simp: in_set_conv_nth)
    moreover from this have "h = vector_handler v" using boot_shape_sound nth_mem by metis
    ultimately show thesis using that [of i ty "Some v"] assms(1) by (auto simp: installed_def)
  next
    case False
    then have "vector_handler v = Default_iret" by (rule boot_shape_complete)
    moreover have "boot_shape ! 1 = (Default_iret, CB_IRET, None)" by (simp add: boot_shape_def)
    moreover have "mem_readd E (mem t) (ucast v * 4) = CALLBACK_RealPointer 2" using assms False unfolding installed_def by blast
    ultimately show thesis using that [of 1] by (simp add: boot_shape_length cb_at_def)
  qed
  have cb: "unat (cb_at i) = Suc i" "Suc i < CB_MAX"
    using i(1) by (simp_all add: cb_at_def unat_of_nat_u8 boot_shape_length CB_MAX_def del: of_nat_Suc)
  have h: "g_cb_handlers t (Suc i) = Some (vector_handler v)"
    and b: "bytes_at E (mem t) (CALLBACK_PhysPointer (cb_at i)) (stub_bytes (cb_at i) ty)"
    using assms(1) i by (auto simp: installed_def)
  have "cpu_step E C call u = invoke C call (vector_handler v) ((sync_from_emu E C u)\<lparr>reg_eip := get_ip C (mem u) + 4\<rparr>)"
    if u: "fetch_mem E (mem u) = fetch_mem E (mem t)" "g_cb_handlers u = g_cb_handlers t" "\<not> paging_enabled C (mem u)"
      "seg_cache_base E (mem u) CS + get_ip C (mem u) = stub_entry (cb_at i) ty" for u :: "('m, 'o, 'p, 'b, 'h, 'e, 'z) boot_scheme"
  proof -
    have "bytes_at E (mem u) (CALLBACK_PhysPointer (cb_at i)) (stub_bytes (cb_at i) ty)"
      using b u(1) by (simp add: bytes_at_def mem_readb_def)
    from stub_number [OF this u(3,4)] cb h u(2) show ?thesis by (intro cpu_step_handler) simp_all
  qed
  with rd show ?thesis by blast
qed

lemma boot_installed:
  assumes "emu88_engine E" and "boot_ram E (mem s)" and "svga_keeps E V" and "eth_open N ''slirp'' = None"
    and "0x40 \<le> unat (dos_next_para s)" and "g_cb_allocated s = (\<lambda>_. False)"
  shows "installed E boot_shape (boot_install E V N (program_init E D cfg cwd window audio dump s))"
proof -
  have "bootable E s" using assms(2,5) by (simp add: bootable_def)
  from emu88_engine.installed_program_init [OF assms(1) this assms(6)] show ?thesis
    by (rule emu88_engine.installed_boot [OF assms(1) _ assms(3,4)])
qed

section \<open>Properties\<close>

text \<open>C33: the interrupt vectors after start-up. From a machine with nothing installed, the set-up of \<open>run_program\<close> followed by that of
  \<open>dosiz_startup\<close> (87 callbacks installed one after the other, with the BIOS data area, the VESA ROM, the text screen and the packet
  driver's stub written in between) leaves every vector but 60h pointing to the stub of a callback whose handler is the one meant for
  that interrupt, the default one where none is: a CPU at the native opcode of that stub, with memory and the tables as they are then, runs
  that handler.\<close>

theorem startup_vectors:
  fixes s :: "('m, 'o, 'p, 'b, 'h, 'e, 'z) boot_scheme" and C :: "('m, 'c) emu_cpu"
  assumes "emu88_engine E" and "boot_ram E (mem s)" and "svga_keeps E V" and "eth_open N ''slirp'' = None"
    and "0x40 \<le> unat (dos_next_para s)" and "g_cb_allocated s = (\<lambda>_. False)" and "v \<noteq> 0x60"
  shows "let t = boot_install E V N (program_init E D cfg cwd window audio dump s) in
    \<exists>cb ty. mem_readd E (mem t) (ucast v * 4) = CALLBACK_RealPointer cb
      \<and> (\<forall>u :: ('m, 'o, 'p, 'b, 'h, 'e, 'z) boot_scheme. fetch_mem E (mem u) = fetch_mem E (mem t) \<and> g_cb_handlers u = g_cb_handlers t
           \<and> \<not> paging_enabled C (mem u) \<and> seg_cache_base E (mem u) CS + get_ip C (mem u) = stub_entry cb ty \<longrightarrow>
         cpu_step E C call u = invoke C call (vector_handler v) ((sync_from_emu E C u)\<lparr>reg_eip := get_ip C (mem u) + 4\<rparr>))"
  unfolding Let_def by (rule installed_vector [OF boot_installed [OF assms(1-6)] assms(7)])

section \<open>A concrete start\<close>

definition pc_svga :: "pc_state svga" where
  "pc_svga = \<lparr>svga_base = (\<lambda>_. None), svga_vram_size = (\<lambda>_. 0), svga_ensure = (\<lambda>_ m. m), svga_zero = (\<lambda>m. m),
     set_svga_active = (\<lambda>_ m. m), set_vga_planar = (\<lambda>_ m. m), set_vga_map_mask = (\<lambda>_ m. m), set_vga_read_map = (\<lambda>_ m. m),
     svga_window_off = (\<lambda>_. 0), set_svga_window_off = (\<lambda>_ m. m), set_svga_lfb_phys = (\<lambda>_ m. m)\<rparr>"

definition no_ethernet :: "unit ethernet" where
  "no_ethernet = \<lparr>eth_open = (\<lambda>_. None), eth_send = (\<lambda>_ e. ([], e)), eth_get = (\<lambda>e. ([], e))\<rparr>"

definition video_static :: "(u32 \<Rightarrow> u8, int list \<times> u8 list) video" where
  "video_static = dos.extend (sample_dos (\<lambda>_. 0)) (video.fields
     \<lparr>g_mode = 3, dac = (\<lambda>_ _. 0), dac_widx = 0, dac_comp = 0, dac_ridx = 0, dac_rcomp = 0, pel_mask = 0xFF\<rparr>
     \<lparr>vs_active = False, vs_mode = 0, vs_xres = 0, vs_yres = 0, vs_bpp = 0, vs_stride = 0, vs_display_start = 0\<rparr>
     \<lparr>host_x = 0, host_y = 0, host_buttons = 0, mouse_x = 0, mouse_y = 0, mouse_buttons = 0, mouse_visible = False, min_x = 0,
      max_x = 639, min_y = 0, max_y = 199, press_count = (\<lambda>_. 0), release_count = (\<lambda>_. 0), press_x = (\<lambda>_. 0), press_y = (\<lambda>_. 0),
      release_x = (\<lambda>_. 0), release_y = (\<lambda>_. 0)\<rparr>)"

definition boot_start :: "(pc_state, unit, unit, unit, int list \<times> u8 list, unit) boot" where
  "boot_start = shim.extend (machine.extend pc_start (shim.fields (\<lambda>_. None) (\<lambda>_. False) 0 0 False 0 [] 0 False hw_static))
     (boot.fields False \<lparr>s_pm_busy = [], s_pm_initialised = False, s_pm_end = 0\<rparr> (arenas.more pm_start) (arenas.more video_static)
       (machine.more (ems_boot 0 0 0)) (arenas.more (xms_client 0 0)) (machine.more net_start) 0 0 0 0x60)"

theorem startup_vectors_witness:
  "\<exists>cb. mem_readd pc (mem (boot_install pc pc_svga no_ethernet (program_init pc sample_chips sample_config (Some ''/'') True False False boot_start)))
      (ucast (0x33 :: u8) * 4) = CALLBACK_RealPointer cb"
proof -
  have st: "0x40 \<le> unat (dos_next_para boot_start)" "g_cb_allocated boot_start = (\<lambda>_. False)"
    by (simp_all add: boot_start_def shim.defs machine.defs boot.defs)
  have ram: "boot_ram pc (mem boot_start)" and keeps: "svga_keeps pc pc_svga" and net: "eth_open no_ethernet ''slirp'' = None"
    by (simp_all add: boot_ram_def pc_def svga_keeps_def pc_svga_def no_ethernet_def)
  have "(0x33 :: u8) \<noteq> 0x60" by simp
  from startup_vectors [OF pc_ram.emu88_engine_axioms ram keeps net st this, where C = pc_cpu and call = "\<lambda>_ s. Some (True, s)"]
  show ?thesis unfolding Let_def by fast
qed

end
