(* ===== verification/System.thy ===== *)
theory System
  imports Startup Int21
begin

text \<open>
  The emulator as one machine: what each installed handler is. \<open>dosiz_call\<close> gives the run loop the handlers of the components, each on
  its view of the state of the whole program, and \<open>nested_run\<close> is \<open>DOSBOX_RunMachine\<close> with these handlers, which may run the machine
  again (child processes, real-mode calls and callbacks) up to a given depth. Shown: the depth does not matter once it is
  enough, and a program that asks to end, ends, with its exit code.
\<close>

section \<open>The state of the running program\<close>

text \<open>The start-up's state with the static variables of the exception dispatcher and of the screenshot tick.\<close>

record ('m, 'o, 'p, 'b, 'h, 'e) system = "('m, 'o, 'p, 'b, 'h, 'e) boot" +
  exc_guard :: guard
  shot :: screenshot

text \<open>Everything outside the repository's code: the engine, the host and the window. \<open>h_tick\<close> is \<open>dosiz_video_tick\<close>, which shows a frame
  when one is due, \<open>h_prep\<close> is \<open>le_launch_pm_prep\<close> with the ports behind it.\<close>

record ('m, 'c, 'o, 'p, 'b, 'h, 'e) host =
  h_emu :: "'m emu88"
  h_cpu :: "('m, 'c) emu_cpu"
  h_svga :: "'m svga"
  h_eth :: "'e ethernet"
  h_dev :: "('o, 'p, 'b) devices"
  h_os :: "'h os"
  h_env :: "string \<Rightarrow> string option"
  h_file :: "'h \<Rightarrow> string \<Rightarrow> u8 list"
  h_prep :: "bool \<Rightarrow> 'm dpmi_host \<Rightarrow> 'm dpmi_host"
  h_dbg :: debug_settings
  h_present :: "('m, 'h) video \<Rightarrow> ('m, 'h) video"
  h_pump :: "('m, 'h) video \<Rightarrow> ('m, 'h) video"
  h_tick :: "('m, 'h) video \<Rightarrow> ('m, 'h) video"

section \<open>Views\<close>

text \<open>\<open>shutdown_requested\<close> is one variable of the code, which both the run loop and the DOS services use.\<close>

definition video_view :: "('m, 'o, 'p, 'b, 'h, 'e, 'z) boot_scheme \<Rightarrow> ('m, 'h) video" where
  "video_view s = (arenas.extend (arenas_of s) (b_video s))\<lparr>dos.shutdown_requested := shim.shutdown_requested s\<rparr>"

definition put_video :: "('m, 'h) video \<Rightarrow> ('m, 'o, 'p, 'b, 'h, 'e, 'z) boot_scheme \<Rightarrow> ('m, 'o, 'p, 'b, 'h, 'e, 'z) boot_scheme" where
  "put_video d s = (with_arenas d s)\<lparr>b_video := arenas.more d, shim.shutdown_requested := dos.shutdown_requested d\<rparr>"

definition xms_view :: "('m, 'o, 'p, 'b, 'h, 'e, 'z) boot_scheme \<Rightarrow> 'm xms" where
  "xms_view s = arenas.extend (arenas_of s) (b_xms s)"

text \<open>The kernel's and the DPMI host's state with the whole program behind it, for the handlers that run the machine.\<close>

definition kernel_view :: "('m, 'o, 'p, 'b, 'h, 'e) system \<Rightarrow> ('m, 'h, ('m, 'o, 'p, 'b, 'h, 'e) system) kernel_scheme" where
  "kernel_view s = kernel.extend (dos.extend (dos.truncate (video_view s)) (kernel.fields (b_dpmi s) (s_extender_bound (xms_view s)))) s"

definition put_kernel :: "('m, 'h, ('m, 'o, 'p, 'b, 'h, 'e) system) kernel_scheme \<Rightarrow> ('m, 'o, 'p, 'b, 'h, 'e) system" where
  "put_kernel k = (let
     s = kernel.more k;
     s = put_video (dos.extend (dos.truncate k) (dos.more (video_view s))) s;
     s = s\<lparr>b_dpmi := dpmi_vars k\<rparr>
   in in_xms (\<lambda>x. x\<lparr>s_extender_bound := extender_flag k\<rparr>) s)"

definition dpmi_all :: "('m, 'o, 'p, 'b, 'h, 'e) system \<Rightarrow> ('m, ('m, 'o, 'p, 'b, 'h, 'e) system) dpmi_scheme" where
  "dpmi_all s = dpmi.extend (dpmi.truncate (dpmi_view s)) s"

definition put_dpmi_all :: "('m, ('m, 'o, 'p, 'b, 'h, 'e) system) dpmi_scheme \<Rightarrow> ('m, 'o, 'p, 'b, 'h, 'e) system" where
  "put_dpmi_all d = (let s = dpmi.more d in put_dpmi (dpmi.extend (dpmi.truncate d) (dpmi.more (dpmi_view s))) s)"

section \<open>The handlers\<close>

definition stay :: "'s \<Rightarrow> (bool \<times> 's) option" where "stay s = Some (False, s)"

definition child_exited :: "('m, 'o, 'p, 'b, 'h, 'e) system \<Rightarrow> bool" where
  "child_exited s = s_child_exit_pending (video_view s)"

definition sys_exec ::
  "('m, 'c, 'o, 'p, 'b, 'h, 'e) host \<Rightarrow> (('m, 'o, 'p, 'b, 'h, 'e) system \<Rightarrow> ('m, 'o, 'p, 'b, 'h, 'e) system option) \<Rightarrow> string
     \<Rightarrow> ('m, 'h, ('m, 'o, 'p, 'b, 'h, 'e) system) kernel_scheme \<Rightarrow> ('m, 'h, ('m, 'o, 'p, 'b, 'h, 'e) system) kernel_scheme option" where
  "sys_exec P nest = dos_exec (h_emu P) (h_cpu P) (h_env P) (h_file P) (h_prep P) (\<lambda>k. map_option kernel_view (nest (put_kernel k)))"

definition sys_int21 ::
  "('m, 'c, 'o, 'p, 'b, 'h, 'e) host \<Rightarrow> (('m, 'o, 'p, 'b, 'h, 'e) system \<Rightarrow> ('m, 'o, 'p, 'b, 'h, 'e) system option)
     \<Rightarrow> ('m, 'o, 'p, 'b, 'h, 'e) system \<Rightarrow> (bool \<times> ('m, 'o, 'p, 'b, 'h, 'e) system) option" where
  "sys_int21 P nest s = map_option (map_prod id put_kernel) (dosiz_int21 (h_emu P) (h_os P) (sys_exec P nest) (kernel_view s))"

text \<open>The three services that run real-mode code work on the whole state, the others on the DPMI host's.\<close>

definition sys_int31 ::
  "('m, 'c, 'o, 'p, 'b, 'h, 'e) host \<Rightarrow> (('m, 'o, 'p, 'b, 'h, 'e) system \<Rightarrow> ('m, 'o, 'p, 'b, 'h, 'e) system option)
     \<Rightarrow> ('m, 'o, 'p, 'b, 'h, 'e) system \<Rightarrow> (bool \<times> ('m, 'o, 'p, 'b, 'h, 'e) system) option" where
  "sys_int31 P nest s = (let E = h_emu P; C = h_cpu P in
     if reg_ax s = 0x0300 then int31_0300 E C nest child_exited s
     else if reg_ax s = 0x0301 then map_option (Pair False) (int31_0301 E C nest (g_call_stop s) s)
     else if reg_ax s = 0x0302 then map_option (Pair False) (int31_0302 E C nest (s_rm_stop_ptr s) s)
     else map_option (\<lambda>d. (False, put_dpmi (dpmi.extend d (dpmi.more (dpmi_view s))) s))
       (dosiz_int31 E (\<lambda>_ _. None) (dpmi.truncate (dpmi_view s))))"

text \<open>The same handler behind a 32-bit gate.\<close>

definition with_bits32 ::
  "(('m, 'o, 'p, 'b, 'h, 'e) system \<Rightarrow> (bool \<times> ('m, 'o, 'p, 'b, 'h, 'e) system) option)
     \<Rightarrow> ('m, 'o, 'p, 'b, 'h, 'e) system \<Rightarrow> (bool \<times> ('m, 'o, 'p, 'b, 'h, 'e) system) option" where
  "with_bits32 f s = map_option (map_prod id (\<lambda>t. t\<lparr>s_int_gate_bits32 := s_int_gate_bits32 s\<rparr>)) (f (s\<lparr>s_int_gate_bits32 := True\<rparr>))"

definition le_fault :: "('m, 'o, 'p, 'b, 'h, 'e) system \<Rightarrow> (bool \<times> ('m, 'o, 'p, 'b, 'h, 'e) system) option" where
  "le_fault s = Some (True, put_video ((video_view s)\<lparr>s_exit_code := 1, dos.shutdown_requested := True\<rparr>) s)"

definition sys_exception ::
  "'m emu88 \<Rightarrow> nat \<Rightarrow> ('m, 'o, 'p, 'b, 'h, 'e) system \<Rightarrow> (bool \<times> ('m, 'o, 'p, 'b, 'h, 'e) system) option" where
  "sys_exception E v s = (case dosiz_pm_exc_dispatch E v (exc_guard s) (dpmi_view s) of (r, gd, d) \<Rightarrow>
     let s = (put_dpmi d s)\<lparr>exc_guard := gd\<rparr> in
     case r of Terminate \<Rightarrow> Some (True, s) | LeFault _ \<Rightarrow> le_fault s | Handled \<Rightarrow> stay s)"

definition sys_int67 ::
  "'m emu88 \<Rightarrow> ('m, 'o, 'p, 'b, 'h, 'e) system \<Rightarrow> (bool \<times> ('m, 'o, 'p, 'b, 'h, 'e) system) option" where
  "sys_int67 E s = map_option (\<lambda>d. (False, (with_machine d s)\<lparr>b_ems := machine.more d\<rparr>))
     (dosiz_int67 E (machine.extend (machine.truncate s) (b_ems s)))"

definition sys_screenshot ::
  "(string \<Rightarrow> string option) \<Rightarrow> ('m, 'o, 'p, 'b, 'h, 'e) system \<Rightarrow> ('m, 'o, 'p, 'b, 'h, 'e) system" where
  "sys_screenshot env s = s\<lparr>shot := snd (dosiz_screenshot_tick (env ''DOSIZ_SCREENSHOT_SECS'') (shot s))\<rparr>"

text \<open>What the handlers are; the result says whether the handler returned CBRET_STOP. \<open>nest\<close> is the run of the machine inside a handler.\<close>

definition dosiz_call ::
  "('m, 'c, 'o, 'p, 'b, 'h, 'e) host \<Rightarrow> (('m, 'o, 'p, 'b, 'h, 'e) system \<Rightarrow> ('m, 'o, 'p, 'b, 'h, 'e) system option) \<Rightarrow> handler
     \<Rightarrow> ('m, 'o, 'p, 'b, 'h, 'e) system \<Rightarrow> (bool \<times> ('m, 'o, 'p, 'b, 'h, 'e) system) option" where
  "dosiz_call P nest h s = (let E = h_emu P; C = h_cpu P in case h of
     Call_stop \<Rightarrow> Some (True, s)
   | Default_iret \<Rightarrow> stay s
   | Dosiz_int21 \<Rightarrow> sys_int21 P nest s
   | Dosiz_rm_stop \<Rightarrow> Some (True, s)
   | Dosiz_noop_retf \<Rightarrow> stay s
   | Rmcb i \<Rightarrow> map_option (\<lambda>d. (False, put_dpmi_all d))
       (do_rm_callback E C (\<lambda>d. map_option dpmi_all (nest (put_dpmi_all d))) (s_rm_stop_ptr s) i (dpmi_all s))
   | Dosiz_int21_bits32 \<Rightarrow> with_bits32 (sys_int21 P nest) s
   | Dosiz_int80 \<Rightarrow> map_option (Pair False) (dosiz_int80 s)
   | Dosiz_int1a \<Rightarrow> stay (dosiz_int1a E s)
   | Dosiz_int60 \<Rightarrow> stay (in_net (dosiz_int60 E (h_eth P)) s)
   | Dosiz_int31 \<Rightarrow> sys_int31 P nest s
   | Dosiz_int31_bits32 \<Rightarrow> with_bits32 (sys_int31 P nest) s
   | Dosiz_le_exc_any32 \<Rightarrow> le_fault s
   | Dosiz_le_exc_any16 \<Rightarrow> le_fault s
   | Pm_exc v \<Rightarrow> sys_exception E v s
   | Dosiz_pm_exc_ret \<Rightarrow> stay (dosiz_pm_exc_ret E s)
   | Dosiz_dpmi_entry \<Rightarrow> stay (in_dpmi (dosiz_dpmi_entry E C (h_dbg P)) s)
   | Dosiz_int2f \<Rightarrow> stay (in_xms (dosiz_int2f E) s)
   | Dosiz_int67 \<Rightarrow> sys_int67 E s
   | Dosiz_int10 \<Rightarrow> stay (put_video (dosiz_int10 E (h_os P) (h_svga P) (video_view s)) s)
   | Dosiz_int33 \<Rightarrow> stay (put_video (dosiz_int33 (video_view s)) s)
   | Dosiz_xms_driver \<Rightarrow> stay (in_xms (dosiz_xms_driver E) s)
   | Dosiz_int16 \<Rightarrow> map_option (\<lambda>d. (False, put_video d s)) (dosiz_int16 E (h_os P) (h_present P) (h_pump P) (video_view s))
   | Dosiz_int15 \<Rightarrow> stay (dosiz_int15 E (hw_st s) s)
   | Dosiz_pktdrv_tick \<Rightarrow> stay (in_net (dosiz_pktdrv_tick E (h_eth P)) s)
   | Dosiz_video_tick \<Rightarrow> stay (put_video (h_tick P (video_view s)) s)
   | Dosiz_screenshot_tick \<Rightarrow> stay (sys_screenshot (h_env P) s)
   | Dosiz_bios_timer_tick \<Rightarrow> stay (wr (dosiz_bios_timer_tick E) s)
   | Audio_tick \<Rightarrow> stay (s\<lparr>hw_st := audio_tick (h_dev P) (mem_readb E (mem s)) (hw_st s)\<rparr>))"

text \<open>Runs inside handlers at most \<open>n\<close> deep.\<close>

primrec nested_run ::
  "('m, 'c, 'o, 'p, 'b, 'h, 'e) host \<Rightarrow> nat \<Rightarrow> ('m, 'o, 'p, 'b, 'h, 'e) system \<Rightarrow> ('m, 'o, 'p, 'b, 'h, 'e) system option" where
  "nested_run P 0 = (\<lambda>_. None)"
| "nested_run P (Suc n) = DOSBOX_RunMachine (h_emu P) (h_cpu P) (dosiz_call P (nested_run P n))"

section \<open>The views lose nothing\<close>

text \<open>The two copies of the shutdown flag agree.\<close>

definition synced :: "('m, 'o, 'p, 'b, 'h, 'e, 'z) boot_scheme \<Rightarrow> bool" where
  "synced s \<longleftrightarrow> dos.shutdown_requested (arenas.extend (arenas_of s) (b_video s)) = shim.shutdown_requested s"

lemma put_video_view: "synced s \<Longrightarrow> put_video (video_view s) s = s"
proof -
  assume sy: "synced s"
  have same: "d\<lparr>dos.shutdown_requested := b\<rparr> = d" if "dos.shutdown_requested d = b" for d :: "('m, 'h) video" and b
    using that by (cases d) simp
  have v: "video_view s = arenas.extend (arenas_of s) (b_video s)"
    using sy by (simp add: video_view_def synced_def same)
  have "put_video (video_view s) s = s\<lparr>shim.shutdown_requested := dos.shutdown_requested (video_view s)\<rparr>"
    unfolding v by (cases s) (simp add: put_video_def with_arenas_def with_machine_def arenas_of_def machine.defs arenas.defs)
  also have "... = s" using sy unfolding v synced_def by simp
  finally show ?thesis .
qed

lemma in_xms_same: "f (xms_view s) = xms_view s \<Longrightarrow> in_xms f s = s"
  by (cases s) (simp add: in_xms_def xms_view_def with_arenas_def with_machine_def arenas_of_def machine.defs arenas.defs)

lemma kernel_view_more [simp]: "kernel.more (kernel_view s) = s"
  by (simp add: kernel_view_def kernel.defs)

lemma put_kernel_view: "synced s \<Longrightarrow> put_kernel (kernel_view s) = s"
proof -
  have v: "dos.extend (dos.truncate (kernel_view s)) (dos.more (video_view s)) = video_view s"
    by (cases "video_view s") (simp add: kernel_view_def dos.defs kernel.defs)
  have k: "dpmi_vars (kernel_view s) = b_dpmi s" "extender_flag (kernel_view s) = s_extender_bound (xms_view s)"
    by (simp_all add: kernel_view_def dos.defs kernel.defs)
  show "synced s \<Longrightarrow> ?thesis" by (simp add: put_kernel_def v k in_xms_same put_video_view)
qed

lemma put_dpmi_view [simp]: "put_dpmi (dpmi_view s) s = s"
  by (cases s) (simp add: put_dpmi_def dpmi_view_def with_arenas_def with_machine_def arenas_of_def machine.defs arenas.defs)

lemma put_dpmi_all_view [simp]: "put_dpmi_all (dpmi_all s) = s"
proof -
  have "dpmi.extend (dpmi.truncate (dpmi_all s)) (dpmi.more (dpmi_view s)) = dpmi_view s" "dpmi.more (dpmi_all s) = s"
    by (cases "dpmi_view s"; simp add: dpmi_all_def dpmi.defs)+
  then show ?thesis by (simp add: put_dpmi_all_def)
qed

section \<open>Deeper runs change nothing\<close>

text \<open>\<open>f\<close> returns where \<open>f\<close> does, with the same result.\<close>

definition below :: "('a \<Rightarrow> 'b option) \<Rightarrow> ('a \<Rightarrow> 'b option) \<Rightarrow> bool" where
  "below f h \<longleftrightarrow> (\<forall>x y. f x = Some y \<longrightarrow> h x = Some y)"

lemma belowD: "\<lbrakk>below f h; f x = Some y\<rbrakk> \<Longrightarrow> h x = Some y"
  by (simp add: below_def)

lemma below_refl [simp]: "below f f" by (simp add: below_def)

named_theorems below_intros \<open>operations that take a run\<close>

lemma below_map [below_intros]: "below n n' \<Longrightarrow> below (\<lambda>x. map_option f (n (h x))) (\<lambda>x. map_option f (n' (h x)))"
  by (auto simp: below_def)

lemma below_run_from: "below n n' \<Longrightarrow> below (run_from E n sg off) (run_from E n' sg off)"
  by (auto simp: below_def run_from_def Let_def)

lemma below_far: "below n n' \<Longrightarrow> below (CALLBACK_RunRealFar E n stop sg off) (CALLBACK_RunRealFar E n' stop sg off)"
  using belowD [OF below_run_from] by (auto simp: below_def [of "CALLBACK_RunRealFar E n stop sg off"] CALLBACK_RunRealFar_def Let_def)

lemma below_int: "below n n' \<Longrightarrow> below (CALLBACK_RunRealInt E n v) (CALLBACK_RunRealInt E n' v)"
  unfolding CALLBACK_RunRealInt_def by (rule below_run_from)

lemma below_int31 [below_intros]:
  assumes "below n n'"
  shows "below (int31_0300 E C n ex) (int31_0300 E C n' ex)" "below (int31_0301 E C n st) (int31_0301 E C n' st)"
    "below (int31_0302 E C n rs) (int31_0302 E C n' rs)"
  using belowD [OF below_int [OF assms]] belowD [OF below_far [OF assms]] belowD [OF assms]
  by (auto simp: below_def int31_0300_def int31_0301_def int31_0302_def Let_def split: option.splits)

lemma below_rm_callback [below_intros]: "below n n' \<Longrightarrow> below (do_rm_callback E C n rs i) (do_rm_callback E C n' rs i)"
  by (auto simp: below_def do_rm_callback_def Let_def)

lemma below_run_child: "below n n' \<Longrightarrow> below (run_child E C n r psp env) (run_child E C n' r psp env)"
  by (auto simp: below_def run_child_def Let_def split: option.splits)

lemma below_exec [below_intros]: "below n n' \<Longrightarrow> below (dos_exec E C env file prep n path) (dos_exec E C env file prep n' path)"
  using belowD [OF below_run_child] by (auto simp: below_def dos_exec_def exec_loaded_def Let_def split: option.splits prod.splits if_splits)

lemma below_int21 [below_intros]:
  assumes "\<And>p. below (ex p) (ex' p)"
  shows "below (dosiz_int21 E OS ex) (dosiz_int21 E OS ex')"
  unfolding below_def
proof (intro allI impI)
  fix s r assume r: "dosiz_int21 E OS ex s = Some r"
  show "dosiz_int21 E OS ex' s = Some r"
  proof (cases "reg_ah s = 0x4B")
    case True
    then have eq: "dosiz_int21 E OS e s = map_option (Pair False) (int21_4B E OS e s)" for e by (simp add: dosiz_int21_def)
    have "int21_4B E OS ex s = Some y \<Longrightarrow> int21_4B E OS ex' s = Some y" for y
      by (auto simp: int21_4B_def Let_def split: if_splits intro: belowD [OF assms])
    then show ?thesis using r by (auto simp: eq)
  next
    case False
    then have "dosiz_int21 E OS ex' s = dosiz_int21 E OS ex s" by (simp add: dosiz_int21_def Let_def)
    with r show ?thesis by simp
  qed
qed

lemma below_sys_exec: "below n n' \<Longrightarrow> below (sys_exec P n p) (sys_exec P n' p)"
  unfolding sys_exec_def by (intro below_exec below_map)

lemma below_sys_int21: "below n n' \<Longrightarrow> below (sys_int21 P n) (sys_int21 P n')"
  unfolding sys_int21_def [abs_def] by (intro below_map below_int21 below_sys_exec)

lemma below_sys_int31: "below n n' \<Longrightarrow> below (sys_int31 P n) (sys_int31 P n')"
  using belowD [OF below_int31(1)] belowD [OF below_int31(2)] belowD [OF below_int31(3)]
  by (auto simp: below_def [of "sys_int31 P n"] sys_int31_def Let_def)

lemma below_bits32: "below f f' \<Longrightarrow> below (with_bits32 f) (with_bits32 f')"
  by (auto simp: below_def with_bits32_def)

lemma below_rmcb:
  "below n n' \<Longrightarrow> below (\<lambda>s. map_option (\<lambda>d. (False, put_dpmi_all d)) (do_rm_callback E C (\<lambda>d. map_option dpmi_all (n (put_dpmi_all d))) rs i (dpmi_all s)))
     (\<lambda>s. map_option (\<lambda>d. (False, put_dpmi_all d)) (do_rm_callback E C (\<lambda>d. map_option dpmi_all (n' (put_dpmi_all d))) rs i (dpmi_all s)))"
  by (intro below_map below_rm_callback)

lemma below_call:
  assumes "below n n'" and "dosiz_call P n h s = Some r"
  shows "dosiz_call P n' h s = Some r"
proof -
  note i21 = below_sys_int21 [OF assms(1), of P] and i31 = below_sys_int31 [OF assms(1), of P]
  note d = belowD [OF i21] belowD [OF below_bits32 [OF i21]] belowD [OF i31] belowD [OF below_bits32 [OF i31]]
    belowD [OF below_rmcb [OF assms(1)]]
  from assms(2) show ?thesis by (cases h) (simp_all only: dosiz_call_def Let_def handler.case d)
qed

lemma below_step:
  assumes "below n n'"
  shows "below (cpu_step E C (dosiz_call P n)) (cpu_step E C (dosiz_call P n'))"
  unfolding below_def cpu_step_def invoke_def Let_def
  by (auto dest: below_call [OF assms] split: option.splits)

lemma fold_none: "fold (\<lambda>h r. case r of None \<Rightarrow> None | Some s \<Rightarrow> map_option snd (call h s)) hs None = None"
  by (induction hs) simp_all

lemma below_all: "below n n' \<Longrightarrow> below (call_all (dosiz_call P n) hs) (call_all (dosiz_call P n') hs)"
proof (induction hs)
  case (Cons h hs)
  show ?case
    unfolding below_def
  proof (intro allI impI)
    fix s t assume a: "call_all (dosiz_call P n) (h # hs) s = Some t"
    then obtain r where r: "dosiz_call P n h s = Some r" and t: "call_all (dosiz_call P n) hs (snd r) = Some t"
      by (cases "dosiz_call P n h s") (auto simp: call_all_def fold_none)
    from below_call [OF Cons.prems r] belowD [OF Cons.IH [OF Cons.prems] t]
    show "call_all (dosiz_call P n') (h # hs) s = Some t" by (simp add: call_all_def)
  qed
qed (simp add: call_all_def below_def)

lemma below_poll:
  assumes "below n n'"
  shows "below (poll_ticks E C (dosiz_call P n)) (poll_ticks E C (dosiz_call P n'))"
  unfolding below_def poll_ticks_def fire_ticks_def Let_def
  by (auto dest: belowD [OF below_all [OF assms]])

lemma below_round: "below n n' \<Longrightarrow> below (loop_round E C (dosiz_call P n)) (loop_round E C (dosiz_call P n'))"
  using belowD [OF below_step] belowD [OF below_poll]
  by (fastforce simp: below_def [of "loop_round E C (dosiz_call P n)"] loop_round_def split: if_splits option.splits)

lemma below_rounds:
  assumes "run_rounds E C (dosiz_call P n) s k t" and "below n n'"
  shows "run_rounds E C (dosiz_call P n') s k t"
  using assms
proof (induction rule: run_rounds.induct)
  case (last s t)
  then show ?case using belowD [OF below_round] by (intro run_rounds.last) blast
next
  case (on s u k t)
  then show ?case using belowD [OF below_round] by (intro run_rounds.on [where u = u]) blast+
qed

lemma below_machine: "below n n' \<Longrightarrow> below (DOSBOX_RunMachine E C (dosiz_call P n)) (DOSBOX_RunMachine E C (dosiz_call P n'))"
  unfolding below_def [of "DOSBOX_RunMachine E C (dosiz_call P n)"] DOSBOX_RunMachine_def Let_def
  using loop_run_rounds run_rounds_loop below_rounds by (smt (verit) map_option_eq_Some)

lemma nested_run_below: "below (nested_run P n) (nested_run P (n + k))"
proof (induction n)
  case (Suc n)
  then show ?case using below_machine by simp
qed (simp add: below_def)

section \<open>Ending the program\<close>

lemma dos_of_more:
  fixes a b :: "('m, 'h, 'z) dos_scheme"
  assumes "arenas.more a = arenas.more b"
  shows "s_exit_code a = s_exit_code b" "s_process_stack a = s_process_stack b"
  using assms by (cases a; cases b; simp)+

lemma video_vars:
  fixes s t :: "('m, 'o, 'p, 'b, 'h, 'e, 'z) boot_scheme"
  assumes "b_video s = b_video t"
  shows "s_exit_code (video_view s) = s_exit_code (video_view t)" "s_process_stack (video_view s) = s_process_stack (video_view t)"
  using dos_of_more [of "arenas.extend (arenas_of s) (b_video s)" "arenas.extend (arenas_of t) (b_video t)"] assms
  by (simp_all add: video_view_def arenas.defs)

lemma in_xms_video [simp]: "b_video (in_xms f s) = b_video s" "shim.shutdown_requested (in_xms f s) = shim.shutdown_requested s"
  by (cases s; simp add: in_xms_def Let_def with_arenas_def with_machine_def machine.defs)+

lemma put_kernel_vars:
  "s_exit_code (video_view (put_kernel k)) = s_exit_code k" "s_process_stack (video_view (put_kernel k)) = s_process_stack k"
  "shim.shutdown_requested (put_kernel k) = dos.shutdown_requested k"
proof -
  let ?d = "dos.extend (dos.truncate k) (dos.more (video_view (kernel.more k)))"
  have v: "b_video (put_kernel k) = arenas.more ?d" by (simp add: put_kernel_def put_video_def Let_def)
  have "s_exit_code (video_view (put_kernel k)) = s_exit_code ?d" "s_process_stack (video_view (put_kernel k)) = s_process_stack ?d"
    using dos_of_more [of "arenas.extend (arenas_of (put_kernel k)) (b_video (put_kernel k))" ?d] v by (simp_all add: video_view_def arenas.defs)
  then show "s_exit_code (video_view (put_kernel k)) = s_exit_code k" "s_process_stack (video_view (put_kernel k)) = s_process_stack k"
    by (simp_all add: dos.defs)
  show "shim.shutdown_requested (put_kernel k) = dos.shutdown_requested k"
    by (simp add: put_kernel_def put_video_def Let_def dos.defs)
qed

lemma kernel_regs [simp]: "reg_ah (kernel_view s) = reg_ah s" "reg_al (kernel_view s) = reg_al s"
  by (simp_all add: kernel_view_def video_view_def arenas_of_def reg_defs machine.defs arenas.defs dos.defs kernel.defs)

lemma kernel_stack [simp]: "s_process_stack (kernel_view s) = s_process_stack (video_view s)"
  by (simp add: kernel_view_def dos.defs kernel.defs)

text \<open>AH=4Ch of the outermost program: the exit code and the shutdown request, seen through the views.\<close>

lemma sys_int21_exit:
  assumes "reg_ah s = 0x4C" and "s_process_stack (video_view s) = []"
  shows "\<exists>t. sys_int21 P nest s = Some (True, t) \<and> s_exit_code (video_view t) = uint (reg_al s) \<and> shim.shutdown_requested t"
proof -
  have "dosiz_int21 (h_emu P) (h_os P) (sys_exec P nest) (kernel_view s) = Some (True, int21_4C (kernel_view s))"
    using assms by (simp add: dosiz_int21_def)
  moreover have "int21_4C (kernel_view s) = (kernel_view s)\<lparr>s_exit_code := uint (reg_al s), dos.shutdown_requested := True\<rparr>"
    using assms by (simp add: int21_4C_def)
  ultimately show ?thesis by (simp add: sys_int21_def put_kernel_vars)
qed

lemma sync_vars [simp]:
  "b_video (sync_from_emu E C s) = b_video s" "b_video (sync_to_emu C t) = b_video t" "shim.shutdown_requested (sync_to_emu C t) = shim.shutdown_requested t"
  by (simp_all add: sync_from_emu_def sync_to_emu_def Let_def)

text \<open>AH=4Ch of a child: the exit code goes to its entry on the process stack.\<close>

lemma sys_int21_child_exit:
  assumes "reg_ah s = 0x4C" and "s_process_stack (video_view s) = p # ps"
  shows "\<exists>t. sys_int21 P nest s = Some (True, t) \<and> s_process_stack (video_view t) = p\<lparr>child_exit_code := ucast (reg_al s)\<rparr> # ps"
proof -
  have "dosiz_int21 (h_emu P) (h_os P) (sys_exec P nest) (kernel_view s) = Some (True, int21_4C (kernel_view s))"
    using assms by (simp add: dosiz_int21_def)
  then show ?thesis using assms(2) by (simp add: sys_int21_def put_kernel_vars int21_4C_def)
qed

text \<open>A step that runs the INT 21h handler for AH=4Ch ends the run loop.\<close>

lemma stop_round:
  fixes u :: "('m, 'o, 'p, 'b, 'h, 'e) system"
  assumes "cpu_step E C (dosiz_call P nest) u = invoke C (dosiz_call P nest) Dosiz_int21 ((sync_from_emu E C u)\<lparr>reg_eip := get_ip C (mem u) + 4\<rparr>)"
    and "\<not> shim.shutdown_requested u" and "\<not> emu_halted C (mem u)"
    and "sys_int21 P nest ((sync_from_emu E C u)\<lparr>reg_eip := get_ip C (mem u) + 4\<rparr>) = Some (True, t)"
  shows "\<exists>w. run_loop E C (dosiz_call P nest) u = Some w \<and> b_video w = b_video t \<and> shim.shutdown_requested w = shim.shutdown_requested t"
  by (subst run_loop.simps) (simp add: assms invoke_def dosiz_call_def)

lemma exit_round:
  fixes u :: "('m, 'o, 'p, 'b, 'h, 'e) system"
  assumes "cpu_step E C (dosiz_call P nest) u = invoke C (dosiz_call P nest) Dosiz_int21 ((sync_from_emu E C u)\<lparr>reg_eip := get_ip C (mem u) + 4\<rparr>)"
    and "\<not> shim.shutdown_requested u" and "\<not> emu_halted C (mem u)" and "hi8 (lo16 (get_reg32 C (mem u) 0)) = 0x4C"
  shows "s_process_stack (video_view u) = [] \<Longrightarrow> \<exists>w. run_loop E C (dosiz_call P nest) u = Some w \<and> shim.shutdown_requested w
      \<and> s_exit_code (video_view w) = uint (lo8 (lo16 (get_reg32 C (mem u) 0)))"
    and "s_process_stack (video_view u) = p # ps \<Longrightarrow> \<exists>w. run_loop E C (dosiz_call P nest) u = Some w
      \<and> s_process_stack (video_view w) = p\<lparr>child_exit_code := ucast (lo8 (lo16 (get_reg32 C (mem u) 0)))\<rparr> # ps"
proof -
  let ?s = "(sync_from_emu E C u)\<lparr>reg_eip := get_ip C (mem u) + 4\<rparr>"
  have regs: "reg_ah ?s = 0x4C" "reg_al ?s = lo8 (lo16 (get_reg32 C (mem u) 0))" using assms(4) by (simp_all add: reg_defs sync_from_emu_def Let_def)
  have st: "s_process_stack (video_view ?s) = s_process_stack (video_view u)" using video_vars(2) [of ?s u] by simp
  note stop = stop_round [OF assms(1-3)]
  show "\<exists>w. run_loop E C (dosiz_call P nest) u = Some w \<and> shim.shutdown_requested w
      \<and> s_exit_code (video_view w) = uint (lo8 (lo16 (get_reg32 C (mem u) 0)))" if "s_process_stack (video_view u) = []"
    using sys_int21_exit [of ?s P nest] stop video_vars(1) regs st that by metis
  show "\<exists>w. run_loop E C (dosiz_call P nest) u = Some w
      \<and> s_process_stack (video_view w) = p\<lparr>child_exit_code := ucast (lo8 (lo16 (get_reg32 C (mem u) 0)))\<rparr> # ps"
    if "s_process_stack (video_view u) = p # ps"
    using sys_int21_child_exit [of ?s p ps P nest] stop video_vars(2) regs st that by metis
qed

section \<open>Properties\<close>

text \<open>The nesting bound is no restriction on results. What a run with handlers nested at most \<open>n\<close> deep returns (children, real-mode
  calls and callbacks inside each other included), a run with any larger bound returns as well: the state the emulator
  ends in depends on the program and not on the bound.\<close>

theorem nested_run_stable:
  assumes "nested_run P n s = Some t" and "n \<le> m"
  shows "nested_run P m s = Some t"
proof -
  obtain k where "m = n + k" using assms(2) by (auto simp: le_iff_add)
  then show ?thesis using belowD [OF nested_run_below assms(1)] by simp
qed

text \<open>C34: a program that asks to end, ends. After the start-up, when the CPU is at the native opcode of the stub that vector 21h leads to, with
  AH=4Ch, no parent process and memory and tables as the start-up left them, the run loop with the handlers of all components returns
  after this one step, with AL as the exit code of the emulator and the shutdown flag set.\<close>

theorem program_exits:
  fixes s :: "('m, 'o, 'p, 'b, 'h, 'e) system" and P :: "('m, 'c, 'o, 'p, 'b, 'h, 'e) host"
  defines "E \<equiv> h_emu P" and "C \<equiv> h_cpu P"
  assumes "emu88_engine E" and "boot_ram E (mem s)" and "svga_keeps E (h_svga P)" and "eth_open (h_eth P) ''slirp'' = None"
    and "0x40 \<le> unat (dos_next_para s)" and "g_cb_allocated s = (\<lambda>_. False)"
  shows "let t = boot_install E (h_svga P) (h_eth P) (program_init E (h_dev P) cfg cwd window audio dump s) in
    \<exists>cb ty. mem_readd E (mem t) (ucast (0x21 :: u8) * 4) = CALLBACK_RealPointer cb
      \<and> (\<forall>u :: ('m, 'o, 'p, 'b, 'h, 'e) system. fetch_mem E (mem u) = fetch_mem E (mem t) \<and> g_cb_handlers u = g_cb_handlers t
           \<and> \<not> paging_enabled C (mem u) \<and> seg_cache_base E (mem u) CS + get_ip C (mem u) = stub_entry cb ty
           \<and> \<not> shim.shutdown_requested u \<and> \<not> emu_halted C (mem u) \<and> hi8 (lo16 (get_reg32 C (mem u) 0)) = 0x4C
           \<and> s_process_stack (video_view u) = [] \<longrightarrow>
         (\<exists>w. run_loop E C (dosiz_call P nest) u = Some w \<and> shim.shutdown_requested w
           \<and> s_exit_code (video_view w) = uint (lo8 (lo16 (get_reg32 C (mem u) 0)))))"
proof -
  let ?t = "boot_install E (h_svga P) (h_eth P) (program_init E (h_dev P) cfg cwd window audio dump s)" and ?call = "dosiz_call P nest"
  have "(0x21 :: u8) \<noteq> 0x60" and vh: "vector_handler 0x21 = Dosiz_int21" by (simp_all add: vector_handler_def boot_vectors_def)
  note v = installed_vector [OF boot_installed [OF assms(3-8)] this(1), where C = C and call = "dosiz_call P nest", unfolded vh]
  from v obtain cb ty where cb: "mem_readd E (mem ?t) (ucast (0x21 :: u8) * 4) = CALLBACK_RealPointer cb"
    and st: "fetch_mem E (mem u) = fetch_mem E (mem ?t) \<and> g_cb_handlers u = g_cb_handlers ?t \<and> \<not> paging_enabled C (mem u)
        \<and> seg_cache_base E (mem u) CS + get_ip C (mem u) = stub_entry cb ty
      \<Longrightarrow> cpu_step E C ?call u = invoke C ?call Dosiz_int21 ((sync_from_emu E C u)\<lparr>reg_eip := get_ip C (mem u) + 4\<rparr>)"
    for u :: "('m, 'o, 'p, 'b, 'h, 'e) system" by blast
  show ?thesis unfolding Let_def by (intro exI [of _ cb] exI [of _ ty] conjI cb allI impI exit_round(1) st; elim conjE; (intro conjI)?; assumption)
qed

section \<open>A concrete machine\<close>

definition pc_host :: "(pc_state, unit, unit, unit, unit, int list \<times> u8 list, unit) host" where
  "pc_host = \<lparr>h_emu = pc, h_cpu = pc_cpu, h_svga = pc_svga, h_eth = no_ethernet, h_dev = sample_chips, h_os = sample_os, h_env = (\<lambda>_. None),
     h_file = (\<lambda>_ _. []), h_prep = (\<lambda>_ d. d), h_dbg = DebugSettings (\<lambda>_. None), h_present = id, h_pump = id, h_tick = id\<rparr>"

lemma pc_host_engine [simp]: "h_emu pc_host = pc" "h_cpu pc_host = pc_cpu" "h_svga pc_host = pc_svga" "h_eth pc_host = no_ethernet"
  by (simp_all add: pc_host_def)

definition sys_start :: "(pc_state, unit, unit, unit, int list \<times> u8 list, unit) system" where
  "sys_start = boot.extend boot_start (system.fields no_fault \<lparr>interval_ms = -1, shot_counter = 0\<rparr>)"

lemma sys_start_ready: "0x40 \<le> unat (dos_next_para sys_start)" "g_cb_allocated sys_start = (\<lambda>_. False)"
  by (simp_all add: sys_start_def boot_start_def system.defs shim.defs machine.defs boot.defs)

lemma pc_ready: "boot_ram pc m" "svga_keeps pc pc_svga" "eth_open no_ethernet ''slirp'' = None"
  by (simp_all add: boot_ram_def pc_def svga_keeps_def pc_svga_def no_ethernet_def)

text \<open>The CPU at linear address \<open>a\<close> in the state \<open>s\<close>, with AX=4C07 and no parent process.\<close>

definition exiting_at :: "u32 \<Rightarrow> (pc_state, unit, unit, unit, int list \<times> u8 list, unit) system
    \<Rightarrow> (pc_state, unit, unit, unit, int list \<times> u8 list, unit) system" where
  "exiting_at a s = (wr (\<lambda>m. m\<lparr>pc_ip := 0, pc_bases := (\<lambda>_. a), pc_halted := False, pc_regs := (\<lambda>_. 0)(0 := 0x4C07)\<rparr>) s)
     \<lparr>b_video := b_video sys_start, shim.shutdown_requested := False\<rparr>"

lemma start_no_parent:
  fixes s :: "(pc_state, unit, unit, unit, int list \<times> u8 list, unit) system"
  shows "b_video s = b_video sys_start \<Longrightarrow> s_process_stack (video_view s) = []"
  using video_vars(2) [of s sys_start] by (simp add: sys_start_def boot_start_def video_static_def sample_dos_def video_view_def arenas_of_def system.defs shim.defs machine.defs boot.defs arenas.defs dos.defs video.defs)

lemma exiting_at_ready:
  "fetch_mem pc (mem (exiting_at a s)) = fetch_mem pc (mem s)" "g_cb_handlers (exiting_at a s) = g_cb_handlers s"
  "\<not> paging_enabled pc_cpu (mem (exiting_at a s))" "seg_cache_base pc (mem (exiting_at a s)) CS + get_ip pc_cpu (mem (exiting_at a s)) = a"
  "\<not> shim.shutdown_requested (exiting_at a s)" "\<not> emu_halted pc_cpu (mem (exiting_at a s))"
  "hi8 (lo16 (get_reg32 pc_cpu (mem (exiting_at a s)) 0)) = 0x4C" "lo8 (lo16 (get_reg32 pc_cpu (mem (exiting_at a s)) 0)) = 7"
  "s_process_stack (video_view (exiting_at a s)) = []"
  by (simp_all add: exiting_at_def start_no_parent) (simp_all add: wr_def pc_def pc_cpu_def, simp_all add: hi8_def lo16_def lo8_def)

theorem program_exits_witness:
  "\<exists>u w. run_loop pc pc_cpu (dosiz_call pc_host (nested_run pc_host 3)) u = Some w \<and> shim.shutdown_requested w \<and> s_exit_code (video_view w) = 7"
proof -
  let ?t = "boot_install pc pc_svga no_ethernet (program_init pc sample_chips sample_config (Some ''/'') True False False sys_start)"
  have "h_dev pc_host = sample_chips" by (simp add: pc_host_def)
  from program_exits [of pc_host sys_start sample_config "Some ''/''" True False False "nested_run pc_host 3", unfolded pc_host_engine this, OF pc_ram.emu88_engine_axioms pc_ready sys_start_ready]
  obtain cb ty where run: "\<And>u. fetch_mem pc (mem u) = fetch_mem pc (mem ?t) \<and> g_cb_handlers u = g_cb_handlers ?t \<and> \<not> paging_enabled pc_cpu (mem u)
        \<and> seg_cache_base pc (mem u) CS + get_ip pc_cpu (mem u) = stub_entry cb ty \<and> \<not> shim.shutdown_requested u
        \<and> \<not> emu_halted pc_cpu (mem u) \<and> hi8 (lo16 (get_reg32 pc_cpu (mem u) 0)) = 0x4C \<and> s_process_stack (video_view u) = []
      \<Longrightarrow> \<exists>w. run_loop pc pc_cpu (dosiz_call pc_host (nested_run pc_host 3)) u = Some w \<and> shim.shutdown_requested w
           \<and> s_exit_code (video_view w) = uint (lo8 (lo16 (get_reg32 pc_cpu (mem u) 0)))"
    unfolding Let_def by blast
  have "\<exists>w. run_loop pc pc_cpu (dosiz_call pc_host (nested_run pc_host 3)) (exiting_at (stub_entry cb ty) ?t) = Some w
      \<and> shim.shutdown_requested w \<and> s_exit_code (video_view w) = 7"
    using run [of "exiting_at (stub_entry cb ty) ?t"] by (simp add: exiting_at_ready)
  then show ?thesis by blast
qed

text \<open>The registers hold AX=4C07 and the address of a callback's native opcode, whose handler is the INT 21h one.\<close>

definition sys_at_stub :: "(pc_state, unit, unit, unit, int list \<times> u8 list, unit) system" where
  "sys_at_stub = (wr (\<lambda>m. m\<lparr>pc_bytes := (\<lambda>_. 0)(0x400 := 0xFE, 0x401 := 0x38, 0x402 := 5)\<rparr>) sys_start)
     \<lparr>reg_eax := 0x4C07, reg_eip := 0, seg_phys := (\<lambda>_. 0x400), g_cb_handlers := (\<lambda>_. None)(5 := Some Dosiz_int21)\<rparr>"

lemma sys_at_stub_runs: "\<exists>t. DOSBOX_RunMachine pc pc_cpu (dosiz_call pc_host nest) sys_at_stub = Some t"
proof -
  define u where "u = (sync_to_emu pc_cpu sys_at_stub)\<lparr>g_run_depth := g_run_depth (sync_to_emu pc_cpu sys_at_stub) + 1\<rparr>"
  have m: "pc_bytes (mem u) = (\<lambda>_. 0)(0x400 := 0xFE, 0x401 := 0x38, 0x402 := 5)" "pc_bases (mem u) CS = 0x400" "pc_ip (mem u) = 0"
    "pc_regs (mem u) 0 = 0x4C07" "\<not> pc_halted (mem u)"
    by (simp_all add: u_def sys_at_stub_def sync_to_emu_def pc_cpu_def wr_def Let_def regs8_def sregs6_def sys_start_def boot_start_def pc_start_def pc_frame_def system.defs shim.defs machine.defs boot.defs upt_rec)
  have "callback_number pc pc_cpu (mem u) = Some 5"
    using m by (simp add: callback_number_def peekb_def pc_def pc_cpu_def Let_def mk16_def)
  moreover have "g_cb_handlers u 5 = Some Dosiz_int21" by (simp add: u_def sys_at_stub_def sync_to_emu_def Let_def)
  ultimately have st: "cpu_step pc pc_cpu call u = invoke pc_cpu call Dosiz_int21 ((sync_from_emu pc pc_cpu u)\<lparr>reg_eip := get_ip pc_cpu (mem u) + 4\<rparr>)" for call
    by (simp add: cpu_step_def CB_MAX_def sync_from_emu_def Let_def)
  have "s_process_stack (video_view u) = []" by (rule start_no_parent) (simp add: u_def sys_at_stub_def wr_def sync_to_emu_def Let_def)
  moreover have "\<not> shim.shutdown_requested u"
    by (simp add: u_def sys_at_stub_def wr_def sync_to_emu_def Let_def sys_start_def boot_start_def system.defs shim.defs machine.defs boot.defs)
  ultimately obtain w where "run_loop pc pc_cpu (dosiz_call pc_host nest) u = Some w"
    using exit_round(1) [of pc pc_cpu pc_host nest u] st m by (auto simp: pc_cpu_def hi8_def lo16_def)
  then show ?thesis by (simp add: DOSBOX_RunMachine_def u_def Let_def)
qed

theorem nested_run_stable_witness:
  "\<exists>t. nested_run pc_host 1 sys_at_stub = Some t \<and> nested_run pc_host 9 sys_at_stub = Some t"
proof -
  from sys_at_stub_runs obtain t where "nested_run pc_host 1 sys_at_stub = Some t" by auto
  then show ?thesis using nested_run_stable [of pc_host 1 sys_at_stub t 9] by simp
qed

section \<open>A child in the run loop\<close>

lemma put_kernel_machine:
  "mem (put_kernel k) = mem k" "reg_eax (put_kernel k) = reg_eax k" "reg_eip (put_kernel k) = reg_eip k" "seg_phys (put_kernel k) = seg_phys k"
  by (simp_all add: put_kernel_def put_video_def in_xms_def with_arenas_def with_machine_def arenas_of_def Let_def machine.defs arenas.defs dos.defs)

lemma with_arenas_handlers [simp]: "g_cb_handlers (with_arenas d s) = g_cb_handlers s"
  by (cases s) (simp add: with_arenas_def with_machine_def machine.defs)

lemma put_kernel_handlers: "g_cb_handlers (put_kernel k) = g_cb_handlers (kernel.more k)"
  by (simp add: put_kernel_def put_video_def in_xms_def Let_def)

text \<open>A parent in real mode, and an image whose first instruction is the native opcode of the INT 21h stub, entered with AX=4C05.\<close>

definition exec_parent :: "(pc_state, unit, unit, unit, int list \<times> u8 list, unit) system" where
  "exec_parent = (wr (\<lambda>m. m\<lparr>pc_bytes := (\<lambda>_. 0)(0x30200 := 0xFE, 0x30201 := 0x38, 0x30202 := 5)\<rparr>) sys_start)
     \<lparr>g_cb_handlers := (\<lambda>_. None)(5 := Some Dosiz_int21)\<rparr>"

definition exec_image :: initial_regs where
  "exec_image = real_regs 0x3010 0x100 0x3010 0xFFFE 0x4C05"

definition exec_parent_kernel where "exec_parent_kernel = kernel_view exec_parent"

definition run_nested where "run_nested n k = map_option kernel_view (nested_run pc_host n (put_kernel k))"

lemma exec_parent_machine:
  "mem exec_parent_kernel = pc_frame\<lparr>pc_bytes := (\<lambda>_. 0)(0x30200 := 0xFE, 0x30201 := 0x38, 0x30202 := 5)\<rparr>"
  "cpu_cr0 exec_parent_kernel = 0" "\<not> cpu_pmode exec_parent_kernel" "seg_val exec_parent_kernel = (\<lambda>_. 0x2000)"
  "seg_phys exec_parent_kernel = (\<lambda>_. 0x20000)" "reg_esp exec_parent_kernel = 0x100" "reg_esi exec_parent_kernel = 5"
  "g_cb_handlers (kernel.more exec_parent_kernel) 5 = Some Dosiz_int21" "\<not> dos.shutdown_requested exec_parent_kernel"
  by (simp_all add: exec_parent_kernel_def exec_parent_def kernel_view_def video_view_def arenas_of_def wr_def sys_start_def boot_start_def pc_start_def
      system.defs shim.defs machine.defs boot.defs arenas.defs dos.defs kernel.defs)

lemma child_start_machine:
  fixes s :: "(pc_state, 'h, 'z) kernel_scheme" and cpsp cenv :: u16
  defines "k \<equiv> child_start pc pc_cpu exec_image cpsp cenv s"
  assumes "cpu_cr0 s = 0"
  shows "pc_bytes (mem k) = pc_bytes (mem s)" "pc_halted (mem k) = pc_halted (mem s)" "reg_eax k = 0x4C05" "reg_eip k = 0x100" "seg_phys k CS = 0x30100"
    "kernel.more k = kernel.more s" "dos.shutdown_requested k = dos.shutdown_requested s" "s_process_stack k = process_of cpsp cenv s # s_process_stack s"
  using assms(2) unfolding k_def
  by (simp_all add: child_start_def enter_child_def push_process_def upd_dpmi_def SegSet16_def mirror_seg_def Let_def exec_image_def real_regs_def pc_def seg_lin_def)

text \<open>The child's run: one step, which is the INT 21h handler of the machine.\<close>

lemma nested_child_runs:
  fixes cpsp cenv :: u16
  defines "k \<equiv> child_start pc pc_cpu exec_image cpsp cenv exec_parent_kernel"
  shows "\<exists>w. run_nested 1 k = Some w
    \<and> s_process_stack w = (process_of cpsp cenv exec_parent_kernel)\<lparr>child_exit_code := 5\<rparr> # s_process_stack exec_parent_kernel"
proof -
  note k = child_start_machine [OF exec_parent_machine(2), of cpsp cenv, folded k_def]
  define u0 where "u0 = sync_to_emu pc_cpu (put_kernel k)"
  define u where "u = u0\<lparr>g_run_depth := g_run_depth u0 + 1\<rparr>"
  have m: "pc_bytes (mem u) = (\<lambda>_. 0)(0x30200 := 0xFE, 0x30201 := 0x38, 0x30202 := 5)" "pc_bases (mem u) CS = 0x30100" "pc_ip (mem u) = 0x100"
    "pc_regs (mem u) 0 = 0x4C05" "\<not> pc_halted (mem u)"
    using k by (simp_all add: u_def u0_def sync_to_emu_def put_kernel_machine exec_parent_machine pc_cpu_def pc_frame_def Let_def regs8_def sregs6_def upt_rec)
  have h: "g_cb_handlers u 5 = Some Dosiz_int21" "\<not> shim.shutdown_requested u"
    using k exec_parent_machine by (simp_all add: u_def u0_def sync_to_emu_def Let_def put_kernel_handlers put_kernel_vars)
  have "callback_number pc pc_cpu (mem u) = Some 5"
    using m by (simp add: callback_number_def peekb_def pc_def pc_cpu_def Let_def mk16_def)
  with h have st: "cpu_step pc pc_cpu call u = invoke pc_cpu call Dosiz_int21 ((sync_from_emu pc pc_cpu u)\<lparr>reg_eip := get_ip pc_cpu (mem u) + 4\<rparr>)" for call
    by (simp add: cpu_step_def CB_MAX_def sync_from_emu_def Let_def)
  have ps: "s_process_stack (video_view u) = process_of cpsp cenv exec_parent_kernel # s_process_stack exec_parent_kernel"
    using video_vars(2) [of u "put_kernel k"] k by (simp add: u_def u0_def put_kernel_vars)
  obtain w where w: "run_loop pc pc_cpu (dosiz_call pc_host (nested_run pc_host 0)) u = Some w"
      "s_process_stack (video_view w) = (process_of cpsp cenv exec_parent_kernel)\<lparr>child_exit_code := 5\<rparr> # s_process_stack exec_parent_kernel"
    using exit_round(2) [of pc pc_cpu pc_host "nested_run pc_host 0" u, OF st h(2) _ _ ps] m by (auto simp: pc_cpu_def hi8_def lo8_def lo16_def)
  define w' where "w' = sync_from_emu pc pc_cpu (w\<lparr>g_run_depth := g_run_depth w - 1\<rparr>)"
  have "nested_run pc_host 1 (put_kernel k) = Some w'"
    using w(1) by (simp add: DOSBOX_RunMachine_def w'_def u_def u0_def Let_def)
  moreover have "s_process_stack (video_view w') = s_process_stack (video_view w)" by (rule video_vars) (simp add: w'_def)
  ultimately show ?thesis using w(2) by (simp add: run_nested_def)
qed

theorem exec_restores_parent_witness:
  "\<exists>t. run_child pc pc_cpu (run_nested 1) exec_image 0x3000 0x2800 exec_parent_kernel = Some t \<and> s_last_child_exit t = 5 \<and> reg_al t = 5
    \<and> reg_esi t = 5 \<and> reg_esp t = 0x100 \<and> seg_val t SS = 0x2000 \<and> same_tables pc pc_cpu exec_parent_kernel t"
proof -
  obtain w where w: "run_nested 1 (child_start pc pc_cpu exec_image 0x3000 0x2800 exec_parent_kernel) = Some w"
      "s_process_stack w = (process_of 0x3000 0x2800 exec_parent_kernel)\<lparr>child_exit_code := 5\<rparr> # s_process_stack exec_parent_kernel"
    using nested_child_runs by blast
  have ram: "kernel_ram pc (mem w)" by (simp add: kernel_ram_def pc_def)
  have cf: "unat (cf_addr exec_parent_kernel) + 2 \<le> 0x100000"
    by (simp add: cf_addr_def reg_sp_def lo16_def exec_parent_machine)
  from exec_restores_parent [where run = "run_nested 1", OF pc_exec.exec_engine_axioms w(1) ram w(2) _ _ _ cf] show ?thesis
    by (auto simp: exec_parent_machine same_registers_def seg_lin_def)
qed

end
