(* ===== verification/Spec2Isabelle.thy ===== *)
theory Spec2Isabelle
  imports System Hardware Loader
begin

text \<open>
  A verification development for dosiz, a DOS emulator that runs one DOS program on a PC engine and answers the
  program's interrupts on the host.

  The program. The CPU and the memory are \<open>emu88\<close>, a git submodule. \<open>src/compat/dosbox_compat\<close> is a shim
  that gives \<open>src/bridge.cc\<close> the interface of DOSBox: memory accessors, a register file copied to and from the engine, callbacks
  (stubs in guest memory that call a native handler) and the run loop. \<open>bridge.cc\<close> holds the DOS kernel (INT 21h), the BIOS services (INT 10h, 15h, 16h, 1Ah,
  2Fh, 33h, 80h), the memory managers (MCB chain, extended-memory arena, XMS, EMS and VCPI), the DPMI host (INT 31h, its
  entry point, real-mode calls and callbacks, exceptions), the packet driver (INT 60h), the program loader, the execution of child
  processes and the start-up, which installs all of them as callbacks and enters the program. \<open>hardware.cc\<close> holds the device ports, \<open>video.cc\<close> the VGA and VESA state and the software renderer,
  \<open>config.cc\<close>, \<open>dosiz.cc\<close> and \<open>debug_settings.cpp\<close> the configuration. All handlers share the guest memory and the register
  file; beyond these each component keeps a few static variables.

  How the code becomes definitions. A handler is a function from machine state to machine state; its name is the
  name of the C++ function, or \<open>int<n>_<AH>\<close> for a case of a dispatcher, and the dispatcher (\<open>dosiz_int21\<close>, \<open>dosiz_int31\<close>,
  \<open>dosiz_int67\<close>, \<open>dosiz_xms_driver\<close>, \<open>dosiz_int10\<close>, \<open>dosiz_int33\<close>) composes the cases in the order of the switch. The static
  variables of a file are the fields of a record, and a component that uses another's variables extends its
  record. Fixed-width integers are words of that width, so that sums and products wrap as in C++; \<open>size_t\<close>
  values that stay small are \<open>nat\<close>. A missing result is None: a pointer that is null, a lookup that fails, an error path,
  and (as the text of each theory says) behaviour that C++ leaves undefined or a loop that does not end. Loops are
  recursions over lists or numbers, functions with a termination proof, or \<open>partial_function (option)\<close> for
  loops that data in guest memory can make endless (\<open>mcb_walk\<close>, \<open>free_walk\<close>, \<open>print_dollar\<close>, \<open>wait_key\<close>, \<open>skip_blanks\<close>, \<open>glob_loop\<close>, \<open>run_loop\<close>); no
  definition of a component uses fuel, and the nesting bound of \<open>nested_run\<close> is shown not to matter for what it returns. That a loop returns is part of the theorem about it: the walk of the MCB chain in every reachable
  state, and the wildcard matcher on every input.

  Parameters. The engine is the record \<open>emu88\<close> of the functions the shim calls; the locale \<open>emu88_engine\<close> states that
  memory is little-endian RAM at the addresses \<open>is_ram\<close> (documented behaviour), and \<open>flat\<close>, a total memory of bytes,
  interprets it and serves the witnesses. The CPU is the record \<open>emu_cpu\<close>: its registers, segment loads and one instruction; the locales
  \<open>cpu_engine\<close>, \<open>pm_engine\<close> and \<open>exec_engine\<close> state the laws of a register file and of segment loads that the mode switches rely
  on, and the machine \<open>pc\<close> with \<open>pc_cpu\<close> interprets them. A handler that runs guest code takes the nested run as an argument, which \<open>System\<close> replaces by the run loop itself. The host operating system is the record \<open>os\<close> over an abstract host state (open, read,
  write, lseek, stat, readdir, time), the sound chips are \<open>devices\<close>, the frame buffer of the engine is \<open>svga\<close>,
  and the environment and the file system of the configuration are functions. Only the laws named in a theorem are assumed of them.

  The theories, in the order of their dependencies.
  \<^item> \<open>Prelude\<close>: integer types, \<open>named_theorems\<close>, lemmas on bytes, real-mode addresses and ordered maps.
  \<^item> \<open>Machine\<close>: \<open>compat/dosbox_compat\<close> as the handlers see it: \<open>mem_readb\<close> to \<open>mem_writed\<close>, registers and segments, the
    interrupt-frame helpers of \<open>bridge.cc\<close> (\<open>set_cf\<close>, \<open>return_error\<close>); \<open>same_outside\<close>, the frame condition all theories use.
  \<^item> \<open>Mcb\<close>: \<open>mcb_init\<close>, \<open>mcb_allocate\<close>, \<open>mcb_free\<close>, \<open>mcb_resize\<close> over the headers in guest memory. The abstract view is a list of
    blocks; the theorems say that the operations are first fit, release with forward merge and in-place
    resize on that list, and that every run of them, mixed with guest stores, keeps a well-formed chain.
  \<^item> \<open>PmArena\<close>: \<open>pm_alloc\<close>, \<open>pm_free\<close>, \<open>pm_resize\<close> over the list of busy blocks; sorted, disjoint, page-aligned; lowest fit; an
    allocation fails only when no gap is large enough.
  \<^item> \<open>Pool\<close>: the locale \<open>resource_pool\<close>, the contract of tables of numbered slots. Interpreted on the LDT bitmap, the DOS file
    handles, the EMS pages and the callback numbers.
  \<^item> \<open>Descriptors\<close>: entries of GDT, LDT and IDT in guest memory, the LDT bitmap and the search for a run of free slots.
  \<^item> \<open>Dpmi\<close>: INT 31h. A selector covers exactly the block it was allocated for, base and limit read back as set, memory
    handles of the two arenas cannot be confused, vectors read back.
  \<^item> \<open>Xms\<close>, \<open>Ems\<close>: the XMS driver and the EMS manager with its copy-flush page frame. Every handle names its
    own block in every reachable state, and no page has two owners; reachability counts the calls, because the code does not check its 16-bit handle
    counters, and the theorems say what is left when one has wrapped. Mapping a page preserves the contents of all pages.
  \<^item> \<open>Paths\<close>: guest strings, DOS to host translation, the wildcard matcher, mangled 8.3 names.
  \<^item> \<open>Bios\<close>: the 64-bit division trap, the tick counter, the keyboard ring (a queue of fifteen keys), teletype output.
  \<^item> \<open>Dos\<close>, \<open>Files\<close>, \<open>Int21\<close>: the variables of the kernel and its console services; the file services; the
    other functions and the dispatcher. Reads deliver the bytes of the file however the host splits them, open and close
    are inverse, a directory search delivers every entry once and ends, host descriptors are neither lost nor shared (but for the redirection
    of handles 3 and 4, which the theorem names).
  \<^item> \<open>Hardware\<close>: interrupt controller, timer channel 2, game port, audio. The two threads that share the word of pending
    interrupts are a step relation; no raised interrupt is lost.
  \<^item> \<open>Video\<close>: palette ports, mode sets, renderer, INT 10h with VESA, INT 33h. The renderer reads only video memory, and a text
    frame is the specified picture of the page.
  \<^item> \<open>Config\<close>: the .cfg parser with a printer as its inverse, program search, command line, environment switches.
  \<^item> \<open>Loader\<close>: COM, MZ and LE images, environment block and PSP. An MZ file becomes exactly its relocated image, the PSP is
    the documented 256 bytes, and an object of an LE file with a well-formed page table becomes exactly its image.
  \<^item> \<open>Cpu\<close>: the CPU side of the shim: \<open>sync_to_emu\<close>, \<open>sync_from_emu\<close>, \<open>CPU_IRET\<close>, \<open>CPU_JMP\<close>, table registers, the descriptor class, port routing.
  \<^item> \<open>Callbacks\<close>: callback numbers, stubs, handler objects, \<open>DOSBOX_RunMachine\<close> with interrupts and ticks. A stub leads to its handler
    whatever else is installed; the loop returns exactly when a stop, a halt or a shutdown is reached.
  \<^item> \<open>PmEntry\<close>: the tables and shims above 1 MB, \<open>dosiz_dpmi_entry\<close>, \<open>le_launch_pm_prep\<close>. The gate of every vector, for clients of both
    sizes: the entries the host has for 21h, 31h, 80h, 1Ah, 60h and the exceptions, the callback of the real-mode vector for all others.
  \<^item> \<open>Exec\<close>: AH=4Bh: the child's memory, environment and PSP, the snapshot of the parent, the nested run, the restore. The parent gets its
    state back whatever the child's run did, and the handler leaves the handle table to the child's own calls.
  \<^item> \<open>RealMode\<close>: AX=0300h to 0302h, the callbacks of AX=0303h, exceptions. Calls come back with the client's registers, a handled exception
    resumes the interrupted instruction, an exception loop is cut.
  \<^item> \<open>Pktdrv\<close>: INT 60h; a received frame is never overwritten before the guest has taken it.
  \<^item> \<open>Startup\<close>: \<open>dosiz_startup\<close> and \<open>run_program\<close> over the state of the whole program (\<open>boot\<close>), in which every component's variables are a
    field and the component's functions act through a view; every vector leads to the handler meant for it.
  \<^item> \<open>System\<close>: the handlers of all components given to the run loop (\<open>dosiz_call\<close>), each on its view of one state; \<open>nested_run\<close> closes the
    loop, since handlers run the machine again, at most a given number of times inside each other. Results do not depend on that bound,
    a program that calls AH=4Ch ends the emulator with its exit code, and a child that does returns to its parent.

  Bounds. Memory is 2^32 bytes; theorems that name a region assume it is RAM and does not wrap. The MCB chain lies in
  segments 2000h to A000h, the arena of extended memory starts at
  120000h, the EMS pool has 512 pages of 16 KiB.

  Where the code does not do what its comments say, the theorems state what it does, and the demonstrating lemmas
  (\<open>mcb_init_psp_block_short\<close>, \<open>ems_restore_keeps_mapping\<close>, \<open>ems_move_wraps_out_of_bounds\<close>, \<open>pm_resize_wraps\<close>, \<open>int31_resize_limit\<close>, \<open>int31_grow_wraps_to_zero\<close>,
  \<open>exact_mode_only_loses_path\<close>, \<open>xms_handle_counter_wraps\<close>, \<open>mangle_8_3_two_dots\<close>, \<open>le_copy_bytes_inside\<close>) stay beside the component.

  Not modelled, and why. The engine itself (instructions, paging, the devices' chips) is not in this repository. Machine creation and
  destruction (\<open>init_machine\<close>, \<open>shutdown_machine\<close>), the trace hooks and all messages on stderr print or call the engine only;
  \<open>display.cc\<close> is SDL input and output, its events are arguments of the keyboard, mouse and joystick functions. Of \<open>run_program\<close> the frame and
  audio dumps after the run are left out (the pixel data of a dump is \<open>ppm_body\<close>).
\<close>

end
